(* ===== verification/Kernel_Prelude.thy ===== *)
theory Kernel_Prelude
  imports "HOL-Library.Word" "HOL-Library.Monad_Syntax"
begin

text \<open>
  Shared vocabulary of the development: the C integer types as words, the kernel's error
  numbers, bounds-checked access to C arrays (the result \<^const>\<open>None\<close> is an access outside
  the object, undefined behaviour in C), and the generic facts about lists, modular indices
  and bit accumulation that the component theories use.
\<close>

unbundle bit_operations_syntax

section \<open>C types and error numbers\<close>

type_synonym u8 = "8 word"
type_synonym u16 = "16 word"
type_synonym u32 = "32 word"
type_synonym u64 = "64 word"

datatype errno = EINVAL | ENOBUFS | EFAULT | ENOMEM | ENOSPC | EBUSY | ENODEV
  | EUSERS | EINTR | ERESTARTSYS | ENOTTY | EOVERFLOW | ETIMEDOUT | EWOULDBLOCK | EOPNOTSUPP | EMFILE

text \<open>Their numbers, where the code stores a result or an error in one integer.\<close>

fun errno_num :: "errno \<Rightarrow> int" where
  "errno_num EINTR = 4" | "errno_num EWOULDBLOCK = 11" | "errno_num ENOMEM = 12" | "errno_num EFAULT = 14" | "errno_num EBUSY = 16"
| "errno_num ENODEV = 19" | "errno_num EINVAL = 22" | "errno_num EMFILE = 24" | "errno_num ENOTTY = 25" | "errno_num ENOSPC = 28"
| "errno_num EOVERFLOW = 75" | "errno_num EUSERS = 87" | "errno_num EOPNOTSUPP = 95" | "errno_num ENOBUFS = 105" | "errno_num ETIMEDOUT = 110"
| "errno_num ERESTARTSYS = 512"

lemma errno_num_pos: "0 < errno_num e"
  by (cases e) simp_all

text \<open>A call that returns an error number (\<open>Inl\<close>) or succeeds with a value (\<open>Inr\<close>).\<close>

type_synonym 'a result = "errno + 'a"

named_theorems mem_simps \<open>bounds-checked memory access\<close>
named_theorems ring_simps \<open>index arithmetic modulo a buffer size\<close>
named_theorems ir_const \<open>unfolding of the timing constants of an infrared protocol\<close>

section \<open>Bounds-checked C arrays\<close>

definition mem_read :: "'a list \<Rightarrow> nat \<Rightarrow> nat \<Rightarrow> 'a list option" where
  "mem_read d off n = (if off + n \<le> length d then Some (take n (drop off d)) else None)"

definition mem_write :: "'a list \<Rightarrow> nat \<Rightarrow> 'a list \<Rightarrow> 'a list option" where
  "mem_write d off bs =
     (if off + length bs \<le> length d then Some (take off d @ bs @ drop (off + length bs) d)
      else None)"

definition mem_get :: "'a list \<Rightarrow> nat \<Rightarrow> 'a option" where
  "mem_get d i = (if i < length d then Some (d ! i) else None)"

definition mem_set :: "'a list \<Rightarrow> nat \<Rightarrow> 'a \<Rightarrow> 'a list option" where
  "mem_set d i v = (if i < length d then Some (d[i := v]) else None)"

lemma mem_read_Some [mem_simps]:
  "off + n \<le> length d \<Longrightarrow> mem_read d off n = Some (take n (drop off d))"
  by (simp add: mem_read_def)

lemma mem_write_Some [mem_simps]:
  "off + length bs \<le> length d \<Longrightarrow>
   mem_write d off bs = Some (take off d @ bs @ drop (off + length bs) d)"
  by (simp add: mem_write_def)

lemma mem_get_Some [mem_simps]: "i < length d \<Longrightarrow> mem_get d i = Some (d ! i)"
  by (simp add: mem_get_def)

lemma mem_set_Some [mem_simps]: "i < length d \<Longrightarrow> mem_set d i v = Some (d[i := v])"
  by (simp add: mem_set_def)

lemma mem_write_length: "mem_write d off bs = Some d' \<Longrightarrow> length d' = length d"
  by (auto simp: mem_write_def split: if_splits)

text \<open>What an element of the array is after a block has been written over it.\<close>

lemma nth_overwrite:
  assumes "off + length bs \<le> length d" and "k < length d"
  shows "(take off d @ bs @ drop (off + length bs) d) ! k =
         (if off \<le> k \<and> k < off + length bs then bs ! (k - off) else d ! k)"
proof -
  have off: "off \<le> length d" using assms by simp
  show ?thesis
  proof (cases "k < off")
    case True
    with off show ?thesis by (simp add: nth_append)
  next
    case ge: False
    show ?thesis
    proof (cases "k < off + length bs")
      case True
      then have "k - off < length bs" using ge by linarith
      with True ge off show ?thesis by (simp add: nth_append)
    next
      case False
      then have "\<not> k - off < length bs" "off + length bs + (k - off - length bs) = k"
        by linarith+
      with False ge off assms show ?thesis by (simp add: nth_append)
    qed
  qed
qed

section \<open>Indices modulo a buffer size\<close>

lemma mod_add_less [ring_simps]:
  fixes a b n :: nat
  assumes "a < n" and "b \<le> n"
  shows "(a + b) mod n = (if a + b < n then a + b else a + b - n)"
proof (cases "a + b < n")
  case True
  then show ?thesis by simp
next
  case False
  then have "(a + b) mod n = (a + b - n) mod n" by (simp add: le_mod_geq)
  also have "\<dots> = a + b - n" using assms False by simp
  finally show ?thesis using False by simp
qed

lemma mod_wrap:
  fixes p sz len :: nat
  assumes "p \<le> sz" and "sz < p + len"
  shows "(p + len) mod sz = (len - (sz - p)) mod sz"
proof -
  have "p + len = sz + (len - (sz - p))" using assms by linarith
  then show ?thesis by (metis mod_add_self1)
qed

section \<open>Counters\<close>

lemma unat_inc: "unat (c :: u32) < 2 ^ 31 \<Longrightarrow> unat (c + 1) = Suc (unat c)"
  by (simp add: unat_word_ariths)

lemma inc_eq_iff: "unat (c :: u32) < 2 ^ 31 \<Longrightarrow> c + 1 = n \<longleftrightarrow> Suc (unat c) = unat n"
  by (simp add: word_unat_eq_iff unat_inc)

lemma count_step: "(c :: u32) < n \<Longrightarrow> c + 1 \<noteq> n \<Longrightarrow> c + 1 < n"
  by (simp add: inc_less_eq_iff order_less_le)

section \<open>Comparing words bit by bit\<close>

lemma upt_32: "[0..<32] = [0,1,2,3,4,5,6,7,8,9,10,11,12,13,14,15,16,17,18,19,20,21,22,23,24,25,26,27,28,29,30,31]"
  by (simp add: upt_rec)

lemma u32_eqI: "list_all (\<lambda>i. bit (a :: u32) i = bit b i) [0..<32] \<Longrightarrow> a = b"
  by (rule bit_word_eqI) (simp add: list_all_iff)

lemma upt_8: "[0..<8] = [0,1,2,3,4,5,6,7]"
  by (simp add: upt_rec)

lemma u8_eqI: "list_all (\<lambda>i. bit (a :: u8) i = bit b i) [0..<8] \<Longrightarrow> a = b"
  by (rule bit_word_eqI) (simp add: list_all_iff)

end
