(* ===== verification/Dvb_Ringbuffer.thy ===== *)
theory Dvb_Ringbuffer
  imports Kernel_Prelude
begin

text \<open>
  The ring buffer of the DVB core (\<^verbatim>\<open>dvb-core/dvb_ringbuffer.c\<close> and
  \<^verbatim>\<open>include/media/dvb_ringbuffer.h\<close>): the byte queue, its user-space variants and the
  packet layer on top of it. Memory barriers order the accesses of one reader and one writer;
  the operations are modelled as the atomic steps these barriers make of them. An operation
  that would touch memory outside \<^verbatim>\<open>data\<close> has the result \<^const>\<open>None\<close>.
  Object sizes are below \<open>2^63\<close>, so sums of \<^verbatim>\<open>size_t\<close> lengths are natural numbers; the one
  place where the unsigned wrap-around is visible, the subtraction in
  \<^verbatim>\<open>dvb_ringbuffer_pkt_next\<close>, is written out.
\<close>

section \<open>State and operations\<close>

record dvb_ringbuffer =
  rb_data :: "u8 list"
  rb_size :: nat
  pread :: nat
  pwrite :: nat
  rb_error :: int

definition PKT_READY :: u8 where "PKT_READY = 0"
definition PKT_DISPOSED :: u8 where "PKT_DISPOSED = 1"
definition DVB_RINGBUFFER_PKTHDRSIZE :: nat where "DVB_RINGBUFFER_PKTHDRSIZE = 3"

definition dvb_ringbuffer_init :: "u8 list \<Rightarrow> dvb_ringbuffer" where
  "dvb_ringbuffer_init d =
     \<lparr>rb_data = d, rb_size = length d, pread = 0, pwrite = 0, rb_error = 0\<rparr>"

definition dvb_ringbuffer_empty :: "dvb_ringbuffer \<Rightarrow> bool" where
  "dvb_ringbuffer_empty rb \<longleftrightarrow> pread rb = pwrite rb"

definition dvb_ringbuffer_free :: "dvb_ringbuffer \<Rightarrow> int" where
  "dvb_ringbuffer_free rb =
     (let free = int (pread rb) - int (pwrite rb);
          free = (if free \<le> 0 then free + int (rb_size rb) else free)
      in free - 1)"

definition dvb_ringbuffer_avail :: "dvb_ringbuffer \<Rightarrow> int" where
  "dvb_ringbuffer_avail rb =
     (let avail = int (pwrite rb) - int (pread rb)
      in if avail < 0 then avail + int (rb_size rb) else avail)"

definition dvb_ringbuffer_flush :: "dvb_ringbuffer \<Rightarrow> dvb_ringbuffer" where
  "dvb_ringbuffer_flush rb = rb\<lparr>pread := pwrite rb, rb_error := 0\<rparr>"

definition dvb_ringbuffer_reset :: "dvb_ringbuffer \<Rightarrow> dvb_ringbuffer" where
  "dvb_ringbuffer_reset rb = rb\<lparr>pread := 0, pwrite := 0, rb_error := 0\<rparr>"

text \<open>The flag of the result is the wake-up of the readers' wait queue.\<close>

definition dvb_ringbuffer_flush_spinlock_wakeup :: "dvb_ringbuffer \<Rightarrow> dvb_ringbuffer \<times> bool" where
  "dvb_ringbuffer_flush_spinlock_wakeup rb = (dvb_ringbuffer_flush rb, True)"

definition ring_split :: "nat \<Rightarrow> nat \<Rightarrow> nat \<Rightarrow> nat" where
  "ring_split p len sz = (if p + len > sz then sz - p else 0)"

text \<open>
  \<^verbatim>\<open>copy_to_user\<close> is the parameter \<open>ctu\<close>: the number of bytes left uncopied for a block of the
  given offset and length in the caller's buffer. The result carries the ring buffer even when
  the copy faults, because the first block may have been consumed by then.
\<close>

definition dvb_ringbuffer_read_user ::
  "(nat \<Rightarrow> nat \<Rightarrow> nat) \<Rightarrow> dvb_ringbuffer \<Rightarrow> nat \<Rightarrow> (dvb_ringbuffer \<times> u8 list result) option" where
  "dvb_ringbuffer_read_user ctu rb len =
     (let split = ring_split (pread rb) len (rb_size rb) in
      if split > 0 then do {
        b1 \<leftarrow> mem_read (rb_data rb) (pread rb) split;
        if ctu 0 split \<noteq> 0 then Some (rb, Inl EFAULT)
        else do {
          let todo = len - split;
          let rb1 = rb\<lparr>pread := 0\<rparr>;
          b2 \<leftarrow> mem_read (rb_data rb1) (pread rb1) todo;
          if ctu split todo \<noteq> 0 then Some (rb1, Inl EFAULT)
          else Some (rb1\<lparr>pread := (pread rb1 + todo) mod rb_size rb1\<rparr>, Inr (b1 @ b2))
        }
      } else do {
        b \<leftarrow> mem_read (rb_data rb) (pread rb) len;
        if ctu 0 len \<noteq> 0 then Some (rb, Inl EFAULT)
        else Some (rb\<lparr>pread := (pread rb + len) mod rb_size rb\<rparr>, Inr b)
      })"

definition dvb_ringbuffer_read ::
  "dvb_ringbuffer \<Rightarrow> nat \<Rightarrow> (dvb_ringbuffer \<times> u8 list) option" where
  "dvb_ringbuffer_read rb len =
     (let split = ring_split (pread rb) len (rb_size rb) in
      if split > 0 then do {
        b1 \<leftarrow> mem_read (rb_data rb) (pread rb) split;
        let todo = len - split;
        let rb1 = rb\<lparr>pread := 0\<rparr>;
        b2 \<leftarrow> mem_read (rb_data rb1) (pread rb1) todo;
        Some (rb1\<lparr>pread := (pread rb1 + todo) mod rb_size rb1\<rparr>, b1 @ b2)
      } else do {
        b \<leftarrow> mem_read (rb_data rb) (pread rb) len;
        Some (rb\<lparr>pread := (pread rb + len) mod rb_size rb\<rparr>, b)
      })"

definition dvb_ringbuffer_write ::
  "dvb_ringbuffer \<Rightarrow> u8 list \<Rightarrow> (dvb_ringbuffer \<times> int) option" where
  "dvb_ringbuffer_write rb buf =
     (let len = length buf; split = ring_split (pwrite rb) len (rb_size rb) in
      if split > 0 then do {
        d1 \<leftarrow> mem_write (rb_data rb) (pwrite rb) (take split buf);
        let buf1 = drop split buf;
        let rb1 = rb\<lparr>rb_data := d1, pwrite := 0\<rparr>;
        d2 \<leftarrow> mem_write (rb_data rb1) (pwrite rb1) buf1;
        Some (rb1\<lparr>rb_data := d2, pwrite := (pwrite rb1 + length buf1) mod rb_size rb1\<rparr>, int len)
      } else do {
        d \<leftarrow> mem_write (rb_data rb) (pwrite rb) buf;
        Some (rb\<lparr>rb_data := d, pwrite := (pwrite rb + len) mod rb_size rb\<rparr>, int len)
      })"

text \<open>
  \<^verbatim>\<open>copy_from_user\<close> is the parameter \<open>cfu\<close>: for a block of the caller's buffer it gives the
  number of bytes left uncopied and what the block of the ring buffer holds afterwards.
\<close>

definition dvb_ringbuffer_write_user ::
  "(nat \<Rightarrow> u8 list \<Rightarrow> nat \<times> u8 list) \<Rightarrow> dvb_ringbuffer \<Rightarrow> u8 list \<Rightarrow>
   (dvb_ringbuffer \<times> int) option" where
  "dvb_ringbuffer_write_user cfu rb buf =
     (let len = length buf; split = ring_split (pwrite rb) len (rb_size rb) in
      if split > 0 then do {
        let (st1, b1) = cfu 0 (take split buf);
        d1 \<leftarrow> mem_write (rb_data rb) (pwrite rb) b1;
        if st1 \<noteq> 0 then Some (rb\<lparr>rb_data := d1\<rparr>, 0)
        else do {
          let rb1 = rb\<lparr>rb_data := d1, pwrite := 0\<rparr>;
          let todo = len - split;
          let (st2, b2) = cfu split (drop split buf);
          d2 \<leftarrow> mem_write (rb_data rb1) (pwrite rb1) b2;
          if st2 \<noteq> 0 then Some (rb1\<lparr>rb_data := d2\<rparr>, int (len - todo))
          else Some (rb1\<lparr>rb_data := d2, pwrite := (pwrite rb1 + todo) mod rb_size rb1\<rparr>, int len)
        }
      } else do {
        let (st, b) = cfu 0 buf;
        d \<leftarrow> mem_write (rb_data rb) (pwrite rb) b;
        if st \<noteq> 0 then Some (rb\<lparr>rb_data := d\<rparr>, 0)
        else Some (rb\<lparr>rb_data := d, pwrite := (pwrite rb + len) mod rb_size rb\<rparr>, int len)
      })"

section \<open>The packet layer\<close>

definition DVB_RINGBUFFER_PEEK :: "dvb_ringbuffer \<Rightarrow> nat \<Rightarrow> u8 option" where
  "DVB_RINGBUFFER_PEEK rb offs = mem_get (rb_data rb) ((pread rb + offs) mod rb_size rb)"

definition DVB_RINGBUFFER_SKIP :: "dvb_ringbuffer \<Rightarrow> nat \<Rightarrow> dvb_ringbuffer" where
  "DVB_RINGBUFFER_SKIP rb num = rb\<lparr>pread := (pread rb + num) mod rb_size rb\<rparr>"

definition DVB_RINGBUFFER_WRITE_BYTE :: "dvb_ringbuffer \<Rightarrow> u8 \<Rightarrow> dvb_ringbuffer option" where
  "DVB_RINGBUFFER_WRITE_BYTE rb b = do {
     d \<leftarrow> mem_set (rb_data rb) (pwrite rb) b;
     Some (rb\<lparr>rb_data := d, pwrite := (pwrite rb + 1) mod rb_size rb\<rparr>)
   }"

text \<open>The 16-bit big-endian length in front of a packet.\<close>

definition pkt_length_at :: "dvb_ringbuffer \<Rightarrow> nat \<Rightarrow> nat option" where
  "pkt_length_at rb idx = do {
     hi \<leftarrow> mem_get (rb_data rb) idx;
     lo \<leftarrow> mem_get (rb_data rb) ((idx + 1) mod rb_size rb);
     Some (unat hi * 256 + unat lo)
   }"

text \<open>
  \<^verbatim>\<open>status\<close> is an \<^verbatim>\<open>int\<close>, so the length that \<^verbatim>\<open>dvb_ringbuffer_write\<close> returns is truncated to
  32 bits before it is compared with zero.
\<close>

definition s32 :: "int \<Rightarrow> int" where
  "s32 x = signed_take_bit 31 x"

definition dvb_ringbuffer_pkt_write ::
  "dvb_ringbuffer \<Rightarrow> u8 list \<Rightarrow> (dvb_ringbuffer \<times> int) option" where
  "dvb_ringbuffer_pkt_write rb buf = do {
     let oldpwrite = pwrite rb;
     let len = length buf;
     rb1 \<leftarrow> DVB_RINGBUFFER_WRITE_BYTE rb (word_of_nat (len div 256));
     rb2 \<leftarrow> DVB_RINGBUFFER_WRITE_BYTE rb1 (word_of_nat (len mod 256));
     rb3 \<leftarrow> DVB_RINGBUFFER_WRITE_BYTE rb2 PKT_READY;
     (rb4, status) \<leftarrow> dvb_ringbuffer_write rb3 buf;
     let status = s32 status;
     Some (if status < 0 then rb4\<lparr>pwrite := oldpwrite\<rparr> else rb4, status)
   }"

text \<open>
  The \<^verbatim>\<open>int\<close> argument \<^verbatim>\<open>offset\<close> is compared with a \<^verbatim>\<open>size_t\<close>: a negative offset is converted
  to a huge unsigned one and rejected.
\<close>

definition pkt_clip :: "int \<Rightarrow> nat \<Rightarrow> nat \<Rightarrow> (nat \<times> nat) result" where
  "pkt_clip offset len pktlen =
     (let off = nat (offset mod 2 ^ 64) in
      if off > pktlen then Inl EINVAL
      else Inr (off, if off + len > pktlen then pktlen - off else len))"

definition dvb_ringbuffer_pkt_read_user ::
  "(nat \<Rightarrow> nat \<Rightarrow> nat) \<Rightarrow> dvb_ringbuffer \<Rightarrow> nat \<Rightarrow> int \<Rightarrow> nat \<Rightarrow> u8 list result option" where
  "dvb_ringbuffer_pkt_read_user ctu rb idx offset len = do {
     pktlen \<leftarrow> pkt_length_at rb idx;
     case pkt_clip offset len pktlen of
       Inl e \<Rightarrow> Some (Inl e)
     | Inr (off, len) \<Rightarrow> do {
         let idx = (idx + DVB_RINGBUFFER_PKTHDRSIZE + off) mod rb_size rb;
         let split = ring_split idx len (rb_size rb);
         if split > 0 then do {
           b1 \<leftarrow> mem_read (rb_data rb) idx split;
           if ctu 0 split \<noteq> 0 then Some (Inl EFAULT)
           else do {
             b2 \<leftarrow> mem_read (rb_data rb) 0 (len - split);
             Some (if ctu split (len - split) \<noteq> 0 then Inl EFAULT else Inr (b1 @ b2))
           }
         } else do {
           b \<leftarrow> mem_read (rb_data rb) idx len;
           Some (if ctu 0 len \<noteq> 0 then Inl EFAULT else Inr b)
         }
       }
   }"

definition dvb_ringbuffer_pkt_read ::
  "dvb_ringbuffer \<Rightarrow> nat \<Rightarrow> int \<Rightarrow> nat \<Rightarrow> u8 list result option" where
  "dvb_ringbuffer_pkt_read rb idx offset len = do {
     pktlen \<leftarrow> pkt_length_at rb idx;
     case pkt_clip offset len pktlen of
       Inl e \<Rightarrow> Some (Inl e)
     | Inr (off, len) \<Rightarrow> do {
         let idx = (idx + DVB_RINGBUFFER_PKTHDRSIZE + off) mod rb_size rb;
         let split = ring_split idx len (rb_size rb);
         if split > 0 then do {
           b1 \<leftarrow> mem_read (rb_data rb) idx split;
           b2 \<leftarrow> mem_read (rb_data rb) 0 (len - split);
           Some (Inr (b1 @ b2))
         } else do {
           b \<leftarrow> mem_read (rb_data rb) idx len;
           Some (Inr b)
         }
       }
   }"

text \<open>
  The clean-up loop skips packets as long as the first one is disposed. On a corrupted buffer
  it need not end, so it is a partial function; \<open>None\<close> is also that case.
\<close>

partial_function (option) pkt_cleanup :: "dvb_ringbuffer \<Rightarrow> dvb_ringbuffer option" where
  "pkt_cleanup rb =
     (if dvb_ringbuffer_avail rb > int DVB_RINGBUFFER_PKTHDRSIZE then do {
        st \<leftarrow> DVB_RINGBUFFER_PEEK rb 2;
        if st = PKT_DISPOSED then do {
          hi \<leftarrow> DVB_RINGBUFFER_PEEK rb 0;
          lo \<leftarrow> DVB_RINGBUFFER_PEEK rb 1;
          pkt_cleanup (DVB_RINGBUFFER_SKIP rb (unat hi * 256 + unat lo + DVB_RINGBUFFER_PKTHDRSIZE))
        } else Some rb
      } else Some rb)"

definition dvb_ringbuffer_pkt_dispose :: "dvb_ringbuffer \<Rightarrow> nat \<Rightarrow> dvb_ringbuffer option" where
  "dvb_ringbuffer_pkt_dispose rb idx = do {
     d \<leftarrow> mem_set (rb_data rb) ((idx + 2) mod rb_size rb) PKT_DISPOSED;
     pkt_cleanup (rb\<lparr>rb_data := d\<rparr>)
   }"

text \<open>
  The search for the next packet. \<open>None\<close> as the index stands for \<^verbatim>\<open>-1\<close>, as an argument and as
  a result; a found packet is its index and its length.
\<close>

function pkt_next_loop :: "dvb_ringbuffer \<Rightarrow> nat \<Rightarrow> int \<Rightarrow> (nat \<times> nat) option option" where
  "pkt_next_loop rb idx consumed =
     (if dvb_ringbuffer_avail rb - consumed > int DVB_RINGBUFFER_PKTHDRSIZE then
        (case pkt_length_at rb idx of
           None \<Rightarrow> None
         | Some curpktlen \<Rightarrow>
             (case mem_get (rb_data rb) ((idx + 2) mod rb_size rb) of
                None \<Rightarrow> None
              | Some curpktstatus \<Rightarrow>
                  if curpktstatus = PKT_READY then Some (Some (idx, curpktlen))
                  else pkt_next_loop rb
                         ((idx + curpktlen + DVB_RINGBUFFER_PKTHDRSIZE) mod rb_size rb)
                         (consumed + int (curpktlen + DVB_RINGBUFFER_PKTHDRSIZE))))
      else Some None)"
  by pat_completeness auto
termination
  by (relation "measure (\<lambda>(rb, idx, consumed). nat (dvb_ringbuffer_avail rb - consumed))")
     (auto simp: DVB_RINGBUFFER_PKTHDRSIZE_def)

declare pkt_next_loop.simps [simp del]

text \<open>
  \<^verbatim>\<open>idx - rbuf->pread\<close> is unsigned 64-bit arithmetic: where \<^verbatim>\<open>idx\<close> is below \<^verbatim>\<open>pread\<close> it wraps
  around at \<open>2^64\<close> before the remainder is taken.
\<close>

definition pkt_consumed :: "dvb_ringbuffer \<Rightarrow> nat \<Rightarrow> int" where
  "pkt_consumed rb idx =
     s32 (((int idx - int (pread rb)) mod 2 ^ 64) mod int (rb_size rb))"

definition dvb_ringbuffer_pkt_next ::
  "dvb_ringbuffer \<Rightarrow> nat option \<Rightarrow> (nat \<times> nat) option option" where
  "dvb_ringbuffer_pkt_next rb arg =
     (case arg of
        None \<Rightarrow> pkt_next_loop rb (pread rb) (pkt_consumed rb (pread rb))
      | Some idx \<Rightarrow> do {
          curpktlen \<leftarrow> pkt_length_at rb idx;
          let idx = (idx + curpktlen + DVB_RINGBUFFER_PKTHDRSIZE) mod rb_size rb;
          pkt_next_loop rb idx (pkt_consumed rb idx)
        })"

section \<open>Well-formed buffers and what they hold\<close>

definition ring_inv :: "dvb_ringbuffer \<Rightarrow> bool" where
  "ring_inv rb \<longleftrightarrow> 0 < rb_size rb \<and> length (rb_data rb) = rb_size rb \<and>
     pread rb < rb_size rb \<and> pwrite rb < rb_size rb"

definition ring_slice :: "u8 list \<Rightarrow> nat \<Rightarrow> nat \<Rightarrow> nat \<Rightarrow> u8 list" where
  "ring_slice d sz p n = map (\<lambda>i. d ! ((p + i) mod sz)) [0..<n]"

definition ring_avail :: "dvb_ringbuffer \<Rightarrow> nat" where
  "ring_avail rb = (pwrite rb + rb_size rb - pread rb) mod rb_size rb"

definition ring_contents :: "dvb_ringbuffer \<Rightarrow> u8 list" where
  "ring_contents rb = ring_slice (rb_data rb) (rb_size rb) (pread rb) (ring_avail rb)"

text \<open>The reference for the two-block copy of the source: one byte at a time.\<close>

fun ring_put :: "u8 list \<Rightarrow> nat \<Rightarrow> nat \<Rightarrow> u8 list \<Rightarrow> u8 list" where
  "ring_put d sz p [] = d"
| "ring_put d sz p (b # bs) = ring_put (d[p := b]) sz ((p + 1) mod sz) bs"

definition ring_append :: "dvb_ringbuffer \<Rightarrow> u8 list \<Rightarrow> dvb_ringbuffer" where
  "ring_append rb bs = rb\<lparr>rb_data := ring_put (rb_data rb) (rb_size rb) (pwrite rb) bs,
     pwrite := (pwrite rb + length bs) mod rb_size rb\<rparr>"

lemma length_ring_slice [simp]: "length (ring_slice d sz p n) = n"
  by (simp add: ring_slice_def)

lemma nth_ring_slice [simp]: "i < n \<Longrightarrow> ring_slice d sz p n ! i = d ! ((p + i) mod sz)"
  by (simp add: ring_slice_def)

lemma ring_slice_0 [simp]: "ring_slice d sz p 0 = []"
  by (simp add: ring_slice_def)

lemma ring_slice_mod: "ring_slice d sz (p mod sz) n = ring_slice d sz p n"
  by (simp add: ring_slice_def mod_add_left_eq)

lemma ring_slice_add:
  "ring_slice d sz p (m + n) = ring_slice d sz p m @ ring_slice d sz (p + m) n"
  by (rule nth_equalityI) (auto simp: nth_append ac_simps)

lemma ring_slice_block:
  "p + n \<le> length d \<Longrightarrow> sz = length d \<Longrightarrow> take n (drop p d) = ring_slice d sz p n"
  by (rule nth_equalityI) auto

lemma ring_slice_prefix: "n \<le> length d \<Longrightarrow> sz = length d \<Longrightarrow> take n d = ring_slice d sz 0 n"
  using ring_slice_block [of 0 n d sz] by simp

lemma ring_slice_suffix: "p \<le> length d \<Longrightarrow> sz = length d \<Longrightarrow> drop p d = ring_slice d sz p (sz - p)"
  using ring_slice_block [of p "sz - p" d sz] by simp

lemma take_ring_slice: "m \<le> n \<Longrightarrow> take m (ring_slice d sz p n) = ring_slice d sz p m"
  by (rule nth_equalityI) auto

lemma drop_ring_slice: "m \<le> n \<Longrightarrow> drop m (ring_slice d sz p n) = ring_slice d sz (p + m) (n - m)"
  by (rule nth_equalityI) (auto simp: ac_simps)

lemma length_ring_put [simp]: "length (ring_put d sz p bs) = length d"
  by (induction d sz p bs rule: ring_put.induct) auto

text \<open>The distance from \<open>p\<close> to \<open>k\<close> going round the ring.\<close>

definition ring_dist :: "nat \<Rightarrow> nat \<Rightarrow> nat \<Rightarrow> nat" where
  "ring_dist sz p k = (k + sz - p) mod sz"

lemma ring_dist_eq: "p < sz \<Longrightarrow> k < sz \<Longrightarrow> ring_dist sz p k = (if p \<le> k then k - p else k + sz - p)"
  by (auto simp: ring_dist_def le_mod_geq)

lemma ring_dist_less: "0 < sz \<Longrightarrow> ring_dist sz p k < sz"
  by (simp add: ring_dist_def)

lemma ring_dist_Suc:
  "p < sz \<Longrightarrow> k < sz \<Longrightarrow> k \<noteq> p \<Longrightarrow> ring_dist sz p k = Suc (ring_dist sz ((p + 1) mod sz) k)"
  by (cases "p + 1 = sz") (auto simp: ring_dist_eq)

lemma ring_dist_add:
  "p < sz \<Longrightarrow> i < sz \<Longrightarrow> ring_dist sz p ((p + i) mod sz) = i"
  by (auto simp: ring_dist_eq mod_add_less)

lemma nth_ring_put:
  "p < sz \<Longrightarrow> k < sz \<Longrightarrow> length d = sz \<Longrightarrow> length bs \<le> sz \<Longrightarrow>
   ring_put d sz p bs ! k =
     (if ring_dist sz p k < length bs then bs ! ring_dist sz p k else d ! k)"
proof (induction d sz p bs rule: ring_put.induct)
  case (2 d sz p b bs)
  let ?p = "(p + 1) mod sz"
  have p': "?p < sz" using 2(2) by simp
  have IH: "ring_put (d[p := b]) sz ?p bs ! k =
      (if ring_dist sz ?p k < length bs then bs ! ring_dist sz ?p k else d[p := b] ! k)"
    using 2 p' by simp
  show ?case
  proof (cases "k = p")
    case True
    have "ring_dist sz ?p p = sz - 1"
      using 2(2) by (cases "p + 1 = sz") (auto simp: ring_dist_eq)
    moreover have "ring_dist sz p p = 0" using 2(2) by (simp add: ring_dist_eq)
    ultimately show ?thesis using True IH 2 by (auto simp: nth_append)
  next
    case False
    then show ?thesis using IH 2 ring_dist_Suc [of p sz k] by simp
  qed
qed simp

lemma ring_put_append:
  "p < sz \<Longrightarrow>
   ring_put d sz p (as @ bs) = ring_put (ring_put d sz p as) sz ((p + length as) mod sz) bs"
proof (induction d sz p as rule: ring_put.induct)
  case (2 d sz p b as)
  moreover have "(p + 1) mod sz < sz" using 2(2) by simp
  ultimately show ?case by (simp add: mod_add_left_eq)
qed simp

text \<open>What reading the ring gives after a block has been put into it.\<close>

lemma ring_slice_put_same:
  assumes "p < sz" "length d = sz" "length bs \<le> sz"
  shows "ring_slice (ring_put d sz p bs) sz p (length bs) = bs"
  using assms by (intro nth_equalityI) (auto simp: nth_ring_put ring_dist_add)

lemma ring_slice_put_other:
  assumes "q < sz" "length d = sz" "n + length bs \<le> sz" "p = (q + n) mod sz"
  shows "ring_slice (ring_put d sz p bs) sz q n = ring_slice d sz q n"
proof (rule nth_equalityI)
  fix i assume "i < length (ring_slice (ring_put d sz p bs) sz q n)"
  then have i: "i < n" by simp
  have pq: "p < sz" "(q + i) mod sz < sz" using assms by auto
  have "length bs \<le> ring_dist sz p ((q + i) mod sz)"
    using pq assms i by (auto simp: ring_dist_eq mod_add_less split: if_splits)
  then show "ring_slice (ring_put d sz p bs) sz q n ! i = ring_slice d sz q n ! i"
    using pq i assms by (simp add: nth_ring_put)
qed simp

section \<open>Pointers, available and free space\<close>

lemma ring_invD [dest]:
  "ring_inv rb \<Longrightarrow> 0 < rb_size rb \<and> length (rb_data rb) = rb_size rb \<and>
     pread rb < rb_size rb \<and> pwrite rb < rb_size rb"
  by (simp add: ring_inv_def)

lemma ring_avail_dist: "ring_avail rb = ring_dist (rb_size rb) (pread rb) (pwrite rb)"
  by (simp add: ring_avail_def ring_dist_def)

lemma ring_avail_less: "ring_inv rb \<Longrightarrow> ring_avail rb < rb_size rb"
  by (auto simp: ring_avail_dist ring_dist_less)

lemma length_ring_contents [simp]: "length (ring_contents rb) = ring_avail rb"
  by (simp add: ring_contents_def)

lemma pwrite_ring_avail: "ring_inv rb \<Longrightarrow> (pread rb + ring_avail rb) mod rb_size rb = pwrite rb"
  by (auto simp: ring_inv_def ring_avail_dist ring_dist_eq mod_add_less)

lemma avail_eq: "ring_inv rb \<Longrightarrow> dvb_ringbuffer_avail rb = int (ring_avail rb)"
  by (auto simp: ring_inv_def dvb_ringbuffer_avail_def ring_avail_dist ring_dist_eq Let_def)

lemma free_eq: "ring_inv rb \<Longrightarrow> dvb_ringbuffer_free rb = int (rb_size rb) - 1 - int (ring_avail rb)"
  by (auto simp: ring_inv_def dvb_ringbuffer_free_def ring_avail_dist ring_dist_eq Let_def)

lemma empty_eq: "ring_inv rb \<Longrightarrow> dvb_ringbuffer_empty rb = (ring_contents rb = [])"
proof -
  assume "ring_inv rb"
  then have "(ring_avail rb = 0) = (pread rb = pwrite rb)"
    by (auto simp: ring_inv_def ring_avail_dist ring_dist_eq)
  then show ?thesis
    by (metis dvb_ringbuffer_empty_def length_0_conv length_ring_contents)
qed

section \<open>Reading and writing\<close>

lemma ring_read_slice:
  assumes "ring_inv rb" "len \<le> rb_size rb"
  shows "dvb_ringbuffer_read rb len =
    Some (rb\<lparr>pread := (pread rb + len) mod rb_size rb\<rparr>,
          ring_slice (rb_data rb) (rb_size rb) (pread rb) len)"
proof (cases "pread rb + len > rb_size rb")
  case True
  let ?sz = "rb_size rb" and ?d = "rb_data rb"
  let ?s = "?sz - pread rb"
  have le: "pread rb + ?s = ?sz" "?s < len" "len - ?s \<le> ?sz" using assms True by (auto simp: ring_inv_def)
  have slice: "ring_slice ?d ?sz (pread rb) len =
      ring_slice ?d ?sz (pread rb) ?s @ ring_slice ?d ?sz 0 (len - ?s)"
    using ring_slice_add [of ?d ?sz "pread rb" ?s "len - ?s"] le ring_slice_mod [of ?d ?sz ?sz "len - ?s"]
    by simp
  have "(pread rb + len) mod ?sz = (len - ?s) mod ?sz"
    using True assms(1) by (simp add: mod_wrap ring_inv_def)
  with True assms le show ?thesis
    by (auto simp: dvb_ringbuffer_read_def ring_split_def ring_inv_def mem_simps Let_def slice
        ring_slice_prefix ring_slice_suffix)
next
  case False
  with assms show ?thesis
    by (auto simp: dvb_ringbuffer_read_def ring_split_def ring_inv_def mem_simps ring_slice_block)
qed

text \<open>A block copy inside the array is the byte-by-byte copy, and so is the two-block copy.\<close>

lemma mem_write_put:
  assumes "p < length d" "p + length bs \<le> length d"
  shows "mem_write d p bs = Some (ring_put d (length d) p bs)"
proof -
  have "take p d @ bs @ drop (p + length bs) d = ring_put d (length d) p bs"
  proof (rule nth_equalityI)
    fix k assume "k < length (take p d @ bs @ drop (p + length bs) d)"
    then have "k < length d" using assms by simp
    then show "(take p d @ bs @ drop (p + length bs) d) ! k = ring_put d (length d) p bs ! k"
      using assms by (auto simp: nth_overwrite nth_ring_put ring_dist_eq)
  qed (use assms in auto)
  then show ?thesis using assms by (simp add: mem_write_def)
qed

lemma ring_append_split:
  assumes "ring_inv rb" "length buf \<le> rb_size rb" "rb_size rb < pwrite rb + length buf"
  defines "s \<equiv> rb_size rb - pwrite rb"
  shows "ring_append rb buf =
      rb\<lparr>rb_data := ring_put (ring_put (rb_data rb) (rb_size rb) (pwrite rb) (take s buf)) (rb_size rb) 0 (drop s buf),
         pwrite := (length buf - s) mod rb_size rb\<rparr>"
proof -
  have "(pwrite rb + s) mod rb_size rb = 0" "length (take s buf) = s"
    using assms by (auto simp: ring_inv_def)
  then show ?thesis
    using assms(1,3) ring_put_append [of "pwrite rb" "rb_size rb" "rb_data rb" "take s buf" "drop s buf"]
    by (simp add: ring_append_def mod_wrap ring_inv_def s_def)
qed

lemma ring_write_put:
  assumes inv: "ring_inv rb" and len: "length buf \<le> rb_size rb"
  shows "dvb_ringbuffer_write rb buf = Some (ring_append rb buf, int (length buf))"
proof (cases "rb_size rb < pwrite rb + length buf")
  case True
  let ?s = "rb_size rb - pwrite rb"
  have "0 < rb_size rb" "length (rb_data rb) = rb_size rb" "pwrite rb < rb_size rb"
    "?s < length buf" "length buf - ?s \<le> rb_size rb"
    using inv len True by (auto simp: ring_inv_def)
  then show ?thesis
    using True ring_append_split [OF inv len True]
    by (simp add: dvb_ringbuffer_write_def ring_split_def mem_write_put Let_def)
next
  case False
  then show ?thesis
    using inv
    by (auto simp: dvb_ringbuffer_write_def ring_split_def ring_inv_def mem_write_put ring_append_def Let_def)
qed

lemma ring_inv_read:
  "ring_inv rb \<Longrightarrow> ring_inv (rb\<lparr>pread := k mod rb_size rb\<rparr>)"
  by (auto simp: ring_inv_def)

lemma ring_inv_append: "ring_inv rb \<Longrightarrow> ring_inv (ring_append rb bs)"
  by (auto simp: ring_inv_def ring_append_def)

lemma ring_append_sel [simp]:
  "rb_size (ring_append rb bs) = rb_size rb" "pread (ring_append rb bs) = pread rb"
  by (simp_all add: ring_append_def)

lemma ring_append_append:
  "ring_inv rb \<Longrightarrow> ring_append (ring_append rb as) bs = ring_append rb (as @ bs)"
  by (auto simp: ring_append_def ring_put_append mod_add_left_eq add.assoc)

lemma take_ring_contents:
  "n \<le> ring_avail rb \<Longrightarrow>
   take n (ring_contents rb) = ring_slice (rb_data rb) (rb_size rb) (pread rb) n"
  by (simp add: ring_contents_def take_ring_slice)

lemma ring_contents_skip:
  assumes "ring_inv rb" "len \<le> ring_avail rb"
  shows "ring_contents (rb\<lparr>pread := (pread rb + len) mod rb_size rb\<rparr>) = drop len (ring_contents rb)"
proof -
  have "ring_avail (rb\<lparr>pread := (pread rb + len) mod rb_size rb\<rparr>) = ring_avail rb - len"
    using assms ring_avail_less [OF assms(1)]
    by (auto simp: ring_inv_def ring_avail_dist ring_dist_eq mod_add_less split: if_splits)
  then show ?thesis
    using assms by (simp add: ring_contents_def drop_ring_slice ring_slice_mod)
qed

lemma ring_contents_append:
  assumes "ring_inv rb" "ring_avail rb + length bs < rb_size rb"
  shows "ring_contents (ring_append rb bs) = ring_contents rb @ bs"
proof -
  have av: "ring_avail (ring_append rb bs) = ring_avail rb + length bs"
    using assms
    by (auto simp: ring_inv_def ring_append_def ring_avail_dist ring_dist_eq mod_add_less split: if_splits)
  have "ring_slice (ring_put (rb_data rb) (rb_size rb) (pwrite rb) bs) (rb_size rb)
          (pread rb + ring_avail rb) (length bs) = bs"
    using assms pwrite_ring_avail [OF assms(1)] ring_slice_put_same [of "pwrite rb" "rb_size rb" "rb_data rb" bs]
    by (metis add_leD2 less_imp_le ring_invD ring_slice_mod)
  moreover have "ring_slice (ring_put (rb_data rb) (rb_size rb) (pwrite rb) bs) (rb_size rb)
          (pread rb) (ring_avail rb) = ring_contents rb"
    using assms pwrite_ring_avail [OF assms(1)]
    by (auto simp: ring_contents_def ring_inv_def intro!: ring_slice_put_other)
  ultimately show ?thesis
    unfolding ring_contents_def av by (simp add: ring_append_def ring_contents_def ring_slice_add)
qed

section \<open>The byte-queue interface\<close>

datatype queue_op = Put "u8 list" | Get nat

text \<open>The specification: a bounded list. An operation outside its precondition has no result.\<close>

fun spec_run :: "nat \<Rightarrow> u8 list \<Rightarrow> queue_op list \<Rightarrow> (u8 list \<times> u8 list list) option" where
  "spec_run cap xs [] = Some (xs, [])"
| "spec_run cap xs (Put bs # ops) =
     (if length xs + length bs \<le> cap then spec_run cap (xs @ bs) ops else None)"
| "spec_run cap xs (Get n # ops) =
     (if n \<le> length xs
      then map_option (\<lambda>(ys, outs). (ys, take n xs # outs)) (spec_run cap (drop n xs) ops)
      else None)"

fun queue_run :: "('q \<Rightarrow> u8 list \<Rightarrow> ('q \<times> int) option) \<Rightarrow> ('q \<Rightarrow> nat \<Rightarrow> ('q \<times> u8 list) option) \<Rightarrow>
    'q \<Rightarrow> queue_op list \<Rightarrow> ('q \<times> u8 list list) option" where
  "queue_run w r q [] = Some (q, [])"
| "queue_run w r q (Put bs # ops) =
     (case w q bs of None \<Rightarrow> None | Some (q', _) \<Rightarrow> queue_run w r q' ops)"
| "queue_run w r q (Get n # ops) =
     (case r q n of None \<Rightarrow> None
      | Some (q', bs) \<Rightarrow> map_option (\<lambda>(q'', outs). (q'', bs # outs)) (queue_run w r q' ops))"

fun put_bytes :: "queue_op list \<Rightarrow> u8 list" where
  "put_bytes [] = []"
| "put_bytes (Put bs # ops) = bs @ put_bytes ops"
| "put_bytes (Get n # ops) = put_bytes ops"

lemma spec_run_fifo:
  "spec_run cap xs ops = Some (ys, outs) \<Longrightarrow> concat outs @ ys = xs @ put_bytes ops"
  by (induction cap xs ops arbitrary: ys outs rule: spec_run.induct)
     (fastforce split: if_splits)+

locale byte_queue =
  fixes invar :: "'q \<Rightarrow> bool"
    and contents :: "'q \<Rightarrow> u8 list"
    and capacity :: "'q \<Rightarrow> nat"
    and enqueue :: "'q \<Rightarrow> u8 list \<Rightarrow> ('q \<times> int) option"
    and dequeue :: "'q \<Rightarrow> nat \<Rightarrow> ('q \<times> u8 list) option"
  assumes enqueue: "invar q \<Longrightarrow> length (contents q) + length bs \<le> capacity q \<Longrightarrow>
      \<exists>q'. enqueue q bs = Some (q', int (length bs)) \<and> invar q' \<and>
           contents q' = contents q @ bs \<and> capacity q' = capacity q"
    and dequeue: "invar q \<Longrightarrow> n \<le> length (contents q) \<Longrightarrow>
      \<exists>q'. dequeue q n = Some (q', take n (contents q)) \<and> invar q' \<and>
           contents q' = drop n (contents q) \<and> capacity q' = capacity q"
begin

lemma run_refines:
  "invar q \<Longrightarrow> spec_run (capacity q) (contents q) ops = Some (xs, outs) \<Longrightarrow>
   \<exists>q'. queue_run enqueue dequeue q ops = Some (q', outs) \<and> invar q' \<and> contents q' = xs"
proof (induction ops arbitrary: q outs)
  case Nil
  then show ?case by simp
next
  case (Cons op ops)
  show ?case
  proof (cases op)
    case (Put bs)
    with Cons.prems have le: "length (contents q) + length bs \<le> capacity q"
      by (auto split: if_splits)
    obtain q' where q': "enqueue q bs = Some (q', int (length bs))" "invar q'"
        "contents q' = contents q @ bs" "capacity q' = capacity q"
      using enqueue [OF Cons.prems(1) le] by blast
    have "spec_run (capacity q') (contents q') ops = Some (xs, outs)"
      using Cons.prems(2) Put le q' by simp
    from Cons.IH [OF q'(2) this] show ?thesis using Put q' by simp
  next
    case (Get n)
    with Cons.prems have le: "n \<le> length (contents q)" by (auto split: if_splits)
    obtain q' where q': "dequeue q n = Some (q', take n (contents q))" "invar q'"
        "contents q' = drop n (contents q)" "capacity q' = capacity q"
      using dequeue [OF Cons.prems(1) le] by blast
    obtain outs' where "spec_run (capacity q') (contents q') ops = Some (xs, outs')"
        and outs: "outs = take n (contents q) # outs'"
      using Cons.prems(2) Get le q' by auto
    from Cons.IH [OF q'(2) this(1)] show ?thesis using Get q' outs by auto
  qed
qed

end

definition ring_capacity :: "dvb_ringbuffer \<Rightarrow> nat" where
  "ring_capacity rb = rb_size rb - 1"

interpretation ringq: byte_queue ring_inv ring_contents ring_capacity
  dvb_ringbuffer_write dvb_ringbuffer_read
proof
  fix q :: dvb_ringbuffer and bs :: "u8 list"
  assume inv: "ring_inv q" and "length (ring_contents q) + length bs \<le> ring_capacity q"
  then have le: "ring_avail q + length bs < rb_size q" "length bs \<le> rb_size q"
    by (auto simp: ring_capacity_def ring_inv_def)
  then show "\<exists>q'. dvb_ringbuffer_write q bs = Some (q', int (length bs)) \<and> ring_inv q' \<and>
      ring_contents q' = ring_contents q @ bs \<and> ring_capacity q' = ring_capacity q"
    using inv by (simp add: ring_write_put ring_contents_append ring_inv_append ring_capacity_def)
next
  fix q n
  assume inv: "ring_inv q" and "n \<le> length (ring_contents q)"
  then have "n \<le> ring_avail q" "n \<le> rb_size q" using ring_avail_less [OF inv] by auto
  then show "\<exists>q'. dvb_ringbuffer_read q n = Some (q', take n (ring_contents q)) \<and> ring_inv q' \<and>
      ring_contents q' = drop n (ring_contents q) \<and> ring_capacity q' = ring_capacity q"
    using inv
    by (simp add: ring_read_slice ring_contents_skip ring_inv_read ring_capacity_def
        take_ring_contents)
qed

section \<open>Packets\<close>

type_synonym pkt = "u8 \<times> u8 list"

definition enc_pkt :: "pkt \<Rightarrow> u8 list" where
  "enc_pkt p = [word_of_nat (length (snd p) div 256), word_of_nat (length (snd p) mod 256), fst p] @ snd p"

definition pkt_ok :: "pkt \<Rightarrow> bool" where
  "pkt_ok p \<longleftrightarrow> 1 \<le> length (snd p) \<and> length (snd p) < 65536"

definition pkts_bytes :: "pkt list \<Rightarrow> u8 list" where
  "pkts_bytes ps = concat (map enc_pkt ps)"

definition ring_pkts :: "dvb_ringbuffer \<Rightarrow> pkt list \<Rightarrow> bool" where
  "ring_pkts rb ps \<longleftrightarrow> ring_inv rb \<and> ring_contents rb = pkts_bytes ps \<and> list_all pkt_ok ps"

text \<open>The index in the ring of the packet that comes after \<open>ps\<close>.\<close>

definition pkt_index :: "dvb_ringbuffer \<Rightarrow> pkt list \<Rightarrow> nat" where
  "pkt_index rb ps = (pread rb + length (pkts_bytes ps)) mod rb_size rb"

fun next_ready :: "nat \<Rightarrow> pkt list \<Rightarrow> (nat \<times> nat) option" where
  "next_ready off [] = None"
| "next_ready off (p # ps) =
     (if fst p = PKT_READY then Some (off, length (snd p))
      else next_ready (off + length (enc_pkt p)) ps)"

lemma length_enc_pkt [simp]: "length (enc_pkt p) = length (snd p) + 3"
  by (simp add: enc_pkt_def)

lemma pkts_bytes_simps [simp]:
  "pkts_bytes [] = []" "pkts_bytes (p # ps) = enc_pkt p @ pkts_bytes ps"
  "pkts_bytes (ps @ qs) = pkts_bytes ps @ pkts_bytes qs"
  by (simp_all add: pkts_bytes_def)

lemma unat_enc_length:
  "n < 65536 \<Longrightarrow> unat (word_of_nat (n div 256) :: u8) * 256 + unat (word_of_nat (n mod 256) :: u8) = n"
  by (simp add: unat_of_nat)

lemma s32_small: "0 \<le> x \<Longrightarrow> x < 2 ^ 31 \<Longrightarrow> s32 x = x"
  by (simp add: s32_def signed_take_bit_int_eq_self)

lemma write_byte_append: "ring_inv rb \<Longrightarrow> DVB_RINGBUFFER_WRITE_BYTE rb b = Some (ring_append rb [b])"
  by (auto simp: DVB_RINGBUFFER_WRITE_BYTE_def ring_inv_def ring_append_def mem_simps)

text \<open>Writing a packet is writing its encoding.\<close>

lemma pkt_write_append:
  assumes inv: "ring_inv rb" and len: "length buf \<le> rb_size rb" "length buf < 65536"
  shows "dvb_ringbuffer_pkt_write rb buf =
    Some (ring_append rb (enc_pkt (PKT_READY, buf)), int (length buf))"
  using len
  by (simp add: dvb_ringbuffer_pkt_write_def Let_def write_byte_append inv ring_inv_append
      ring_append_append ring_write_put s32_small enc_pkt_def)

lemma ring_pkts_write:
  assumes "ring_pkts rb ps" "ring_avail rb + length buf + 3 < rb_size rb"
    "0 < length buf" "length buf < 65536"
  shows "\<exists>rb'. dvb_ringbuffer_pkt_write rb buf = Some (rb', int (length buf)) \<and>
     ring_pkts rb' (ps @ [(PKT_READY, buf)])"
  using assms
  by (auto simp: ring_pkts_def pkt_write_append ring_inv_append ring_contents_append pkt_ok_def Suc_leI)


text \<open>Reading single bytes of the packet stream.\<close>

lemma ring_get:
  "ring_inv rb \<Longrightarrow> i < ring_avail rb \<Longrightarrow>
   mem_get (rb_data rb) ((pread rb + i) mod rb_size rb) = Some (ring_contents rb ! i)"
  by (auto simp: ring_inv_def mem_get_def ring_contents_def)

lemma ring_get_off:
  "ring_inv rb \<Longrightarrow> i + j < ring_avail rb \<Longrightarrow>
   mem_get (rb_data rb) (((pread rb + i) mod rb_size rb + j) mod rb_size rb) =
     Some (ring_contents rb ! (i + j))"
  using ring_get [of rb "i + j"] by (simp add: mod_add_left_eq add.assoc)

lemma ring_pktsD:
  assumes "ring_pkts rb (ps @ p # qs)"
  shows "ring_inv rb" "pkt_ok p" "ring_avail rb = length (pkts_bytes ps) + length (enc_pkt p) + length (pkts_bytes qs)"
    "i < length (enc_pkt p) \<Longrightarrow> ring_contents rb ! (length (pkts_bytes ps) + i) = enc_pkt p ! i"
proof -
  show "ring_inv rb" "pkt_ok p" using assms by (auto simp: ring_pkts_def)
  have c: "ring_contents rb = pkts_bytes ps @ enc_pkt p @ pkts_bytes qs"
    using assms by (simp add: ring_pkts_def)
  then show "ring_avail rb = length (pkts_bytes ps) + length (enc_pkt p) + length (pkts_bytes qs)"
    using length_ring_contents [of rb] by simp
  show "i < length (enc_pkt p) \<Longrightarrow> ring_contents rb ! (length (pkts_bytes ps) + i) = enc_pkt p ! i"
    by (simp add: c nth_append)
qed

lemma pkt_header:
  assumes "ring_pkts rb (ps @ p # qs)"
  shows "pkt_length_at rb (pkt_index rb ps) = Some (length (snd p))"
    "mem_get (rb_data rb) ((pkt_index rb ps + 2) mod rb_size rb) = Some (fst p)"
proof -
  note D = ring_pktsD [OF assms]
  have b: "mem_get (rb_data rb) ((pkt_index rb ps + j) mod rb_size rb) = Some (enc_pkt p ! j)"
    if "j < length (enc_pkt p)" for j
    unfolding pkt_index_def using that D by (subst ring_get_off) auto
  have "mem_get (rb_data rb) (pkt_index rb ps) = Some (enc_pkt p ! 0)"
    using b [of 0] by (simp add: pkt_index_def)
  moreover have "mem_get (rb_data rb) ((pkt_index rb ps + 1) mod rb_size rb) = Some (enc_pkt p ! 1)"
    using b [of 1] by simp
  moreover have "length (snd p) < 65536" using D(2) by (simp add: pkt_ok_def)
  ultimately show "pkt_length_at rb (pkt_index rb ps) = Some (length (snd p))"
    using unat_enc_length by (simp add: pkt_length_at_def enc_pkt_def)
  show "mem_get (rb_data rb) ((pkt_index rb ps + 2) mod rb_size rb) = Some (fst p)"
    using b [of 2] by (simp add: enc_pkt_def numeral_2_eq_2)
qed

lemma pkt_index_step:
  "(pkt_index rb ps + length (snd p) + DVB_RINGBUFFER_PKTHDRSIZE) mod rb_size rb = pkt_index rb (ps @ [p])"
  "(pkt_index rb ps + length (snd p) + 3) mod rb_size rb = pkt_index rb (ps @ [p])"
  by (simp_all add: pkt_index_def DVB_RINGBUFFER_PKTHDRSIZE_def mod_add_left_eq add.assoc)

text \<open>The search loop, started at a packet boundary with the right count.\<close>

lemma pkt_next_loop_correct:
  assumes "ring_pkts rb (ps @ qs)"
  shows "pkt_next_loop rb (pkt_index rb ps) (int (length (pkts_bytes ps))) =
    Some (map_option (\<lambda>(off, len). ((pread rb + off) mod rb_size rb, len))
      (next_ready (length (pkts_bytes ps)) qs))"
  using assms
proof (induction qs arbitrary: ps)
  case Nil
  then have "int (ring_avail rb) = int (length (pkts_bytes ps))"
    using length_ring_contents [of rb] by (simp add: ring_pkts_def)
  with Nil show ?case
    by (simp add: pkt_next_loop.simps avail_eq ring_pkts_def DVB_RINGBUFFER_PKTHDRSIZE_def)
next
  case (Cons q qs)
  note D = ring_pktsD [OF Cons.prems] and H = pkt_header [OF Cons.prems]
  have guard: "dvb_ringbuffer_avail rb - int (length (pkts_bytes ps)) > int DVB_RINGBUFFER_PKTHDRSIZE"
    using D(2,3) unfolding avail_eq [OF D(1)] DVB_RINGBUFFER_PKTHDRSIZE_def pkt_ok_def
    by simp
  show ?case
  proof (cases "fst q = PKT_READY")
    case True
    with guard H show ?thesis
      by (subst pkt_next_loop.simps) (simp add: pkt_index_def)
  next
    case False
    have "pkt_next_loop rb (pkt_index rb ps) (int (length (pkts_bytes ps))) =
        pkt_next_loop rb (pkt_index rb (ps @ [q])) (int (length (pkts_bytes (ps @ [q]))))"
      using guard H False
      by (subst pkt_next_loop.simps) (simp add: pkt_index_step DVB_RINGBUFFER_PKTHDRSIZE_def)
    also have "\<dots> = Some (map_option (\<lambda>(off, len). ((pread rb + off) mod rb_size rb, len))
      (next_ready (length (pkts_bytes (ps @ [q]))) qs))"
      by (rule Cons.IH) (use Cons.prems in simp)
    finally show ?thesis using False by simp
  qed
qed

lemma pkt_next_first:
  assumes "ring_pkts rb ps"
  shows "dvb_ringbuffer_pkt_next rb None =
    Some (map_option (\<lambda>(off, len). ((pread rb + off) mod rb_size rb, len)) (next_ready 0 ps))"
proof -
  have "pkt_index rb [] = pread rb" "pkt_consumed rb (pread rb) = 0"
    using assms by (auto simp: ring_pkts_def ring_inv_def pkt_index_def pkt_consumed_def s32_def)
  then show ?thesis
    using pkt_next_loop_correct [of rb "[]" ps] assms by (simp add: dvb_ringbuffer_pkt_next_def)
qed


text \<open>
  Continuing after a packet: the count of consumed bytes is right unless the unsigned
  subtraction wraps around on a size that does not divide \<open>2^64\<close>.
\<close>

lemma pkt_consumed_right:
  assumes "ring_inv rb" "rb_size rb < 2 ^ 31" "off < rb_size rb" "idx = (pread rb + off) mod rb_size rb"
    "pread rb \<le> idx \<or> rb_size rb dvd 2 ^ 64"
  shows "pkt_consumed rb idx = int off"
proof (cases "pread rb \<le> idx")
  case True
  with assms have "idx - pread rb = off"
    by (auto simp: ring_inv_def mod_add_less split: if_splits)
  then have "int idx - int (pread rb) = int off" using True by linarith
  then show ?thesis using assms by (simp add: pkt_consumed_def s32_small)
next
  case False
  then have dv: "int (rb_size rb) dvd 2 ^ 64"
    using assms(5) by (metis of_nat_dvd_iff of_nat_numeral of_nat_power)
  have "((int idx - int (pread rb)) mod 2 ^ 64) mod int (rb_size rb) =
      (int idx - int (pread rb)) mod int (rb_size rb)"
    using dv by (rule mod_mod_cancel)
  also have "\<dots> = (int (pread rb + off) - int (pread rb)) mod int (rb_size rb)"
    unfolding assms(4) zmod_int by (rule mod_diff_left_eq)
  also have "\<dots> = int off" using assms(3) by simp
  finally show ?thesis using assms by (simp add: pkt_consumed_def s32_small)
qed

text \<open>On a size with \<open>2^64 mod size = 1\<close>, as 65535, a wrapped subtraction counts one byte too many.\<close>

lemma pkt_consumed_wrong:
  assumes "ring_inv rb" "rb_size rb < 2 ^ 31" "off + 1 < rb_size rb"
    "idx = (pread rb + off) mod rb_size rb" "idx < pread rb" "2 ^ 64 mod rb_size rb = 1"
  shows "pkt_consumed rb idx = int off + 1"
proof -
  let ?sz = "int (rb_size rb)"
  have "(2 :: int) ^ 64 mod ?sz = 1" using assms(6) by (metis of_nat_1 of_nat_numeral of_nat_power zmod_int)
  then have one: "(2 ^ 64 + x) mod ?sz = (1 + x) mod ?sz" for x by (metis mod_add_left_eq)
  have "rb_size rb < 2 ^ 64" using assms(2) by simp
  then have "int (pread rb) < 2 ^ 64" using assms(1) by (auto simp: ring_inv_def)
  then have "(2 ^ 64 + (int idx - int (pread rb))) mod 2 ^ 64 = 2 ^ 64 + (int idx - int (pread rb))"
    using assms(5) by (intro mod_pos_pos_trivial) linarith+
  then have "(int idx - int (pread rb)) mod 2 ^ 64 = 2 ^ 64 + (int idx - int (pread rb))"
    by (simp only: mod_add_self1)
  then have "((int idx - int (pread rb)) mod 2 ^ 64) mod ?sz = (1 + (int idx - int (pread rb))) mod ?sz"
    by (simp only: one)
  also have "\<dots> = ((int (pread rb + off) mod ?sz) + (1 - int (pread rb))) mod ?sz"
    by (simp add: assms(4) zmod_int algebra_simps)
  also have "\<dots> = (int off + 1) mod ?sz" by (simp add: mod_add_left_eq)
  also have "\<dots> = int off + 1" using assms(3) by simp
  finally show ?thesis using assms(2,3) by (simp add: pkt_consumed_def s32_small)
qed

lemma pkt_next_after:
  assumes pk: "ring_pkts rb (ps @ p # qs)" and sz: "rb_size rb < 2 ^ 31"
    and wrap: "pread rb \<le> pkt_index rb (ps @ [p]) \<or> rb_size rb dvd 2 ^ 64"
  shows "dvb_ringbuffer_pkt_next rb (Some (pkt_index rb ps)) =
    Some (map_option (\<lambda>(off, len). ((pread rb + off) mod rb_size rb, len))
      (next_ready (length (pkts_bytes (ps @ [p]))) qs))"
proof -
  note D = ring_pktsD [OF pk]
  have "length (pkts_bytes (ps @ [p])) < rb_size rb" using D(3) ring_avail_less [OF D(1)] by simp
  then have "pkt_consumed rb (pkt_index rb (ps @ [p])) = int (length (pkts_bytes (ps @ [p])))"
    using pkt_consumed_right [OF D(1) sz] wrap by (simp add: pkt_index_def)
  then show ?thesis
    using pkt_next_loop_correct [of rb "ps @ [p]" qs] pk pkt_header(1) [OF pk]
    by (simp add: dvb_ringbuffer_pkt_next_def pkt_index_step)
qed

lemma pkt_next_lost:
  assumes pk: "ring_pkts rb (ps @ [p, (PKT_READY, [b])])" and sz: "rb_size rb < 2 ^ 31"
    and wrap: "pkt_index rb (ps @ [p]) < pread rb" "2 ^ 64 mod rb_size rb = 1"
  shows "dvb_ringbuffer_pkt_next rb (Some (pkt_index rb ps)) = Some None"
proof -
  have pk': "ring_pkts rb ((ps @ [p]) @ (PKT_READY, [b]) # [])" using pk by simp
  note D = ring_pktsD [OF pk']
  have "length (pkts_bytes (ps @ [p])) + 1 < rb_size rb" using D(3) ring_avail_less [OF D(1)] by simp
  then have "pkt_consumed rb (pkt_index rb (ps @ [p])) = int (length (pkts_bytes (ps @ [p]))) + 1"
    using pkt_consumed_wrong [OF D(1) sz] wrap by (simp add: pkt_index_def)
  moreover have "dvb_ringbuffer_avail rb = int (length (pkts_bytes (ps @ [p]))) + 4"
    using D by (simp add: avail_eq)
  moreover have "pkt_length_at rb (pkt_index rb ps) = Some (length (snd p))"
    using pkt_header(1) [of rb ps p "[(PKT_READY, [b])]"] pk by simp
  ultimately show ?thesis
    by (simp add: dvb_ringbuffer_pkt_next_def pkt_index_step pkt_next_loop.simps
        DVB_RINGBUFFER_PKTHDRSIZE_def Let_def)
qed


text \<open>Reading from a packet.\<close>

lemma pkt_read_slice:
  assumes pk: "ring_pkts rb (ps @ p # qs)" and off: "0 \<le> offset" "offset \<le> int (length (snd p))"
  shows "dvb_ringbuffer_pkt_read rb (pkt_index rb ps) offset len =
    Some (Inr (take len (drop (nat offset) (snd p))))"
proof -
  note D = ring_pktsD [OF pk]
  let ?sz = "rb_size rb" and ?d = "rb_data rb" and ?off = "nat offset"
  let ?idx = "(pkt_index rb ps + DVB_RINGBUFFER_PKTHDRSIZE + ?off) mod ?sz"
  define n where "n = min len (length (snd p) - ?off)"
  have o: "?off \<le> length (snd p)" "offset mod 2 ^ 64 = offset"
    using off D(2) by (auto simp: pkt_ok_def)
  then have clip: "pkt_clip offset len (length (snd p)) = Inr (?off, n)"
    by (auto simp: pkt_clip_def n_def min_def Let_def)
  have n: "?off + n \<le> length (snd p)" using o(1) by (simp add: n_def)
  have inv: "ring_inv (rb\<lparr>pread := ?idx\<rparr>)" using D(1) by (rule ring_inv_read)
  have le: "n \<le> ?sz" using D(3) ring_avail_less [OF D(1)] n by simp
  have "dvb_ringbuffer_pkt_read rb (pkt_index rb ps) offset len =
      map_option (Inr \<circ> snd) (dvb_ringbuffer_read (rb\<lparr>pread := ?idx\<rparr>) n)"
    by (simp add: dvb_ringbuffer_pkt_read_def pkt_header [OF pk] clip dvb_ringbuffer_read_def Let_def
        map_option_case split: option.splits bind_split)
  also have "\<dots> = Some (Inr (ring_slice ?d ?sz ?idx n))"
    using ring_read_slice [OF inv, of n] le by simp
  also have "ring_slice ?d ?sz ?idx n = take n (drop ?off (snd p))"
  proof (rule nth_equalityI)
    show "length (ring_slice ?d ?sz ?idx n) = length (take n (drop ?off (snd p)))" using n by simp
  next
    fix i assume "i < length (ring_slice ?d ?sz ?idx n)"
    then have i: "i < n" by simp
    let ?k = "3 + ?off + i"
    have "(?idx + i) mod ?sz = (pread rb + (length (pkts_bytes ps) + ?k)) mod ?sz"
      by (simp add: pkt_index_def DVB_RINGBUFFER_PKTHDRSIZE_def mod_add_left_eq add.assoc)
    then have "?d ! ((?idx + i) mod ?sz) = ring_contents rb ! (length (pkts_bytes ps) + ?k)"
      using D(3) i n by (simp add: ring_contents_def)
    also have "\<dots> = enc_pkt p ! ?k" using D(4) [of ?k] i n by simp
    also have "\<dots> = snd p ! (?off + i)" by (simp add: enc_pkt_def numeral_3_eq_3)
    finally show "ring_slice ?d ?sz ?idx n ! i = take n (drop ?off (snd p)) ! i"
      using i n by simp
  qed
  also have "take n (drop ?off (snd p)) = take len (drop ?off (snd p))"
    by (simp add: n_def min_def)
  finally show ?thesis .
qed

text \<open>Disposing of a packet.\<close>

lemma pkt_cleanup_correct:
  "ring_pkts rb ps \<Longrightarrow>
   \<exists>rb'. pkt_cleanup rb = Some rb' \<and> rb_size rb' = rb_size rb \<and>
     ring_pkts rb' (dropWhile (\<lambda>p. fst p = PKT_DISPOSED) ps)"
proof (induction ps arbitrary: rb)
  case Nil
  then have "ring_avail rb = 0" using length_ring_contents [of rb] by (simp add: ring_pkts_def)
  with Nil show ?case
    by (subst pkt_cleanup.simps) (simp add: ring_pkts_def avail_eq)
next
  case (Cons p ps)
  have pk: "ring_pkts rb ([] @ p # ps)" using Cons.prems by simp
  note D = ring_pktsD [OF pk]
  have peek: "DVB_RINGBUFFER_PEEK rb j = Some (enc_pkt p ! j)" if "j < 3" for j
    using ring_get [of rb j] D(1,3) D(4) [of j] that by (simp add: DVB_RINGBUFFER_PEEK_def)
  have guard: "dvb_ringbuffer_avail rb > int DVB_RINGBUFFER_PKTHDRSIZE"
    using D(2,3) unfolding avail_eq [OF D(1)] DVB_RINGBUFFER_PKTHDRSIZE_def pkt_ok_def by simp
  have st: "enc_pkt p ! 2 = fst p" by (simp add: enc_pkt_def numeral_2_eq_2)
  have ln: "unat (enc_pkt p ! 0) * 256 + unat (enc_pkt p ! Suc 0) = length (snd p)"
    using D(2) unat_enc_length by (simp add: enc_pkt_def pkt_ok_def)
  show ?case
  proof (cases "fst p = PKT_DISPOSED")
    case True
    let ?rb = "rb\<lparr>pread := (pread rb + length (enc_pkt p)) mod rb_size rb\<rparr>"
    have "ring_contents ?rb = pkts_bytes ps"
      using ring_contents_skip [OF D(1), of "length (enc_pkt p)"] D(3) Cons.prems
      by (simp add: ring_pkts_def)
    then have "ring_pkts ?rb ps"
      using Cons.prems ring_inv_read [OF D(1)] by (simp add: ring_pkts_def)
    moreover have "pkt_cleanup rb = pkt_cleanup ?rb"
      using guard True st ln peek [of 0] peek [of 1] peek [of 2]
      by (subst pkt_cleanup.simps)
         (simp add: DVB_RINGBUFFER_SKIP_def DVB_RINGBUFFER_PKTHDRSIZE_def)
    ultimately show ?thesis using Cons.IH [of ?rb] True by simp
  next
    case False
    then show ?thesis
      using guard st peek [of 2] Cons.prems by (subst pkt_cleanup.simps) simp
  qed
qed

lemma ring_contents_update:
  assumes "ring_inv rb" "i < ring_avail rb"
  shows "ring_contents (rb\<lparr>rb_data := (rb_data rb)[(pread rb + i) mod rb_size rb := v]\<rparr>) =
     (ring_contents rb)[i := v]"
proof (rule nth_equalityI)
  let ?rb = "rb\<lparr>rb_data := (rb_data rb)[(pread rb + i) mod rb_size rb := v]\<rparr>"
  have av: "ring_avail ?rb = ring_avail rb" by (simp add: ring_avail_def)
  show "length (ring_contents ?rb) = length ((ring_contents rb)[i := v])" by (simp add: av)
  fix j assume "j < length (ring_contents ?rb)"
  then have j: "j < ring_avail rb" by (simp add: av)
  have sz: "i < rb_size rb" "j < rb_size rb" using assms j ring_avail_less by fastforce+
  have "((pread rb + i) mod rb_size rb = (pread rb + j) mod rb_size rb) = (i = j)"
    using ring_dist_add [of "pread rb" "rb_size rb"] assms(1) sz by (metis ring_invD)
  then show "ring_contents ?rb ! j = (ring_contents rb)[i := v] ! j"
    using j assms sz by (auto simp: ring_contents_def av nth_list_update ring_inv_def)
qed

lemma pkt_dispose_correct:
  assumes pk: "ring_pkts rb (ps @ p # qs)"
  shows "\<exists>rb'. dvb_ringbuffer_pkt_dispose rb (pkt_index rb ps) = Some rb' \<and>
     rb_size rb' = rb_size rb \<and>
     ring_pkts rb' (dropWhile (\<lambda>p. fst p = PKT_DISPOSED) (ps @ (PKT_DISPOSED, snd p) # qs))"
proof -
  note D = ring_pktsD [OF pk]
  let ?i = "length (pkts_bytes ps) + 2" and ?p = "(PKT_DISPOSED, snd p)"
  let ?rb = "rb\<lparr>rb_data := (rb_data rb)[(pread rb + ?i) mod rb_size rb := PKT_DISPOSED]\<rparr>"
  have ix: "(pkt_index rb ps + 2) mod rb_size rb = (pread rb + ?i) mod rb_size rb"
    unfolding pkt_index_def by (metis mod_add_left_eq add.assoc)
  have "(enc_pkt p)[2 := PKT_DISPOSED] = enc_pkt ?p" by (simp add: enc_pkt_def numeral_2_eq_2)
  then have "ring_contents ?rb = pkts_bytes (ps @ ?p # qs)"
    using ring_contents_update [OF D(1), of ?i PKT_DISPOSED] D(3) pk
    by (simp add: ring_pkts_def list_update_append)
  then have "ring_pkts ?rb (ps @ ?p # qs)"
    using pk by (simp add: ring_pkts_def ring_inv_def pkt_ok_def)
  moreover have "dvb_ringbuffer_pkt_dispose rb (pkt_index rb ps) = pkt_cleanup ?rb"
    using D(1) ix by (auto simp: dvb_ringbuffer_pkt_dispose_def ring_inv_def mem_simps)
  ultimately show ?thesis using pkt_cleanup_correct [of ?rb] by simp
qed


section \<open>Copies from and to user space\<close>

text \<open>
  What the callers may rely on of \<^verbatim>\<open>copy_from_user\<close>: a result of zero means that every byte of
  the block was copied, and the block keeps its length in any case.
\<close>

definition cfu_ok :: "(nat \<Rightarrow> u8 list \<Rightarrow> nat \<times> u8 list) \<Rightarrow> bool" where
  "cfu_ok cfu \<longleftrightarrow> (\<forall>off bs. length (snd (cfu off bs)) = length bs \<and>
     (fst (cfu off bs) = 0 \<longrightarrow> snd (cfu off bs) = bs))"

lemma ring_contents_scratch:
  assumes "ring_inv rb" "ring_avail rb + length bs \<le> rb_size rb"
  shows "ring_contents (rb\<lparr>rb_data := ring_put (rb_data rb) (rb_size rb) (pwrite rb) bs\<rparr>) = ring_contents rb"
    "ring_inv (rb\<lparr>rb_data := ring_put (rb_data rb) (rb_size rb) (pwrite rb) bs\<rparr>)"
proof -
  let ?rb = "rb\<lparr>rb_data := ring_put (rb_data rb) (rb_size rb) (pwrite rb) bs\<rparr>"
  have "ring_avail ?rb = ring_avail rb" by (simp add: ring_avail_def)
  then show "ring_contents ?rb = ring_contents rb"
    using assms pwrite_ring_avail [OF assms(1)]
    by (auto simp: ring_contents_def ring_inv_def intro!: ring_slice_put_other)
  show "ring_inv ?rb" using assms(1) by (simp add: ring_inv_def)
qed

lemma write_user_block:
  assumes cfu: "cfu_ok cfu" and inv: "ring_inv rb" and fit: "pwrite rb + length buf \<le> rb_size rb"
  shows "dvb_ringbuffer_write_user cfu rb buf =
    (if fst (cfu 0 buf) \<noteq> 0
     then Some (rb\<lparr>rb_data := ring_put (rb_data rb) (rb_size rb) (pwrite rb) (snd (cfu 0 buf))\<rparr>, 0)
     else Some (ring_append rb buf, int (length buf)))"
  using assms
  by (auto simp: cfu_ok_def ring_inv_def dvb_ringbuffer_write_user_def ring_split_def Let_def
      case_prod_beta mem_write_put ring_append_def)

lemma write_user_wrap:
  assumes cfu: "cfu_ok cfu" and inv: "ring_inv rb" and len: "length buf \<le> rb_size rb"
    and wrap: "rb_size rb < pwrite rb + length buf"
  defines "s \<equiv> rb_size rb - pwrite rb"
  defines "rb1 \<equiv> ring_append rb (take s buf)"
  shows "dvb_ringbuffer_write_user cfu rb buf =
    (if fst (cfu 0 (take s buf)) \<noteq> 0
     then Some (rb\<lparr>rb_data := ring_put (rb_data rb) (rb_size rb) (pwrite rb) (snd (cfu 0 (take s buf)))\<rparr>, 0)
     else if fst (cfu s (drop s buf)) \<noteq> 0
     then Some (rb1\<lparr>rb_data := ring_put (rb_data rb1) (rb_size rb1) (pwrite rb1) (snd (cfu s (drop s buf)))\<rparr>, int s)
     else Some (ring_append rb buf, int (length buf)))"
proof -
  have s: "0 < s" "s < length buf" "length buf - s \<le> rb_size rb" "length buf - (length buf - s) = s"
    "ring_split (pwrite rb) (length buf) (rb_size rb) = s" "pwrite rb + s = rb_size rb"
    using inv len wrap by (auto simp: ring_split_def ring_inv_def s_def)
  have sz: "length (rb_data rb) = rb_size rb" "pwrite rb < rb_size rb" "0 < rb_size rb"
    using inv by (auto simp: ring_inv_def)
  have c: "length (snd (cfu off bs)) = length bs" "fst (cfu off bs) = 0 \<Longrightarrow> snd (cfu off bs) = bs" for off bs
    using cfu by (auto simp: cfu_ok_def)
  have rb1: "rb1 = rb\<lparr>rb_data := ring_put (rb_data rb) (rb_size rb) (pwrite rb) (take s buf), pwrite := 0\<rparr>"
    using s by (simp add: rb1_def ring_append_def)
  show ?thesis
    using s sz ring_append_split [OF inv len wrap]
    by (simp add: dvb_ringbuffer_write_user_def Let_def case_prod_beta mem_write_put c rb1 s_def [symmetric])
qed

text \<open>The returned count is the number of bytes that were appended.\<close>

definition appended :: "dvb_ringbuffer \<Rightarrow> u8 list \<Rightarrow> dvb_ringbuffer \<Rightarrow> nat \<Rightarrow> bool" where
  "appended rb buf rb' n \<longleftrightarrow> n \<le> length buf \<and> ring_inv rb' \<and> rb_size rb' = rb_size rb \<and>
     ring_contents rb' = ring_contents rb @ take n buf"

lemma appended_all:
  "ring_inv rb \<Longrightarrow> ring_avail rb + length buf < rb_size rb \<Longrightarrow> appended rb buf (ring_append rb buf) (length buf)"
  by (simp add: appended_def ring_inv_append ring_contents_append)

lemma appended_scratch:
  "ring_inv rb \<Longrightarrow> ring_avail rb + length bs \<le> rb_size rb \<Longrightarrow>
   appended rb buf (rb\<lparr>rb_data := ring_put (rb_data rb) (rb_size rb) (pwrite rb) bs\<rparr>) 0"
  by (simp add: appended_def ring_contents_scratch)

lemma write_user_appended:
  assumes cfu: "cfu_ok cfu" and inv: "ring_inv rb" and room: "ring_avail rb + length buf < rb_size rb"
  shows "\<exists>rb' n. dvb_ringbuffer_write_user cfu rb buf = Some (rb', int n) \<and> appended rb buf rb' n"
proof (cases "rb_size rb < pwrite rb + length buf")
  case False
  have "length (snd (cfu 0 buf)) = length buf" using cfu by (simp add: cfu_ok_def)
  then show ?thesis
    using write_user_block [OF cfu inv, of buf] appended_all [OF inv room] room False
      appended_scratch [OF inv, of "snd (cfu 0 buf)" buf]
    by (cases "fst (cfu 0 buf) = 0") (force intro: exI [of _ 0])+
next
  case True
  let ?s = "rb_size rb - pwrite rb"
  let ?rb1 = "ring_append rb (take ?s buf)"
  have s: "?s < length buf" using True room ring_invD [OF inv] by linarith
  have c: "length (snd (cfu off bs)) = length bs" for off bs using cfu by (simp add: cfu_ok_def)
  have all1: "appended rb (take ?s buf) ?rb1 ?s"
    using appended_all [OF inv, of "take ?s buf"] s room by simp
  then have av1: "ring_avail ?rb1 = ring_avail rb + ?s"
    using length_ring_contents [of ?rb1] s by (simp add: appended_def)
  have "appended ?rb1 (drop ?s buf) (?rb1\<lparr>rb_data := ring_put (rb_data ?rb1) (rb_size ?rb1) (pwrite ?rb1)
      (snd (cfu ?s (drop ?s buf)))\<rparr>) 0"
    using all1 av1 s room by (intro appended_scratch) (auto simp: appended_def c)
  then have "appended rb buf (?rb1\<lparr>rb_data := ring_put (rb_data ?rb1) (rb_size ?rb1) (pwrite ?rb1)
      (snd (cfu ?s (drop ?s buf)))\<rparr>) ?s"
    using all1 s by (simp add: appended_def)
  moreover have "appended rb buf (rb\<lparr>rb_data := ring_put (rb_data rb) (rb_size rb) (pwrite rb)
      (snd (cfu 0 (take ?s buf)))\<rparr>) 0"
    using inv room s by (intro appended_scratch) (auto simp: c)
  ultimately show ?thesis
    using write_user_wrap [OF cfu inv _ True] room appended_all [OF inv room] by (auto intro: exI [of _ 0])
qed

text \<open>Reading to user space: what is delivered, and what a fault loses.\<close>

lemma read_user_ok:
  assumes "\<And>off n. ctu off n = 0"
  shows "dvb_ringbuffer_read_user ctu rb len =
     map_option (\<lambda>(rb', b). (rb', Inr b)) (dvb_ringbuffer_read rb len)"
  by (simp add: dvb_ringbuffer_read_user_def dvb_ringbuffer_read_def assms Let_def map_option_case
      split: option.splits bind_split)

lemma read_user_result:
  assumes inv: "ring_inv rb" and len: "len \<le> ring_avail rb"
  shows "\<exists>rb' r. dvb_ringbuffer_read_user ctu rb len = Some (rb', r) \<and> ring_inv rb' \<and>
    (case r of Inr bs \<Rightarrow> bs = take len (ring_contents rb) \<and> ring_contents rb' = drop len (ring_contents rb)
     | Inl e \<Rightarrow> e = EFAULT \<and> (ring_contents rb' = ring_contents rb \<or>
         ring_contents rb' = drop (rb_size rb - pread rb) (ring_contents rb)))"
proof -
  have lt: "len < rb_size rb" using len ring_avail_less [OF inv] by simp
  have rd: "dvb_ringbuffer_read rb len = Some (rb\<lparr>pread := (pread rb + len) mod rb_size rb\<rparr>, take len (ring_contents rb))"
    using ring_read_slice [OF inv, of len] lt take_ring_contents [OF len] by simp
  have ok: "ring_inv (rb\<lparr>pread := (pread rb + len) mod rb_size rb\<rparr>)"
    "ring_contents (rb\<lparr>pread := (pread rb + len) mod rb_size rb\<rparr>) = drop len (ring_contents rb)"
    using ring_inv_read [OF inv] ring_contents_skip [OF inv len] by auto
  show ?thesis
  proof (cases "rb_size rb < pread rb + len")
    case True
    let ?s = "rb_size rb - pread rb"
    have s: "(pread rb + ?s) mod rb_size rb = 0" "0 < ?s" "?s \<le> ring_avail rb" "len - ?s \<le> rb_size rb"
      using inv True len lt by (auto simp: ring_inv_def)
    have "ring_inv (rb\<lparr>pread := 0\<rparr>)" "ring_contents (rb\<lparr>pread := 0\<rparr>) = drop ?s (ring_contents rb)"
      using ring_inv_read [OF inv, of 0] ring_contents_skip [OF inv s(3)] s(1) by auto
    moreover have "dvb_ringbuffer_read_user ctu rb len =
      (if ctu 0 ?s \<noteq> 0 then Some (rb, Inl EFAULT)
       else if ctu ?s (len - ?s) \<noteq> 0 then Some (rb\<lparr>pread := 0\<rparr>, Inl EFAULT)
       else map_option (\<lambda>(rb', b). (rb', Inr b)) (dvb_ringbuffer_read rb len))"
      using True s inv
      by (auto simp: dvb_ringbuffer_read_user_def dvb_ringbuffer_read_def ring_split_def Let_def mem_simps ring_inv_def)
    ultimately show ?thesis using rd ok inv by auto
  next
    case False
    then have "dvb_ringbuffer_read_user ctu rb len =
      (if ctu 0 len \<noteq> 0 then Some (rb, Inl EFAULT)
       else map_option (\<lambda>(rb', b). (rb', Inr b)) (dvb_ringbuffer_read rb len))"
      using inv
      by (auto simp: dvb_ringbuffer_read_user_def dvb_ringbuffer_read_def ring_split_def Let_def mem_simps ring_inv_def)
    then show ?thesis using rd ok inv by auto
  qed
qed


section \<open>Properties\<close>

text \<open>The byte-wise reference of the write operation.\<close>

fun write_bytes :: "dvb_ringbuffer \<Rightarrow> u8 list \<Rightarrow> dvb_ringbuffer option" where
  "write_bytes rb [] = Some rb"
| "write_bytes rb (b # bs) = do { rb' \<leftarrow> DVB_RINGBUFFER_WRITE_BYTE rb b; write_bytes rb' bs }"

lemma write_bytes_append: "ring_inv rb \<Longrightarrow> write_bytes rb bs = Some (ring_append rb bs)"
proof (induction bs arbitrary: rb)
  case Nil
  then show ?case by (auto simp: ring_append_def ring_inv_def)
next
  case (Cons b bs)
  then show ?case
    using ring_append_append [OF Cons.prems, of "[b]" bs] by (simp add: write_byte_append ring_inv_append)
qed

definition ring4 :: dvb_ringbuffer where
  "ring4 = \<lparr>rb_data = [9, 9, 9, 9], rb_size = 4, pread = 3, pwrite = 3, rb_error = 0\<rparr>"

lemma ring4_inv: "ring_inv ring4"
  by (simp add: ring4_def ring_inv_def)

lemma ring4_empty: "ring_contents ring4 = []" "ring_avail ring4 = 0" "rb_size ring4 = 4"
  "ring_capacity ring4 = 3" "pread ring4 = 3"
  by (simp_all add: ring4_def ring_contents_def ring_avail_def ring_capacity_def)

text \<open>
  C22: every sequence of writes that fit and reads of stored bytes behaves on the ring buffer as
  on a bounded first-in first-out list of bytes: no operation touches memory outside the buffer,
  the bytes read are those of the list, and all bytes read followed by those still stored are
  the bytes stored before followed by the bytes written.
\<close>

theorem ring_fifo:
  assumes "ring_inv rb"
    and "spec_run (ring_capacity rb) (ring_contents rb) ops = Some (xs, outs)"
  shows "\<exists>rb'. queue_run dvb_ringbuffer_write dvb_ringbuffer_read rb ops = Some (rb', outs) \<and>
     ring_inv rb' \<and> ring_contents rb' = xs \<and> concat outs @ xs = ring_contents rb @ put_bytes ops"
  using ringq.run_refines [OF assms] spec_run_fifo [OF assms(2)] by blast

theorem ring_fifo_witness:
  "\<exists>rb'. queue_run dvb_ringbuffer_write dvb_ringbuffer_read ring4
       [Put [1, 2], Get 1, Put [3, 4], Get 3] = Some (rb', [[1], [2, 3, 4]]) \<and>
     ring_inv rb' \<and> ring_contents rb' = []"
  using ring_fifo [OF ring4_inv, of "[Put [1, 2], Get 1, Put [3, 4], Get 3]" "[]" "[[1], [2, 3, 4]]"]
  by (simp add: ring4_empty)

text \<open>
  C30: the two-block copy of \<^verbatim>\<open>dvb_ringbuffer_write\<close> has the effect of writing the bytes one by
  one with \<^verbatim>\<open>DVB_RINGBUFFER_WRITE_BYTE\<close>, for every block of at most the size of the buffer.
\<close>

theorem ring_write_reference:
  assumes "ring_inv rb" and "length buf \<le> rb_size rb"
  shows "dvb_ringbuffer_write rb buf = map_option (\<lambda>rb'. (rb', int (length buf))) (write_bytes rb buf)"
  using assms by (simp add: ring_write_put write_bytes_append)

theorem ring_write_reference_witness:
  "dvb_ringbuffer_write ring4 [1, 2, 3] =
     map_option (\<lambda>rb'. (rb', 3)) (write_bytes ring4 [1, 2, 3])"
  using ring_write_reference [OF ring4_inv, of "[1, 2, 3]"] by (simp add: ring4_empty)

text \<open>
  \<^verbatim>\<open>dvb_ringbuffer_avail\<close> is the number of stored bytes, \<^verbatim>\<open>dvb_ringbuffer_empty\<close> says that
  there are none, and available and free space add up to one less than the size.
\<close>

theorem ring_space:
  assumes "ring_inv rb"
  shows "dvb_ringbuffer_avail rb = int (length (ring_contents rb)) \<and>
     dvb_ringbuffer_empty rb = (ring_contents rb = []) \<and>
     dvb_ringbuffer_free rb + dvb_ringbuffer_avail rb = int (rb_size rb) - 1 \<and>
     0 \<le> dvb_ringbuffer_free rb"
  using assms ring_avail_less [OF assms] by (simp add: avail_eq free_eq empty_eq)

theorem ring_space_witness: "dvb_ringbuffer_free ring4 + dvb_ringbuffer_avail ring4 = 3"
  using ring_space [OF ring4_inv] by (simp add: ring4_empty)

text \<open>
  whatever \<^verbatim>\<open>copy_from_user\<close> does, \<^verbatim>\<open>dvb_ringbuffer_write_user\<close> returns exactly the number
  of bytes it has appended; after a fault the rest of the buffer is as before.
\<close>

theorem ring_write_user_count:
  assumes "cfu_ok cfu" and "ring_inv rb" and "ring_avail rb + length buf < rb_size rb"
  shows "\<exists>rb' n. dvb_ringbuffer_write_user cfu rb buf = Some (rb', int n) \<and> n \<le> length buf \<and>
     ring_inv rb' \<and> ring_contents rb' = ring_contents rb @ take n buf"
  using write_user_appended [OF assms] by (auto simp: appended_def)

theorem ring_write_user_count_witness:
  "\<exists>rb' n. dvb_ringbuffer_write_user (\<lambda>off. \<lambda>bs. (off, map (\<lambda>b. if off = 0 then b else 0) bs)) ring4 [1, 2, 3] =
       Some (rb', int n) \<and> n \<le> 3 \<and> ring_inv rb' \<and> ring_contents rb' = take n [1, 2, 3]"
  using ring_write_user_count [of "\<lambda>off. \<lambda>bs. (off, map (\<lambda>b. if off = 0 then b else 0) bs)" ring4 "[1, 2, 3]"]
  by (simp add: ring4_empty ring4_inv cfu_ok_def numeral_3_eq_3)

text \<open>
  \<^verbatim>\<open>dvb_ringbuffer_read_user\<close> delivers the oldest bytes; when the copy to user space
  faults, the stored bytes are unchanged, or, if the fault is in the second of the two blocks,
  the bytes of the first block have been dropped.
\<close>

theorem ring_read_user_fault:
  assumes "ring_inv rb" and "len \<le> ring_avail rb"
  shows "\<exists>rb' r. dvb_ringbuffer_read_user ctu rb len = Some (rb', r) \<and> ring_inv rb' \<and>
    (case r of Inr bs \<Rightarrow> bs = take len (ring_contents rb) \<and> ring_contents rb' = drop len (ring_contents rb)
     | Inl e \<Rightarrow> e = EFAULT \<and> (ring_contents rb' = ring_contents rb \<or>
         ring_contents rb' = drop (rb_size rb - pread rb) (ring_contents rb)))"
  using assms by (rule read_user_result)

theorem ring_read_user_fault_witness:
  "\<exists>rb' r. dvb_ringbuffer_read_user (\<lambda>off n. off) (ring_append ring4 [1, 2, 3]) 2 = Some (rb', r) \<and> ring_inv rb'"
  using ring_read_user_fault [of "ring_append ring4 [1, 2, 3]" 2 "\<lambda>off n. off"]
    ring_contents_append [OF ring4_inv, of "[1, 2, 3]"] length_ring_contents [of "ring_append ring4 [1, 2, 3]"]
  by (auto simp: ring4_empty ring4_inv ring_inv_append simp del: length_ring_contents)

text \<open>
  C31: \<^verbatim>\<open>dvb_ringbuffer_pkt_write\<close> of a payload that fits appends one ready packet to the packets
  in the buffer, and \<^verbatim>\<open>dvb_ringbuffer_pkt_read\<close> at its index gives back the requested part of
  the payload.
\<close>

theorem pkt_write_read:
  assumes "ring_pkts rb ps" and "ring_avail rb + length buf + 3 < rb_size rb"
    and "0 < length buf" and "length buf < 65536" and "0 \<le> offset" and "offset \<le> int (length buf)"
  shows "\<exists>rb'. dvb_ringbuffer_pkt_write rb buf = Some (rb', int (length buf)) \<and>
     ring_pkts rb' (ps @ [(PKT_READY, buf)]) \<and>
     dvb_ringbuffer_pkt_read rb' (pkt_index rb' ps) offset len = Some (Inr (take len (drop (nat offset) buf)))"
  using ring_pkts_write [OF assms(1-4)] pkt_read_slice [of _ ps "(PKT_READY, buf)" "[]"] assms(5,6)
  by fastforce

definition ring10 :: dvb_ringbuffer where
  "ring10 = \<lparr>rb_data = replicate 10 0, rb_size = 10, pread = 8, pwrite = 8, rb_error = 0\<rparr>"

lemma ring10_pkts: "ring_pkts ring10 []" "ring_avail ring10 = 0" "rb_size ring10 = 10"
  by (simp_all add: ring10_def ring_pkts_def ring_inv_def ring_contents_def ring_avail_def)

theorem pkt_write_read_witness:
  "\<exists>rb'. dvb_ringbuffer_pkt_write ring10 [5, 6, 7] = Some (rb', 3) \<and>
     dvb_ringbuffer_pkt_read rb' (pkt_index rb' []) 1 8 = Some (Inr [6, 7])"
  using pkt_write_read [OF ring10_pkts(1), of "[5, 6, 7]" 1 8] by (auto simp: ring10_pkts)

text \<open>
  \<^verbatim>\<open>dvb_ringbuffer_pkt_next\<close> finds the first ready packet of the buffer, and from a packet
  the next ready one after it, provided the index arithmetic does not wrap or the size of the
  buffer divides \<open>2^64\<close>.
\<close>

theorem pkt_next_finds:
  assumes "ring_pkts rb (ps @ p # qs)" and "rb_size rb < 2 ^ 31"
    and "pread rb \<le> pkt_index rb (ps @ [p]) \<or> rb_size rb dvd 2 ^ 64"
  shows "dvb_ringbuffer_pkt_next rb None =
      Some (map_option (\<lambda>(off, len). ((pread rb + off) mod rb_size rb, len)) (next_ready 0 (ps @ p # qs)))
    \<and> dvb_ringbuffer_pkt_next rb (Some (pkt_index rb ps)) =
      Some (map_option (\<lambda>(off, len). ((pread rb + off) mod rb_size rb, len))
        (next_ready (length (pkts_bytes (ps @ [p]))) qs))"
  using pkt_next_first [OF assms(1)] pkt_next_after [OF assms] by simp

definition ring16 :: dvb_ringbuffer where
  "ring16 = \<lparr>rb_data = [0, 1, 0, 77, 0, 0, 0, 0, 0, 0, 0, 0, 0, 1, 1, 66], rb_size = 16, pread = 12, pwrite = 4, rb_error = 0\<rparr>"

lemma ring16_pkts: "ring_pkts ring16 ([] @ (PKT_DISPOSED, [66]) # [(PKT_READY, [77])])"
  by (simp add: ring16_def ring_pkts_def ring_inv_def pkt_ok_def ring_contents_def ring_avail_def
      ring_slice_def upt_rec enc_pkt_def PKT_READY_def PKT_DISPOSED_def)

theorem pkt_next_finds_witness:
  "dvb_ringbuffer_pkt_next ring16 None = Some (Some (0, 1)) \<and>
   dvb_ringbuffer_pkt_next ring16 (Some 12) = Some (Some (0, 1))"
  using pkt_next_finds [OF ring16_pkts]
  by (simp add: ring16_def pkt_index_def PKT_READY_def PKT_DISPOSED_def)

text \<open>
  on a buffer whose size leaves the remainder 1 of \<open>2^64\<close>, such as the 65535 bytes of the
  CA receive buffer, a ready packet with a one-byte payload at the end of the buffer is not found
  when its index has wrapped below the read pointer: the unsigned subtraction counts one byte too
  many.
\<close>

theorem pkt_next_wrap_loses_packet:
  assumes "ring_pkts rb (ps @ [p, (PKT_READY, [b])])" and "rb_size rb < 2 ^ 31"
    and "pkt_index rb (ps @ [p]) < pread rb" and "2 ^ 64 mod rb_size rb = 1"
  shows "dvb_ringbuffer_pkt_next rb (Some (pkt_index rb ps)) = Some None"
  using assms by (rule pkt_next_lost)

definition ring15 :: dvb_ringbuffer where
  "ring15 = \<lparr>rb_data = [0, 1, 0, 77, 0, 0, 0, 0, 0, 0, 0, 0, 1, 0, 66], rb_size = 15, pread = 11, pwrite = 4, rb_error = 0\<rparr>"

lemma ring15_pkts: "ring_pkts ring15 ([] @ [(PKT_READY, [66]), (PKT_READY, [77])])"
  by (simp add: ring15_def ring_pkts_def ring_inv_def pkt_ok_def ring_contents_def ring_avail_def
      ring_slice_def upt_rec enc_pkt_def PKT_READY_def PKT_DISPOSED_def)

theorem pkt_next_wrap_loses_packet_witness:
  "(2 :: nat) ^ 64 mod 65535 = 1 \<and> dvb_ringbuffer_pkt_next ring15 (Some 11) = Some None"
  using pkt_next_wrap_loses_packet [OF ring15_pkts]
  by (simp add: ring15_def pkt_index_def PKT_READY_def)

text \<open>
  \<^verbatim>\<open>dvb_ringbuffer_pkt_dispose\<close> returns (its clean-up loop ends), marks the packet and frees
  exactly the disposed packets at the front of the buffer.
\<close>

theorem pkt_dispose_frees:
  assumes "ring_pkts rb (ps @ p # qs)"
  shows "\<exists>rb'. dvb_ringbuffer_pkt_dispose rb (pkt_index rb ps) = Some rb' \<and>
     ring_pkts rb' (dropWhile (\<lambda>p. fst p = PKT_DISPOSED) (ps @ (PKT_DISPOSED, snd p) # qs))"
  using pkt_dispose_correct [OF assms] by blast

theorem pkt_dispose_frees_witness:
  "\<exists>rb'. dvb_ringbuffer_pkt_dispose ring16 12 = Some rb' \<and> ring_pkts rb' [(PKT_READY, [77])]"
  using pkt_dispose_frees [OF ring16_pkts] by (simp add: ring16_def pkt_index_def PKT_READY_def PKT_DISPOSED_def)

end
