(* ===== verification/Ir_Raw.thy ===== *)
theory Ir_Raw
  imports Kernel_Prelude
begin

text \<open>
  Raw infrared events and their modulation: \<^verbatim>\<open>struct ir_raw_event\<close> of
  \<^verbatim>\<open>include/media/rc-core.h\<close>, the timing predicates of \<^verbatim>\<open>rc/rc-core-priv.h\<close> and the three
  modulators of \<^verbatim>\<open>rc/rc-ir-raw.c\<close>. The last section is the contract between the raw event
  thread and the protocol handlers, stated as locales.
\<close>

section \<open>Protocols and events\<close>

datatype rc_proto = RC_PROTO_UNKNOWN | RC_PROTO_OTHER | RC_PROTO_RC5 | RC_PROTO_RC5X_20
  | RC_PROTO_RC5_SZ | RC_PROTO_JVC | RC_PROTO_SONY12 | RC_PROTO_SONY15 | RC_PROTO_SONY20
  | RC_PROTO_NEC | RC_PROTO_NECX | RC_PROTO_NEC32 | RC_PROTO_SANYO | RC_PROTO_MCIR2_KBD
  | RC_PROTO_MCIR2_MSE | RC_PROTO_RC6_0 | RC_PROTO_RC6_6A_20 | RC_PROTO_RC6_6A_24
  | RC_PROTO_RC6_6A_32 | RC_PROTO_RC6_MCE | RC_PROTO_SHARP | RC_PROTO_XMP | RC_PROTO_CEC
  | RC_PROTO_IMON | RC_PROTO_RCMM12 | RC_PROTO_RCMM24 | RC_PROTO_RCMM32 | RC_PROTO_XBOX_DVD

fun rc_proto_num :: "rc_proto \<Rightarrow> nat" where
  "rc_proto_num RC_PROTO_UNKNOWN = 0"
| "rc_proto_num RC_PROTO_OTHER = 1"
| "rc_proto_num RC_PROTO_RC5 = 2"
| "rc_proto_num RC_PROTO_RC5X_20 = 3"
| "rc_proto_num RC_PROTO_RC5_SZ = 4"
| "rc_proto_num RC_PROTO_JVC = 5"
| "rc_proto_num RC_PROTO_SONY12 = 6"
| "rc_proto_num RC_PROTO_SONY15 = 7"
| "rc_proto_num RC_PROTO_SONY20 = 8"
| "rc_proto_num RC_PROTO_NEC = 9"
| "rc_proto_num RC_PROTO_NECX = 10"
| "rc_proto_num RC_PROTO_NEC32 = 11"
| "rc_proto_num RC_PROTO_SANYO = 12"
| "rc_proto_num RC_PROTO_MCIR2_KBD = 13"
| "rc_proto_num RC_PROTO_MCIR2_MSE = 14"
| "rc_proto_num RC_PROTO_RC6_0 = 15"
| "rc_proto_num RC_PROTO_RC6_6A_20 = 16"
| "rc_proto_num RC_PROTO_RC6_6A_24 = 17"
| "rc_proto_num RC_PROTO_RC6_6A_32 = 18"
| "rc_proto_num RC_PROTO_RC6_MCE = 19"
| "rc_proto_num RC_PROTO_SHARP = 20"
| "rc_proto_num RC_PROTO_XMP = 21"
| "rc_proto_num RC_PROTO_CEC = 22"
| "rc_proto_num RC_PROTO_IMON = 23"
| "rc_proto_num RC_PROTO_RCMM12 = 24"
| "rc_proto_num RC_PROTO_RCMM24 = 25"
| "rc_proto_num RC_PROTO_RCMM32 = 26"
| "rc_proto_num RC_PROTO_XBOX_DVD = 27"

text \<open>\<^verbatim>\<open>BIT_ULL(protocol)\<close>, and the test of a protocol in a set of protocols.\<close>

definition rc_proto_bit :: "rc_proto \<Rightarrow> u64" where
  "rc_proto_bit p = push_bit (rc_proto_num p) 1"

definition proto_enabled :: "u64 \<Rightarrow> rc_proto \<Rightarrow> bool" where
  "proto_enabled protos p \<longleftrightarrow> protos AND rc_proto_bit p \<noteq> 0"

record ir_raw_event =
  duration :: u32
  duty_cycle :: u8
  pulse :: bool
  ev_reset :: bool
  ev_timeout :: bool
  carrier_report :: bool

definition init_ir_raw_event_duration :: "bool \<Rightarrow> u32 \<Rightarrow> ir_raw_event" where
  "init_ir_raw_event_duration p d =
     \<lparr>duration = d, duty_cycle = 0, pulse = p, ev_reset = False, ev_timeout = False,
      carrier_report = False\<rparr>"

definition geq_margin :: "u32 \<Rightarrow> u32 \<Rightarrow> u32 \<Rightarrow> bool" where
  "geq_margin d1 d2 margin \<longleftrightarrow> d1 > d2 - margin"

definition eq_margin :: "u32 \<Rightarrow> u32 \<Rightarrow> u32 \<Rightarrow> bool" where
  "eq_margin d1 d2 margin \<longleftrightarrow> d1 > d2 - margin \<and> d1 < d2 + margin"

definition is_transition :: "ir_raw_event \<Rightarrow> ir_raw_event \<Rightarrow> bool" where
  "is_transition x y \<longleftrightarrow> pulse x \<noteq> pulse y"

definition decrease_duration :: "ir_raw_event \<Rightarrow> u32 \<Rightarrow> ir_raw_event" where
  "decrease_duration ev d =
     (if d > duration ev then ev\<lparr>duration := 0\<rparr> else ev\<lparr>duration := duration ev - d\<rparr>)"

definition is_timing_event :: "ir_raw_event \<Rightarrow> bool" where
  "is_timing_event ev \<longleftrightarrow> \<not> carrier_report ev \<and> \<not> ev_reset ev"

lemma init_ir_raw_event_sel [simp]:
  "duration (init_ir_raw_event_duration p d) = d" "pulse (init_ir_raw_event_duration p d) = p"
  "is_timing_event (init_ir_raw_event_duration p d)"
  by (simp_all add: init_ir_raw_event_duration_def is_timing_event_def)

section \<open>Modulation\<close>

text \<open>
  A modulator fills an array of events. Its state is the list of events written so far and the
  number of free slots (\<^verbatim>\<open>max\<close>); it ends with an error number or without.
\<close>

type_synonym gen_state = "ir_raw_event list \<times> nat"
type_synonym gen_result = "gen_state \<times> errno option"

fun gen_then :: "gen_result \<Rightarrow> (gen_state \<Rightarrow> gen_result) \<Rightarrow> gen_result" where
  "gen_then (s, None) f = f s"
| "gen_then (s, Some e) f = (s, Some e)"

definition put_event :: "gen_state \<Rightarrow> bool \<Rightarrow> u32 \<Rightarrow> gen_result" where
  "put_event s p d =
     (case s of (evs, room) \<Rightarrow>
        if room = 0 then (s, Some ENOBUFS)
        else ((evs @ [init_ir_raw_event_duration p d], room - 1), None))"

definition ir_raw_gen_pulse_space :: "gen_state \<Rightarrow> u32 \<Rightarrow> u32 \<Rightarrow> gen_result" where
  "ir_raw_gen_pulse_space s pulse_width space_width =
     (case s of (evs, room) \<Rightarrow>
        if room = 0 then (s, Some ENOBUFS)
        else
          let evs = evs @ [init_ir_raw_event_duration True pulse_width]; room = room - 1 in
          if room = 0 then ((evs, room), Some ENOBUFS)
          else ((evs @ [init_ir_raw_event_duration False space_width], room - 1), None))"

record ir_raw_timings_pd =
  pd_header_pulse :: u32
  pd_header_space :: u32
  pd_bit_pulse :: u32
  pd_bit_space :: "bool \<Rightarrow> u32"
  pd_trailer_pulse :: u32
  pd_trailer_space :: u32
  pd_msb_first :: bool

text \<open>The two loops of \<^verbatim>\<open>ir_raw_gen_pd\<close>: most and least significant bit first.\<close>

fun pd_msb_loop :: "ir_raw_timings_pd \<Rightarrow> u64 \<Rightarrow> nat \<Rightarrow> gen_state \<Rightarrow> gen_result" where
  "pd_msb_loop t d 0 s = (s, None)"
| "pd_msb_loop t d (Suc i) s =
     gen_then (ir_raw_gen_pulse_space s (pd_bit_pulse t) (pd_bit_space t (drop_bit i d AND 1 = 1)))
       (pd_msb_loop t d i)"

fun pd_lsb_loop :: "ir_raw_timings_pd \<Rightarrow> u64 \<Rightarrow> nat \<Rightarrow> gen_state \<Rightarrow> gen_result" where
  "pd_lsb_loop t d 0 s = (s, None)"
| "pd_lsb_loop t d (Suc n) s =
     gen_then (ir_raw_gen_pulse_space s (pd_bit_pulse t) (pd_bit_space t (d AND 1 = 1)))
       (pd_lsb_loop t (drop_bit 1 d) n)"

definition ir_raw_gen_pd :: "gen_state \<Rightarrow> ir_raw_timings_pd \<Rightarrow> nat \<Rightarrow> u64 \<Rightarrow> gen_result" where
  "ir_raw_gen_pd s t n d =
     gen_then
       (if pd_header_pulse t \<noteq> 0
        then ir_raw_gen_pulse_space s (pd_header_pulse t) (pd_header_space t) else (s, None))
       (\<lambda>s. gen_then (if pd_msb_first t then pd_msb_loop t d n s else pd_lsb_loop t d n s)
       (\<lambda>s. ir_raw_gen_pulse_space s (pd_trailer_pulse t) (pd_trailer_space t)))"

record ir_raw_timings_pl =
  pl_header_pulse :: u32
  pl_bit_space :: u32
  pl_bit_pulse :: "bool \<Rightarrow> u32"
  pl_trailer_space :: u32
  pl_msb_first :: bool

fun pl_msb_loop :: "ir_raw_timings_pl \<Rightarrow> u64 \<Rightarrow> nat \<Rightarrow> gen_state \<Rightarrow> gen_result" where
  "pl_msb_loop t d 0 s = (s, None)"
| "pl_msb_loop t d (Suc i) s =
     gen_then (put_event s False (pl_bit_space t)) (\<lambda>s.
     gen_then (put_event s True (pl_bit_pulse t (drop_bit i d AND 1 = 1)))
       (pl_msb_loop t d i))"

fun pl_lsb_loop :: "ir_raw_timings_pl \<Rightarrow> u64 \<Rightarrow> nat \<Rightarrow> gen_state \<Rightarrow> gen_result" where
  "pl_lsb_loop t d 0 s = (s, None)"
| "pl_lsb_loop t d (Suc n) s =
     gen_then (put_event s False (pl_bit_space t)) (\<lambda>s.
     gen_then (put_event s True (pl_bit_pulse t (d AND 1 = 1)))
       (pl_lsb_loop t (drop_bit 1 d) n))"

definition ir_raw_gen_pl :: "gen_state \<Rightarrow> ir_raw_timings_pl \<Rightarrow> nat \<Rightarrow> u64 \<Rightarrow> gen_result" where
  "ir_raw_gen_pl s t n d =
     gen_then (put_event s True (pl_header_pulse t)) (\<lambda>s.
     gen_then (if pl_msb_first t then pl_msb_loop t d n s else pl_lsb_loop t d n s) (\<lambda>s.
     put_event s False (pl_trailer_space t)))"

record ir_raw_timings_manchester =
  mn_leader_pulse :: u32
  mn_leader_space :: u32
  mn_clock :: u32
  mn_invert :: bool
  mn_trailer_space :: u32

text \<open>
  The Manchester modulator keeps a pointer to the last event and lengthens it when the next half
  bit has the same level. With no leader pulse it continues the events written before.
\<close>

definition lengthen_last :: "ir_raw_event list \<Rightarrow> u32 \<Rightarrow> ir_raw_event list" where
  "lengthen_last evs d = butlast evs @ [(last evs)\<lparr>duration := duration (last evs) + d\<rparr>]"

definition put_level :: "gen_state \<Rightarrow> bool \<Rightarrow> u32 \<Rightarrow> gen_result" where
  "put_level s p d =
     (case s of (evs, room) \<Rightarrow>
        if p = pulse (last evs) then ((lengthen_last evs d, room), None) else put_event s p d)"

fun manchester_loop :: "ir_raw_timings_manchester \<Rightarrow> u64 \<Rightarrow> nat \<Rightarrow> gen_state \<Rightarrow> gen_result" where
  "manchester_loop t d 0 s = (s, None)"
| "manchester_loop t d (Suc i) s =
     (let need_pulse = (d AND push_bit i 1 = 0);
          need_pulse = (if mn_invert t then \<not> need_pulse else need_pulse) in
      gen_then (put_level s need_pulse (mn_clock t)) (\<lambda>s.
      gen_then (put_event s (\<not> need_pulse) (mn_clock t)) (\<lambda>s.
      manchester_loop t d i s)))"

definition ir_raw_gen_manchester ::
  "gen_state \<Rightarrow> ir_raw_timings_manchester \<Rightarrow> nat \<Rightarrow> u64 \<Rightarrow> gen_result" where
  "ir_raw_gen_manchester s t n d =
     gen_then
       (if mn_leader_pulse t \<noteq> 0 then
          gen_then (put_event s True (mn_leader_pulse t)) (\<lambda>s.
            if mn_leader_space t \<noteq> 0 then put_event s False (mn_leader_space t) else (s, None))
        else (s, None))
       (\<lambda>s. gen_then (manchester_loop t d n s)
       (\<lambda>s. if mn_trailer_space t \<noteq> 0 then put_level s False (mn_trailer_space t) else (s, None)))"

text \<open>
  The handlers return the number of events written, or the error number; the events of the array
  are kept beside it.
\<close>

definition encode_result :: "gen_result \<Rightarrow> ir_raw_event list \<times> nat result" where
  "encode_result r =
     (case r of ((evs, room), None) \<Rightarrow> (evs, Inr (length evs)) | ((evs, room), Some e) \<Rightarrow> (evs, Inl e))"


lemma encode_result_ok: "encode_result r = (es, Inr n) \<longleftrightarrow> (\<exists>room'. r = ((es, room'), None) \<and> n = length es)"
  by (auto simp: encode_result_def split: prod.splits option.splits)

section \<open>Emitting a list of events\<close>

text \<open>
  What a modulator does with a list of events it wants to write: it writes them all if there is
  room, else as many as fit and reports that the buffer is too small.
\<close>

definition emit :: "gen_state \<Rightarrow> ir_raw_event list \<Rightarrow> gen_result" where
  "emit s xs =
     (case s of (evs, room) \<Rightarrow>
        if length xs \<le> room then ((evs @ xs, room - length xs), None)
        else ((evs @ take room xs, 0), Some ENOBUFS))"

lemma emit_Nil [simp]: "emit s [] = (s, None)"
  by (cases s) (simp add: emit_def)

lemma put_event_emit: "put_event s p d = emit s [init_ir_raw_event_duration p d]"
  by (cases s) (auto simp: put_event_def emit_def)

lemma gen_pulse_space_emit:
  "ir_raw_gen_pulse_space s a b =
     emit s [init_ir_raw_event_duration True a, init_ir_raw_event_duration False b]"
  by (cases s) (auto simp: ir_raw_gen_pulse_space_def emit_def Let_def take_Cons' )

lemma emit_emit: "gen_then (emit s xs) (\<lambda>s. emit s ys) = emit s (xs @ ys)"
  by (cases s) (auto simp: emit_def)

lemma emit_then: "(\<And>s. f s = emit s ys) \<Longrightarrow> gen_then (emit s xs) f = emit s (xs @ ys)"
  by (cases s) (auto simp: emit_def)

text \<open>The events of a block of bits in pulse-distance and pulse-length modulation.\<close>

definition pd_symbol :: "ir_raw_timings_pd \<Rightarrow> bool \<Rightarrow> ir_raw_event list" where
  "pd_symbol t b = [init_ir_raw_event_duration True (pd_bit_pulse t),
     init_ir_raw_event_duration False (pd_bit_space t b)]"

definition pl_symbol :: "ir_raw_timings_pl \<Rightarrow> bool \<Rightarrow> ir_raw_event list" where
  "pl_symbol t b = [init_ir_raw_event_duration False (pl_bit_space t),
     init_ir_raw_event_duration True (pl_bit_pulse t b)]"

abbreviation pd_events :: "ir_raw_timings_pd \<Rightarrow> bool list \<Rightarrow> ir_raw_event list" where
  "pd_events t bs \<equiv> concat (map (pd_symbol t) bs)"

abbreviation pl_events :: "ir_raw_timings_pl \<Rightarrow> bool list \<Rightarrow> ir_raw_event list" where
  "pl_events t bs \<equiv> concat (map (pl_symbol t) bs)"

text \<open>The \<open>n\<close> low bits of a word, most or least significant bit first.\<close>

definition msb_bits :: "nat \<Rightarrow> 'a::len word \<Rightarrow> bool list" where
  "msb_bits n d = map (bit d) (rev [0..<n])"

definition lsb_bits :: "nat \<Rightarrow> 'a::len word \<Rightarrow> bool list" where
  "lsb_bits n d = map (bit d) [0..<n]"

lemma msb_bits_0 [simp]: "msb_bits 0 d = []"
  by (simp add: msb_bits_def)

lemma msb_bits_Suc [simp]: "msb_bits (Suc n) d = bit d n # msb_bits n d"
  by (simp add: msb_bits_def)

lemma lsb_bits_0 [simp]: "lsb_bits 0 d = []"
  by (simp add: lsb_bits_def)

lemma lsb_bits_Suc: "lsb_bits (Suc n) d = bit d 0 # lsb_bits n (drop_bit 1 d)"
  by (rule nth_equalityI) (auto simp: lsb_bits_def nth_Cons bit_drop_bit_eq simp del: upt_Suc split: nat.splits)

lemma length_msb_bits [simp]: "length (msb_bits n d) = n"
  by (simp add: msb_bits_def)

lemma length_lsb_bits [simp]: "length (lsb_bits n d) = n"
  by (simp add: lsb_bits_def)

lemma msb_bits_ucast [simp]:
  "n \<le> LENGTH('a) \<Longrightarrow> n \<le> LENGTH('b) \<Longrightarrow> msb_bits n (ucast (w :: 'a::len word) :: 'b::len word) = msb_bits n w"
  by (auto simp: msb_bits_def bit_simps)

lemma lsb_bits_ucast [simp]:
  "n \<le> LENGTH('a) \<Longrightarrow> n \<le> LENGTH('b) \<Longrightarrow> lsb_bits n (ucast (w :: 'a::len word) :: 'b::len word) = lsb_bits n w"
  by (auto simp: lsb_bits_def bit_simps)

lemma and_1_bit: "(drop_bit i d AND 1 = 1) = bit (d :: 'a::len word) i"
  by (simp add: and_one_eq mod_2_eq_odd bit_iff_odd_drop_bit)

lemma and_1_bit_0: "(d AND 1 = 1) = bit (d :: 'a::len word) 0"
  using and_1_bit [of 0 d] by simp

lemma and_push_bit: "(d AND push_bit i 1 = 0) = (\<not> bit (d :: 'a::len word) i)" if "i < LENGTH('a)"
proof -
  have "d AND push_bit i 1 = (if bit d i then push_bit i 1 else 0)"
    by (rule bit_word_eqI) (auto simp: bit_simps)
  moreover have "bit (push_bit i 1 :: 'a word) i" using that by (simp add: bit_simps)
  then have "push_bit i 1 \<noteq> (0 :: 'a word)" by (metis bit_0_eq bot_apply bot_bool_def)
  ultimately show ?thesis by simp
qed

lemma pd_msb_loop_emit: "pd_msb_loop t d n s = emit s (pd_events t (msb_bits n d))"
  by (induction t d n s rule: pd_msb_loop.induct)
     (auto simp: pd_symbol_def gen_pulse_space_emit and_1_bit intro!: emit_then [THEN trans])

lemma pd_lsb_loop_emit: "pd_lsb_loop t d n s = emit s (pd_events t (lsb_bits n d))"
  by (induction t d n s rule: pd_lsb_loop.induct)
     (auto simp: pd_symbol_def gen_pulse_space_emit and_1_bit_0 lsb_bits_Suc intro!: emit_then [THEN trans])

lemma pl_msb_loop_emit: "pl_msb_loop t d n s = emit s (pl_events t (msb_bits n d))"
proof (induction n arbitrary: s)
  case (Suc n)
  then show ?case
    by (simp add: put_event_emit emit_then pl_symbol_def and_1_bit)
qed (simp add: pl_symbol_def)

lemma pl_lsb_loop_emit: "pl_lsb_loop t d n s = emit s (pl_events t (lsb_bits n d))"
proof (induction n arbitrary: s d)
  case (Suc n)
  then show ?case
    by (simp add: put_event_emit emit_then pl_symbol_def and_1_bit_0 lsb_bits_Suc)
qed (simp add: pl_symbol_def)


lemma gen_pd_emit:
  "ir_raw_gen_pd s t n d = emit s
     ((if pd_header_pulse t \<noteq> 0 then [init_ir_raw_event_duration True (pd_header_pulse t),
         init_ir_raw_event_duration False (pd_header_space t)] else []) @
      pd_events t (if pd_msb_first t then msb_bits n d else lsb_bits n d) @
      [init_ir_raw_event_duration True (pd_trailer_pulse t),
       init_ir_raw_event_duration False (pd_trailer_space t)])"
  by (simp add: ir_raw_gen_pd_def gen_pulse_space_emit pd_msb_loop_emit pd_lsb_loop_emit emit_then)

lemma gen_pl_emit:
  "ir_raw_gen_pl s t n d = emit s
     ([init_ir_raw_event_duration True (pl_header_pulse t)] @
      pl_events t (if pl_msb_first t then msb_bits n d else lsb_bits n d) @
      [init_ir_raw_event_duration False (pl_trailer_space t)])"
  by (simp add: ir_raw_gen_pl_def put_event_emit pl_msb_loop_emit pl_lsb_loop_emit emit_then)

lemma length_pd_events [simp]: "length (pd_events t bs) = 2 * length bs"
  by (induction bs) (auto simp: pd_symbol_def)

lemma length_pl_events [simp]: "length (pl_events t bs) = 2 * length bs"
  by (induction bs) (auto simp: pl_symbol_def)

lemma encode_result_emit:
  "encode_result (emit ([], room) xs) =
     (if length xs \<le> room then (xs, Inr (length xs)) else (take room xs, Inl ENOBUFS))"
  by (simp add: encode_result_def emit_def)

text \<open>
  Manchester modulation: what the events are when there is room. The level of the first half of a
  bit; then \<open>mn_symbol\<close> holds the events from the middle of one bit to the middle of the next, one
  of two clocks when the levels agree and two of one clock when they do not.
\<close>

definition mn_level :: "ir_raw_timings_manchester \<Rightarrow> bool \<Rightarrow> bool" where
  "mn_level t b = (if mn_invert t then b else \<not> b)"

fun mn_symbol :: "ir_raw_timings_manchester \<Rightarrow> bool \<times> bool \<Rightarrow> ir_raw_event list" where
  "mn_symbol t (b, b') =
     (if b \<noteq> b' then [init_ir_raw_event_duration (mn_level t b') (mn_clock t + mn_clock t)]
      else [init_ir_raw_event_duration (\<not> mn_level t b) (mn_clock t),
            init_ir_raw_event_duration (mn_level t b') (mn_clock t)])"

definition mn_half :: "ir_raw_timings_manchester \<Rightarrow> bool \<Rightarrow> ir_raw_event" where
  "mn_half t b = init_ir_raw_event_duration (\<not> mn_level t b) (mn_clock t)"

fun mn_chain :: "bool \<Rightarrow> bool list \<Rightarrow> (bool \<times> bool) list" where
  "mn_chain b [] = []"
| "mn_chain b (c # cs) = (b, c) # mn_chain c cs"

lemma length_mn_chain [simp]: "length (mn_chain b bs) = length bs"
  by (induction b bs rule: mn_chain.induct) auto

lemma map_snd_mn_chain [simp]: "map snd (mn_chain b bs) = bs"
  by (induction b bs rule: mn_chain.induct) auto

lemma gen_then_ok: "gen_then r f = (s, None) \<longleftrightarrow> (\<exists>s'. r = (s', None) \<and> f s' = (s, None))"
  by (cases r; cases "snd r") auto

lemma put_event_ok:
  "put_event (evs, room) p d = (s, None) \<Longrightarrow> s = (evs @ [init_ir_raw_event_duration p d], room - 1)"
  by (auto simp: put_event_def split: if_splits)

lemma put_level_ok:
  "put_level (evs @ [x], room) p d = ((evs', room'), None) \<Longrightarrow>
   evs' = evs @ (if p = pulse x then [x\<lparr>duration := duration x + d\<rparr>] else [x, init_ir_raw_event_duration p d])"
  by (auto simp: put_level_def lengthen_last_def split: if_splits dest: put_event_ok)

lemma init_lengthen [simp]:
  "(init_ir_raw_event_duration p d)\<lparr>duration := e\<rparr> = init_ir_raw_event_duration p e"
  by (simp add: init_ir_raw_event_duration_def)

lemma manchester_loop_Suc:
  assumes "i < 64"
  shows "manchester_loop t d (Suc i) s =
     gen_then (put_level s (mn_level t (bit d i)) (mn_clock t)) (\<lambda>s.
     gen_then (put_event s (\<not> mn_level t (bit d i)) (mn_clock t)) (\<lambda>s.
     manchester_loop t d i s))"
proof -
  have "(d AND push_bit i 1 = 0) = (\<not> bit d i)" using assms by (intro and_push_bit) simp
  then show ?thesis unfolding manchester_loop.simps Let_def mn_level_def by (simp only: not_not)
qed

lemma manchester_loop_ok:
  assumes "manchester_loop t d n (evs @ [mn_half t b], room) = ((evs', room'), None)" "n \<le> 64"
  shows "evs' = evs @ concat (map (mn_symbol t) (mn_chain b (msb_bits n d))) @
    [mn_half t (last (b # msb_bits n d))]"
  using assms
proof (induction n arbitrary: evs b room)
  case (Suc i)
  let ?c = "bit d i"
  from Suc.prems(1) obtain e1 r1 s2 where
    1: "put_level (evs @ [mn_half t b], room) (mn_level t ?c) (mn_clock t) = ((e1, r1), None)"
    and 2: "put_event (e1, r1) (\<not> mn_level t ?c) (mn_clock t) = (s2, None)"
    and 3: "manchester_loop t d i s2 = ((evs', room'), None)"
    using manchester_loop_Suc [of i t d] Suc.prems(2)
    by (auto simp: gen_then_ok simp del: manchester_loop.simps)
  have e1: "e1 = evs @ mn_symbol t (b, ?c)"
    using put_level_ok [OF 1] by (auto simp: mn_half_def mn_level_def split: if_splits)
  with put_event_ok [OF 2] have "s2 = ((evs @ mn_symbol t (b, ?c)) @ [mn_half t ?c], r1 - 1)"
    by (simp add: mn_half_def)
  from Suc.IH [OF 3 [unfolded this]] Suc.prems(2) show ?case by (simp add: last_map)
qed simp

text \<open>
  The first bit is joined to whatever event came before it, and the trailer to the last half bit.
\<close>

definition mn_join :: "ir_raw_timings_manchester \<Rightarrow> ir_raw_event \<Rightarrow> bool \<Rightarrow> ir_raw_event list" where
  "mn_join t x c = (if mn_level t c = pulse x then [x\<lparr>duration := duration x + mn_clock t\<rparr>]
     else [x, init_ir_raw_event_duration (mn_level t c) (mn_clock t)])"

definition mn_end :: "ir_raw_timings_manchester \<Rightarrow> bool \<Rightarrow> ir_raw_event list" where
  "mn_end t b =
     (if mn_trailer_space t = 0 then [mn_half t b]
      else if mn_level t b then [init_ir_raw_event_duration False (mn_clock t + mn_trailer_space t)]
      else [mn_half t b, init_ir_raw_event_duration False (mn_trailer_space t)])"

definition mn_leader :: "ir_raw_timings_manchester \<Rightarrow> ir_raw_event list" where
  "mn_leader t =
     (if mn_leader_pulse t \<noteq> 0 then init_ir_raw_event_duration True (mn_leader_pulse t) #
        (if mn_leader_space t \<noteq> 0 then [init_ir_raw_event_duration False (mn_leader_space t)] else []) else [])"

lemma manchester_leader_ok:
  "(if mn_leader_pulse t \<noteq> 0 then
      gen_then (put_event (evs, room) True (mn_leader_pulse t)) (\<lambda>s.
        if mn_leader_space t \<noteq> 0 then put_event s False (mn_leader_space t) else (s, None))
    else ((evs, room), None)) = ((evs', room'), None) \<Longrightarrow> evs' = evs @ mn_leader t"
  by (auto simp: gen_then_ok mn_leader_def split: if_splits dest!: put_event_ok)

lemma gen_manchester_ok:
  assumes gen: "ir_raw_gen_manchester (evs, room) t (Suc i) d = ((evs', room'), None)" "i < 64"
    and pre: "evs @ mn_leader t = pe @ [x]"
  shows "evs' = pe @ mn_join t x (bit d i) @ concat (map (mn_symbol t) (mn_chain (bit d i) (msb_bits i d))) @
    mn_end t (last (bit d i # msb_bits i d))"
proof -
  let ?c = "bit d i" and ?l = "last (bit d i # msb_bits i d)"
  from gen(1) obtain s0 s3 where 0: "(if mn_leader_pulse t \<noteq> 0 then
        gen_then (put_event (evs, room) True (mn_leader_pulse t)) (\<lambda>s.
          if mn_leader_space t \<noteq> 0 then put_event s False (mn_leader_space t) else (s, None))
      else ((evs, room), None)) = (s0, None)"
    and 1: "manchester_loop t d (Suc i) s0 = (s3, None)"
    and 2: "(if mn_trailer_space t \<noteq> 0 then put_level s3 False (mn_trailer_space t) else (s3, None)) =
      ((evs', room'), None)"
    unfolding ir_raw_gen_manchester_def gen_then_ok by (elim exE conjE)
  obtain e0 r0 e3 r3 where s: "s0 = (e0, r0)" "s3 = (e3, r3)" by (cases s0; cases s3)
  have e0: "e0 = pe @ [x]" using manchester_leader_ok [OF 0 [unfolded s]] pre by simp
  from 1 obtain e1 r1 s2 where
    a: "put_level (pe @ [x], r0) (mn_level t ?c) (mn_clock t) = ((e1, r1), None)"
    and b: "put_event (e1, r1) (\<not> mn_level t ?c) (mn_clock t) = (s2, None)"
    and c: "manchester_loop t d i s2 = ((e3, r3), None)"
    using manchester_loop_Suc [OF gen(2), of t d] by (auto simp: gen_then_ok e0 s simp del: manchester_loop.simps)
  have "e1 = pe @ mn_join t x ?c" using put_level_ok [OF a] by (simp add: mn_join_def)
  with put_event_ok [OF b] have "s2 = ((pe @ mn_join t x ?c) @ [mn_half t ?c], r1 - 1)" by (simp add: mn_half_def)
  from manchester_loop_ok [OF c [unfolded this]] gen(2)
  have e3: "e3 = (pe @ mn_join t x ?c @ concat (map (mn_symbol t) (mn_chain ?c (msb_bits i d)))) @ [mn_half t ?l]"
    by simp
  show ?thesis
  proof (cases "mn_trailer_space t = 0")
    case True
    with 2 e3 s show ?thesis by (simp add: mn_end_def)
  next
    case False
    with 2 s e3 have "put_level ((pe @ mn_join t x ?c @ concat (map (mn_symbol t) (mn_chain ?c (msb_bits i d)))) @
        [mn_half t ?l], r3) False (mn_trailer_space t) = ((evs', room'), None)" by simp
    from put_level_ok [OF this] False show ?thesis
      by (simp add: mn_end_def mn_half_def)
  qed
qed

section \<open>Shifting bits into a register\<close>

definition shift_in :: "'a::len word \<Rightarrow> bool list \<Rightarrow> 'a word" where
  "shift_in a bs = foldl (\<lambda>a b. push_bit 1 a OR of_bool b) a bs"

lemma shift_in_simps [simp]:
  "shift_in a [] = a" "shift_in a (b # bs) = shift_in (push_bit 1 a OR of_bool b) bs"
  by (simp_all add: shift_in_def)

lemma shift_in_append: "shift_in a (bs @ cs) = shift_in (shift_in a bs) cs"
  by (simp add: shift_in_def)

lemma foldl_push_snd:
  "foldl (\<lambda>a bb. push_bit 1 a OR of_bool (snd bb)) acc (mn_chain b bs) = shift_in acc bs"
  by (induction b bs arbitrary: acc rule: mn_chain.induct) (auto simp: shift_in_def)

lemma bit_shift_in:
  "i < LENGTH('a) \<Longrightarrow> bit (shift_in (a :: 'a::len word) bs) i =
     (if i < length bs then bs ! (length bs - 1 - i) else bit a (i - length bs))"
proof (induction bs arbitrary: i rule: rev_induct)
  case (snoc b bs)
  show ?case
  proof (cases i)
    case 0
    have "odd (push_bit 1 (shift_in a bs) OR of_bool b) = b" by (cases b) (simp_all add: even_or_iff)
    with 0 show ?thesis by (simp add: shift_in_append bit_0 nth_append)
  next
    case (Suc j)
    have "bit (push_bit 1 (shift_in a bs) OR of_bool b) (Suc j) = bit (shift_in a bs) j"
      using snoc.prems Suc unfolding bit_or_iff bit_push_bit_iff by (simp add: bit_of_bool_iff)
    then have "bit (shift_in a (bs @ [b])) i = bit (shift_in a bs) j"
      using Suc by (simp only: shift_in_append shift_in_simps)
    then show ?thesis using snoc Suc by (auto simp: nth_append)
  qed
qed simp

lemma nth_msb_bits: "i < n \<Longrightarrow> msb_bits n d ! i = bit d (n - 1 - i)"
  by (simp add: msb_bits_def rev_nth)

lemma nth_lsb_bits: "i < n \<Longrightarrow> lsb_bits n d ! i = bit d i"
  by (simp add: lsb_bits_def)

lemma bit_shift_in_msb:
  "i < LENGTH('a) \<Longrightarrow> bit (shift_in (a :: 'a::len word) (msb_bits n d)) i =
     (if i < n then bit d i else bit a (i - n))"
  by (simp add: bit_shift_in nth_msb_bits)

lemma bit_shift_in_lsb:
  "i < LENGTH('a) \<Longrightarrow> bit (shift_in (a :: 'a::len word) (lsb_bits n d)) i =
     (if i < n then bit d (n - 1 - i) else bit a (i - n))"
  by (simp add: bit_shift_in nth_lsb_bits)

text \<open>
  \<^verbatim>\<open>bitrev8\<close> and \<^verbatim>\<open>bitrev16\<close> are kernel library functions: parameters of the handlers that use
  them, with their documented meaning as hypotheses.
\<close>

definition bitrev_spec :: "('a::len word \<Rightarrow> 'a word) \<Rightarrow> bool" where
  "bitrev_spec r \<longleftrightarrow> (\<forall>x i. i < LENGTH('a) \<longrightarrow> bit (r x) i = bit x (LENGTH('a) - 1 - i))"

lemma bitrev_spec_eq: "bitrev_spec r \<Longrightarrow> r = word_reverse"
  by (rule ext, rule bit_word_eqI) (simp add: bitrev_spec_def bit_word_reverse_iff)

lemma bitrev_spec_word_reverse: "bitrev_spec word_reverse"
  by (simp add: bitrev_spec_def bit_word_reverse_iff)

text \<open>Bytes of a register, and the byte the bit reversal of one gives.\<close>

lemma mask_ff: "(0xff :: 'a::len word) = mask 8"
  by (simp add: mask_numeral)

lemma bit_mask_ff: "bit (0xff :: 'a::len word) i \<longleftrightarrow> i < LENGTH('a) \<and> i < 8"
  by (simp add: mask_ff bit_mask_iff)

lemma mask_word_bits:
  "bit (0xffff :: u32) i \<longleftrightarrow> i < 16" "bit (0xffffff :: u32) i \<longleftrightarrow> i < 24" "bit (0x1fff :: u32) i \<longleftrightarrow> i < 13"
  "bit (0x1fffff :: u32) i \<longleftrightarrow> i < 21" "bit (0xfffff :: u32) i \<longleftrightarrow> i < 20" "bit (0x7fffffff :: u32) i \<longleftrightarrow> i < 31"
  "bit (0xfff :: u32) i \<longleftrightarrow> i < 12"
proof -
  have m: "(0xffff :: u32) = mask 16" "(0xffffff :: u32) = mask 24" "(0x1fff :: u32) = mask 13"
    "(0x1fffff :: u32) = mask 21" "(0xfffff :: u32) = mask 20" "(0x7fffffff :: u32) = mask 31"
    "(0xfff :: u32) = mask 12"
    by (simp_all add: mask_numeral)
  show "bit (0xffff :: u32) i \<longleftrightarrow> i < 16" "bit (0xffffff :: u32) i \<longleftrightarrow> i < 24" "bit (0x1fff :: u32) i \<longleftrightarrow> i < 13"
    "bit (0x1fffff :: u32) i \<longleftrightarrow> i < 21" "bit (0xfffff :: u32) i \<longleftrightarrow> i < 20" "bit (0x7fffffff :: u32) i \<longleftrightarrow> i < 31"
    "bit (0xfff :: u32) i \<longleftrightarrow> i < 12"
    unfolding m by (auto simp: bit_mask_iff)
qed

lemma bit_reversed_byte:
  "i < 8 \<Longrightarrow> bit (word_reverse (ucast (drop_bit n (w :: 'a::len word) AND 0xff) :: u8)) i \<longleftrightarrow> bit w (n + 7 - i)"
  if "8 \<le> LENGTH('a)"
  using that unfolding mask_ff
  by (auto simp: bit_word_reverse_iff bit_ucast_iff bit_and_iff bit_drop_bit_eq bit_mask_iff)

section \<open>Decoders\<close>

text \<open>
  A decoder is a state machine driven by one raw event at a time. What it does to the device is
  recorded as a list of calls, in order; the device is not read back by a decoder, so the calls
  can be carried out after the step. The result is the return value of the handler.
\<close>

datatype rc_action = Rc_keydown rc_proto u32 u8 | Rc_repeat
  | Report_key string bool | Report_rel_x int | Report_rel_y int | Report_scan u32
  | Input_sync | Lirc_scancode rc_proto u32 | Mod_timer_rx u64 | Del_timer_rx

type_synonym 'd decoded = "'d \<times> rc_action list \<times> unit result"
type_synonym 'd decoder = "'d \<Rightarrow> ir_raw_event \<Rightarrow> 'd decoded"

fun decode_run :: "'d decoder \<Rightarrow> 'd \<Rightarrow> ir_raw_event list \<Rightarrow> 'd \<times> rc_action list" where
  "decode_run dec d [] = (d, [])"
| "decode_run dec d (e # es) =
     (case dec d e of (d', as, _) \<Rightarrow>
        case decode_run dec d' es of (d'', as') \<Rightarrow> (d'', as @ as'))"

lemma decode_run_append:
  "decode_run dec d (es @ fs) =
     (case decode_run dec d es of (d', as) \<Rightarrow>
        case decode_run dec d' fs of (d'', as') \<Rightarrow> (d'', as @ as'))"
  by (induction es arbitrary: d) (auto split: prod.splits)

lemma decode_run_trans:
  "decode_run dec d xs = (d1, as) \<Longrightarrow> decode_run dec d1 ys = (d2, bs) \<Longrightarrow>
   decode_run dec d (xs @ ys) = (d2, as @ bs)"
  by (simp add: decode_run_append)

text \<open>Events as a receiver sees them: the level is right and the duration within a tolerance.\<close>

definition near :: "u32 \<Rightarrow> ir_raw_event \<Rightarrow> ir_raw_event \<Rightarrow> bool" where
  "near tol e e' \<longleftrightarrow> pulse e' = pulse e \<and> is_timing_event e' \<and>
     eq_margin (duration e') (duration e) tol"

definition jittered :: "u32 \<Rightarrow> ir_raw_event list \<Rightarrow> ir_raw_event list \<Rightarrow> bool" where
  "jittered tol = list_all2 (near tol)"

lemma jittered_Cons: "jittered tol (e # es) xs \<longleftrightarrow> (\<exists>x xs'. xs = x # xs' \<and> near tol e x \<and> jittered tol es xs')"
  by (auto simp: jittered_def list_all2_Cons1)

lemma jittered_Nil [simp]: "jittered tol [] xs \<longleftrightarrow> xs = []"
  by (simp add: jittered_def)

lemma jittered_append:
  "jittered tol (es @ fs) xs \<longleftrightarrow> (\<exists>ys zs. xs = ys @ zs \<and> jittered tol es ys \<and> jittered tol fs zs)"
  unfolding jittered_def list_all2_append1 by (metis list_all2_lengthD)

lemma jittered_appendE:
  assumes "jittered tol (es @ fs) xs"
  obtains ys zs where "xs = ys @ zs" "jittered tol es ys" "jittered tol fs zs"
  using assms unfolding jittered_append by blast

lemma near_init [simp]:
  "near tol (init_ir_raw_event_duration p d) e \<longleftrightarrow>
     pulse e = p \<and> is_timing_event e \<and> eq_margin (duration e) d tol"
  by (simp add: near_def init_ir_raw_event_duration_def)

lemmas margin_nat = eq_margin_def geq_margin_def word_less_nat_alt

text \<open>
  A receiver of a block of symbols: once \<open>k\<close> symbols have been read into an accumulator, the
  events of the next symbol lead, silently, to \<open>Suc k\<close> symbols read.
\<close>

locale ir_receiver =
  fixes decode :: "'d decoder"
    and tol :: u32
    and symbol :: "'b \<Rightarrow> ir_raw_event list"
    and push :: "'acc \<Rightarrow> 'b \<Rightarrow> 'acc"
    and limit :: nat
    and got :: "nat \<Rightarrow> 'acc \<Rightarrow> 'd \<Rightarrow> bool"
  assumes got_symbol: "got k acc d \<Longrightarrow> k < limit \<Longrightarrow> jittered tol (symbol b) es \<Longrightarrow>
      \<exists>d'. decode_run decode d es = (d', []) \<and> got (Suc k) (push acc b) d'"
begin

lemma got_symbols:
  "got k acc d \<Longrightarrow> k + length bs \<le> limit \<Longrightarrow> jittered tol (concat (map symbol bs)) es \<Longrightarrow>
   \<exists>d'. decode_run decode d es = (d', []) \<and> got (k + length bs) (foldl push acc bs) d'"
proof (induction bs arbitrary: k acc d es)
  case (Cons b bs)
  from Cons.prems(3) obtain ys zs where es: "es = ys @ zs"
    and ys: "jittered tol (symbol b) ys" and zs: "jittered tol (concat (map symbol bs)) zs"
    by (auto simp: jittered_append)
  from got_symbol [OF Cons.prems(1) _ ys] Cons.prems(2) obtain d1
    where d1: "decode_run decode d ys = (d1, [])" "got (Suc k) (push acc b) d1" by auto
  from Cons.IH [OF d1(2) _ zs] Cons.prems(2) obtain d2
    where "decode_run decode d1 zs = (d2, [])" "got (Suc k + length bs) (foldl push (push acc b) bs) d2"
    by auto
  with d1 es show ?case by (simp add: decode_run_append)
qed simp

end

lemma decrease_duration_sel [simp]:
  "pulse (decrease_duration ev u) = pulse ev" "is_timing_event (decrease_duration ev u) = is_timing_event ev"
  "unat (duration (decrease_duration ev u)) = unat (duration ev) - unat u"
  by (auto simp: decrease_duration_def is_timing_event_def unat_sub not_less word_less_nat_alt word_le_nat_alt)

text \<open>What the raw event thread relies on of every decoder.\<close>

locale ir_decoder =
  fixes decode :: "'d decoder"
    and ready :: "'d \<Rightarrow> bool"
    and dinv :: "'d \<Rightarrow> bool"
  assumes inv_step: "dinv d \<Longrightarrow> decode d ev = (d', as, r) \<Longrightarrow> dinv d'"
    and reset: "ev_reset ev \<Longrightarrow> \<exists>d'. decode d ev = (d', [], Inr ()) \<and> ready d'"
begin

lemma run_inv: "dinv d \<Longrightarrow> decode_run decode d es = (d', as) \<Longrightarrow> dinv d'"
proof (induction es arbitrary: d as)
  case (Cons e es)
  obtain d1 as1 r where step: "decode d e = (d1, as1, r)" by (cases "decode d e")
  obtain as2 where "decode_run decode d1 es = (d', as2)"
    using Cons.prems(2) step by (auto split: prod.splits)
  with Cons.IH inv_step [OF Cons.prems(1) step] show ?case by blast
qed simp

lemma run_reset: "ev_reset ev \<Longrightarrow> \<exists>d' as. decode_run decode d (es @ [ev]) = (d', as) \<and> ready d'"
proof -
  assume r: "ev_reset ev"
  obtain d1 as1 where run: "decode_run decode d es = (d1, as1)" by (cases "decode_run decode d es")
  obtain d2 where "decode d1 ev = (d2, [], Inr ())" "ready d2" using reset [OF r] by blast
  with run show ?thesis by (simp add: decode_run_append)
qed

end

text \<open>A decoder that falls back to its ready state, silently, when an event is rejected.\<close>

locale ir_strict_decoder = ir_decoder +
  assumes reject: "dinv d \<Longrightarrow> decode d ev = (d', as, Inl e) \<Longrightarrow> e = EINVAL \<and> as = [] \<and> ready d'"

text \<open>
  A channel: whenever a train of events that carries a message arrives at a ready decoder, the
  decoder makes the calls the message asks for and is ready again. A sequence of messages then gives the
  calls of all of them, in order.
\<close>

locale ir_channel =
  fixes decode :: "'d decoder"
    and ready :: "'d \<Rightarrow> bool"
    and train :: "'m \<Rightarrow> ir_raw_event list \<Rightarrow> bool"
    and calls :: "'m \<Rightarrow> rc_action list"
  assumes train_run: "ready d \<Longrightarrow> train m es \<Longrightarrow> \<exists>d'. decode_run decode d es = (d', calls m) \<and> ready d'"
begin

lemma stream_run:
  "list_all2 train ms ess \<Longrightarrow> ready d \<Longrightarrow>
   \<exists>d'. decode_run decode d (concat ess) = (d', concat (map calls ms)) \<and> ready d'"
proof (induction arbitrary: d rule: list_all2_induct)
  case (Cons m ms es ess)
  from train_run [OF Cons.prems Cons.hyps(1)] obtain d1
    where 1: "decode_run decode d es = (d1, calls m)" "ready d1" by blast
  from Cons.IH [OF 1(2)] decode_run_trans [OF 1(1)] show ?case by fastforce
qed simp

end

text \<open>
  Messages (protocol and scancode) sent one after the other and received within a tolerance, and
  the calls that press exactly these keys.
\<close>

definition transmitted ::
  "(rc_proto \<Rightarrow> u32 \<Rightarrow> nat \<Rightarrow> ir_raw_event list \<times> nat result) \<Rightarrow> u32 \<Rightarrow> (rc_proto \<times> u32) list \<Rightarrow>
   ir_raw_event list \<Rightarrow> bool" where
  "transmitted encode tol msgs evs \<longleftrightarrow>
     (\<exists>ess. evs = concat ess \<and>
        list_all2 (\<lambda>m es'. \<exists>room es n. encode (fst m) (snd m) room = (es, Inr n) \<and> jittered tol es es')
          msgs ess)"

fun key_presses :: "(rc_proto \<times> u32) list \<Rightarrow> rc_action list \<Rightarrow> bool" where
  "key_presses [] [] = True"
| "key_presses ((p, sc) # msgs) (Rc_keydown q s t # as) = (p = q \<and> sc = s \<and> key_presses msgs as)"
| "key_presses _ _ = False"

lemma transmitted_Nil [simp]: "transmitted encode tol [] evs \<longleftrightarrow> evs = []"
  by (simp add: transmitted_def)

lemma transmitted_Cons:
  "transmitted encode tol (m # msgs) evs \<longleftrightarrow>
     (\<exists>room es n es' evs'. evs = es' @ evs' \<and> encode (fst m) (snd m) room = (es, Inr n) \<and>
        jittered tol es es' \<and> transmitted encode tol msgs evs')"
proof
  assume "transmitted encode tol (m # msgs) evs"
  then obtain ess where "evs = concat ess"
    "list_all2 (\<lambda>m es'. \<exists>room es n. encode (fst m) (snd m) room = (es, Inr n) \<and> jittered tol es es') (m # msgs) ess"
    unfolding transmitted_def by blast
  then show "\<exists>room es n es' evs'. evs = es' @ evs' \<and> encode (fst m) (snd m) room = (es, Inr n) \<and>
      jittered tol es es' \<and> transmitted encode tol msgs evs'"
    unfolding list_all2_Cons1 transmitted_def by (elim exE conjE) (simp, blast)
next
  assume "\<exists>room es n es' evs'. evs = es' @ evs' \<and> encode (fst m) (snd m) room = (es, Inr n) \<and>
      jittered tol es es' \<and> transmitted encode tol msgs evs'"
  then obtain room es n es' ess where *: "evs = es' @ concat ess"
    "encode (fst m) (snd m) room = (es, Inr n)" "jittered tol es es'"
    "list_all2 (\<lambda>m es'. \<exists>room es n. encode (fst m) (snd m) room = (es, Inr n) \<and> jittered tol es es') msgs ess"
    unfolding transmitted_def by blast
  then show "transmitted encode tol (m # msgs) evs"
    unfolding transmitted_def by (intro exI [of _ "es' # ess"]) auto
qed

lemma transmittedI:
  "encode p sc room = (es, Inr n) \<Longrightarrow> jittered tol es es \<Longrightarrow> transmitted encode tol msgs evs \<Longrightarrow>
   transmitted encode tol ((p, sc) # msgs) (es @ evs)"
  unfolding transmitted_Cons by fastforce

lemma jittered_refl: "(\<forall>e \<in> set es. near tol e e) \<Longrightarrow> jittered tol es es"
  by (induction es) (auto simp: jittered_def)

text \<open>A check, by evaluation, that a message is encoded and received as sent.\<close>

definition sends :: "ir_raw_event list \<times> nat result \<Rightarrow> u32 \<Rightarrow> bool" where
  "sends r tol \<longleftrightarrow> (case r of (es, Inr n) \<Rightarrow> list_all (\<lambda>e. near tol e e) es | (es, Inl _) \<Rightarrow> False)"

lemma sendsE:
  assumes "sends (encode p sc room) tol"
  obtains es n where "encode p sc room = (es, Inr n)" "jittered tol es es"
  using assms jittered_refl
  by (cases "encode p sc room"; cases "snd (encode p sc room)") (auto simp: sends_def list_all_iff)

lemma near_self: "eq_margin d d tol \<Longrightarrow> near tol (init_ir_raw_event_duration p d) (init_ir_raw_event_duration p d)"
  by simp

lemma pd_encode_ok:
  assumes room: "2 * n + 4 \<le> room"
    and m: "\<forall>x \<in> {pd_header_pulse t, pd_header_space t, pd_bit_pulse t, pd_bit_space t False,
      pd_bit_space t True, pd_trailer_pulse t, pd_trailer_space t}. eq_margin x x tol"
  shows "\<exists>k es. encode_result (ir_raw_gen_pd ([], room) t n d) = (es, Inr k) \<and> jittered tol es es"
proof -
  have bits: "\<forall>e \<in> set (pd_events t bs). near tol e e" for bs
  proof
    fix e assume "e \<in> set (pd_events t bs)"
    then obtain b where "e \<in> set (pd_symbol t b)" by auto
    with m show "near tol e e" by (cases b) (auto simp: pd_symbol_def)
  qed
  have "jittered tol (emit_events @ pd_events t bs @ tl) (emit_events @ pd_events t bs @ tl)"
    if "\<forall>e \<in> set emit_events. near tol e e" "\<forall>e \<in> set tl. near tol e e" for emit_events bs tl
    using that bits by (intro jittered_refl) auto
  moreover have "\<forall>e \<in> set (if pd_header_pulse t \<noteq> 0 then [init_ir_raw_event_duration True (pd_header_pulse t),
      init_ir_raw_event_duration False (pd_header_space t)] else []). near tol e e"
    "\<forall>e \<in> set [init_ir_raw_event_duration True (pd_trailer_pulse t),
      init_ir_raw_event_duration False (pd_trailer_space t)]. near tol e e"
    using m by auto
  ultimately show ?thesis
    unfolding gen_pd_emit encode_result_emit using room by (simp del: append.simps)
qed

lemma pl_encode_ok:
  assumes room: "2 * n + 2 \<le> room"
    and m: "\<forall>x \<in> {pl_header_pulse t, pl_bit_space t, pl_bit_pulse t False, pl_bit_pulse t True,
      pl_trailer_space t}. eq_margin x x tol"
  shows "\<exists>k es. encode_result (ir_raw_gen_pl ([], room) t n d) = (es, Inr k) \<and> jittered tol es es"
proof -
  have bits: "\<forall>e \<in> set (pl_events t bs). near tol e e" for bs
  proof
    fix e assume "e \<in> set (pl_events t bs)"
    then obtain b where "e \<in> set (pl_symbol t b)" by auto
    with m show "near tol e e" by (cases b) (auto simp: pl_symbol_def)
  qed
  let ?es = "[init_ir_raw_event_duration True (pl_header_pulse t)] @
      pl_events t (if pl_msb_first t then msb_bits n d else lsb_bits n d) @
      [init_ir_raw_event_duration False (pl_trailer_space t)]"
  have "jittered tol ?es ?es"
    using bits m by (intro jittered_refl) auto
  moreover have "length ?es \<le> room" using room by simp
  ultimately show ?thesis unfolding gen_pl_emit encode_result_emit by simp
qed

text \<open>A decoder with the encoder of the same protocols.\<close>

locale ir_codec = ir_decoder +
  fixes encode :: "rc_proto \<Rightarrow> u32 \<Rightarrow> nat \<Rightarrow> ir_raw_event list \<times> nat result"
    and valid :: "rc_proto \<Rightarrow> u32 \<Rightarrow> bool"
    and tol :: u32
  assumes roundtrip: "dinv d \<Longrightarrow> ready d \<Longrightarrow> valid p sc \<Longrightarrow> encode p sc room = (es, Inr n) \<Longrightarrow>
      jittered tol es es' \<Longrightarrow>
      \<exists>d' t. decode_run decode d es' = (d', [Rc_keydown p sc t]) \<and> ready d'"
begin

lemma stream_roundtrip:
  assumes "dinv d" "ready d" "\<forall>(p, sc) \<in> set msgs. valid p sc" "transmitted encode tol msgs evs"
  shows "\<exists>d' as. decode_run decode d evs = (d', as) \<and> key_presses msgs as \<and> ready d'"
  using assms
proof (induction msgs arbitrary: d evs)
  case (Cons m msgs)
  obtain p sc where m: "m = (p, sc)" by (cases m)
  from Cons.prems(4) obtain room es n es' evs' where evs: "evs = es' @ evs'"
    and es: "encode p sc room = (es, Inr n)" "jittered tol es es'"
    and rest: "transmitted encode tol msgs evs'"
    unfolding transmitted_Cons by (auto simp: m)
  from roundtrip [OF Cons.prems(1,2) _ es] obtain d1 t
    where d1: "decode_run decode d es' = (d1, [Rc_keydown p sc t])" "ready d1"
    using Cons.prems(3) m by auto
  from Cons.IH [OF run_inv [OF Cons.prems(1) d1(1)] d1(2) _ rest] obtain d2 as
    where "decode_run decode d1 evs' = (d2, as)" "key_presses msgs as" "ready d2"
    using Cons.prems(3) by auto
  with decode_run_trans [OF d1(1)] show ?case by (fastforce simp: evs m)
qed simp

end

end
