(* ===== verification/Rc_Proto.thy ===== *)
theory Rc_Proto
  imports Ir_Raw
begin

text \<open>
  The table \<^verbatim>\<open>protocols[]\<close> of \<^verbatim>\<open>rc/rc-main.c\<close> (repeat period and scancode bits of each
  protocol) and the validation of scancodes built on it.
\<close>

fun protocols_repeat_period :: "rc_proto \<Rightarrow> nat" where
  "protocols_repeat_period RC_PROTO_UNKNOWN = 125"
| "protocols_repeat_period RC_PROTO_OTHER = 125"
| "protocols_repeat_period RC_PROTO_RC5 = 114"
| "protocols_repeat_period RC_PROTO_RC5X_20 = 114"
| "protocols_repeat_period RC_PROTO_RC5_SZ = 114"
| "protocols_repeat_period RC_PROTO_JVC = 125"
| "protocols_repeat_period RC_PROTO_SONY12 = 100"
| "protocols_repeat_period RC_PROTO_SONY15 = 100"
| "protocols_repeat_period RC_PROTO_SONY20 = 100"
| "protocols_repeat_period RC_PROTO_NEC = 110"
| "protocols_repeat_period RC_PROTO_NECX = 110"
| "protocols_repeat_period RC_PROTO_NEC32 = 110"
| "protocols_repeat_period RC_PROTO_SANYO = 125"
| "protocols_repeat_period RC_PROTO_MCIR2_KBD = 100"
| "protocols_repeat_period RC_PROTO_MCIR2_MSE = 100"
| "protocols_repeat_period RC_PROTO_RC6_0 = 114"
| "protocols_repeat_period RC_PROTO_RC6_6A_20 = 114"
| "protocols_repeat_period RC_PROTO_RC6_6A_24 = 114"
| "protocols_repeat_period RC_PROTO_RC6_6A_32 = 114"
| "protocols_repeat_period RC_PROTO_RC6_MCE = 114"
| "protocols_repeat_period RC_PROTO_SHARP = 125"
| "protocols_repeat_period RC_PROTO_XMP = 125"
| "protocols_repeat_period RC_PROTO_CEC = 0"
| "protocols_repeat_period RC_PROTO_IMON = 114"
| "protocols_repeat_period RC_PROTO_RCMM12 = 114"
| "protocols_repeat_period RC_PROTO_RCMM24 = 114"
| "protocols_repeat_period RC_PROTO_RCMM32 = 114"
| "protocols_repeat_period RC_PROTO_XBOX_DVD = 64"

fun protocols_scancode_bits :: "rc_proto \<Rightarrow> u32" where
  "protocols_scancode_bits RC_PROTO_RC5 = 0x1f7f"
| "protocols_scancode_bits RC_PROTO_RC5X_20 = 0x1f7f3f"
| "protocols_scancode_bits RC_PROTO_RC5_SZ = 0x2fff"
| "protocols_scancode_bits RC_PROTO_JVC = 0xffff"
| "protocols_scancode_bits RC_PROTO_SONY12 = 0x1f007f"
| "protocols_scancode_bits RC_PROTO_SONY15 = 0xff007f"
| "protocols_scancode_bits RC_PROTO_SONY20 = 0x1fff7f"
| "protocols_scancode_bits RC_PROTO_NEC = 0xffff"
| "protocols_scancode_bits RC_PROTO_NECX = 0xffffff"
| "protocols_scancode_bits RC_PROTO_NEC32 = 0xffffffff"
| "protocols_scancode_bits RC_PROTO_SANYO = 0x1fffff"
| "protocols_scancode_bits RC_PROTO_MCIR2_KBD = 0xffffff"
| "protocols_scancode_bits RC_PROTO_MCIR2_MSE = 0x1fffff"
| "protocols_scancode_bits RC_PROTO_RC6_0 = 0xffff"
| "protocols_scancode_bits RC_PROTO_RC6_6A_20 = 0xfffff"
| "protocols_scancode_bits RC_PROTO_RC6_6A_24 = 0xffffff"
| "protocols_scancode_bits RC_PROTO_RC6_6A_32 = 0xffffffff"
| "protocols_scancode_bits RC_PROTO_RC6_MCE = 0xffff7fff"
| "protocols_scancode_bits RC_PROTO_SHARP = 0x1fff"
| "protocols_scancode_bits RC_PROTO_IMON = 0x7fffffff"
| "protocols_scancode_bits RC_PROTO_RCMM12 = 0x00000fff"
| "protocols_scancode_bits RC_PROTO_RCMM24 = 0x00ffffff"
| "protocols_scancode_bits RC_PROTO_RCMM32 = 0xffffffff"
| "protocols_scancode_bits p = 0"

definition rc_validate_scancode :: "rc_proto \<Rightarrow> u32 \<Rightarrow> bool" where
  "rc_validate_scancode proto scancode =
     (case proto of
        RC_PROTO_NECX \<Rightarrow> (drop_bit 16 scancode XOR NOT (drop_bit 8 scancode)) AND 0xff \<noteq> 0
      | RC_PROTO_NEC32 \<Rightarrow> (drop_bit 8 scancode XOR NOT scancode) AND 0xff \<noteq> 0
      | RC_PROTO_RC6_MCE \<Rightarrow> scancode AND 0xffff0000 = 0x800f0000
      | RC_PROTO_RC6_6A_32 \<Rightarrow> scancode AND 0xffff0000 \<noteq> 0x800f0000
      | _ \<Rightarrow> True)"

text \<open>A scancode that has no bit outside those of its protocol, and is valid for it.\<close>

definition canonical_scancode :: "rc_proto \<Rightarrow> u32 \<Rightarrow> bool" where
  "canonical_scancode proto scancode \<longleftrightarrow>
     scancode AND NOT (protocols_scancode_bits proto) = 0 \<and> rc_validate_scancode proto scancode"

text \<open>A bit of the scancode outside those of the protocol is clear.\<close>

lemma canonical_bit:
  "canonical_scancode p sc \<Longrightarrow> bit sc i \<Longrightarrow> bit (protocols_scancode_bits p) i"
proof -
  assume "canonical_scancode p sc" "bit sc i"
  moreover from \<open>bit sc i\<close> have "i < 32" by (auto dest: bit_imp_le_length)
  ultimately have "bit (sc AND NOT (protocols_scancode_bits p)) i = (\<not> bit (protocols_scancode_bits p) i)"
    by (simp add: bit_simps)
  with \<open>canonical_scancode p sc\<close> show ?thesis by (simp add: canonical_scancode_def)
qed

end
