(* ===== verification/Ir_Nec.thy ===== *)
theory Ir_Nec
  imports Rc_Proto
begin

text \<open>
  The NEC handler, \<^verbatim>\<open>rc/ir-nec-decoder.c\<close>: decoder, scancode conversion and encoder for the
  protocols NEC, extended NEC and 32 bit NEC.
\<close>

section \<open>Constants and state\<close>

definition NEC_UNIT :: u32 where [ir_const]: "NEC_UNIT = 562500"
definition NEC_NBITS :: nat where [ir_const]: "NEC_NBITS = 32"
definition NEC_HEADER_PULSE :: u32 where [ir_const]: "NEC_HEADER_PULSE = 16 * NEC_UNIT"
definition NECX_HEADER_PULSE :: u32 where [ir_const]: "NECX_HEADER_PULSE = 8 * NEC_UNIT"
definition NEC_HEADER_SPACE :: u32 where [ir_const]: "NEC_HEADER_SPACE = 8 * NEC_UNIT"
definition NEC_REPEAT_SPACE :: u32 where [ir_const]: "NEC_REPEAT_SPACE = 4 * NEC_UNIT"
definition NEC_BIT_PULSE :: u32 where [ir_const]: "NEC_BIT_PULSE = 1 * NEC_UNIT"
definition NEC_BIT_0_SPACE :: u32 where [ir_const]: "NEC_BIT_0_SPACE = 1 * NEC_UNIT"
definition NEC_BIT_1_SPACE :: u32 where [ir_const]: "NEC_BIT_1_SPACE = 3 * NEC_UNIT"
definition NEC_TRAILER_PULSE :: u32 where [ir_const]: "NEC_TRAILER_PULSE = 1 * NEC_UNIT"
definition NEC_TRAILER_SPACE :: u32 where [ir_const]: "NEC_TRAILER_SPACE = 10 * NEC_UNIT"
definition NECX_REPEAT_BITS :: u32 where [ir_const]: "NECX_REPEAT_BITS = 1"

datatype nec_state = NEC_STATE_INACTIVE | NEC_STATE_HEADER_SPACE | NEC_STATE_BIT_PULSE
  | NEC_STATE_BIT_SPACE | NEC_STATE_TRAILER_PULSE | NEC_STATE_TRAILER_SPACE

record nec_dec =
  nec_st :: nec_state
  nec_count :: u32
  nec_bits :: u32
  is_nec_x :: bool
  necx_repeat :: bool

section \<open>Operations\<close>

definition ir_nec_bytes_to_scancode :: "u8 \<Rightarrow> u8 \<Rightarrow> u8 \<Rightarrow> u8 \<Rightarrow> u32 \<times> rc_proto" where
  "ir_nec_bytes_to_scancode address not_address command not_command =
     (if command XOR not_command \<noteq> 0xff then
        (push_bit 24 (ucast not_address) OR push_bit 16 (ucast address) OR
         push_bit 8 (ucast not_command) OR ucast command, RC_PROTO_NEC32)
      else if address XOR not_address \<noteq> 0xff then
        (push_bit 16 (ucast address) OR push_bit 8 (ucast not_address) OR ucast command, RC_PROTO_NECX)
      else (push_bit 8 (ucast address) OR ucast command, RC_PROTO_NEC))"

definition nec_fail :: "nec_dec \<Rightarrow> nec_dec decoded" where
  "nec_fail d = (d\<lparr>nec_st := NEC_STATE_INACTIVE\<rparr>, [], Inl EINVAL)"

definition ir_nec_decode :: "(u8 \<Rightarrow> u8) \<Rightarrow> nec_dec decoder" where
  "ir_nec_decode bitrev8 d ev =
     (if \<not> is_timing_event ev then
        ((if ev_reset ev then d\<lparr>nec_st := NEC_STATE_INACTIVE\<rparr> else d), [], Inr ())
      else
        case nec_st d of
          NEC_STATE_INACTIVE \<Rightarrow>
            if \<not> pulse ev then nec_fail d
            else if eq_margin (duration ev) NEC_HEADER_PULSE (NEC_UNIT * 2) then
              (d\<lparr>is_nec_x := False, necx_repeat := False, nec_count := 0,
                 nec_st := NEC_STATE_HEADER_SPACE\<rparr>, [], Inr ())
            else if eq_margin (duration ev) NECX_HEADER_PULSE (NEC_UNIT div 2) then
              (d\<lparr>is_nec_x := True, nec_count := 0, nec_st := NEC_STATE_HEADER_SPACE\<rparr>, [], Inr ())
            else nec_fail d
        | NEC_STATE_HEADER_SPACE \<Rightarrow>
            if pulse ev then nec_fail d
            else if eq_margin (duration ev) NEC_HEADER_SPACE NEC_UNIT then
              (d\<lparr>nec_st := NEC_STATE_BIT_PULSE\<rparr>, [], Inr ())
            else if eq_margin (duration ev) NEC_REPEAT_SPACE (NEC_UNIT div 2) then
              (d\<lparr>nec_st := NEC_STATE_TRAILER_PULSE\<rparr>, [], Inr ())
            else nec_fail d
        | NEC_STATE_BIT_PULSE \<Rightarrow>
            if \<not> pulse ev then nec_fail d
            else if \<not> eq_margin (duration ev) NEC_BIT_PULSE (NEC_UNIT div 2) then nec_fail d
            else (d\<lparr>nec_st := NEC_STATE_BIT_SPACE\<rparr>, [], Inr ())
        | NEC_STATE_BIT_SPACE \<Rightarrow>
            if pulse ev then nec_fail d
            else if necx_repeat d \<and> nec_count d = NECX_REPEAT_BITS \<and>
                    geq_margin (duration ev) NEC_TRAILER_SPACE (NEC_UNIT div 2) then
              (d\<lparr>nec_st := NEC_STATE_INACTIVE\<rparr>, [Rc_repeat], Inr ())
            else
              let d = (if nec_count d > NECX_REPEAT_BITS then d\<lparr>necx_repeat := False\<rparr> else d);
                  d = d\<lparr>nec_bits := push_bit 1 (nec_bits d)\<rparr>;
                  one = eq_margin (duration ev) NEC_BIT_1_SPACE (NEC_UNIT div 2);
                  d = (if one then d\<lparr>nec_bits := nec_bits d OR 1\<rparr> else d) in
              if \<not> one \<and> \<not> eq_margin (duration ev) NEC_BIT_0_SPACE (NEC_UNIT div 2) then nec_fail d
              else
                let d = d\<lparr>nec_count := nec_count d + 1\<rparr> in
                if nec_count d = of_nat NEC_NBITS then
                  (d\<lparr>nec_st := NEC_STATE_TRAILER_PULSE\<rparr>, [], Inr ())
                else (d\<lparr>nec_st := NEC_STATE_BIT_PULSE\<rparr>, [], Inr ())
        | NEC_STATE_TRAILER_PULSE \<Rightarrow>
            if \<not> pulse ev then nec_fail d
            else if \<not> eq_margin (duration ev) NEC_TRAILER_PULSE (NEC_UNIT div 2) then nec_fail d
            else (d\<lparr>nec_st := NEC_STATE_TRAILER_SPACE\<rparr>, [], Inr ())
        | NEC_STATE_TRAILER_SPACE \<Rightarrow>
            if pulse ev then nec_fail d
            else if \<not> geq_margin (duration ev) NEC_TRAILER_SPACE (NEC_UNIT div 2) then nec_fail d
            else if nec_count d = of_nat NEC_NBITS then
              let address = bitrev8 (ucast (drop_bit 24 (nec_bits d) AND 0xff));
                  not_address = bitrev8 (ucast (drop_bit 16 (nec_bits d) AND 0xff));
                  command = bitrev8 (ucast (drop_bit 8 (nec_bits d) AND 0xff));
                  not_command = bitrev8 (ucast (drop_bit 0 (nec_bits d) AND 0xff));
                  (scancode, rc_proto) =
                    ir_nec_bytes_to_scancode address not_address command not_command;
                  d = (if is_nec_x d then d\<lparr>necx_repeat := True\<rparr> else d) in
              (d\<lparr>nec_st := NEC_STATE_INACTIVE\<rparr>, [Rc_keydown rc_proto scancode 0], Inr ())
            else (d\<lparr>nec_st := NEC_STATE_INACTIVE\<rparr>, [Rc_repeat], Inr ()))"

definition ir_nec_scancode_to_raw :: "rc_proto \<Rightarrow> u32 \<Rightarrow> u32" where
  "ir_nec_scancode_to_raw protocol scancode =
     (let data = scancode AND 0xff;
          (addr, addr_inv, data_inv) =
            (if protocol = RC_PROTO_NEC32 then
               (drop_bit 16 scancode AND 0xff, drop_bit 24 scancode AND 0xff, drop_bit 8 scancode AND 0xff)
             else if protocol = RC_PROTO_NECX then
               (drop_bit 16 scancode AND 0xff, drop_bit 8 scancode AND 0xff, data XOR 0xff)
             else (drop_bit 8 scancode AND 0xff, (drop_bit 8 scancode AND 0xff) XOR 0xff, data XOR 0xff))
      in push_bit 24 data_inv OR push_bit 16 data OR push_bit 8 addr_inv OR addr)"

definition ir_nec_timings :: ir_raw_timings_pd where
  "ir_nec_timings =
     \<lparr>pd_header_pulse = NEC_HEADER_PULSE, pd_header_space = NEC_HEADER_SPACE,
      pd_bit_pulse = NEC_BIT_PULSE,
      pd_bit_space = (\<lambda>b. if b then NEC_BIT_1_SPACE else NEC_BIT_0_SPACE),
      pd_trailer_pulse = NEC_TRAILER_PULSE, pd_trailer_space = NEC_TRAILER_SPACE,
      pd_msb_first = False\<rparr>"

definition ir_nec_encode :: "rc_proto \<Rightarrow> u32 \<Rightarrow> nat \<Rightarrow> ir_raw_event list \<times> nat result" where
  "ir_nec_encode protocol scancode room =
     encode_result (ir_raw_gen_pd ([], room) ir_nec_timings NEC_NBITS
       (ucast (ir_nec_scancode_to_raw protocol scancode)))"

section \<open>The decoder's invariant\<close>

definition nec_inv :: "nec_dec \<Rightarrow> bool" where
  "nec_inv d = (case nec_st d of
      NEC_STATE_INACTIVE \<Rightarrow> True
    | NEC_STATE_HEADER_SPACE \<Rightarrow> nec_count d = 0
    | NEC_STATE_BIT_PULSE \<Rightarrow> nec_count d < 32
    | NEC_STATE_BIT_SPACE \<Rightarrow> nec_count d < 32
    | NEC_STATE_TRAILER_PULSE \<Rightarrow> nec_count d = 0 \<or> nec_count d = 32
    | NEC_STATE_TRAILER_SPACE \<Rightarrow> nec_count d = 0 \<or> nec_count d = 32)"

definition nec_ready :: "nec_dec \<Rightarrow> bool" where
  "nec_ready d \<longleftrightarrow> nec_st d = NEC_STATE_INACTIVE"

interpretation nec: ir_strict_decoder "ir_nec_decode bitrev8" nec_ready nec_inv
proof
  show "nec_inv d'" if "nec_inv d" "ir_nec_decode bitrev8 d ev = (d', as, r)" for d ev d' as r
    using that
    by (auto simp: ir_nec_decode_def nec_fail_def nec_inv_def Let_def NEC_NBITS_def count_step
        split: nec_state.splits if_splits prod.splits)
  show "\<exists>d'. ir_nec_decode bitrev8 d ev = (d', [], Inr ()) \<and> nec_ready d'" if "ev_reset ev" for ev d
    using that by (simp add: ir_nec_decode_def is_timing_event_def nec_ready_def)
  show "e = EINVAL \<and> as = [] \<and> nec_ready d'" if "ir_nec_decode bitrev8 d ev = (d', as, Inl e)"
    for d ev d' as e
    using that
    by (auto simp: ir_nec_decode_def nec_fail_def nec_ready_def Let_def
        split: nec_state.splits if_splits prod.splits)
qed

section \<open>Reading what the encoder sends\<close>

definition nec_tol :: u32 where [ir_const]: "nec_tol = NEC_UNIT div 2"

definition nec_got :: "nat \<Rightarrow> u32 \<Rightarrow> nec_dec \<Rightarrow> bool" where
  "nec_got k acc d \<longleftrightarrow> unat (nec_count d) = k \<and> nec_bits d = acc \<and> \<not> is_nec_x d \<and> \<not> necx_repeat d \<and>
     nec_st d = (if k = 32 then NEC_STATE_TRAILER_PULSE else NEC_STATE_BIT_PULSE)"

lemma nec_got_symbol:
  assumes "nec_got k acc d" "k < 32" "jittered nec_tol (pd_symbol ir_nec_timings b) es"
  shows "\<exists>d'. decode_run (ir_nec_decode bitrev8) d es = (d', []) \<and>
    nec_got (Suc k) (push_bit 1 acc OR of_bool b) d'"
proof -
  have cnt: "unat (nec_count d + 1) = Suc k" "nec_count d + 1 = 32 \<longleftrightarrow> Suc k = 32"
    using assms by (simp_all add: nec_got_def unat_inc inc_eq_iff)
  from assms(3) obtain e1 e2 where es: "es = [e1, e2]" "pulse e1" "\<not> pulse e2"
    "is_timing_event e1" "is_timing_event e2" "eq_margin (duration e1) NEC_BIT_PULSE nec_tol"
    "eq_margin (duration e2) (if b then NEC_BIT_1_SPACE else NEC_BIT_0_SPACE) nec_tol"
    by (auto simp: pd_symbol_def ir_nec_timings_def jittered_Cons)
  from es(7) have "eq_margin (duration e2) NEC_BIT_1_SPACE (NEC_UNIT div 2) = b"
    "eq_margin (duration e2) NEC_BIT_0_SPACE (NEC_UNIT div 2) = (\<not> b)"
    by (cases b; simp add: margin_nat ir_const)+
  with es assms(1,2) cnt show ?thesis
    by (cases b) (simp_all add: ir_nec_decode_def nec_got_def nec_tol_def Let_def NEC_NBITS_def)
qed

interpretation nec_receiver: ir_receiver "ir_nec_decode bitrev8" nec_tol "pd_symbol ir_nec_timings"
  "\<lambda>a b. push_bit 1 a OR of_bool b" 32 nec_got
  by unfold_locales (rule nec_got_symbol)

lemma nec_header_nonzero: "NEC_HEADER_PULSE \<noteq> 0"
  by (simp add: ir_const)

lemma nec_timings_sel [simp]:
  "pd_header_pulse ir_nec_timings = NEC_HEADER_PULSE" "pd_header_space ir_nec_timings = NEC_HEADER_SPACE"
  "pd_trailer_pulse ir_nec_timings = NEC_TRAILER_PULSE" "pd_trailer_space ir_nec_timings = NEC_TRAILER_SPACE"
  "pd_msb_first ir_nec_timings = False"
  by (simp_all add: ir_nec_timings_def)

lemma nec_encode_events:
  "ir_nec_encode p sc room = (es, Inr n) \<Longrightarrow>
   es = [init_ir_raw_event_duration True NEC_HEADER_PULSE, init_ir_raw_event_duration False NEC_HEADER_SPACE] @
     pd_events ir_nec_timings (lsb_bits 32 (ucast (ir_nec_scancode_to_raw p sc) :: u64)) @
     [init_ir_raw_event_duration True NEC_TRAILER_PULSE, init_ir_raw_event_duration False NEC_TRAILER_SPACE]"
  using nec_header_nonzero
  by (auto simp: ir_nec_encode_def gen_pd_emit encode_result_emit nec_timings_sel NEC_NBITS_def
      split: if_splits)

text \<open>The bytes of the raw message, as the decoder finds them in its register.\<close>

lemma nec_register_bytes:
  fixes acc raw :: u32
  assumes "bits = shift_in acc (lsb_bits 32 (ucast raw :: u64))"
  shows "word_reverse (ucast (drop_bit 24 bits AND 0xff) :: u8) = ucast raw"
    "word_reverse (ucast (drop_bit 16 bits AND 0xff) :: u8) = ucast (drop_bit 8 raw)"
    "word_reverse (ucast (drop_bit 8 bits AND 0xff) :: u8) = ucast (drop_bit 16 raw)"
    "word_reverse (ucast (drop_bit 0 bits AND 0xff) :: u8) = ucast (drop_bit 24 raw)"
  unfolding assms
  by (rule bit_word_eqI; auto simp: bit_reversed_byte bit_shift_in_lsb bit_ucast_iff bit_drop_bit_eq
      simp del: drop_bit_0 intro: arg_cong [of _ _ "bit raw"])+

text \<open>The bytes of a word put together from four bytes.\<close>

lemma ucast_bytes:
  fixes b0 b1 b2 b3 :: u32
  assumes "raw = push_bit 24 (b3 AND 0xff) OR push_bit 16 (b2 AND 0xff) OR push_bit 8 (b1 AND 0xff) OR (b0 AND 0xff)"
  shows "(ucast raw :: u8) = ucast b0" "(ucast (drop_bit 8 raw) :: u8) = ucast b1"
    "(ucast (drop_bit 16 raw) :: u8) = ucast b2" "(ucast (drop_bit 24 raw) :: u8) = ucast b3"
  unfolding assms mask_ff by (rule bit_word_eqI; auto simp: bit_simps)+

lemma xor_ff: "(b AND 0xff) XOR 0xff = NOT b AND (0xff :: u32)"
  unfolding mask_ff by (rule bit_word_eqI) (auto simp: bit_simps)

lemma and_ff_eq_0: "(x :: u32) AND 0xff = 0 \<longleftrightarrow> (\<forall>i<8. \<not> bit x i)"
proof
  assume eq: "x AND 0xff = 0"
  have "bit (x AND 0xff) i = bit x i" if "i < 8" for i
    using that unfolding mask_ff by (simp add: bit_simps)
  with eq show "\<forall>i<8. \<not> bit x i" by simp
next
  assume "\<forall>i<8. \<not> bit x i"
  then show "x AND 0xff = 0" unfolding mask_ff by (intro bit_word_eqI) (auto simp: bit_simps)
qed

lemma ucast_xor_ff: "(ucast (a :: u32) :: u8) XOR ucast b = 0xff \<longleftrightarrow> (a XOR NOT b) AND 0xff = 0"
proof -
  have "(ucast a :: u8) XOR ucast b = 0xff \<longleftrightarrow> (\<forall>i<8. bit a i \<noteq> bit b i)"
    unfolding mask_ff by (auto simp: bit_eq_iff [of _ "mask 8"] bit_simps)
  also have "\<dots> \<longleftrightarrow> (a XOR NOT b) AND 0xff = 0"
    unfolding and_ff_eq_0 by (auto simp: bit_simps)
  finally show ?thesis .
qed

lemma nec_canonical_bit: "canonical_scancode p sc \<Longrightarrow> p = RC_PROTO_NEC \<Longrightarrow> bit sc i \<Longrightarrow> i < 16"
  by (drule (1) canonical_bit) (simp only: protocols_scancode_bits.simps mask_word_bits)

lemma necx_canonical_bit: "canonical_scancode p sc \<Longrightarrow> p = RC_PROTO_NECX \<Longrightarrow> bit sc i \<Longrightarrow> i < 24"
  by (drule (1) canonical_bit) (simp only: protocols_scancode_bits.simps mask_word_bits)

lemma nec_bytes_roundtrip:
  assumes "canonical_scancode p sc" "p \<in> {RC_PROTO_NEC, RC_PROTO_NECX, RC_PROTO_NEC32}"
    "raw = ir_nec_scancode_to_raw p sc"
  shows "ir_nec_bytes_to_scancode (ucast raw) (ucast (drop_bit 8 raw)) (ucast (drop_bit 16 raw))
     (ucast (drop_bit 24 raw)) = (sc, p)"
proof -
  note defs = ir_nec_bytes_to_scancode_def ucast_xor_ff
  note scancode_to_raw = ir_nec_scancode_to_raw_def Let_def xor_ff rc_proto.distinct if_False if_True
    simp_thms prod.case
  from assms(2) consider (nec) "p = RC_PROTO_NEC" | (necx) "p = RC_PROTO_NECX" | (nec32) "p = RC_PROTO_NEC32"
    by blast
  then show ?thesis
  proof cases
    case nec
    have "raw = push_bit 24 (NOT sc AND 0xff) OR push_bit 16 (sc AND 0xff) OR
        push_bit 8 (NOT (drop_bit 8 sc) AND 0xff) OR (drop_bit 8 sc AND 0xff)"
      by (simp only: assms(3) nec scancode_to_raw)
    note bytes = ucast_bytes [OF this]
    have "push_bit 8 (ucast (ucast (drop_bit 8 sc) :: u8)) OR ucast (ucast sc :: u8) = sc"
      by (rule bit_word_eqI) (auto simp: bit_simps dest: nec_canonical_bit [OF assms(1) nec])
    then show ?thesis unfolding bytes by (simp add: defs nec)
  next
    case necx
    have "raw = push_bit 24 (NOT sc AND 0xff) OR push_bit 16 (sc AND 0xff) OR
        push_bit 8 (drop_bit 8 sc AND 0xff) OR (drop_bit 16 sc AND 0xff)"
      by (simp only: assms(3) necx scancode_to_raw)
    note bytes = ucast_bytes [OF this]
    have "push_bit 16 (ucast (ucast (drop_bit 16 sc) :: u8)) OR push_bit 8 (ucast (ucast (drop_bit 8 sc) :: u8)) OR
        ucast (ucast sc :: u8) = sc"
    proof (rule bit_word_eqI, goal_cases)
      case (1 n)
      then show ?case using necx_canonical_bit [OF assms(1) necx, of n]
        by (cases "n < 8"; cases "n < 16") (auto simp: bit_simps)
    qed
    moreover have "(drop_bit 16 sc XOR NOT (drop_bit 8 sc)) AND 0xff \<noteq> 0"
      using assms(1) necx unfolding and_ff_eq_0
      by (simp add: canonical_scancode_def rc_validate_scancode_def and_ff_eq_0)
    ultimately show ?thesis unfolding bytes by (simp add: defs necx)
  next
    case nec32
    have "raw = push_bit 24 (drop_bit 8 sc AND 0xff) OR push_bit 16 (sc AND 0xff) OR
        push_bit 8 (drop_bit 24 sc AND 0xff) OR (drop_bit 16 sc AND 0xff)"
      by (simp only: assms(3) nec32 scancode_to_raw)
    note bytes = ucast_bytes [OF this]
    have "push_bit 24 (ucast (ucast (drop_bit 24 sc) :: u8)) OR push_bit 16 (ucast (ucast (drop_bit 16 sc) :: u8)) OR
        push_bit 8 (ucast (ucast (drop_bit 8 sc) :: u8)) OR ucast (ucast sc :: u8) = sc"
    proof (rule bit_word_eqI, goal_cases)
      case (1 n)
      then show ?case by (cases "n < 8"; cases "n < 16"; cases "n < 24") (auto simp: bit_simps)
    qed
    moreover have "(sc XOR NOT (drop_bit 8 sc)) AND 0xff \<noteq> 0"
      using assms(1) nec32 unfolding and_ff_eq_0
      by (auto simp: canonical_scancode_def rc_validate_scancode_def and_ff_eq_0 bit_simps)
    ultimately show ?thesis unfolding bytes by (simp add: defs nec32)
  qed
qed

text \<open>A message whose last space may be longer than what was sent, as it is when the receiver waits for its timeout.\<close>

lemma nec_message:
  assumes "nec_ready d" "canonical_scancode p sc" "p \<in> {RC_PROTO_NEC, RC_PROTO_NECX, RC_PROTO_NEC32}"
    "ir_nec_encode p sc room = (es, Inr n)" "jittered nec_tol (butlast es) fs"
    "\<not> pulse e4" "is_timing_event e4" "geq_margin (duration e4) NEC_TRAILER_SPACE (NEC_UNIT div 2)"
  shows "\<exists>d'. decode_run (ir_nec_decode word_reverse) d (fs @ [e4]) = (d', [Rc_keydown p sc 0]) \<and> nec_ready d'"
proof -
  define raw where "raw = ir_nec_scancode_to_raw p sc"
  define bs where "bs = lsb_bits 32 (ucast raw :: u64)"
  from assms(4,5) obtain e1 e2 zs e3 where fs: "fs = [e1, e2] @ zs @ [e3]"
    and zs: "jittered nec_tol (pd_events ir_nec_timings bs) zs"
    and hd: "pulse e1" "\<not> pulse e2" "is_timing_event e1" "is_timing_event e2"
      "eq_margin (duration e1) NEC_HEADER_PULSE nec_tol" "eq_margin (duration e2) NEC_HEADER_SPACE nec_tol"
    and tl: "pulse e3" "is_timing_event e3" "eq_margin (duration e3) NEC_TRAILER_PULSE nec_tol"
    unfolding bs_def raw_def by (auto dest!: nec_encode_events simp: jittered_Cons jittered_append butlast_append)
  have "eq_margin (duration e1) NEC_HEADER_PULSE (NEC_UNIT * 2)"
    "eq_margin (duration e2) NEC_HEADER_SPACE NEC_UNIT"
    using hd by (simp_all add: margin_nat ir_const)
  then obtain d1 where d1: "decode_run (ir_nec_decode word_reverse) d [e1, e2] = (d1, [])"
    "nec_got 0 (nec_bits d) d1"
    using hd assms(1) by (simp add: ir_nec_decode_def nec_ready_def nec_got_def)
  have "length bs = 32" by (simp add: bs_def)
  then obtain d2 where d2: "decode_run (ir_nec_decode word_reverse) d1 zs = (d2, [])"
    "nec_got 32 (shift_in (nec_bits d) bs) d2"
    using nec_receiver.got_symbols [OF d1(2) _ zs] by (auto simp: shift_in_def)
  obtain d3 where "decode_run (ir_nec_decode word_reverse) d2 [e3, e4] = (d3, [Rc_keydown p sc 0])" "nec_ready d3"
    using tl d2(2) assms(6-8) nec_register_bytes [OF d2(2) [unfolded nec_got_def bs_def, THEN conjunct2, THEN conjunct1]]
      nec_bytes_roundtrip [OF assms(2,3) raw_def]
    by (simp add: ir_nec_decode_def nec_got_def nec_ready_def nec_tol_def NEC_NBITS_def Let_def
        word_unat_eq_iff [of _ 32])
  with decode_run_trans [OF d1(1) decode_run_trans [OF d2(1)]] show ?thesis by (auto simp: fs)
qed

lemma nec_roundtrip:
  assumes "nec_ready d" "canonical_scancode p sc" "p \<in> {RC_PROTO_NEC, RC_PROTO_NECX, RC_PROTO_NEC32}"
    "ir_nec_encode p sc room = (es, Inr n)" "jittered nec_tol es es'"
  shows "\<exists>d'. decode_run (ir_nec_decode word_reverse) d es' = (d', [Rc_keydown p sc 0]) \<and> nec_ready d'"
proof -
  have es: "es = butlast es @ [init_ir_raw_event_duration False NEC_TRAILER_SPACE]"
    using nec_encode_events [OF assms(4)] by (simp add: butlast_append)
  obtain fs e4 where es': "es' = fs @ [e4]" "jittered nec_tol (butlast es) fs" "\<not> pulse e4" "is_timing_event e4"
    "eq_margin (duration e4) NEC_TRAILER_SPACE nec_tol"
    using assms(5) by (subst (asm) es) (auto simp: jittered_append jittered_Cons)
  have "geq_margin (duration e4) NEC_TRAILER_SPACE (NEC_UNIT div 2)" using es'(5) by (simp add: margin_nat ir_const)
  from nec_message [OF assms(1-4) es'(2-4) this] show ?thesis by (simp add: es'(1))
qed

interpretation nec_codec: ir_codec "ir_nec_decode word_reverse" nec_ready nec_inv ir_nec_encode
  "\<lambda>p sc. p \<in> {RC_PROTO_NEC, RC_PROTO_NECX, RC_PROTO_NEC32} \<and> canonical_scancode p sc" nec_tol
  by unfold_locales (use nec_roundtrip in blast)

text \<open>
  C23: A sequence of NEC messages sent with \<^verbatim>\<open>ir_nec_encode\<close>, each received with every duration off
  by less than half a unit, is decoded by \<^verbatim>\<open>ir_nec_decode\<close> as exactly the key presses sent, in
  order, with the protocol variant and the scancode of each, whatever the decoder's register held.
  The scancodes are those \<^verbatim>\<open>rc_validate_scancode\<close> accepts, with no bits outside the protocol's.
\<close>

theorem nec_stream_roundtrip:
  assumes "bitrev_spec bitrev8" "nec_inv d" "nec_ready d"
    "\<forall>(p, sc) \<in> set msgs. p \<in> {RC_PROTO_NEC, RC_PROTO_NECX, RC_PROTO_NEC32} \<and> canonical_scancode p sc"
    "transmitted ir_nec_encode nec_tol msgs evs"
  shows "\<exists>d' as. decode_run (ir_nec_decode bitrev8) d evs = (d', as) \<and> key_presses msgs as \<and> nec_ready d'"
  using nec_codec.stream_roundtrip [OF assms(2-5)] by (simp add: bitrev_spec_eq [OF assms(1)])

lemma nec_encode_ok:
  "\<exists>n es. ir_nec_encode p sc 68 = (es, Inr n) \<and> jittered nec_tol es es"
  unfolding ir_nec_encode_def
  by (rule pd_encode_ok) (auto simp: ir_nec_timings_def margin_nat ir_const)

theorem nec_stream_roundtrip_witness:
  "\<exists>evs d' as. decode_run (ir_nec_decode word_reverse)
       \<lparr>nec_st = NEC_STATE_INACTIVE, nec_count = 0, nec_bits = 7, is_nec_x = False, necx_repeat = True\<rparr>
       evs = (d', as) \<and>
     key_presses [(RC_PROTO_NEC, 0x1234), (RC_PROTO_NECX, 0x123456)] as"
proof -
  let ?d = "\<lparr>nec_st = NEC_STATE_INACTIVE, nec_count = 0, nec_bits = 7, is_nec_x = False, necx_repeat = True\<rparr>"
  let ?msgs = "[(RC_PROTO_NEC, 0x1234), (RC_PROTO_NECX, 0x123456)]"
  obtain n1 es1 n2 es2 where "ir_nec_encode RC_PROTO_NEC 0x1234 68 = (es1, Inr n1)" "jittered nec_tol es1 es1"
    "ir_nec_encode RC_PROTO_NECX 0x123456 68 = (es2, Inr n2)" "jittered nec_tol es2 es2"
    using nec_encode_ok by metis
  then have "transmitted ir_nec_encode nec_tol ?msgs (es1 @ es2 @ [])"
    by (intro transmittedI; simp)
  moreover have "\<forall>(p, sc) \<in> set ?msgs. p \<in> {RC_PROTO_NEC, RC_PROTO_NECX, RC_PROTO_NEC32} \<and> canonical_scancode p sc"
    by (simp add: canonical_scancode_def rc_validate_scancode_def)
  ultimately show ?thesis
    using nec_stream_roundtrip [OF bitrev_spec_word_reverse, of ?d ?msgs "es1 @ es2 @ []"]
    by (simp only: nec_inv_def nec_ready_def nec_dec.simps nec_state.simps) blast
qed

end
