(* ===== verification/Ir_Jvc.thy ===== *)
theory Ir_Jvc
  imports Rc_Proto
begin

text \<open>
  The JVC handler, \<^verbatim>\<open>rc/ir-jvc-decoder.c\<close>. A key that is held is sent again without the header;
  the decoder waits for such repeats in the state \<^verbatim>\<open>STATE_CHECK_REPEAT\<close>.
\<close>

section \<open>Constants and state\<close>

definition JVC_NBITS :: nat where [ir_const]: "JVC_NBITS = 16"
definition JVC_UNIT :: u32 where [ir_const]: "JVC_UNIT = 525000"
definition JVC_HEADER_PULSE :: u32 where [ir_const]: "JVC_HEADER_PULSE = 16 * JVC_UNIT"
definition JVC_HEADER_SPACE :: u32 where [ir_const]: "JVC_HEADER_SPACE = 8 * JVC_UNIT"
definition JVC_BIT_PULSE :: u32 where [ir_const]: "JVC_BIT_PULSE = 1 * JVC_UNIT"
definition JVC_BIT_0_SPACE :: u32 where [ir_const]: "JVC_BIT_0_SPACE = 1 * JVC_UNIT"
definition JVC_BIT_1_SPACE :: u32 where [ir_const]: "JVC_BIT_1_SPACE = 3 * JVC_UNIT"
definition JVC_TRAILER_PULSE :: u32 where [ir_const]: "JVC_TRAILER_PULSE = 1 * JVC_UNIT"
definition JVC_TRAILER_SPACE :: u32 where [ir_const]: "JVC_TRAILER_SPACE = 35 * JVC_UNIT"

datatype jvc_state = JVC_STATE_INACTIVE | JVC_STATE_HEADER_SPACE | JVC_STATE_BIT_PULSE
  | JVC_STATE_BIT_SPACE | JVC_STATE_TRAILER_PULSE | JVC_STATE_TRAILER_SPACE | JVC_STATE_CHECK_REPEAT

record jvc_dec =
  jvc_st :: jvc_state
  jvc_bits :: u16
  jvc_old_bits :: u16
  jvc_count :: u32
  jvc_first :: bool
  jvc_toggle :: bool

section \<open>Operations\<close>

definition jvc_fail :: "jvc_dec \<Rightarrow> jvc_dec decoded" where
  "jvc_fail d = (d\<lparr>jvc_st := JVC_STATE_INACTIVE\<rparr>, [], Inl EINVAL)"

text \<open>
  The switch, entered again by \<^verbatim>\<open>goto again\<close>. The event is passed by value, so the shortening of
  its duration when a bit has been read has no effect and is left out.
\<close>

function jvc_again :: "(u8 \<Rightarrow> u8) \<Rightarrow> jvc_dec decoder" where
  "jvc_again bitrev8 d ev =
     (case jvc_st d of
        JVC_STATE_INACTIVE \<Rightarrow>
          if \<not> pulse ev then jvc_fail d
          else if \<not> eq_margin (duration ev) JVC_HEADER_PULSE (JVC_UNIT div 2) then jvc_fail d
          else (d\<lparr>jvc_count := 0, jvc_first := True, jvc_toggle := \<not> jvc_toggle d,
                  jvc_st := JVC_STATE_HEADER_SPACE\<rparr>, [], Inr ())
      | JVC_STATE_HEADER_SPACE \<Rightarrow>
          if pulse ev then jvc_fail d
          else if \<not> eq_margin (duration ev) JVC_HEADER_SPACE (JVC_UNIT div 2) then jvc_fail d
          else (d\<lparr>jvc_st := JVC_STATE_BIT_PULSE\<rparr>, [], Inr ())
      | JVC_STATE_BIT_PULSE \<Rightarrow>
          if \<not> pulse ev then jvc_fail d
          else if \<not> eq_margin (duration ev) JVC_BIT_PULSE (JVC_UNIT div 2) then jvc_fail d
          else (d\<lparr>jvc_st := JVC_STATE_BIT_SPACE\<rparr>, [], Inr ())
      | JVC_STATE_BIT_SPACE \<Rightarrow>
          if pulse ev then jvc_fail d
          else
            let d = d\<lparr>jvc_bits := push_bit 1 (jvc_bits d)\<rparr>;
                one = eq_margin (duration ev) JVC_BIT_1_SPACE (JVC_UNIT div 2);
                d = (if one then d\<lparr>jvc_bits := jvc_bits d OR 1\<rparr> else d) in
            if \<not> one \<and> \<not> eq_margin (duration ev) JVC_BIT_0_SPACE (JVC_UNIT div 2) then jvc_fail d
            else
              let d = d\<lparr>jvc_count := jvc_count d + 1\<rparr> in
              if jvc_count d = of_nat JVC_NBITS then (d\<lparr>jvc_st := JVC_STATE_TRAILER_PULSE\<rparr>, [], Inr ())
              else (d\<lparr>jvc_st := JVC_STATE_BIT_PULSE\<rparr>, [], Inr ())
      | JVC_STATE_TRAILER_PULSE \<Rightarrow>
          if \<not> pulse ev then jvc_fail d
          else if \<not> eq_margin (duration ev) JVC_TRAILER_PULSE (JVC_UNIT div 2) then jvc_fail d
          else (d\<lparr>jvc_st := JVC_STATE_TRAILER_SPACE\<rparr>, [], Inr ())
      | JVC_STATE_TRAILER_SPACE \<Rightarrow>
          if pulse ev then jvc_fail d
          else if \<not> geq_margin (duration ev) JVC_TRAILER_SPACE (JVC_UNIT div 2) then jvc_fail d
          else if jvc_first d then
            let scancode = push_bit 8 (ucast (bitrev8 (ucast (drop_bit 8 (jvc_bits d) AND 0xff)))) OR
                  push_bit 0 (ucast (bitrev8 (ucast (drop_bit 0 (jvc_bits d) AND 0xff)))) in
            (d\<lparr>jvc_first := False, jvc_old_bits := jvc_bits d, jvc_count := 0,
               jvc_st := JVC_STATE_CHECK_REPEAT\<rparr>,
             [Rc_keydown RC_PROTO_JVC scancode (of_bool (jvc_toggle d))], Inr ())
          else if jvc_bits d = jvc_old_bits d then
            (d\<lparr>jvc_count := 0, jvc_st := JVC_STATE_CHECK_REPEAT\<rparr>, [Rc_repeat], Inr ())
          else jvc_fail d
      | JVC_STATE_CHECK_REPEAT \<Rightarrow>
          if \<not> pulse ev then jvc_fail d
          else if eq_margin (duration ev) JVC_HEADER_PULSE (JVC_UNIT div 2) then
            jvc_again bitrev8 (d\<lparr>jvc_st := JVC_STATE_INACTIVE\<rparr>) ev
          else jvc_again bitrev8 (d\<lparr>jvc_st := JVC_STATE_BIT_PULSE\<rparr>) ev)"
  by pat_completeness auto

termination
  by (relation "measure (\<lambda>(_, d, _). if jvc_st d = JVC_STATE_CHECK_REPEAT then 1 else 0)") auto

declare jvc_again.simps [simp del]

definition ir_jvc_decode :: "(u8 \<Rightarrow> u8) \<Rightarrow> jvc_dec decoder" where
  "ir_jvc_decode bitrev8 d ev =
     (if \<not> is_timing_event ev then
        ((if ev_reset ev then d\<lparr>jvc_st := JVC_STATE_INACTIVE\<rparr> else d), [], Inr ())
      else if \<not> geq_margin (duration ev) JVC_UNIT (JVC_UNIT div 2) then jvc_fail d
      else jvc_again bitrev8 d ev)"

definition ir_jvc_timings :: ir_raw_timings_pd where
  "ir_jvc_timings =
     \<lparr>pd_header_pulse = JVC_HEADER_PULSE, pd_header_space = JVC_HEADER_SPACE,
      pd_bit_pulse = JVC_BIT_PULSE,
      pd_bit_space = (\<lambda>b. if b then JVC_BIT_1_SPACE else JVC_BIT_0_SPACE),
      pd_trailer_pulse = JVC_TRAILER_PULSE, pd_trailer_space = JVC_TRAILER_SPACE,
      pd_msb_first = True\<rparr>"

definition ir_jvc_encode ::
  "(u8 \<Rightarrow> u8) \<Rightarrow> rc_proto \<Rightarrow> u32 \<Rightarrow> nat \<Rightarrow> ir_raw_event list \<times> nat result" where
  "ir_jvc_encode bitrev8 protocol scancode room =
     (let raw = push_bit 8 (ucast (bitrev8 (ucast (drop_bit 8 scancode AND 0xff)))) OR
            push_bit 0 (ucast (bitrev8 (ucast (drop_bit 0 scancode AND 0xff)))) :: u32 in
      encode_result (ir_raw_gen_pd ([], room) ir_jvc_timings JVC_NBITS (ucast raw)))"

section \<open>The decoder's invariant\<close>

definition jvc_inv :: "jvc_dec \<Rightarrow> bool" where
  "jvc_inv d = (case jvc_st d of
      JVC_STATE_INACTIVE \<Rightarrow> True
    | JVC_STATE_HEADER_SPACE \<Rightarrow> jvc_count d = 0 \<and> jvc_first d
    | JVC_STATE_BIT_PULSE \<Rightarrow> jvc_count d < 16
    | JVC_STATE_BIT_SPACE \<Rightarrow> jvc_count d < 16
    | JVC_STATE_TRAILER_PULSE \<Rightarrow> jvc_count d = 16
    | JVC_STATE_TRAILER_SPACE \<Rightarrow> jvc_count d = 16
    | JVC_STATE_CHECK_REPEAT \<Rightarrow> jvc_count d = 0 \<and> \<not> jvc_first d)"

definition jvc_ready :: "jvc_dec \<Rightarrow> bool" where
  "jvc_ready d \<longleftrightarrow> jvc_st d = JVC_STATE_INACTIVE \<or> jvc_st d = JVC_STATE_CHECK_REPEAT"

lemma jvc_again_inv: "jvc_inv d \<Longrightarrow> jvc_again bitrev8 d ev = (d', as, r) \<Longrightarrow> jvc_inv d'"
proof (induction bitrev8 d ev rule: jvc_again.induct)
  case (1 bitrev8 d ev)
  show ?case
  proof (cases "jvc_st d = JVC_STATE_CHECK_REPEAT")
    case True
    with 1 show ?thesis
      by (subst (asm) (3) jvc_again.simps) (auto simp: jvc_fail_def jvc_inv_def split: if_splits)
  next
    case False
    with 1(3,4) show ?thesis
      by (subst (asm) jvc_again.simps) (auto simp: jvc_fail_def jvc_inv_def Let_def JVC_NBITS_def count_step
          split: jvc_state.splits if_splits)
  qed
qed

lemma jvc_again_reject: "jvc_again bitrev8 d ev = (d', as, Inl e) \<Longrightarrow> e = EINVAL \<and> as = [] \<and> jvc_ready d'"
proof (induction bitrev8 d ev rule: jvc_again.induct)
  case (1 bitrev8 d ev)
  show ?case
  proof (cases "jvc_st d = JVC_STATE_CHECK_REPEAT")
    case True
    with 1 show ?thesis
      by (subst (asm) (3) jvc_again.simps) (auto simp: jvc_fail_def jvc_ready_def split: if_splits)
  next
    case False
    with 1(3) show ?thesis
      by (subst (asm) jvc_again.simps) (auto simp: jvc_fail_def jvc_ready_def Let_def
          split: jvc_state.splits if_splits)
  qed
qed

interpretation jvc: ir_strict_decoder "ir_jvc_decode bitrev8" jvc_ready jvc_inv
proof
  show "jvc_inv d'" if "jvc_inv d" "ir_jvc_decode bitrev8 d ev = (d', as, r)" for d ev d' as r
    using that jvc_again_inv
    by (auto simp: ir_jvc_decode_def jvc_fail_def jvc_inv_def split: if_splits)
  show "\<exists>d'. ir_jvc_decode bitrev8 d ev = (d', [], Inr ()) \<and> jvc_ready d'" if "ev_reset ev" for ev d
    using that by (simp add: ir_jvc_decode_def is_timing_event_def jvc_ready_def)
  show "e = EINVAL \<and> as = [] \<and> jvc_ready d'" if "ir_jvc_decode bitrev8 d ev = (d', as, Inl e)"
    for d ev d' as e
    using that jvc_again_reject
    by (auto simp: ir_jvc_decode_def jvc_fail_def jvc_ready_def split: if_splits)
qed

section \<open>Reading what the encoder sends\<close>

definition jvc_tol :: u32 where [ir_const]: "jvc_tol = JVC_UNIT div 2"

text \<open>\<open>k\<close> bits of a message have been read; what the message leaves alone is kept.\<close>

definition jvc_got :: "bool \<Rightarrow> u16 \<Rightarrow> bool \<Rightarrow> nat \<Rightarrow> u16 \<Rightarrow> jvc_dec \<Rightarrow> bool" where
  "jvc_got fst_msg old tg k acc d \<longleftrightarrow> unat (jvc_count d) = k \<and> jvc_bits d = acc \<and>
     jvc_first d = fst_msg \<and> jvc_old_bits d = old \<and> jvc_toggle d = tg \<and>
     (if k = 16 then jvc_st d = JVC_STATE_TRAILER_PULSE
      else jvc_st d = JVC_STATE_BIT_PULSE \<or> k = 0 \<and> jvc_st d = JVC_STATE_CHECK_REPEAT)"

lemma jvc_decode_bit_pulse:
  assumes "jvc_st d = JVC_STATE_BIT_PULSE \<or> jvc_st d = JVC_STATE_CHECK_REPEAT"
    "pulse ev" "is_timing_event ev" "eq_margin (duration ev) JVC_BIT_PULSE jvc_tol"
  shows "ir_jvc_decode bitrev8 d ev = (d\<lparr>jvc_st := JVC_STATE_BIT_SPACE\<rparr>, [], Inr ())"
proof -
  have "geq_margin (duration ev) JVC_UNIT (JVC_UNIT div 2)"
    "\<not> eq_margin (duration ev) JVC_HEADER_PULSE (JVC_UNIT div 2)"
    "eq_margin (duration ev) JVC_BIT_PULSE (JVC_UNIT div 2)"
    using assms(4) by (simp_all add: margin_nat ir_const)
  with assms show ?thesis
    by (auto simp: ir_jvc_decode_def jvc_again.simps [of _ d] jvc_again.simps [of _ "d\<lparr>jvc_st := JVC_STATE_BIT_PULSE\<rparr>"])
qed

lemma jvc_decode_bit_space:
  assumes "jvc_st d = JVC_STATE_BIT_SPACE" "unat (jvc_count d) < 16" "\<not> pulse ev" "is_timing_event ev"
    "eq_margin (duration ev) (if b then JVC_BIT_1_SPACE else JVC_BIT_0_SPACE) jvc_tol"
  shows "ir_jvc_decode bitrev8 d ev =
    (d\<lparr>jvc_bits := push_bit 1 (jvc_bits d) OR of_bool b, jvc_count := jvc_count d + 1,
       jvc_st := if unat (jvc_count d) = 15 then JVC_STATE_TRAILER_PULSE else JVC_STATE_BIT_PULSE\<rparr>, [], Inr ())"
proof -
  have "geq_margin (duration ev) JVC_UNIT (JVC_UNIT div 2)"
    "eq_margin (duration ev) JVC_BIT_1_SPACE (JVC_UNIT div 2) = b"
    "eq_margin (duration ev) JVC_BIT_0_SPACE (JVC_UNIT div 2) = (\<not> b)"
    using assms(5) by (cases b; simp add: margin_nat ir_const)+
  moreover have "jvc_count d + 1 = 16 \<longleftrightarrow> unat (jvc_count d) = 15"
    using assms(2) by (simp add: inc_eq_iff)
  ultimately show ?thesis using assms
    by (cases b) (simp_all add: ir_jvc_decode_def jvc_again.simps [of _ d] Let_def JVC_NBITS_def)
qed

lemma jvc_got_symbol:
  assumes got: "jvc_got f old tg k acc d" "k < 16" and es: "jittered jvc_tol (pd_symbol ir_jvc_timings b) es"
  shows "\<exists>d'. decode_run (ir_jvc_decode bitrev8) d es = (d', []) \<and>
    jvc_got f old tg (Suc k) (push_bit 1 acc OR of_bool b) d'"
proof -
  from es obtain e1 e2 where e: "es = [e1, e2]" "pulse e1" "\<not> pulse e2"
    "is_timing_event e1" "is_timing_event e2" "eq_margin (duration e1) JVC_BIT_PULSE jvc_tol"
    "eq_margin (duration e2) (if b then JVC_BIT_1_SPACE else JVC_BIT_0_SPACE) jvc_tol"
    by (auto simp: pd_symbol_def ir_jvc_timings_def jittered_Cons)
  have "jvc_st d = JVC_STATE_BIT_PULSE \<or> jvc_st d = JVC_STATE_CHECK_REPEAT"
    using got by (auto simp: jvc_got_def)
  from jvc_decode_bit_pulse [OF this e(2,4,6)] jvc_decode_bit_space [OF _ _ e(3,5,7), of "d\<lparr>jvc_st := JVC_STATE_BIT_SPACE\<rparr>"]
  show ?thesis using got by (auto simp: e(1) jvc_got_def unat_inc)
qed

interpretation jvc_receiver: ir_receiver "ir_jvc_decode bitrev8" jvc_tol "pd_symbol ir_jvc_timings"
  "\<lambda>a b. push_bit 1 a OR of_bool b" 16 "jvc_got f old tg"
  by unfold_locales (rule jvc_got_symbol)

text \<open>The trailer of a message, for a new key and for a repeat.\<close>

lemma jvc_trailer:
  assumes "jvc_got f old tg 16 acc d" "jittered jvc_tol [init_ir_raw_event_duration True JVC_TRAILER_PULSE,
      init_ir_raw_event_duration False JVC_TRAILER_SPACE] es" "f \<or> acc = old"
  shows "\<exists>d'. decode_run (ir_jvc_decode bitrev8) d es = (d', [if f then Rc_keydown RC_PROTO_JVC
      (push_bit 8 (ucast (bitrev8 (ucast (drop_bit 8 acc AND 0xff)))) OR
       ucast (bitrev8 (ucast (acc AND 0xff)))) (of_bool tg) else Rc_repeat]) \<and>
     jvc_got False acc tg 0 acc d' \<and> jvc_st d' = JVC_STATE_CHECK_REPEAT"
proof -
  from assms(2) obtain e3 e4 where e: "es = [e3, e4]" "pulse e3" "\<not> pulse e4" "is_timing_event e3" "is_timing_event e4"
    "eq_margin (duration e3) JVC_TRAILER_PULSE jvc_tol" "eq_margin (duration e4) JVC_TRAILER_SPACE jvc_tol"
    by (auto simp: jittered_Cons)
  have "geq_margin (duration e3) JVC_UNIT (JVC_UNIT div 2)" "geq_margin (duration e4) JVC_UNIT (JVC_UNIT div 2)"
    "geq_margin (duration e4) JVC_TRAILER_SPACE (JVC_UNIT div 2)"
    using e(6,7) by (simp_all add: margin_nat ir_const)
  with e assms(1,3) show ?thesis
    by (auto simp: ir_jvc_decode_def jvc_again.simps jvc_got_def jvc_tol_def Let_def)
qed

definition jvc_frame :: "u32 \<Rightarrow> ir_raw_event list" where
  "jvc_frame raw = pd_events ir_jvc_timings (msb_bits 16 raw) @
     [init_ir_raw_event_duration True JVC_TRAILER_PULSE, init_ir_raw_event_duration False JVC_TRAILER_SPACE]"

definition jvc_raw :: "u32 \<Rightarrow> u32" where
  "jvc_raw sc = push_bit 8 (ucast (word_reverse (ucast (drop_bit 8 sc AND 0xff) :: u8))) OR
     ucast (word_reverse (ucast (sc AND 0xff) :: u8))"

lemma jvc_scancode_roundtrip:
  assumes "canonical_scancode RC_PROTO_JVC sc" "acc = shift_in a (msb_bits 16 (jvc_raw sc))"
  shows "push_bit 8 (ucast (word_reverse (ucast (drop_bit 8 (acc :: u16) AND 0xff) :: u8))) OR
       ucast (word_reverse (ucast (acc AND 0xff) :: u8)) = sc"
  unfolding assms(2)
  by (rule u32_eqI, unfold upt_32)
     (auto simp: bit_simps bit_shift_in_msb jvc_raw_def simp del: bit_0 dest: canonical_bit [OF assms(1)])

lemma jvc_frame_run:
  assumes "jvc_got f old tg 0 a d" "jittered jvc_tol (jvc_frame raw) es"
    "acc = shift_in a (msb_bits 16 raw)" "f \<or> acc = old"
  shows "\<exists>d'. decode_run (ir_jvc_decode bitrev8) d es = (d', [if f then Rc_keydown RC_PROTO_JVC
      (push_bit 8 (ucast (bitrev8 (ucast (drop_bit 8 acc AND 0xff)))) OR
       ucast (bitrev8 (ucast (acc AND 0xff)))) (of_bool tg) else Rc_repeat]) \<and>
     jvc_got False acc tg 0 acc d' \<and> jvc_st d' = JVC_STATE_CHECK_REPEAT"
proof -
  from assms(2) obtain ys zs where es: "es = ys @ zs"
    "jittered jvc_tol (pd_events ir_jvc_timings (msb_bits 16 raw)) ys"
    "jittered jvc_tol [init_ir_raw_event_duration True JVC_TRAILER_PULSE,
       init_ir_raw_event_duration False JVC_TRAILER_SPACE] zs"
    unfolding jvc_frame_def jittered_append by blast
  from jvc_receiver.got_symbols [OF assms(1) _ es(2)] obtain d1
    where d1: "decode_run (ir_jvc_decode bitrev8) d ys = (d1, [])" "jvc_got f old tg 16 acc d1"
    by (auto simp: shift_in_def assms(3))
  from jvc_trailer [OF d1(2) es(3) assms(4)] decode_run_trans [OF d1(1)] show ?thesis
    unfolding es(1) by fastforce
qed

lemma jvc_timings_sel [simp]:
  "pd_header_pulse ir_jvc_timings = JVC_HEADER_PULSE" "pd_header_space ir_jvc_timings = JVC_HEADER_SPACE"
  "pd_trailer_pulse ir_jvc_timings = JVC_TRAILER_PULSE" "pd_trailer_space ir_jvc_timings = JVC_TRAILER_SPACE"
  "pd_msb_first ir_jvc_timings"
  by (simp_all add: ir_jvc_timings_def)

lemma jvc_encode_events:
  "ir_jvc_encode word_reverse p sc room = (es, Inr n) \<Longrightarrow>
   es = [init_ir_raw_event_duration True JVC_HEADER_PULSE, init_ir_raw_event_duration False JVC_HEADER_SPACE] @
     jvc_frame (jvc_raw sc)"
proof -
  have "JVC_HEADER_PULSE \<noteq> 0" by (simp add: ir_const)
  moreover assume "ir_jvc_encode word_reverse p sc room = (es, Inr n)"
  ultimately show ?thesis
    by (auto simp: ir_jvc_encode_def gen_pd_emit encode_result_emit jvc_frame_def JVC_NBITS_def Let_def
        simp flip: jvc_raw_def split: if_splits)
qed

lemma jvc_message_run:
  assumes "jvc_ready d" "canonical_scancode RC_PROTO_JVC sc"
    "ir_jvc_encode word_reverse p sc room = (es, Inr n)" "jittered jvc_tol es es'"
  shows "\<exists>d' acc. decode_run (ir_jvc_decode word_reverse) d es' = (d', [Rc_keydown RC_PROTO_JVC sc (of_bool (\<not> jvc_toggle d))]) \<and>
     jvc_got False acc (\<not> jvc_toggle d) 0 acc d' \<and> jvc_st d' = JVC_STATE_CHECK_REPEAT \<and>
     acc = shift_in (jvc_bits d) (msb_bits 16 (jvc_raw sc))"
proof -
  from assms(3,4) obtain e1 e2 zs where es': "es' = [e1, e2] @ zs" and zs: "jittered jvc_tol (jvc_frame (jvc_raw sc)) zs"
    and hd: "pulse e1" "\<not> pulse e2" "is_timing_event e1" "is_timing_event e2"
      "eq_margin (duration e1) JVC_HEADER_PULSE jvc_tol" "eq_margin (duration e2) JVC_HEADER_SPACE jvc_tol"
    by (auto dest!: jvc_encode_events simp: jittered_Cons)
  have "geq_margin (duration e1) JVC_UNIT (JVC_UNIT div 2)" "geq_margin (duration e2) JVC_UNIT (JVC_UNIT div 2)"
    using hd(5,6) by (simp_all add: margin_nat ir_const)
  then obtain d1 where d1: "decode_run (ir_jvc_decode word_reverse) d [e1, e2] = (d1, [])"
    "jvc_got True (jvc_old_bits d) (\<not> jvc_toggle d) 0 (jvc_bits d) d1"
    using hd assms(1)
    by (auto simp: ir_jvc_decode_def jvc_again.simps jvc_got_def jvc_tol_def jvc_ready_def)
  from jvc_frame_run [OF d1(2) zs refl] decode_run_trans [OF d1(1)] jvc_scancode_roundtrip [OF assms(2) refl]
  show ?thesis unfolding es' by fastforce
qed

interpretation jvc_codec: ir_codec "ir_jvc_decode word_reverse" jvc_ready jvc_inv "ir_jvc_encode word_reverse"
  "\<lambda>p sc. p = RC_PROTO_JVC \<and> canonical_scancode p sc" jvc_tol
  by unfold_locales (use jvc_message_run in \<open>fastforce simp: jvc_ready_def\<close>)

text \<open>A held key: each repeat frame, sent without a header, gives a repeat.\<close>

lemma jvc_repeats:
  assumes "jvc_got False acc tg 0 a d" "acc = shift_in a' (msb_bits 16 raw)" "jvc_st d = JVC_STATE_CHECK_REPEAT"
    "list_all (jittered jvc_tol (jvc_frame raw)) frames"
  shows "\<exists>d'. decode_run (ir_jvc_decode bitrev8) d (concat frames) = (d', replicate (length frames) Rc_repeat) \<and>
    jvc_st d' = JVC_STATE_CHECK_REPEAT"
  using assms(1,3,4)
proof (induction frames arbitrary: d a)
  case (Cons fr frames)
  have same: "shift_in a (msb_bits 16 raw) = acc"
    unfolding assms(2) by (rule bit_word_eqI) (simp add: bit_shift_in_msb)
  from jvc_frame_run [OF Cons.prems(1), of raw fr acc] same Cons.prems(3) obtain d1
    where d1: "decode_run (ir_jvc_decode bitrev8) d fr = (d1, [Rc_repeat])" "jvc_got False acc tg 0 acc d1"
      "jvc_st d1 = JVC_STATE_CHECK_REPEAT" by auto
  from Cons.IH [OF d1(2,3)] Cons.prems(3) decode_run_trans [OF d1(1)] show ?case by fastforce
qed simp

section \<open>Properties\<close>

text \<open>
  A JVC message, and then the repeat frames the remote sends while the key is held (the same bits
  without the header), all received with every duration off by less than half a unit: the decoder
  presses exactly the key sent, with the toggle bit flipped from the previous message, and reports
  one repeat per repeat frame.
\<close>

theorem jvc_hold_key:
  assumes "bitrev_spec bitrev8" "jvc_ready d" "canonical_scancode RC_PROTO_JVC sc"
    "ir_jvc_encode bitrev8 RC_PROTO_JVC sc room = (es, Inr n)" "jittered jvc_tol es es'"
    "list_all (jittered jvc_tol (drop 2 es)) frames"
  shows "\<exists>d'. decode_run (ir_jvc_decode bitrev8) d (es' @ concat frames) =
      (d', Rc_keydown RC_PROTO_JVC sc (of_bool (\<not> jvc_toggle d)) # replicate (length frames) Rc_repeat) \<and> jvc_ready d'"
proof -
  note rev = bitrev_spec_eq [OF assms(1)]
  have "drop 2 es = jvc_frame (jvc_raw sc)"
    using jvc_encode_events [OF assms(4) [unfolded rev]] by simp
  with assms(6) have frames: "list_all (jittered jvc_tol (jvc_frame (jvc_raw sc))) frames" by simp
  from jvc_message_run [OF assms(2,3) assms(4) [unfolded rev] assms(5)] obtain d1 acc
    where d1: "decode_run (ir_jvc_decode word_reverse) d es' = (d1, [Rc_keydown RC_PROTO_JVC sc (of_bool (\<not> jvc_toggle d))])"
      "jvc_got False acc (\<not> jvc_toggle d) 0 acc d1" "jvc_st d1 = JVC_STATE_CHECK_REPEAT"
      "acc = shift_in (jvc_bits d) (msb_bits 16 (jvc_raw sc))" by blast
  from jvc_repeats [OF d1(2,4,3) frames] decode_run_trans [OF d1(1)] show ?thesis
    unfolding rev jvc_ready_def by fastforce
qed

lemma jvc_encode_ok:
  "\<exists>n es. ir_jvc_encode bitrev8 p sc 36 = (es, Inr n) \<and> jittered jvc_tol es es"
  unfolding ir_jvc_encode_def Let_def
  by (rule pd_encode_ok) (auto simp: ir_jvc_timings_def margin_nat ir_const)

theorem jvc_hold_key_witness:
  "\<exists>evs d'. decode_run (ir_jvc_decode word_reverse)
     \<lparr>jvc_st = JVC_STATE_INACTIVE, jvc_bits = 5, jvc_old_bits = 3, jvc_count = 9, jvc_first = False, jvc_toggle = True\<rparr>
     evs = (d', [Rc_keydown RC_PROTO_JVC 0xabcd 0, Rc_repeat, Rc_repeat])"
proof -
  let ?d = "\<lparr>jvc_st = JVC_STATE_INACTIVE, jvc_bits = 5, jvc_old_bits = 3, jvc_count = 9, jvc_first = False,
     jvc_toggle = True\<rparr>"
  obtain n es where es: "ir_jvc_encode word_reverse RC_PROTO_JVC 0xabcd 36 = (es, Inr n)" "jittered jvc_tol es es"
    using jvc_encode_ok by blast
  have "jittered jvc_tol (drop 2 es) (drop 2 es)"
    using es(2) unfolding jittered_def by (rule list_all2_dropI)
  moreover have "canonical_scancode RC_PROTO_JVC 0xabcd"
    by (simp add: canonical_scancode_def rc_validate_scancode_def)
  ultimately show ?thesis
    using jvc_hold_key [OF bitrev_spec_word_reverse _ _ es, of ?d "[drop 2 es, drop 2 es]"]
    by (auto simp: jvc_ready_def numeral_2_eq_2)
qed

end
