(* ===== verification/Ir_Sanyo.thy ===== *)
theory Ir_Sanyo
  imports Rc_Proto
begin

text \<open>
  The Sanyo handler, \<^verbatim>\<open>rc/ir-sanyo-decoder.c\<close>: NEC timings, 13 bits of address, the address
  inverted, 8 bits of command, the command inverted.
\<close>

section \<open>Constants and state\<close>

definition SANYO_NBITS :: nat where [ir_const]: "SANYO_NBITS = 13 + 13 + 8 + 8"
definition SANYO_UNIT :: u32 where [ir_const]: "SANYO_UNIT = 562500"
definition SANYO_HEADER_PULSE :: u32 where [ir_const]: "SANYO_HEADER_PULSE = 16 * SANYO_UNIT"
definition SANYO_HEADER_SPACE :: u32 where [ir_const]: "SANYO_HEADER_SPACE = 8 * SANYO_UNIT"
definition SANYO_BIT_PULSE :: u32 where [ir_const]: "SANYO_BIT_PULSE = 1 * SANYO_UNIT"
definition SANYO_BIT_0_SPACE :: u32 where [ir_const]: "SANYO_BIT_0_SPACE = 1 * SANYO_UNIT"
definition SANYO_BIT_1_SPACE :: u32 where [ir_const]: "SANYO_BIT_1_SPACE = 3 * SANYO_UNIT"
definition SANYO_REPEAT_SPACE :: u32 where [ir_const]: "SANYO_REPEAT_SPACE = 150 * SANYO_UNIT"
definition SANYO_TRAILER_PULSE :: u32 where [ir_const]: "SANYO_TRAILER_PULSE = 1 * SANYO_UNIT"
definition SANYO_TRAILER_SPACE :: u32 where [ir_const]: "SANYO_TRAILER_SPACE = 10 * SANYO_UNIT"

datatype sanyo_state = SANYO_STATE_INACTIVE | SANYO_STATE_HEADER_SPACE | SANYO_STATE_BIT_PULSE
  | SANYO_STATE_BIT_SPACE | SANYO_STATE_TRAILER_PULSE | SANYO_STATE_TRAILER_SPACE

record sanyo_dec =
  sanyo_st :: sanyo_state
  sanyo_count :: u32
  sanyo_bits :: u64

section \<open>Operations\<close>

definition sanyo_fail :: "sanyo_dec \<Rightarrow> sanyo_dec decoded" where
  "sanyo_fail d = (d\<lparr>sanyo_st := SANYO_STATE_INACTIVE\<rparr>, [], Inl EINVAL)"

definition ir_sanyo_decode :: "(u8 \<Rightarrow> u8) \<Rightarrow> (u16 \<Rightarrow> u16) \<Rightarrow> sanyo_dec decoder" where
  "ir_sanyo_decode bitrev8 bitrev16 d ev =
     (if \<not> is_timing_event ev then
        ((if ev_reset ev then d\<lparr>sanyo_st := SANYO_STATE_INACTIVE\<rparr> else d), [], Inr ())
      else
        case sanyo_st d of
          SANYO_STATE_INACTIVE \<Rightarrow>
            if \<not> pulse ev then sanyo_fail d
            else if eq_margin (duration ev) SANYO_HEADER_PULSE (SANYO_UNIT div 2) then
              (d\<lparr>sanyo_count := 0, sanyo_st := SANYO_STATE_HEADER_SPACE\<rparr>, [], Inr ())
            else sanyo_fail d
        | SANYO_STATE_HEADER_SPACE \<Rightarrow>
            if pulse ev then sanyo_fail d
            else if eq_margin (duration ev) SANYO_HEADER_SPACE (SANYO_UNIT div 2) then
              (d\<lparr>sanyo_st := SANYO_STATE_BIT_PULSE\<rparr>, [], Inr ())
            else sanyo_fail d
        | SANYO_STATE_BIT_PULSE \<Rightarrow>
            if \<not> pulse ev then sanyo_fail d
            else if \<not> eq_margin (duration ev) SANYO_BIT_PULSE (SANYO_UNIT div 2) then sanyo_fail d
            else (d\<lparr>sanyo_st := SANYO_STATE_BIT_SPACE\<rparr>, [], Inr ())
        | SANYO_STATE_BIT_SPACE \<Rightarrow>
            if pulse ev then sanyo_fail d
            else if sanyo_count d = 0 \<and> geq_margin (duration ev) SANYO_REPEAT_SPACE (SANYO_UNIT div 2) then
              (d\<lparr>sanyo_st := SANYO_STATE_INACTIVE\<rparr>, [Rc_repeat], Inr ())
            else
              let d = d\<lparr>sanyo_bits := push_bit 1 (sanyo_bits d)\<rparr>;
                  one = eq_margin (duration ev) SANYO_BIT_1_SPACE (SANYO_UNIT div 2);
                  d = (if one then d\<lparr>sanyo_bits := sanyo_bits d OR 1\<rparr> else d) in
              if \<not> one \<and> \<not> eq_margin (duration ev) SANYO_BIT_0_SPACE (SANYO_UNIT div 2) then sanyo_fail d
              else
                let d = d\<lparr>sanyo_count := sanyo_count d + 1\<rparr> in
                if sanyo_count d = of_nat SANYO_NBITS then
                  (d\<lparr>sanyo_st := SANYO_STATE_TRAILER_PULSE\<rparr>, [], Inr ())
                else (d\<lparr>sanyo_st := SANYO_STATE_BIT_PULSE\<rparr>, [], Inr ())
        | SANYO_STATE_TRAILER_PULSE \<Rightarrow>
            if \<not> pulse ev then sanyo_fail d
            else if \<not> eq_margin (duration ev) SANYO_TRAILER_PULSE (SANYO_UNIT div 2) then sanyo_fail d
            else (d\<lparr>sanyo_st := SANYO_STATE_TRAILER_SPACE\<rparr>, [], Inr ())
        | SANYO_STATE_TRAILER_SPACE \<Rightarrow>
            if pulse ev then sanyo_fail d
            else if \<not> geq_margin (duration ev) SANYO_TRAILER_SPACE (SANYO_UNIT div 2) then sanyo_fail d
            else
              let address = drop_bit 3 (bitrev16 (ucast (drop_bit 29 (sanyo_bits d) AND 0x1fff)));
                  command = bitrev8 (ucast (drop_bit 8 (sanyo_bits d) AND 0xff));
                  not_command = bitrev8 (ucast (drop_bit 0 (sanyo_bits d) AND 0xff)) in
              if command XOR not_command \<noteq> 0xff then (d\<lparr>sanyo_st := SANYO_STATE_INACTIVE\<rparr>, [], Inr ())
              else
                (d\<lparr>sanyo_st := SANYO_STATE_INACTIVE\<rparr>,
                 [Rc_keydown RC_PROTO_SANYO (push_bit 8 (ucast address) OR ucast command) 0], Inr ()))"

definition ir_sanyo_timings :: ir_raw_timings_pd where
  "ir_sanyo_timings =
     \<lparr>pd_header_pulse = SANYO_HEADER_PULSE, pd_header_space = SANYO_HEADER_SPACE,
      pd_bit_pulse = SANYO_BIT_PULSE,
      pd_bit_space = (\<lambda>b. if b then SANYO_BIT_1_SPACE else SANYO_BIT_0_SPACE),
      pd_trailer_pulse = SANYO_TRAILER_PULSE, pd_trailer_space = SANYO_TRAILER_SPACE,
      pd_msb_first = True\<rparr>"

definition ir_sanyo_encode ::
  "(u8 \<Rightarrow> u8) \<Rightarrow> (u16 \<Rightarrow> u16) \<Rightarrow> rc_proto \<Rightarrow> u32 \<Rightarrow> nat \<Rightarrow> ir_raw_event list \<times> nat result" where
  "ir_sanyo_encode bitrev8 bitrev16 protocol scancode room =
     (let raw = push_bit (8 + 8 + 13 - 3) (ucast (bitrev16 (ucast (drop_bit 8 scancode)) AND 0xfff8)) OR
            push_bit (8 + 8 + 0 - 3) (ucast (bitrev16 (ucast (drop_bit 8 (NOT scancode))) AND 0xfff8)) OR
            push_bit 8 (ucast (bitrev8 (ucast scancode) AND 0xff)) OR
            ucast (bitrev8 (ucast (NOT scancode)) AND 0xff) :: u64 in
      encode_result (ir_raw_gen_pd ([], room) ir_sanyo_timings SANYO_NBITS raw))"

section \<open>The decoder's invariant\<close>

definition sanyo_inv :: "sanyo_dec \<Rightarrow> bool" where
  "sanyo_inv d = (case sanyo_st d of
      SANYO_STATE_INACTIVE \<Rightarrow> True
    | SANYO_STATE_HEADER_SPACE \<Rightarrow> sanyo_count d = 0
    | SANYO_STATE_BIT_PULSE \<Rightarrow> sanyo_count d < 42
    | SANYO_STATE_BIT_SPACE \<Rightarrow> sanyo_count d < 42
    | SANYO_STATE_TRAILER_PULSE \<Rightarrow> sanyo_count d = 42
    | SANYO_STATE_TRAILER_SPACE \<Rightarrow> sanyo_count d = 42)"

definition sanyo_ready :: "sanyo_dec \<Rightarrow> bool" where
  "sanyo_ready d \<longleftrightarrow> sanyo_st d = SANYO_STATE_INACTIVE"

interpretation sanyo: ir_strict_decoder "ir_sanyo_decode bitrev8 bitrev16" sanyo_ready sanyo_inv
proof
  show "sanyo_inv d'" if "sanyo_inv d" "ir_sanyo_decode bitrev8 bitrev16 d ev = (d', as, r)" for d ev d' as r
    using that
    by (auto simp: ir_sanyo_decode_def sanyo_fail_def sanyo_inv_def Let_def SANYO_NBITS_def count_step
        split: sanyo_state.splits if_splits)
  show "\<exists>d'. ir_sanyo_decode bitrev8 bitrev16 d ev = (d', [], Inr ()) \<and> sanyo_ready d'" if "ev_reset ev" for ev d
    using that by (simp add: ir_sanyo_decode_def is_timing_event_def sanyo_ready_def)
  show "e = EINVAL \<and> as = [] \<and> sanyo_ready d'" if "ir_sanyo_decode bitrev8 bitrev16 d ev = (d', as, Inl e)"
    for d ev d' as e
    using that
    by (auto simp: ir_sanyo_decode_def sanyo_fail_def sanyo_ready_def Let_def
        split: sanyo_state.splits if_splits)
qed

section \<open>Reading what the encoder sends\<close>

definition sanyo_tol :: u32 where [ir_const]: "sanyo_tol = SANYO_UNIT div 2"

definition sanyo_got :: "nat \<Rightarrow> u64 \<Rightarrow> sanyo_dec \<Rightarrow> bool" where
  "sanyo_got k acc d \<longleftrightarrow> unat (sanyo_count d) = k \<and> sanyo_bits d = acc \<and>
     sanyo_st d = (if k = 42 then SANYO_STATE_TRAILER_PULSE else SANYO_STATE_BIT_PULSE)"

lemma sanyo_got_symbol:
  assumes "sanyo_got k acc d" "k < 42" "jittered sanyo_tol (pd_symbol ir_sanyo_timings b) es"
  shows "\<exists>d'. decode_run (ir_sanyo_decode bitrev8 bitrev16) d es = (d', []) \<and>
    sanyo_got (Suc k) (push_bit 1 acc OR of_bool b) d'"
proof -
  have cnt: "unat (sanyo_count d + 1) = Suc k" "sanyo_count d + 1 = 42 \<longleftrightarrow> Suc k = 42"
    using assms by (simp_all add: sanyo_got_def unat_inc inc_eq_iff)
  from assms(3) obtain e1 e2 where es: "es = [e1, e2]" "pulse e1" "\<not> pulse e2"
    "is_timing_event e1" "is_timing_event e2" "eq_margin (duration e1) SANYO_BIT_PULSE sanyo_tol"
    "eq_margin (duration e2) (if b then SANYO_BIT_1_SPACE else SANYO_BIT_0_SPACE) sanyo_tol"
    by (auto simp: pd_symbol_def ir_sanyo_timings_def jittered_Cons)
  from es(7) have "eq_margin (duration e2) SANYO_BIT_1_SPACE (SANYO_UNIT div 2) = b"
    "eq_margin (duration e2) SANYO_BIT_0_SPACE (SANYO_UNIT div 2) = (\<not> b)"
    "\<not> geq_margin (duration e2) SANYO_REPEAT_SPACE (SANYO_UNIT div 2)"
    by (cases b; simp add: margin_nat ir_const)+
  with es assms(1,2) cnt show ?thesis
    by (cases b) (simp_all add: ir_sanyo_decode_def sanyo_got_def sanyo_tol_def Let_def SANYO_NBITS_def)
qed

interpretation sanyo_receiver: ir_receiver "ir_sanyo_decode bitrev8 bitrev16" sanyo_tol "pd_symbol ir_sanyo_timings"
  "\<lambda>a b. push_bit 1 a OR of_bool b" 42 sanyo_got
  by unfold_locales (rule sanyo_got_symbol)

definition sanyo_raw :: "u32 \<Rightarrow> u64" where
  "sanyo_raw sc = push_bit 26 (ucast (word_reverse (ucast (drop_bit 8 sc) :: u16) AND 0xfff8)) OR
     push_bit 13 (ucast (word_reverse (ucast (drop_bit 8 (NOT sc)) :: u16) AND 0xfff8)) OR
     push_bit 8 (ucast (word_reverse (ucast sc :: u8) AND 0xff)) OR ucast (word_reverse (ucast (NOT sc) :: u8) AND 0xff)"

lemma sanyo_timings_sel [simp]:
  "pd_header_pulse ir_sanyo_timings = SANYO_HEADER_PULSE" "pd_header_space ir_sanyo_timings = SANYO_HEADER_SPACE"
  "pd_trailer_pulse ir_sanyo_timings = SANYO_TRAILER_PULSE" "pd_trailer_space ir_sanyo_timings = SANYO_TRAILER_SPACE"
  "pd_msb_first ir_sanyo_timings"
  by (simp_all add: ir_sanyo_timings_def)

lemma sanyo_encode_events:
  "ir_sanyo_encode word_reverse word_reverse p sc room = (es, Inr n) \<Longrightarrow>
   es = [init_ir_raw_event_duration True SANYO_HEADER_PULSE, init_ir_raw_event_duration False SANYO_HEADER_SPACE] @
     pd_events ir_sanyo_timings (msb_bits 42 (sanyo_raw sc)) @
     [init_ir_raw_event_duration True SANYO_TRAILER_PULSE, init_ir_raw_event_duration False SANYO_TRAILER_SPACE]"
proof -
  have "SANYO_HEADER_PULSE \<noteq> 0" by (simp add: ir_const)
  moreover have "ir_sanyo_encode word_reverse word_reverse p sc room =
      encode_result (ir_raw_gen_pd ([], room) ir_sanyo_timings 42 (sanyo_raw sc))"
    by (simp add: ir_sanyo_encode_def sanyo_raw_def Let_def SANYO_NBITS_def)
  moreover assume "ir_sanyo_encode word_reverse word_reverse p sc room = (es, Inr n)"
  ultimately show ?thesis by (auto simp: gen_pd_emit encode_result_emit split: if_splits)
qed

lemma sanyo_register:
  fixes bits acc :: u64
  assumes "canonical_scancode RC_PROTO_SANYO sc" "bits = shift_in acc (msb_bits 42 (sanyo_raw sc))"
  shows "word_reverse (ucast (drop_bit 8 bits AND 0xff) :: u8) XOR
      word_reverse (ucast (drop_bit 0 bits AND 0xff) :: u8) = 0xff"
    "push_bit 8 (ucast (drop_bit 3 (word_reverse (ucast (drop_bit 29 bits AND 0x1fff) :: u16)))) OR
      ucast (word_reverse (ucast (drop_bit 8 bits AND 0xff) :: u8)) = sc"
proof -
  have b: "bit bits i = bit (sanyo_raw sc) i" if "i < 42" for i
    using that by (simp add: assms(2) bit_shift_in_msb)
  have cmd: "word_reverse (ucast (drop_bit 8 bits AND 0xff) :: u8) = ucast sc"
    "word_reverse (ucast (drop_bit 0 bits AND 0xff) :: u8) = NOT (ucast sc)"
    by (rule u8_eqI, unfold upt_8, simp add: bit_simps b sanyo_raw_def del: bit_0)+
  show "word_reverse (ucast (drop_bit 8 bits AND 0xff) :: u8) XOR
      word_reverse (ucast (drop_bit 0 bits AND 0xff) :: u8) = 0xff"
    unfolding cmd by (rule bit_word_eqI) (auto simp: bit_simps mask_ff)
  show "push_bit 8 (ucast (drop_bit 3 (word_reverse (ucast (drop_bit 29 bits AND 0x1fff) :: u16)))) OR
      ucast (word_reverse (ucast (drop_bit 8 bits AND 0xff) :: u8)) = sc"
    unfolding cmd by (rule u32_eqI, unfold upt_32)
      (auto simp: bit_simps b sanyo_raw_def simp del: bit_0 dest: canonical_bit [OF assms(1)])
qed

lemma sanyo_roundtrip:
  assumes "sanyo_ready d" "canonical_scancode RC_PROTO_SANYO sc"
    "ir_sanyo_encode word_reverse word_reverse p sc room = (es, Inr n)" "jittered sanyo_tol es es'"
  shows "\<exists>d'. decode_run (ir_sanyo_decode word_reverse word_reverse) d es' = (d', [Rc_keydown RC_PROTO_SANYO sc 0]) \<and>
    sanyo_ready d'"
proof -
  define bs where "bs = msb_bits 42 (sanyo_raw sc)"
  let ?run = "decode_run (ir_sanyo_decode word_reverse word_reverse)"
  from assms(3,4) obtain e1 e2 zs e3 e4 where es': "es' = [e1, e2] @ zs @ [e3, e4]"
    and zs: "jittered sanyo_tol (pd_events ir_sanyo_timings bs) zs"
    and hd: "pulse e1" "\<not> pulse e2" "is_timing_event e1" "is_timing_event e2"
      "eq_margin (duration e1) SANYO_HEADER_PULSE sanyo_tol" "eq_margin (duration e2) SANYO_HEADER_SPACE sanyo_tol"
    and tl: "pulse e3" "\<not> pulse e4" "is_timing_event e3" "is_timing_event e4"
      "eq_margin (duration e3) SANYO_TRAILER_PULSE sanyo_tol" "eq_margin (duration e4) SANYO_TRAILER_SPACE sanyo_tol"
    unfolding bs_def by (auto dest!: sanyo_encode_events simp: jittered_Cons jittered_append)
  obtain d1 where d1: "?run d [e1, e2] = (d1, [])" "sanyo_got 0 (sanyo_bits d) d1"
    using hd assms(1) by (simp add: ir_sanyo_decode_def sanyo_ready_def sanyo_got_def sanyo_tol_def)
  have "length bs = 42" by (simp add: bs_def)
  then obtain d2 where d2: "?run d1 zs = (d2, [])" "sanyo_got 42 (shift_in (sanyo_bits d) bs) d2"
    using sanyo_receiver.got_symbols [OF d1(2) _ zs] by (auto simp: shift_in_def)
  have "geq_margin (duration e4) SANYO_TRAILER_SPACE (SANYO_UNIT div 2)"
    using tl by (simp add: margin_nat ir_const)
  then obtain d3 where "?run d2 [e3, e4] = (d3, [Rc_keydown RC_PROTO_SANYO sc 0])" "sanyo_ready d3"
    using tl d2(2) sanyo_register [OF assms(2) d2(2) [unfolded sanyo_got_def bs_def, THEN conjunct2, THEN conjunct1]]
    by (simp add: ir_sanyo_decode_def sanyo_got_def sanyo_ready_def sanyo_tol_def Let_def)
  with decode_run_trans [OF d1(1) decode_run_trans [OF d2(1)]] show ?thesis by (auto simp: es')
qed

interpretation sanyo_codec: ir_codec "ir_sanyo_decode word_reverse word_reverse" sanyo_ready sanyo_inv
  "ir_sanyo_encode word_reverse word_reverse" "\<lambda>p sc. p = RC_PROTO_SANYO \<and> canonical_scancode p sc" sanyo_tol
  by unfold_locales (use sanyo_roundtrip in blast)

text \<open>
  A sequence of Sanyo messages sent with \<^verbatim>\<open>ir_sanyo_encode\<close>, each received with every duration
  off by less than half a unit, is decoded by \<^verbatim>\<open>ir_sanyo_decode\<close> as exactly the key presses sent,
  in order: 13 bits of address and 8 of command survive, and the inverted command passes the check.
\<close>

theorem sanyo_stream_roundtrip:
  assumes "bitrev_spec bitrev8" "bitrev_spec bitrev16" "sanyo_inv d" "sanyo_ready d"
    "\<forall>(p, sc) \<in> set msgs. p = RC_PROTO_SANYO \<and> canonical_scancode p sc"
    "transmitted (ir_sanyo_encode bitrev8 bitrev16) sanyo_tol msgs evs"
  shows "\<exists>d' as. decode_run (ir_sanyo_decode bitrev8 bitrev16) d evs = (d', as) \<and> key_presses msgs as \<and> sanyo_ready d'"
  using sanyo_codec.stream_roundtrip [OF assms(3-5)] assms(6)
  by (simp add: bitrev_spec_eq [OF assms(1)] bitrev_spec_eq [OF assms(2)])

lemma sanyo_encode_ok:
  "\<exists>n es. ir_sanyo_encode bitrev8 bitrev16 p sc 88 = (es, Inr n) \<and> jittered sanyo_tol es es"
  unfolding ir_sanyo_encode_def Let_def
  by (rule pd_encode_ok) (auto simp: ir_sanyo_timings_def margin_nat ir_const)

theorem sanyo_stream_roundtrip_witness:
  "\<exists>evs d' as. decode_run (ir_sanyo_decode word_reverse word_reverse)
       \<lparr>sanyo_st = SANYO_STATE_INACTIVE, sanyo_count = 3, sanyo_bits = 77\<rparr> evs = (d', as) \<and>
     key_presses [(RC_PROTO_SANYO, 0x1abcde), (RC_PROTO_SANYO, 0x10)] as"
proof -
  let ?d = "\<lparr>sanyo_st = SANYO_STATE_INACTIVE, sanyo_count = 3, sanyo_bits = 77\<rparr>"
  let ?msgs = "[(RC_PROTO_SANYO, 0x1abcde), (RC_PROTO_SANYO, 0x10)]"
  let ?enc = "ir_sanyo_encode word_reverse word_reverse"
  obtain n1 es1 n2 es2 where "?enc RC_PROTO_SANYO 0x1abcde 88 = (es1, Inr n1)" "jittered sanyo_tol es1 es1"
    "?enc RC_PROTO_SANYO 0x10 88 = (es2, Inr n2)" "jittered sanyo_tol es2 es2"
    using sanyo_encode_ok by metis
  then have "transmitted ?enc sanyo_tol ?msgs (es1 @ es2 @ [])" by (intro transmittedI; simp)
  moreover have "\<forall>(p, sc) \<in> set ?msgs. p = RC_PROTO_SANYO \<and> canonical_scancode p sc"
    by (simp add: canonical_scancode_def rc_validate_scancode_def)
  ultimately show ?thesis
    using sanyo_stream_roundtrip [OF bitrev_spec_word_reverse bitrev_spec_word_reverse, of ?d ?msgs "es1 @ es2 @ []"]
    by (simp only: sanyo_inv_def sanyo_ready_def sanyo_dec.simps sanyo_state.simps) blast
qed

end
