(* ===== verification/Ir_Sharp.thy ===== *)
theory Ir_Sharp
  imports Rc_Proto
begin

text \<open>
  The Sharp handler, \<^verbatim>\<open>rc/ir-sharp-decoder.c\<close>: a message of 15 bits without a header, followed by
  an echo with the command bits inverted. The decoder measures the period of a bit, pulse and space
  together.
\<close>

section \<open>Constants and state\<close>

definition SHARP_NBITS :: nat where [ir_const]: "SHARP_NBITS = 15"
definition SHARP_UNIT :: u32 where [ir_const]: "SHARP_UNIT = 40000"
definition SHARP_BIT_PULSE :: u32 where [ir_const]: "SHARP_BIT_PULSE = 8 * SHARP_UNIT"
definition SHARP_BIT_0_PERIOD :: u32 where [ir_const]: "SHARP_BIT_0_PERIOD = 25 * SHARP_UNIT"
definition SHARP_BIT_1_PERIOD :: u32 where [ir_const]: "SHARP_BIT_1_PERIOD = 50 * SHARP_UNIT"
definition SHARP_ECHO_SPACE :: u32 where [ir_const]: "SHARP_ECHO_SPACE = 1000 * SHARP_UNIT"
definition SHARP_TRAILER_SPACE :: u32 where [ir_const]: "SHARP_TRAILER_SPACE = 125 * SHARP_UNIT"

datatype sharp_state = SHARP_STATE_INACTIVE | SHARP_STATE_BIT_PULSE | SHARP_STATE_BIT_SPACE
  | SHARP_STATE_TRAILER_PULSE | SHARP_STATE_ECHO_SPACE | SHARP_STATE_TRAILER_SPACE

record sharp_dec =
  sharp_st :: sharp_state
  sharp_count :: u32
  sharp_bits :: u32
  sharp_pulse_len :: u32

section \<open>Operations\<close>

definition sharp_fail :: "sharp_dec \<Rightarrow> sharp_dec decoded" where
  "sharp_fail d = (d\<lparr>sharp_st := SHARP_STATE_INACTIVE\<rparr>, [], Inl EINVAL)"

definition ir_sharp_decode :: "(u8 \<Rightarrow> u8) \<Rightarrow> sharp_dec decoder" where
  "ir_sharp_decode bitrev8 d ev =
     (if \<not> is_timing_event ev then
        ((if ev_reset ev then d\<lparr>sharp_st := SHARP_STATE_INACTIVE\<rparr> else d), [], Inr ())
      else
        case sharp_st d of
          SHARP_STATE_INACTIVE \<Rightarrow>
            if \<not> pulse ev then sharp_fail d
            else if \<not> eq_margin (duration ev) SHARP_BIT_PULSE (SHARP_BIT_PULSE div 2) then sharp_fail d
            else (d\<lparr>sharp_count := 0, sharp_pulse_len := duration ev, sharp_st := SHARP_STATE_BIT_SPACE\<rparr>, [], Inr ())
        | SHARP_STATE_BIT_PULSE \<Rightarrow>
            if \<not> pulse ev then sharp_fail d
            else if \<not> eq_margin (duration ev) SHARP_BIT_PULSE (SHARP_BIT_PULSE div 2) then sharp_fail d
            else (d\<lparr>sharp_pulse_len := duration ev, sharp_st := SHARP_STATE_BIT_SPACE\<rparr>, [], Inr ())
        | SHARP_STATE_BIT_SPACE \<Rightarrow>
            if pulse ev then sharp_fail d
            else
              let d = d\<lparr>sharp_bits := push_bit 1 (sharp_bits d)\<rparr>;
                  one = eq_margin (sharp_pulse_len d + duration ev) SHARP_BIT_1_PERIOD (SHARP_BIT_PULSE * 2);
                  d = (if one then d\<lparr>sharp_bits := sharp_bits d OR 1\<rparr> else d) in
              if \<not> one \<and> \<not> eq_margin (sharp_pulse_len d + duration ev) SHARP_BIT_0_PERIOD (SHARP_BIT_PULSE * 2)
              then sharp_fail d
              else
                let d = d\<lparr>sharp_count := sharp_count d + 1\<rparr> in
                if sharp_count d = of_nat SHARP_NBITS \<or> sharp_count d = of_nat (SHARP_NBITS * 2) then
                  (d\<lparr>sharp_st := SHARP_STATE_TRAILER_PULSE\<rparr>, [], Inr ())
                else (d\<lparr>sharp_st := SHARP_STATE_BIT_PULSE\<rparr>, [], Inr ())
        | SHARP_STATE_TRAILER_PULSE \<Rightarrow>
            if \<not> pulse ev then sharp_fail d
            else if \<not> eq_margin (duration ev) SHARP_BIT_PULSE (SHARP_BIT_PULSE div 2) then sharp_fail d
            else if sharp_count d = of_nat SHARP_NBITS then
              if sharp_bits d AND 0x3 \<noteq> 0x2 \<and> sharp_bits d AND 0x3 \<noteq> 0x0 then sharp_fail d
              else (d\<lparr>sharp_st := SHARP_STATE_ECHO_SPACE\<rparr>, [], Inr ())
            else (d\<lparr>sharp_st := SHARP_STATE_TRAILER_SPACE\<rparr>, [], Inr ())
        | SHARP_STATE_ECHO_SPACE \<Rightarrow>
            if pulse ev then sharp_fail d
            else if \<not> eq_margin (duration ev) SHARP_ECHO_SPACE (SHARP_ECHO_SPACE div 4) then sharp_fail d
            else (d\<lparr>sharp_st := SHARP_STATE_BIT_PULSE\<rparr>, [], Inr ())
        | SHARP_STATE_TRAILER_SPACE \<Rightarrow>
            if pulse ev then sharp_fail d
            else if \<not> geq_margin (duration ev) SHARP_TRAILER_SPACE (SHARP_BIT_PULSE div 2) then sharp_fail d
            else
              let msg = drop_bit 15 (sharp_bits d) AND 0x7fff;
                  echo = sharp_bits d AND 0x7fff in
              if msg XOR echo \<noteq> 0x3ff then sharp_fail d
              else
                let address = ucast (bitrev8 (ucast (drop_bit 7 msg AND 0xf8)));
                    command = ucast (bitrev8 (ucast (drop_bit 2 msg AND 0xff))) in
                (d\<lparr>sharp_st := SHARP_STATE_INACTIVE\<rparr>,
                 [Rc_keydown RC_PROTO_SHARP (push_bit 8 address OR command) 0], Inr ()))"

definition ir_sharp_timings :: ir_raw_timings_pd where
  "ir_sharp_timings =
     \<lparr>pd_header_pulse = 0, pd_header_space = 0, pd_bit_pulse = SHARP_BIT_PULSE,
      pd_bit_space = (\<lambda>b. if b then SHARP_BIT_1_PERIOD else SHARP_BIT_0_PERIOD),
      pd_trailer_pulse = SHARP_BIT_PULSE, pd_trailer_space = SHARP_ECHO_SPACE,
      pd_msb_first = True\<rparr>"

text \<open>
  The encoder lowers \<^verbatim>\<open>max\<close> by the return value of the first call, which is 0 on success, so the
  second call is given the room of the whole array again.
\<close>

definition ir_sharp_encode ::
  "(u8 \<Rightarrow> u8) \<Rightarrow> rc_proto \<Rightarrow> u32 \<Rightarrow> nat \<Rightarrow> ir_raw_event list \<times> nat result" where
  "ir_sharp_encode bitrev8 protocol scancode room =
     (let raw = (push_bit 8 (drop_bit 3 (ucast (bitrev8 (ucast (drop_bit 8 scancode))))) AND 0x1f00) OR
            ucast (bitrev8 (ucast scancode)) :: u32 in
      case ir_raw_gen_pd ([], room) ir_sharp_timings SHARP_NBITS (ucast (push_bit 2 raw OR 2)) of
        ((evs, _), Some e) \<Rightarrow> (evs, Inl e)
      | ((evs, _), None) \<Rightarrow>
          let raw = (push_bit 8 (drop_bit 3 (ucast (bitrev8 (ucast (drop_bit 8 scancode))))) AND 0x1f00) OR
                ucast (bitrev8 (ucast (NOT scancode))) :: u32 in
          encode_result (ir_raw_gen_pd (evs, room) ir_sharp_timings SHARP_NBITS (ucast (push_bit 2 raw OR 1))))"

section \<open>The decoder's invariant\<close>

definition sharp_inv :: "sharp_dec \<Rightarrow> bool" where
  "sharp_inv d = (case sharp_st d of
      SHARP_STATE_INACTIVE \<Rightarrow> True
    | SHARP_STATE_BIT_PULSE \<Rightarrow> sharp_count d < 30
    | SHARP_STATE_BIT_SPACE \<Rightarrow> sharp_count d < 30
    | SHARP_STATE_TRAILER_PULSE \<Rightarrow> sharp_count d = 15 \<or> sharp_count d = 30
    | SHARP_STATE_ECHO_SPACE \<Rightarrow> sharp_count d = 15
    | SHARP_STATE_TRAILER_SPACE \<Rightarrow> sharp_count d = 30)"

definition sharp_ready :: "sharp_dec \<Rightarrow> bool" where
  "sharp_ready d \<longleftrightarrow> sharp_st d = SHARP_STATE_INACTIVE"

interpretation sharp: ir_strict_decoder "ir_sharp_decode bitrev8" sharp_ready sharp_inv
proof
  show "sharp_inv d'" if "sharp_inv d" "ir_sharp_decode bitrev8 d ev = (d', as, r)" for d ev d' as r
    using that
    by (auto simp: ir_sharp_decode_def sharp_fail_def sharp_inv_def Let_def SHARP_NBITS_def count_step
        split: sharp_state.splits if_splits)
  show "\<exists>d'. ir_sharp_decode bitrev8 d ev = (d', [], Inr ()) \<and> sharp_ready d'" if "ev_reset ev" for ev d
    using that by (simp add: ir_sharp_decode_def is_timing_event_def sharp_ready_def)
  show "e = EINVAL \<and> as = [] \<and> sharp_ready d'" if "ir_sharp_decode bitrev8 d ev = (d', as, Inl e)"
    for d ev d' as e
    using that
    by (auto simp: ir_sharp_decode_def sharp_fail_def sharp_ready_def Let_def
        split: sharp_state.splits if_splits)
qed

section \<open>Reading what the encoder sends\<close>

text \<open>
  The encoder sends the whole bit period as the space, so a bit lasts a pulse longer than its
  period; a zero then stays apart from a one only when each duration is off by less than half a unit.
\<close>

definition sharp_tol :: u32 where [ir_const]: "sharp_tol = SHARP_UNIT div 2"

text \<open>\<open>base + k\<close> bits read, of the message (\<open>base = 0\<close>) or of its echo (\<open>base = 15\<close>).\<close>

definition sharp_got :: "nat \<Rightarrow> nat \<Rightarrow> u32 \<Rightarrow> sharp_dec \<Rightarrow> bool" where
  "sharp_got base k acc d \<longleftrightarrow> sharp_bits d = acc \<and> (base + k \<noteq> 0 \<longrightarrow> unat (sharp_count d) = base + k) \<and>
     sharp_st d = (if base + k = 0 then SHARP_STATE_INACTIVE
       else if k = 15 then SHARP_STATE_TRAILER_PULSE else SHARP_STATE_BIT_PULSE)"

lemma sharp_bit_time:
  assumes "eq_margin p SHARP_BIT_PULSE sharp_tol"
    "eq_margin s (if b then SHARP_BIT_1_PERIOD else SHARP_BIT_0_PERIOD) sharp_tol"
  shows "eq_margin (p + s) SHARP_BIT_1_PERIOD (SHARP_BIT_PULSE * 2) = b"
    "eq_margin (p + s) SHARP_BIT_0_PERIOD (SHARP_BIT_PULSE * 2) = (\<not> b)"
proof -
  have "unat (p + s) = unat p + unat s"
    using assms by (intro unat_add_lem [THEN iffD1]) (cases b; simp add: margin_nat ir_const)
  then show "eq_margin (p + s) SHARP_BIT_1_PERIOD (SHARP_BIT_PULSE * 2) = b"
    "eq_margin (p + s) SHARP_BIT_0_PERIOD (SHARP_BIT_PULSE * 2) = (\<not> b)"
    using assms by (cases b; simp add: margin_nat ir_const)+
qed

lemma sharp_got_symbol:
  assumes got: "sharp_got base k acc d" "k < 15" "base = 0 \<or> base = 15"
    and jit: "jittered sharp_tol (pd_symbol ir_sharp_timings b) es"
  shows "\<exists>d'. decode_run (ir_sharp_decode bitrev8) d es = (d', []) \<and>
    sharp_got base (Suc k) (push_bit 1 acc OR of_bool b) d'"
proof -
  from jit obtain e1 e2 where es: "es = [e1, e2]" "pulse e1" "\<not> pulse e2"
    "is_timing_event e1" "is_timing_event e2" "eq_margin (duration e1) SHARP_BIT_PULSE sharp_tol"
    "eq_margin (duration e2) (if b then SHARP_BIT_1_PERIOD else SHARP_BIT_0_PERIOD) sharp_tol"
    by (auto simp: pd_symbol_def ir_sharp_timings_def jittered_Cons)
  let ?c = "if base + k = 0 then 0 else sharp_count d"
  let ?d1 = "d\<lparr>sharp_count := ?c, sharp_pulse_len := duration e1, sharp_st := SHARP_STATE_BIT_SPACE\<rparr>"
  have "eq_margin (duration e1) SHARP_BIT_PULSE (SHARP_BIT_PULSE div 2)"
    using es(6) by (simp add: margin_nat ir_const)
  then have s1: "ir_sharp_decode bitrev8 d e1 = (?d1, [], Inr ())"
    using got es by (auto simp: sharp_got_def ir_sharp_decode_def)
  have c: "unat ?c = base + k" using got by (simp add: sharp_got_def)
  then have cnt: "unat (?c + 1) = base + Suc k" "?c + 1 = 15 \<longleftrightarrow> base + Suc k = 15" "?c + 1 = 30 \<longleftrightarrow> base + Suc k = 30"
    using got(2,3) unat_inc [of ?c] inc_eq_iff [of ?c 15] inc_eq_iff [of ?c 30] by auto
  have "ir_sharp_decode bitrev8 ?d1 e2 = (?d1\<lparr>sharp_bits := push_bit 1 acc OR of_bool b, sharp_count := ?c + 1,
      sharp_st := if Suc k = 15 then SHARP_STATE_TRAILER_PULSE else SHARP_STATE_BIT_PULSE\<rparr>, [], Inr ())"
    using es got(2,3) cnt(2,3) sharp_bit_time [OF es(6,7)] got(1)
    by (cases b) (auto simp: ir_sharp_decode_def Let_def SHARP_NBITS_def sharp_got_def simp del: One_nat_def)
  then show ?thesis using s1 cnt(1) by (simp add: es(1) sharp_got_def)
qed

interpretation sharp_msg: ir_receiver "ir_sharp_decode bitrev8" sharp_tol "pd_symbol ir_sharp_timings"
  "\<lambda>a b. push_bit 1 a OR of_bool b" 15 "sharp_got 0"
  by unfold_locales (rule sharp_got_symbol; simp)

interpretation sharp_echo: ir_receiver "ir_sharp_decode bitrev8" sharp_tol "pd_symbol ir_sharp_timings"
  "\<lambda>a b. push_bit 1 a OR of_bool b" 15 "sharp_got 15"
  by unfold_locales (rule sharp_got_symbol; simp)

definition sharp_raw :: "u32 \<Rightarrow> u32" where
  "sharp_raw sc = push_bit 2 ((push_bit 8 (drop_bit 3 (ucast (word_reverse (ucast (drop_bit 8 sc) :: u8)))) AND 0x1f00) OR
     ucast (word_reverse (ucast sc :: u8))) OR 2"

definition sharp_raw_echo :: "u32 \<Rightarrow> u32" where
  "sharp_raw_echo sc = push_bit 2 ((push_bit 8 (drop_bit 3 (ucast (word_reverse (ucast (drop_bit 8 sc) :: u8)))) AND 0x1f00) OR
     ucast (word_reverse (ucast (NOT sc) :: u8))) OR 1"

definition sharp_frame :: "u32 \<Rightarrow> ir_raw_event list" where
  "sharp_frame raw = pd_events ir_sharp_timings (msb_bits 15 raw) @
     [init_ir_raw_event_duration True SHARP_BIT_PULSE, init_ir_raw_event_duration False SHARP_ECHO_SPACE]"

lemma sharp_gen_pd:
  "ir_raw_gen_pd s ir_sharp_timings 15 (ucast raw) = emit s (sharp_frame raw)"
  unfolding gen_pd_emit by (simp add: sharp_frame_def) (simp add: ir_sharp_timings_def)

lemma length_sharp_frame [simp]: "length (sharp_frame raw) = 32"
  by (simp add: sharp_frame_def)

lemma sharp_encode_eq:
  "ir_sharp_encode word_reverse p sc room =
     (if room < 32 then (take room (sharp_frame (sharp_raw sc)), Inl ENOBUFS)
      else (sharp_frame (sharp_raw sc) @ sharp_frame (sharp_raw_echo sc), Inr 64))"
  by (simp add: ir_sharp_encode_def SHARP_NBITS_def sharp_gen_pd Let_def emit_def encode_result_def
      sharp_raw_def sharp_raw_echo_def)

lemma sharp_register:
  fixes bits acc :: u32
  assumes c: "canonical_scancode RC_PROTO_SHARP sc"
    and bits: "bits = shift_in (shift_in acc (msb_bits 15 (sharp_raw sc))) (msb_bits 15 (sharp_raw_echo sc))"
  shows "(drop_bit 15 bits AND 0x7fff) XOR (bits AND 0x7fff) = 0x3ff"
    "push_bit 8 (ucast (word_reverse (ucast (drop_bit 7 (drop_bit 15 bits AND 0x7fff) AND 0xf8) :: u8))) OR
      ucast (word_reverse (ucast (drop_bit 2 (drop_bit 15 bits AND 0x7fff) AND 0xff) :: u8)) = sc"
proof -
  have b: "bit bits i = (if i < 15 then bit (sharp_raw_echo sc) i else bit (sharp_raw sc) (i - 15))" if "i < 30" for i
    using that by (auto simp: bits bit_shift_in_msb)
  show "(drop_bit 15 bits AND 0x7fff) XOR (bits AND 0x7fff) = 0x3ff"
    by (rule u32_eqI, unfold upt_32) (simp add: bit_simps b sharp_raw_def sharp_raw_echo_def del: bit_0)
  show "push_bit 8 (ucast (word_reverse (ucast (drop_bit 7 (drop_bit 15 bits AND 0x7fff) AND 0xf8) :: u8))) OR
      ucast (word_reverse (ucast (drop_bit 2 (drop_bit 15 bits AND 0x7fff) AND 0xff) :: u8)) = sc"
    by (rule u32_eqI, unfold upt_32)
       (auto simp: bit_simps b sharp_raw_def simp del: bit_0 dest: canonical_bit [OF c])
qed

text \<open>The two low bits of a message (\<^verbatim>\<open>exp\<close>, \<^verbatim>\<open>chk\<close>) are 1, 0.\<close>

lemma sharp_raw_check: "shift_in (acc :: u32) (msb_bits 15 (sharp_raw sc)) AND 0x3 = 0x2"
  by (rule u32_eqI, unfold upt_32) (simp add: bit_simps bit_shift_in_msb sharp_raw_def del: bit_0)

lemma sharp_frame_split:
  assumes "jittered sharp_tol (sharp_frame raw) es"
  obtains ys e3 e4 where "es = ys @ [e3, e4]"
    "jittered sharp_tol (pd_events ir_sharp_timings (msb_bits 15 raw)) ys"
    "pulse e3" "\<not> pulse e4" "is_timing_event e3" "is_timing_event e4"
    "eq_margin (duration e3) SHARP_BIT_PULSE (SHARP_BIT_PULSE div 2)"
    "eq_margin (duration e4) SHARP_ECHO_SPACE (SHARP_ECHO_SPACE div 4)"
    "geq_margin (duration e4) SHARP_TRAILER_SPACE (SHARP_BIT_PULSE div 2)"
proof -
  from assms obtain ys e3 e4 where "es = ys @ [e3, e4]"
    "jittered sharp_tol (pd_events ir_sharp_timings (msb_bits 15 raw)) ys"
    "pulse e3" "\<not> pulse e4" "is_timing_event e3" "is_timing_event e4"
    and m: "eq_margin (duration e3) SHARP_BIT_PULSE sharp_tol" "eq_margin (duration e4) SHARP_ECHO_SPACE sharp_tol"
    by (auto simp: sharp_frame_def jittered_append jittered_Cons)
  moreover from m have "eq_margin (duration e3) SHARP_BIT_PULSE (SHARP_BIT_PULSE div 2)"
    "eq_margin (duration e4) SHARP_ECHO_SPACE (SHARP_ECHO_SPACE div 4)"
    "geq_margin (duration e4) SHARP_TRAILER_SPACE (SHARP_BIT_PULSE div 2)"
    by (simp_all add: margin_nat ir_const)
  ultimately show thesis using that by blast
qed

lemma sharp_message_run:
  assumes "sharp_ready d" "jittered sharp_tol (sharp_frame (sharp_raw sc)) es"
  shows "\<exists>d'. decode_run (ir_sharp_decode bitrev8) d es = (d', []) \<and>
    sharp_got 15 0 (shift_in (sharp_bits d) (msb_bits 15 (sharp_raw sc))) d'"
proof -
  obtain ys e3 e4 where es: "es = ys @ [e3, e4]"
    "jittered sharp_tol (pd_events ir_sharp_timings (msb_bits 15 (sharp_raw sc))) ys"
    and tl: "pulse e3" "\<not> pulse e4" "is_timing_event e3" "is_timing_event e4"
    "eq_margin (duration e3) SHARP_BIT_PULSE (SHARP_BIT_PULSE div 2)"
    "eq_margin (duration e4) SHARP_ECHO_SPACE (SHARP_ECHO_SPACE div 4)"
    by (rule sharp_frame_split [OF assms(2)])
  have "sharp_got 0 0 (sharp_bits d) d" using assms(1) by (simp add: sharp_got_def sharp_ready_def)
  from sharp_msg.got_symbols [OF this _ es(2)] obtain d1
    where d1: "decode_run (ir_sharp_decode bitrev8) d ys = (d1, [])"
      "sharp_got 0 15 (shift_in (sharp_bits d) (msb_bits 15 (sharp_raw sc))) d1"
    by (auto simp: shift_in_def)
  have "sharp_count d1 = 15" "sharp_bits d1 AND 0x3 = 0x2"
    using d1(2) sharp_raw_check by (simp_all add: sharp_got_def word_unat_eq_iff [of _ 15])
  then have "\<exists>d'. decode_run (ir_sharp_decode bitrev8) d1 [e3, e4] = (d', []) \<and>
      sharp_got 15 0 (shift_in (sharp_bits d) (msb_bits 15 (sharp_raw sc))) d'"
    using tl d1(2) by (simp add: ir_sharp_decode_def sharp_got_def SHARP_NBITS_def)
  with decode_run_trans [OF d1(1)] show ?thesis unfolding es(1) by fastforce
qed

lemma sharp_echo_run:
  assumes "canonical_scancode RC_PROTO_SHARP sc" "sharp_got 15 0 (shift_in acc (msb_bits 15 (sharp_raw sc))) d"
    "jittered sharp_tol (sharp_frame (sharp_raw_echo sc)) es"
  shows "\<exists>d'. decode_run (ir_sharp_decode word_reverse) d es = (d', [Rc_keydown RC_PROTO_SHARP sc 0]) \<and> sharp_ready d'"
proof -
  obtain ys e3 e4 where es: "es = ys @ [e3, e4]"
    "jittered sharp_tol (pd_events ir_sharp_timings (msb_bits 15 (sharp_raw_echo sc))) ys"
    and tl: "pulse e3" "\<not> pulse e4" "is_timing_event e3" "is_timing_event e4"
    "eq_margin (duration e3) SHARP_BIT_PULSE (SHARP_BIT_PULSE div 2)"
    "geq_margin (duration e4) SHARP_TRAILER_SPACE (SHARP_BIT_PULSE div 2)"
    by (rule sharp_frame_split [OF assms(3)])
  let ?bits = "shift_in (shift_in acc (msb_bits 15 (sharp_raw sc))) (msb_bits 15 (sharp_raw_echo sc))"
  from sharp_echo.got_symbols [OF assms(2) _ es(2)] obtain d1
    where d1: "decode_run (ir_sharp_decode word_reverse) d ys = (d1, [])" "sharp_got 15 15 ?bits d1"
    by (auto simp: shift_in_def)
  have "sharp_count d1 = 30" using d1(2) by (simp add: sharp_got_def word_unat_eq_iff)
  then have "\<exists>d'. decode_run (ir_sharp_decode word_reverse) d1 [e3, e4] = (d', [Rc_keydown RC_PROTO_SHARP sc 0]) \<and>
      sharp_ready d'"
    using tl d1(2) sharp_register [OF assms(1) refl, of acc]
    by (simp add: ir_sharp_decode_def sharp_got_def SHARP_NBITS_def sharp_ready_def Let_def)
  with decode_run_trans [OF d1(1)] show ?thesis unfolding es(1) by fastforce
qed

lemma sharp_roundtrip:
  assumes "sharp_ready d" "canonical_scancode RC_PROTO_SHARP sc"
    "ir_sharp_encode word_reverse p sc room = (es, Inr n)" "jittered sharp_tol es es'"
  shows "\<exists>d'. decode_run (ir_sharp_decode word_reverse) d es' = (d', [Rc_keydown RC_PROTO_SHARP sc 0]) \<and> sharp_ready d'"
proof -
  from assms(3,4) obtain ys zs where es: "es' = ys @ zs" "jittered sharp_tol (sharp_frame (sharp_raw sc)) ys"
    "jittered sharp_tol (sharp_frame (sharp_raw_echo sc)) zs"
    by (auto simp: sharp_encode_eq jittered_append split: if_splits)
  from sharp_message_run [OF assms(1) es(2)] obtain d1
    where d1: "decode_run (ir_sharp_decode word_reverse) d ys = (d1, [])"
      "sharp_got 15 0 (shift_in (sharp_bits d) (msb_bits 15 (sharp_raw sc))) d1" by blast
  from sharp_echo_run [OF assms(2) d1(2) es(3)] decode_run_trans [OF d1(1)] show ?thesis
    unfolding es(1) by fastforce
qed

interpretation sharp_codec: ir_codec "ir_sharp_decode word_reverse" sharp_ready sharp_inv
  "ir_sharp_encode word_reverse" "\<lambda>p sc. p = RC_PROTO_SHARP \<and> canonical_scancode p sc" sharp_tol
  by unfold_locales (use sharp_roundtrip in blast)

section \<open>Properties\<close>

text \<open>
  A sequence of Sharp messages sent with \<^verbatim>\<open>ir_sharp_encode\<close> (message and echo), each received with
  every duration off by less than half a unit, is decoded by \<^verbatim>\<open>ir_sharp_decode\<close> as exactly the
  key presses sent, in order.
\<close>

theorem sharp_stream_roundtrip:
  assumes "bitrev_spec bitrev8" "sharp_inv d" "sharp_ready d"
    "\<forall>(p, sc) \<in> set msgs. p = RC_PROTO_SHARP \<and> canonical_scancode p sc"
    "transmitted (ir_sharp_encode bitrev8) sharp_tol msgs evs"
  shows "\<exists>d' as. decode_run (ir_sharp_decode bitrev8) d evs = (d', as) \<and> key_presses msgs as \<and> sharp_ready d'"
  using sharp_codec.stream_roundtrip [OF assms(2-4)] assms(5) by (simp add: bitrev_spec_eq [OF assms(1)])

lemma sharp_encode_ok:
  "\<exists>es. ir_sharp_encode word_reverse p sc 64 = (es, Inr 64) \<and> jittered sharp_tol es es"
proof -
  have bits: "\<forall>e \<in> set (pd_symbol ir_sharp_timings b). near sharp_tol e e" for b
    by (cases b) (auto simp: pd_symbol_def ir_sharp_timings_def margin_nat ir_const)
  have "\<forall>e \<in> set (sharp_frame raw). near sharp_tol e e" for raw
    using bits by (auto simp: sharp_frame_def margin_nat ir_const)
  then have "jittered sharp_tol (sharp_frame r @ sharp_frame s) (sharp_frame r @ sharp_frame s)" for r s
    by (intro jittered_refl) auto
  then show ?thesis by (simp add: sharp_encode_eq)
qed

theorem sharp_stream_roundtrip_witness:
  "\<exists>evs d' as. decode_run (ir_sharp_decode word_reverse)
       \<lparr>sharp_st = SHARP_STATE_INACTIVE, sharp_count = 3, sharp_bits = 77, sharp_pulse_len = 0\<rparr> evs = (d', as) \<and>
     key_presses [(RC_PROTO_SHARP, 0x1234), (RC_PROTO_SHARP, 0x10)] as"
proof -
  let ?d = "\<lparr>sharp_st = SHARP_STATE_INACTIVE, sharp_count = 3, sharp_bits = 77, sharp_pulse_len = 0\<rparr>"
  let ?msgs = "[(RC_PROTO_SHARP, 0x1234), (RC_PROTO_SHARP, 0x10)]"
  let ?enc = "ir_sharp_encode word_reverse"
  obtain es1 es2 where "?enc RC_PROTO_SHARP 0x1234 64 = (es1, Inr 64)" "jittered sharp_tol es1 es1"
    "?enc RC_PROTO_SHARP 0x10 64 = (es2, Inr 64)" "jittered sharp_tol es2 es2"
    using sharp_encode_ok by metis
  then have "transmitted ?enc sharp_tol ?msgs (es1 @ es2 @ [])" by (intro transmittedI; simp)
  moreover have "\<forall>(p, sc) \<in> set ?msgs. p = RC_PROTO_SHARP \<and> canonical_scancode p sc"
    by (simp add: canonical_scancode_def rc_validate_scancode_def)
  ultimately show ?thesis
    using sharp_stream_roundtrip [OF bitrev_spec_word_reverse, of ?d ?msgs "es1 @ es2 @ []"]
    by (simp only: sharp_inv_def sharp_ready_def sharp_dec.simps sharp_state.simps) blast
qed

text \<open>
  The Sharp encoder does not keep to the size of its array: with room for at least one message (32
  events) but not for message and echo (64), it writes all 64 events and reports success.
\<close>

theorem sharp_encode_overruns:
  assumes "bitrev_spec bitrev8" "32 \<le> room" "room < 64"
  shows "\<exists>es. ir_sharp_encode bitrev8 p sc room = (es, Inr 64) \<and> room < length es"
  using assms(2,3) by (simp add: bitrev_spec_eq [OF assms(1)] sharp_encode_eq)

theorem sharp_encode_overruns_witness:
  "\<exists>es. ir_sharp_encode word_reverse RC_PROTO_SHARP 0x1234 40 = (es, Inr 64) \<and> 40 < length es"
  by (rule sharp_encode_overruns [OF bitrev_spec_word_reverse]) simp_all

end
