(* ===== verification/Ir_Sony.thy ===== *)
theory Ir_Sony
  imports Rc_Proto
begin

text \<open>
  The Sony handler, \<^verbatim>\<open>rc/ir-sony-decoder.c\<close>: pulse-length modulation with 12, 15 or 20 bits. The
  decoder reads the enabled protocols of the device, an argument here.
\<close>

section \<open>Constants and state\<close>

definition SONY_UNIT :: u32 where [ir_const]: "SONY_UNIT = 600000"
definition SONY_HEADER_PULSE :: u32 where [ir_const]: "SONY_HEADER_PULSE = 4 * SONY_UNIT"
definition SONY_HEADER_SPACE :: u32 where [ir_const]: "SONY_HEADER_SPACE = 1 * SONY_UNIT"
definition SONY_BIT_0_PULSE :: u32 where [ir_const]: "SONY_BIT_0_PULSE = 1 * SONY_UNIT"
definition SONY_BIT_1_PULSE :: u32 where [ir_const]: "SONY_BIT_1_PULSE = 2 * SONY_UNIT"
definition SONY_BIT_SPACE :: u32 where [ir_const]: "SONY_BIT_SPACE = 1 * SONY_UNIT"
definition SONY_TRAILER_SPACE :: u32 where [ir_const]: "SONY_TRAILER_SPACE = 10 * SONY_UNIT"

datatype sony_state = SONY_STATE_INACTIVE | SONY_STATE_HEADER_SPACE | SONY_STATE_BIT_PULSE
  | SONY_STATE_BIT_SPACE | SONY_STATE_FINISHED

record sony_dec =
  sony_st :: sony_state
  sony_bits :: u32
  sony_count :: u32

section \<open>Operations\<close>

definition sony_fail :: "sony_dec \<Rightarrow> sony_dec decoded" where
  "sony_fail d = (d\<lparr>sony_st := SONY_STATE_INACTIVE\<rparr>, [], Inl EINVAL)"

text \<open>The label \<^verbatim>\<open>finish_state_machine\<close>.\<close>

definition sony_finish :: "sony_dec \<Rightarrow> rc_action list \<Rightarrow> sony_dec decoded" where
  "sony_finish d as = (d\<lparr>sony_st := SONY_STATE_INACTIVE\<rparr>, as, Inr ())"

definition sony_keydown :: "sony_dec \<Rightarrow> rc_proto \<Rightarrow> u8 \<Rightarrow> u8 \<Rightarrow> u8 \<Rightarrow> sony_dec decoded" where
  "sony_keydown d protocol device subdevice func =
     sony_finish d [Rc_keydown protocol
       (push_bit 16 (ucast device) OR push_bit 8 (ucast subdevice) OR ucast func) 0]"

text \<open>The case \<^verbatim>\<open>STATE_FINISHED\<close>, which \<^verbatim>\<open>STATE_BIT_SPACE\<close> falls through to.\<close>

definition sony_finished :: "(u8 \<Rightarrow> u8) \<Rightarrow> u64 \<Rightarrow> sony_dec decoder" where
  "sony_finished bitrev8 enabled_protocols d ev =
     (if pulse ev then sony_fail d
      else if \<not> geq_margin (duration ev) SONY_TRAILER_SPACE (SONY_UNIT div 2) then sony_fail d
      else if sony_count d = 12 then
        if \<not> proto_enabled enabled_protocols RC_PROTO_SONY12 then sony_finish d []
        else sony_keydown d RC_PROTO_SONY12 (bitrev8 (ucast (push_bit 3 (sony_bits d) AND 0xf8))) 0
               (bitrev8 (ucast (drop_bit 4 (sony_bits d) AND 0xfe)))
      else if sony_count d = 15 then
        if \<not> proto_enabled enabled_protocols RC_PROTO_SONY15 then sony_finish d []
        else sony_keydown d RC_PROTO_SONY15 (bitrev8 (ucast (drop_bit 0 (sony_bits d) AND 0xff))) 0
               (bitrev8 (ucast (drop_bit 7 (sony_bits d) AND 0xfe)))
      else if sony_count d = 20 then
        if \<not> proto_enabled enabled_protocols RC_PROTO_SONY20 then sony_finish d []
        else sony_keydown d RC_PROTO_SONY20 (bitrev8 (ucast (drop_bit 5 (sony_bits d) AND 0xf8)))
               (bitrev8 (ucast (drop_bit 0 (sony_bits d) AND 0xff)))
               (bitrev8 (ucast (drop_bit 12 (sony_bits d) AND 0xfe)))
      else sony_fail d)"

definition ir_sony_decode :: "(u8 \<Rightarrow> u8) \<Rightarrow> u64 \<Rightarrow> sony_dec decoder" where
  "ir_sony_decode bitrev8 enabled_protocols d ev =
     (if \<not> is_timing_event ev then
        ((if ev_reset ev then d\<lparr>sony_st := SONY_STATE_INACTIVE\<rparr> else d), [], Inr ())
      else if \<not> geq_margin (duration ev) SONY_UNIT (SONY_UNIT div 2) then sony_fail d
      else
        case sony_st d of
          SONY_STATE_INACTIVE \<Rightarrow>
            if \<not> pulse ev then sony_fail d
            else if \<not> eq_margin (duration ev) SONY_HEADER_PULSE (SONY_UNIT div 2) then sony_fail d
            else (d\<lparr>sony_count := 0, sony_st := SONY_STATE_HEADER_SPACE\<rparr>, [], Inr ())
        | SONY_STATE_HEADER_SPACE \<Rightarrow>
            if pulse ev then sony_fail d
            else if \<not> eq_margin (duration ev) SONY_HEADER_SPACE (SONY_UNIT div 2) then sony_fail d
            else (d\<lparr>sony_st := SONY_STATE_BIT_PULSE\<rparr>, [], Inr ())
        | SONY_STATE_BIT_PULSE \<Rightarrow>
            if \<not> pulse ev then sony_fail d
            else
              let d = d\<lparr>sony_bits := push_bit 1 (sony_bits d)\<rparr>;
                  one = eq_margin (duration ev) SONY_BIT_1_PULSE (SONY_UNIT div 2);
                  d = (if one then d\<lparr>sony_bits := sony_bits d OR 1\<rparr> else d) in
              if \<not> one \<and> \<not> eq_margin (duration ev) SONY_BIT_0_PULSE (SONY_UNIT div 2) then sony_fail d
              else (d\<lparr>sony_count := sony_count d + 1, sony_st := SONY_STATE_BIT_SPACE\<rparr>, [], Inr ())
        | SONY_STATE_BIT_SPACE \<Rightarrow>
            if pulse ev then sony_fail d
            else if \<not> geq_margin (duration ev) SONY_BIT_SPACE (SONY_UNIT div 2) then sony_fail d
            else
              let ev = decrease_duration ev SONY_BIT_SPACE in
              if \<not> geq_margin (duration ev) SONY_UNIT (SONY_UNIT div 2) then
                (d\<lparr>sony_st := SONY_STATE_BIT_PULSE\<rparr>, [], Inr ())
              else sony_finished bitrev8 enabled_protocols (d\<lparr>sony_st := SONY_STATE_FINISHED\<rparr>) ev
        | SONY_STATE_FINISHED \<Rightarrow> sony_finished bitrev8 enabled_protocols d ev)"

definition ir_sony_timings :: ir_raw_timings_pl where
  "ir_sony_timings =
     \<lparr>pl_header_pulse = SONY_HEADER_PULSE, pl_bit_space = SONY_BIT_SPACE,
      pl_bit_pulse = (\<lambda>b. if b then SONY_BIT_1_PULSE else SONY_BIT_0_PULSE),
      pl_trailer_space = SONY_TRAILER_SPACE + SONY_BIT_SPACE, pl_msb_first = False\<rparr>"

definition ir_sony_encode :: "rc_proto \<Rightarrow> u32 \<Rightarrow> nat \<Rightarrow> ir_raw_event list \<times> nat result" where
  "ir_sony_encode protocol scancode room =
     (let (raw, len) =
        (if protocol = RC_PROTO_SONY12 then
           ((scancode AND 0x7f) OR drop_bit 9 (scancode AND 0x1f0000), 12)
         else if protocol = RC_PROTO_SONY15 then
           ((scancode AND 0x7f) OR drop_bit 9 (scancode AND 0xff0000), 15)
         else
           ((scancode AND 0x7f) OR drop_bit 9 (scancode AND 0x1f0000) OR push_bit 4 (scancode AND 0xff00), 20))
      in encode_result (ir_raw_gen_pl ([], room) ir_sony_timings len (ucast raw)))"

section \<open>The decoder's invariant\<close>

text \<open>
  The counter only runs while a message is read; the state \<^verbatim>\<open>STATE_FINISHED\<close> is never kept.
\<close>

definition sony_inv :: "sony_dec \<Rightarrow> bool" where
  "sony_inv d \<longleftrightarrow> sony_st d \<noteq> SONY_STATE_FINISHED \<and> (sony_st d = SONY_STATE_HEADER_SPACE \<longrightarrow> sony_count d = 0)"

definition sony_ready :: "sony_dec \<Rightarrow> bool" where
  "sony_ready d \<longleftrightarrow> sony_st d = SONY_STATE_INACTIVE"

interpretation sony: ir_strict_decoder "ir_sony_decode bitrev8 enabled" sony_ready sony_inv
proof
  show "sony_inv d'" if "sony_inv d" "ir_sony_decode bitrev8 enabled d ev = (d', as, r)" for d ev d' as r
    using that
    by (auto simp: ir_sony_decode_def sony_fail_def sony_finished_def sony_keydown_def sony_finish_def sony_inv_def
        Let_def split: sony_state.splits if_splits)
  show "\<exists>d'. ir_sony_decode bitrev8 enabled d ev = (d', [], Inr ()) \<and> sony_ready d'" if "ev_reset ev" for ev d
    using that by (simp add: ir_sony_decode_def is_timing_event_def sony_ready_def)
  show "e = EINVAL \<and> as = [] \<and> sony_ready d'" if "ir_sony_decode bitrev8 enabled d ev = (d', as, Inl e)"
    for d ev d' as e
    using that
    by (auto simp: ir_sony_decode_def sony_fail_def sony_finished_def sony_keydown_def sony_finish_def sony_ready_def
        Let_def split: sony_state.splits if_splits)
qed

section \<open>Reading what the encoder sends\<close>

definition sony_tol :: u32 where [ir_const]: "sony_tol = SONY_UNIT div 2"

definition sony_got :: "nat \<Rightarrow> u32 \<Rightarrow> sony_dec \<Rightarrow> bool" where
  "sony_got k acc d \<longleftrightarrow> unat (sony_count d) = k \<and> sony_bits d = acc \<and>
     sony_st d = (if k = 0 then SONY_STATE_HEADER_SPACE else SONY_STATE_BIT_SPACE)"

lemma sony_short_space:
  assumes "eq_margin d SONY_BIT_SPACE sony_tol"
  shows "\<not> geq_margin (duration (decrease_duration (ev\<lparr>duration := d\<rparr>) SONY_BIT_SPACE)) SONY_UNIT (SONY_UNIT div 2)"
proof (cases "SONY_BIT_SPACE > d")
  case False
  then have "unat (d - SONY_BIT_SPACE) = unat d - unat SONY_BIT_SPACE" by (simp add: unat_sub not_less)
  with False assms show ?thesis by (simp add: decrease_duration_def margin_nat ir_const)
qed (simp add: decrease_duration_def margin_nat ir_const)

lemma sony_got_symbol:
  assumes "sony_got k acc d" "k < 20" "jittered sony_tol (pl_symbol ir_sony_timings b) es"
  shows "\<exists>d'. decode_run (ir_sony_decode bitrev8 enabled) d es = (d', []) \<and>
    sony_got (Suc k) (push_bit 1 acc OR of_bool b) d'"
proof -
  have cnt: "unat (sony_count d + 1) = Suc k"
    using assms by (simp add: sony_got_def unat_inc)
  from assms(3) obtain e1 e2 where es: "es = [e1, e2]" "\<not> pulse e1" "pulse e2"
    "is_timing_event e1" "is_timing_event e2" "eq_margin (duration e1) SONY_BIT_SPACE sony_tol"
    "eq_margin (duration e2) (if b then SONY_BIT_1_PULSE else SONY_BIT_0_PULSE) sony_tol"
    by (auto simp: pl_symbol_def ir_sony_timings_def jittered_Cons)
  have "geq_margin (duration e1) SONY_UNIT (SONY_UNIT div 2)" "geq_margin (duration e1) SONY_BIT_SPACE (SONY_UNIT div 2)"
    "eq_margin (duration e1) SONY_HEADER_SPACE (SONY_UNIT div 2)"
    using es(6) by (simp_all add: margin_nat ir_const)
  then have s1: "ir_sony_decode bitrev8 enabled d e1 = (d\<lparr>sony_st := SONY_STATE_BIT_PULSE\<rparr>, [], Inr ())"
    using es assms(1) sony_short_space [OF es(6), of e1]
    by (simp add: ir_sony_decode_def sony_got_def Let_def split: if_splits)
  have "geq_margin (duration e2) SONY_UNIT (SONY_UNIT div 2)"
    "eq_margin (duration e2) SONY_BIT_1_PULSE (SONY_UNIT div 2) = b"
    "eq_margin (duration e2) SONY_BIT_0_PULSE (SONY_UNIT div 2) = (\<not> b)"
    using es(7) by (cases b; simp add: margin_nat ir_const)+
  with es s1 assms(1,2) cnt show ?thesis
    by (cases b) (simp_all add: ir_sony_decode_def sony_got_def Let_def)
qed

interpretation sony_receiver: ir_receiver "ir_sony_decode bitrev8 enabled" sony_tol "pl_symbol ir_sony_timings"
  "\<lambda>a b. push_bit 1 a OR of_bool b" 20 sony_got
  by unfold_locales (rule sony_got_symbol)

fun sony_len :: "rc_proto \<Rightarrow> nat" where
  "sony_len RC_PROTO_SONY12 = 12"
| "sony_len RC_PROTO_SONY15 = 15"
| "sony_len _ = 20"

definition sony_raw :: "rc_proto \<Rightarrow> u32 \<Rightarrow> u32" where
  "sony_raw p sc =
     (if p = RC_PROTO_SONY12 then (sc AND 0x7f) OR drop_bit 9 (sc AND 0x1f0000)
      else if p = RC_PROTO_SONY15 then (sc AND 0x7f) OR drop_bit 9 (sc AND 0xff0000)
      else (sc AND 0x7f) OR drop_bit 9 (sc AND 0x1f0000) OR push_bit 4 (sc AND 0xff00))"

abbreviation sony_protos :: "rc_proto set" where
  "sony_protos \<equiv> {RC_PROTO_SONY12, RC_PROTO_SONY15, RC_PROTO_SONY20}"

lemma sony_encode_eq:
  "p \<in> sony_protos \<Longrightarrow>
   ir_sony_encode p sc room = encode_result (ir_raw_gen_pl ([], room) ir_sony_timings (sony_len p) (ucast (sony_raw p sc)))"
  by (auto simp: ir_sony_encode_def sony_raw_def)

lemma sony_encode_events:
  "p \<in> sony_protos \<Longrightarrow> ir_sony_encode p sc room = (es, Inr n) \<Longrightarrow>
   es = [init_ir_raw_event_duration True SONY_HEADER_PULSE] @
     pl_events ir_sony_timings (lsb_bits (sony_len p) (sony_raw p sc)) @
     [init_ir_raw_event_duration False (SONY_TRAILER_SPACE + SONY_BIT_SPACE)]"
proof -
  assume p: "p \<in> sony_protos" and enc: "ir_sony_encode p sc room = (es, Inr n)"
  have sel: "pl_header_pulse ir_sony_timings = SONY_HEADER_PULSE" "\<not> pl_msb_first ir_sony_timings"
    "pl_trailer_space ir_sony_timings = SONY_TRAILER_SPACE + SONY_BIT_SPACE"
    by (simp_all add: ir_sony_timings_def)
  have "lsb_bits (sony_len p) (ucast (sony_raw p sc) :: u64) = lsb_bits (sony_len p) (sony_raw p sc)"
    using p by (intro lsb_bits_ucast) auto
  with enc show ?thesis by (auto simp: sony_encode_eq [OF p] gen_pl_emit encode_result_emit sel split: if_splits)
qed

lemma sony_register:
  fixes bits acc :: u32
  assumes "canonical_scancode p sc" "bits = shift_in acc (lsb_bits (sony_len p) (sony_raw p sc))"
  shows "p = RC_PROTO_SONY12 \<Longrightarrow> push_bit 16 (ucast (word_reverse (ucast (push_bit 3 bits AND 0xf8) :: u8))) OR
      push_bit 8 (ucast (0 :: u8)) OR ucast (word_reverse (ucast (drop_bit 4 bits AND 0xfe) :: u8)) = sc" (is "_ \<Longrightarrow> ?A")
    and "p = RC_PROTO_SONY15 \<Longrightarrow> push_bit 16 (ucast (word_reverse (ucast (drop_bit 0 bits AND 0xff) :: u8))) OR
      push_bit 8 (ucast (0 :: u8)) OR ucast (word_reverse (ucast (drop_bit 7 bits AND 0xfe) :: u8)) = sc" (is "_ \<Longrightarrow> ?B")
    and "p = RC_PROTO_SONY20 \<Longrightarrow> push_bit 16 (ucast (word_reverse (ucast (drop_bit 5 bits AND 0xf8) :: u8))) OR
      push_bit 8 (ucast (word_reverse (ucast (drop_bit 0 bits AND 0xff) :: u8))) OR
      ucast (word_reverse (ucast (drop_bit 12 bits AND 0xfe) :: u8)) = sc" (is "_ \<Longrightarrow> ?C")
proof -
  have b: "bit bits i = bit (sony_raw p sc) (sony_len p - 1 - i)" if "i < sony_len p" "i < 32" for i
    using that by (simp add: assms(2) bit_shift_in_lsb)
  show ?A if "p = RC_PROTO_SONY12"
    by (rule u32_eqI, unfold upt_32)
       (auto simp: that bit_simps b sony_raw_def dest: canonical_bit [OF assms(1) [unfolded that]])
  show ?B if "p = RC_PROTO_SONY15"
    by (rule u32_eqI, unfold upt_32)
       (auto simp: that bit_simps b sony_raw_def dest: canonical_bit [OF assms(1) [unfolded that]])
  show ?C if "p = RC_PROTO_SONY20"
    by (rule u32_eqI, unfold upt_32)
       (auto simp: that bit_simps b sony_raw_def dest: canonical_bit [OF assms(1) [unfolded that]])
qed

lemma sony_long_space:
  assumes "eq_margin d (SONY_TRAILER_SPACE + SONY_BIT_SPACE) sony_tol"
  shows "geq_margin (duration (decrease_duration (ev\<lparr>duration := d\<rparr>) SONY_BIT_SPACE)) SONY_UNIT (SONY_UNIT div 2)"
    "geq_margin (duration (decrease_duration (ev\<lparr>duration := d\<rparr>) SONY_BIT_SPACE)) SONY_TRAILER_SPACE (SONY_UNIT div 2)"
    "geq_margin d SONY_UNIT (SONY_UNIT div 2)" "geq_margin d SONY_BIT_SPACE (SONY_UNIT div 2)"
proof -
  have le: "\<not> SONY_BIT_SPACE > d" using assms by (simp add: margin_nat ir_const)
  then have "unat (d - SONY_BIT_SPACE) = unat d - unat SONY_BIT_SPACE" by (simp add: unat_sub not_less)
  with le assms show "geq_margin (duration (decrease_duration (ev\<lparr>duration := d\<rparr>) SONY_BIT_SPACE)) SONY_UNIT (SONY_UNIT div 2)"
    "geq_margin (duration (decrease_duration (ev\<lparr>duration := d\<rparr>) SONY_BIT_SPACE)) SONY_TRAILER_SPACE (SONY_UNIT div 2)"
    "geq_margin d SONY_UNIT (SONY_UNIT div 2)" "geq_margin d SONY_BIT_SPACE (SONY_UNIT div 2)"
    by (auto simp: decrease_duration_def margin_nat ir_const)
qed

lemma sony_trailer:
  assumes "sony_got (sony_len p) (shift_in acc (lsb_bits (sony_len p) (sony_raw p sc))) d"
    "p \<in> sony_protos" "canonical_scancode p sc" "proto_enabled enabled p" "\<not> pulse e" "is_timing_event e"
    "eq_margin (duration e) (SONY_TRAILER_SPACE + SONY_BIT_SPACE) sony_tol"
  shows "ir_sony_decode word_reverse enabled d e = (d\<lparr>sony_st := SONY_STATE_INACTIVE\<rparr>, [Rc_keydown p sc 0], Inr ())"
proof -
  have st: "sony_st d = SONY_STATE_BIT_SPACE"
    and b: "sony_bits d = shift_in acc (lsb_bits (sony_len p) (sony_raw p sc))"
    and c: "sony_count d = of_nat (sony_len p)"
    using assms(1,2) by (auto simp: sony_got_def word_unat_eq_iff)
  have p: "pulse (decrease_duration e SONY_BIT_SPACE) = pulse e" by (simp add: decrease_duration_def)
  note sp = sony_long_space(1,2) [OF assms(7), of e, simplified] sony_long_space(3,4) [OF assms(7)]
  show ?thesis
    using assms(2,4-6) st c sp sony_register [OF assms(3) b] p
    by (auto simp: ir_sony_decode_def sony_finished_def sony_keydown_def sony_finish_def Let_def)
qed

lemma sony_roundtrip:
  assumes "sony_ready d" "canonical_scancode p sc" "p \<in> sony_protos" "proto_enabled enabled p"
    "ir_sony_encode p sc room = (es, Inr n)" "jittered sony_tol es es'"
  shows "\<exists>d'. decode_run (ir_sony_decode word_reverse enabled) d es' = (d', [Rc_keydown p sc 0]) \<and> sony_ready d'"
proof -
  let ?bs = "lsb_bits (sony_len p) (sony_raw p sc)" and ?run = "decode_run (ir_sony_decode word_reverse enabled)"
  from assms(6) sony_encode_events [OF assms(3,5)] obtain e1 zs e2 where es': "es' = [e1] @ zs @ [e2]"
    and zs: "jittered sony_tol (pl_events ir_sony_timings ?bs) zs"
    and hd: "pulse e1" "is_timing_event e1" "eq_margin (duration e1) SONY_HEADER_PULSE sony_tol"
    and tl: "\<not> pulse e2" "is_timing_event e2" "eq_margin (duration e2) (SONY_TRAILER_SPACE + SONY_BIT_SPACE) sony_tol"
    by (auto simp: jittered_Cons jittered_append)
  have "geq_margin (duration e1) SONY_UNIT (SONY_UNIT div 2)" using hd(3) by (simp add: margin_nat ir_const)
  then obtain d1 where d1: "?run d [e1] = (d1, [])" "sony_got 0 (sony_bits d) d1"
    using hd assms(1) by (simp add: ir_sony_decode_def sony_ready_def sony_got_def sony_tol_def)
  have "sony_len p \<le> 20" using assms(3) by auto
  then obtain d2 where d2: "?run d1 zs = (d2, [])" "sony_got (sony_len p) (shift_in (sony_bits d) ?bs) d2"
    using sony_receiver.got_symbols [OF d1(2) _ zs] by (auto simp: shift_in_def)
  have "?run d2 [e2] = (d2\<lparr>sony_st := SONY_STATE_INACTIVE\<rparr>, [Rc_keydown p sc 0])"
    using sony_trailer [OF d2(2) assms(3,2,4) tl] by simp
  from decode_run_trans [OF d1(1) decode_run_trans [OF d2(1) this]] show ?thesis
    by (auto simp: es' sony_ready_def)
qed

interpretation sony_codec: ir_codec "ir_sony_decode word_reverse enabled" sony_ready sony_inv ir_sony_encode
  "\<lambda>p sc. p \<in> sony_protos \<and> proto_enabled enabled p \<and> canonical_scancode p sc" sony_tol
  by unfold_locales (use sony_roundtrip in blast)

text \<open>
  C27: A sequence of Sony messages of 12, 15 and 20 bits, in any mix of the enabled variants, each
  received with every duration off by less than half a unit, is decoded by \<^verbatim>\<open>ir_sony_decode\<close> as
  exactly the key presses sent, in order, with the right variant.
\<close>

theorem sony_stream_roundtrip:
  assumes "bitrev_spec bitrev8" "sony_inv d" "sony_ready d"
    "\<forall>(p, sc) \<in> set msgs. p \<in> sony_protos \<and> proto_enabled enabled p \<and> canonical_scancode p sc"
    "transmitted ir_sony_encode sony_tol msgs evs"
  shows "\<exists>d' as. decode_run (ir_sony_decode bitrev8 enabled) d evs = (d', as) \<and> key_presses msgs as \<and> sony_ready d'"
  using sony_codec.stream_roundtrip [OF assms(2-5)] by (simp add: bitrev_spec_eq [OF assms(1)])

lemma sony_encode_ok:
  "p \<in> sony_protos \<Longrightarrow> \<exists>n es. ir_sony_encode p sc 42 = (es, Inr n) \<and> jittered sony_tol es es"
  by (simp only: sony_encode_eq, rule pl_encode_ok) (auto simp: ir_sony_timings_def margin_nat ir_const)

theorem sony_stream_roundtrip_witness:
  "\<exists>evs d' as. decode_run (ir_sony_decode word_reverse 0xffff)
       \<lparr>sony_st = SONY_STATE_INACTIVE, sony_bits = 77, sony_count = 3\<rparr> evs = (d', as) \<and>
     key_presses [(RC_PROTO_SONY12, 0x1a0055), (RC_PROTO_SONY20, 0x1abc3d)] as"
proof -
  let ?d = "\<lparr>sony_st = SONY_STATE_INACTIVE, sony_bits = 77, sony_count = 3\<rparr>"
  let ?msgs = "[(RC_PROTO_SONY12, 0x1a0055), (RC_PROTO_SONY20, 0x1abc3d)]"
  obtain n1 es1 n2 es2 where "ir_sony_encode RC_PROTO_SONY12 0x1a0055 42 = (es1, Inr n1)" "jittered sony_tol es1 es1"
    "ir_sony_encode RC_PROTO_SONY20 0x1abc3d 42 = (es2, Inr n2)" "jittered sony_tol es2 es2"
    using sony_encode_ok [of RC_PROTO_SONY12] sony_encode_ok [of RC_PROTO_SONY20] by (metis insertCI)
  then have "transmitted ir_sony_encode sony_tol ?msgs (es1 @ es2 @ [])" by (intro transmittedI; simp)
  moreover have "\<forall>(p, sc) \<in> set ?msgs. p \<in> sony_protos \<and> proto_enabled 0xffff p \<and> canonical_scancode p sc"
    by (simp add: canonical_scancode_def rc_validate_scancode_def proto_enabled_def rc_proto_bit_def)
  ultimately show ?thesis
    using sony_stream_roundtrip [OF bitrev_spec_word_reverse, of ?d ?msgs "0xffff" "es1 @ es2 @ []"]
    by (simp only: sony_inv_def sony_ready_def sony_dec.simps sony_state.simps) blast
qed

end
