(* ===== verification/Ir_Rc5.thy ===== *)
theory Ir_Rc5
  imports Rc_Proto
begin

text \<open>
  The RC-5 handler, \<^verbatim>\<open>rc/ir-rc5-decoder.c\<close>: Manchester modulation, 14 bits (RC-5), 15 bits
  (StreamZap) or 20 bits with a gap after the eighth (RC-5X). The loop \<^verbatim>\<open>goto again\<close>, which splits
  an event that covers two half bits, is a recursive function.
\<close>

section \<open>Constants and state\<close>

definition RC5_NBITS :: nat where [ir_const]: "RC5_NBITS = 14"
definition RC5_SZ_NBITS :: nat where [ir_const]: "RC5_SZ_NBITS = 15"
definition RC5X_NBITS :: nat where [ir_const]: "RC5X_NBITS = 20"
definition CHECK_RC5X_NBITS :: nat where [ir_const]: "CHECK_RC5X_NBITS = 8"
definition RC5_UNIT :: u32 where [ir_const]: "RC5_UNIT = 888888"
definition RC5_BIT_START :: u32 where [ir_const]: "RC5_BIT_START = 1 * RC5_UNIT"
definition RC5_BIT_END :: u32 where [ir_const]: "RC5_BIT_END = 1 * RC5_UNIT"
definition RC5X_SPACE :: u32 where [ir_const]: "RC5X_SPACE = 4 * RC5_UNIT"
definition RC5_TRAILER :: u32 where [ir_const]: "RC5_TRAILER = 6 * RC5_UNIT"

datatype rc5_state = RC5_STATE_INACTIVE | RC5_STATE_BIT_START | RC5_STATE_BIT_END
  | RC5_STATE_CHECK_RC5X | RC5_STATE_FINISHED

record rc5_dec =
  rc5_st :: rc5_state
  rc5_bits :: u32
  rc5_count :: u32
  is_rc5x :: bool

section \<open>Operations\<close>

definition rc5_fail :: "rc5_dec \<Rightarrow> rc5_dec decoded" where
  "rc5_fail d = (d\<lparr>rc5_st := RC5_STATE_INACTIVE\<rparr>, [], Inl EINVAL)"

definition rc5_ignore :: "rc5_dec \<Rightarrow> rc5_dec decoded" where
  "rc5_ignore d = (d\<lparr>rc5_st := RC5_STATE_INACTIVE\<rparr>, [], Inr ())"

definition rc5_keydown :: "rc5_dec \<Rightarrow> rc_proto \<Rightarrow> u32 \<Rightarrow> u8 \<Rightarrow> rc5_dec decoded" where
  "rc5_keydown d protocol scancode toggle =
     (d\<lparr>rc5_st := RC5_STATE_INACTIVE\<rparr>, [Rc_keydown protocol scancode toggle], Inr ())"

text \<open>The case \<^verbatim>\<open>STATE_FINISHED\<close>.\<close>

definition rc5_finished :: "u64 \<Rightarrow> rc5_dec decoder" where
  "rc5_finished enabled_protocols d ev =
     (let bits = rc5_bits d in
      if pulse ev then rc5_fail d
      else if is_rc5x d \<and> rc5_count d = of_nat RC5X_NBITS then
        if \<not> proto_enabled enabled_protocols RC_PROTO_RC5X_20 then rc5_ignore d
        else
          let xdata = ucast (drop_bit 0 (bits AND 0x0003F)) :: u8;
              command = ucast (drop_bit 6 (bits AND 0x00FC0)) :: u8;
              system = ucast (drop_bit 12 (bits AND 0x1F000)) :: u8;
              toggle = (if bits AND 0x20000 \<noteq> 0 then 1 else 0);
              command = command + (if bits AND 0x40000 \<noteq> 0 then 0 else 0x40) in
          rc5_keydown d RC_PROTO_RC5X_20
            (push_bit 16 (ucast system) OR push_bit 8 (ucast command) OR ucast xdata) toggle
      else if \<not> is_rc5x d \<and> rc5_count d = of_nat RC5_NBITS then
        if \<not> proto_enabled enabled_protocols RC_PROTO_RC5 then rc5_ignore d
        else
          let command = ucast (drop_bit 0 (bits AND 0x0003F)) :: u8;
              system = ucast (drop_bit 6 (bits AND 0x007C0)) :: u8;
              toggle = (if bits AND 0x00800 \<noteq> 0 then 1 else 0);
              command = command + (if bits AND 0x01000 \<noteq> 0 then 0 else 0x40) in
          rc5_keydown d RC_PROTO_RC5 (push_bit 8 (ucast system) OR ucast command) toggle
      else if \<not> is_rc5x d \<and> rc5_count d = of_nat RC5_SZ_NBITS then
        if \<not> proto_enabled enabled_protocols RC_PROTO_RC5_SZ then rc5_ignore d
        else
          let command = ucast (drop_bit 0 (bits AND 0x0003F)) :: u8;
              system = ucast (drop_bit 6 (bits AND 0x02FC0)) :: u8;
              toggle = (if bits AND 0x01000 \<noteq> 0 then 1 else 0) in
          rc5_keydown d RC_PROTO_RC5_SZ (push_bit 6 (ucast system) OR ucast command) toggle
      else rc5_fail d)"

fun rc5_rank :: "rc5_state \<Rightarrow> nat" where
  "rc5_rank RC5_STATE_CHECK_RC5X = 2"
| "rc5_rank RC5_STATE_BIT_START = 1"
| "rc5_rank _ = 0"

function rc5_again :: "u64 \<Rightarrow> rc5_dec decoder" where
  "rc5_again enabled_protocols d ev =
     (if \<not> geq_margin (duration ev) RC5_UNIT (RC5_UNIT div 2) then (d, [], Inr ())
      else
        case rc5_st d of
          RC5_STATE_INACTIVE \<Rightarrow>
            if \<not> pulse ev then rc5_fail d
            else rc5_again enabled_protocols (d\<lparr>rc5_st := RC5_STATE_BIT_START, rc5_count := 1\<rparr>)
                   (decrease_duration ev RC5_BIT_START)
        | RC5_STATE_BIT_START \<Rightarrow>
            if \<not> pulse ev \<and> geq_margin (duration ev) RC5_TRAILER (RC5_UNIT div 2) then
              rc5_again enabled_protocols (d\<lparr>rc5_st := RC5_STATE_FINISHED\<rparr>) ev
            else if \<not> eq_margin (duration ev) RC5_BIT_START (RC5_UNIT div 2) then rc5_fail d
            else
              let d = d\<lparr>rc5_bits := push_bit 1 (rc5_bits d)\<rparr>;
                  d = (if \<not> pulse ev then d\<lparr>rc5_bits := rc5_bits d OR 1\<rparr> else d) in
              (d\<lparr>rc5_count := rc5_count d + 1, rc5_st := RC5_STATE_BIT_END\<rparr>, [], Inr ())
        | RC5_STATE_BIT_END \<Rightarrow>
            rc5_again enabled_protocols
              (if rc5_count d = of_nat CHECK_RC5X_NBITS then d\<lparr>rc5_st := RC5_STATE_CHECK_RC5X\<rparr>
               else d\<lparr>rc5_st := RC5_STATE_BIT_START\<rparr>)
              (decrease_duration ev RC5_BIT_END)
        | RC5_STATE_CHECK_RC5X \<Rightarrow>
            if \<not> pulse ev \<and> geq_margin (duration ev) RC5X_SPACE (RC5_UNIT div 2) then
              rc5_again enabled_protocols (d\<lparr>is_rc5x := True, rc5_st := RC5_STATE_BIT_START\<rparr>)
                (decrease_duration ev RC5X_SPACE)
            else
              rc5_again enabled_protocols (d\<lparr>is_rc5x := False, rc5_st := RC5_STATE_BIT_START\<rparr>) ev
        | RC5_STATE_FINISHED \<Rightarrow> rc5_finished enabled_protocols d ev)"
  by pat_completeness auto

termination
  by (relation "measures [\<lambda>(_, _, ev). unat (duration ev), \<lambda>(_, d, _). rc5_rank (rc5_st d)]")
     (auto simp: margin_nat ir_const)

declare rc5_again.simps [simp del]

definition ir_rc5_decode :: "u64 \<Rightarrow> rc5_dec decoder" where
  "ir_rc5_decode enabled_protocols d ev =
     (if \<not> is_timing_event ev then
        ((if ev_reset ev then d\<lparr>rc5_st := RC5_STATE_INACTIVE\<rparr> else d), [], Inr ())
      else if \<not> geq_margin (duration ev) RC5_UNIT (RC5_UNIT div 2) then rc5_fail d
      else rc5_again enabled_protocols d ev)"

definition ir_rc5_timings :: ir_raw_timings_manchester where
  "ir_rc5_timings = \<lparr>mn_leader_pulse = RC5_UNIT, mn_leader_space = 0, mn_clock = RC5_UNIT, mn_invert = False,
     mn_trailer_space = RC5_UNIT * 10\<rparr>"

definition ir_rc5x_timings_0 :: ir_raw_timings_manchester where
  "ir_rc5x_timings_0 = \<lparr>mn_leader_pulse = RC5_UNIT, mn_leader_space = 0, mn_clock = RC5_UNIT, mn_invert = False,
     mn_trailer_space = RC5X_SPACE\<rparr>"

definition ir_rc5x_timings_1 :: ir_raw_timings_manchester where
  "ir_rc5x_timings_1 = \<lparr>mn_leader_pulse = 0, mn_leader_space = 0, mn_clock = RC5_UNIT, mn_invert = False,
     mn_trailer_space = RC5_UNIT * 10\<rparr>"

definition ir_rc5_sz_timings :: ir_raw_timings_manchester where
  "ir_rc5_sz_timings = \<lparr>mn_leader_pulse = RC5_UNIT, mn_leader_space = 0, mn_clock = RC5_UNIT, mn_invert = False,
     mn_trailer_space = RC5_UNIT * 10\<rparr>"

definition ir_rc5_encode :: "rc_proto \<Rightarrow> u32 \<Rightarrow> nat \<Rightarrow> ir_raw_event list \<times> nat result" where
  "ir_rc5_encode protocol scancode room =
     (if protocol = RC_PROTO_RC5 then
        let command = drop_bit 0 (scancode AND 0x003f);
            commandx = drop_bit 6 (scancode AND 0x0040);
            system = drop_bit 8 (scancode AND 0x1f00);
            data = push_bit 12 (if commandx = 0 then 1 else 0) OR push_bit 6 system OR command in
        encode_result (ir_raw_gen_manchester ([], room) ir_rc5_timings (RC5_NBITS - 1) (ucast data))
      else if protocol = RC_PROTO_RC5X_20 then
        let xdata = drop_bit 0 (scancode AND 0x00003f);
            command = drop_bit 8 (scancode AND 0x003f00);
            commandx = (if scancode AND 0x004000 = 0 then 1 else 0);
            system = drop_bit 16 (scancode AND 0x1f0000);
            data = push_bit 18 commandx OR push_bit 12 system OR push_bit 6 command OR xdata;
            pre_space_data = drop_bit (RC5X_NBITS - CHECK_RC5X_NBITS) data in
        encode_result
          (gen_then (ir_raw_gen_manchester ([], room) ir_rc5x_timings_0 (CHECK_RC5X_NBITS - 1)
                       (ucast pre_space_data))
             (\<lambda>s. ir_raw_gen_manchester s ir_rc5x_timings_1 (RC5X_NBITS - CHECK_RC5X_NBITS) (ucast data)))
      else if protocol = RC_PROTO_RC5_SZ then
        encode_result (ir_raw_gen_manchester ([], room) ir_rc5_sz_timings (RC5_SZ_NBITS - 1)
          (ucast (scancode AND 0x2fff)))
      else ([], Inl EINVAL))"

section \<open>The decoder's invariant\<close>

text \<open>
  Every path through \<^verbatim>\<open>goto again\<close> terminates (the definition is total), and between events the
  decoder never stays in \<^verbatim>\<open>STATE_FINISHED\<close>, and in \<^verbatim>\<open>STATE_CHECK_RC5X\<close> only after the eighth bit.
\<close>

definition rc5_inv :: "rc5_dec \<Rightarrow> bool" where
  "rc5_inv d \<longleftrightarrow> rc5_st d \<noteq> RC5_STATE_FINISHED \<and> (rc5_st d = RC5_STATE_CHECK_RC5X \<longrightarrow> rc5_count d = 8)"

definition rc5_ready :: "rc5_dec \<Rightarrow> bool" where
  "rc5_ready d \<longleftrightarrow> rc5_st d = RC5_STATE_INACTIVE"

lemma rc5_finished_inactive: "rc5_finished enabled d ev = (d', as, r) \<Longrightarrow> rc5_st d' = RC5_STATE_INACTIVE"
  by (auto simp: rc5_finished_def rc5_fail_def rc5_ignore_def rc5_keydown_def Let_def split: if_splits)

lemma rc5_finished_reject: "rc5_finished enabled d ev = (d', as, Inl e) \<Longrightarrow> e = EINVAL \<and> as = []"
  by (auto simp: rc5_finished_def rc5_fail_def rc5_ignore_def rc5_keydown_def Let_def split: if_splits)

lemma rc5_again_inv:
  "rc5_again enabled d ev = (d', as, r) \<Longrightarrow> rc5_inv d \<or> rc5_st d = RC5_STATE_FINISHED \<and> geq_margin (duration ev) RC5_UNIT (RC5_UNIT div 2) \<Longrightarrow>
   rc5_inv d'"
proof (induction enabled d ev rule: rc5_again.induct)
  case (1 enabled d ev)
  show ?case
    using 1 rc5_finished_inactive [of enabled d ev d' as r]
    by (subst (asm) (6) rc5_again.simps)
       (auto simp: rc5_inv_def rc5_fail_def Let_def CHECK_RC5X_NBITS_def split: if_splits rc5_state.splits)
qed

lemma rc5_again_reject:
  "rc5_again enabled d ev = (d', as, Inl e) \<Longrightarrow> e = EINVAL \<and> as = [] \<and> rc5_st d' = RC5_STATE_INACTIVE"
proof (induction enabled d ev rule: rc5_again.induct)
  case (1 enabled d ev)
  show ?case
    using 1 rc5_finished_inactive [of enabled d ev d' as "Inl e"] rc5_finished_reject [of enabled d ev d' as e]
    by (subst (asm) (6) rc5_again.simps)
       (auto simp: rc5_fail_def Let_def split: if_splits rc5_state.splits)
qed

interpretation rc5: ir_strict_decoder "ir_rc5_decode enabled" rc5_ready rc5_inv
proof
  show "rc5_inv d'" if "rc5_inv d" "ir_rc5_decode enabled d ev = (d', as, r)" for d ev d' as r
    using that rc5_again_inv by (auto simp: ir_rc5_decode_def rc5_fail_def rc5_inv_def split: if_splits)
  show "\<exists>d'. ir_rc5_decode enabled d ev = (d', [], Inr ()) \<and> rc5_ready d'" if "ev_reset ev" for ev d
    using that by (simp add: ir_rc5_decode_def is_timing_event_def rc5_ready_def)
  show "e = EINVAL \<and> as = [] \<and> rc5_ready d'" if "ir_rc5_decode enabled d ev = (d', as, Inl e)" for d ev d' as e
    using that rc5_again_reject
    by (auto simp: ir_rc5_decode_def rc5_fail_def rc5_ready_def split: if_splits)
qed

section \<open>Reading what the encoder sends\<close>

definition rc5_tol :: u32 where [ir_const]: "rc5_tol = RC5_UNIT div 2"

abbreviation rc5_half :: "ir_raw_event \<Rightarrow> bool" where
  "rc5_half ev \<equiv> eq_margin (duration ev) RC5_UNIT rc5_tol"

abbreviation rc5_full :: "ir_raw_event \<Rightarrow> bool" where
  "rc5_full ev \<equiv> eq_margin (duration ev) (RC5_UNIT + RC5_UNIT) rc5_tol"

text \<open>One turn of the loop, for events (or what is left of them) of one or two half bits.\<close>

lemma rc5_turn_bit:
  assumes "rc5_half ev" "rc5_st d = RC5_STATE_BIT_START \<or> rc5_st d = RC5_STATE_CHECK_RC5X"
  shows "rc5_again enabled d ev =
    (d\<lparr>rc5_bits := push_bit 1 (rc5_bits d) OR of_bool (\<not> pulse ev), rc5_count := rc5_count d + 1,
       rc5_st := RC5_STATE_BIT_END, is_rc5x := is_rc5x d \<and> rc5_st d = RC5_STATE_BIT_START\<rparr>, [], Inr ())"
proof -
  have m: "geq_margin (duration ev) RC5_UNIT (RC5_UNIT div 2)" "\<not> geq_margin (duration ev) RC5_TRAILER (RC5_UNIT div 2)"
    "\<not> geq_margin (duration ev) RC5X_SPACE (RC5_UNIT div 2)" "eq_margin (duration ev) RC5_BIT_START (RC5_UNIT div 2)"
    using assms(1) by (auto simp: margin_nat ir_const)
  have start: "rc5_again enabled c ev =
      (c\<lparr>rc5_bits := push_bit 1 (rc5_bits c) OR of_bool (\<not> pulse ev), rc5_count := rc5_count c + 1,
         rc5_st := RC5_STATE_BIT_END\<rparr>, [], Inr ())" if "rc5_st c = RC5_STATE_BIT_START" for c
    using m that by (subst rc5_again.simps) (simp add: Let_def)
  from assms(2) show ?thesis
  proof
    assume "rc5_st d = RC5_STATE_CHECK_RC5X"
    with m have "rc5_again enabled d ev = rc5_again enabled (d\<lparr>is_rc5x := False, rc5_st := RC5_STATE_BIT_START\<rparr>) ev"
      by (subst rc5_again.simps) simp
    with \<open>rc5_st d = RC5_STATE_CHECK_RC5X\<close> show ?thesis by (simp add: start)
  qed (simp add: start)
qed

lemma rc5_turn_end:
  assumes "geq_margin (duration ev) RC5_UNIT (RC5_UNIT div 2)"
    "rc5_st d = RC5_STATE_BIT_END \<or> rc5_st d = RC5_STATE_INACTIVE \<and> pulse ev"
  shows "rc5_again enabled d ev = rc5_again enabled
    (if rc5_st d = RC5_STATE_INACTIVE then d\<lparr>rc5_st := RC5_STATE_BIT_START, rc5_count := 1\<rparr>
     else if rc5_count d = 8 then d\<lparr>rc5_st := RC5_STATE_CHECK_RC5X\<rparr> else d\<lparr>rc5_st := RC5_STATE_BIT_START\<rparr>)
    (decrease_duration ev RC5_UNIT)"
  using assms by (subst rc5_again.simps) (auto simp: CHECK_RC5X_NBITS_def RC5_BIT_START_def RC5_BIT_END_def)

lemma rc5_half_rest: "rc5_half ev \<Longrightarrow> rc5_again enabled d (decrease_duration ev RC5_UNIT) = (d, [], Inr ())"
  by (subst rc5_again.simps) (auto simp: margin_nat ir_const)

lemma rc5_full_rest: "rc5_full ev \<Longrightarrow> rc5_half (decrease_duration ev RC5_UNIT)"
  by (auto simp: margin_nat ir_const)

lemma rc5_long: "rc5_half ev \<or> rc5_full ev \<Longrightarrow> geq_margin (duration ev) RC5_UNIT (RC5_UNIT div 2)"
  by (auto simp: margin_nat ir_const)

text \<open>From the middle of a bit to the middle of the next.\<close>

definition rc5_next :: "rc5_dec \<Rightarrow> bool \<Rightarrow> rc5_dec" where
  "rc5_next d b = d\<lparr>rc5_bits := push_bit 1 (rc5_bits d) OR of_bool b,
     rc5_count := (if rc5_st d = RC5_STATE_INACTIVE then 1 else rc5_count d) + 1, rc5_st := RC5_STATE_BIT_END,
     is_rc5x := is_rc5x d \<and> (rc5_st d = RC5_STATE_INACTIVE \<or> rc5_count d \<noteq> 8)\<rparr>"

lemma rc5_symbol_run:
  assumes "jittered rc5_tol (mn_symbol ir_rc5_timings (b, b')) es"
    "rc5_st d = RC5_STATE_BIT_END \<or> rc5_st d = RC5_STATE_INACTIVE \<and> b"
  shows "decode_run (ir_rc5_decode enabled) d es = (rc5_next d b', [])"
proof (cases "b = b'")
  case True
  with assms(1) obtain e1 e2 where es: "es = [e1, e2]" "pulse e1 = b" "pulse e2 = (\<not> b')" "is_timing_event e1"
    "is_timing_event e2" "rc5_half e1" "rc5_half e2"
    by (auto simp: jittered_Cons mn_level_def ir_rc5_timings_def)
  from es assms(2) show ?thesis
    by (auto simp: ir_rc5_decode_def rc5_long rc5_turn_end rc5_half_rest rc5_turn_bit rc5_next_def)
next
  case False
  with assms(1) obtain e1 where es: "es = [e1]" "pulse e1 = (\<not> b')" "is_timing_event e1" "rc5_full e1"
    by (auto simp: jittered_Cons mn_level_def ir_rc5_timings_def)
  from es False assms(2) show ?thesis
    by (auto simp: ir_rc5_decode_def rc5_long rc5_turn_end rc5_full_rest rc5_turn_bit rc5_next_def)
qed

definition rc5_got :: "bool \<Rightarrow> nat \<Rightarrow> nat \<Rightarrow> u32 \<Rightarrow> rc5_dec \<Rightarrow> bool" where
  "rc5_got x base k acc d \<longleftrightarrow> unat (rc5_count d) = base + k \<and> rc5_bits d = acc \<and>
     rc5_st d = RC5_STATE_BIT_END \<and> (base + k > 8 \<longrightarrow> is_rc5x d = x)"

lemma rc5_got_symbol:
  assumes "rc5_got x base k acc d" "base + k < 20" "x \<longrightarrow> base + k \<noteq> 8"
    "jittered rc5_tol (mn_symbol ir_rc5_timings bb) es"
  shows "\<exists>d'. decode_run (ir_rc5_decode enabled) d es = (d', []) \<and>
    rc5_got x base (Suc k) (push_bit 1 acc OR of_bool (snd bb)) d'"
proof -
  obtain b b' where bb: "bb = (b, b')" by (cases bb)
  have c: "unat (rc5_count d + 1) = base + Suc k" "rc5_count d = 8 \<longleftrightarrow> base + k = 8"
    using assms(1,2) by (simp_all add: rc5_got_def unat_inc word_unat_eq_iff)
  show ?thesis
    using rc5_symbol_run [OF assms(4) [unfolded bb], of d enabled] assms(1,3) c
    by (auto simp: bb rc5_next_def rc5_got_def)
qed

interpretation rc5_plain: ir_receiver "ir_rc5_decode enabled" rc5_tol "mn_symbol ir_rc5_timings"
  "\<lambda>a bb. push_bit 1 a OR of_bool (snd bb)" 20 "rc5_got False 0"
  by unfold_locales (rule rc5_got_symbol; simp)

interpretation rc5x_head: ir_receiver "ir_rc5_decode enabled" rc5_tol "mn_symbol ir_rc5_timings"
  "\<lambda>a bb. push_bit 1 a OR of_bool (snd bb)" 8 "rc5_got True 0"
  by unfold_locales (rule rc5_got_symbol; simp)

interpretation rc5x_tail: ir_receiver "ir_rc5_decode enabled" rc5_tol "mn_symbol ir_rc5_timings"
  "\<lambda>a bb. push_bit 1 a OR of_bool (snd bb)" 11 "rc5_got True 9"
  by unfold_locales (rule rc5_got_symbol; simp)

text \<open>The trailer, and the gap of RC-5X after the eighth bit.\<close>

lemma rc5_trailer_turn:
  assumes "geq_margin (duration ev) RC5_TRAILER (RC5_UNIT div 2)" "\<not> pulse ev" "rc5_st d = RC5_STATE_BIT_START"
  shows "rc5_again enabled d ev = rc5_finished enabled (d\<lparr>rc5_st := RC5_STATE_FINISHED\<rparr>) ev"
proof -
  have "geq_margin (duration ev) RC5_UNIT (RC5_UNIT div 2)" using assms(1) by (simp add: margin_nat ir_const)
  with assms show ?thesis by (simp add: rc5_again.simps)
qed

lemma rc5_end_run:
  assumes "jittered rc5_tol (mn_end ir_rc5_timings b) es" "rc5_st d = RC5_STATE_BIT_END" "rc5_count d \<noteq> 8"
    "\<And>ev. \<not> pulse ev \<Longrightarrow> rc5_finished enabled (d\<lparr>rc5_st := RC5_STATE_FINISHED\<rparr>) ev = (d', as, Inr ())"
  shows "decode_run (ir_rc5_decode enabled) d es = (d', as)"
proof -
  let ?T = "RC5_UNIT * 10"
  have T: "ir_rc5_timings = \<lparr>mn_leader_pulse = RC5_UNIT, mn_leader_space = 0, mn_clock = RC5_UNIT, mn_invert = False,
     mn_trailer_space = ?T\<rparr>" "?T \<noteq> 0"
    by (simp_all add: ir_rc5_timings_def RC5_UNIT_def)
  show ?thesis
  proof (cases b)
    case True
    with assms(1) obtain e1 e2 where es: "es = [e1, e2]" "\<not> pulse e2" "is_timing_event e1" "is_timing_event e2"
      "rc5_half e1" "eq_margin (duration e2) ?T rc5_tol"
      by (auto simp: mn_end_def T mn_half_def mn_level_def jittered_Cons)
    moreover from es(6) have "geq_margin (duration e2) RC5_TRAILER (RC5_UNIT div 2)"
      "geq_margin (duration e2) RC5_UNIT (RC5_UNIT div 2)" by (auto simp: margin_nat ir_const)
    ultimately show ?thesis using assms(2,3) assms(4) [of e2]
      by (auto simp: ir_rc5_decode_def rc5_long rc5_turn_end rc5_half_rest rc5_trailer_turn)
  next
    case False
    with assms(1) obtain e1 where es: "es = [e1]" "\<not> pulse e1" "is_timing_event e1"
      "eq_margin (duration e1) (RC5_UNIT + ?T) rc5_tol"
      by (auto simp: mn_end_def T mn_half_def mn_level_def jittered_Cons)
    moreover from es(4) have "geq_margin (duration (decrease_duration e1 RC5_UNIT)) RC5_TRAILER (RC5_UNIT div 2)"
      "geq_margin (duration e1) RC5_UNIT (RC5_UNIT div 2)" by (auto simp: margin_nat ir_const)
    ultimately show ?thesis using assms(2,3) assms(4) [of "decrease_duration e1 RC5_UNIT"]
      by (auto simp: ir_rc5_decode_def rc5_turn_end rc5_trailer_turn)
  qed
qed

lemma rc5x_gap_turn:
  assumes "geq_margin (duration ev) RC5X_SPACE (RC5_UNIT div 2)" "\<not> pulse ev" "rc5_st d = RC5_STATE_CHECK_RC5X"
  shows "rc5_again enabled d ev = rc5_again enabled (d\<lparr>is_rc5x := True, rc5_st := RC5_STATE_BIT_START\<rparr>)
    (decrease_duration ev RC5X_SPACE)"
proof -
  have "geq_margin (duration ev) RC5_UNIT (RC5_UNIT div 2)" using assms(1) by (simp add: margin_nat ir_const)
  with assms show ?thesis by (subst rc5_again.simps) simp
qed

definition rc5x_gap :: "bool \<Rightarrow> bool \<Rightarrow> ir_raw_event list" where
  "rc5x_gap b c = (if b then [init_ir_raw_event_duration True RC5_UNIT] else []) @
     mn_join ir_rc5_timings (init_ir_raw_event_duration False (if b then RC5X_SPACE else RC5_UNIT + RC5X_SPACE)) c"

lemma rc5x_space_run:
  assumes "jittered rc5_tol (mn_join ir_rc5_timings (init_ir_raw_event_duration False (if b then RC5X_SPACE else RC5_UNIT + RC5X_SPACE)) c) es"
    "rc5_st d = (if b then RC5_STATE_CHECK_RC5X else RC5_STATE_BIT_END)" "rc5_count d = 8"
  shows "decode_run (ir_rc5_decode enabled) d es =
    (d\<lparr>rc5_bits := push_bit 1 (rc5_bits d) OR of_bool c, rc5_count := 9, rc5_st := RC5_STATE_BIT_END,
       is_rc5x := True\<rparr>, [])"
proof -
  obtain e1 es2 where es: "es = e1 # es2" "\<not> pulse e1" "is_timing_event e1"
    and dur: "eq_margin (duration e1) ((if b then RC5X_SPACE else RC5_UNIT + RC5X_SPACE) + (if c then RC5_UNIT else 0)) rc5_tol"
    and es2: "if c then es2 = [] else \<exists>e2. es2 = [e2] \<and> pulse e2 \<and> is_timing_event e2 \<and> rc5_half e2"
    using assms(1) by (auto simp: mn_join_def mn_level_def ir_rc5_timings_def jittered_Cons split: if_splits)
  let ?e = "if b then e1 else decrease_duration e1 RC5_UNIT"
  have m: "geq_margin (duration e1) RC5_UNIT (RC5_UNIT div 2)" "geq_margin (duration ?e) RC5X_SPACE (RC5_UNIT div 2)"
    "if c then rc5_half (decrease_duration ?e RC5X_SPACE)
     else \<not> geq_margin (duration (decrease_duration ?e RC5X_SPACE)) RC5_UNIT (RC5_UNIT div 2)"
    using dur by (auto simp: margin_nat ir_const split: if_splits)
  let ?d = "d\<lparr>is_rc5x := True, rc5_st := RC5_STATE_BIT_START\<rparr>"
  have "rc5_again enabled d e1 = rc5_again enabled ?d (decrease_duration ?e RC5X_SPACE)"
    using assms(2,3) m(1,2) es(2) by (auto simp: rc5_turn_end rc5x_gap_turn split: if_splits)
  moreover have "rc5_again enabled ?d (decrease_duration ?e RC5X_SPACE) = (?d, [], Inr ())" if "\<not> c"
    using m(3) that by (subst rc5_again.simps) simp
  ultimately show ?thesis
    using m(1,3) es es2 assms(3)
    by (auto simp: ir_rc5_decode_def rc5_turn_bit rc5_long split: if_splits)
qed

lemma rc5x_gap_run:
  assumes "jittered rc5_tol (rc5x_gap b c) es" "rc5_got True 0 8 acc d"
  shows "\<exists>d'. decode_run (ir_rc5_decode enabled) d es = (d', []) \<and> rc5_got True 9 0 (push_bit 1 acc OR of_bool c) d'"
proof -
  have d: "rc5_st d = RC5_STATE_BIT_END" "rc5_count d = 8" "rc5_bits d = acc"
    using assms(2) by (simp_all add: rc5_got_def word_unat_eq_iff)
  show ?thesis
  proof (cases b)
    case True
    with assms(1) obtain e1 es2 where es: "es = e1 # es2" "is_timing_event e1" "rc5_half e1"
      and es2: "jittered rc5_tol (mn_join ir_rc5_timings (init_ir_raw_event_duration False (if b then RC5X_SPACE else RC5_UNIT + RC5X_SPACE)) c) es2"
      by (auto simp: rc5x_gap_def jittered_Cons)
    have "ir_rc5_decode enabled d e1 = (d\<lparr>rc5_st := RC5_STATE_CHECK_RC5X\<rparr>, [], Inr ())"
      using es d by (simp add: ir_rc5_decode_def rc5_long rc5_turn_end rc5_half_rest)
    with rc5x_space_run [OF es2, of "d\<lparr>rc5_st := RC5_STATE_CHECK_RC5X\<rparr>"] True d show ?thesis
      by (simp add: es(1) rc5_got_def)
  next
    case False
    with assms(1) rc5x_space_run [of b c es d] d show ?thesis by (simp add: rc5x_gap_def rc5_got_def)
  qed
qed

text \<open>The bits of a message up to the trailer or the gap.\<close>

lemma rc5_bits_run:
  assumes "rc5_ready d" "length bs + 1 \<le> (if x then 8 else 20)" "bs \<noteq> []"
    "jittered rc5_tol (concat (map (mn_symbol ir_rc5_timings) (mn_chain True bs))) es"
  shows "\<exists>d'. decode_run (ir_rc5_decode enabled) d es = (d', []) \<and> rc5_got x 0 (length bs + 1) (shift_in (rc5_bits d) bs) d'"
proof -
  obtain c cs where bs: "bs = c # cs" using assms(3) by (cases bs) auto
  from assms(4) obtain ys zs where es: "es = ys @ zs" and ys: "jittered rc5_tol (mn_symbol ir_rc5_timings (True, c)) ys"
    and zs: "jittered rc5_tol (concat (map (mn_symbol ir_rc5_timings) (mn_chain c cs))) zs"
    unfolding bs mn_chain.simps list.map concat.simps jittered_append by blast
  have run: "decode_run (ir_rc5_decode enabled) d ys = (rc5_next d c, [])"
    using rc5_symbol_run [OF ys] assms(1) by (simp add: rc5_ready_def)
  define acc where "acc = push_bit 1 (rc5_bits d) OR of_bool c"
  have got: "rc5_got x 0 2 acc (rc5_next d c)"
    using assms(1) by (simp add: rc5_got_def rc5_next_def rc5_ready_def acc_def)
  have "\<exists>d'. decode_run (ir_rc5_decode enabled) (rc5_next d c) zs = (d', []) \<and>
      rc5_got x 0 (2 + length cs) (shift_in acc cs) d'"
  proof (cases x)
    case True
    with got have "rc5_got True 0 2 acc (rc5_next d c)" by simp
    from rc5x_head.got_symbols [OF this _ zs, unfolded foldl_push_snd length_mn_chain] assms(2) bs True
    show ?thesis by simp
  next
    case False
    with got have "rc5_got False 0 2 acc (rc5_next d c)" by simp
    from rc5_plain.got_symbols [OF this _ zs, unfolded foldl_push_snd length_mn_chain] assms(2) bs False
    show ?thesis by simp
  qed
  then obtain d' where "decode_run (ir_rc5_decode enabled) (rc5_next d c) zs = (d', [])"
    "rc5_got x 0 (2 + length cs) (shift_in acc cs) d'" by blast
  with decode_run_trans [OF run] show ?thesis by (simp add: es bs acc_def)
qed

lemma rc5_timings_symbol [simp]:
  "mn_symbol ir_rc5x_timings_0 = mn_symbol ir_rc5_timings" "mn_symbol ir_rc5x_timings_1 = mn_symbol ir_rc5_timings"
  "mn_symbol ir_rc5_sz_timings = mn_symbol ir_rc5_timings" "mn_join ir_rc5x_timings_1 = mn_join ir_rc5_timings"
  "mn_end ir_rc5x_timings_1 = mn_end ir_rc5_timings" "ir_rc5_sz_timings = ir_rc5_timings"
  by (auto simp: fun_eq_iff mn_join_def mn_end_def mn_half_def mn_level_def ir_rc5_timings_def ir_rc5x_timings_0_def
      ir_rc5x_timings_1_def ir_rc5_sz_timings_def)

lemma rc5_gen:
  assumes "ir_raw_gen_manchester ([], room) t (Suc i) d = ((evs', room'), None)" "i < 64"
    "mn_leader_pulse t = RC5_UNIT" "mn_leader_space t = 0" "mn_clock t = RC5_UNIT" "\<not> mn_invert t"
  shows "evs' = concat (map (mn_symbol t) (mn_chain True (msb_bits (Suc i) d))) @ mn_end t (last (msb_bits (Suc i) d))"
proof -
  let ?x = "init_ir_raw_event_duration True RC5_UNIT"
  have "RC5_UNIT \<noteq> 0" by (simp add: RC5_UNIT_def)
  then have "[] @ mn_leader t = [] @ [?x]" using assms by (simp add: mn_leader_def)
  from gen_manchester_ok [OF assms(1,2) this] assms(5,6) show ?thesis
    by (auto simp: mn_join_def mn_level_def)
qed

definition rc5_data :: "u32 \<Rightarrow> u32" where
  "rc5_data sc = push_bit 12 (if drop_bit 6 (sc AND 0x0040) = 0 then 1 else 0) OR
     push_bit 6 (drop_bit 8 (sc AND 0x1f00)) OR drop_bit 0 (sc AND 0x003f)"

definition rc5x_data :: "u32 \<Rightarrow> u32" where
  "rc5x_data sc = push_bit 18 (if sc AND 0x004000 = 0 then 1 else 0) OR push_bit 12 (drop_bit 16 (sc AND 0x1f0000)) OR
     push_bit 6 (drop_bit 8 (sc AND 0x003f00)) OR drop_bit 0 (sc AND 0x00003f)"

lemma rc5_encode_events:
  "ir_rc5_encode RC_PROTO_RC5 sc room = (es, Inr n) \<Longrightarrow>
   es = concat (map (mn_symbol ir_rc5_timings) (mn_chain True (msb_bits 13 (rc5_data sc)))) @
     mn_end ir_rc5_timings (last (msb_bits 13 (rc5_data sc)))"
proof -
  assume "ir_rc5_encode RC_PROTO_RC5 sc room = (es, Inr n)"
  then have "encode_result (ir_raw_gen_manchester ([], room) ir_rc5_timings (Suc 12) (ucast (rc5_data sc))) = (es, Inr n)"
    by (simp add: ir_rc5_encode_def Let_def RC5_NBITS_def rc5_data_def)
  then obtain room' where "ir_raw_gen_manchester ([], room) ir_rc5_timings (Suc 12) (ucast (rc5_data sc)) = ((es, room'), None)"
    unfolding encode_result_ok by blast
  from rc5_gen [OF this] show ?thesis by (simp add: ir_rc5_timings_def del: msb_bits_Suc)
qed

lemma rc5_sz_encode_events:
  "ir_rc5_encode RC_PROTO_RC5_SZ sc room = (es, Inr n) \<Longrightarrow>
   es = concat (map (mn_symbol ir_rc5_timings) (mn_chain True (msb_bits 14 (sc AND 0x2fff)))) @
     mn_end ir_rc5_timings (last (msb_bits 14 (sc AND 0x2fff)))"
proof -
  assume "ir_rc5_encode RC_PROTO_RC5_SZ sc room = (es, Inr n)"
  then have "encode_result (ir_raw_gen_manchester ([], room) ir_rc5_timings (Suc 13) (ucast (sc AND 0x2fff))) = (es, Inr n)"
    by (simp add: ir_rc5_encode_def Let_def RC5_SZ_NBITS_def)
  then obtain room' where "ir_raw_gen_manchester ([], room) ir_rc5_timings (Suc 13) (ucast (sc AND 0x2fff)) = ((es, room'), None)"
    unfolding encode_result_ok by blast
  from rc5_gen [OF this] show ?thesis by (simp add: ir_rc5_timings_def del: msb_bits_Suc)
qed

lemma rc5x_encode_events:
  "ir_rc5_encode RC_PROTO_RC5X_20 sc room = (es, Inr n) \<Longrightarrow>
   es = concat (map (mn_symbol ir_rc5_timings) (mn_chain True (msb_bits 7 (drop_bit 12 (rc5x_data sc))))) @
     rc5x_gap (last (msb_bits 7 (drop_bit 12 (rc5x_data sc)))) (bit (rc5x_data sc) 11) @
     concat (map (mn_symbol ir_rc5_timings) (mn_chain (bit (rc5x_data sc) 11) (msb_bits 11 (rc5x_data sc)))) @
     mn_end ir_rc5_timings (last (bit (rc5x_data sc) 11 # msb_bits 11 (rc5x_data sc)))"
proof -
  let ?data = "rc5x_data sc" and ?pre = "drop_bit 12 (rc5x_data sc)"
  assume "ir_rc5_encode RC_PROTO_RC5X_20 sc room = (es, Inr n)"
  then have "encode_result
      (gen_then (ir_raw_gen_manchester ([], room) ir_rc5x_timings_0 (Suc 6) (ucast ?pre))
        (\<lambda>s. ir_raw_gen_manchester s ir_rc5x_timings_1 (Suc 11) (ucast ?data))) = (es, Inr n)"
    by (simp add: ir_rc5_encode_def Let_def RC5X_NBITS_def CHECK_RC5X_NBITS_def rc5x_data_def)
  then obtain e1 r1 room' where 1: "ir_raw_gen_manchester ([], room) ir_rc5x_timings_0 (Suc 6) (ucast ?pre) = ((e1, r1), None)"
    and 2: "ir_raw_gen_manchester (e1, r1) ir_rc5x_timings_1 (Suc 11) (ucast ?data) = ((es, room'), None)"
    unfolding encode_result_ok gen_then_ok by auto
  let ?b = "last (msb_bits 7 ?pre)"
  let ?x = "init_ir_raw_event_duration False (if ?b then RC5X_SPACE else RC5_UNIT + RC5X_SPACE)"
  let ?pe = "concat (map (mn_symbol ir_rc5_timings) (mn_chain True (msb_bits 7 ?pre))) @
     (if ?b then [init_ir_raw_event_duration True RC5_UNIT] else [])"
  have nz: "RC5X_SPACE \<noteq> 0" by (simp add: ir_const)
  have "e1 = ?pe @ [?x]"
    using rc5_gen [OF 1] nz
    by (simp add: ir_rc5x_timings_0_def mn_end_def mn_half_def mn_level_def del: msb_bits_Suc
        flip: ir_rc5x_timings_0_def) (simp add: ir_rc5x_timings_0_def mn_end_def mn_half_def mn_level_def)
  then have "e1 @ mn_leader ir_rc5x_timings_1 = ?pe @ [?x]" by (simp add: mn_leader_def ir_rc5x_timings_1_def)
  from gen_manchester_ok [OF 2 _ this] show ?thesis
    by (simp add: rc5x_gap_def bit_ucast_iff del: msb_bits_Suc)
qed

lemma u32_bit_test:
  "(w :: u32) AND 0x1000 = 0 \<longleftrightarrow> \<not> bit w 12" "w AND 0x800 = 0 \<longleftrightarrow> \<not> bit w 11" "w AND 0x40 = 0 \<longleftrightarrow> \<not> bit w 6"
  "w AND 0x20000 = 0 \<longleftrightarrow> \<not> bit w 17" "w AND 0x40000 = 0 \<longleftrightarrow> \<not> bit w 18" "w AND 0x4000 = 0 \<longleftrightarrow> \<not> bit w 14"
  using and_push_bit [of 12 w] and_push_bit [of 11 w] and_push_bit [of 6 w] and_push_bit [of 17 w]
    and_push_bit [of 18 w] and_push_bit [of 14 w] by simp_all

lemma command_plus: "(ucast (drop_bit k (bits AND m)) :: u8) + 0x40 = ucast (drop_bit k (bits AND m)) OR 0x40"
  if "\<not> bit (m :: u32) (6 + k)"
proof -
  have "(ucast (drop_bit k (bits AND m)) :: u8) AND 0x40 = 0"
    by (rule u8_eqI, unfold upt_8) (use that in \<open>auto simp: bit_simps add.commute\<close>)
  then show ?thesis by (rule disjunctive_add_eq_or)
qed

lemma rc5_scancode:
  fixes bits acc :: u32
  assumes c: "canonical_scancode RC_PROTO_RC5 sc" and b: "bits = shift_in acc (msb_bits 13 (rc5_data sc))"
  shows "push_bit 8 (ucast (ucast (drop_bit 6 (bits AND 0x007C0)) :: u8)) OR
     ucast ((ucast (drop_bit 0 (bits AND 0x0003F)) :: u8) + (if bits AND 0x01000 \<noteq> 0 then 0 else 0x40)) = sc"
    "bits AND 0x800 = 0"
proof -
  have bit: "bit bits i = bit (rc5_data sc) i" if "i < 13" for i using that by (simp add: b bit_shift_in_msb)
  have x: "drop_bit 6 sc AND 1 = 0 \<longleftrightarrow> \<not> bit sc 6"
    by (simp add: and_one_eq even_iff_mod_2_eq_zero [symmetric] bit_iff_odd_drop_bit)
  have 12: "bit bits 12 \<longleftrightarrow> \<not> bit sc 6" by (simp add: bit rc5_data_def x bit_simps)
  show "push_bit 8 (ucast (ucast (drop_bit 6 (bits AND 0x007C0)) :: u8)) OR
     ucast ((ucast (drop_bit 0 (bits AND 0x0003F)) :: u8) + (if bits AND 0x01000 \<noteq> 0 then 0 else 0x40)) = sc"
  proof (cases "bit sc 6")
    case True
    have "(ucast (drop_bit 0 (bits AND 0x3F)) :: u8) + 0x40 = ucast (drop_bit 0 (bits AND 0x3F)) OR 0x40"
      by (rule command_plus) simp
    with True 12 show ?thesis
      by (intro u32_eqI, unfold upt_32)
         (auto simp: u32_bit_test bit_simps bit rc5_data_def x dest: canonical_bit [OF c])
  next
    case False
    with 12 show ?thesis
      by (intro u32_eqI, unfold upt_32)
         (auto simp: u32_bit_test bit_simps bit rc5_data_def x dest: canonical_bit [OF c])
  qed
  show "bits AND 0x800 = 0" by (simp add: u32_bit_test bit rc5_data_def bit_simps)
qed

lemma rc5x_scancode:
  fixes bits acc :: u32
  assumes c: "canonical_scancode RC_PROTO_RC5X_20 sc"
    and b: "bits = shift_in (shift_in acc (msb_bits 7 (drop_bit 12 (rc5x_data sc)))) (msb_bits 12 (rc5x_data sc))"
  shows "push_bit 16 (ucast (ucast (drop_bit 12 (bits AND 0x1F000)) :: u8)) OR
     push_bit 8 (ucast ((ucast (drop_bit 6 (bits AND 0x00FC0)) :: u8) + (if bits AND 0x40000 \<noteq> 0 then 0 else 0x40))) OR
     ucast (ucast (drop_bit 0 (bits AND 0x0003F)) :: u8) = sc"
    "bits AND 0x20000 = 0"
proof -
  have bit: "bit bits i = bit (rc5x_data sc) i" if "i < 19" for i
    using that by (auto simp: b bit_shift_in_msb bit_drop_bit_eq)
  have 18: "bit bits 18 \<longleftrightarrow> \<not> bit sc 14" by (simp add: bit rc5x_data_def u32_bit_test bit_simps)
  show "push_bit 16 (ucast (ucast (drop_bit 12 (bits AND 0x1F000)) :: u8)) OR
     push_bit 8 (ucast ((ucast (drop_bit 6 (bits AND 0x00FC0)) :: u8) + (if bits AND 0x40000 \<noteq> 0 then 0 else 0x40))) OR
     ucast (ucast (drop_bit 0 (bits AND 0x0003F)) :: u8) = sc"
  proof (cases "bit sc 14")
    case True
    have "(ucast (drop_bit 6 (bits AND 0xFC0)) :: u8) + 0x40 = ucast (drop_bit 6 (bits AND 0xFC0)) OR 0x40"
      by (rule command_plus) simp
    with True 18 show ?thesis
      by (intro u32_eqI, unfold upt_32)
         (auto simp: u32_bit_test bit_simps bit rc5x_data_def dest: canonical_bit [OF c])
  next
    case False
    with 18 show ?thesis
      by (intro u32_eqI, unfold upt_32)
         (auto simp: u32_bit_test bit_simps bit rc5x_data_def dest: canonical_bit [OF c])
  qed
  show "bits AND 0x20000 = 0" by (simp add: u32_bit_test bit rc5x_data_def bit_simps)
qed

lemma rc5_sz_scancode:
  fixes bits acc :: u32
  assumes c: "canonical_scancode RC_PROTO_RC5_SZ sc" and b: "bits = shift_in acc (msb_bits 14 (sc AND 0x2fff))"
  shows "push_bit 6 (ucast (ucast (drop_bit 6 (bits AND 0x02FC0)) :: u8)) OR
     ucast (ucast (drop_bit 0 (bits AND 0x0003F)) :: u8) = sc"
    "bits AND 0x1000 = 0"
proof -
  have bit: "bit bits i = bit (sc AND 0x2fff) i" if "i < 14" for i using that by (simp add: b bit_shift_in_msb)
  show "push_bit 6 (ucast (ucast (drop_bit 6 (bits AND 0x02FC0)) :: u8)) OR
     ucast (ucast (drop_bit 0 (bits AND 0x0003F)) :: u8) = sc"
    by (rule u32_eqI, unfold upt_32) (auto simp: bit_simps bit dest: canonical_bit [OF c])
  show "bits AND 0x1000 = 0" by (simp add: u32_bit_test bit bit_simps)
qed

text \<open>A message without the gap: its bits, then the trailer.\<close>

lemma rc5_plain_run:
  assumes "rc5_ready d" "length bs = n" "n = 13 \<or> n = 14"
    "jittered rc5_tol (concat (map (mn_symbol ir_rc5_timings) (mn_chain True bs)) @ mn_end ir_rc5_timings (last bs)) es"
    "\<And>d' ev. \<not> pulse ev \<Longrightarrow> rc5_count d' = of_nat (n + 1) \<Longrightarrow> \<not> is_rc5x d' \<Longrightarrow>
      rc5_bits d' = shift_in (rc5_bits d) bs \<Longrightarrow>
      rc5_finished enabled d' ev = (d'\<lparr>rc5_st := RC5_STATE_INACTIVE\<rparr>, [a], Inr ())"
  shows "\<exists>d'. decode_run (ir_rc5_decode enabled) d es = (d', [a]) \<and> rc5_ready d'"
proof -
  from assms(4) obtain ys zs where es: "es = ys @ zs"
    and ys: "jittered rc5_tol (concat (map (mn_symbol ir_rc5_timings) (mn_chain True bs))) ys"
    and zs: "jittered rc5_tol (mn_end ir_rc5_timings (last bs)) zs"
    unfolding jittered_append by blast
  have "length bs + 1 \<le> (if False then 8 else 20)" "bs \<noteq> []" using assms(2,3) by auto
  from rc5_bits_run [OF assms(1) this ys] obtain d1
    where d1: "decode_run (ir_rc5_decode enabled) d ys = (d1, [])"
      "rc5_got False 0 (length bs + 1) (shift_in (rc5_bits d) bs) d1" by blast
  have c: "rc5_count d1 = of_nat (n + 1)" "rc5_count d1 \<noteq> 8" "\<not> is_rc5x d1" "rc5_bits d1 = shift_in (rc5_bits d) bs"
    "rc5_st d1 = RC5_STATE_BIT_END"
    using d1(2) assms(2,3) by (auto simp: rc5_got_def word_unat_eq_iff)
  have "decode_run (ir_rc5_decode enabled) d1 zs = (d1\<lparr>rc5_st := RC5_STATE_INACTIVE\<rparr>, [a])"
  proof (rule rc5_end_run [OF zs c(5,2)])
    show "rc5_finished enabled (d1\<lparr>rc5_st := RC5_STATE_FINISHED\<rparr>) ev = (d1\<lparr>rc5_st := RC5_STATE_INACTIVE\<rparr>, [a], Inr ())"
      if "\<not> pulse ev" for ev
      using assms(5) [OF that, of "d1\<lparr>rc5_st := RC5_STATE_FINISHED\<rparr>"] c by simp
  qed
  from decode_run_trans [OF d1(1) this] show ?thesis by (simp add: es rc5_ready_def)
qed

lemma rc5x_run:
  assumes "rc5_ready d" "canonical_scancode RC_PROTO_RC5X_20 sc" "proto_enabled enabled RC_PROTO_RC5X_20"
    "ir_rc5_encode RC_PROTO_RC5X_20 sc room = (es0, Inr n)" "jittered rc5_tol es0 es"
  shows "\<exists>d'. decode_run (ir_rc5_decode enabled) d es = (d', [Rc_keydown RC_PROTO_RC5X_20 sc 0]) \<and> rc5_ready d'"
proof -
  let ?run = "decode_run (ir_rc5_decode enabled)"
  define hb tb c where "hb = msb_bits 7 (drop_bit 12 (rc5x_data sc))" and "tb = msb_bits 11 (rc5x_data sc)"
    and "c = bit (rc5x_data sc) 11"
  have len: "length hb = 7" "length tb = 11" "hb \<noteq> []" by (auto simp: hb_def tb_def simp flip: length_0_conv)
  from rc5x_encode_events [OF assms(4), folded hb_def tb_def c_def] assms(5)
  obtain e1 e2 e3 e4 where es: "es = e1 @ e2 @ e3 @ e4"
    and e1: "jittered rc5_tol (concat (map (mn_symbol ir_rc5_timings) (mn_chain True hb))) e1"
    and e2: "jittered rc5_tol (rc5x_gap (last hb) c) e2"
    and e3: "jittered rc5_tol (concat (map (mn_symbol ir_rc5_timings) (mn_chain c tb))) e3"
    and e4: "jittered rc5_tol (mn_end ir_rc5_timings (last (c # tb))) e4"
    by (auto simp: jittered_append simp del: last.simps)
  from rc5_bits_run [OF assms(1) _ len(3) e1, of True] len obtain d1
    where d1: "?run d e1 = (d1, [])" "rc5_got True 0 8 (shift_in (rc5_bits d) hb) d1" by auto
  from rc5x_gap_run [OF e2 d1(2)] obtain d2
    where d2: "?run d1 e2 = (d2, [])" "rc5_got True 9 0 (push_bit 1 (shift_in (rc5_bits d) hb) OR of_bool c) d2" by blast
  from rc5x_tail.got_symbols [OF d2(2) _ e3, unfolded foldl_push_snd length_mn_chain] len obtain d3
    where d3: "?run d2 e3 = (d3, [])"
      "rc5_got True 9 11 (shift_in (push_bit 1 (shift_in (rc5_bits d) hb) OR of_bool c) tb) d3" by auto
  have bits: "msb_bits 12 (rc5x_data sc) = c # tb" by (simp add: eval_nat_numeral c_def tb_def)
  have "rc5_bits d3 = shift_in (shift_in (rc5_bits d) hb) (msb_bits 12 (rc5x_data sc))"
    using d3(2) by (simp add: rc5_got_def bits)
  note sc = rc5x_scancode [OF assms(2) this [unfolded hb_def]]
  have c: "rc5_count d3 = 20" "rc5_count d3 \<noteq> 8" "is_rc5x d3" "rc5_st d3 = RC5_STATE_BIT_END"
    using d3(2) by (auto simp: rc5_got_def word_unat_eq_iff)
  have "?run d3 e4 = (d3\<lparr>rc5_st := RC5_STATE_INACTIVE\<rparr>, [Rc_keydown RC_PROTO_RC5X_20 sc 0])"
    by (rule rc5_end_run [OF e4 c(4,2)])
       (use assms(3) c sc in \<open>simp add: rc5_finished_def RC5X_NBITS_def rc5_keydown_def Let_def\<close>)
  from decode_run_trans [OF d1(1) decode_run_trans [OF d2(1) decode_run_trans [OF d3(1) this]]] show ?thesis
    by (simp add: es rc5_ready_def)
qed

abbreviation rc5_protos :: "rc_proto set" where
  "rc5_protos \<equiv> {RC_PROTO_RC5, RC_PROTO_RC5X_20, RC_PROTO_RC5_SZ}"

lemma rc5_roundtrip:
  assumes "rc5_ready d" "canonical_scancode p sc" "p \<in> rc5_protos" "proto_enabled enabled p"
    "ir_rc5_encode p sc room = (es, Inr n)" "jittered rc5_tol es es'"
  shows "\<exists>d'. decode_run (ir_rc5_decode enabled) d es' = (d', [Rc_keydown p sc 0]) \<and> rc5_ready d'"
proof -
  from assms(3) consider "p = RC_PROTO_RC5" | "p = RC_PROTO_RC5X_20" | "p = RC_PROTO_RC5_SZ" by blast
  then show ?thesis
  proof cases
    case 1
    note j = assms(6) [unfolded rc5_encode_events [OF assms(5) [unfolded 1]]]
    note sc = rc5_scancode [OF assms(2) [unfolded 1] refl]
    show ?thesis unfolding 1
      by (rule rc5_plain_run [OF assms(1) _ _ j, of 13])
         (use assms(4) 1 sc in \<open>simp_all add: rc5_finished_def RC5_NBITS_def RC5_SZ_NBITS_def rc5_keydown_def Let_def\<close>)
  next
    case 2
    then show ?thesis using rc5x_run assms by blast
  next
    case 3
    note j = assms(6) [unfolded rc5_sz_encode_events [OF assms(5) [unfolded 3]]]
    note sc = rc5_sz_scancode [OF assms(2) [unfolded 3] refl]
    show ?thesis unfolding 3
      by (rule rc5_plain_run [OF assms(1) _ _ j, of 14])
         (use assms(4) 3 sc in \<open>simp_all add: rc5_finished_def RC5_NBITS_def RC5_SZ_NBITS_def rc5_keydown_def Let_def\<close>)
  qed
qed

interpretation rc5_codec: ir_codec "ir_rc5_decode enabled" rc5_ready rc5_inv ir_rc5_encode
  "\<lambda>p sc. p \<in> rc5_protos \<and> proto_enabled enabled p \<and> canonical_scancode p sc" rc5_tol
  by unfold_locales (use rc5_roundtrip in blast)

section \<open>Properties\<close>

text \<open>
  C24: A sequence of RC-5, RC-5X and StreamZap messages, in any mix of the enabled variants, sent with
  \<^verbatim>\<open>ir_rc5_encode\<close> and received with every duration off by less than half a unit, is decoded by
  \<^verbatim>\<open>ir_rc5_decode\<close> as exactly the key presses sent, in order, each with its variant: the half bits
  that the modulation merges into one event are taken apart again.
\<close>

theorem rc5_stream_roundtrip:
  assumes "rc5_inv d" "rc5_ready d"
    "\<forall>(p, sc) \<in> set msgs. p \<in> rc5_protos \<and> proto_enabled enabled p \<and> canonical_scancode p sc"
    "transmitted ir_rc5_encode rc5_tol msgs evs"
  shows "\<exists>d' as. decode_run (ir_rc5_decode enabled) d evs = (d', as) \<and> key_presses msgs as \<and> rc5_ready d'"
  by (rule rc5_codec.stream_roundtrip [OF assms])

lemma rc5_example_sends:
  "sends (ir_rc5_encode RC_PROTO_RC5 0x1e3d 64) rc5_tol" "sends (ir_rc5_encode RC_PROTO_RC5X_20 0x0d552a 64) rc5_tol"
  by code_simp+

theorem rc5_stream_roundtrip_witness:
  "\<exists>evs d' as. decode_run (ir_rc5_decode 0xff)
       \<lparr>rc5_st = RC5_STATE_INACTIVE, rc5_bits = 99, rc5_count = 5, is_rc5x = True\<rparr> evs = (d', as) \<and>
     key_presses [(RC_PROTO_RC5, 0x1e3d), (RC_PROTO_RC5X_20, 0x0d552a)] as"
proof -
  let ?d = "\<lparr>rc5_st = RC5_STATE_INACTIVE, rc5_bits = 99, rc5_count = 5, is_rc5x = True\<rparr>"
  let ?msgs = "[(RC_PROTO_RC5, 0x1e3d), (RC_PROTO_RC5X_20, 0x0d552a)]"
  obtain es1 n1 es2 n2 where "ir_rc5_encode RC_PROTO_RC5 0x1e3d 64 = (es1, Inr n1)" "jittered rc5_tol es1 es1"
    "ir_rc5_encode RC_PROTO_RC5X_20 0x0d552a 64 = (es2, Inr n2)" "jittered rc5_tol es2 es2"
    using rc5_example_sends by (metis sendsE)
  then have "transmitted ir_rc5_encode rc5_tol ?msgs (es1 @ es2 @ [])" by (intro transmittedI; simp)
  moreover have "\<forall>(p, sc) \<in> set ?msgs. p \<in> rc5_protos \<and> proto_enabled 0xff p \<and> canonical_scancode p sc"
    by (simp add: canonical_scancode_def rc_validate_scancode_def proto_enabled_def rc_proto_bit_def)
  ultimately show ?thesis
    using rc5_stream_roundtrip [of ?d ?msgs "0xff" "es1 @ es2 @ []"]
    by (simp only: rc5_inv_def rc5_ready_def rc5_dec.simps rc5_state.simps simp_thms) blast
qed

end
