(* ===== verification/Ir_Rc6.thy ===== *)
theory Ir_Rc6
  imports Rc_Proto
begin

text \<open>
  The RC-6 handler, \<^verbatim>\<open>rc/ir-rc6-decoder.c\<close>: a prefix, four header bits, a toggle bit of double
  length and a body of 16 bits (mode 0) or 20, 24 or 32 bits (mode 6A, with the MCE variant).
\<close>

section \<open>Constants and state\<close>

definition RC6_UNIT :: u32 where [ir_const]: "RC6_UNIT = 444444"
definition RC6_HEADER_NBITS :: nat where [ir_const]: "RC6_HEADER_NBITS = 4"
definition RC6_0_NBITS :: nat where [ir_const]: "RC6_0_NBITS = 16"
definition RC6_6A_NBITS :: nat where [ir_const]: "RC6_6A_NBITS = 128"
definition RC6_PREFIX_PULSE :: u32 where [ir_const]: "RC6_PREFIX_PULSE = 6 * RC6_UNIT"
definition RC6_PREFIX_SPACE :: u32 where [ir_const]: "RC6_PREFIX_SPACE = 2 * RC6_UNIT"
definition RC6_BIT_START :: u32 where [ir_const]: "RC6_BIT_START = 1 * RC6_UNIT"
definition RC6_BIT_END :: u32 where [ir_const]: "RC6_BIT_END = 1 * RC6_UNIT"
definition RC6_TOGGLE_START :: u32 where [ir_const]: "RC6_TOGGLE_START = 2 * RC6_UNIT"
definition RC6_TOGGLE_END :: u32 where [ir_const]: "RC6_TOGGLE_END = 2 * RC6_UNIT"
definition RC6_SUFFIX_SPACE :: u32 where [ir_const]: "RC6_SUFFIX_SPACE = 6 * RC6_UNIT"
definition RC6_MODE_MASK :: u8 where "RC6_MODE_MASK = 0x07"
definition RC6_STARTBIT_MASK :: u8 where "RC6_STARTBIT_MASK = 0x08"
definition RC6_6A_MCE_TOGGLE_MASK :: u32 where "RC6_6A_MCE_TOGGLE_MASK = 0x8000"
definition RC6_6A_LCC_MASK :: u32 where "RC6_6A_LCC_MASK = 0xffff0000"
definition RC6_6A_MCE_CC :: u32 where "RC6_6A_MCE_CC = 0x800f0000"
definition RC6_6A_ZOTAC_CC :: u32 where "RC6_6A_ZOTAC_CC = 0x80340000"
definition RC6_6A_KATHREIN_CC :: u32 where "RC6_6A_KATHREIN_CC = 0x80460000"

datatype rc6_mode = RC6_MODE_0 | RC6_MODE_6A | RC6_MODE_UNKNOWN

datatype rc6_state = RC6_STATE_INACTIVE | RC6_STATE_PREFIX_SPACE | RC6_STATE_HEADER_BIT_START
  | RC6_STATE_HEADER_BIT_END | RC6_STATE_TOGGLE_START | RC6_STATE_TOGGLE_END
  | RC6_STATE_BODY_BIT_START | RC6_STATE_BODY_BIT_END | RC6_STATE_FINISHED

record rc6_dec =
  rc6_st :: rc6_state
  rc6_header :: u8
  rc6_body :: u32
  rc6_toggle :: bool
  rc6_count :: u32
  rc6_wanted_bits :: u32

section \<open>Operations\<close>

definition rc6_get_mode :: "rc6_dec \<Rightarrow> rc6_mode" where
  "rc6_get_mode d =
     (let m = rc6_header d AND RC6_MODE_MASK in
      if m = 0 then RC6_MODE_0
      else if m = 6 \<and> \<not> rc6_toggle d then RC6_MODE_6A
      else RC6_MODE_UNKNOWN)"

definition rc6_fail :: "rc6_dec \<Rightarrow> rc6_dec decoded" where
  "rc6_fail d = (d\<lparr>rc6_st := RC6_STATE_INACTIVE\<rparr>, [], Inl EINVAL)"

definition rc6_keydown :: "rc6_dec \<Rightarrow> rc_proto \<Rightarrow> u32 \<Rightarrow> u8 \<Rightarrow> rc6_dec decoded" where
  "rc6_keydown d protocol scancode toggle =
     (d\<lparr>rc6_st := RC6_STATE_INACTIVE\<rparr>, [Rc_keydown protocol scancode toggle], Inr ())"

text \<open>The case \<^verbatim>\<open>STATE_FINISHED\<close>.\<close>

definition rc6_finished :: "rc6_dec decoder" where
  "rc6_finished d ev =
     (if pulse ev then rc6_fail d
      else
        case rc6_get_mode d of
          RC6_MODE_0 \<Rightarrow> rc6_keydown d RC_PROTO_RC6_0 (rc6_body d) (of_bool (rc6_toggle d))
        | RC6_MODE_6A \<Rightarrow>
            if rc6_count d > 8 * 4 then rc6_fail d
            else
              let scancode = rc6_body d in
              if rc6_count d = 20 then rc6_keydown d RC_PROTO_RC6_6A_20 scancode 0
              else if rc6_count d = 24 then rc6_keydown d RC_PROTO_RC6_6A_24 scancode 0
              else if rc6_count d = 32 then
                if scancode AND RC6_6A_LCC_MASK \<in> {RC6_6A_MCE_CC, RC6_6A_KATHREIN_CC, RC6_6A_ZOTAC_CC} then
                  rc6_keydown d RC_PROTO_RC6_MCE (scancode AND NOT RC6_6A_MCE_TOGGLE_MASK)
                    (of_bool (scancode AND RC6_6A_MCE_TOGGLE_MASK \<noteq> 0))
                else rc6_keydown d RC_PROTO_RC6_6A_32 scancode 0
              else rc6_fail d
        | RC6_MODE_UNKNOWN \<Rightarrow> rc6_fail d)"

fun rc6_rank :: "rc6_state \<Rightarrow> nat" where
  "rc6_rank RC6_STATE_BODY_BIT_START = 1"
| "rc6_rank _ = 0"

function rc6_again :: "rc6_dec decoder" where
  "rc6_again d ev =
     (if \<not> geq_margin (duration ev) RC6_UNIT (RC6_UNIT div 2) then (d, [], Inr ())
      else
        case rc6_st d of
          RC6_STATE_INACTIVE \<Rightarrow>
            if \<not> pulse ev then rc6_fail d
            else if \<not> eq_margin (duration ev) RC6_PREFIX_PULSE RC6_UNIT then rc6_fail d
            else (d\<lparr>rc6_st := RC6_STATE_PREFIX_SPACE, rc6_count := 0\<rparr>, [], Inr ())
        | RC6_STATE_PREFIX_SPACE \<Rightarrow>
            if pulse ev then rc6_fail d
            else if \<not> eq_margin (duration ev) RC6_PREFIX_SPACE (RC6_UNIT div 2) then rc6_fail d
            else (d\<lparr>rc6_st := RC6_STATE_HEADER_BIT_START, rc6_header := 0\<rparr>, [], Inr ())
        | RC6_STATE_HEADER_BIT_START \<Rightarrow>
            if \<not> eq_margin (duration ev) RC6_BIT_START (RC6_UNIT div 2) then rc6_fail d
            else
              let d = d\<lparr>rc6_header := push_bit 1 (rc6_header d)\<rparr>;
                  d = (if pulse ev then d\<lparr>rc6_header := rc6_header d OR 1\<rparr> else d) in
              (d\<lparr>rc6_count := rc6_count d + 1, rc6_st := RC6_STATE_HEADER_BIT_END\<rparr>, [], Inr ())
        | RC6_STATE_HEADER_BIT_END \<Rightarrow>
            rc6_again (if rc6_count d = of_nat RC6_HEADER_NBITS then d\<lparr>rc6_st := RC6_STATE_TOGGLE_START\<rparr>
                       else d\<lparr>rc6_st := RC6_STATE_HEADER_BIT_START\<rparr>)
              (decrease_duration ev RC6_BIT_END)
        | RC6_STATE_TOGGLE_START \<Rightarrow>
            if \<not> eq_margin (duration ev) RC6_TOGGLE_START (RC6_UNIT div 2) then rc6_fail d
            else (d\<lparr>rc6_toggle := pulse ev, rc6_st := RC6_STATE_TOGGLE_END\<rparr>, [], Inr ())
        | RC6_STATE_TOGGLE_END \<Rightarrow>
            if rc6_header d AND RC6_STARTBIT_MASK = 0 then rc6_fail d
            else
              let d = d\<lparr>rc6_st := RC6_STATE_BODY_BIT_START, rc6_count := 0, rc6_body := 0\<rparr> in
              (case rc6_get_mode d of
                 RC6_MODE_0 \<Rightarrow>
                   rc6_again (d\<lparr>rc6_wanted_bits := of_nat RC6_0_NBITS\<rparr>) (decrease_duration ev RC6_TOGGLE_END)
               | RC6_MODE_6A \<Rightarrow>
                   rc6_again (d\<lparr>rc6_wanted_bits := of_nat RC6_6A_NBITS\<rparr>) (decrease_duration ev RC6_TOGGLE_END)
               | RC6_MODE_UNKNOWN \<Rightarrow> rc6_fail d)
        | RC6_STATE_BODY_BIT_START \<Rightarrow>
            if eq_margin (duration ev) RC6_BIT_START (RC6_UNIT div 2) then
              let d = (if rc6_count d < 8 * 4 then
                         d\<lparr>rc6_body := push_bit 1 (rc6_body d) OR (if pulse ev then 1 else 0)\<rparr> else d) in
              (d\<lparr>rc6_count := rc6_count d + 1, rc6_st := RC6_STATE_BODY_BIT_END\<rparr>, [], Inr ())
            else if rc6_get_mode d = RC6_MODE_6A \<and> \<not> pulse ev \<and>
                    geq_margin (duration ev) RC6_SUFFIX_SPACE (RC6_UNIT div 2) then
              rc6_again (d\<lparr>rc6_st := RC6_STATE_FINISHED\<rparr>) ev
            else rc6_fail d
        | RC6_STATE_BODY_BIT_END \<Rightarrow>
            rc6_again (if rc6_count d = rc6_wanted_bits d then d\<lparr>rc6_st := RC6_STATE_FINISHED\<rparr>
                       else d\<lparr>rc6_st := RC6_STATE_BODY_BIT_START\<rparr>)
              (decrease_duration ev RC6_BIT_END)
        | RC6_STATE_FINISHED \<Rightarrow> rc6_finished d ev)"
  by pat_completeness auto

termination
  by (relation "measures [\<lambda>(_, ev). unat (duration ev), \<lambda>(d, _). rc6_rank (rc6_st d)]")
     (auto simp: margin_nat ir_const)

declare rc6_again.simps [simp del]

definition ir_rc6_decode :: "rc6_dec decoder" where
  "ir_rc6_decode d ev =
     (if \<not> is_timing_event ev then
        ((if ev_reset ev then d\<lparr>rc6_st := RC6_STATE_INACTIVE\<rparr> else d), [], Inr ())
      else if \<not> geq_margin (duration ev) RC6_UNIT (RC6_UNIT div 2) then rc6_fail d
      else rc6_again d ev)"

definition ir_rc6_timings_0 :: ir_raw_timings_manchester where
  "ir_rc6_timings_0 = \<lparr>mn_leader_pulse = RC6_PREFIX_PULSE, mn_leader_space = RC6_PREFIX_SPACE, mn_clock = RC6_UNIT,
     mn_invert = True, mn_trailer_space = 0\<rparr>"

definition ir_rc6_timings_1 :: ir_raw_timings_manchester where
  "ir_rc6_timings_1 = \<lparr>mn_leader_pulse = 0, mn_leader_space = 0, mn_clock = RC6_UNIT * 2,
     mn_invert = True, mn_trailer_space = 0\<rparr>"

definition ir_rc6_timings_2 :: ir_raw_timings_manchester where
  "ir_rc6_timings_2 = \<lparr>mn_leader_pulse = 0, mn_leader_space = 0, mn_clock = RC6_UNIT,
     mn_invert = True, mn_trailer_space = RC6_SUFFIX_SPACE\<rparr>"

text \<open>Header, toggle bit and body, one after the other into what is left of the array.\<close>

definition rc6_encode_parts :: "nat \<Rightarrow> u64 \<Rightarrow> nat \<Rightarrow> u64 \<Rightarrow> gen_result" where
  "rc6_encode_parts room header nbits scancode =
     gen_then (ir_raw_gen_manchester ([], room) ir_rc6_timings_0 RC6_HEADER_NBITS header) (\<lambda>s.
     gen_then (ir_raw_gen_manchester s ir_rc6_timings_1 1 0) (\<lambda>s.
     ir_raw_gen_manchester s ir_rc6_timings_2 nbits scancode))"

definition ir_rc6_encode :: "rc_proto \<Rightarrow> u32 \<Rightarrow> nat \<Rightarrow> ir_raw_event list \<times> nat result" where
  "ir_rc6_encode protocol scancode room =
     (if protocol = RC_PROTO_RC6_0 then
        encode_result (rc6_encode_parts room (push_bit 3 1) RC6_0_NBITS (ucast scancode))
      else
        case (if protocol = RC_PROTO_RC6_MCE \<or> protocol = RC_PROTO_RC6_6A_32 then Some 32
              else if protocol = RC_PROTO_RC6_6A_24 then Some 24
              else if protocol = RC_PROTO_RC6_6A_20 then Some 20
              else None) of
          None \<Rightarrow> ([], Inl EINVAL)
        | Some bits \<Rightarrow> encode_result (rc6_encode_parts room (push_bit 3 1 OR 6) bits (ucast scancode)))"

section \<open>The decoder's invariant\<close>

text \<open>
  The header has at most four bits, the body at most as many as wanted, and \<^verbatim>\<open>wanted_bits\<close> is one
  of the two lengths. Between events the decoder waits in \<^verbatim>\<open>STATE_FINISHED\<close> only for the space
  after a mode 0 body.
\<close>

definition rc6_inv :: "rc6_dec \<Rightarrow> bool" where
  "rc6_inv d = (case rc6_st d of
      RC6_STATE_INACTIVE \<Rightarrow> True
    | RC6_STATE_PREFIX_SPACE \<Rightarrow> rc6_count d = 0
    | RC6_STATE_HEADER_BIT_START \<Rightarrow> rc6_count d < 4
    | RC6_STATE_HEADER_BIT_END \<Rightarrow> rc6_count d \<le> 4
    | RC6_STATE_TOGGLE_START \<Rightarrow> rc6_count d = 4
    | RC6_STATE_TOGGLE_END \<Rightarrow> rc6_count d = 4
    | RC6_STATE_BODY_BIT_START \<Rightarrow> rc6_count d < rc6_wanted_bits d \<and> rc6_wanted_bits d \<in> {16, 128}
    | RC6_STATE_BODY_BIT_END \<Rightarrow> rc6_count d \<le> rc6_wanted_bits d \<and> rc6_wanted_bits d \<in> {16, 128}
    | RC6_STATE_FINISHED \<Rightarrow> rc6_count d \<le> rc6_wanted_bits d \<and> rc6_wanted_bits d \<in> {16, 128})"

definition rc6_ready :: "rc6_dec \<Rightarrow> bool" where
  "rc6_ready d \<longleftrightarrow> rc6_st d = RC6_STATE_INACTIVE"

lemma rc6_finished_inactive: "rc6_finished d ev = (d', as, r) \<Longrightarrow> rc6_st d' = RC6_STATE_INACTIVE"
  by (auto simp: rc6_finished_def rc6_fail_def rc6_keydown_def Let_def split: if_splits rc6_mode.splits)

lemma rc6_finished_reject: "rc6_finished d ev = (d', as, Inl e) \<Longrightarrow> e = EINVAL \<and> as = []"
  by (auto simp: rc6_finished_def rc6_fail_def rc6_keydown_def Let_def split: if_splits rc6_mode.splits)

lemmas rc6_inv_simps = rc6_inv_def rc6_fail_def Let_def RC6_HEADER_NBITS_def RC6_0_NBITS_def RC6_6A_NBITS_def inc_le

lemma rc6_again_inv: "rc6_again d ev = (d', as, r) \<Longrightarrow> rc6_inv d \<Longrightarrow> rc6_inv d'"
proof (induction d ev rule: rc6_again.induct)
  case (1 d ev)
  note step = 1(6) [unfolded rc6_again.simps [of d ev]]
  show ?case
  proof (cases "geq_margin (duration ev) RC6_UNIT (RC6_UNIT div 2)")
    case long: True
    show ?thesis
    proof (cases "rc6_st d")
      case RC6_STATE_HEADER_BIT_END
      with 1(1) 1(7) long step show ?thesis by (auto simp: rc6_inv_simps split: if_splits)
    next
      case RC6_STATE_TOGGLE_END
      with 1(2,3) long step show ?thesis by (auto simp: rc6_inv_simps split: if_splits rc6_mode.splits)
    next
      case RC6_STATE_BODY_BIT_START
      with 1(4) 1(7) long step show ?thesis by (auto simp: rc6_inv_simps split: if_splits)
    next
      case RC6_STATE_BODY_BIT_END
      with 1(5) 1(7) long step show ?thesis by (auto simp: rc6_inv_simps split: if_splits)
    next
      case RC6_STATE_FINISHED
      with long step rc6_finished_inactive [of d ev d' as r] show ?thesis by (simp add: rc6_inv_def)
    qed (use 1(7) long step in \<open>auto simp: rc6_inv_simps split: if_splits\<close>)
  qed (use 1(7) step in simp)
qed

lemma rc6_again_reject:
  "rc6_again d ev = (d', as, Inl e) \<Longrightarrow> e = EINVAL \<and> as = [] \<and> rc6_st d' = RC6_STATE_INACTIVE"
proof (induction d ev rule: rc6_again.induct)
  case (1 d ev)
  note step = 1(6) [unfolded rc6_again.simps [of d ev]]
  show ?case
  proof (cases "rc6_st d")
    case RC6_STATE_HEADER_BIT_END
    with 1(1) step show ?thesis by (auto split: if_splits)
  next
    case RC6_STATE_TOGGLE_END
    with 1(2,3) step show ?thesis by (auto simp: rc6_fail_def Let_def split: if_splits rc6_mode.splits)
  next
    case RC6_STATE_BODY_BIT_START
    with 1(4) step show ?thesis by (auto simp: rc6_fail_def Let_def split: if_splits)
  next
    case RC6_STATE_BODY_BIT_END
    with 1(5) step show ?thesis by (auto split: if_splits)
  next
    case RC6_STATE_FINISHED
    with step rc6_finished_inactive [of d ev d' as "Inl e"] rc6_finished_reject [of d ev d' as e] show ?thesis
      by (auto split: if_splits)
  qed (use step in \<open>auto simp: rc6_fail_def Let_def split: if_splits\<close>)
qed

interpretation rc6: ir_strict_decoder ir_rc6_decode rc6_ready rc6_inv
proof
  show "rc6_inv d'" if "rc6_inv d" "ir_rc6_decode d ev = (d', as, r)" for d ev d' as r
    using that rc6_again_inv by (auto simp: ir_rc6_decode_def rc6_fail_def rc6_inv_def split: if_splits)
  show "\<exists>d'. ir_rc6_decode d ev = (d', [], Inr ()) \<and> rc6_ready d'" if "ev_reset ev" for ev d
    using that by (simp add: ir_rc6_decode_def is_timing_event_def rc6_ready_def)
  show "e = EINVAL \<and> as = [] \<and> rc6_ready d'" if "ir_rc6_decode d ev = (d', as, Inl e)" for d ev d' as e
    using that rc6_again_reject by (auto simp: ir_rc6_decode_def rc6_fail_def rc6_ready_def split: if_splits)
qed

section \<open>Reading what the encoder sends\<close>

definition rc6_tol :: u32 where [ir_const]: "rc6_tol = RC6_UNIT div 2"

abbreviation rc6_half :: "ir_raw_event \<Rightarrow> bool" where
  "rc6_half ev \<equiv> eq_margin (duration ev) RC6_UNIT rc6_tol"

abbreviation rc6_full :: "ir_raw_event \<Rightarrow> bool" where
  "rc6_full ev \<equiv> eq_margin (duration ev) (RC6_UNIT + RC6_UNIT) rc6_tol"

lemma rc6_short: "\<not> geq_margin (duration ev) RC6_UNIT (RC6_UNIT div 2) \<Longrightarrow> rc6_again d ev = (d, [], Inr ())"
  by (subst rc6_again.simps) simp

lemma rc6_half_rest: "rc6_half ev \<Longrightarrow> rc6_again d (decrease_duration ev RC6_UNIT) = (d, [], Inr ())"
  by (rule rc6_short) (auto simp: margin_nat ir_const)

lemma rc6_full_rest: "rc6_full ev \<Longrightarrow> rc6_half (decrease_duration ev RC6_UNIT)"
  by (auto simp: margin_nat ir_const)

lemma rc6_long: "rc6_half ev \<or> rc6_full ev \<Longrightarrow> geq_margin (duration ev) RC6_UNIT (RC6_UNIT div 2)"
  by (auto simp: margin_nat ir_const)

lemma rc6_half_start: "rc6_half ev \<Longrightarrow> eq_margin (duration ev) RC6_BIT_START (RC6_UNIT div 2)"
  by (simp add: margin_nat ir_const)

lemma rc6_turn_header:
  assumes "rc6_half ev" "rc6_st d = RC6_STATE_HEADER_BIT_START"
  shows "rc6_again d ev = (d\<lparr>rc6_header := push_bit 1 (rc6_header d) OR of_bool (pulse ev), rc6_count := rc6_count d + 1,
     rc6_st := RC6_STATE_HEADER_BIT_END\<rparr>, [], Inr ())"
  using assms rc6_long [of ev] by (subst rc6_again.simps) (simp add: rc6_half_start Let_def)

lemma rc6_turn_body:
  assumes "rc6_half ev" "rc6_st d = RC6_STATE_BODY_BIT_START" "rc6_count d < 32"
  shows "rc6_again d ev = (d\<lparr>rc6_body := push_bit 1 (rc6_body d) OR of_bool (pulse ev), rc6_count := rc6_count d + 1,
     rc6_st := RC6_STATE_BODY_BIT_END\<rparr>, [], Inr ())"
  using assms rc6_long [of ev] by (subst rc6_again.simps) (simp add: rc6_half_start Let_def)

lemma rc6_turn_end:
  assumes "geq_margin (duration ev) RC6_UNIT (RC6_UNIT div 2)"
    "rc6_st d = RC6_STATE_HEADER_BIT_END \<or> rc6_st d = RC6_STATE_BODY_BIT_END"
  shows "rc6_again d ev = rc6_again (d\<lparr>rc6_st :=
      if rc6_st d = RC6_STATE_HEADER_BIT_END
      then if rc6_count d = 4 then RC6_STATE_TOGGLE_START else RC6_STATE_HEADER_BIT_START
      else if rc6_count d = rc6_wanted_bits d then RC6_STATE_FINISHED else RC6_STATE_BODY_BIT_START\<rparr>)
    (decrease_duration ev RC6_UNIT)"
  using assms(2)
proof
  assume "rc6_st d = RC6_STATE_HEADER_BIT_END"
  with assms(1) show ?thesis
    by (cases "rc6_count d = 4"; subst rc6_again.simps) (simp_all add: RC6_HEADER_NBITS_def RC6_BIT_END_def)
next
  assume "rc6_st d = RC6_STATE_BODY_BIT_END"
  with assms(1) show ?thesis
    by (cases "rc6_count d = rc6_wanted_bits d"; subst rc6_again.simps) (simp_all add: RC6_BIT_END_def)
qed

text \<open>Header bits.\<close>

definition rc6_hgot :: "nat \<Rightarrow> u8 \<Rightarrow> rc6_dec \<Rightarrow> bool" where
  "rc6_hgot k acc d \<longleftrightarrow> unat (rc6_count d) = k \<and> rc6_header d = acc \<and> rc6_st d = RC6_STATE_HEADER_BIT_END"

lemma rc6_hgot_symbol:
  assumes "rc6_hgot k acc d" "k < 4" "jittered rc6_tol (mn_symbol ir_rc6_timings_0 bb) es"
  shows "\<exists>d'. decode_run ir_rc6_decode d es = (d', []) \<and> rc6_hgot (Suc k) (push_bit 1 acc OR of_bool (snd bb)) d'"
proof -
  obtain b b' where bb: "bb = (b, b')" by (cases bb)
  have c: "unat (rc6_count d + 1) = Suc k" "rc6_count d \<noteq> 4"
    using assms(1,2) by (auto simp: rc6_hgot_def unat_inc)
  show ?thesis
  proof (cases "b = b'")
    case True
    with assms(3) bb obtain e1 e2 where es: "es = [e1, e2]" "pulse e2 = b'" "is_timing_event e1" "is_timing_event e2"
      "rc6_half e1" "rc6_half e2"
      by (auto simp: jittered_Cons mn_level_def ir_rc6_timings_0_def)
    from es assms(1) c bb show ?thesis
      by (simp add: ir_rc6_decode_def rc6_long rc6_turn_end rc6_half_rest rc6_turn_header rc6_hgot_def)
  next
    case False
    with assms(3) bb obtain e1 where es: "es = [e1]" "pulse e1 = b'" "is_timing_event e1" "rc6_full e1"
      by (auto simp: jittered_Cons mn_level_def ir_rc6_timings_0_def)
    from es assms(1) c bb show ?thesis
      by (simp add: ir_rc6_decode_def rc6_long rc6_turn_end rc6_full_rest rc6_turn_header rc6_hgot_def)
  qed
qed

interpretation rc6_head: ir_receiver ir_rc6_decode rc6_tol "mn_symbol ir_rc6_timings_0"
  "\<lambda>a bb. push_bit 1 a OR of_bool (snd bb)" 4 rc6_hgot
  by unfold_locales (rule rc6_hgot_symbol)

text \<open>Body bits, after a header \<open>h\<close> and with \<open>w\<close> bits wanted.\<close>

definition rc6_got :: "u8 \<Rightarrow> u32 \<Rightarrow> nat \<Rightarrow> u32 \<Rightarrow> rc6_dec \<Rightarrow> bool" where
  "rc6_got h w k acc d \<longleftrightarrow> unat (rc6_count d) = k \<and> rc6_body d = acc \<and> rc6_header d = h \<and> \<not> rc6_toggle d \<and>
     rc6_wanted_bits d = w \<and> rc6_st d = RC6_STATE_BODY_BIT_END"

lemma rc6_got_symbol:
  assumes "rc6_got h w k acc d" "k < min 32 (unat w)" "jittered rc6_tol (mn_symbol ir_rc6_timings_2 bb) es"
  shows "\<exists>d'. decode_run ir_rc6_decode d es = (d', []) \<and> rc6_got h w (Suc k) (push_bit 1 acc OR of_bool (snd bb)) d'"
proof -
  obtain b b' where bb: "bb = (b, b')" by (cases bb)
  have c: "unat (rc6_count d + 1) = Suc k" "rc6_count d \<noteq> rc6_wanted_bits d" "rc6_count d < 32"
    using assms(1,2) by (auto simp: rc6_got_def unat_inc word_less_nat_alt)
  show ?thesis
  proof (cases "b = b'")
    case True
    with assms(3) bb obtain e1 e2 where es: "es = [e1, e2]" "pulse e2 = b'" "is_timing_event e1" "is_timing_event e2"
      "rc6_half e1" "rc6_half e2"
      by (auto simp: jittered_Cons mn_level_def ir_rc6_timings_2_def)
    from es assms(1) c bb show ?thesis
      by (simp add: ir_rc6_decode_def rc6_long rc6_turn_end rc6_half_rest rc6_turn_body rc6_got_def)
  next
    case False
    with assms(3) bb obtain e1 where es: "es = [e1]" "pulse e1 = b'" "is_timing_event e1" "rc6_full e1"
      by (auto simp: jittered_Cons mn_level_def ir_rc6_timings_2_def)
    from es assms(1) c bb show ?thesis
      by (simp add: ir_rc6_decode_def rc6_long rc6_turn_end rc6_full_rest rc6_turn_body rc6_got_def)
  qed
qed

interpretation rc6_recv: ir_receiver ir_rc6_decode rc6_tol "mn_symbol ir_rc6_timings_2"
  "\<lambda>a bb. push_bit 1 a OR of_bool (snd bb)" "min 32 (unat w)" "rc6_got h w"
  by unfold_locales (rule rc6_got_symbol)

text \<open>The events of a message: prefix, header, toggle bit, body and suffix.\<close>

abbreviation rc6_ev :: "bool \<Rightarrow> u32 \<Rightarrow> ir_raw_event" where
  "rc6_ev \<equiv> init_ir_raw_event_duration"

definition rc6_events :: "bool list \<Rightarrow> bool list \<Rightarrow> ir_raw_event list" where
  "rc6_events hs bs =
     [rc6_ev True RC6_PREFIX_PULSE, rc6_ev False RC6_PREFIX_SPACE, rc6_ev True RC6_UNIT] @
     concat (map (mn_symbol ir_rc6_timings_0) (mn_chain True hs)) @
     ([rc6_ev True RC6_UNIT, rc6_ev False (RC6_UNIT * 2)] @
      mn_join ir_rc6_timings_2 (rc6_ev True (RC6_UNIT * 2)) (hd bs)) @
     concat (map (mn_symbol ir_rc6_timings_2) (mn_chain (hd bs) (tl bs))) @
     mn_end ir_rc6_timings_2 (last bs)"

lemma rc6_parts_events:
  assumes "rc6_encode_parts room h (Suc i) d = ((es, room'), None)" "i < 64" "msb_bits 4 h = True # hs" "hs \<noteq> []" "\<not> last hs"
  shows "es = rc6_events hs (msb_bits (Suc i) d)"
proof -
  from assms(1) obtain e1 r1 e2 r2
    where 1: "ir_raw_gen_manchester ([], room) ir_rc6_timings_0 (Suc 3) h = ((e1, r1), None)"
      and 2: "ir_raw_gen_manchester (e1, r1) ir_rc6_timings_1 (Suc 0) 0 = ((e2, r2), None)"
      and 3: "ir_raw_gen_manchester (e2, r2) ir_rc6_timings_2 (Suc i) d = ((es, room'), None)"
    unfolding rc6_encode_parts_def gen_then_ok by (auto simp: RC6_HEADER_NBITS_def)
  have nz: "RC6_PREFIX_PULSE \<noteq> 0" "RC6_PREFIX_SPACE \<noteq> 0" "RC6_SUFFIX_SPACE \<noteq> 0" by (simp_all add: ir_const)
  have h: "bit h 3" "msb_bits 3 h = hs" using assms(3) by (simp_all add: eval_nat_numeral)
  let ?P = "[rc6_ev True RC6_PREFIX_PULSE]" and ?S = "rc6_ev False RC6_PREFIX_SPACE"
  let ?H = "concat (map (mn_symbol ir_rc6_timings_0) (mn_chain True hs))"
  have "[] @ mn_leader ir_rc6_timings_0 = ?P @ [?S]" using nz by (simp add: mn_leader_def ir_rc6_timings_0_def)
  from gen_manchester_ok [OF 1 _ this] h assms(4,5)
  have "e1 @ mn_leader ir_rc6_timings_1 = (?P @ [?S, rc6_ev True RC6_UNIT] @ ?H) @ [rc6_ev True RC6_UNIT]"
    by (simp add: mn_join_def mn_end_def mn_half_def mn_level_def mn_leader_def ir_rc6_timings_1_def)
       (simp add: ir_rc6_timings_0_def)
  from gen_manchester_ok [OF 2 _ this]
  have "e2 @ mn_leader ir_rc6_timings_2 = (?P @ [?S, rc6_ev True RC6_UNIT] @ ?H @ [rc6_ev True RC6_UNIT, rc6_ev False (RC6_UNIT * 2)]) @
      [rc6_ev True (RC6_UNIT * 2)]"
    by (simp add: mn_join_def mn_end_def mn_half_def mn_level_def mn_leader_def ir_rc6_timings_2_def)
       (simp add: ir_rc6_timings_1_def)
  from gen_manchester_ok [OF 3 assms(2) this] show ?thesis
    by (simp add: rc6_events_def)
qed

text \<open>Prefix, header and toggle bit.\<close>

lemma rc6_prefix_run:
  assumes "rc6_ready d" "jittered rc6_tol [rc6_ev True RC6_PREFIX_PULSE, rc6_ev False RC6_PREFIX_SPACE, rc6_ev True RC6_UNIT] es"
  shows "\<exists>d'. decode_run ir_rc6_decode d es = (d', []) \<and> rc6_hgot 1 1 d'"
proof -
  from assms(2) obtain e1 e2 e3 where es: "es = [e1, e2, e3]" "pulse e1" "\<not> pulse e2" "pulse e3"
    "is_timing_event e1" "is_timing_event e2" "is_timing_event e3" "eq_margin (duration e1) RC6_PREFIX_PULSE rc6_tol"
    "eq_margin (duration e2) RC6_PREFIX_SPACE rc6_tol" "rc6_half e3"
    by (auto simp: jittered_Cons)
  have "geq_margin (duration e1) RC6_UNIT (RC6_UNIT div 2)" "eq_margin (duration e1) RC6_PREFIX_PULSE RC6_UNIT"
    "geq_margin (duration e2) RC6_UNIT (RC6_UNIT div 2)" "eq_margin (duration e2) RC6_PREFIX_SPACE (RC6_UNIT div 2)"
    using es(8,9) by (auto simp: margin_nat ir_const)
  with es assms(1) show ?thesis
    by (simp add: ir_rc6_decode_def rc6_long rc6_ready_def rc6_turn_header rc6_hgot_def)
       (simp add: rc6_again.simps rc6_long rc6_half_start)
qed

lemma rc6_toggle_run:
  assumes "rc6_hgot 4 h d" "h AND 8 \<noteq> 0" "h AND 7 \<in> {0, 6}"
    "jittered rc6_tol ([rc6_ev True RC6_UNIT, rc6_ev False (RC6_UNIT * 2)] @
      mn_join ir_rc6_timings_2 (rc6_ev True (RC6_UNIT * 2)) c) es"
  shows "\<exists>d'. decode_run ir_rc6_decode d es = (d', []) \<and>
    rc6_got h (if h AND 7 = 0 then 16 else 128) 1 (of_bool c) d'"
proof -
  from assms(4) obtain e1 e2 e3 es2 where es: "es = e1 # e2 # e3 # es2" "\<not> pulse e2" "pulse e3"
    "is_timing_event e1" "is_timing_event e2" "is_timing_event e3" "rc6_half e1" "eq_margin (duration e2) (RC6_UNIT * 2) rc6_tol"
    and dur: "eq_margin (duration e3) (RC6_UNIT * 2 + (if c then RC6_UNIT else 0)) rc6_tol"
    and es2: "if c then es2 = [] else \<exists>e4. es2 = [e4] \<and> \<not> pulse e4 \<and> is_timing_event e4 \<and> rc6_half e4"
    by (auto simp: mn_join_def mn_level_def ir_rc6_timings_2_def jittered_Cons split: if_splits)
  let ?w = "if h AND 7 = 0 then 16 else 128 :: u32"
  let ?d1 = "d\<lparr>rc6_st := RC6_STATE_TOGGLE_START\<rparr>"
  let ?d2 = "d\<lparr>rc6_toggle := False, rc6_st := RC6_STATE_TOGGLE_END\<rparr>"
  let ?d3 = "d\<lparr>rc6_toggle := False, rc6_st := RC6_STATE_BODY_BIT_START, rc6_count := 0, rc6_body := 0, rc6_wanted_bits := ?w\<rparr>"
  have d: "rc6_st d = RC6_STATE_HEADER_BIT_END" "rc6_count d = 4" "rc6_header d = h"
    using assms(1) by (auto simp: rc6_hgot_def word_unat_eq_iff [of _ 4])
  have s1: "ir_rc6_decode d e1 = (?d1, [], Inr ())"
    using es d by (simp add: ir_rc6_decode_def rc6_long rc6_turn_end rc6_half_rest)
  have "eq_margin (duration e2) RC6_TOGGLE_START (RC6_UNIT div 2)" "geq_margin (duration e2) RC6_UNIT (RC6_UNIT div 2)"
    using es(8) by (auto simp: margin_nat ir_const)
  then have s2: "ir_rc6_decode ?d1 e2 = (?d2, [], Inr ())"
    using es by (simp add: ir_rc6_decode_def rc6_again.simps [of ?d1])
  have m: "geq_margin (duration e3) RC6_UNIT (RC6_UNIT div 2)"
    "if c then rc6_half (decrease_duration e3 RC6_TOGGLE_END)
     else \<not> geq_margin (duration (decrease_duration e3 RC6_TOGGLE_END)) RC6_UNIT (RC6_UNIT div 2)"
    using dur by (auto simp: margin_nat ir_const split: if_splits)
  have "rc6_again ?d2 e3 = rc6_again ?d3 (decrease_duration e3 RC6_TOGGLE_END)"
    using m(1) assms(2,3) d
    by (subst rc6_again.simps)
       (auto simp: rc6_get_mode_def RC6_MODE_MASK_def RC6_STARTBIT_MASK_def RC6_0_NBITS_def RC6_6A_NBITS_def Let_def)
  with m es es2 s1 s2 d show ?thesis
    by (auto simp: ir_rc6_decode_def rc6_turn_body rc6_long rc6_short rc6_got_def split: if_splits)
qed

text \<open>Body and suffix.\<close>

lemma rc6_end_run:
  assumes "rc6_got h w k acc d" "jittered rc6_tol (mn_end ir_rc6_timings_2 b) es"
    "unat w = k \<or> unat w \<noteq> k \<and> h AND 7 = 6"
    "\<And>ev. \<not> pulse ev \<Longrightarrow> rc6_finished (d\<lparr>rc6_st := RC6_STATE_FINISHED\<rparr>) ev = (d', as, Inr ())"
  shows "decode_run ir_rc6_decode d es = (d', as)"
proof -
  have d: "rc6_st d = RC6_STATE_BODY_BIT_END" "rc6_count d = rc6_wanted_bits d \<longleftrightarrow> unat w = k"
    "rc6_header d = h" "\<not> rc6_toggle d"
    using assms(1) by (auto simp: rc6_got_def word_unat_eq_iff [of "rc6_count d" "rc6_wanted_bits d"])
  let ?st = "if unat w = k then RC6_STATE_FINISHED else RC6_STATE_BODY_BIT_START"
  have fin: "rc6_again (d\<lparr>rc6_st := ?st\<rparr>) ev = (d', as, Inr ())"
    if "\<not> pulse ev" "geq_margin (duration ev) RC6_SUFFIX_SPACE (RC6_UNIT div 2)" for ev
  proof -
    have m: "geq_margin (duration ev) RC6_UNIT (RC6_UNIT div 2)" "\<not> eq_margin (duration ev) RC6_BIT_START (RC6_UNIT div 2)"
      using that(2) by (auto simp: margin_nat ir_const)
    have f: "rc6_again (d\<lparr>rc6_st := RC6_STATE_FINISHED\<rparr>) ev = (d', as, Inr ())"
      using m assms(4) that by (subst rc6_again.simps) simp
    show ?thesis
    proof (cases "unat w = k")
      case False
      then have "rc6_get_mode (d\<lparr>rc6_st := RC6_STATE_BODY_BIT_START\<rparr>) = RC6_MODE_6A"
        using assms(3) d by (simp add: rc6_get_mode_def RC6_MODE_MASK_def)
      with False m that f show ?thesis by (subst rc6_again.simps) simp
    qed (simp add: f)
  qed
  have nz: "RC6_SUFFIX_SPACE \<noteq> 0" by (simp add: ir_const)
  show ?thesis
  proof (cases b)
    case False
    with assms(2) nz obtain e1 e2 where es: "es = [e1, e2]" "\<not> pulse e2" "is_timing_event e1" "is_timing_event e2"
      "rc6_half e1" "eq_margin (duration e2) RC6_SUFFIX_SPACE rc6_tol"
      by (auto simp: mn_end_def ir_rc6_timings_2_def mn_half_def mn_level_def jittered_Cons)
    have "geq_margin (duration e2) RC6_SUFFIX_SPACE (RC6_UNIT div 2)" "geq_margin (duration e2) RC6_UNIT (RC6_UNIT div 2)"
      using es(6) by (auto simp: margin_nat ir_const)
    with es d fin [of e2] show ?thesis by (simp add: ir_rc6_decode_def rc6_long rc6_turn_end rc6_half_rest)
  next
    case True
    with assms(2) nz obtain e1 where es: "es = [e1]" "\<not> pulse e1" "is_timing_event e1"
      "eq_margin (duration e1) (RC6_UNIT + RC6_SUFFIX_SPACE) rc6_tol"
      by (auto simp: mn_end_def ir_rc6_timings_2_def mn_half_def mn_level_def jittered_Cons)
    have "geq_margin (duration (decrease_duration e1 RC6_UNIT)) RC6_SUFFIX_SPACE (RC6_UNIT div 2)"
      "geq_margin (duration e1) RC6_UNIT (RC6_UNIT div 2)"
      using es(4) by (auto simp: margin_nat ir_const)
    with es d fin [of "decrease_duration e1 RC6_UNIT"] show ?thesis by (simp add: ir_rc6_decode_def rc6_turn_end)
  qed
qed

lemma jittered_append5E:
  assumes "jittered tol (a @ b @ c @ d @ e) xs"
  obtains a' b' c' d' e' where "xs = a' @ b' @ c' @ d' @ e'" "jittered tol a a'" "jittered tol b b'"
    "jittered tol c c'" "jittered tol d d'" "jittered tol e e'"
  using assms by (elim jittered_appendE) (simp add: that)

lemma rc6_message_run:
  fixes hs :: "bool list"
  assumes "rc6_ready d" "jittered rc6_tol (rc6_events hs bs) es" "length hs = 3"
    "h = shift_in 1 hs" "h AND 8 \<noteq> 0" "h AND 7 \<in> {0, 6}" "bs \<noteq> []" "length bs \<le> 32"
    "if h AND 7 = 0 then length bs = 16 else True"
    "\<And>d' ev. \<not> pulse ev \<Longrightarrow> rc6_header d' = h \<Longrightarrow> \<not> rc6_toggle d' \<Longrightarrow> unat (rc6_count d') = length bs \<Longrightarrow>
      rc6_body d' = shift_in 0 bs \<Longrightarrow> rc6_finished d' ev = (d'\<lparr>rc6_st := RC6_STATE_INACTIVE\<rparr>, [a], Inr ())"
  shows "\<exists>d'. decode_run ir_rc6_decode d es = (d', [a]) \<and> rc6_ready d'"
proof -
  obtain c cs where bs: "bs = c # cs" using assms(7) by (cases bs) auto
  let ?w = "if h AND 7 = 0 then 16 else 128 :: u32"
  from assms(2) obtain e1 e2 e3 e4 e5 where es: "es = e1 @ e2 @ e3 @ e4 @ e5"
    and e1: "jittered rc6_tol [rc6_ev True RC6_PREFIX_PULSE, rc6_ev False RC6_PREFIX_SPACE, rc6_ev True RC6_UNIT] e1"
    and e2: "jittered rc6_tol (concat (map (mn_symbol ir_rc6_timings_0) (mn_chain True hs))) e2"
    and e3: "jittered rc6_tol ([rc6_ev True RC6_UNIT, rc6_ev False (RC6_UNIT * 2)] @
      mn_join ir_rc6_timings_2 (rc6_ev True (RC6_UNIT * 2)) c) e3"
    and e4: "jittered rc6_tol (concat (map (mn_symbol ir_rc6_timings_2) (mn_chain c cs))) e4"
    and e5: "jittered rc6_tol (mn_end ir_rc6_timings_2 (last bs)) e5"
    unfolding rc6_events_def bs list.sel by (rule jittered_append5E)
  from rc6_prefix_run [OF assms(1) e1] obtain d1 where d1: "decode_run ir_rc6_decode d e1 = (d1, [])" "rc6_hgot 1 1 d1" by blast
  from rc6_head.got_symbols [OF d1(2) _ e2, unfolded foldl_push_snd length_mn_chain] assms(3,4) obtain d2
    where d2: "decode_run ir_rc6_decode d1 e2 = (d2, [])" "rc6_hgot 4 h d2" by auto
  from rc6_toggle_run [OF d2(2) assms(5,6) e3] obtain d3
    where d3: "decode_run ir_rc6_decode d2 e3 = (d3, [])" "rc6_got h ?w 1 (of_bool c) d3" by blast
  have "1 + length cs \<le> min 32 (unat ?w)" using assms(8,9) bs by auto
  from rc6_recv.got_symbols [OF d3(2) _ e4, unfolded foldl_push_snd length_mn_chain, OF this] obtain d4
    where d4: "decode_run ir_rc6_decode d3 e4 = (d4, [])" "rc6_got h ?w (length bs) (shift_in 0 bs) d4"
    by (auto simp: bs)
  have "unat ?w = length bs \<or> unat ?w \<noteq> length bs \<and> h AND 7 = 6" using assms(6,8,9) by auto
  from rc6_end_run [OF d4(2) e5 this, of "d4\<lparr>rc6_st := RC6_STATE_INACTIVE\<rparr>" "[a]"]
    assms(10) [of _ "d4\<lparr>rc6_st := RC6_STATE_FINISHED\<rparr>"] d4(2)
  have "decode_run ir_rc6_decode d4 e5 = (d4\<lparr>rc6_st := RC6_STATE_INACTIVE\<rparr>, [a])" by (simp add: rc6_got_def)
  from decode_run_trans [OF d1(1) decode_run_trans [OF d2(1) decode_run_trans [OF d3(1) decode_run_trans [OF d4(1) this]]]]
  show ?thesis by (simp add: es rc6_ready_def)
qed

definition rc6_foreign_code :: "u32 \<Rightarrow> bool" where
  "rc6_foreign_code sc \<longleftrightarrow> sc AND RC6_6A_LCC_MASK = RC6_6A_KATHREIN_CC \<or> sc AND RC6_6A_LCC_MASK = RC6_6A_ZOTAC_CC"

fun rc6_nbits :: "rc_proto \<Rightarrow> nat" where
  "rc6_nbits RC_PROTO_RC6_0 = 16"
| "rc6_nbits RC_PROTO_RC6_6A_20 = 20"
| "rc6_nbits RC_PROTO_RC6_6A_24 = 24"
| "rc6_nbits _ = 32"

abbreviation rc6_protos :: "rc_proto set" where
  "rc6_protos \<equiv> {RC_PROTO_RC6_0, RC_PROTO_RC6_6A_20, RC_PROTO_RC6_6A_24, RC_PROTO_RC6_6A_32, RC_PROTO_RC6_MCE}"

lemma rc6_encode_events:
  assumes "ir_rc6_encode p sc room = (es, Inr n)" "p \<in> rc6_protos"
  shows "es = rc6_events (if p = RC_PROTO_RC6_0 then [False, False, False] else [True, True, False]) (msb_bits (rc6_nbits p) sc)"
proof -
  obtain i where i: "rc6_nbits p = Suc i" "i < 32" using assms(2) by (cases "rc6_nbits p") auto
  have h: "msb_bits 4 (push_bit 3 1 :: u64) = [True, False, False, False]"
    "msb_bits 4 (push_bit 3 1 OR 6 :: u64) = [True, True, True, False]"
    by (simp_all add: eval_nat_numeral bit_simps)
  obtain room' where "rc6_encode_parts room (if p = RC_PROTO_RC6_0 then push_bit 3 1 else push_bit 3 1 OR 6)
      (rc6_nbits p) (ucast sc) = ((es, room'), None)"
    using assms by (auto simp: ir_rc6_encode_def encode_result_ok RC6_0_NBITS_def split: if_splits)
  from rc6_parts_events [OF this [unfolded i(1)]] i h show ?thesis by (auto split: if_splits simp del: msb_bits_Suc)
qed

lemma shift_in_0_msb:
  "(\<And>i. bit (sc :: u32) i \<Longrightarrow> i < n) \<Longrightarrow> shift_in 0 (msb_bits n sc) = sc"
  by (rule bit_word_eqI) (auto simp: bit_shift_in_msb)

lemma rc6_canonical_bit: "canonical_scancode p sc \<Longrightarrow> p \<in> rc6_protos \<Longrightarrow> bit sc i \<Longrightarrow> i < rc6_nbits p"
  using bit_imp_le_length [of sc i]
  by (auto dest!: canonical_bit simp: mask_word_bits simp del: bit_numeral_word_iff)

text \<open>What the decoder reports for a message it has read completely.\<close>

definition rc6_reported :: "rc_proto \<Rightarrow> u32 \<Rightarrow> rc_action" where
  "rc6_reported p sc =
     (if p = RC_PROTO_RC6_6A_32 \<and> rc6_foreign_code sc
      then Rc_keydown RC_PROTO_RC6_MCE (sc AND NOT 0x8000) (of_bool (sc AND 0x8000 \<noteq> 0))
      else Rc_keydown p sc 0)"

lemmas rc6_codes = RC6_6A_LCC_MASK_def RC6_6A_MCE_CC_def RC6_6A_KATHREIN_CC_def RC6_6A_ZOTAC_CC_def
  RC6_6A_MCE_TOGGLE_MASK_def RC6_MODE_MASK_def

lemma rc6_mce_toggle: "canonical_scancode RC_PROTO_RC6_MCE sc \<Longrightarrow> sc AND 0x8000 = 0 \<and> sc AND NOT 0x8000 = sc"
proof
  assume c: "canonical_scancode RC_PROTO_RC6_MCE sc"
  have 15: "\<not> bit sc 15" using canonical_bit [OF c, of 15] by auto
  then show "sc AND 0x8000 = 0" using and_push_bit [of 15 sc] by simp
  show "sc AND NOT 0x8000 = sc"
    by (rule u32_eqI, unfold upt_32) (use 15 in \<open>simp add: bit_simps\<close>)
qed

lemma not_ffffffff: "NOT (0xffffffff :: u32) = 0"
  by code_simp

lemma rc6_roundtrip_any:
  assumes "rc6_ready d" "canonical_scancode p sc" "p \<in> rc6_protos"
    "ir_rc6_encode p sc room = (es, Inr n)" "jittered rc6_tol es es'"
  shows "\<exists>d'. decode_run ir_rc6_decode d es' = (d', [rc6_reported p sc]) \<and> rc6_ready d'"
proof -
  let ?hs = "if p = RC_PROTO_RC6_0 then [False, False, False] else [True, True, False]"
  let ?h = "if p = RC_PROTO_RC6_0 then 8 else 14 :: u8"
  note j = assms(5) [unfolded rc6_encode_events [OF assms(4,3)]]
  have body: "shift_in 0 (msb_bits (rc6_nbits p) sc) = sc"
    by (rule shift_in_0_msb) (rule rc6_canonical_bit [OF assms(2,3)])
  have len: "length (msb_bits (rc6_nbits p) sc) = rc6_nbits p" by simp
  have fin: "rc6_finished d' ev = (d'\<lparr>rc6_st := RC6_STATE_INACTIVE\<rparr>, [rc6_reported p sc], Inr ())"
    if "\<not> pulse ev" "rc6_header d' = ?h" "\<not> rc6_toggle d'" "unat (rc6_count d') = rc6_nbits p" "rc6_body d' = sc" for d' ev
  proof -
    have c: "rc6_count d' = of_nat (rc6_nbits p)" by (simp flip: that(4))
    have mode: "rc6_get_mode d' = (if p = RC_PROTO_RC6_0 then RC6_MODE_0 else RC6_MODE_6A)"
      using that(2,3) by (simp add: rc6_get_mode_def RC6_MODE_MASK_def)
    show ?thesis
      using assms(2,3) that c mode rc6_mce_toggle [of sc]
      by (auto simp: rc6_finished_def rc6_keydown_def rc6_reported_def rc6_foreign_code_def rc6_codes
          canonical_scancode_def rc_validate_scancode_def Let_def)
  qed
  show ?thesis
    by (rule rc6_message_run [OF assms(1) j, of ?h])
       (use assms(3) fin body in \<open>auto simp: simp flip: length_greater_0_conv\<close>)
qed

lemma rc6_roundtrip:
  assumes "rc6_ready d" "canonical_scancode p sc" "p \<in> rc6_protos" "\<not> (p = RC_PROTO_RC6_6A_32 \<and> rc6_foreign_code sc)"
    "ir_rc6_encode p sc room = (es, Inr n)" "jittered rc6_tol es es'"
  shows "\<exists>d'. decode_run ir_rc6_decode d es' = (d', [Rc_keydown p sc 0]) \<and> rc6_ready d'"
  using rc6_roundtrip_any [OF assms(1-3,5,6)] assms(4) by (simp add: rc6_reported_def)

interpretation rc6_codec: ir_codec ir_rc6_decode rc6_ready rc6_inv ir_rc6_encode
  "\<lambda>p sc. p \<in> rc6_protos \<and> canonical_scancode p sc \<and> \<not> (p = RC_PROTO_RC6_6A_32 \<and> rc6_foreign_code sc)" rc6_tol
  by unfold_locales (use rc6_roundtrip in blast)

section \<open>Properties\<close>

text \<open>
  C25: A sequence of RC-6 messages of mode 0 and of mode 6A with 20, 24 and 32 bits (MCE included), sent
  with \<^verbatim>\<open>ir_rc6_encode\<close> and received with every duration off by less than half a unit, is decoded by
  \<^verbatim>\<open>ir_rc6_decode\<close> as exactly the key presses sent, in order, each with its variant. Excluded
  are 32 bit messages of mode 6A (not MCE) with the customer code of Kathrein or Zotac, though these are valid scancodes: they are decoded as
  MCE messages (\<open>rc6_foreign_code_becomes_mce\<close>).
\<close>

theorem rc6_stream_roundtrip:
  assumes "rc6_inv d" "rc6_ready d"
    "\<forall>(p, sc) \<in> set msgs. p \<in> rc6_protos \<and> canonical_scancode p sc \<and>
       \<not> (p = RC_PROTO_RC6_6A_32 \<and> rc6_foreign_code sc)"
    "transmitted ir_rc6_encode rc6_tol msgs evs"
  shows "\<exists>d' as. decode_run ir_rc6_decode d evs = (d', as) \<and> key_presses msgs as \<and> rc6_ready d'"
  by (rule rc6_codec.stream_roundtrip [OF assms])

lemma rc6_example_sends:
  "sends (ir_rc6_encode RC_PROTO_RC6_0 0x1e3d 64) rc6_tol" "sends (ir_rc6_encode RC_PROTO_RC6_MCE 0x800f0455 100) rc6_tol"
  "sends (ir_rc6_encode RC_PROTO_RC6_6A_32 0x80468001 100) rc6_tol"
  by code_simp+

theorem rc6_stream_roundtrip_witness:
  "\<exists>evs d' as. decode_run ir_rc6_decode
       \<lparr>rc6_st = RC6_STATE_INACTIVE, rc6_header = 9, rc6_body = 99, rc6_toggle = True, rc6_count = 5,
        rc6_wanted_bits = 3\<rparr> evs = (d', as) \<and>
     key_presses [(RC_PROTO_RC6_0, 0x1e3d), (RC_PROTO_RC6_MCE, 0x800f0455)] as"
proof -
  let ?d = "\<lparr>rc6_st = RC6_STATE_INACTIVE, rc6_header = 9, rc6_body = 99, rc6_toggle = True, rc6_count = 5,
     rc6_wanted_bits = 3\<rparr>"
  let ?msgs = "[(RC_PROTO_RC6_0, 0x1e3d), (RC_PROTO_RC6_MCE, 0x800f0455)]"
  obtain es1 n1 es2 n2 where "ir_rc6_encode RC_PROTO_RC6_0 0x1e3d 64 = (es1, Inr n1)" "jittered rc6_tol es1 es1"
    "ir_rc6_encode RC_PROTO_RC6_MCE 0x800f0455 100 = (es2, Inr n2)" "jittered rc6_tol es2 es2"
    using rc6_example_sends by (metis sendsE)
  then have "transmitted ir_rc6_encode rc6_tol ?msgs (es1 @ es2 @ [])" by (intro transmittedI; simp)
  moreover have "\<forall>(p, sc) \<in> set ?msgs. p \<in> rc6_protos \<and> canonical_scancode p sc \<and>
      \<not> (p = RC_PROTO_RC6_6A_32 \<and> rc6_foreign_code sc)"
    by (simp add: canonical_scancode_def rc_validate_scancode_def)
  ultimately show ?thesis
    using rc6_stream_roundtrip [of ?d ?msgs "es1 @ es2 @ []"]
    by (simp only: rc6_inv_def rc6_ready_def rc6_dec.simps rc6_state.simps simp_thms) blast
qed

text \<open>
  The validation of scancodes and the decoder disagree on what an MCE scancode is: a 32 bit mode 6A
  scancode with the Kathrein or Zotac customer code passes \<^verbatim>\<open>rc_validate_scancode\<close>, is encoded, and
  comes back from the decoder as an MCE scancode with its toggle bit removed.
\<close>

theorem rc6_foreign_code_becomes_mce:
  assumes "rc6_ready d" "rc6_foreign_code sc"
    "ir_rc6_encode RC_PROTO_RC6_6A_32 sc room = (es, Inr n)" "jittered rc6_tol es es'"
  shows "rc_validate_scancode RC_PROTO_RC6_6A_32 sc \<and>
    (\<exists>d' t. decode_run ir_rc6_decode d es' = (d', [Rc_keydown RC_PROTO_RC6_MCE (sc AND NOT 0x8000) t]))"
proof
  show v: "rc_validate_scancode RC_PROTO_RC6_6A_32 sc"
    using assms(2) by (auto simp: rc_validate_scancode_def rc6_foreign_code_def rc6_codes)
  then have "canonical_scancode RC_PROTO_RC6_6A_32 sc"
    by (simp only: canonical_scancode_def protocols_scancode_bits.simps not_ffffffff and_zero_eq simp_thms)
  from rc6_roundtrip_any [OF assms(1) this _ assms(3,4)] assms(2)
  show "\<exists>d' t. decode_run ir_rc6_decode d es' = (d', [Rc_keydown RC_PROTO_RC6_MCE (sc AND NOT 0x8000) t])"
    by (auto simp: rc6_reported_def)
qed

theorem rc6_foreign_code_becomes_mce_witness:
  "rc_validate_scancode RC_PROTO_RC6_6A_32 0x80468001 \<and>
   (\<exists>es d' t. decode_run ir_rc6_decode
       \<lparr>rc6_st = RC6_STATE_INACTIVE, rc6_header = 0, rc6_body = 0, rc6_toggle = False, rc6_count = 0,
        rc6_wanted_bits = 0\<rparr> es = (d', [Rc_keydown RC_PROTO_RC6_MCE (0x80468001 AND NOT 0x8000) t]))"
proof -
  let ?d = "\<lparr>rc6_st = RC6_STATE_INACTIVE, rc6_header = 0, rc6_body = 0, rc6_toggle = False, rc6_count = 0,
     rc6_wanted_bits = 0\<rparr>"
  obtain es n where "ir_rc6_encode RC_PROTO_RC6_6A_32 0x80468001 100 = (es, Inr n)" "jittered rc6_tol es es"
    using rc6_example_sends(3) by (rule sendsE)
  from rc6_foreign_code_becomes_mce [OF _ _ this, of ?d] show ?thesis
    by (auto simp: rc6_ready_def rc6_foreign_code_def rc6_codes)
qed

end
