(* ===== verification/Ir_Rcmm.thy ===== *)
theory Ir_Rcmm
  imports Rc_Proto
begin

text \<open>
  The RC-MM handler, \<^verbatim>\<open>rc/ir-rcmm-decoder.c\<close>: two bits per symbol, in the length of the space after
  a short pulse; messages of 12, 24 or 32 bits.
\<close>

section \<open>Constants and state\<close>

definition RCMM_UNIT :: u32 where [ir_const]: "RCMM_UNIT = 166667"
definition RCMM_PREFIX_PULSE :: u32 where [ir_const]: "RCMM_PREFIX_PULSE = 416666"
definition RCMM_PULSE_0 :: u32 where [ir_const]: "RCMM_PULSE_0 = 277777"
definition RCMM_PULSE_1 :: u32 where [ir_const]: "RCMM_PULSE_1 = 444444"
definition RCMM_PULSE_2 :: u32 where [ir_const]: "RCMM_PULSE_2 = 611111"
definition RCMM_PULSE_3 :: u32 where [ir_const]: "RCMM_PULSE_3 = 777778"

datatype rcmm_state = RCMM_STATE_INACTIVE | RCMM_STATE_LOW | RCMM_STATE_BUMP | RCMM_STATE_VALUE
  | RCMM_STATE_FINISHED

record rcmm_dec =
  rcmm_st :: rcmm_state
  rcmm_count :: u32
  rcmm_bits :: u32

section \<open>Operations\<close>

definition rcmm_mode :: "rcmm_dec \<Rightarrow> bool" where
  "rcmm_mode d \<longleftrightarrow> \<not> (0x000c0000 AND rcmm_bits d = 0x000c0000)"

text \<open>\<^verbatim>\<open>rcmm_miscmode\<close>: \<^const>\<open>None\<close> is its return value \<open>-1\<close>.\<close>

definition rcmm_miscmode :: "u64 \<Rightarrow> rcmm_dec \<Rightarrow> (rcmm_dec \<times> rc_action list) option" where
  "rcmm_miscmode enabled_protocols d =
     (if rcmm_count d = 24 then
        if proto_enabled enabled_protocols RC_PROTO_RCMM24 then
          Some (d\<lparr>rcmm_st := RCMM_STATE_INACTIVE\<rparr>, [Rc_keydown RC_PROTO_RCMM24 (rcmm_bits d) 0])
        else None
      else if rcmm_count d = 12 then
        if proto_enabled enabled_protocols RC_PROTO_RCMM12 then
          Some (d\<lparr>rcmm_st := RCMM_STATE_INACTIVE\<rparr>, [Rc_keydown RC_PROTO_RCMM12 (rcmm_bits d) 0])
        else None
      else None)"

definition rcmm_fail :: "rcmm_dec \<Rightarrow> rcmm_dec decoded" where
  "rcmm_fail d = (d\<lparr>rcmm_st := RCMM_STATE_INACTIVE\<rparr>, [], Inl EINVAL)"

definition rcmm_value :: "u32 \<Rightarrow> u32 option" where
  "rcmm_value d =
     (if eq_margin d RCMM_PULSE_0 (RCMM_UNIT div 2) then Some 0
      else if eq_margin d RCMM_PULSE_1 (RCMM_UNIT div 2) then Some 1
      else if eq_margin d RCMM_PULSE_2 (RCMM_UNIT div 2) then Some 2
      else if eq_margin d RCMM_PULSE_3 (RCMM_UNIT div 2) then Some 3
      else None)"

definition ir_rcmm_decode :: "u64 \<Rightarrow> rcmm_dec decoder" where
  "ir_rcmm_decode enabled_protocols d ev =
     (if enabled_protocols AND (rc_proto_bit RC_PROTO_RCMM32 OR rc_proto_bit RC_PROTO_RCMM24 OR
           rc_proto_bit RC_PROTO_RCMM12) = 0 then (d, [], Inr ())
      else if \<not> is_timing_event ev then
        ((if ev_reset ev then d\<lparr>rcmm_st := RCMM_STATE_INACTIVE\<rparr> else d), [], Inr ())
      else
        case rcmm_st d of
          RCMM_STATE_INACTIVE \<Rightarrow>
            if \<not> pulse ev then rcmm_fail d
            else if \<not> eq_margin (duration ev) RCMM_PREFIX_PULSE (RCMM_UNIT div 2) then rcmm_fail d
            else (d\<lparr>rcmm_st := RCMM_STATE_LOW, rcmm_count := 0, rcmm_bits := 0\<rparr>, [], Inr ())
        | RCMM_STATE_LOW \<Rightarrow>
            if pulse ev then rcmm_fail d
            else if \<not> eq_margin (duration ev) RCMM_PULSE_0 (RCMM_UNIT div 2) then rcmm_fail d
            else (d\<lparr>rcmm_st := RCMM_STATE_BUMP\<rparr>, [], Inr ())
        | RCMM_STATE_BUMP \<Rightarrow>
            if \<not> pulse ev then rcmm_fail d
            else if \<not> eq_margin (duration ev) RCMM_UNIT (RCMM_UNIT div 2) then rcmm_fail d
            else (d\<lparr>rcmm_st := RCMM_STATE_VALUE\<rparr>, [], Inr ())
        | RCMM_STATE_VALUE \<Rightarrow>
            if pulse ev then rcmm_fail d
            else
              (case rcmm_value (duration ev) of
                 None \<Rightarrow>
                   (case rcmm_miscmode enabled_protocols d of
                      Some (d', as) \<Rightarrow> (d', as, Inr ())
                    | None \<Rightarrow> rcmm_fail d)
               | Some v \<Rightarrow>
                   let d = d\<lparr>rcmm_bits := push_bit 2 (rcmm_bits d) OR v, rcmm_count := rcmm_count d + 2\<rparr> in
                   (d\<lparr>rcmm_st := if rcmm_count d < 32 then RCMM_STATE_BUMP else RCMM_STATE_FINISHED\<rparr>, [], Inr ()))
        | RCMM_STATE_FINISHED \<Rightarrow>
            if \<not> pulse ev then rcmm_fail d
            else if \<not> eq_margin (duration ev) RCMM_UNIT (RCMM_UNIT div 2) then rcmm_fail d
            else
              let (toggle, scancode) =
                (if rcmm_mode d then (of_bool (0x8000 AND rcmm_bits d \<noteq> 0), rcmm_bits d AND NOT 0x8000)
                 else (0, rcmm_bits d)) in
              if proto_enabled enabled_protocols RC_PROTO_RCMM32 then
                (d\<lparr>rcmm_st := RCMM_STATE_INACTIVE\<rparr>, [Rc_keydown RC_PROTO_RCMM32 scancode toggle], Inr ())
              else rcmm_fail d)"

definition rcmmspace :: "u32 \<Rightarrow> u32" where
  "rcmmspace v = (if v = 0 then RCMM_PULSE_0 else if v = 1 then RCMM_PULSE_1
     else if v = 2 then RCMM_PULSE_2 else RCMM_PULSE_3)"

text \<open>The loop of \<^verbatim>\<open>ir_rcmm_rawencoder\<close> with \<^verbatim>\<open>i = 2 * k\<close> at the end of the round.\<close>

fun rcmm_loop :: "u32 \<Rightarrow> nat \<Rightarrow> gen_state \<Rightarrow> gen_result" where
  "rcmm_loop data 0 s = (s, None)"
| "rcmm_loop data (Suc k) s =
     gen_then (ir_raw_gen_pulse_space s RCMM_UNIT (rcmmspace (drop_bit (2 * k) data AND 3))) (rcmm_loop data k)"

definition ir_rcmm_rawencoder :: "gen_state \<Rightarrow> nat \<Rightarrow> u32 \<Rightarrow> gen_result" where
  "ir_rcmm_rawencoder s n data =
     gen_then (ir_raw_gen_pulse_space s RCMM_PREFIX_PULSE RCMM_PULSE_0) (\<lambda>s.
     gen_then (rcmm_loop data (n div 2) s) (\<lambda>s.
     ir_raw_gen_pulse_space s RCMM_UNIT (RCMM_PULSE_3 * 2)))"

definition ir_rcmm_encode :: "rc_proto \<Rightarrow> u32 \<Rightarrow> nat \<Rightarrow> ir_raw_event list \<times> nat result" where
  "ir_rcmm_encode protocol scancode room =
     (case protocol of
        RC_PROTO_RCMM32 \<Rightarrow> encode_result (ir_rcmm_rawencoder ([], room) 32 scancode)
      | RC_PROTO_RCMM24 \<Rightarrow> encode_result (ir_rcmm_rawencoder ([], room) 24 scancode)
      | RC_PROTO_RCMM12 \<Rightarrow> encode_result (ir_rcmm_rawencoder ([], room) 12 scancode)
      | _ \<Rightarrow> ([], Inl EINVAL))"

section \<open>The decoder's invariant\<close>

definition rcmm_inv :: "rcmm_dec \<Rightarrow> bool" where
  "rcmm_inv d = (case rcmm_st d of
      RCMM_STATE_INACTIVE \<Rightarrow> True
    | RCMM_STATE_LOW \<Rightarrow> rcmm_count d = 0
    | RCMM_STATE_FINISHED \<Rightarrow> rcmm_count d = 32
    | _ \<Rightarrow> even (unat (rcmm_count d)) \<and> unat (rcmm_count d) < 32)"

definition rcmm_any :: "u64 \<Rightarrow> bool" where
  "rcmm_any enabled \<longleftrightarrow> enabled AND (rc_proto_bit RC_PROTO_RCMM32 OR rc_proto_bit RC_PROTO_RCMM24 OR
     rc_proto_bit RC_PROTO_RCMM12) \<noteq> 0"

definition rcmm_ready :: "u64 \<Rightarrow> rcmm_dec \<Rightarrow> bool" where
  "rcmm_ready enabled d \<longleftrightarrow> rcmm_st d = RCMM_STATE_INACTIVE \<or> \<not> rcmm_any enabled"

lemma rcmm_count_step:
  assumes "even (unat (c :: u32))" "unat c < 32"
  shows "unat (c + 2) = unat c + 2" "c + 2 < 32 \<longleftrightarrow> unat c + 2 < 32" "\<not> c + 2 < 32 \<longleftrightarrow> c + 2 = 32"
proof -
  show u: "unat (c + 2) = unat c + 2" using assms by (simp add: unat_word_ariths)
  then show "c + 2 < 32 \<longleftrightarrow> unat c + 2 < 32" by (simp add: word_less_nat_alt)
  have "unat c + 2 \<le> 32" using assms by presburger
  with u show "\<not> c + 2 < 32 \<longleftrightarrow> c + 2 = 32" by (auto simp: word_less_nat_alt word_unat_eq_iff)
qed

lemma rcmm_inv_step: "rcmm_inv d \<Longrightarrow> ir_rcmm_decode enabled d ev = (d', as, r) \<Longrightarrow> rcmm_inv d'"
  using rcmm_count_step [of "rcmm_count d"]
  by (auto simp: ir_rcmm_decode_def rcmm_fail_def rcmm_miscmode_def rcmm_inv_def Let_def
      split: rcmm_state.splits if_splits option.splits)

interpretation rcmm: ir_strict_decoder "ir_rcmm_decode enabled" "rcmm_ready enabled" rcmm_inv
proof
  show "rcmm_inv d'" if "rcmm_inv d" "ir_rcmm_decode enabled d ev = (d', as, r)" for d ev d' as r
    using that by (rule rcmm_inv_step)
  show "\<exists>d'. ir_rcmm_decode enabled d ev = (d', [], Inr ()) \<and> rcmm_ready enabled d'" if "ev_reset ev" for ev d
    using that by (simp add: ir_rcmm_decode_def is_timing_event_def rcmm_ready_def rcmm_any_def)
  show "e = EINVAL \<and> as = [] \<and> rcmm_ready enabled d'" if "ir_rcmm_decode enabled d ev = (d', as, Inl e)" for d ev d' as e
    using that
    by (auto simp: ir_rcmm_decode_def rcmm_fail_def rcmm_miscmode_def rcmm_ready_def Let_def
        split: rcmm_state.splits if_splits option.splits)
qed

section \<open>Reading what the encoder sends\<close>

definition rcmm_tol :: u32 where [ir_const]: "rcmm_tol = RCMM_UNIT div 2"

definition rcmm_pair :: "bool \<times> bool \<Rightarrow> u32" where
  "rcmm_pair bb = push_bit 1 (of_bool (fst bb)) OR of_bool (snd bb)"

definition rcmm_symbol :: "bool \<times> bool \<Rightarrow> ir_raw_event list" where
  "rcmm_symbol bb = [init_ir_raw_event_duration True RCMM_UNIT, init_ir_raw_event_duration False (rcmmspace (rcmm_pair bb))]"

fun rcmm_pairs :: "u32 \<Rightarrow> nat \<Rightarrow> (bool \<times> bool) list" where
  "rcmm_pairs data 0 = []"
| "rcmm_pairs data (Suc k) = (bit data (2 * k + 1), bit data (2 * k)) # rcmm_pairs data k"

lemma length_rcmm_pairs [simp]: "length (rcmm_pairs data k) = k"
  by (induction k) auto

lemma rcmm_pair_bits: "drop_bit n (data :: u32) AND 3 = rcmm_pair (bit data (n + 1), bit data n)"
  by (rule u32_eqI, unfold upt_32) (auto simp: rcmm_pair_def bit_simps add.commute)

lemma rcmm_loop_emit: "rcmm_loop data k s = emit s (concat (map rcmm_symbol (rcmm_pairs data k)))"
  by (induction k arbitrary: s)
     (simp_all add: gen_pulse_space_emit emit_then rcmm_symbol_def rcmm_pair_bits)

definition rcmm_events :: "u32 \<Rightarrow> nat \<Rightarrow> ir_raw_event list" where
  "rcmm_events data k =
     [init_ir_raw_event_duration True RCMM_PREFIX_PULSE, init_ir_raw_event_duration False RCMM_PULSE_0] @
     concat (map rcmm_symbol (rcmm_pairs data k)) @
     [init_ir_raw_event_duration True RCMM_UNIT, init_ir_raw_event_duration False (RCMM_PULSE_3 * 2)]"

lemma rcmm_rawencoder_emit: "ir_rcmm_rawencoder s n data = emit s (rcmm_events data (n div 2))"
  by (simp add: ir_rcmm_rawencoder_def gen_pulse_space_emit rcmm_loop_emit emit_then rcmm_events_def)

lemma rcmm_value_pair:
  assumes "eq_margin d (rcmmspace (rcmm_pair bb)) rcmm_tol"
  shows "rcmm_value d = Some (rcmm_pair bb)"
proof -
  obtain b c where bb: "bb = (b, c)" by (cases bb)
  show ?thesis using assms
    by (cases b; cases c) (auto simp: bb rcmm_pair_def rcmmspace_def rcmm_value_def margin_nat ir_const)
qed

definition rcmm_got :: "nat \<Rightarrow> u32 \<Rightarrow> rcmm_dec \<Rightarrow> bool" where
  "rcmm_got k acc d \<longleftrightarrow> unat (rcmm_count d) = 2 * k \<and> rcmm_bits d = acc \<and>
     rcmm_st d = (if k = 16 then RCMM_STATE_FINISHED else RCMM_STATE_BUMP)"

lemma rcmm_got_symbol:
  assumes "rcmm_any enabled" "rcmm_got k acc d" "k < 16" "jittered rcmm_tol (rcmm_symbol bb) es"
  shows "\<exists>d'. decode_run (ir_rcmm_decode enabled) d es = (d', []) \<and> rcmm_got (Suc k) (push_bit 2 acc OR rcmm_pair bb) d'"
proof -
  from assms(4) obtain e1 e2 where es: "es = [e1, e2]" "pulse e1" "\<not> pulse e2" "is_timing_event e1" "is_timing_event e2"
    "eq_margin (duration e1) RCMM_UNIT (RCMM_UNIT div 2)" "rcmm_value (duration e2) = Some (rcmm_pair bb)"
    by (auto simp: rcmm_symbol_def jittered_Cons rcmm_tol_def [symmetric] intro: rcmm_value_pair)
  have "even (unat (rcmm_count d))" "unat (rcmm_count d) < 32" using assms(2,3) by (auto simp: rcmm_got_def)
  note c = rcmm_count_step [OF this]
  show ?thesis
    using assms(1-3) es c(1,2)
    by (auto simp: ir_rcmm_decode_def rcmm_any_def rcmm_got_def Let_def)
qed

text \<open>The receiver is only used when one of the protocols is enabled.\<close>

definition rcmm_run_ok :: "u64 \<Rightarrow> nat \<Rightarrow> u32 \<Rightarrow> rcmm_dec \<Rightarrow> bool" where
  "rcmm_run_ok enabled k acc d \<longleftrightarrow> rcmm_any enabled \<and> rcmm_got k acc d"

interpretation rcmm_recv: ir_receiver "ir_rcmm_decode enabled" rcmm_tol rcmm_symbol
  "\<lambda>a bb. push_bit 2 a OR rcmm_pair bb" 16 "rcmm_run_ok enabled"
  by unfold_locales (auto simp: rcmm_run_ok_def intro: rcmm_got_symbol)

lemma foldl_rcmm: "foldl (\<lambda>a bb. push_bit 2 a OR rcmm_pair bb) acc (rcmm_pairs data k) = shift_in acc (msb_bits (2 * k) data)"
proof (induction k arbitrary: acc)
  case (Suc k)
  have "push_bit 2 acc OR rcmm_pair (bit data (2 * k + 1), bit data (2 * k)) =
      push_bit 1 (push_bit 1 acc OR of_bool (bit data (2 * k + 1))) OR of_bool (bit data (2 * k))"
    unfolding rcmm_pair_def push_bit_or push_bit_push_bit fst_conv snd_conv by (simp only: or.assoc one_add_one)
  with Suc show ?case by simp
qed simp

fun rcmm_nsyms :: "rc_proto \<Rightarrow> nat" where
  "rcmm_nsyms RC_PROTO_RCMM12 = 6"
| "rcmm_nsyms RC_PROTO_RCMM24 = 12"
| "rcmm_nsyms _ = 16"

abbreviation rcmm_protos :: "rc_proto set" where
  "rcmm_protos \<equiv> {RC_PROTO_RCMM12, RC_PROTO_RCMM24, RC_PROTO_RCMM32}"

text \<open>
  A 32 bit scancode keeps its bit 15 only when bits 18 and 19 are set: otherwise it is the toggle
  bit and the decoder takes it out.
\<close>

definition rcmm_no_toggle :: "u32 \<Rightarrow> bool" where
  "rcmm_no_toggle sc \<longleftrightarrow> 0x000c0000 AND sc = 0x000c0000 \<or> 0x8000 AND sc = 0"

lemma rcmm_canonical_bit: "canonical_scancode p sc \<Longrightarrow> p \<in> rcmm_protos \<Longrightarrow> bit sc i \<Longrightarrow> i < 2 * rcmm_nsyms p"
  using bit_imp_le_length [of sc i]
  by (auto dest!: canonical_bit simp: mask_word_bits simp del: bit_numeral_word_iff)

lemma rcmm_any_enabled: "proto_enabled enabled p \<Longrightarrow> p \<in> rcmm_protos \<Longrightarrow> rcmm_any enabled"
  by (auto simp: rcmm_any_def proto_enabled_def bit.conj_disj_distrib or_eq_0_iff)

lemma rcmm_prefix_run:
  assumes "rcmm_ready enabled d" "rcmm_any enabled" "jittered rcmm_tol [init_ir_raw_event_duration True RCMM_PREFIX_PULSE,
      init_ir_raw_event_duration False RCMM_PULSE_0] es"
  shows "\<exists>d'. decode_run (ir_rcmm_decode enabled) d es = (d', []) \<and> rcmm_run_ok enabled 0 0 d'"
proof -
  from assms(3) obtain e1 e2 where "es = [e1, e2]" "pulse e1" "\<not> pulse e2" "is_timing_event e1" "is_timing_event e2"
    "eq_margin (duration e1) RCMM_PREFIX_PULSE (RCMM_UNIT div 2)" "eq_margin (duration e2) RCMM_PULSE_0 (RCMM_UNIT div 2)"
    by (auto simp: jittered_Cons rcmm_tol_def)
  with assms(1,2) show ?thesis
    by (auto simp: ir_rcmm_decode_def rcmm_any_def rcmm_ready_def rcmm_run_ok_def rcmm_got_def)
qed

lemma rcmm_end_run:
  assumes "rcmm_run_ok enabled (rcmm_nsyms p) sc d" "p \<in> rcmm_protos" "proto_enabled enabled p"
    "p = RC_PROTO_RCMM32 \<longrightarrow> rcmm_no_toggle sc" "jittered rcmm_tol [init_ir_raw_event_duration True RCMM_UNIT,
      init_ir_raw_event_duration False (RCMM_PULSE_3 * 2)] es"
  shows "\<exists>d' t. decode_run (ir_rcmm_decode enabled) d es = (d', [Rc_keydown p sc t]) \<and> rcmm_ready enabled d'"
proof -
  from assms(5) obtain e1 e2 where es: "es = [e1, e2]" "pulse e1" "\<not> pulse e2" "is_timing_event e1" "is_timing_event e2"
    "eq_margin (duration e1) RCMM_UNIT (RCMM_UNIT div 2)" and e2: "eq_margin (duration e2) (RCMM_PULSE_3 * 2) rcmm_tol"
    by (auto simp: jittered_Cons rcmm_tol_def)
  have none: "rcmm_value (duration e2) = None" using e2 by (auto simp: rcmm_value_def margin_nat ir_const)
  have any: "rcmm_any enabled" and d: "unat (rcmm_count d) = 2 * rcmm_nsyms p" "rcmm_bits d = sc"
    "rcmm_st d = (if rcmm_nsyms p = 16 then RCMM_STATE_FINISHED else RCMM_STATE_BUMP)"
    using assms(1) by (auto simp: rcmm_run_ok_def rcmm_got_def)
  have cnt: "rcmm_count d = of_nat (2 * rcmm_nsyms p)" by (simp flip: d(1))
  show ?thesis
  proof (cases "p = RC_PROTO_RCMM32")
    case True
    have "(if rcmm_mode d then rcmm_bits d AND NOT 0x8000 else rcmm_bits d) = sc"
    proof (cases "0x000c0000 AND sc = 0x000c0000")
      case False
      then have "\<not> bit sc 15" using assms(4) True and_push_bit [of 15 sc] by (simp add: rcmm_no_toggle_def and.commute)
      then have "sc AND NOT 0x8000 = sc" by (intro u32_eqI, unfold upt_32) (simp add: bit_simps)
      with False d show ?thesis by (simp add: rcmm_mode_def)
    qed (simp add: rcmm_mode_def d)
    with True es d any assms(3) show ?thesis
      by (auto simp: ir_rcmm_decode_def rcmm_any_def rcmm_fail_def rcmm_ready_def Let_def split: if_splits)
  next
    case False
    with assms(2,3) es none any d cnt show ?thesis
      by (auto simp: ir_rcmm_decode_def rcmm_any_def rcmm_miscmode_def rcmm_ready_def)
  qed
qed

lemma rcmm_roundtrip:
  assumes "rcmm_ready enabled d" "canonical_scancode p sc" "p \<in> rcmm_protos" "proto_enabled enabled p"
    "p = RC_PROTO_RCMM32 \<longrightarrow> rcmm_no_toggle sc" "ir_rcmm_encode p sc room = (es, Inr n)" "jittered rcmm_tol es es'"
  shows "\<exists>d' t. decode_run (ir_rcmm_decode enabled) d es' = (d', [Rc_keydown p sc t]) \<and> rcmm_ready enabled d'"
proof -
  let ?k = "rcmm_nsyms p" and ?run = "decode_run (ir_rcmm_decode enabled)"
  note any = rcmm_any_enabled [OF assms(4,3)]
  have "es = rcmm_events sc ?k"
    using assms(3,6) by (auto simp: ir_rcmm_encode_def rcmm_rawencoder_emit encode_result_emit split: if_splits)
  with assms(7) obtain e1 e2 e3 where es: "es' = e1 @ e2 @ e3"
    and e1: "jittered rcmm_tol [init_ir_raw_event_duration True RCMM_PREFIX_PULSE, init_ir_raw_event_duration False RCMM_PULSE_0] e1"
    and e2: "jittered rcmm_tol (concat (map rcmm_symbol (rcmm_pairs sc ?k))) e2"
    and e3: "jittered rcmm_tol [init_ir_raw_event_duration True RCMM_UNIT, init_ir_raw_event_duration False (RCMM_PULSE_3 * 2)] e3"
    unfolding rcmm_events_def by (metis jittered_appendE)
  from rcmm_prefix_run [OF assms(1) any e1] obtain d1 where d1: "?run d e1 = (d1, [])" "rcmm_run_ok enabled 0 0 d1" by blast
  have "?k \<le> 16" using assms(3) by auto
  moreover have "shift_in 0 (msb_bits (2 * ?k) sc) = sc"
    by (rule bit_word_eqI) (auto simp: bit_shift_in_msb dest: rcmm_canonical_bit [OF assms(2,3)])
  ultimately obtain d2 where d2: "?run d1 e2 = (d2, [])" "rcmm_run_ok enabled ?k sc d2"
    using rcmm_recv.got_symbols [OF d1(2) _ e2, unfolded foldl_rcmm] by auto
  from rcmm_end_run [OF d2(2) assms(3-5) e3] obtain d3 t where "?run d2 e3 = (d3, [Rc_keydown p sc t])" "rcmm_ready enabled d3"
    by blast
  with decode_run_trans [OF d1(1) decode_run_trans [OF d2(1)]] show ?thesis by (auto simp: es)
qed

interpretation rcmm_codec: ir_codec "ir_rcmm_decode enabled" "rcmm_ready enabled" rcmm_inv ir_rcmm_encode
  "\<lambda>p sc. p \<in> rcmm_protos \<and> proto_enabled enabled p \<and> canonical_scancode p sc \<and>
     (p = RC_PROTO_RCMM32 \<longrightarrow> rcmm_no_toggle sc)" rcmm_tol
  by unfold_locales (use rcmm_roundtrip in blast)

section \<open>Properties\<close>

text \<open>
  C26: A sequence of RC-MM messages of 12, 24 and 32 bits, in any mix of the enabled variants, sent with
  \<^verbatim>\<open>ir_rcmm_encode\<close> and received with every duration off by less than half a unit, is decoded by
  \<^verbatim>\<open>ir_rcmm_decode\<close> as exactly the key presses sent, in order. Excluded are the
  32 bit scancodes with bit 15 set of which bits 18 and 19 are not both set (\<open>rcmm_no_toggle\<close>), though these are valid: the decoder takes bit 15 of them as the
  toggle and removes it (\<open>rcmm_toggle_bit_lost\<close>).
\<close>

theorem rcmm_stream_roundtrip:
  assumes "rcmm_inv d" "rcmm_ready enabled d"
    "\<forall>(p, sc) \<in> set msgs. p \<in> rcmm_protos \<and> proto_enabled enabled p \<and> canonical_scancode p sc \<and>
       (p = RC_PROTO_RCMM32 \<longrightarrow> rcmm_no_toggle sc)"
    "transmitted ir_rcmm_encode rcmm_tol msgs evs"
  shows "\<exists>d' as. decode_run (ir_rcmm_decode enabled) d evs = (d', as) \<and> key_presses msgs as \<and> rcmm_ready enabled d'"
  by (rule rcmm_codec.stream_roundtrip [OF assms])

text \<open>A valid scancode of 32 bits that does not arrive as it was sent.\<close>

lemma rcmm_toggle_bit_lost:
  "canonical_scancode RC_PROTO_RCMM32 0x8000"
  "snd (decode_run (ir_rcmm_decode 0xffffffff) \<lparr>rcmm_st = RCMM_STATE_INACTIVE, rcmm_count = 0, rcmm_bits = 0\<rparr>
     (fst (ir_rcmm_encode RC_PROTO_RCMM32 0x8000 64))) = [Rc_keydown RC_PROTO_RCMM32 0 1]"
  by (simp add: canonical_scancode_def rc_validate_scancode_def) code_simp

lemma rcmm_example_sends:
  "sends (ir_rcmm_encode RC_PROTO_RCMM12 0x5a7 64) rcmm_tol" "sends (ir_rcmm_encode RC_PROTO_RCMM32 0x12345678 64) rcmm_tol"
  by code_simp+

theorem rcmm_stream_roundtrip_witness:
  "\<exists>evs d' as. decode_run (ir_rcmm_decode 0xffffffff)
       \<lparr>rcmm_st = RCMM_STATE_INACTIVE, rcmm_count = 5, rcmm_bits = 7\<rparr> evs = (d', as) \<and>
     key_presses [(RC_PROTO_RCMM12, 0x5a7), (RC_PROTO_RCMM32, 0x12345678)] as"
proof -
  let ?d = "\<lparr>rcmm_st = RCMM_STATE_INACTIVE, rcmm_count = 5, rcmm_bits = 7\<rparr>"
  let ?msgs = "[(RC_PROTO_RCMM12, 0x5a7), (RC_PROTO_RCMM32, 0x12345678)]"
  obtain es1 n1 es2 n2 where "ir_rcmm_encode RC_PROTO_RCMM12 0x5a7 64 = (es1, Inr n1)" "jittered rcmm_tol es1 es1"
    "ir_rcmm_encode RC_PROTO_RCMM32 0x12345678 64 = (es2, Inr n2)" "jittered rcmm_tol es2 es2"
    using rcmm_example_sends by (metis sendsE)
  then have "transmitted ir_rcmm_encode rcmm_tol ?msgs (es1 @ es2 @ [])" by (intro transmittedI; simp)
  moreover have "\<forall>(p, sc) \<in> set ?msgs. p \<in> rcmm_protos \<and> proto_enabled 0xffffffff p \<and> canonical_scancode p sc \<and>
       (p = RC_PROTO_RCMM32 \<longrightarrow> rcmm_no_toggle sc)"
    by (simp, code_simp)
  ultimately show ?thesis
    using rcmm_stream_roundtrip [of ?d "0xffffffff" ?msgs "es1 @ es2 @ []"]
    by (simp only: rcmm_inv_def rcmm_ready_def rcmm_dec.simps rcmm_state.simps simp_thms) blast
qed

end
