(* ===== verification/Ir_Xmp.thy ===== *)
theory Ir_Xmp
  imports Rc_Proto
begin

text \<open>
  The XMP handler, \<^verbatim>\<open>rc/ir-xmp-decoder.c\<close>. The decoder stores the durations of sixteen spaces in
  an array of the device and turns them into nibbles when the trailer arrives. A write outside
  that array is the outcome \<^const>\<open>EFAULT\<close> of the model, which the code cannot produce otherwise.
\<close>

section \<open>Constants and state\<close>

definition XMP_UNIT :: u32 where [ir_const]: "XMP_UNIT = 136000"
definition XMP_LEADER :: u32 where [ir_const]: "XMP_LEADER = 210000"
definition XMP_NIBBLE_PREFIX :: u32 where [ir_const]: "XMP_NIBBLE_PREFIX = 760000"
definition XMP_HALFFRAME_SPACE :: u32 where [ir_const]: "XMP_HALFFRAME_SPACE = 13800000"
definition XMP_TRAILER_SPACE :: u32 where [ir_const]: "XMP_TRAILER_SPACE = 20000000"

datatype xmp_state = XMP_STATE_INACTIVE | XMP_STATE_LEADER_PULSE | XMP_STATE_NIBBLE_SPACE

record xmp_dec =
  xmp_st :: xmp_state
  xmp_count :: u32
  xmp_durations :: "u32 list"

section \<open>Operations\<close>

definition xmp_fail :: "xmp_dec \<Rightarrow> xmp_dec decoded" where
  "xmp_fail d = (d\<lparr>xmp_st := XMP_STATE_INACTIVE\<rparr>, [], Inl EINVAL)"

text \<open>
  The divider is computed in 32 bit unsigned arithmetic and stored in an \<^verbatim>\<open>int\<close>; the conversion of
  a duration divides by it as an unsigned number again.
\<close>

definition xmp_divider :: "u32 \<Rightarrow> u32" where
  "xmp_divider n3 = (n3 - XMP_NIBBLE_PREFIX) div 15 - 2000"

definition xmp_nibble :: "u32 \<Rightarrow> u32 \<Rightarrow> u32" where
  "xmp_nibble divider n = (n - XMP_NIBBLE_PREFIX) div divider"

definition xmp_sum :: "u32 list \<Rightarrow> u8" where
  "xmp_sum ns = ucast (foldl (+) 15 ns mod 16)"

definition xmp_trailer :: "xmp_dec \<Rightarrow> xmp_dec decoded" where
  "xmp_trailer d =
     (if xmp_count d \<noteq> 16 then xmp_fail d
      else
        let divider = xmp_divider (xmp_durations d ! 3) in
        if sint divider < 50 then xmp_fail d
        else
          let n = map (xmp_nibble divider) (xmp_durations d);
              d = d\<lparr>xmp_durations := n\<rparr>;
              sum1 = xmp_sum (take 8 n);
              sum2 = xmp_sum (take 8 (drop 8 n)) in
          if sum1 \<noteq> 15 \<or> sum2 \<noteq> 15 then xmp_fail d
          else
            let subaddr = ucast (push_bit 4 (n ! 0) OR n ! 2) :: u8;
                subaddr2 = ucast (push_bit 4 (n ! 8) OR n ! 11) :: u8;
                addr = ucast (push_bit 4 (n ! 6) OR n ! 7) :: u8;
                toggle = ucast (n ! 10) :: u8;
                obc1 = ucast (push_bit 4 (n ! 12) OR n ! 13) :: u8;
                obc2 = ucast (push_bit 4 (n ! 14) OR n ! 15) :: u8 in
            if subaddr \<noteq> subaddr2 then xmp_fail d
            else
              let scancode = push_bit 24 (ucast addr) OR push_bit 16 (ucast subaddr) OR
                    push_bit 8 (ucast obc1) OR ucast obc2 in
              (d\<lparr>xmp_st := XMP_STATE_INACTIVE\<rparr>,
               [if toggle = 0 then Rc_keydown RC_PROTO_XMP scancode 0 else Rc_repeat], Inr ()))"

definition ir_xmp_decode :: "xmp_dec decoder" where
  "ir_xmp_decode d ev =
     (if \<not> is_timing_event ev then
        ((if ev_reset ev then d\<lparr>xmp_st := XMP_STATE_INACTIVE\<rparr> else d), [], Inr ())
      else
        case xmp_st d of
          XMP_STATE_INACTIVE \<Rightarrow>
            if \<not> pulse ev then xmp_fail d
            else if eq_margin (duration ev) XMP_LEADER (XMP_UNIT div 2) then
              (d\<lparr>xmp_count := 0, xmp_st := XMP_STATE_NIBBLE_SPACE\<rparr>, [], Inr ())
            else (d, [], Inr ())
        | XMP_STATE_LEADER_PULSE \<Rightarrow>
            if \<not> pulse ev then xmp_fail d
            else if eq_margin (duration ev) XMP_LEADER (XMP_UNIT div 2) then
              (d\<lparr>xmp_st := XMP_STATE_NIBBLE_SPACE\<rparr>, [], Inr ())
            else (d, [], Inr ())
        | XMP_STATE_NIBBLE_SPACE \<Rightarrow>
            if pulse ev then xmp_fail d
            else if geq_margin (duration ev) XMP_TRAILER_SPACE XMP_NIBBLE_PREFIX then xmp_trailer d
            else if geq_margin (duration ev) XMP_HALFFRAME_SPACE XMP_NIBBLE_PREFIX then
              ((if xmp_count d = 16 then d\<lparr>xmp_count := 8\<rparr> else d)\<lparr>xmp_st := XMP_STATE_LEADER_PULSE\<rparr>, [], Inr ())
            else if geq_margin (duration ev) XMP_NIBBLE_PREFIX XMP_UNIT then
              if xmp_count d = 16 then xmp_fail d
              else
                (case mem_set (xmp_durations d) (unat (xmp_count d)) (duration ev) of
                   None \<Rightarrow> (d, [], Inl EFAULT)
                 | Some ds \<Rightarrow>
                     (d\<lparr>xmp_durations := ds, xmp_count := xmp_count d + 1, xmp_st := XMP_STATE_LEADER_PULSE\<rparr>, [], Inr ()))
            else xmp_fail d)"

section \<open>Memory safety\<close>

definition xmp_inv :: "xmp_dec \<Rightarrow> bool" where
  "xmp_inv d \<longleftrightarrow> length (xmp_durations d) = 16 \<and> xmp_count d \<le> 16"

definition xmp_ready :: "xmp_dec \<Rightarrow> bool" where
  "xmp_ready d \<longleftrightarrow> xmp_st d = XMP_STATE_INACTIVE"

lemma xmp_index: "xmp_inv d \<Longrightarrow> xmp_count d \<noteq> 16 \<Longrightarrow> unat (xmp_count d) < length (xmp_durations d)"
  by (auto simp: xmp_inv_def word_le_nat_alt word_unat_eq_iff)

lemma xmp_count_inc: "xmp_inv d \<Longrightarrow> xmp_count d \<noteq> 16 \<Longrightarrow> xmp_count d + 1 \<le> 16"
  by (rule inc_le) (simp add: xmp_inv_def order_less_le)

lemma xmp_trailer_cases:
  "xmp_inv d \<Longrightarrow> xmp_trailer d = (d', as, r) \<Longrightarrow>
   xmp_inv d' \<and> xmp_ready d' \<and> (\<forall>e. r = Inl e \<longrightarrow> e = EINVAL \<and> as = [])"
  by (auto simp: xmp_trailer_def xmp_fail_def xmp_inv_def xmp_ready_def Let_def split: if_splits)

interpretation xmp: ir_strict_decoder ir_xmp_decode xmp_ready xmp_inv
proof
  show "xmp_inv d'" if "xmp_inv d" "ir_xmp_decode d ev = (d', as, r)" for d ev d' as r
    using that xmp_index [OF that(1)] xmp_count_inc [OF that(1)] xmp_trailer_cases [OF that(1), of d' as r]
    by (auto simp: ir_xmp_decode_def xmp_fail_def xmp_inv_def mem_simps split: xmp_state.splits if_splits)
  show "\<exists>d'. ir_xmp_decode d ev = (d', [], Inr ()) \<and> xmp_ready d'" if "ev_reset ev" for ev d
    using that by (simp add: ir_xmp_decode_def is_timing_event_def xmp_ready_def)
  show "e = EINVAL \<and> as = [] \<and> xmp_ready d'" if "xmp_inv d" "ir_xmp_decode d ev = (d', as, Inl e)" for d ev d' as e
    using that xmp_index [OF that(1)] xmp_trailer_cases [OF that(1), of d' as "Inl e"]
    by (auto simp: ir_xmp_decode_def xmp_fail_def xmp_ready_def mem_simps split: xmp_state.splits if_splits)
qed

section \<open>Decoding a frame\<close>

abbreviation xmp_sym :: "u32 \<Rightarrow> ir_raw_event list" where
  "xmp_sym s \<equiv> [init_ir_raw_event_duration True XMP_LEADER, init_ir_raw_event_duration False s]"

definition xmp_frame :: "u32 list \<Rightarrow> ir_raw_event list" where
  "xmp_frame ds = concat (map xmp_sym (take 8 ds)) @ xmp_sym XMP_HALFFRAME_SPACE @
     concat (map xmp_sym (drop 8 ds)) @ xmp_sym XMP_TRAILER_SPACE"

text \<open>
  A duration that stands for a nibble: the prefix, the unit times the nibble, and less than 15
  microseconds more.
\<close>

definition xmp_encodes :: "nat \<Rightarrow> u32 \<Rightarrow> bool" where
  "xmp_encodes v s \<longleftrightarrow> v \<le> 15 \<and> 760000 + 136000 * v \<le> unat s \<and> unat s < 760000 + 136000 * v + 15000"

lemma xmp_nibble_space:
  assumes "xmp_encodes v s"
  shows "\<not> geq_margin s XMP_TRAILER_SPACE XMP_NIBBLE_PREFIX" "\<not> geq_margin s XMP_HALFFRAME_SPACE XMP_NIBBLE_PREFIX"
    "geq_margin s XMP_NIBBLE_PREFIX XMP_UNIT"
  using assms by (auto simp: xmp_encodes_def margin_nat ir_const)

definition xmp_waiting :: "nat \<Rightarrow> u32 list \<Rightarrow> xmp_dec \<Rightarrow> bool" where
  "xmp_waiting k ds d \<longleftrightarrow> length ds = 16 \<and> xmp_durations d = ds \<and>
     (xmp_st d = XMP_STATE_INACTIVE \<and> k = 0 \<or> xmp_st d = XMP_STATE_LEADER_PULSE \<and> unat (xmp_count d) = k)"

lemma xmp_leader: "eq_margin XMP_LEADER XMP_LEADER (XMP_UNIT div 2)"
  by (simp add: margin_nat ir_const)

lemma xmp_symbol_run:
  assumes "xmp_waiting k ds d" "k < 16" "xmp_encodes v s"
  shows "\<exists>d'. decode_run ir_xmp_decode d (xmp_sym s) = (d', []) \<and> xmp_waiting (Suc k) (ds[k := s]) d'"
proof -
  let ?c = "if xmp_st d = XMP_STATE_INACTIVE then 0 else xmp_count d"
  have c: "unat ?c = k" using assms(1) by (auto simp: xmp_waiting_def)
  then have "?c \<noteq> 16" "unat (?c + 1) = Suc k" using assms(2) by (auto simp: unat_inc)
  with c assms(1,2) xmp_nibble_space [OF assms(3)] show ?thesis
    by (auto simp: ir_xmp_decode_def xmp_leader xmp_waiting_def mem_simps split: if_splits)
qed

lemma xmp_symbols_run:
  assumes "xmp_waiting k ds d" "k + length ss \<le> 16" "list_all2 xmp_encodes vs ss"
  shows "\<exists>d'. decode_run ir_xmp_decode d (concat (map xmp_sym ss)) = (d', []) \<and>
    xmp_waiting (k + length ss) (take k ds @ ss @ drop (k + length ss) ds) d'"
  using assms
proof (induction ss arbitrary: k ds d vs)
  case Nil
  then show ?case by simp
next
  case (Cons s ss)
  from Cons.prems(3) obtain v vs' where v: "xmp_encodes v s" "list_all2 xmp_encodes vs' ss" by (cases vs) auto
  from xmp_symbol_run [OF Cons.prems(1) _ v(1)] Cons.prems(2) obtain d1
    where d1: "decode_run ir_xmp_decode d (xmp_sym s) = (d1, [])" "xmp_waiting (Suc k) (ds[k := s]) d1" by auto
  from Cons.IH [OF d1(2) _ v(2)] Cons.prems(2) obtain d2
    where d2: "decode_run ir_xmp_decode d1 (concat (map xmp_sym ss)) = (d2, [])"
      "xmp_waiting (Suc k + length ss) (take (Suc k) (ds[k := s]) @ ss @ drop (Suc k + length ss) (ds[k := s])) d2"
    by auto
  have "k < length ds" using Cons.prems(1,2) by (auto simp: xmp_waiting_def)
  then have "take (Suc k) (ds[k := s]) @ ss @ drop (Suc k + length ss) (ds[k := s]) =
      take k ds @ (s # ss) @ drop (k + length (s # ss)) ds"
    by (simp add: take_Suc_conv_app_nth)
  with d2 decode_run_trans [OF d1(1) d2(1)] show ?case by simp
qed

lemma xmp_halfframe_run:
  assumes "xmp_waiting 8 ds d"
  shows "\<exists>d'. decode_run ir_xmp_decode d (xmp_sym XMP_HALFFRAME_SPACE) = (d', []) \<and> xmp_waiting 8 ds d'"
proof -
  have "\<not> geq_margin XMP_HALFFRAME_SPACE XMP_TRAILER_SPACE XMP_NIBBLE_PREFIX"
    "geq_margin XMP_HALFFRAME_SPACE XMP_HALFFRAME_SPACE XMP_NIBBLE_PREFIX"
    by (simp_all add: margin_nat ir_const)
  moreover have "xmp_count d \<noteq> 16" using assms by (auto simp: xmp_waiting_def)
  ultimately show ?thesis using assms by (auto simp: ir_xmp_decode_def xmp_leader xmp_waiting_def)
qed

lemma xmp_trailer_run:
  assumes "xmp_waiting 16 ds d"
  shows "decode_run ir_xmp_decode d (xmp_sym XMP_TRAILER_SPACE) =
    (case xmp_trailer (d\<lparr>xmp_st := XMP_STATE_NIBBLE_SPACE\<rparr>) of (d', as, r) \<Rightarrow> (d', as))"
proof -
  have "geq_margin XMP_TRAILER_SPACE XMP_TRAILER_SPACE XMP_NIBBLE_PREFIX" by (simp add: margin_nat ir_const)
  with assms show ?thesis by (auto simp: ir_xmp_decode_def xmp_leader xmp_waiting_def split: prod.splits)
qed

text \<open>The conversion of durations to nibbles.\<close>

lemma xmp_divider_range:
  assumes "xmp_encodes 15 s"
  shows "unat (xmp_divider s) = (unat s - 760000) div 15 - 2000" "134000 \<le> unat (xmp_divider s)"
    "unat (xmp_divider s) < 135000" "\<not> sint (xmp_divider s) < 50"
proof -
  have s: "760000 \<le> unat s" "2040000 \<le> unat s - 760000" "unat s - 760000 < 2055000"
    using assms by (auto simp: xmp_encodes_def)
  have "unat (s - XMP_NIBBLE_PREFIX) = unat s - 760000"
    using s(1) by (simp add: unat_sub word_le_nat_alt ir_const)
  then have q: "unat ((s - XMP_NIBBLE_PREFIX) div 15) = (unat s - 760000) div 15" by (simp add: unat_div)
  moreover have r: "136000 \<le> (unat s - 760000) div 15" "(unat s - 760000) div 15 < 137000" using s by auto
  ultimately show u: "unat (xmp_divider s) = (unat s - 760000) div 15 - 2000"
    unfolding xmp_divider_def by (simp add: unat_sub word_le_nat_alt)
  from r show "134000 \<le> unat (xmp_divider s)" and lt: "unat (xmp_divider s) < 135000"
    unfolding u by linarith+
  define i where "i = unat (xmp_divider s)"
  have i: "uint (xmp_divider s) = int i" "i < 135000" "134000 \<le> i"
    using lt \<open>134000 \<le> unat (xmp_divider s)\<close> by (simp_all add: i_def)
  have "sint (xmp_divider s) = int i"
    unfolding sint_uint i(1) by (rule signed_take_bit_int_eq_self) (use i(2) in simp_all)
  with i(3) show "\<not> sint (xmp_divider s) < 50" by simp
qed

lemma xmp_nibble_value:
  assumes "xmp_encodes v s" "134000 \<le> unat dv" "unat dv < 135000"
  shows "xmp_nibble dv s = of_nat v"
proof -
  have s: "760000 \<le> unat s" "136000 * v \<le> unat s - 760000" "unat s - 760000 < 136000 * v + 15000" "v \<le> 15"
    using assms by (auto simp: xmp_encodes_def)
  have "unat dv * v \<le> unat s - 760000"
    using s(2) mult_le_mono1 [of "unat dv" 136000 v] assms(3) by linarith
  moreover have "unat s - 760000 < unat dv * Suc v"
    unfolding mult_Suc_right using s(3,4) mult_le_mono1 [OF assms(2), of v] assms(2) by linarith
  ultimately have "(unat s - 760000) div unat dv = v" by (intro div_nat_eqI) simp_all
  moreover have "unat (s - XMP_NIBBLE_PREFIX) = unat s - 760000"
    using s(1) by (simp add: unat_sub word_le_nat_alt ir_const)
  ultimately have "unat (xmp_nibble dv s) = v" by (simp add: xmp_nibble_def unat_div)
  then show ?thesis by (simp flip: \<open>unat (xmp_nibble dv s) = v\<close>)
qed

lemma xmp_nibbles_value:
  assumes "list_all2 xmp_encodes vs ds" "134000 \<le> unat dv" "unat dv < 135000"
  shows "map (xmp_nibble dv) ds = map of_nat vs"
  using assms(1) by (induction rule: list_all2_induct) (simp_all add: xmp_nibble_value [OF _ assms(2,3)])

lemma foldl_of_nat: "foldl (+) (of_nat a) (map of_nat vs) = (of_nat (a + sum_list vs) :: u32)"
  by (induction vs arbitrary: a) (simp_all flip: of_nat_add add: add.assoc)

lemma xmp_sum_checks:
  assumes "length vs \<le> 8" "\<forall>v \<in> set vs. v \<le> 15"
  shows "xmp_sum (map of_nat vs) = 15 \<longleftrightarrow> sum_list vs mod 16 = 0"
proof -
  have "sum_list vs \<le> length vs * 15" using assms(2) by (induction vs) auto
  with assms(1) have le: "15 + sum_list vs \<le> 135" by simp
  have "foldl (+) 15 (map of_nat vs) = (of_nat (15 + sum_list vs) :: u32)"
    using foldl_of_nat [of 15 vs] by simp
  moreover have "unat (of_nat (15 + sum_list vs) :: u32) = 15 + sum_list vs"
    unfolding unat_of_nat by (rule mod_less) (use le in simp)
  ultimately have "unat (foldl (+) 15 (map of_nat vs) mod (16::u32)) = (15 + sum_list vs) mod 16"
    by (simp only: unat_mod) simp
  then have "unat (xmp_sum (map of_nat vs)) = (15 + sum_list vs) mod 16"
    unfolding xmp_sum_def by (simp add: unsigned_ucast_eq take_bit_nat_eq_self)
  moreover have "(15 + n) mod 16 = 15 \<longleftrightarrow> n mod 16 = 0" for n :: nat by presburger
  ultimately show ?thesis by (simp add: word_unat_eq_iff)
qed

lemma push_bit_or_nat:
  fixes a b :: nat
  assumes "b < 2 ^ k"
  shows "push_bit k a OR b = 2 ^ k * a + b"
proof -
  have "\<not> bit b n" if "k \<le> n" for n
    using that assms bit_take_bit_iff [of k b n] by (simp add: take_bit_nat_eq_self)
  then have "push_bit k a AND b = 0" by - (rule bit_eqI, auto simp: bit_and_iff bit_push_bit_iff)
  then have "push_bit k a OR b = push_bit k a + b" by (rule disjunctive_add_eq_or [symmetric])
  then show ?thesis by (simp only: push_bit_eq_mult mult.commute)
qed

lemma xmp_byte:
  assumes "a \<le> 15" "b \<le> 15"
  shows "(ucast (push_bit 4 (of_nat a) OR of_nat b :: u32) :: u8) = of_nat (16 * a + b)"
proof -
  have "push_bit 4 a OR b = 16 * a + b" using push_bit_or_nat [of b 4 a] assms(2) by simp
  then have "push_bit 4 (of_nat a) OR of_nat b = (of_nat (16 * a + b) :: u32)"
    by (metis of_nat_or_eq push_bit_of_nat)
  moreover have "ucast (of_nat n :: u32) = (of_nat n :: u8)" if "n < 256" for n
    using that by (simp add: unsigned_of_nat take_bit_nat_eq_self)
  moreover have "16 * a + b < 256" using assms by simp
  ultimately show ?thesis by (simp only:)
qed

lemma xmp_bytes_or:
  assumes "y < 256" "z < 256" "w < 256"
  shows "push_bit 24 (of_nat x) OR push_bit 16 (of_nat y) OR push_bit 8 (of_nat z) OR of_nat w =
    (of_nat (2 ^ 24 * x + (2 ^ 16 * y + (2 ^ 8 * z + w))) :: u32)"
proof -
  have "push_bit 8 z OR w = 2 ^ 8 * z + w"
    "push_bit 16 y OR (2 ^ 8 * z + w) = 2 ^ 16 * y + (2 ^ 8 * z + w)"
    "push_bit 24 x OR (2 ^ 16 * y + (2 ^ 8 * z + w)) = 2 ^ 24 * x + (2 ^ 16 * y + (2 ^ 8 * z + w))"
    by (rule push_bit_or_nat; use assms in simp)+
  then show ?thesis by (simp only: push_bit_of_nat of_nat_or_eq [symmetric] or.assoc)
qed

lemma ucast_byte: "n < 256 \<Longrightarrow> ucast (of_nat n :: u8) = (of_nat n :: u32)"
  by (simp add: unsigned_of_nat take_bit_nat_eq_self)

text \<open>A message as sixteen nibbles, and what the receiver should make of it.\<close>

definition xmp_valid :: "nat list \<Rightarrow> bool" where
  "xmp_valid vs \<longleftrightarrow> length vs = 16 \<and> vs ! 3 = 15 \<and> sum_list (take 8 vs) mod 16 = 0 \<and> sum_list (drop 8 vs) mod 16 = 0 \<and>
     vs ! 0 = vs ! 8 \<and> vs ! 2 = vs ! 11"

definition xmp_scancode :: "nat list \<Rightarrow> u32" where
  "xmp_scancode vs = of_nat (2 ^ 24 * (16 * vs ! 6 + vs ! 7) + (2 ^ 16 * (16 * vs ! 0 + vs ! 2) +
     (2 ^ 8 * (16 * vs ! 12 + vs ! 13) + (16 * vs ! 14 + vs ! 15))))"

definition xmp_action :: "nat list \<Rightarrow> rc_action" where
  "xmp_action vs = (if vs ! 10 = 0 then Rc_keydown RC_PROTO_XMP (xmp_scancode vs) 0 else Rc_repeat)"

lemma xmp_trailer_value:
  assumes "xmp_valid vs" "list_all2 xmp_encodes vs ds" "xmp_count d = 16" "xmp_durations d = ds"
  shows "\<exists>d'. xmp_trailer d = (d', [xmp_action vs], Inr ()) \<and> xmp_ready d'"
proof -
  have len: "length vs = 16" "length ds = 16" using assms(1,2) by (auto simp: xmp_valid_def list_all2_lengthD)
  have le: "\<forall>v \<in> set vs. v \<le> 15" using assms(2) by (auto simp: list_all2_conv_all_nth in_set_conv_nth xmp_encodes_def)
  have b: "i < 16 \<Longrightarrow> vs ! i \<le> 15" for i using le len by simp
  define dv where "dv = xmp_divider (ds ! 3)"
  have "xmp_encodes 15 (ds ! 3)" using assms(1,2) list_all2_nthD [OF assms(2), of 3] by (simp add: xmp_valid_def)
  from xmp_divider_range(2-4) [OF this] have dv: "134000 \<le> unat dv" "unat dv < 135000" "\<not> sint dv < 50"
    by (simp_all add: dv_def)
  note n = xmp_nibbles_value [OF assms(2) dv(1,2)]
  have n': "map of_nat vs ! i = (of_nat (vs ! i) :: u32)" if "i < 16" for i using len that by simp
  have sums: "xmp_sum (take 8 (map of_nat vs)) = 15" "xmp_sum (take 8 (drop 8 (map of_nat vs))) = 15"
    using assms(1) le xmp_sum_checks [of "take 8 vs"] xmp_sum_checks [of "drop 8 vs"] len
    by (auto simp: take_map drop_map xmp_valid_def dest: in_set_takeD in_set_dropD)
  have lt: "16 * vs ! i + vs ! j < 256" if "i < 16" "j < 16" for i j using b [OF that(1)] b [OF that(2)] by simp
  have tog: "(ucast (of_nat (vs ! 10) :: u32) :: u8) = 0 \<longleftrightarrow> vs ! 10 = 0"
    using b [of 10] by (simp add: unsigned_of_nat take_bit_nat_eq_self word_unat_eq_iff unat_of_nat)
  have sub: "vs ! 8 = vs ! 0" "vs ! 11 = vs ! 2" using assms(1) by (simp_all add: xmp_valid_def)
  show ?thesis
    unfolding xmp_trailer_def Let_def assms(4) dv_def [symmetric] n
    using assms(3) dv(3)
    by (simp add: sums n' b xmp_byte sub tog ucast_byte lt xmp_bytes_or xmp_action_def xmp_scancode_def xmp_ready_def
        del: of_nat_add of_nat_mult)
qed

section \<open>Properties\<close>

lemma xmp_frame_run:
  assumes "xmp_inv d" "xmp_ready d" "xmp_valid vs" "list_all2 xmp_encodes vs ds"
  shows "\<exists>d'. decode_run ir_xmp_decode d (xmp_frame ds) = (d', [xmp_action vs]) \<and> xmp_ready d'"
proof -
  have len: "length vs = 16" "length ds = 16" using assms(3,4) by (auto simp: xmp_valid_def list_all2_lengthD)
  have enc: "list_all2 xmp_encodes (take 8 vs) (take 8 ds)" "list_all2 xmp_encodes (drop 8 vs) (drop 8 ds)"
    using assms(4) by auto
  have "xmp_waiting 0 (xmp_durations d) d" using assms(1,2) by (simp add: xmp_waiting_def xmp_inv_def xmp_ready_def)
  from xmp_symbols_run [OF this _ enc(1)] len obtain d1 us
    where d1: "decode_run ir_xmp_decode d (concat (map xmp_sym (take 8 ds))) = (d1, [])"
      "xmp_waiting 8 (take 8 ds @ us) d1" by fastforce
  from xmp_halfframe_run [OF d1(2)] obtain d2
    where d2: "decode_run ir_xmp_decode d1 (xmp_sym XMP_HALFFRAME_SPACE) = (d2, [])" "xmp_waiting 8 (take 8 ds @ us) d2"
    by blast
  then have "length us = 8" using len by (simp add: xmp_waiting_def)
  with xmp_symbols_run [OF d2(2) _ enc(2)] len obtain d3
    where d3: "decode_run ir_xmp_decode d2 (concat (map xmp_sym (drop 8 ds))) = (d3, [])" "xmp_waiting 16 ds d3"
    by fastforce
  then have "xmp_durations d3 = ds" "xmp_count d3 = 16" by (auto simp: xmp_waiting_def word_unat_eq_iff)
  with xmp_trailer_value [OF assms(3,4), of "d3\<lparr>xmp_st := XMP_STATE_NIBBLE_SPACE\<rparr>"] xmp_trailer_run [OF d3(2)]
  obtain d4 where "decode_run ir_xmp_decode d3 (xmp_sym XMP_TRAILER_SPACE) = (d4, [xmp_action vs])" "xmp_ready d4"
    by auto
  with decode_run_trans [OF d1(1) decode_run_trans [OF d2(1) decode_run_trans [OF d3(1)]]] show ?thesis
    by (simp add: xmp_frame_def)
qed

definition xmp_train :: "nat list \<Rightarrow> ir_raw_event list \<Rightarrow> bool" where
  "xmp_train vs es \<longleftrightarrow> xmp_valid vs \<and> (\<exists>ds. list_all2 xmp_encodes vs ds \<and> es = xmp_frame ds)"

interpretation xmp_channel: ir_channel ir_xmp_decode "\<lambda>d. xmp_inv d \<and> xmp_ready d" xmp_train "\<lambda>vs. [xmp_action vs]"
proof
  show "\<exists>d'. decode_run ir_xmp_decode d es = (d', [xmp_action vs]) \<and> xmp_inv d' \<and> xmp_ready d'"
    if "xmp_inv d \<and> xmp_ready d" "xmp_train vs es" for d vs es
    using that xmp_frame_run xmp.run_inv unfolding xmp_train_def by metis
qed

text \<open>
  C28: A sequence of XMP frames (each eight nibbles, the half frame gap, eight nibbles, the trailer) whose sixteen
  spaces stand for valid messages, each up to 15 microseconds too long, is decoded from any idle
  state as exactly one call per frame: a key press with the scancode of its address, subaddress and command
  nibbles, or a repeat when its toggle nibble is not 0.
\<close>

theorem xmp_stream_decodes:
  assumes "xmp_inv d" "xmp_ready d" "list_all2 xmp_train msgs ess"
  shows "\<exists>d'. decode_run ir_xmp_decode d (concat ess) = (d', map xmp_action msgs) \<and> xmp_ready d'"
  using xmp_channel.stream_run [OF assms(3), of d] assms(1,2) by auto

theorem xmp_stream_decodes_witness:
  "\<exists>d'. decode_run ir_xmp_decode
      \<lparr>xmp_st = XMP_STATE_INACTIVE, xmp_count = 5, xmp_durations = replicate 16 7\<rparr>
      (concat [xmp_frame (map (\<lambda>v. 765000 + 136000 * v) [1, 6, 2, 15, 4, 4, 0, 0, 1, 6, 0, 2, 3, 4, 0, 0]),
         xmp_frame (map (\<lambda>v. 765000 + 136000 * v) [1, 6, 2, 15, 4, 4, 0, 0, 1, 14, 8, 2, 3, 4, 0, 0])]) =
      (d', [Rc_keydown RC_PROTO_XMP 0x00123400 0, Rc_repeat])"
proof -
  let ?d = "\<lparr>xmp_st = XMP_STATE_INACTIVE, xmp_count = 5, xmp_durations = replicate 16 7\<rparr>"
  let ?vs = "[1, 6, 2, 15, 4, 4, 0, 0, 1, 6, 0, 2, 3, 4, 0, 0] :: nat list"
  let ?ws = "[1, 6, 2, 15, 4, 4, 0, 0, 1, 14, 8, 2, 3, 4, 0, 0] :: nat list"
  let ?ds = "map (\<lambda>v. 765000 + 136000 * v) [1, 6, 2, 15, 4, 4, 0, 0, 1, 6, 0, 2, 3, 4, 0, 0] :: u32 list"
  let ?es = "map (\<lambda>v. 765000 + 136000 * v) [1, 6, 2, 15, 4, 4, 0, 0, 1, 14, 8, 2, 3, 4, 0, 0] :: u32 list"
  have d: "xmp_inv ?d" "xmp_ready ?d" by (simp_all add: xmp_inv_def xmp_ready_def)
  have "xmp_valid ?vs" "xmp_valid ?ws" by (simp_all add: xmp_valid_def)
  moreover have "list_all2 xmp_encodes ?vs ?ds" "list_all2 xmp_encodes ?ws ?es" by (simp_all add: xmp_encodes_def)
  ultimately have t: "list_all2 xmp_train [?vs, ?ws] [xmp_frame ?ds, xmp_frame ?es]"
    unfolding list_all2_Cons list_all2_Nil xmp_train_def by blast
  have a: "map xmp_action [?vs, ?ws] = [Rc_keydown RC_PROTO_XMP 0x00123400 0, Rc_repeat]"
    by (simp add: xmp_action_def xmp_scancode_def)
  show ?thesis using xmp_stream_decodes [OF d t] unfolding a by blast
qed

text \<open>
  C29: The array of durations is never overrun: from any state in which it has its sixteen entries and
  the count is at most 16, every event of every train, however malformed, either succeeds or is refused with
  \<^verbatim>\<open>EINVAL\<close>, and the count stays within the array.
\<close>

theorem xmp_never_overruns:
  assumes "xmp_inv d" "decode_run ir_xmp_decode d evs = (d', as)" "ir_xmp_decode d' ev = (d'', as', r)"
  shows "r \<in> {Inr (), Inl EINVAL} \<and> xmp_inv d''"
proof -
  have "xmp_inv d'" using xmp.run_inv [OF assms(1,2)] .
  with assms(3) xmp.reject [of d' ev] xmp.inv_step show ?thesis by (cases r) auto
qed

theorem xmp_never_overruns_witness:
  "snd (snd (ir_xmp_decode
      \<lparr>xmp_st = XMP_STATE_NIBBLE_SPACE, xmp_count = 16, xmp_durations = replicate 16 7\<rparr>
      (init_ir_raw_event_duration False 800000))) \<in> {Inr (), Inl EINVAL}"
proof -
  let ?d = "\<lparr>xmp_st = XMP_STATE_NIBBLE_SPACE, xmp_count = 16, xmp_durations = replicate 16 7\<rparr>"
  have "xmp_inv ?d" by (simp add: xmp_inv_def)
  then show ?thesis
    by (metis (no_types, lifting) decode_run.simps(1) prod.collapse xmp_never_overruns)
qed

text \<open>
  A space that is a little shorter than the nibble prefix is accepted as a nibble by the state
  machine, which allows a whole unit of tolerance, but the subtraction of the prefix then wraps around and
  the value stored for it is no nibble: it exceeds 15 for every divider that a nibble 15 gives.
\<close>

theorem xmp_short_nibble_wraps:
  assumes "geq_margin s XMP_NIBBLE_PREFIX XMP_UNIT" "s < XMP_NIBBLE_PREFIX" "xmp_encodes 15 t"
  shows "15 < unat (xmp_nibble (xmp_divider t) s)"
proof -
  have s: "624000 < unat s" "unat s < 760000" using assms(1,2) by (simp_all add: margin_nat ir_const word_less_nat_alt)
  have "unat (s - XMP_NIBBLE_PREFIX) = 2 ^ 32 + unat s - 760000"
    using s(2) by (simp add: unat_sub_if_size word_size ir_const)
  moreover note xmp_divider_range(2,3) [OF assms(3)]
  ultimately have "15 < unat (s - XMP_NIBBLE_PREFIX) div unat (xmp_divider t)"
    using s(1) by (simp add: less_eq_div_iff_mult_less_eq Suc_le_eq [symmetric])
  then show ?thesis by (simp add: xmp_nibble_def unat_div)
qed

theorem xmp_short_nibble_wraps_witness: "15 < unat (xmp_nibble (xmp_divider 2801000) 740000)"
  by (rule xmp_short_nibble_wraps) (simp_all add: margin_nat ir_const xmp_encodes_def)

end
