(* ===== verification/Ir_Imon.thy ===== *)
theory Ir_Imon
  imports Rc_Proto
begin

text \<open>
  The iMON handler, \<^verbatim>\<open>rc/ir-imon-decoder.c\<close>. The decoder samples every event in units of 415.662
  microseconds and feeds the samples to a small machine; the encoder writes the samples of a
  message, joining equal neighbours. The round trip goes through the list of samples.
\<close>

section \<open>Constants and state\<close>

definition IMON_UNIT :: u32 where [ir_const]: "IMON_UNIT = 415662"
definition IMON_BITS :: nat where "IMON_BITS = 30"

definition IMON_CHKBITS :: u32 where
  "IMON_CHKBITS = foldr (\<lambda>i w. push_bit i 1 OR w) [30, 25, 24, 22, 21, 20, 19, 18, 17, 16, 14, 13, 12, 11, 10, 9] 0"

datatype imon_state = IMON_STATE_INACTIVE | IMON_STATE_BIT_CHK | IMON_STATE_BIT_START
  | IMON_STATE_FINISHED | IMON_STATE_ERROR

record imon_dec =
  imon_st :: imon_state
  imon_count :: int
  imon_last_chk :: bool
  imon_bits :: u32
  stick_keyboard :: bool

section \<open>Operations\<close>

text \<open>A movement of the stick: four magnitude bits in reverse order, sign extended.\<close>

definition imon_rel :: "u8 \<Rightarrow> bool \<Rightarrow> int" where
  "imon_rel buf neg =
     (let r = uint ((buf AND 0x08) OR drop_bit 2 (buf AND 0x10) OR drop_bit 4 (buf AND 0x20) OR
                drop_bit 6 (buf AND 0x40)) in
      if neg then r OR (NOT 0x0f) else r)"

definition ir_imon_decode_scancode :: "imon_dec \<Rightarrow> imon_dec \<times> rc_action list" where
  "ir_imon_decode_scancode imon =
     (let imon = (if imon_bits imon = 0x299115b7 then imon\<lparr>stick_keyboard := \<not> stick_keyboard imon\<rparr> else imon) in
      if imon_bits imon AND 0xfc0000ff = 0x680000b7 then
        let rel_x = imon_rel (ucast (drop_bit 16 (imon_bits imon))) (imon_bits imon AND 0x02000000 \<noteq> 0);
            rel_y = imon_rel (ucast (drop_bit 8 (imon_bits imon))) (imon_bits imon AND 0x01000000 \<noteq> 0);
            imon =
              (if rel_x \<noteq> 0 \<and> rel_y \<noteq> 0 \<and> stick_keyboard imon then
                 if abs rel_y > abs rel_x then
                   imon\<lparr>imon_bits := if rel_y > 0 then 0x289515b7 else 0x2aa515b7\<rparr>
                 else imon\<lparr>imon_bits := if rel_x > 0 then 0x2ba515b7 else 0x29a515b7\<rparr>
               else imon) in
        (imon,
         (if \<not> stick_keyboard imon then
            [Report_rel_x rel_x, Report_rel_y rel_y, Report_key ''BTN_LEFT'' (imon_bits imon AND 0x00010000 \<noteq> 0),
             Report_key ''BTN_RIGHT'' (imon_bits imon AND 0x00040000 \<noteq> 0)]
          else []) @ [Rc_keydown RC_PROTO_IMON (imon_bits imon) 0])
      else (imon, [Rc_keydown RC_PROTO_IMON (imon_bits imon) 0]))"

text \<open>The \<^verbatim>\<open>switch\<close> of the loop, for one sample.\<close>

definition imon_switch :: "imon_dec \<Rightarrow> bool \<Rightarrow> imon_dec decoded" where
  "imon_switch d p =
     (case imon_st d of
        IMON_STATE_INACTIVE \<Rightarrow>
          ((if p then d\<lparr>imon_st := IMON_STATE_BIT_CHK, imon_bits := 0, imon_count := int IMON_BITS\<rparr> else d), [], Inr ())
      | IMON_STATE_BIT_CHK \<Rightarrow>
          if bit IMON_CHKBITS (nat (imon_count d)) then
            (d\<lparr>imon_last_chk := p, imon_st := IMON_STATE_BIT_START\<rparr>, [], Inr ())
          else if p then (d\<lparr>imon_st := IMON_STATE_ERROR\<rparr>, [], Inl EINVAL)
          else (d\<lparr>imon_st := IMON_STATE_BIT_START\<rparr>, [], Inr ())
      | IMON_STATE_BIT_START \<Rightarrow>
          let d = d\<lparr>imon_bits := push_bit 1 (imon_bits d)\<rparr>;
              d = (if \<not> p then d\<lparr>imon_bits := imon_bits d OR 1\<rparr> else d) in
          if bit IMON_CHKBITS (nat (imon_count d)) \<and> imon_last_chk d \<noteq> (imon_bits d AND 3 = 0) then
            (d\<lparr>imon_st := IMON_STATE_ERROR\<rparr>, [], Inl EINVAL)
          else
            (d\<lparr>imon_count := imon_count d - 1,
               imon_st := if imon_count d = 0 then IMON_STATE_FINISHED else IMON_STATE_BIT_CHK\<rparr>, [], Inr ())
      | IMON_STATE_FINISHED \<Rightarrow>
          if p then (d\<lparr>imon_st := IMON_STATE_ERROR\<rparr>, [], Inl EINVAL)
          else (case ir_imon_decode_scancode d of (d, as) \<Rightarrow> (d\<lparr>imon_st := IMON_STATE_INACTIVE\<rparr>, as, Inr ()))
      | IMON_STATE_ERROR \<Rightarrow> (d, [], Inr ()))"

function imon_loop :: "imon_dec decoder" where
  "imon_loop d ev =
     (if \<not> geq_margin (duration ev) IMON_UNIT (IMON_UNIT div 2) then (d, [], Inr ())
      else
        case imon_switch d (pulse ev) of
          (d, as, Inl e) \<Rightarrow> (d, as, Inl e)
        | (d, as, Inr _) \<Rightarrow>
            (case imon_loop d (decrease_duration ev IMON_UNIT) of (d', as', r) \<Rightarrow> (d', as @ as', r)))"
  by pat_completeness auto

termination
  by (relation "measure (\<lambda>(_, ev). unat (duration ev))") (auto simp: margin_nat ir_const)

declare imon_loop.simps [simp del]

definition ir_imon_decode :: "imon_dec decoder" where
  "ir_imon_decode d ev =
     (if \<not> is_timing_event ev then
        ((if ev_reset ev then d\<lparr>imon_st := IMON_STATE_INACTIVE\<rparr> else d), [], Inr ())
      else if imon_st d = IMON_STATE_ERROR then
        ((if \<not> pulse ev \<and> duration ev > 10 * 1000000 then d\<lparr>imon_st := IMON_STATE_INACTIVE\<rparr> else d), [], Inr ())
      else imon_loop d ev)"

fun imon_encode_loop :: "u32 \<Rightarrow> nat \<Rightarrow> gen_state \<Rightarrow> gen_result" where
  "imon_encode_loop scancode 0 s = (s, None)"
| "imon_encode_loop scancode (Suc i) s =
     gen_then
       (put_level s
          (if push_bit i 1 AND IMON_CHKBITS \<noteq> 0 then scancode AND (push_bit i 1 OR push_bit (i + 1) 1) = 0 else False)
          IMON_UNIT) (\<lambda>s.
     gen_then (put_level s (scancode AND push_bit i 1 = 0) IMON_UNIT)
       (imon_encode_loop scancode i))"

definition ir_imon_encode :: "rc_proto \<Rightarrow> u32 \<Rightarrow> nat \<Rightarrow> ir_raw_event list \<times> nat result" where
  "ir_imon_encode protocol scancode room =
     (case gen_then (put_event ([], room) True IMON_UNIT) (imon_encode_loop scancode (IMON_BITS + 1)) of
        ((evs, _), None) \<Rightarrow> (evs, Inr (if pulse (last evs) then length evs else length evs - 1))
      | ((evs, _), Some e) \<Rightarrow> (evs, Inl e))"

definition ir_imon_register :: "imon_dec \<Rightarrow> imon_dec" where
  "ir_imon_register imon = imon\<lparr>stick_keyboard := False\<rparr>"

section \<open>Samples\<close>

definition imon_units :: "ir_raw_event \<Rightarrow> nat" where
  "imon_units ev = (unat (duration ev) + 207830) div 415662"

definition imon_samples :: "ir_raw_event list \<Rightarrow> bool list" where
  "imon_samples es = concat (map (\<lambda>e. replicate (imon_units e) (pulse e)) es)"

fun imon_feed :: "imon_dec \<Rightarrow> bool list \<Rightarrow> imon_dec decoded" where
  "imon_feed d [] = (d, [], Inr ())"
| "imon_feed d (u # us) =
     (case imon_switch d u of
        (d, as, Inl e) \<Rightarrow> (d, as, Inl e)
      | (d, as, Inr _) \<Rightarrow> (case imon_feed d us of (d', as', r) \<Rightarrow> (d', as @ as', r)))"

lemma imon_units_decrease:
  "imon_units ev =
     (if geq_margin (duration ev) IMON_UNIT (IMON_UNIT div 2) then Suc (imon_units (decrease_duration ev IMON_UNIT)) else 0)"
proof (cases "207831 < unat (duration ev)")
  case True
  then have "imon_units ev = Suc ((unat (duration ev) + 207830 - 415662) div 415662)"
    unfolding imon_units_def by (intro le_div_geq) simp_all
  also have "(unat (duration ev) + 207830 - 415662) div 415662 = imon_units (decrease_duration ev IMON_UNIT)"
    using True by (cases "415662 \<le> unat (duration ev)") (simp_all add: imon_units_def ir_const)
  finally show ?thesis using True by (simp add: margin_nat ir_const)
qed (simp add: imon_units_def margin_nat ir_const)

lemma imon_loop_feed: "imon_loop d ev = imon_feed d (replicate (imon_units ev) (pulse ev))"
proof (induction d ev rule: imon_loop.induct)
  case (1 d ev)
  show ?case
    by (subst imon_loop.simps, subst imon_units_decrease)
       (auto simp: 1 split: prod.splits sum.splits)
qed

lemma imon_feed_append:
  "imon_feed d us = (d', as, Inr ()) \<Longrightarrow> imon_feed d' vs = (d'', as', r) \<Longrightarrow> imon_feed d (us @ vs) = (d'', as @ as', r)"
  by (induction us arbitrary: d as) (auto split: prod.splits sum.splits)

lemma imon_switch_ok:
  "imon_switch d p = (d', as, Inr ()) \<Longrightarrow> imon_st d \<noteq> IMON_STATE_ERROR \<Longrightarrow> imon_st d' \<noteq> IMON_STATE_ERROR"
  by (auto simp: imon_switch_def Let_def split: imon_state.splits if_splits prod.splits)

lemma imon_feed_ok:
  "imon_feed d us = (d', as, Inr ()) \<Longrightarrow> imon_st d \<noteq> IMON_STATE_ERROR \<Longrightarrow> imon_st d' \<noteq> IMON_STATE_ERROR"
  by (induction us arbitrary: d as) (auto split: prod.splits sum.splits dest: imon_switch_ok)

text \<open>Decoding a train of events is feeding its samples, as long as no sample is refused.\<close>

lemma imon_feed_append_ok:
  "imon_feed d (us @ vs) = (d'', as, Inr ()) \<Longrightarrow>
   \<exists>d' as1 as2. imon_feed d us = (d', as1, Inr ()) \<and> imon_feed d' vs = (d'', as2, Inr ()) \<and> as = as1 @ as2"
proof (induction us arbitrary: d as)
  case (Cons u us)
  then obtain d1 as0 as' where 1: "imon_switch d u = (d1, as0, Inr ())"
    and 2: "imon_feed d1 (us @ vs) = (d'', as', Inr ())" "as = as0 @ as'"
    by (auto split: prod.splits sum.splits)
  from Cons.IH [OF 2(1)] 1 2(2) show ?case by fastforce
qed simp

lemma imon_run_feed:
  assumes "imon_feed d (imon_samples es) = (d', as, Inr ())" "imon_st d \<noteq> IMON_STATE_ERROR" "\<forall>e \<in> set es. is_timing_event e"
  shows "decode_run ir_imon_decode d es = (d', as)"
  using assms
proof (induction es arbitrary: d as)
  case (Cons e es)
  from Cons.prems(1) obtain d1 as1 as2
    where 1: "imon_feed d (replicate (imon_units e) (pulse e)) = (d1, as1, Inr ())"
      and 2: "imon_feed d1 (imon_samples es) = (d', as2, Inr ())" "as = as1 @ as2"
    by (auto simp: imon_samples_def dest: imon_feed_append_ok)
  with Cons.IH [OF 2(1)] imon_feed_ok [OF 1] Cons.prems(2,3) show ?case
    by (simp add: ir_imon_decode_def imon_loop_feed)
qed (simp add: imon_samples_def)

section \<open>The count stays in range\<close>

definition imon_ready :: "imon_dec \<Rightarrow> bool" where
  "imon_ready d \<longleftrightarrow> imon_st d = IMON_STATE_INACTIVE"

definition imon_inv :: "imon_dec \<Rightarrow> bool" where
  "imon_inv d \<longleftrightarrow> (imon_st d \<in> {IMON_STATE_BIT_CHK, IMON_STATE_BIT_START} \<longrightarrow> 0 \<le> imon_count d \<and> imon_count d \<le> 30)"

lemma imon_switch_inv: "imon_inv d \<Longrightarrow> imon_switch d p = (d', as, r) \<Longrightarrow> imon_inv d'"
  by (auto simp: imon_switch_def imon_inv_def IMON_BITS_def Let_def split: imon_state.splits if_splits prod.splits)

lemma imon_feed_inv: "imon_inv d \<Longrightarrow> imon_feed d us = (d', as, r) \<Longrightarrow> imon_inv d'"
  by (induction us arbitrary: d as) (auto split: prod.splits sum.splits dest: imon_switch_inv)

interpretation imon: ir_decoder ir_imon_decode imon_ready imon_inv
proof
  show "imon_inv d'" if "imon_inv d" "ir_imon_decode d ev = (d', as, r)" for d ev d' as r
    using that imon_feed_inv [OF that(1)]
    by (auto simp: ir_imon_decode_def imon_loop_feed imon_inv_def split: if_splits)
  show "\<exists>d'. ir_imon_decode d ev = (d', [], Inr ()) \<and> imon_ready d'" if "ev_reset ev" for ev d
    using that by (simp add: ir_imon_decode_def is_timing_event_def imon_ready_def)
qed

section \<open>The samples of a message\<close>

definition imon_chk :: "u32 \<Rightarrow> nat \<Rightarrow> bool" where
  "imon_chk sc i \<longleftrightarrow> bit IMON_CHKBITS i \<and> \<not> bit sc i \<and> \<not> bit sc (Suc i)"

fun imon_symbols :: "u32 \<Rightarrow> nat \<Rightarrow> bool list" where
  "imon_symbols sc 0 = []"
| "imon_symbols sc (Suc i) = [imon_chk sc i, \<not> bit sc i] @ imon_symbols sc i"

abbreviation imon_message :: "u32 \<Rightarrow> bool list" where
  "imon_message sc \<equiv> True # imon_symbols sc 31"

lemma imon_and_3: "(w AND 3 = (0 :: u32)) \<longleftrightarrow> \<not> bit w 0 \<and> \<not> bit w 1"
proof -
  have "w AND 3 = (if bit w 0 then 1 else 0) OR (if bit w 1 then 2 else 0)"
    by (rule u32_eqI, unfold upt_32) (auto simp: bit_simps)
  then show ?thesis by auto
qed

lemma imon_feed_symbol:
  assumes "imon_st d = IMON_STATE_BIT_CHK" "imon_count d = int i" "i \<le> 30" "imon_bits d = drop_bit (Suc i) sc"
  shows "\<exists>d'. imon_feed d [imon_chk sc i, \<not> bit sc i] = (d', [], Inr ()) \<and> imon_bits d' = drop_bit i sc \<and>
    imon_count d' = int i - 1 \<and> imon_st d' = (if i = 0 then IMON_STATE_FINISHED else IMON_STATE_BIT_CHK) \<and>
    stick_keyboard d' = stick_keyboard d"
proof -
  have b: "push_bit 1 (drop_bit (Suc i) sc) OR (if bit sc i then 1 else 0) = drop_bit i sc"
  proof (rule bit_word_eqI)
    fix n assume "n < LENGTH(32)"
    then show "bit (push_bit 1 (drop_bit (Suc i) sc) OR (if bit sc i then 1 else 0)) n = bit (drop_bit i sc) n"
      unfolding bit_or_iff bit_push_bit_iff bit_drop_bit_eq comp_def by (cases n) auto
  qed
  have c: "(drop_bit i sc AND 3 = 0) \<longleftrightarrow> \<not> bit sc i \<and> \<not> bit sc (Suc i)"
    by (simp add: imon_and_3 bit_drop_bit_eq)
  show ?thesis
    using assms b c by (cases "bit sc i") (auto simp: imon_switch_def imon_chk_def Let_def)
qed

lemma imon_feed_symbols:
  assumes "imon_st d = IMON_STATE_BIT_CHK" "imon_count d = int i" "i \<le> 30" "imon_bits d = drop_bit (Suc i) sc"
  shows "\<exists>d'. imon_feed d (imon_symbols sc (Suc i)) = (d', [], Inr ()) \<and> imon_bits d' = sc \<and>
    imon_st d' = IMON_STATE_FINISHED \<and> stick_keyboard d' = stick_keyboard d"
  using assms
proof (induction i arbitrary: d)
  case 0
  from imon_feed_symbol [OF this] show ?case by auto
next
  case (Suc i)
  from imon_feed_symbol [OF Suc.prems] obtain d1
    where d1: "imon_feed d [imon_chk sc (Suc i), \<not> bit sc (Suc i)] = (d1, [], Inr ())" "imon_bits d1 = drop_bit (Suc i) sc"
      "imon_count d1 = int i" "imon_st d1 = IMON_STATE_BIT_CHK" "stick_keyboard d1 = stick_keyboard d" by auto
  from Suc.IH [OF d1(4,3) _ d1(2)] Suc.prems(3) obtain d2
    where "imon_feed d1 (imon_symbols sc (Suc i)) = (d2, [], Inr ())" "imon_bits d2 = sc"
      "imon_st d2 = IMON_STATE_FINISHED" "stick_keyboard d2 = stick_keyboard d" using d1(5) by auto
  with imon_feed_append [OF d1(1)] show ?case unfolding imon_symbols.simps(2) [of sc "Suc i"] by fastforce
qed

lemma imon_feed_idle: "imon_ready d \<Longrightarrow> imon_feed d (replicate k False) = (d, [], Inr ())"
  by (induction k) (simp_all add: imon_switch_def imon_ready_def)

lemma imon_feed_message:
  assumes "imon_ready d" "canonical_scancode RC_PROTO_IMON sc"
  shows "\<exists>d' as. imon_feed d (imon_message sc @ replicate (Suc k) False) = (d', as, Inr ()) \<and> imon_ready d' \<and>
    (\<exists>d1. imon_bits d1 = sc \<and> stick_keyboard d1 = stick_keyboard d \<and> snd (ir_imon_decode_scancode d1) = as \<and>
      stick_keyboard d' = stick_keyboard (fst (ir_imon_decode_scancode d1)))"
proof -
  let ?d = "d\<lparr>imon_st := IMON_STATE_BIT_CHK, imon_bits := 0, imon_count := 30\<rparr>"
  have "drop_bit 31 sc = 0" by (rule u32_eqI, unfold upt_32) (auto simp: bit_simps dest: canonical_bit [OF assms(2)])
  then have "imon_bits ?d = drop_bit (Suc 30) sc" by simp
  from imon_feed_symbols [OF _ _ _ this] obtain d1
    where d1: "imon_feed ?d (imon_symbols sc 31) = (d1, [], Inr ())" "imon_bits d1 = sc"
      "imon_st d1 = IMON_STATE_FINISHED" "stick_keyboard d1 = stick_keyboard d" by auto
  have h: "imon_feed d (imon_message sc) = (d1, [], Inr ())"
    using d1(1) assms(1) by (simp add: imon_switch_def imon_ready_def IMON_BITS_def)
  obtain d2 as where a: "ir_imon_decode_scancode d1 = (d2, as)" by (cases "ir_imon_decode_scancode d1")
  let ?d2 = "d2\<lparr>imon_st := IMON_STATE_INACTIVE\<rparr>"
  have "imon_feed d1 (replicate (Suc k) False) = (?d2, as, Inr ())"
    using imon_feed_idle [of ?d2 k] d1(3) a by (simp add: imon_switch_def imon_ready_def)
  from imon_feed_append [OF h this] a d1(2,4) show ?thesis
    by (intro exI [of _ ?d2] exI [of _ as] conjI exI [of _ d1]) (simp_all add: imon_ready_def)
qed

section \<open>What the encoder writes\<close>

text \<open>Events whose durations are whole numbers of units.\<close>

definition imon_spells :: "ir_raw_event list \<Rightarrow> bool list \<Rightarrow> bool" where
  "imon_spells es us \<longleftrightarrow> es \<noteq> [] \<and> imon_samples es = us \<and>
     (\<forall>e \<in> set es. is_timing_event e \<and> 0 < imon_units e \<and> unat (duration e) = imon_units e * 415662)"

lemma imon_samples_append [simp]: "imon_samples (es @ fs) = imon_samples es @ imon_samples fs"
  by (simp add: imon_samples_def)

lemma imon_units_near:
  assumes "k * 415662 < unat (duration e) + 207831" "unat (duration e) < k * 415662 + 207831"
  shows "imon_units e = k"
proof -
  have "415662 * k \<le> unat (duration e) + 207830" "unat (duration e) + 207830 < 415662 * Suc k"
    unfolding mult_Suc_right using assms by linarith+
  then show ?thesis unfolding imon_units_def by (rule div_nat_eqI)
qed

lemma imon_units_whole: "unat (duration e) = k * 415662 \<Longrightarrow> imon_units e = k"
  by (rule imon_units_near) linarith+

lemma put_level_spells:
  assumes "imon_spells es us" "length us < 100" "put_level (es, room) p IMON_UNIT = ((es', room'), None)"
  shows "imon_spells es' (us @ [p])"
proof -
  from assms(1) have ne: "es \<noteq> []" by (simp add: imon_spells_def)
  define xs x where "xs = butlast es" "x = last es"
  then have es: "es = xs @ [x]" using ne by simp
  have x: "unat (duration x) = imon_units x * 415662" "is_timing_event x" "imon_units x < 100"
    using assms(1,2) by (auto simp: imon_spells_def es imon_samples_def)
  show ?thesis
  proof (cases "p = pulse x")
    case True
    let ?x = "x\<lparr>duration := duration x + IMON_UNIT\<rparr>"
    have "unat (duration ?x) = unat (duration x) + 415662"
      using x(1,3) by (simp add: unat_word_ariths ir_const)
    then have u: "unat (duration ?x) = Suc (imon_units x) * 415662" unfolding x(1) mult_Suc by linarith
    from u have "imon_units ?x = Suc (imon_units x)" by (rule imon_units_whole)
    with u have "imon_units ?x = Suc (imon_units x)" "unat (duration ?x) = imon_units ?x * 415662" by metis+
    then have "imon_spells (xs @ [?x]) (us @ [p])"
      using assms(1) x(2) True by (auto simp: imon_spells_def es imon_samples_def is_timing_event_def replicate_append_same)
    with assms(3) True show ?thesis by (simp add: put_level_def es lengthen_last_def)
  next
    case False
    then have "es' = es @ [init_ir_raw_event_duration p IMON_UNIT]"
      using assms(3) by (auto simp: put_level_def es put_event_def split: if_splits)
    with assms(1) show ?thesis by (auto simp: imon_spells_def imon_samples_def imon_units_def ir_const)
  qed
qed

lemma imon_and_bit: "(push_bit i 1 AND w \<noteq> 0) = bit (w :: u32) i" if "i < 32"
  using and_push_bit [of i w] that by (simp add: and.commute)

lemma imon_and_bits: "(w AND (push_bit i 1 OR push_bit (i + 1) 1) = 0) = (\<not> bit (w :: u32) i \<and> \<not> bit w (Suc i))" if "i < 31"
proof -
  have "w AND (push_bit i 1 OR push_bit (i + 1) 1) = 0 \<longleftrightarrow> w AND push_bit i 1 = 0 \<and> w AND push_bit (i + 1) 1 = 0"
    by (simp only: bit.conj_disj_distrib or_eq_0_iff)
  then show ?thesis using that and_push_bit [of i w] and_push_bit [of "i + 1" w] by simp
qed

lemma imon_encode_loop_spells:
  assumes "imon_encode_loop sc i (es, room) = ((es', room'), None)" "imon_spells es us" "i \<le> 31" "length us + 2 * i < 100"
  shows "imon_spells es' (us @ imon_symbols sc i)"
  using assms
proof (induction i arbitrary: es room us)
  case (Suc i)
  let ?chk = "if push_bit i 1 AND IMON_CHKBITS \<noteq> 0 then sc AND (push_bit i 1 OR push_bit (i + 1) 1) = 0 else False"
  have lt: "i < 31" "i < 32" "i < LENGTH(32)" using Suc.prems(3) by simp_all
  have lv: "?chk = imon_chk sc i" "(sc AND push_bit i 1 = 0) = (\<not> bit sc i)"
    unfolding imon_and_bit [OF lt(2)] imon_and_bits [OF lt(1)] and_push_bit [OF lt(3)] by (simp_all add: imon_chk_def)
  from Suc.prems(1) obtain es1 r1 es2 r2
    where 1: "put_level (es, room) (imon_chk sc i) IMON_UNIT = ((es1, r1), None)"
      and 2: "put_level (es1, r1) (\<not> bit sc i) IMON_UNIT = ((es2, r2), None)"
      and 3: "imon_encode_loop sc i (es2, r2) = ((es', room'), None)"
    by (auto simp only: imon_encode_loop.simps gen_then_ok lv)
  have "imon_spells es1 (us @ [imon_chk sc i])" using put_level_spells [OF Suc.prems(2) _ 1] Suc.prems(4) by simp
  then have "imon_spells es2 (us @ [imon_chk sc i, \<not> bit sc i])"
    using put_level_spells [OF _ _ 2] Suc.prems(4) by fastforce
  from Suc.IH [OF 3 this] Suc.prems(3,4) show ?case by simp
qed simp

lemma imon_encode_spells:
  assumes "ir_imon_encode p sc room = (es, Inr n)"
  shows "imon_spells es (imon_message sc) \<and> n = (if pulse (last es) then length es else length es - 1)"
proof -
  from assms obtain r1 where g: "gen_then (put_event ([], room) True IMON_UNIT) (imon_encode_loop sc 31) = ((es, r1), None)"
    "n = (if pulse (last es) then length es else length es - 1)"
    by (auto simp: ir_imon_encode_def IMON_BITS_def split: prod.splits option.splits)
  then obtain es0 r0 where 0: "put_event ([], room) True IMON_UNIT = ((es0, r0), None)"
    "imon_encode_loop sc 31 (es0, r0) = ((es, r1), None)" by (auto simp: gen_then_ok)
  from 0(1) have "imon_spells es0 [True]"
    by (auto simp: put_event_def imon_spells_def imon_samples_def imon_units_def ir_const split: if_splits)
  from imon_encode_loop_spells [OF 0(2) this] g(2) show ?thesis by simp
qed

definition imon_tol :: u32 where [ir_const]: "imon_tol = IMON_UNIT div 2"

lemma imon_samples_jittered:
  assumes "\<forall>e \<in> set es. 0 < imon_units e \<and> imon_units e < 100 \<and> unat (duration e) = imon_units e * 415662"
    "jittered imon_tol es es'"
  shows "imon_samples es' = imon_samples es \<and> (\<forall>e \<in> set es'. is_timing_event e)"
  using assms
proof (induction es arbitrary: es')
  case (Cons e es)
  then obtain x xs where x: "es' = x # xs" "near imon_tol e x" "jittered imon_tol es xs" by (auto simp: jittered_Cons)
  define k where "k = imon_units e"
  have k: "0 < k" "k < 100" "unat (duration e) = k * 415662" using Cons.prems(1) by (simp_all add: k_def)
  have "k * 415662 < unat (duration x) + 207831" "unat (duration x) < k * 415662 + 207831"
    using x(2) k by (auto simp: near_def margin_nat ir_const unat_word_ariths unat_sub word_le_nat_alt)
  then have "imon_units x = k" by (rule imon_units_near)
  with x Cons show ?case by (auto simp: imon_samples_def near_def k_def)
qed (simp add: imon_samples_def)

section \<open>Properties\<close>

text \<open>
  What a receiver gets of a message: the events the encoder counts, with jitter, and a gap that
  is longer than the spaces with which the message ends (which the encoder does not count).
\<close>

definition imon_tail :: "u32 \<Rightarrow> nat" where
  "imon_tail sc = length (takeWhile Not (rev (imon_message sc)))"

definition imon_train :: "u32 \<Rightarrow> ir_raw_event list \<Rightarrow> bool" where
  "imon_train sc es' \<longleftrightarrow> (\<exists>room es n ys g. ir_imon_encode RC_PROTO_IMON sc room = (es, Inr n) \<and>
     jittered imon_tol (take n es) ys \<and> es' = ys @ [g] \<and> is_timing_event g \<and> \<not> pulse g \<and> imon_tail sc < imon_units g)"

lemma imon_tail_suffix: "imon_message sc = us @ replicate j False \<Longrightarrow> j \<le> imon_tail sc"
proof -
  have "j \<le> length (takeWhile Not (replicate j False @ xs))" for xs by (induction j) auto
  then show "imon_message sc = us @ replicate j False \<Longrightarrow> j \<le> imon_tail sc"
    by (simp add: imon_tail_def del: imon_symbols.simps)
qed

lemma imon_train_samples:
  assumes "imon_train sc es'"
  shows "\<exists>k. imon_samples es' = imon_message sc @ replicate (Suc k) False \<and> (\<forall>e \<in> set es'. is_timing_event e)"
proof -
  from assms obtain room es n ys g where t: "ir_imon_encode RC_PROTO_IMON sc room = (es, Inr n)"
    "jittered imon_tol (take n es) ys" "es' = ys @ [g]" "is_timing_event g" "\<not> pulse g" "imon_tail sc < imon_units g"
    by (auto simp: imon_train_def)
  note sp = imon_encode_spells [OF t(1)]
  then have ne: "es \<noteq> []" and msg: "imon_samples es = imon_message sc" by (auto simp: imon_spells_def)
  have len: "length (imon_symbols sc i) = 2 * i" for i by (induction i) simp_all
  have lt: "imon_units e < 100" if "e \<in> set es" for e
  proof -
    from that obtain xs zs where "es = xs @ e # zs" by (meson split_list)
    then have "imon_units e \<le> length (imon_samples es)" by (simp add: imon_samples_def)
    then show ?thesis using msg len [of 31] by simp
  qed
  have ex: "\<exists>j. imon_message sc = imon_samples (take n es) @ replicate j False"
  proof (cases "pulse (last es)")
    case True
    with sp msg show ?thesis by (intro exI [of _ 0]) (simp del: imon_symbols.simps)
  next
    case False
    have "take n es = butlast es" using False sp by (simp add: butlast_conv_take)
    then have "imon_samples (take n es) @ imon_samples [last es] = imon_message sc"
      using ne msg by (simp flip: imon_samples_append del: imon_symbols.simps)
    with False show ?thesis by (intro exI [of _ "imon_units (last es)"]) (simp add: imon_samples_def del: imon_symbols.simps)
  qed
  then obtain j where j: "imon_message sc = imon_samples (take n es) @ replicate j False" by blast
  have "j < imon_units g" using imon_tail_suffix [OF j] t(6) by simp
  then obtain k where k: "imon_units g = j + Suc k" using less_imp_Suc_add by fastforce
  have "\<forall>e \<in> set (take n es). 0 < imon_units e \<and> imon_units e < 100 \<and> unat (duration e) = imon_units e * 415662"
    using sp lt by (auto simp: imon_spells_def dest: in_set_takeD)
  from imon_samples_jittered [OF this t(2)] t(3-5) j k show ?thesis
    by (intro exI [of _ k]) (auto simp: imon_samples_def replicate_add replicate_append_same simp del: imon_symbols.simps)
qed

definition imon_stick_code :: "u32 \<Rightarrow> bool" where
  "imon_stick_code sc \<longleftrightarrow> sc AND 0xfc0000ff = 0x680000b7"

lemma imon_plain_key: "\<not> imon_stick_code (imon_bits d) \<Longrightarrow> snd (ir_imon_decode_scancode d) = [Rc_keydown RC_PROTO_IMON (imon_bits d) 0]"
  by (simp add: ir_imon_decode_scancode_def imon_stick_code_def Let_def)

lemma imon_train_run:
  assumes "imon_ready d" "canonical_scancode RC_PROTO_IMON sc" "imon_train sc es'"
  shows "\<exists>d' d1. decode_run ir_imon_decode d es' = (d', snd (ir_imon_decode_scancode d1)) \<and> imon_ready d' \<and>
    imon_bits d1 = sc \<and> stick_keyboard d1 = stick_keyboard d \<and>
    stick_keyboard d' = stick_keyboard (fst (ir_imon_decode_scancode d1))"
proof -
  from imon_train_samples [OF assms(3)] obtain k where k: "imon_samples es' = imon_message sc @ replicate (Suc k) False"
    "\<forall>e \<in> set es'. is_timing_event e" by blast
  have "imon_st d \<noteq> IMON_STATE_ERROR" using assms(1) by (simp add: imon_ready_def)
  with imon_feed_message [OF assms(1,2), of k] imon_run_feed [OF _ _ k(2), of d] show ?thesis
    unfolding k(1) by metis
qed

interpretation imon_channel: ir_channel ir_imon_decode imon_ready
  "\<lambda>sc es'. canonical_scancode RC_PROTO_IMON sc \<and> \<not> imon_stick_code sc \<and> imon_train sc es'"
  "\<lambda>sc. [Rc_keydown RC_PROTO_IMON sc 0]"
proof
  show "\<exists>d'. decode_run ir_imon_decode d es' = (d', [Rc_keydown RC_PROTO_IMON sc 0]) \<and> imon_ready d'"
    if "imon_ready d" "canonical_scancode RC_PROTO_IMON sc \<and> \<not> imon_stick_code sc \<and> imon_train sc es'" for d sc es'
    using that imon_train_run [of d sc es'] imon_plain_key by fastforce
qed

text \<open>
  A sequence of iMON messages other than stick movements, each sent with \<^verbatim>\<open>ir_imon_encode\<close>, received
  with every duration off by less than half a unit and followed by a long enough gap, is decoded by
  \<^verbatim>\<open>ir_imon_decode\<close> as exactly the key presses sent, in order.
\<close>

theorem imon_stream_roundtrip:
  assumes "imon_ready d" "\<forall>sc \<in> set scs. canonical_scancode RC_PROTO_IMON sc \<and> \<not> imon_stick_code sc"
    "list_all2 imon_train scs ess"
  shows "\<exists>d'. decode_run ir_imon_decode d (concat ess) = (d', map (\<lambda>sc. Rc_keydown RC_PROTO_IMON sc 0) scs) \<and> imon_ready d'"
proof -
  have "list_all2 (\<lambda>sc es'. canonical_scancode RC_PROTO_IMON sc \<and> \<not> imon_stick_code sc \<and> imon_train sc es') scs ess"
    using assms(2,3) by (auto simp: list_all2_conv_all_nth)
  from imon_channel.stream_run [OF this assms(1)] show ?thesis by simp
qed

lemma put_level_room:
  "0 < room \<Longrightarrow> \<exists>es' room'. put_level (es, room) p d = ((es', room'), None) \<and> room \<le> Suc room'"
  by (auto simp: put_level_def put_event_def)

lemma imon_encode_loop_room:
  "2 * i \<le> room \<Longrightarrow> \<exists>es' room'. imon_encode_loop sc i (es, room) = ((es', room'), None)"
proof (induction i arbitrary: es room)
  case (Suc i)
  let ?chk = "if push_bit i 1 AND IMON_CHKBITS \<noteq> 0 then sc AND (push_bit i 1 OR push_bit (i + 1) 1) = 0 else False"
  obtain es1 r1 where 1: "put_level (es, room) ?chk IMON_UNIT = ((es1, r1), None)" "room \<le> Suc r1"
    using put_level_room [of room] Suc.prems by fastforce
  obtain es2 r2 where 2: "put_level (es1, r1) (sc AND push_bit i 1 = 0) IMON_UNIT = ((es2, r2), None)" "r1 \<le> Suc r2"
    using put_level_room [of r1] 1(2) Suc.prems by fastforce
  from Suc.IH [of r2 es2] 1 2 Suc.prems show ?case by (auto simp: gen_then_ok simp del: push_bit_of_1)
qed simp

lemma imon_train_exists: "\<exists>es'. imon_train sc es'"
proof -
  obtain es n where e: "ir_imon_encode RC_PROTO_IMON sc 63 = (es, Inr n)"
    using imon_encode_loop_room [of 31 62 sc "[init_ir_raw_event_duration True IMON_UNIT]"]
    by (auto simp: ir_imon_encode_def IMON_BITS_def put_event_def)
  note sp = imon_encode_spells [OF e]
  have len: "length (imon_symbols sc i) = 2 * i" for i by (induction i) simp_all
  have "near imon_tol e e" if "e \<in> set es" for e
  proof -
    from that obtain xs zs where "es = xs @ e # zs" by (meson split_list)
    then have "imon_units e \<le> length (imon_samples es)" by (simp add: imon_samples_def)
    then have "imon_units e < 100" using sp len [of 31] by (simp add: imon_spells_def)
    then show ?thesis using sp that
      by (auto simp: imon_spells_def near_def margin_nat ir_const unat_word_ariths unat_sub word_le_nat_alt)
  qed
  then have "jittered imon_tol (take n es) (take n es)" by (intro jittered_refl) (auto dest: in_set_takeD)
  moreover have "imon_tail sc \<le> 63"
    unfolding imon_tail_def using length_takeWhile_le [of Not "rev (imon_message sc)"] len [of 31] by simp
  then have "imon_tail sc < imon_units (init_ir_raw_event_duration False 40000000)" by (simp add: imon_units_def)
  ultimately show ?thesis using e unfolding imon_train_def
    by (metis init_ir_raw_event_sel(2) init_ir_raw_event_sel(3))
qed

theorem imon_stream_roundtrip_witness:
  "\<exists>evs d'. decode_run ir_imon_decode
       \<lparr>imon_st = IMON_STATE_INACTIVE, imon_count = 0, imon_last_chk = False, imon_bits = 0, stick_keyboard = False\<rparr> evs =
     (d', [Rc_keydown RC_PROTO_IMON 0x299115b7 0, Rc_keydown RC_PROTO_IMON 0x2a9395b7 0])"
proof -
  let ?d = "\<lparr>imon_st = IMON_STATE_INACTIVE, imon_count = 0, imon_last_chk = False, imon_bits = 0, stick_keyboard = False\<rparr>"
  let ?scs = "[0x299115b7, 0x2a9395b7] :: u32 list"
  obtain es1 es2 where "list_all2 imon_train ?scs [es1, es2]"
    using imon_train_exists [of "0x299115b7"] imon_train_exists [of "0x2a9395b7"] by auto
  moreover have "\<forall>sc \<in> set ?scs. canonical_scancode RC_PROTO_IMON sc \<and> \<not> imon_stick_code sc"
    by (simp add: canonical_scancode_def rc_validate_scancode_def imon_stick_code_def)
  moreover have "imon_ready ?d" by (simp add: imon_ready_def)
  ultimately show ?thesis using imon_stream_roundtrip [of ?d ?scs "[es1, es2]"] by auto
qed

text \<open>
  The check bit of the current position is always a defined shift: after any train of events
  from a state whose count is in range (the idle state a device is registered with, for one), the count that
  \<^verbatim>\<open>BIT(data->count)\<close> uses lies between 0 and 30 whenever a bit is being read.
\<close>

theorem imon_count_in_range:
  assumes "imon_inv d" "decode_run ir_imon_decode (ir_imon_register d) evs = (d', as)"
    "imon_st d' = IMON_STATE_BIT_CHK \<or> imon_st d' = IMON_STATE_BIT_START"
  shows "0 \<le> imon_count d' \<and> imon_count d' \<le> 30"
proof -
  have "imon_inv (ir_imon_register d)" using assms(1) by (simp add: imon_inv_def ir_imon_register_def)
  from imon.run_inv [OF this assms(2)] assms(3) show ?thesis by (auto simp: imon_inv_def)
qed

theorem imon_count_in_range_witness:
  "0 \<le> imon_count (fst (decode_run ir_imon_decode (ir_imon_register
      \<lparr>imon_st = IMON_STATE_INACTIVE, imon_count = -7, imon_last_chk = False, imon_bits = 0, stick_keyboard = True\<rparr>)
      [init_ir_raw_event_duration True 415000])) \<and>
   imon_count (fst (decode_run ir_imon_decode (ir_imon_register
      \<lparr>imon_st = IMON_STATE_INACTIVE, imon_count = -7, imon_last_chk = False, imon_bits = 0, stick_keyboard = True\<rparr>)
      [init_ir_raw_event_duration True 415000])) \<le> 30"
  by (rule imon_count_in_range [OF _ prod.collapse [symmetric]])
     (simp_all add: imon_inv_def ir_imon_register_def ir_imon_decode_def imon_loop_feed imon_units_def imon_switch_def)

end
