(* ===== verification/Ir_Mce_Kbd.thy ===== *)
theory Ir_Mce_Kbd
  imports Rc_Proto
begin

text \<open>
  The handler of the Microsoft remote keyboard, \<^verbatim>\<open>rc/ir-mce_kbd-decoder.c\<close>: 32 bit keyboard and 29 bit mouse
  messages after a five bit header, Manchester coded. Keys are named by the symbols of the source. The
  conversions of times to jiffies are kernel functions and parameters of the decoder; the call
  \<^verbatim>\<open>mod_timer(.., jiffies + delay)\<close> is recorded with its delay.
\<close>

section \<open>Constants and state\<close>

definition MCIR2_UNIT :: u32 where [ir_const]: "MCIR2_UNIT = 333333"
definition MCIR2_HEADER_NBITS :: nat where "MCIR2_HEADER_NBITS = 5"
definition MCIR2_MOUSE_NBITS :: nat where "MCIR2_MOUSE_NBITS = 29"
definition MCIR2_KEYBOARD_NBITS :: nat where "MCIR2_KEYBOARD_NBITS = 32"
definition MCIR2_PREFIX_PULSE :: u32 where [ir_const]: "MCIR2_PREFIX_PULSE = 8 * MCIR2_UNIT"
definition MCIR2_MAX_LEN :: u32 where [ir_const]: "MCIR2_MAX_LEN = 3 * MCIR2_UNIT"
definition MCIR2_BIT_END :: u32 where [ir_const]: "MCIR2_BIT_END = 1 * MCIR2_UNIT"
definition MCIR2_MODE_MASK :: u8 where "MCIR2_MODE_MASK = 0xf"
definition MCIR2_KEYBOARD_HEADER :: nat where "MCIR2_KEYBOARD_HEADER = 0x4"
definition MCIR2_MOUSE_HEADER :: nat where "MCIR2_MOUSE_HEADER = 0x1"
definition MCIR2_MASK_KEYS_START :: nat where "MCIR2_MASK_KEYS_START = 0xe0"

datatype mce_kbd_mode = MCIR2_MODE_KEYBOARD | MCIR2_MODE_MOUSE | MCIR2_MODE_UNKNOWN

datatype mce_kbd_state = MCIR2_STATE_INACTIVE | MCIR2_STATE_HEADER_BIT_START | MCIR2_STATE_HEADER_BIT_END
  | MCIR2_STATE_BODY_BIT_START | MCIR2_STATE_BODY_BIT_END | MCIR2_STATE_FINISHED

record mce_kbd_dec =
  mce_kbd_st :: mce_kbd_state
  mce_kbd_header :: u8
  mce_kbd_body :: u32
  mce_kbd_count :: u32
  mce_kbd_wanted_bits :: u32

definition kbd_keycodes :: "string list" where
  "kbd_keycodes =
    [
     ''KEY_RESERVED'', ''KEY_RESERVED'', ''KEY_RESERVED'', ''KEY_RESERVED'', ''KEY_A'', ''KEY_B'', ''KEY_C'', ''KEY_D'',
     ''KEY_E'', ''KEY_F'', ''KEY_G'', ''KEY_H'', ''KEY_I'', ''KEY_J'', ''KEY_K'', ''KEY_L'',
     ''KEY_M'', ''KEY_N'', ''KEY_O'', ''KEY_P'', ''KEY_Q'', ''KEY_R'', ''KEY_S'', ''KEY_T'',
     ''KEY_U'', ''KEY_V'', ''KEY_W'', ''KEY_X'', ''KEY_Y'', ''KEY_Z'', ''KEY_1'', ''KEY_2'',
     ''KEY_3'', ''KEY_4'', ''KEY_5'', ''KEY_6'', ''KEY_7'', ''KEY_8'', ''KEY_9'', ''KEY_0'',
     ''KEY_ENTER'', ''KEY_ESC'', ''KEY_BACKSPACE'', ''KEY_TAB'', ''KEY_SPACE'', ''KEY_MINUS'', ''KEY_EQUAL'', ''KEY_LEFTBRACE'',
     ''KEY_RIGHTBRACE'', ''KEY_BACKSLASH'', ''KEY_BACKSLASH'', ''KEY_SEMICOLON'', ''KEY_APOSTROPHE'', ''KEY_GRAVE'', ''KEY_COMMA'', ''KEY_DOT'',
     ''KEY_SLASH'', ''KEY_CAPSLOCK'', ''KEY_F1'', ''KEY_F2'', ''KEY_F3'', ''KEY_F4'', ''KEY_F5'', ''KEY_F6'',
     ''KEY_F7'', ''KEY_F8'', ''KEY_F9'', ''KEY_F10'', ''KEY_F11'', ''KEY_F12'', ''KEY_SYSRQ'', ''KEY_SCROLLLOCK'',
     ''KEY_PAUSE'', ''KEY_INSERT'', ''KEY_HOME'', ''KEY_PAGEUP'', ''KEY_DELETE'', ''KEY_END'', ''KEY_PAGEDOWN'', ''KEY_RIGHT'',
     ''KEY_LEFT'', ''KEY_DOWN'', ''KEY_UP'', ''KEY_NUMLOCK'', ''KEY_KPSLASH'', ''KEY_KPASTERISK'', ''KEY_KPMINUS'', ''KEY_KPPLUS'',
     ''KEY_KPENTER'', ''KEY_KP1'', ''KEY_KP2'', ''KEY_KP3'', ''KEY_KP4'', ''KEY_KP5'', ''KEY_KP6'', ''KEY_KP7'',
     ''KEY_KP8'', ''KEY_KP9'', ''KEY_KP0'', ''KEY_KPDOT'', ''KEY_102ND'', ''KEY_COMPOSE'', ''KEY_POWER'', ''KEY_KPEQUAL'',
     ''KEY_F13'', ''KEY_F14'', ''KEY_F15'', ''KEY_F16'', ''KEY_F17'', ''KEY_F18'', ''KEY_F19'', ''KEY_F20'',
     ''KEY_F21'', ''KEY_F22'', ''KEY_F23'', ''KEY_F24'', ''KEY_OPEN'', ''KEY_HELP'', ''KEY_PROPS'', ''KEY_FRONT'',
     ''KEY_STOP'', ''KEY_AGAIN'', ''KEY_UNDO'', ''KEY_CUT'', ''KEY_COPY'', ''KEY_PASTE'', ''KEY_FIND'', ''KEY_MUTE'',
     ''KEY_VOLUMEUP'', ''KEY_VOLUMEDOWN'', ''KEY_RESERVED'', ''KEY_RESERVED'', ''KEY_RESERVED'', ''KEY_KPCOMMA'', ''KEY_RESERVED'', ''KEY_RO'',
     ''KEY_KATAKANAHIRAGANA'', ''KEY_YEN'', ''KEY_HENKAN'', ''KEY_MUHENKAN'', ''KEY_KPJPCOMMA'', ''KEY_RESERVED'', ''KEY_RESERVED'', ''KEY_RESERVED'',
     ''KEY_HANGUEL'', ''KEY_HANJA'', ''KEY_KATAKANA'', ''KEY_HIRAGANA'', ''KEY_ZENKAKUHANKAKU'', ''KEY_RESERVED'', ''KEY_RESERVED'', ''KEY_RESERVED'',
     ''KEY_RESERVED'', ''KEY_RESERVED'', ''KEY_RESERVED'', ''KEY_RESERVED'', ''KEY_RESERVED'', ''KEY_RESERVED'', ''KEY_RESERVED'', ''KEY_RESERVED'',
     ''KEY_RESERVED'', ''KEY_RESERVED'', ''KEY_RESERVED'', ''KEY_RESERVED'', ''KEY_RESERVED'', ''KEY_RESERVED'', ''KEY_RESERVED'', ''KEY_RESERVED'',
     ''KEY_RESERVED'', ''KEY_RESERVED'', ''KEY_RESERVED'', ''KEY_RESERVED'', ''KEY_RESERVED'', ''KEY_RESERVED'', ''KEY_RESERVED'', ''KEY_RESERVED'',
     ''KEY_RESERVED'', ''KEY_RESERVED'', ''KEY_RESERVED'', ''KEY_RESERVED'', ''KEY_RESERVED'', ''KEY_RESERVED'', ''KEY_RESERVED'', ''KEY_RESERVED'',
     ''KEY_RESERVED'', ''KEY_RESERVED'', ''KEY_RESERVED'', ''KEY_RESERVED'', ''KEY_RESERVED'', ''KEY_RESERVED'', ''KEY_RESERVED'', ''KEY_RESERVED'',
     ''KEY_RESERVED'', ''KEY_RESERVED'', ''KEY_RESERVED'', ''KEY_RESERVED'', ''KEY_RESERVED'', ''KEY_RESERVED'', ''KEY_RESERVED'', ''KEY_RESERVED'',
     ''KEY_RESERVED'', ''KEY_RESERVED'', ''KEY_RESERVED'', ''KEY_RESERVED'', ''KEY_RESERVED'', ''KEY_RESERVED'', ''KEY_RESERVED'', ''KEY_RESERVED'',
     ''KEY_RESERVED'', ''KEY_RESERVED'', ''KEY_RESERVED'', ''KEY_RESERVED'', ''KEY_RESERVED'', ''KEY_RESERVED'', ''KEY_RESERVED'', ''KEY_RESERVED'',
     ''KEY_RESERVED'', ''KEY_RESERVED'', ''KEY_RESERVED'', ''KEY_RESERVED'', ''KEY_RESERVED'', ''KEY_RESERVED'', ''KEY_RESERVED'', ''KEY_RESERVED'',
     ''KEY_LEFTCTRL'', ''KEY_LEFTSHIFT'', ''KEY_LEFTALT'', ''KEY_LEFTMETA'', ''KEY_RIGHTCTRL'', ''KEY_RIGHTSHIFT'', ''KEY_RIGHTALT'', ''KEY_RIGHTMETA'',
     ''KEY_PLAYPAUSE'', ''KEY_STOPCD'', ''KEY_PREVIOUSSONG'', ''KEY_NEXTSONG'', ''KEY_EJECTCD'', ''KEY_VOLUMEUP'', ''KEY_VOLUMEDOWN'', ''KEY_MUTE'',
     ''KEY_WWW'', ''KEY_BACK'', ''KEY_FORWARD'', ''KEY_STOP'', ''KEY_FIND'', ''KEY_SCROLLUP'', ''KEY_SCROLLDOWN'', ''KEY_EDIT'',
     ''KEY_SLEEP'', ''KEY_COFFEE'', ''KEY_REFRESH'', ''KEY_CALC'', ''KEY_RESERVED'', ''KEY_RESERVED'', ''KEY_RESERVED'', ''KEY_RESERVED''
    ]"

section \<open>Keyboard and mouse data\<close>

abbreviation mce_shift_key :: "nat \<Rightarrow> string" where
  "mce_shift_key i \<equiv> kbd_keycodes ! (MCIR2_MASK_KEYS_START + i)"

definition mce_kbd_rx_timeout :: "(u64 \<Rightarrow> bool) \<Rightarrow> u64 \<Rightarrow> rc_action list" where
  "mce_kbd_rx_timeout time_is_before_eq_jiffies expires =
     (if time_is_before_eq_jiffies expires then
        map (\<lambda>i. Report_key (mce_shift_key i) False) [0..<7] @
        map (\<lambda>i. Report_key (kbd_keycodes ! i) False) [0..<MCIR2_MASK_KEYS_START] @
        [Input_sync]
      else [])"

definition mce_kbd_get_mode :: "mce_kbd_dec \<Rightarrow> mce_kbd_mode" where
  "mce_kbd_get_mode d =
     (let m = unat (mce_kbd_header d AND MCIR2_MODE_MASK) in
      if m = MCIR2_KEYBOARD_HEADER then MCIR2_MODE_KEYBOARD
      else if m = MCIR2_MOUSE_HEADER then MCIR2_MODE_MOUSE
      else MCIR2_MODE_UNKNOWN)"

definition ir_mce_kbd_process_keyboard_data :: "u32 \<Rightarrow> rc_action list" where
  "ir_mce_kbd_process_keyboard_data scancode =
     (let keydata1 = ucast (drop_bit 8 scancode AND 0xff) :: u8;
          keydata2 = ucast (drop_bit 16 scancode AND 0xff) :: u8;
          shiftmask = ucast (scancode AND 0xff) :: u8 in
      map (\<lambda>i. Report_key (mce_shift_key i) (shiftmask AND push_bit i 1 \<noteq> 0)) [0..<7] @
      (if keydata1 \<noteq> 0 then [Report_key (kbd_keycodes ! unat keydata1) True] else []) @
      (if keydata2 \<noteq> 0 then [Report_key (kbd_keycodes ! unat keydata2) True] else []) @
      (if keydata1 = 0 \<and> keydata2 = 0
       then map (\<lambda>i. Report_key (kbd_keycodes ! i) False) [0..<MCIR2_MASK_KEYS_START] else []))"

definition mce_mouse_rel :: "u8 \<Rightarrow> int" where
  "mce_mouse_rel xdata = (if xdata AND 0x40 \<noteq> 0 then - (uint (NOT xdata AND 0x7f) + 1) else uint xdata)"

definition ir_mce_kbd_process_mouse_data :: "u32 \<Rightarrow> rc_action list" where
  "ir_mce_kbd_process_mouse_data scancode =
     (let xdata = ucast (drop_bit 7 scancode AND 0x7f) :: u8;
          ydata = ucast (drop_bit 14 scancode AND 0x7f) :: u8;
          right = (scancode AND 0x40 \<noteq> 0);
          left = (scancode AND 0x20 \<noteq> 0) in
      [Report_rel_x (mce_mouse_rel xdata), Report_rel_y (mce_mouse_rel ydata),
       Report_key ''BTN_LEFT'' left, Report_key ''BTN_RIGHT'' right])"

section \<open>The decoder\<close>

definition mce_kbd_fail :: "mce_kbd_dec \<Rightarrow> mce_kbd_dec decoded" where
  "mce_kbd_fail d = (d\<lparr>mce_kbd_st := MCIR2_STATE_INACTIVE\<rparr>, [], Inl EINVAL)"

definition mce_kbd_finished ::
  "(u64 \<Rightarrow> u64) \<Rightarrow> (u32 \<Rightarrow> u64) \<Rightarrow> u32 \<Rightarrow> mce_kbd_dec decoder" where
  "mce_kbd_finished nsecs_to_jiffies msecs_to_jiffies timeout d ev =
     (if pulse ev then mce_kbd_fail d
      else if mce_kbd_wanted_bits d = of_nat MCIR2_KEYBOARD_NBITS then
        let scancode = mce_kbd_body d AND 0xffffff in
        (d\<lparr>mce_kbd_st := MCIR2_STATE_INACTIVE\<rparr>,
         (if scancode \<noteq> 0 then [Mod_timer_rx (nsecs_to_jiffies (ucast timeout) + msecs_to_jiffies 100)]
          else [Del_timer_rx]) @
         ir_mce_kbd_process_keyboard_data scancode @
         [Lirc_scancode RC_PROTO_MCIR2_KBD scancode, Report_scan scancode, Input_sync], Inr ())
      else if mce_kbd_wanted_bits d = of_nat MCIR2_MOUSE_NBITS then
        let scancode = mce_kbd_body d AND 0x1fffff in
        (d\<lparr>mce_kbd_st := MCIR2_STATE_INACTIVE\<rparr>,
         ir_mce_kbd_process_mouse_data scancode @
         [Lirc_scancode RC_PROTO_MCIR2_MSE scancode, Report_scan scancode, Input_sync], Inr ())
      else mce_kbd_fail d)"

function mce_kbd_again ::
  "(u64 \<Rightarrow> u64) \<Rightarrow> (u32 \<Rightarrow> u64) \<Rightarrow> u32 \<Rightarrow> mce_kbd_dec decoder" where
  "mce_kbd_again nsecs_to_jiffies msecs_to_jiffies timeout d ev =
     (if \<not> geq_margin (duration ev) MCIR2_UNIT (MCIR2_UNIT div 2) then (d, [], Inr ())
      else
        case mce_kbd_st d of
          MCIR2_STATE_INACTIVE \<Rightarrow>
            if \<not> pulse ev then mce_kbd_fail d
            else if \<not> eq_margin (duration ev) MCIR2_PREFIX_PULSE MCIR2_UNIT then mce_kbd_fail d
            else (d\<lparr>mce_kbd_st := MCIR2_STATE_HEADER_BIT_START, mce_kbd_count := 0, mce_kbd_header := 0\<rparr>, [], Inr ())
        | MCIR2_STATE_HEADER_BIT_START \<Rightarrow>
            if geq_margin (duration ev) MCIR2_MAX_LEN (MCIR2_UNIT div 2) then mce_kbd_fail d
            else
              let d = d\<lparr>mce_kbd_header := push_bit 1 (mce_kbd_header d)\<rparr>;
                  d = (if pulse ev then d\<lparr>mce_kbd_header := mce_kbd_header d OR 1\<rparr> else d) in
              (d\<lparr>mce_kbd_count := mce_kbd_count d + 1, mce_kbd_st := MCIR2_STATE_HEADER_BIT_END\<rparr>, [], Inr ())
        | MCIR2_STATE_HEADER_BIT_END \<Rightarrow>
            if mce_kbd_count d \<noteq> of_nat MCIR2_HEADER_NBITS then
              mce_kbd_again nsecs_to_jiffies msecs_to_jiffies timeout
                (d\<lparr>mce_kbd_st := MCIR2_STATE_HEADER_BIT_START\<rparr>) (decrease_duration ev MCIR2_BIT_END)
            else
              (case mce_kbd_get_mode d of
                 MCIR2_MODE_KEYBOARD \<Rightarrow>
                   mce_kbd_again nsecs_to_jiffies msecs_to_jiffies timeout
                     (d\<lparr>mce_kbd_wanted_bits := of_nat MCIR2_KEYBOARD_NBITS, mce_kbd_count := 0, mce_kbd_body := 0,
                        mce_kbd_st := MCIR2_STATE_BODY_BIT_START\<rparr>) (decrease_duration ev MCIR2_BIT_END)
               | MCIR2_MODE_MOUSE \<Rightarrow>
                   mce_kbd_again nsecs_to_jiffies msecs_to_jiffies timeout
                     (d\<lparr>mce_kbd_wanted_bits := of_nat MCIR2_MOUSE_NBITS, mce_kbd_count := 0, mce_kbd_body := 0,
                        mce_kbd_st := MCIR2_STATE_BODY_BIT_START\<rparr>) (decrease_duration ev MCIR2_BIT_END)
               | MCIR2_MODE_UNKNOWN \<Rightarrow> mce_kbd_fail d)
        | MCIR2_STATE_BODY_BIT_START \<Rightarrow>
            if geq_margin (duration ev) MCIR2_MAX_LEN (MCIR2_UNIT div 2) then mce_kbd_fail d
            else
              let d = d\<lparr>mce_kbd_body := push_bit 1 (mce_kbd_body d)\<rparr>;
                  d = (if pulse ev then d\<lparr>mce_kbd_body := mce_kbd_body d OR 1\<rparr> else d) in
              (d\<lparr>mce_kbd_count := mce_kbd_count d + 1, mce_kbd_st := MCIR2_STATE_BODY_BIT_END\<rparr>, [], Inr ())
        | MCIR2_STATE_BODY_BIT_END \<Rightarrow>
            mce_kbd_again nsecs_to_jiffies msecs_to_jiffies timeout
              (if mce_kbd_count d = mce_kbd_wanted_bits d then d\<lparr>mce_kbd_st := MCIR2_STATE_FINISHED\<rparr>
               else d\<lparr>mce_kbd_st := MCIR2_STATE_BODY_BIT_START\<rparr>)
              (decrease_duration ev MCIR2_BIT_END)
        | MCIR2_STATE_FINISHED \<Rightarrow> mce_kbd_finished nsecs_to_jiffies msecs_to_jiffies timeout d ev)"
  by pat_completeness auto

termination
  by (relation "measure (\<lambda>(_, _, _, _, ev). unat (duration ev))") (auto simp: margin_nat ir_const)

declare mce_kbd_again.simps [simp del]

definition ir_mce_kbd_decode ::
  "(u64 \<Rightarrow> u64) \<Rightarrow> (u32 \<Rightarrow> u64) \<Rightarrow> u32 \<Rightarrow> mce_kbd_dec decoder" where
  "ir_mce_kbd_decode nsecs_to_jiffies msecs_to_jiffies timeout d ev =
     (if \<not> is_timing_event ev then
        ((if ev_reset ev then d\<lparr>mce_kbd_st := MCIR2_STATE_INACTIVE\<rparr> else d), [], Inr ())
      else if \<not> geq_margin (duration ev) MCIR2_UNIT (MCIR2_UNIT div 2) then mce_kbd_fail d
      else mce_kbd_again nsecs_to_jiffies msecs_to_jiffies timeout d ev)"

definition ir_mce_kbd_timings :: ir_raw_timings_manchester where
  "ir_mce_kbd_timings = \<lparr>mn_leader_pulse = MCIR2_PREFIX_PULSE, mn_leader_space = 0, mn_clock = MCIR2_UNIT,
     mn_invert = True, mn_trailer_space = MCIR2_UNIT * 10\<rparr>"

definition ir_mce_kbd_encode :: "rc_proto \<Rightarrow> u32 \<Rightarrow> nat \<Rightarrow> ir_raw_event list \<times> nat result" where
  "ir_mce_kbd_encode protocol scancode room =
     (let (raw, len) =
        (if protocol = RC_PROTO_MCIR2_KBD then
           (ucast scancode OR push_bit MCIR2_KEYBOARD_NBITS (of_nat MCIR2_KEYBOARD_HEADER),
            MCIR2_KEYBOARD_NBITS + MCIR2_HEADER_NBITS)
         else
           (ucast scancode OR push_bit MCIR2_MOUSE_NBITS (of_nat MCIR2_MOUSE_HEADER),
            MCIR2_MOUSE_NBITS + MCIR2_HEADER_NBITS)) in
      encode_result (ir_raw_gen_manchester ([], room) ir_mce_kbd_timings len raw))"

section \<open>Invariant\<close>

definition mce_kbd_ready :: "mce_kbd_dec \<Rightarrow> bool" where
  "mce_kbd_ready d \<longleftrightarrow> mce_kbd_st d = MCIR2_STATE_INACTIVE"

definition mce_kbd_inv :: "mce_kbd_dec \<Rightarrow> bool" where
  "mce_kbd_inv d \<longleftrightarrow>
     (mce_kbd_st d = MCIR2_STATE_HEADER_BIT_START \<longrightarrow> mce_kbd_count d < 5) \<and>
     (mce_kbd_st d = MCIR2_STATE_HEADER_BIT_END \<longrightarrow> mce_kbd_count d \<le> 5) \<and>
     (mce_kbd_st d \<in> {MCIR2_STATE_BODY_BIT_START, MCIR2_STATE_BODY_BIT_END, MCIR2_STATE_FINISHED} \<longrightarrow>
        mce_kbd_wanted_bits d \<in> {29, 32} \<and> mce_kbd_count d \<le> mce_kbd_wanted_bits d) \<and>
     (mce_kbd_st d = MCIR2_STATE_BODY_BIT_START \<longrightarrow> mce_kbd_count d < mce_kbd_wanted_bits d)"

lemmas mce_kbd_nbits = MCIR2_HEADER_NBITS_def MCIR2_MOUSE_NBITS_def MCIR2_KEYBOARD_NBITS_def

lemma mce_kbd_finished_inactive:
  "mce_kbd_finished nj mj t d ev = (d', as, r) \<Longrightarrow>
   mce_kbd_st d' = MCIR2_STATE_INACTIVE \<and> (\<forall>e. r = Inl e \<longrightarrow> e = EINVAL \<and> as = [])"
  by (auto simp: mce_kbd_finished_def mce_kbd_fail_def Let_def split: if_splits)

lemma mce_kbd_again_outcome:
  "mce_kbd_again nj mj t d ev = (d', as, r) \<Longrightarrow> mce_kbd_inv d \<Longrightarrow>
   mce_kbd_inv d' \<and> (\<forall>e. r = Inl e \<longrightarrow> e = EINVAL \<and> as = [] \<and> mce_kbd_st d' = MCIR2_STATE_INACTIVE)"
proof (induction nj mj t d ev rule: mce_kbd_again.induct)
  case (1 nj mj t d ev)
  note step = 1(5) [unfolded mce_kbd_again.simps [of nj mj t d ev]]
  show ?case
  proof (cases "geq_margin (duration ev) MCIR2_UNIT (MCIR2_UNIT div 2)")
    case long: True
    show ?thesis
    proof (cases "mce_kbd_st d")
      case MCIR2_STATE_HEADER_BIT_END
      with 1(1-3) 1(6) long step show ?thesis
        by (auto simp: mce_kbd_inv_def mce_kbd_fail_def mce_kbd_nbits split: if_splits mce_kbd_mode.splits)
    next
      case MCIR2_STATE_BODY_BIT_END
      with 1(4) 1(6) long step show ?thesis by (auto simp: mce_kbd_inv_def split: if_splits)
    next
      case MCIR2_STATE_FINISHED
      with long step mce_kbd_finished_inactive [of nj mj t d ev d' as r] show ?thesis by (simp add: mce_kbd_inv_def)
    qed (use 1(6) long step in \<open>auto simp: mce_kbd_inv_def mce_kbd_fail_def Let_def inc_le split: if_splits\<close>)
  qed (use 1(6) step in auto)
qed

lemma mce_kbd_inv_inactive: "mce_kbd_st d = MCIR2_STATE_INACTIVE \<Longrightarrow> mce_kbd_inv d"
  by (simp add: mce_kbd_inv_def)

interpretation mce_kbd: ir_strict_decoder "ir_mce_kbd_decode nj mj t" mce_kbd_ready mce_kbd_inv
proof
  show "mce_kbd_inv d'" if "mce_kbd_inv d" "ir_mce_kbd_decode nj mj t d ev = (d', as, r)" for d ev d' as r
    using that mce_kbd_again_outcome [of nj mj t d ev d' as r]
    by (auto simp: ir_mce_kbd_decode_def mce_kbd_fail_def mce_kbd_inv_inactive split: if_splits)
  show "\<exists>d'. ir_mce_kbd_decode nj mj t d ev = (d', [], Inr ()) \<and> mce_kbd_ready d'" if "ev_reset ev" for ev d
    using that by (simp add: ir_mce_kbd_decode_def is_timing_event_def mce_kbd_ready_def)
  show "e = EINVAL \<and> as = [] \<and> mce_kbd_ready d'"
    if "mce_kbd_inv d" "ir_mce_kbd_decode nj mj t d ev = (d', as, Inl e)" for d ev d' as e
    using that mce_kbd_again_outcome [of nj mj t d ev d' as "Inl e"]
    by (auto simp: ir_mce_kbd_decode_def mce_kbd_fail_def mce_kbd_ready_def split: if_splits)
qed

section \<open>Reading what the encoder sends\<close>

definition mce_kbd_tol :: u32 where [ir_const]: "mce_kbd_tol = MCIR2_UNIT div 2"

abbreviation mce_half :: "ir_raw_event \<Rightarrow> bool" where
  "mce_half ev \<equiv> eq_margin (duration ev) MCIR2_UNIT mce_kbd_tol"

abbreviation mce_full :: "ir_raw_event \<Rightarrow> bool" where
  "mce_full ev \<equiv> eq_margin (duration ev) (MCIR2_UNIT + MCIR2_UNIT) mce_kbd_tol"

lemma mce_short:
  "\<not> geq_margin (duration ev) MCIR2_UNIT (MCIR2_UNIT div 2) \<Longrightarrow> mce_kbd_again nj mj t d ev = (d, [], Inr ())"
  by (subst mce_kbd_again.simps) simp

lemma mce_half_rest: "mce_half ev \<Longrightarrow> mce_kbd_again nj mj t d (decrease_duration ev MCIR2_UNIT) = (d, [], Inr ())"
  by (rule mce_short) (auto simp: margin_nat ir_const)

lemma mce_full_rest: "mce_full ev \<Longrightarrow> mce_half (decrease_duration ev MCIR2_UNIT)"
  by (auto simp: margin_nat ir_const)

lemma mce_long: "mce_half ev \<or> mce_full ev \<Longrightarrow> geq_margin (duration ev) MCIR2_UNIT (MCIR2_UNIT div 2)"
  by (auto simp: margin_nat ir_const)

lemma mce_half_start: "mce_half ev \<Longrightarrow> \<not> geq_margin (duration ev) MCIR2_MAX_LEN (MCIR2_UNIT div 2)"
  by (simp add: margin_nat ir_const)

lemma mce_turn_header:
  assumes "mce_half ev" "mce_kbd_st d = MCIR2_STATE_HEADER_BIT_START"
  shows "mce_kbd_again nj mj t d ev = (d\<lparr>mce_kbd_header := push_bit 1 (mce_kbd_header d) OR of_bool (pulse ev),
     mce_kbd_count := mce_kbd_count d + 1, mce_kbd_st := MCIR2_STATE_HEADER_BIT_END\<rparr>, [], Inr ())"
  using assms mce_long [of ev] by (subst mce_kbd_again.simps) (simp add: mce_half_start Let_def)

lemma mce_turn_body:
  assumes "mce_half ev" "mce_kbd_st d = MCIR2_STATE_BODY_BIT_START"
  shows "mce_kbd_again nj mj t d ev = (d\<lparr>mce_kbd_body := push_bit 1 (mce_kbd_body d) OR of_bool (pulse ev),
     mce_kbd_count := mce_kbd_count d + 1, mce_kbd_st := MCIR2_STATE_BODY_BIT_END\<rparr>, [], Inr ())"
  using assms mce_long [of ev] by (subst mce_kbd_again.simps) (simp add: mce_half_start Let_def)

text \<open>The end of a bit, with the state that follows.\<close>

definition mce_next :: "mce_kbd_dec \<Rightarrow> mce_kbd_dec" where
  "mce_next d =
     (if mce_kbd_st d = MCIR2_STATE_BODY_BIT_END then
        d\<lparr>mce_kbd_st := if mce_kbd_count d = mce_kbd_wanted_bits d then MCIR2_STATE_FINISHED else MCIR2_STATE_BODY_BIT_START\<rparr>
      else if mce_kbd_count d \<noteq> 5 then d\<lparr>mce_kbd_st := MCIR2_STATE_HEADER_BIT_START\<rparr>
      else d\<lparr>mce_kbd_wanted_bits := if mce_kbd_get_mode d = MCIR2_MODE_KEYBOARD then 32 else 29, mce_kbd_count := 0,
             mce_kbd_body := 0, mce_kbd_st := MCIR2_STATE_BODY_BIT_START\<rparr>)"

lemma mce_turn_end:
  assumes "geq_margin (duration ev) MCIR2_UNIT (MCIR2_UNIT div 2)"
    "mce_kbd_st d = MCIR2_STATE_BODY_BIT_END \<or>
     mce_kbd_st d = MCIR2_STATE_HEADER_BIT_END \<and> (mce_kbd_count d = 5 \<longrightarrow> mce_kbd_get_mode d \<noteq> MCIR2_MODE_UNKNOWN)"
  shows "mce_kbd_again nj mj t d ev = mce_kbd_again nj mj t (mce_next d) (decrease_duration ev MCIR2_UNIT)"
  using assms(2)
proof
  assume "mce_kbd_st d = MCIR2_STATE_BODY_BIT_END"
  with assms(1) show ?thesis
    by (cases "mce_kbd_count d = mce_kbd_wanted_bits d"; subst mce_kbd_again.simps)
       (simp_all add: MCIR2_BIT_END_def mce_next_def)
next
  assume "mce_kbd_st d = MCIR2_STATE_HEADER_BIT_END \<and> (mce_kbd_count d = 5 \<longrightarrow> mce_kbd_get_mode d \<noteq> MCIR2_MODE_UNKNOWN)"
  with assms(1) show ?thesis
    by (cases "mce_kbd_count d = 5"; cases "mce_kbd_get_mode d"; subst mce_kbd_again.simps)
       (simp_all add: MCIR2_BIT_END_def mce_next_def mce_kbd_nbits)
qed

text \<open>Header bits, then body bits with \<open>w\<close> of them wanted.\<close>

definition mce_hgot :: "nat \<Rightarrow> u8 \<Rightarrow> mce_kbd_dec \<Rightarrow> bool" where
  "mce_hgot k acc d \<longleftrightarrow> unat (mce_kbd_count d) = k \<and> mce_kbd_header d = acc \<and> mce_kbd_st d = MCIR2_STATE_HEADER_BIT_END"

definition mce_got :: "u32 \<Rightarrow> nat \<Rightarrow> u32 \<Rightarrow> mce_kbd_dec \<Rightarrow> bool" where
  "mce_got w k acc d \<longleftrightarrow> unat (mce_kbd_count d) = k \<and> mce_kbd_body d = acc \<and> mce_kbd_wanted_bits d = w \<and>
     mce_kbd_st d = MCIR2_STATE_BODY_BIT_END"

lemma mce_symbol_run:
  assumes "jittered mce_kbd_tol (mn_symbol ir_mce_kbd_timings bb) es" "mce_kbd_st d = MCIR2_STATE_BODY_BIT_END \<or>
     mce_kbd_st d = MCIR2_STATE_HEADER_BIT_END \<and> (mce_kbd_count d = 5 \<longrightarrow> mce_kbd_get_mode d \<noteq> MCIR2_MODE_UNKNOWN)"
  shows "\<exists>ev. mce_half ev \<and> pulse ev = snd bb \<and>
    (\<forall>d' as. mce_kbd_again nj mj t (mce_next d) ev = (d', as, Inr ()) \<longrightarrow>
      decode_run (ir_mce_kbd_decode nj mj t) d es = (d', as))"
proof -
  obtain b b' where bb: "bb = (b, b')" by (cases bb)
  show ?thesis
  proof (cases "b = b'")
    case True
    with assms(1) bb obtain e1 e2 where es: "es = [e1, e2]" "pulse e2 = b'" "is_timing_event e1" "is_timing_event e2"
      "mce_half e1" "mce_half e2"
      by (auto simp: jittered_Cons mn_level_def ir_mce_kbd_timings_def)
    with bb assms(2) show ?thesis
      by (intro exI [of _ e2]) (simp add: ir_mce_kbd_decode_def mce_long mce_turn_end mce_half_rest)
  next
    case False
    with assms(1) bb obtain e1 where es: "es = [e1]" "pulse e1 = b'" "is_timing_event e1" "mce_full e1"
      by (auto simp: jittered_Cons mn_level_def ir_mce_kbd_timings_def)
    with bb assms(2) show ?thesis
      by (intro exI [of _ "decrease_duration e1 MCIR2_UNIT"])
         (simp add: ir_mce_kbd_decode_def mce_long mce_turn_end mce_full_rest)
  qed
qed

lemma mce_hgot_symbol:
  assumes "mce_hgot k acc d" "k < 5" "jittered mce_kbd_tol (mn_symbol ir_mce_kbd_timings bb) es"
  shows "\<exists>d'. decode_run (ir_mce_kbd_decode nj mj t) d es = (d', []) \<and>
    mce_hgot (Suc k) (push_bit 1 acc OR of_bool (snd bb)) d'"
proof -
  have c: "unat (mce_kbd_count d + 1) = Suc k" "mce_kbd_count d \<noteq> 5" "mce_kbd_st d = MCIR2_STATE_HEADER_BIT_END"
    using assms(1,2) by (auto simp: mce_hgot_def unat_inc)
  then obtain ev where "mce_half ev" "pulse ev = snd bb"
    "\<forall>d' as. mce_kbd_again nj mj t (mce_next d) ev = (d', as, Inr ()) \<longrightarrow>
       decode_run (ir_mce_kbd_decode nj mj t) d es = (d', as)"
    using mce_symbol_run [OF assms(3), of d nj mj t] by auto
  with assms(1) c show ?thesis by (simp add: mce_next_def mce_turn_header mce_hgot_def)
qed

lemma mce_first_symbol:
  assumes "mce_hgot 5 h d" "h AND 0xf = (if w = 32 then 4 else 1)" "w \<in> {29, 32}"
    "jittered mce_kbd_tol (mn_symbol ir_mce_kbd_timings bb) es"
  shows "\<exists>d'. decode_run (ir_mce_kbd_decode nj mj t) d es = (d', []) \<and> mce_got w 1 (of_bool (snd bb)) d'"
proof -
  have c: "mce_kbd_count d = 5" "mce_kbd_st d = MCIR2_STATE_HEADER_BIT_END"
    using assms(1) by (auto simp: mce_hgot_def word_unat_eq_iff [of _ 5])
  have m: "mce_kbd_get_mode d = (if w = 32 then MCIR2_MODE_KEYBOARD else MCIR2_MODE_MOUSE)"
    using assms(1-3) by (auto simp: mce_kbd_get_mode_def mce_hgot_def MCIR2_MODE_MASK_def MCIR2_KEYBOARD_HEADER_def MCIR2_MOUSE_HEADER_def)
  with c obtain ev where "mce_half ev" "pulse ev = snd bb"
    "\<forall>d' as. mce_kbd_again nj mj t (mce_next d) ev = (d', as, Inr ()) \<longrightarrow>
       decode_run (ir_mce_kbd_decode nj mj t) d es = (d', as)"
    using mce_symbol_run [OF assms(4), of d nj mj t] by (auto split: if_splits)
  with assms(3) c m show ?thesis by (auto simp: mce_next_def mce_turn_body mce_got_def)
qed

lemma mce_got_symbol:
  assumes "mce_got w k acc d" "k < min 32 (unat w)" "jittered mce_kbd_tol (mn_symbol ir_mce_kbd_timings bb) es"
  shows "\<exists>d'. decode_run (ir_mce_kbd_decode nj mj t) d es = (d', []) \<and> mce_got w (Suc k) (push_bit 1 acc OR of_bool (snd bb)) d'"
proof -
  have c: "unat (mce_kbd_count d + 1) = Suc k" "mce_kbd_count d \<noteq> mce_kbd_wanted_bits d" "mce_kbd_st d = MCIR2_STATE_BODY_BIT_END"
    using assms(1,2) by (auto simp: mce_got_def unat_inc)
  then obtain ev where "mce_half ev" "pulse ev = snd bb"
    "\<forall>d' as. mce_kbd_again nj mj t (mce_next d) ev = (d', as, Inr ()) \<longrightarrow>
       decode_run (ir_mce_kbd_decode nj mj t) d es = (d', as)"
    using mce_symbol_run [OF assms(3), of d nj mj t] by auto
  with assms(1) c show ?thesis by (simp add: mce_next_def mce_turn_body mce_got_def)
qed

interpretation mce_head: ir_receiver "ir_mce_kbd_decode nj mj t" mce_kbd_tol "mn_symbol ir_mce_kbd_timings"
  "\<lambda>a bb. push_bit 1 a OR of_bool (snd bb)" 5 mce_hgot
  by unfold_locales (rule mce_hgot_symbol)

interpretation mce_body: ir_receiver "ir_mce_kbd_decode nj mj t" mce_kbd_tol "mn_symbol ir_mce_kbd_timings"
  "\<lambda>a bb. push_bit 1 a OR of_bool (snd bb)" "min 32 (unat w)" "mce_got w"
  by unfold_locales (rule mce_got_symbol)

lemma mce_end_run:
  assumes "mce_got w (unat w) acc d" "jittered mce_kbd_tol (mn_end ir_mce_kbd_timings b) es"
    "\<And>ev. \<not> pulse ev \<Longrightarrow> mce_kbd_finished nj mj t (d\<lparr>mce_kbd_st := MCIR2_STATE_FINISHED\<rparr>) ev = (d', as, Inr ())"
  shows "decode_run (ir_mce_kbd_decode nj mj t) d es = (d', as)"
proof -
  have d: "mce_kbd_st d = MCIR2_STATE_BODY_BIT_END" "mce_kbd_count d = mce_kbd_wanted_bits d"
    using assms(1) by (auto simp: mce_got_def word_unat_eq_iff [of "mce_kbd_count d"])
  then have n: "mce_next d = d\<lparr>mce_kbd_st := MCIR2_STATE_FINISHED\<rparr>" by (simp add: mce_next_def)
  have fin: "mce_kbd_again nj mj t (mce_next d) ev = (d', as, Inr ())"
    if "\<not> pulse ev" "geq_margin (duration ev) MCIR2_UNIT (MCIR2_UNIT div 2)" for ev
    using that assms(3) unfolding n by (subst mce_kbd_again.simps) simp
  have nz: "MCIR2_UNIT * 10 \<noteq> 0" by (simp add: ir_const)
  show ?thesis
  proof (cases b)
    case False
    with assms(2) nz obtain e1 e2 where es: "es = [e1, e2]" "\<not> pulse e2" "is_timing_event e1" "is_timing_event e2"
      "mce_half e1" "eq_margin (duration e2) (MCIR2_UNIT * 10) mce_kbd_tol"
      by (auto simp: mn_end_def ir_mce_kbd_timings_def mn_half_def mn_level_def jittered_Cons)
    have "geq_margin (duration e2) MCIR2_UNIT (MCIR2_UNIT div 2)" using es(6) by (auto simp: margin_nat ir_const)
    with es d fin [of e2] show ?thesis by (simp add: ir_mce_kbd_decode_def mce_long mce_turn_end mce_half_rest)
  next
    case True
    with assms(2) nz obtain e1 where es: "es = [e1]" "\<not> pulse e1" "is_timing_event e1"
      "eq_margin (duration e1) (MCIR2_UNIT + MCIR2_UNIT * 10) mce_kbd_tol"
      by (auto simp: mn_end_def ir_mce_kbd_timings_def mn_half_def mn_level_def jittered_Cons)
    have "geq_margin (duration (decrease_duration e1 MCIR2_UNIT)) MCIR2_UNIT (MCIR2_UNIT div 2)"
      "geq_margin (duration e1) MCIR2_UNIT (MCIR2_UNIT div 2)"
      using es(4) by (auto simp: margin_nat ir_const)
    with es d fin [of "decrease_duration e1 MCIR2_UNIT"] show ?thesis by (simp add: ir_mce_kbd_decode_def mce_turn_end)
  qed
qed

text \<open>Messages: the prefix, five header bits and the body.\<close>

lemma mn_chain_append: "mn_chain b (xs @ ys) = mn_chain b xs @ mn_chain (last (b # xs)) ys"
  by (induction b xs rule: mn_chain.induct) simp_all

lemma msb_bits_add: "msb_bits (m + n) d = msb_bits m (drop_bit n d) @ msb_bits n d"
  by (induction m) (simp_all add: bit_drop_bit_eq add.commute)

definition mce_events :: "bool list \<Rightarrow> bool list \<Rightarrow> ir_raw_event list" where
  "mce_events hs bs =
     [init_ir_raw_event_duration True MCIR2_PREFIX_PULSE, init_ir_raw_event_duration False MCIR2_UNIT] @
     concat (map (mn_symbol ir_mce_kbd_timings) (mn_chain False hs)) @
     mn_symbol ir_mce_kbd_timings (last hs, hd bs) @
     concat (map (mn_symbol ir_mce_kbd_timings) (mn_chain (hd bs) (tl bs))) @
     mn_end ir_mce_kbd_timings (last bs)"

lemma mce_gen_events:
  assumes "encode_result (ir_raw_gen_manchester ([], room) ir_mce_kbd_timings (Suc (4 + n)) raw) = (es, Inr r)"
    "0 < n" "n < 60" "\<not> bit raw (4 + n)"
  shows "es = mce_events (msb_bits 4 (drop_bit n raw)) (msb_bits n raw)"
proof -
  have nz: "MCIR2_PREFIX_PULSE \<noteq> 0" by (simp add: ir_const)
  from assms(1) obtain r1 where g: "ir_raw_gen_manchester ([], room) ir_mce_kbd_timings (Suc (4 + n)) raw = ((es, r1), None)"
    by (auto simp: encode_result_ok)
  let ?x = "init_ir_raw_event_duration True MCIR2_PREFIX_PULSE"
  let ?hs = "msb_bits 4 (drop_bit n raw)" and ?bs = "msb_bits n raw"
  have ne: "?hs \<noteq> []" "?bs \<noteq> []" using assms(2) by (auto simp flip: length_0_conv)
  then obtain c cs where bs: "?bs = c # cs" by (cases ?bs) auto
  have "[] @ mn_leader ir_mce_kbd_timings = [] @ [?x]" using nz by (simp add: mn_leader_def ir_mce_kbd_timings_def)
  from gen_manchester_ok [OF g _ this] assms(3,4)
  have "es = mn_join ir_mce_kbd_timings ?x False @
      concat (map (mn_symbol ir_mce_kbd_timings) (mn_chain False (?hs @ ?bs))) @
      mn_end ir_mce_kbd_timings (last (False # ?hs @ ?bs))"
    by (simp add: msb_bits_add)
  then show ?thesis
    using ne by (simp add: bs mce_events_def mn_chain_append mn_join_def mn_level_def)
       (simp add: ir_mce_kbd_timings_def mn_level_def)
qed

lemma mce_prefix_run:
  assumes "mce_kbd_ready d"
    "jittered mce_kbd_tol [init_ir_raw_event_duration True MCIR2_PREFIX_PULSE, init_ir_raw_event_duration False MCIR2_UNIT] es"
  shows "\<exists>d'. decode_run (ir_mce_kbd_decode nj mj t) d es = (d', []) \<and> mce_hgot 1 0 d'"
proof -
  from assms(2) obtain e1 e2 where es: "es = [e1, e2]" "pulse e1" "\<not> pulse e2"
    "is_timing_event e1" "is_timing_event e2" "eq_margin (duration e1) MCIR2_PREFIX_PULSE mce_kbd_tol" "mce_half e2"
    by (auto simp: jittered_Cons)
  have "geq_margin (duration e1) MCIR2_UNIT (MCIR2_UNIT div 2)" "eq_margin (duration e1) MCIR2_PREFIX_PULSE MCIR2_UNIT"
    using es(6) by (auto simp: margin_nat ir_const)
  then have "ir_mce_kbd_decode nj mj t d e1 =
      (d\<lparr>mce_kbd_st := MCIR2_STATE_HEADER_BIT_START, mce_kbd_count := 0, mce_kbd_header := 0\<rparr>, [], Inr ())"
    using es assms(1) by (simp add: ir_mce_kbd_decode_def mce_kbd_again.simps mce_kbd_ready_def)
  with es show ?thesis by (simp add: ir_mce_kbd_decode_def mce_long mce_turn_header mce_hgot_def)
qed

lemma mce_message_run:
  assumes "mce_kbd_ready d" "jittered mce_kbd_tol (mce_events hs bs) es" "length hs = 4" "length bs = unat w" "w \<in> {29, 32}"
    "shift_in (0 :: u8) hs AND 0xf = (if w = 32 then 4 else 1)"
    "\<And>d' ev. \<not> pulse ev \<Longrightarrow> mce_kbd_wanted_bits d' = w \<Longrightarrow> mce_kbd_body d' = shift_in 0 bs \<Longrightarrow>
      mce_kbd_finished nj mj t d' ev = (d'\<lparr>mce_kbd_st := MCIR2_STATE_INACTIVE\<rparr>, as, Inr ())"
  shows "\<exists>d'. decode_run (ir_mce_kbd_decode nj mj t) d es = (d', as) \<and> mce_kbd_ready d'"
proof -
  obtain c cs where bs: "bs = c # cs" using assms(4,5) by (cases bs) auto
  obtain e1 e2 e3 e4 e5 where es: "es = e1 @ e2 @ e3 @ e4 @ e5"
    and 1: "jittered mce_kbd_tol [init_ir_raw_event_duration True MCIR2_PREFIX_PULSE, init_ir_raw_event_duration False MCIR2_UNIT] e1"
    and 2: "jittered mce_kbd_tol (concat (map (mn_symbol ir_mce_kbd_timings) (mn_chain False hs))) e2"
    and 3: "jittered mce_kbd_tol (mn_symbol ir_mce_kbd_timings (last hs, c)) e3"
    and 4: "jittered mce_kbd_tol (concat (map (mn_symbol ir_mce_kbd_timings) (mn_chain c cs))) e4"
    and 5: "jittered mce_kbd_tol (mn_end ir_mce_kbd_timings (last bs)) e5"
    using assms(2) unfolding mce_events_def bs list.sel by (elim jittered_appendE) (metis (no_types))
  let ?D = "decode_run (ir_mce_kbd_decode nj mj t)"
  from mce_prefix_run [OF assms(1) 1] obtain d1 where d1: "?D d e1 = (d1, [])" "mce_hgot 1 0 d1" by blast
  from mce_head.got_symbols [OF d1(2) _ 2, where nj = nj and mj = mj and t = t, unfolded foldl_push_snd length_mn_chain] assms(3) obtain d2
    where d2: "?D d1 e2 = (d2, [])" "mce_hgot 5 (shift_in 0 hs) d2" by auto
  from mce_first_symbol [OF d2(2) assms(6,5) 3, of nj mj t] obtain d3 where d3: "?D d2 e3 = (d3, [])" "mce_got w 1 (of_bool c) d3" by auto
  have "1 + length (mn_chain c cs) \<le> min 32 (unat w)" using assms(4,5) bs by auto
  from mce_body.got_symbols [OF d3(2) this 4, where nj = nj and mj = mj and t = t, unfolded foldl_push_snd length_mn_chain] assms(4) bs obtain d4
    where d4: "?D d3 e4 = (d4, [])" "mce_got w (unat w) (shift_in (of_bool c) cs) d4" by auto
  have "mce_kbd_finished nj mj t (d4\<lparr>mce_kbd_st := MCIR2_STATE_FINISHED\<rparr>) ev =
      (d4\<lparr>mce_kbd_st := MCIR2_STATE_INACTIVE\<rparr>, as, Inr ())" if "\<not> pulse ev" for ev
    using assms(7) [OF that, of "d4\<lparr>mce_kbd_st := MCIR2_STATE_FINISHED\<rparr>"] d4(2) bs by (simp add: mce_got_def)
  from mce_end_run [OF d4(2) 5 this] have "?D d4 e5 = (d4\<lparr>mce_kbd_st := MCIR2_STATE_INACTIVE\<rparr>, as)" .
  with decode_run_trans [OF d1(1) decode_run_trans [OF d2(1) decode_run_trans [OF d3(1) decode_run_trans [OF d4(1)]]]]
  show ?thesis unfolding es by (simp add: mce_kbd_ready_def)
qed

section \<open>Properties\<close>

definition mce_calls :: "(u64 \<Rightarrow> u64) \<Rightarrow> (u32 \<Rightarrow> u64) \<Rightarrow> u32 \<Rightarrow> rc_proto \<times> u32 \<Rightarrow> rc_action list" where
  "mce_calls nj mj t m =
     (case m of (p, sc) \<Rightarrow>
        if p = RC_PROTO_MCIR2_KBD then
          (if sc \<noteq> 0 then [Mod_timer_rx (nj (ucast t) + mj 100)] else [Del_timer_rx]) @
          ir_mce_kbd_process_keyboard_data sc @ [Lirc_scancode p sc, Report_scan sc, Input_sync]
        else ir_mce_kbd_process_mouse_data sc @ [Lirc_scancode p sc, Report_scan sc, Input_sync])"

definition mce_train :: "rc_proto \<times> u32 \<Rightarrow> ir_raw_event list \<Rightarrow> bool" where
  "mce_train m es' \<longleftrightarrow> fst m \<in> {RC_PROTO_MCIR2_KBD, RC_PROTO_MCIR2_MSE} \<and> canonical_scancode (fst m) (snd m) \<and>
     (\<exists>room es n. ir_mce_kbd_encode (fst m) (snd m) room = (es, Inr n) \<and> jittered mce_kbd_tol es es')"

lemma mce_header_bits:
  fixes sc :: u32
  shows "bit (ucast sc OR push_bit n (1 :: u64)) i \<longleftrightarrow> i < 64 \<and> (bit sc i \<or> i = n)"
  unfolding bit_or_iff bit_push_bit_iff bit_unsigned_iff bit_1_iff by (auto dest: bit_imp_le_length)

lemma msb_bits_cong: "(\<And>i. i < n \<Longrightarrow> bit d i = bit d' i) \<Longrightarrow> msb_bits n d = msb_bits n d'"
  by (simp add: msb_bits_def)

lemma msb_bits_4: "msb_bits 4 d = [bit d 3, bit d 2, bit d 1, bit d 0]"
  by (simp add: msb_bits_def upt_rec numeral_3_eq_3 numeral_2_eq_2)

lemma mce_split_bits:
  fixes raw :: u64 and sc :: u32
  assumes "raw = ucast sc OR push_bit h 1" "\<And>i. bit sc i \<Longrightarrow> i < n" "n \<le> h" "h < n + 4" "n + 4 < 64"
  shows "\<not> bit raw (4 + n)" "msb_bits 4 (drop_bit n raw) = [h = n + 3, h = n + 2, h = n + 1, h = n]" "msb_bits n raw = msb_bits n sc"
proof -
  have b: "bit raw i \<longleftrightarrow> i < 64 \<and> (bit sc i \<or> i = h)" for i unfolding assms(1) by (rule mce_header_bits)
  have c: "\<not> bit sc i" if "n \<le> i" for i using assms(2) [of i] that by auto
  show "\<not> bit raw (4 + n)" using b c assms(4) by simp
  show "msb_bits 4 (drop_bit n raw) = [h = n + 3, h = n + 2, h = n + 1, h = n]"
    using assms(5) by (auto simp: msb_bits_4 bit_drop_bit_eq b c)
  show "msb_bits n raw = msb_bits n sc" using assms(3,5) by (intro msb_bits_cong) (auto simp: b)
qed

lemma mce_keyboard_run:
  assumes "mce_kbd_ready d" "canonical_scancode RC_PROTO_MCIR2_KBD sc"
    "ir_mce_kbd_encode RC_PROTO_MCIR2_KBD sc room = (es, Inr n)" "jittered mce_kbd_tol es es'"
  shows "\<exists>d'. decode_run (ir_mce_kbd_decode nj mj t) d es' = (d', mce_calls nj mj t (RC_PROTO_MCIR2_KBD, sc)) \<and> mce_kbd_ready d'"
proof -
  define raw where "raw = (ucast sc OR push_bit 34 1 :: u64)"
  have i: "bit sc i \<Longrightarrow> i < 32" for i by (auto dest: bit_imp_le_length)
  note b = mce_split_bits [OF raw_def i]
  have "encode_result (ir_raw_gen_manchester ([], room) ir_mce_kbd_timings (Suc (4 + 32)) raw) = (es, Inr n)"
    using assms(3) by (simp add: ir_mce_kbd_encode_def mce_kbd_nbits MCIR2_KEYBOARD_HEADER_def raw_def)
  from mce_gen_events [OF this] b have es: "es = mce_events [False, True, False, False] (msb_bits 32 sc)" by simp
  have body: "shift_in 0 (msb_bits 32 sc) = sc" "sc AND 0xffffff = sc"
    by (rule u32_eqI, unfold upt_32,
        auto simp: bit_shift_in_msb bit_and_iff mask_word_bits dest: canonical_bit [OF assms(2)])+
  show ?thesis
    using assms(4) unfolding es
    by (rule mce_message_run [OF assms(1), of _ _ _ 32])
       (simp_all add: body mce_kbd_finished_def mce_calls_def mce_kbd_nbits Let_def)
qed

lemma mce_mouse_run:
  assumes "mce_kbd_ready d" "canonical_scancode RC_PROTO_MCIR2_MSE sc"
    "ir_mce_kbd_encode RC_PROTO_MCIR2_MSE sc room = (es, Inr n)" "jittered mce_kbd_tol es es'"
  shows "\<exists>d'. decode_run (ir_mce_kbd_decode nj mj t) d es' = (d', mce_calls nj mj t (RC_PROTO_MCIR2_MSE, sc)) \<and> mce_kbd_ready d'"
proof -
  define raw where "raw = (ucast sc OR push_bit 29 1 :: u64)"
  have i: "bit sc i \<Longrightarrow> i < 29" for i using canonical_bit [OF assms(2), of i, unfolded protocols_scancode_bits.simps mask_word_bits] by simp
  note b = mce_split_bits [OF raw_def i]
  have "encode_result (ir_raw_gen_manchester ([], room) ir_mce_kbd_timings (Suc (4 + 29)) raw) = (es, Inr n)"
    using assms(3) by (simp add: ir_mce_kbd_encode_def mce_kbd_nbits MCIR2_MOUSE_HEADER_def raw_def)
  from mce_gen_events [OF this] b have es: "es = mce_events [False, False, False, True] (msb_bits 29 sc)" by simp
  have body: "shift_in 0 (msb_bits 29 sc) = sc" "sc AND 0x1fffff = sc"
    by (rule u32_eqI, unfold upt_32,
        auto simp: bit_shift_in_msb bit_and_iff mask_word_bits dest: canonical_bit [OF assms(2)])+
  show ?thesis
    using assms(4) unfolding es
    by (rule mce_message_run [OF assms(1), of _ _ _ 29])
       (simp_all add: body mce_kbd_finished_def mce_calls_def mce_kbd_nbits Let_def)
qed

interpretation mce_channel: ir_channel "ir_mce_kbd_decode nj mj t" mce_kbd_ready mce_train "mce_calls nj mj t"
proof
  show "\<exists>d'. decode_run (ir_mce_kbd_decode nj mj t) d es = (d', mce_calls nj mj t m) \<and> mce_kbd_ready d'"
    if "mce_kbd_ready d" "mce_train m es" for d m es
    using that mce_keyboard_run [OF that(1), of "snd m"] mce_mouse_run [OF that(1), of "snd m"]
    by (cases m) (auto simp: mce_train_def)
qed

text \<open>
  A sequence of MCIR-2 keyboard and mouse messages sent with \<^verbatim>\<open>ir_mce_kbd_encode\<close>, each received
  with every duration off by less than half a unit, makes \<^verbatim>\<open>ir_mce_kbd_decode\<close> report exactly the keys, movements and
  scancodes of these messages, in order, and arm or stop the release timer for each keyboard message.
\<close>

theorem mce_kbd_stream_roundtrip:
  assumes "mce_kbd_ready d" "list_all2 mce_train msgs ess"
  shows "\<exists>d'. decode_run (ir_mce_kbd_decode nsecs_to_jiffies msecs_to_jiffies timeout) d (concat ess) =
    (d', concat (map (mce_calls nsecs_to_jiffies msecs_to_jiffies timeout) msgs)) \<and> mce_kbd_ready d'"
  by (rule mce_channel.stream_run [OF assms(2,1)])

section \<open>Keys that are down\<close>

fun keys_after :: "(string \<Rightarrow> bool) \<Rightarrow> rc_action list \<Rightarrow> string \<Rightarrow> bool" where
  "keys_after down [] = down"
| "keys_after down (Report_key k b # as) = keys_after (down(k := b)) as"
| "keys_after down (_ # as) = keys_after down as"

lemma keys_after_append: "keys_after down (as @ bs) = keys_after (keys_after down as) bs"
proof (induction as arbitrary: down)
  case (Cons a as)
  then show ?case by (cases a) (simp_all only: append_Cons keys_after.simps)
qed simp

lemma keys_after_release:
  "keys_after down (map (\<lambda>k. Report_key k False) ks) k \<longleftrightarrow> k \<notin> set ks \<and> down k"
  by (induction ks arbitrary: down) auto

lemma keys_after_pressed: "keys_after down as k \<Longrightarrow> down k \<or> Report_key k True \<in> set as"
proof (induction as arbitrary: down)
  case (Cons a as)
  then show ?case by (cases a) (fastforce split: if_splits)+
qed simp

definition mce_released :: "string list" where
  "mce_released = map mce_shift_key [0..<7] @ map (\<lambda>i. kbd_keycodes ! i) [0..<MCIR2_MASK_KEYS_START]"

lemma mce_timeout_released:
  "expired x \<Longrightarrow> keys_after down (mce_kbd_rx_timeout expired x) k \<longleftrightarrow> k \<notin> set mce_released \<and> down k"
proof -
  assume "expired x"
  then have "mce_kbd_rx_timeout expired x = map (\<lambda>k. Report_key k False) mce_released @ [Input_sync]"
    by (simp add: mce_kbd_rx_timeout_def mce_released_def)
  then show ?thesis by (simp add: keys_after_append keys_after_release)
qed

lemma mce_released_index: "i < 0xe7 \<Longrightarrow> kbd_keycodes ! i \<in> set mce_released"
proof (cases "i < MCIR2_MASK_KEYS_START")
  case False
  assume "i < 0xe7"
  with False have "kbd_keycodes ! i = mce_shift_key (i - MCIR2_MASK_KEYS_START)" "i - MCIR2_MASK_KEYS_START \<in> {0..<7}"
    by (auto simp: MCIR2_MASK_KEYS_START_def)
  then show ?thesis unfolding mce_released_def by (metis Un_iff image_eqI set_append set_map set_upt)
qed (auto simp: mce_released_def)

text \<open>
  A keyboard message whose key bytes name keys below 0xe7, received while no key is down, cannot
  leave a key stuck: when the release timer fires after its expiry, all keys are up.
\<close>

theorem mce_kbd_timeout_releases:
  assumes "drop_bit 8 scancode AND 0xff < 0xe7" "drop_bit 16 scancode AND 0xff < 0xe7" "time_is_before_eq_jiffies expires"
  shows "\<not> keys_after (\<lambda>_. False)
    (ir_mce_kbd_process_keyboard_data scancode @ mce_kbd_rx_timeout time_is_before_eq_jiffies expires) k"
proof -
  have u: "unat (ucast (x AND 0xff) :: u8) = unat (x AND 0xff)" for x :: u32
    unfolding mask_ff take_bit_eq_mask [symmetric] by (simp add: unsigned_ucast_eq unsigned_take_bit_eq)
  have "k \<in> set mce_released" if "Report_key k True \<in> set (ir_mce_kbd_process_keyboard_data scancode)"
    using that assms(1,2) mce_released_index
    by (auto simp: ir_mce_kbd_process_keyboard_data_def Let_def u word_less_nat_alt MCIR2_MASK_KEYS_START_def split: if_splits)
  then show ?thesis
    using assms(3) by (auto simp: keys_after_append mce_timeout_released dest: keys_after_pressed)
qed

theorem mce_kbd_timeout_releases_witness:
  "\<not> keys_after (\<lambda>_. False)
    (ir_mce_kbd_process_keyboard_data 0x0504ff @ mce_kbd_rx_timeout (\<lambda>e. e \<le> 1000) 900) ''KEY_A''"
  by (rule mce_kbd_timeout_releases) simp_all

text \<open>
  A key byte of 0xe7 (the right meta key) is reported as pressed, but neither the release timer nor the
  message that says that all keys are up reports it as released: the loops over the modifier keys stop
  one short of it. The key stays down.
\<close>

theorem mce_kbd_stuck_key:
  "keys_after (\<lambda>_. False)
    (ir_mce_kbd_process_keyboard_data 0xe700 @ ir_mce_kbd_process_keyboard_data 0 @
     mce_kbd_rx_timeout (\<lambda>_. True) expires) ''KEY_RIGHTMETA''"
proof -
  have k: "''KEY_RIGHTMETA'' \<notin> set mce_released"
    by (simp add: mce_released_def MCIR2_MASK_KEYS_START_def kbd_keycodes_def upt_rec)
  have 1: "ir_mce_kbd_process_keyboard_data 0xe700 = map (\<lambda>i. Report_key (mce_shift_key i) False) [0..<7] @
      [Report_key (kbd_keycodes ! 231) True]" "kbd_keycodes ! 231 = ''KEY_RIGHTMETA''"
    by (simp_all add: ir_mce_kbd_process_keyboard_data_def kbd_keycodes_def)
  have 2: "ir_mce_kbd_process_keyboard_data 0 = map (\<lambda>k. Report_key k False) mce_released"
    by (simp add: ir_mce_kbd_process_keyboard_data_def mce_released_def)
  show ?thesis
    unfolding 1 2 keys_after_append mce_timeout_released [of "\<lambda>_. True", simplified] keys_after_release using k by simp
qed

theorem mce_kbd_stream_roundtrip_witness:
  "\<exists>evs d'. decode_run (ir_mce_kbd_decode (\<lambda>n. n div 4000000) (\<lambda>m. ucast m div 4) 125000000)
       \<lparr>mce_kbd_st = MCIR2_STATE_INACTIVE, mce_kbd_header = 0, mce_kbd_body = 0, mce_kbd_count = 0, mce_kbd_wanted_bits = 0\<rparr>
       evs = (d', mce_calls (\<lambda>n. n div 4000000) (\<lambda>m. ucast m div 4) 125000000 (RC_PROTO_MCIR2_KBD, 0x0402) @
         mce_calls (\<lambda>n. n div 4000000) (\<lambda>m. ucast m div 4) 125000000 (RC_PROTO_MCIR2_MSE, 0x1fc0a0))"
proof -
  let ?d = "\<lparr>mce_kbd_st = MCIR2_STATE_INACTIVE, mce_kbd_header = 0, mce_kbd_body = 0, mce_kbd_count = 0, mce_kbd_wanted_bits = 0\<rparr>"
  let ?msgs = "[(RC_PROTO_MCIR2_KBD, 0x0402), (RC_PROTO_MCIR2_MSE, 0x1fc0a0)] :: (rc_proto \<times> u32) list"
  have "sends (ir_mce_kbd_encode RC_PROTO_MCIR2_KBD 0x0402 100) mce_kbd_tol"
    "sends (ir_mce_kbd_encode RC_PROTO_MCIR2_MSE 0x1fc0a0 100) mce_kbd_tol" by code_simp+
  then obtain es1 n1 es2 n2 where
    "ir_mce_kbd_encode RC_PROTO_MCIR2_KBD 0x0402 100 = (es1, Inr n1)" "jittered mce_kbd_tol es1 es1"
    "ir_mce_kbd_encode RC_PROTO_MCIR2_MSE 0x1fc0a0 100 = (es2, Inr n2)" "jittered mce_kbd_tol es2 es2"
    by (metis sendsE)
  moreover have "canonical_scancode RC_PROTO_MCIR2_KBD 0x0402" "canonical_scancode RC_PROTO_MCIR2_MSE 0x1fc0a0"
    by (simp_all add: canonical_scancode_def rc_validate_scancode_def)
  ultimately have "list_all2 mce_train ?msgs [es1, es2]" by (auto simp: mce_train_def)
  moreover have "mce_kbd_ready ?d" by (simp add: mce_kbd_ready_def)
  ultimately show ?thesis
    using mce_kbd_stream_roundtrip [of ?d ?msgs "[es1, es2]" "\<lambda>n. n div 4000000" "\<lambda>m. ucast m div 4" 125000000] by auto
qed

text \<open>
  The movement a mouse message reports is its seven data bits read as a two's complement
  number, between -64 and 63.
\<close>

theorem mce_mouse_rel_signed:
  "mce_mouse_rel (ucast (x AND 0x7f)) = signed_take_bit 6 (uint (x :: u32))"
proof -
  have all: "\<forall>n \<in> set [0..<128]. mce_mouse_rel (of_nat n) = signed_take_bit 6 (int n)" by code_simp
  define n where "n = unat (x AND 0x7f)"
  have m: "x AND 0x7f = take_bit 7 x" by (simp add: take_bit_eq_mask mask_numeral)
  have n: "int n = take_bit 7 (uint x)" "n < 128"
    by (simp_all add: n_def m unsigned_take_bit_eq flip: take_bit_of_nat) (use take_bit_nat_less_exp [of 7 "unat x"] in simp)
  have "ucast (x AND 0x7f) = (of_nat n :: u8)" by (simp add: n_def unsigned_def)
  moreover have "signed_take_bit 6 (uint x) = signed_take_bit 6 (take_bit 7 (uint x))"
    by (simp add: signed_take_bit_take_bit)
  ultimately show ?thesis using all n by (simp del: signed_take_bit_take_bit)
qed

end
