(* ===== verification/Rc_Raw.thy ===== *)
theory Rc_Raw
  imports Rc_Proto
begin

text \<open>
  The way of raw events from a driver to the protocol handlers, \<^verbatim>\<open>rc/rc-ir-raw.c\<close>: the queue of events and the functions that store into it,
  the thread that empties it, the registry of handlers and the change of protocols.

  Time is a parameter of the calls that read it: the monotonic clock in nanoseconds (\<open>ktime\<close>) and the jiffies. What the code calls of the hardware
  acts on a state of any type.
\<close>

section \<open>State\<close>

definition MAX_IR_EVENT_SIZE :: nat where "MAX_IR_EVENT_SIZE = 512"
definition IR_DEFAULT_TIMEOUT :: u32 where "IR_DEFAULT_TIMEOUT = 125 * 1000 * 1000"

text \<open>The event \<^verbatim>\<open>(struct ir_raw_event) {}\<close>.\<close>

definition no_event :: ir_raw_event where
  "no_event = \<lparr>duration = 0, duty_cycle = 0, pulse = False, ev_reset = False, ev_timeout = False, carrier_report = False\<rparr>"

record ir_raw_event_ctrl =
  kfifo :: "ir_raw_event list"
  last_event :: int
  edge_handle :: "u64 option"
  prev_ev :: ir_raw_event
  this_ev :: ir_raw_event
  thread :: bool

record raw_dev =
  raw :: "ir_raw_event_ctrl option"
  idle :: bool
  timeout :: u32
  min_timeout :: u32
  max_timeout :: u32
  enabled_protocols :: u64

text \<open>The optional functions of a driver, and the time functions of the kernel.\<close>

record 'h raw_driver =
  s_idle :: "(bool \<Rightarrow> 'h \<Rightarrow> 'h) option"
  s_timeout :: "(u32 \<Rightarrow> 'h \<Rightarrow> 'h) option"

record raw_time =
  raw_msecs_to_jiffies :: "nat \<Rightarrow> u64"
  raw_nsecs_to_jiffies :: "u64 \<Rightarrow> u64"
  time_after :: "u64 \<Rightarrow> u64 \<Rightarrow> bool"

section \<open>Storing events\<close>

definition ir_raw_event_store :: "raw_dev \<Rightarrow> ir_raw_event \<Rightarrow> raw_dev \<times> unit result" where
  "ir_raw_event_store dev ev =
     (case raw dev of
        None \<Rightarrow> (dev, Inl EINVAL)
      | Some r \<Rightarrow>
          if length (kfifo r) \<ge> MAX_IR_EVENT_SIZE then (dev, Inl ENOSPC)
          else (dev\<lparr>raw := Some (r\<lparr>kfifo := kfifo r @ [ev]\<rparr>)\<rparr>, Inr ()))"

definition ir_raw_event_set_idle :: "'h raw_driver \<Rightarrow> raw_dev \<Rightarrow> 'h \<Rightarrow> bool \<Rightarrow> raw_dev \<times> 'h" where
  "ir_raw_event_set_idle drv dev h idl =
     (case raw dev of
        None \<Rightarrow> (dev, h)
      | Some r \<Rightarrow>
          let dev =
            (if idl then
               let ev = (this_ev r)\<lparr>ev_timeout := True\<rparr>;
                   dev = fst (ir_raw_event_store (dev\<lparr>raw := Some (r\<lparr>this_ev := ev\<rparr>)\<rparr>) ev)
               in dev\<lparr>raw := map_option (\<lambda>r. r\<lparr>this_ev := no_event\<rparr>) (raw dev)\<rparr>
             else dev);
              h = (case s_idle drv of None \<Rightarrow> h | Some f \<Rightarrow> f idl h)
          in (dev\<lparr>idle := idl\<rparr>, h))"

text \<open>The result is whether the event was used.\<close>

definition ir_raw_event_store_with_filter :: "'h raw_driver \<Rightarrow> raw_dev \<Rightarrow> 'h \<Rightarrow> ir_raw_event \<Rightarrow> raw_dev \<times> 'h \<times> bool result" where
  "ir_raw_event_store_with_filter drv dev h ev =
     (case raw dev of
        None \<Rightarrow> (dev, h, Inl EINVAL)
      | Some r \<Rightarrow>
          if idle dev \<and> \<not> pulse ev then (dev, h, Inr False)
          else
            let (dev, h) = (if idle dev then ir_raw_event_set_idle drv dev h False else (dev, h));
                dev =
                  (if duration (this_ev r) = 0 then dev\<lparr>raw := Some (r\<lparr>this_ev := ev\<rparr>)\<rparr>
                   else if pulse ev = pulse (this_ev r) then
                     dev\<lparr>raw := Some (r\<lparr>this_ev := (this_ev r)\<lparr>duration := duration (this_ev r) + duration ev\<rparr>\<rparr>)\<rparr>
                   else
                     let dev = fst (ir_raw_event_store dev (this_ev r))
                     in dev\<lparr>raw := map_option (\<lambda>r. r\<lparr>this_ev := ev\<rparr>) (raw dev)\<rparr>);
                (dev, h) =
                  (case raw dev of
                     Some r \<Rightarrow>
                       if \<not> pulse ev \<and> timeout dev \<noteq> 0 \<and> duration (this_ev r) \<ge> timeout dev
                       then ir_raw_event_set_idle drv dev h True else (dev, h)
                   | None \<Rightarrow> (dev, h))
            in (dev, h, Inr True))"

definition ir_raw_event_store_with_timeout :: "raw_time \<Rightarrow> int \<Rightarrow> u64 \<Rightarrow> raw_dev \<Rightarrow> ir_raw_event \<Rightarrow> raw_dev \<times> unit result" where
  "ir_raw_event_store_with_timeout cv now jiffies dev ev =
     (case raw dev of
        None \<Rightarrow> (dev, Inl EINVAL)
      | Some _ \<Rightarrow>
          let (dev, rc) = ir_raw_event_store dev ev;
              soon = jiffies + raw_msecs_to_jiffies cv 15;
              arm = (\<lambda>r. case edge_handle r of None \<Rightarrow> True | Some expires \<Rightarrow> time_after cv expires soon);
              dev = dev\<lparr>raw := map_option (\<lambda>r. (if arm r then r\<lparr>edge_handle := Some soon\<rparr> else r)\<lparr>last_event := now\<rparr>) (raw dev)\<rparr>
          in (dev, rc))"

text \<open>The time since the last edge, of 64 bits, is stored in the 32 bits of a duration.\<close>

definition ir_raw_event_store_edge :: "raw_time \<Rightarrow> int \<Rightarrow> int \<Rightarrow> u64 \<Rightarrow> raw_dev \<Rightarrow> bool \<Rightarrow> raw_dev \<times> unit result" where
  "ir_raw_event_store_edge cv now now2 jiffies dev p =
     (case raw dev of
        None \<Rightarrow> (dev, Inl EINVAL)
      | Some r \<Rightarrow>
          let ev = no_event\<lparr>duration := word_of_int (now - last_event r), pulse := \<not> p\<rparr>
          in ir_raw_event_store_with_timeout cv now2 jiffies dev ev)"

text \<open>Waking up the thread: whether there is one.\<close>

definition ir_raw_event_handle :: "raw_dev \<Rightarrow> bool" where
  "ir_raw_event_handle dev = (case raw dev of None \<Rightarrow> False | Some r \<Rightarrow> thread r)"

text \<open>The timer, which has expired when it is called.\<close>

definition ir_raw_edge_handle :: "raw_time \<Rightarrow> int \<Rightarrow> u64 \<Rightarrow> raw_dev \<Rightarrow> raw_dev \<times> bool" where
  "ir_raw_edge_handle cv now jiffies dev =
     (case raw dev of
        None \<Rightarrow> (dev, False)
      | Some r \<Rightarrow>
          let dev = dev\<lparr>raw := Some (r\<lparr>edge_handle := None\<rparr>)\<rparr>;
              interval = now - last_event r;
              dev =
                (if interval \<ge> uint (timeout dev) then
                   fst (ir_raw_event_store dev (no_event\<lparr>ev_timeout := True, duration := word_of_int interval\<rparr>))
                 else
                   dev\<lparr>raw := map_option (\<lambda>r. r\<lparr>edge_handle := Some (jiffies + raw_nsecs_to_jiffies cv (word_of_int (uint (timeout dev) - interval)))\<rparr>) (raw dev)\<rparr>)
          in (dev, ir_raw_event_handle dev))"

section \<open>Making and freeing the queue\<close>

definition ir_raw_event_prepare :: "bool \<Rightarrow> raw_dev \<Rightarrow> raw_dev \<times> unit result" where
  "ir_raw_event_prepare alloc dev =
     (if \<not> alloc then (dev\<lparr>raw := None\<rparr>, Inl ENOMEM)
      else (dev\<lparr>raw := Some \<lparr>kfifo = [], last_event = 0, edge_handle = None, prev_ev = no_event, this_ev = no_event, thread = False\<rparr>,
                idle := True\<rparr>, Inr ()))"

definition ir_raw_event_free :: "raw_dev \<Rightarrow> raw_dev" where
  "ir_raw_event_free dev = dev\<lparr>raw := None\<rparr>"

section \<open>The filter joins what the hardware has cut\<close>

text \<open>
  A driver reports a level in samples; a group is the samples of one pulse or space. The groups of a message alternate, beginning with
  a pulse.
\<close>

type_synonym group = "bool \<times> u32 list"

definition samples :: "group \<Rightarrow> ir_raw_event list" where
  "samples g = map (init_ir_raw_event_duration (fst g)) (snd g)"

definition span_of :: "u32 list \<Rightarrow> nat" where
  "span_of ss = sum_list (map unat ss)"

definition joined :: "group \<Rightarrow> ir_raw_event" where
  "joined g = init_ir_raw_event_duration (fst g) (of_nat (span_of (snd g)))"

text \<open>No sample is empty, and the sum of a group fits into a duration.\<close>

definition proper :: "group \<Rightarrow> bool" where
  "proper g \<longleftrightarrow> snd g \<noteq> [] \<and> (\<forall>s \<in> set (snd g). s \<noteq> 0) \<and> span_of (snd g) < 2 ^ 32"

fun alternating :: "bool \<Rightarrow> group list \<Rightarrow> bool" where
  "alternating p [] = True"
| "alternating p (g # gs) = (fst g = p \<and> proper g \<and> alternating (\<not> p) gs)"

text \<open>The samples of a driver, one after the other.\<close>

fun store_filtered :: "'h raw_driver \<Rightarrow> raw_dev \<Rightarrow> 'h \<Rightarrow> ir_raw_event list \<Rightarrow> raw_dev \<times> 'h" where
  "store_filtered drv dev h [] = (dev, h)"
| "store_filtered drv dev h (ev # evs) =
     (let (dev, h, _) = ir_raw_event_store_with_filter drv dev h ev in store_filtered drv dev h evs)"

lemma store_filtered_append:
  "store_filtered drv dev h (xs @ ys) = (let (dev, h) = store_filtered drv dev h xs in store_filtered drv dev h ys)"
  by (induction xs arbitrary: dev h) (simp_all split: prod.split)

text \<open>The device while it receives: \<open>stored\<close> is in the queue, \<open>p\<close> and \<open>n\<close> are the level and duration that grow.\<close>

definition receiving :: "raw_dev \<Rightarrow> u32 \<Rightarrow> ir_raw_event list \<Rightarrow> bool \<Rightarrow> nat \<Rightarrow> bool" where
  "receiving dev tmo stored p n \<longleftrightarrow> \<not> idle dev \<and> timeout dev = tmo \<and> 0 < n \<and> n < 2 ^ 32 \<and>
     (\<exists>r. raw dev = Some r \<and> kfifo r = stored \<and> this_ev r = init_ir_raw_event_duration p (of_nat n))"

definition waiting :: "raw_dev \<Rightarrow> u32 \<Rightarrow> ir_raw_event list \<Rightarrow> bool" where
  "waiting dev tmo stored \<longleftrightarrow> idle dev \<and> timeout dev = tmo \<and> (\<exists>r. raw dev = Some r \<and> kfifo r = stored \<and> this_ev r = no_event)"

lemma init_duration: "0 < n \<Longrightarrow> n < 2 ^ 32 \<Longrightarrow> duration (init_ir_raw_event_duration p (of_nat n)) \<noteq> 0"
  by (simp add: unat_of_nat word_unat_eq_iff)

lemma init_record:
  "init_ir_raw_event_duration p d = no_event\<lparr>duration := d, pulse := p\<rparr>"
  by (simp add: init_ir_raw_event_duration_def no_event_def)

lemma below_timeout: "n < unat (tmo :: u32) \<Longrightarrow> \<not> tmo \<le> of_nat n"
  using unsigned_less [of tmo] by (simp add: word_le_nat_alt unat_of_nat)

text \<open>A sample of the level that grows.\<close>

lemma filter_same:
  assumes "receiving dev tmo stored p n" "n + unat s < 2 ^ 32" "p \<or> n + unat s < unat tmo"
  shows "\<exists>dev' h'. ir_raw_event_store_with_filter drv dev h (init_ir_raw_event_duration p s) = (dev', h', Inr True) \<and>
    receiving dev' tmo stored p (n + unat s)"
proof -
  have sum: "(of_nat n :: u32) + s = of_nat (n + unat s)" by simp
  have nz: "(of_nat n :: u32) \<noteq> 0" using assms(1) by (simp add: receiving_def unat_of_nat word_unat_eq_iff)
  show ?thesis
    using assms nz below_timeout [of "n + unat s" tmo]
    by (auto simp: ir_raw_event_store_with_filter_def receiving_def Let_def init_record sum simp del: of_nat_add)
qed

text \<open>The first sample of the other level.\<close>

lemma filter_flip:
  assumes "receiving dev tmo stored (\<not> p) n" "length stored < MAX_IR_EVENT_SIZE" "s \<noteq> 0" "p \<or> unat s < unat tmo"
  shows "\<exists>dev' h'. ir_raw_event_store_with_filter drv dev h (init_ir_raw_event_duration p s) = (dev', h', Inr True) \<and>
    receiving dev' tmo (stored @ [init_ir_raw_event_duration (\<not> p) (of_nat n)]) p (unat s)"
proof -
  have nz: "(of_nat n :: u32) \<noteq> 0" using assms(1) by (simp add: receiving_def unat_of_nat word_unat_eq_iff)
  have s: "0 < unat s" "unat s < 2 ^ 32" using assms(3) unsigned_less [of s] by (simp_all add: word_unat_eq_iff)
  show ?thesis
    using assms nz below_timeout [of "unat s" tmo] s
    by (auto simp: ir_raw_event_store_with_filter_def ir_raw_event_store_def receiving_def Let_def init_record)
qed

text \<open>The first sample at all, a pulse.\<close>

lemma filter_first:
  assumes "waiting dev tmo stored" "s \<noteq> 0"
  shows "\<exists>dev' h'. ir_raw_event_store_with_filter drv dev h (init_ir_raw_event_duration True s) = (dev', h', Inr True) \<and>
    receiving dev' tmo stored True (unat s)"
proof -
  have s: "0 < unat s" "unat s < 2 ^ 32" using assms(2) unsigned_less [of s] by (simp_all add: word_unat_eq_iff)
  show ?thesis
    using assms s
    by (auto simp: ir_raw_event_store_with_filter_def ir_raw_event_set_idle_def receiving_def waiting_def Let_def init_record no_event_def)
qed

text \<open>The samples of a group after its first.\<close>

lemma filter_rest:
  assumes "receiving dev tmo stored p n" "n + span_of ss < 2 ^ 32" "p \<or> n + span_of ss < unat tmo"
  shows "\<exists>dev' h'. store_filtered drv dev h (samples (p, ss)) = (dev', h') \<and> receiving dev' tmo stored p (n + span_of ss)"
  using assms
proof (induction ss arbitrary: dev h n)
  case Nil
  then show ?case by (simp add: samples_def span_of_def)
next
  case (Cons s ss)
  have le: "n + unat s < 2 ^ 32" "p \<or> n + unat s < unat tmo" using Cons.prems(2,3) by (auto simp: span_of_def)
  obtain dev1 h1 where d1: "ir_raw_event_store_with_filter drv dev h (init_ir_raw_event_duration p s) = (dev1, h1, Inr True)"
    "receiving dev1 tmo stored p (n + unat s)"
    using filter_same [OF Cons.prems(1) le, of drv h] by blast
  have "n + unat s + span_of ss = n + span_of (s # ss)" by (simp add: span_of_def)
  with Cons.IH [OF d1(2)] Cons.prems(2,3) d1(1) show ?case by (simp add: samples_def)
qed

lemma filter_group:
  assumes "receiving dev tmo stored (\<not> p) n" "length stored < MAX_IR_EVENT_SIZE" "proper (p, ss)" "p \<or> span_of ss < unat tmo"
  shows "\<exists>dev' h'. store_filtered drv dev h (samples (p, ss)) = (dev', h') \<and>
    receiving dev' tmo (stored @ [init_ir_raw_event_duration (\<not> p) (of_nat n)]) p (span_of ss)"
proof -
  obtain s ss' where ss: "ss = s # ss'" using assms(3) by (cases ss) (auto simp: proper_def)
  have s: "s \<noteq> 0" "unat s + span_of ss' < 2 ^ 32" "p \<or> unat s + span_of ss' < unat tmo" "span_of ss = unat s + span_of ss'"
    using assms(3,4) by (auto simp: proper_def ss span_of_def)
  obtain dev1 h1 where d1: "ir_raw_event_store_with_filter drv dev h (init_ir_raw_event_duration p s) = (dev1, h1, Inr True)"
    "receiving dev1 tmo (stored @ [init_ir_raw_event_duration (\<not> p) (of_nat n)]) p (unat s)"
    using filter_flip [OF assms(1,2) s(1), of drv h] s(3) by auto
  from filter_rest [OF d1(2) s(2,3), of drv h1] d1(1) show ?thesis by (simp add: ss samples_def s(4) [unfolded ss])
qed

lemma filter_groups:
  assumes "receiving dev tmo stored (\<not> p) n" "alternating p gs" "length stored + length gs \<le> MAX_IR_EVENT_SIZE"
    and "\<forall>g \<in> set gs. fst g \<or> span_of (snd g) < unat tmo"
  shows "\<exists>dev' h'. store_filtered drv dev h (concat (map samples gs)) = (dev', h') \<and>
    receiving dev' tmo (butlast (stored @ init_ir_raw_event_duration (\<not> p) (of_nat n) # map joined gs))
      (pulse (last (init_ir_raw_event_duration (\<not> p) (of_nat n) # map joined gs)))
      (unat (duration (last (init_ir_raw_event_duration (\<not> p) (of_nat n) # map joined gs))))"
  using assms
proof (induction gs arbitrary: dev h stored p n)
  case Nil
  then have "n < 2 ^ 32" by (simp add: receiving_def)
  with Nil show ?case by (simp add: unat_of_nat)
next
  case (Cons g gs)
  obtain ss where g: "g = (p, ss)" using Cons.prems(2) by (cases g) simp
  have ss: "proper (p, ss)" "p \<or> span_of ss < unat tmo" "alternating (\<not> p) gs" using Cons.prems(2,4) by (auto simp: g)
  obtain dev1 h1 where d1: "store_filtered drv dev h (samples (p, ss)) = (dev1, h1)"
    "receiving dev1 tmo (stored @ [init_ir_raw_event_duration (\<not> p) (of_nat n)]) p (span_of ss)"
    using filter_group [OF Cons.prems(1) _ ss(1,2), of drv h] Cons.prems(3) by auto
  have "joined g = init_ir_raw_event_duration p (of_nat (span_of ss))" by (simp add: joined_def g)
  with Cons.IH [of dev1 "stored @ [init_ir_raw_event_duration (\<not> p) (of_nat n)]" "\<not> p" "span_of ss" h1] d1 ss(3) Cons.prems(3,4)
  show ?case by (simp add: g store_filtered_append)
qed

text \<open>The space that reaches the timeout ends the message; what follows of it is ignored.\<close>

definition timeout_event :: "nat \<Rightarrow> ir_raw_event" where
  "timeout_event n = (init_ir_raw_event_duration False (of_nat n))\<lparr>ev_timeout := True\<rparr>"

lemma above_timeout: "n < 2 ^ 32 \<Longrightarrow> unat (tmo :: u32) \<le> n \<Longrightarrow> tmo \<le> of_nat n"
  by (simp add: word_le_nat_alt unat_of_nat)

lemma filter_end:
  assumes "receiving dev tmo stored False n" "n + unat s < 2 ^ 32" "unat tmo \<le> n + unat s" "tmo \<noteq> 0" "length stored < MAX_IR_EVENT_SIZE"
  shows "\<exists>dev' h'. ir_raw_event_store_with_filter drv dev h (init_ir_raw_event_duration False s) = (dev', h', Inr True) \<and>
    waiting dev' tmo (stored @ [timeout_event (n + unat s)])"
proof -
  have sum: "(of_nat n :: u32) + s = of_nat (n + unat s)" by simp
  have nz: "(of_nat n :: u32) \<noteq> 0" using assms(1) by (simp add: receiving_def unat_of_nat word_unat_eq_iff)
  show ?thesis
    using assms nz above_timeout [OF assms(2,3)]
    by (auto simp: ir_raw_event_store_with_filter_def ir_raw_event_set_idle_def ir_raw_event_store_def receiving_def waiting_def Let_def init_record sum
        timeout_event_def simp del: of_nat_add)
qed

lemma filter_flip_end:
  assumes "receiving dev tmo stored True n" "length stored + 1 < MAX_IR_EVENT_SIZE" "unat tmo \<le> unat s" "tmo \<noteq> 0"
  shows "\<exists>dev' h'. ir_raw_event_store_with_filter drv dev h (init_ir_raw_event_duration False s) = (dev', h', Inr True) \<and>
    waiting dev' tmo (stored @ [init_ir_raw_event_duration True (of_nat n), timeout_event (unat s)])"
proof -
  have nz: "(of_nat n :: u32) \<noteq> 0" using assms(1) by (simp add: receiving_def unat_of_nat word_unat_eq_iff)
  show ?thesis
    using assms nz above_timeout [of "unat s" tmo] unsigned_less [of s]
    by (auto simp: ir_raw_event_store_with_filter_def ir_raw_event_set_idle_def ir_raw_event_store_def receiving_def waiting_def Let_def init_record
        timeout_event_def)
qed

lemma waiting_ignores: "waiting dev tmo stored \<Longrightarrow> store_filtered drv dev h (samples (False, ss)) = (dev, h)"
  by (induction ss) (auto simp: samples_def waiting_def ir_raw_event_store_with_filter_def)

lemma filter_quiet_rest:
  assumes "receiving dev tmo stored False n" "n < unat tmo" "n + span_of ss < 2 ^ 32" "unat tmo \<le> n + span_of ss" "length stored < MAX_IR_EVENT_SIZE"
  shows "\<exists>dev' h' m. store_filtered drv dev h (samples (False, ss)) = (dev', h') \<and> waiting dev' tmo (stored @ [timeout_event m]) \<and>
    unat tmo \<le> m \<and> m \<le> n + span_of ss"
  using assms
proof (induction ss arbitrary: dev h n)
  case Nil
  then show ?case by (simp add: span_of_def)
next
  case (Cons s ss)
  have sum: "n + span_of (s # ss) = n + unat s + span_of ss" by (simp add: span_of_def)
  show ?case
  proof (cases "n + unat s < unat tmo")
    case True
    obtain dev1 h1 where d1: "ir_raw_event_store_with_filter drv dev h (init_ir_raw_event_duration False s) = (dev1, h1, Inr True)"
      "receiving dev1 tmo stored False (n + unat s)"
      using filter_same [OF Cons.prems(1), of s drv h] True Cons.prems(3) sum by auto
    have "n + unat s + span_of ss < 2 ^ 32" "unat tmo \<le> n + unat s + span_of ss" using Cons.prems(3,4) sum by simp_all
    from Cons.IH [OF d1(2) True this Cons.prems(5), of h1] d1(1) sum show ?thesis by (simp add: samples_def add.assoc)
  next
    case False
    have "tmo \<noteq> 0" using Cons.prems(2) by auto
    then obtain dev1 h1 where d1: "ir_raw_event_store_with_filter drv dev h (init_ir_raw_event_duration False s) = (dev1, h1, Inr True)"
      "waiting dev1 tmo (stored @ [timeout_event (n + unat s)])"
      using filter_end [OF Cons.prems(1), of s drv h] False Cons.prems(3,5) sum by auto
    have "store_filtered drv dev h (samples (False, s # ss)) = (dev1, h1)"
      using d1(1) waiting_ignores [OF d1(2), of drv h1 ss] by (simp add: samples_def)
    with d1(2) False sum show ?thesis by (intro exI [of _ dev1] exI [of _ h1] exI [of _ "n + unat s"]) simp
  qed
qed

lemma filter_quiet:
  assumes "receiving dev tmo stored True n" "length stored + 1 < MAX_IR_EVENT_SIZE" "proper (False, ss)" "tmo \<noteq> 0" "unat tmo \<le> span_of ss"
  shows "\<exists>dev' h' m. store_filtered drv dev h (samples (False, ss)) = (dev', h') \<and>
    waiting dev' tmo (stored @ [init_ir_raw_event_duration True (of_nat n), timeout_event m]) \<and> unat tmo \<le> m \<and> m \<le> span_of ss"
proof -
  obtain s ss' where ss: "ss = s # ss'" using assms(3) by (cases ss) (auto simp: proper_def)
  have sum: "span_of ss = unat s + span_of ss'" "s \<noteq> 0" "span_of ss < 2 ^ 32" using assms(3) by (auto simp: ss span_of_def proper_def)
  show ?thesis
  proof (cases "unat s < unat tmo")
    case True
    obtain dev1 h1 where d1: "ir_raw_event_store_with_filter drv dev h (init_ir_raw_event_duration False s) = (dev1, h1, Inr True)"
      "receiving dev1 tmo (stored @ [init_ir_raw_event_duration True (of_nat n)]) False (unat s)"
      using filter_flip [of dev tmo stored False n s drv h] assms(1,2) sum(2) True by auto
    from filter_quiet_rest [OF d1(2) True, of ss' drv h1] d1(1) assms(2,5) sum show ?thesis by (simp add: ss samples_def)
  next
    case False
    then obtain dev1 h1 where d1: "ir_raw_event_store_with_filter drv dev h (init_ir_raw_event_duration False s) = (dev1, h1, Inr True)"
      "waiting dev1 tmo (stored @ [init_ir_raw_event_duration True (of_nat n), timeout_event (unat s)])"
      using filter_flip_end [OF assms(1,2) _ assms(4), of s drv h] by auto
    have "store_filtered drv dev h (samples (False, ss)) = (dev1, h1)"
      using d1(1) waiting_ignores [OF d1(2), of drv h1 ss'] by (simp add: ss samples_def)
    with d1(2) False sum(1) show ?thesis by (intro exI [of _ dev1] exI [of _ h1] exI [of _ "unat s"]) simp
  qed
qed

lemma filter_joins:
  assumes "waiting dev tmo stored" "tmo \<noteq> 0" "gs \<noteq> []" "alternating True gs" "fst (last gs)"
    and "\<forall>g \<in> set gs. fst g \<or> span_of (snd g) < unat tmo" "proper (False, quiet)" "unat tmo \<le> span_of quiet"
    and "length stored + length gs < MAX_IR_EVENT_SIZE"
  shows "\<exists>dev' h' m. store_filtered drv dev h (concat (map samples gs) @ samples (False, quiet)) = (dev', h') \<and>
    waiting dev' tmo (stored @ map joined gs @ [timeout_event m]) \<and> unat tmo \<le> m \<and> m \<le> span_of quiet"
proof -
  obtain g gs' where gs: "gs = g # gs'" using assms(3) by (cases gs) auto
  obtain ss where g: "g = (True, ss)" using assms(4) by (cases g) (simp add: gs)
  have ok: "proper (True, ss)" "alternating False gs'" using assms(4) by (simp_all add: gs g)
  then obtain s ss' where ss: "ss = s # ss'" by (cases ss) (auto simp: proper_def)
  have s: "s \<noteq> 0" "span_of ss = unat s + span_of ss'" "span_of ss < 2 ^ 32" using ok(1) by (auto simp: ss proper_def span_of_def)
  obtain dev1 h1 where d1: "ir_raw_event_store_with_filter drv dev h (init_ir_raw_event_duration True s) = (dev1, h1, Inr True)"
    "receiving dev1 tmo stored True (unat s)"
    using filter_first [OF assms(1) s(1), of drv h] by blast
  obtain dev2 h2 where d2: "store_filtered drv dev1 h1 (samples (True, ss')) = (dev2, h2)" "receiving dev2 tmo stored True (span_of ss)"
    using filter_rest [OF d1(2), of ss' drv h1] s(2,3) by auto
  have first: "store_filtered drv dev h (samples (True, ss)) = (dev2, h2)" using d1(1) d2(1) by (simp add: ss samples_def)
  obtain dev3 h3 where d3: "store_filtered drv dev2 h2 (concat (map samples gs')) = (dev3, h3)"
    "receiving dev3 tmo (butlast (stored @ map joined gs)) (pulse (last (map joined gs))) (unat (duration (last (map joined gs))))"
    using filter_groups [of dev2 tmo stored False "span_of ss" gs' drv h2] d2(2) ok(2) assms(6,9) by (auto simp: gs g joined_def)
  have split: "map joined gs = butlast (map joined gs) @ [last (map joined gs)]" using assms(3) by (intro append_butlast_last_id [symmetric]) simp
  have last: "pulse (last (map joined gs))"
    "last (map joined gs) = init_ir_raw_event_duration True (of_nat (unat (duration (last (map joined gs)))))"
    using assms(3,5) by (simp_all add: last_map joined_def)
  have "butlast (stored @ map joined gs) = stored @ butlast (map joined gs)" using assms(3) by (simp add: butlast_append)
  with d3(2) last(1) have "receiving dev3 tmo (stored @ butlast (map joined gs)) True (unat (duration (last (map joined gs))))" by simp
  moreover have "length (stored @ butlast (map joined gs)) + 1 < MAX_IR_EVENT_SIZE" using assms(9) by (simp add: gs)
  ultimately obtain dev4 h4 m where d4:
    "store_filtered drv dev3 h3 (samples (False, quiet)) = (dev4, h4)"
    "waiting dev4 tmo ((stored @ butlast (map joined gs)) @ [init_ir_raw_event_duration True (of_nat (unat (duration (last (map joined gs))))), timeout_event m])"
    "unat tmo \<le> m" "m \<le> span_of quiet" using filter_quiet [OF _ _ assms(7,2,8), of dev3 _ _ drv h3] by blast
  have "stored @ map joined gs @ [timeout_event m] =
      (stored @ butlast (map joined gs)) @ [init_ir_raw_event_duration True (of_nat (unat (duration (last (map joined gs))))), timeout_event m]"
    by (subst split, subst last(2) [symmetric]) simp
  with first d3(1) d4 show ?thesis by (auto simp: gs g store_filtered_append)
qed

text \<open>
  C18: A message is stored as it was sent, however the hardware cuts it. A device that waits gets the samples of a message: groups of pulses and spaces
  in turn, from a pulse to a pulse, each in any number of samples, the spaces shorter than the timeout; then the samples of a space that reaches the
  timeout. The queue gets one event for each group, with the sum of its samples, then one space that is marked as a timeout and is at least that long;
  and the device waits again.
\<close>

theorem filter_joins_samples:
  assumes "waiting dev tmo stored" "tmo \<noteq> 0" "gs \<noteq> []" "alternating True gs" "fst (last gs)"
    and "\<forall>g \<in> set gs. fst g \<or> span_of (snd g) < unat tmo" "proper (False, quiet)" "unat tmo \<le> span_of quiet"
    and "length stored + length gs < MAX_IR_EVENT_SIZE"
  shows "\<exists>dev' h' m. store_filtered drv dev h (concat (map samples gs) @ samples (False, quiet)) = (dev', h') \<and>
    waiting dev' tmo (stored @ map joined gs @ [timeout_event m]) \<and> unat tmo \<le> m \<and> m \<le> span_of quiet"
  by (rule filter_joins [OF assms])

section \<open>Edges\<close>

text \<open>
  A pause of more than about 4.3 seconds between two edges is stored with its length modulo \<open>2 ^ 32\<close> nanoseconds: after a pause of \<open>2 ^ 32 + n\<close>
  nanoseconds the decoders see a space of \<open>n\<close>, as if the next pulse belonged to the message before.
\<close>

theorem store_edge_wraps:
  assumes "raw dev = Some r" "now - last_event r = 2 ^ 32 + int n" "n < 2 ^ 32" "length (kfifo r) < MAX_IR_EVENT_SIZE"
  shows "\<exists>dev' r'. ir_raw_event_store_edge cv now now2 jiffies dev True = (dev', Inr ()) \<and> raw dev' = Some r' \<and>
    kfifo r' = kfifo r @ [init_ir_raw_event_duration False (of_nat n)]"
proof -
  have "(word_of_int (now - last_event r) :: u32) = word_of_int (int n)"
    using assms(2) by (simp add: word_of_int_eq_iff take_bit_eq_mod)
  then have "(word_of_int (now - last_event r) :: u32) = of_nat n" by simp
  with assms(1,4) show ?thesis
    by (simp add: ir_raw_event_store_edge_def ir_raw_event_store_with_timeout_def ir_raw_event_store_def Let_def init_record)
qed

section \<open>Concrete devices\<close>

definition example_ctrl :: ir_raw_event_ctrl where
  "example_ctrl = \<lparr>kfifo = [], last_event = 0, edge_handle = None, prev_ev = no_event, this_ev = no_event, thread = True\<rparr>"

definition example_raw :: raw_dev where
  "example_raw = \<lparr>raw = Some example_ctrl, idle = True, timeout = 100, min_timeout = 0, max_timeout = 0, enabled_protocols = 0\<rparr>"

definition example_message :: "group list" where
  "example_message = [(True, [3, 4]), (False, [5]), (True, [6, 1, 2])]"

theorem filter_joins_samples_witness:
  "\<exists>dev' h' m. store_filtered \<lparr>s_idle = None, s_timeout = None\<rparr> example_raw ()
     (concat (map samples example_message) @ samples (False, [60, 60])) = (dev', h') \<and>
   waiting dev' 100 (map joined example_message @ [timeout_event m]) \<and> 100 \<le> m \<and> m \<le> 120"
proof -
  have "waiting example_raw 100 []" by (simp add: waiting_def example_raw_def example_ctrl_def)
  moreover have "alternating True example_message" "\<forall>g \<in> set example_message. fst g \<or> span_of (snd g) < unat (100 :: u32)"
    by (simp_all add: example_message_def proper_def span_of_def)
  moreover have "proper (False, [60, 60])" by (simp add: proper_def span_of_def)
  moreover have "length ([] :: ir_raw_event list) + length example_message < MAX_IR_EVENT_SIZE"
    by (simp add: example_message_def MAX_IR_EVENT_SIZE_def)
  ultimately show ?thesis
    using filter_joins_samples [of example_raw 100 "[]" example_message "[60, 60]" "\<lparr>s_idle = None, s_timeout = None\<rparr>" "()"]
    by (simp add: example_message_def span_of_def)
qed

theorem store_edge_wraps_witness:
  "\<exists>dev' r'. ir_raw_event_store_edge \<lparr>raw_msecs_to_jiffies = of_nat, raw_nsecs_to_jiffies = id, time_after = (>)\<rparr>
     5000000000 5000000100 0 example_raw True = (dev', Inr ()) \<and> raw dev' = Some r' \<and>
   kfifo r' = [init_ir_raw_event_duration False 705032704]"
  using store_edge_wraps [of example_raw example_ctrl 5000000000 705032704 _ 5000000100 0]
  by (simp add: example_raw_def example_ctrl_def MAX_IR_EVENT_SIZE_def)

end
