(* ===== verification/Rc_Registry.thy ===== *)
theory Rc_Registry
  imports Rc_Raw
begin

text \<open>
  The registry of \<^verbatim>\<open>rc/rc-ir-raw.c\<close>: the protocol handlers, the devices, the thread that gives the events of a device to the handlers of its
  protocols, the change of protocols, the encoders, and the loading of protocol modules (\<^verbatim>\<open>ir_raw_load_modules\<close> of \<^verbatim>\<open>rc/rc-main.c\<close>).

  What a module does when it is loaded is a parameter of the model, as are the LIRC device and the hardware.
\<close>

section \<open>Handlers\<close>

text \<open>A handler works on the state of the decoders of a device; its encoder returns the events written and their number.\<close>

record 'd ir_raw_handler =
  protocols :: u64
  decode :: "ir_raw_event \<Rightarrow> 'd \<Rightarrow> 'd"
  encode :: "(rc_proto \<Rightarrow> u32 \<Rightarrow> nat \<Rightarrow> ir_raw_event list \<times> nat result) option"
  carrier :: u32
  h_min_timeout :: u32
  raw_register :: "('d \<Rightarrow> 'd) option"
  raw_unregister :: "('d \<Rightarrow> 'd) option"

text \<open>The handlers that see an event, and one round of the thread: \<open>lirc\<close> is the LIRC device.\<close>

fun run_handlers :: "'d ir_raw_handler list \<Rightarrow> u64 \<Rightarrow> ir_raw_event \<Rightarrow> 'd \<Rightarrow> 'd" where
  "run_handlers [] enabled ev d = d"
| "run_handlers (hh # hds) enabled ev d =
     run_handlers hds enabled ev (if enabled AND protocols hh \<noteq> 0 \<or> protocols hh = 0 then decode hh ev d else d)"

fun drain :: "'d ir_raw_handler list \<Rightarrow> (ir_raw_event \<Rightarrow> 'd \<Rightarrow> 'd) \<Rightarrow> u64 \<Rightarrow> ir_raw_event list \<Rightarrow> ir_raw_event \<Rightarrow> 'd \<Rightarrow> ir_raw_event \<times> 'd" where
  "drain hds lirc enabled [] prev d = (prev, d)"
| "drain hds lirc enabled (ev # evs) prev d = drain hds lirc enabled evs ev (lirc ev (run_handlers hds enabled ev d))"

definition ir_raw_event_thread :: "'d ir_raw_handler list \<Rightarrow> (ir_raw_event \<Rightarrow> 'd \<Rightarrow> 'd) \<Rightarrow> raw_dev \<Rightarrow> 'd \<Rightarrow> raw_dev \<times> 'd" where
  "ir_raw_event_thread hds lirc dev d =
     (case raw dev of
        None \<Rightarrow> (dev, d)
      | Some r \<Rightarrow>
          let (prev, d) = drain hds lirc (enabled_protocols dev) (kfifo r) (prev_ev r) d
          in (dev\<lparr>raw := Some (r\<lparr>kfifo := [], prev_ev := prev\<rparr>)\<rparr>, d))"

fun change_handlers :: "'d ir_raw_handler list \<Rightarrow> u64 \<Rightarrow> u64 \<Rightarrow> 'd \<Rightarrow> 'd" where
  "change_handlers [] old new d = d"
| "change_handlers (hh # hds) old new d =
     (let d = (if old AND protocols hh = 0 \<and> new AND protocols hh \<noteq> 0 then
                 case raw_register hh of None \<Rightarrow> d | Some f \<Rightarrow> f d else d);
          d = (if old AND protocols hh \<noteq> 0 \<and> new AND protocols hh = 0 then
                 case raw_unregister hh of None \<Rightarrow> d | Some f \<Rightarrow> f d else d)
      in change_handlers hds old new d)"

fun longest_timeout :: "'d ir_raw_handler list \<Rightarrow> u64 \<Rightarrow> u32 \<Rightarrow> u32" where
  "longest_timeout [] new tmo = tmo"
| "longest_timeout (hh # hds) new tmo =
     longest_timeout hds new (if protocols hh AND new \<noteq> 0 \<and> tmo < h_min_timeout hh then h_min_timeout hh else tmo)"

definition change_protocol :: "'d ir_raw_handler list \<Rightarrow> 'h raw_driver \<Rightarrow> raw_dev \<Rightarrow> 'd \<Rightarrow> 'h \<Rightarrow> u64 \<Rightarrow> raw_dev \<times> 'd \<times> 'h" where
  "change_protocol hds drv dev d h proto =
     (let d = change_handlers hds (enabled_protocols dev) proto d in
      if max_timeout dev = 0 then (dev, d, h)
      else
        let tmo = longest_timeout hds proto 0;
            tmo = (if tmo = 0 then IR_DEFAULT_TIMEOUT else tmo + 10 * 1000 * 1000);
            tmo = (if tmo < min_timeout dev then min_timeout dev else if tmo > max_timeout dev then max_timeout dev else tmo)
        in (case s_timeout drv of
              Some f \<Rightarrow> (dev, d, f tmo h)
            | None \<Rightarrow> (dev\<lparr>timeout := tmo\<rparr>, d, h)))"

definition ir_raw_disable_protocols :: "raw_dev \<Rightarrow> u64 \<Rightarrow> raw_dev" where
  "ir_raw_disable_protocols dev protos = dev\<lparr>enabled_protocols := enabled_protocols dev AND NOT protos\<rparr>"

text \<open>The registry: the handlers, the devices with their decoders, and the protocols that can be decoded.\<close>

record 'd raw_core =
  handler_list :: "'d ir_raw_handler list"
  client_list :: "(raw_dev \<times> 'd) list"
  available_protocols :: u64

section \<open>Protocol modules\<close>

definition rc_proto_bits :: "rc_proto list \<Rightarrow> u64" where
  "rc_proto_bits ps = foldr (\<lambda>p w. rc_proto_bit p OR w) ps 0"

record proto_name =
  pn_type :: u64
  pn_name :: string
  pn_module :: "string option"

definition proto_names :: "proto_name list" where
  "proto_names = map (\<lambda>(ps, nm, md). \<lparr>pn_type = rc_proto_bits ps, pn_name = nm, pn_module = md\<rparr>)
    [([], ''none'', None),
     ([RC_PROTO_OTHER], ''other'', None),
     ([RC_PROTO_UNKNOWN], ''unknown'', None),
     ([RC_PROTO_RC5, RC_PROTO_RC5X_20], ''rc-5'', Some ''ir-rc5-decoder''),
     ([RC_PROTO_NEC, RC_PROTO_NECX, RC_PROTO_NEC32], ''nec'', Some ''ir-nec-decoder''),
     ([RC_PROTO_RC6_0, RC_PROTO_RC6_6A_20, RC_PROTO_RC6_6A_24, RC_PROTO_RC6_6A_32, RC_PROTO_RC6_MCE], ''rc-6'', Some ''ir-rc6-decoder''),
     ([RC_PROTO_JVC], ''jvc'', Some ''ir-jvc-decoder''),
     ([RC_PROTO_SONY12, RC_PROTO_SONY15, RC_PROTO_SONY20], ''sony'', Some ''ir-sony-decoder''),
     ([RC_PROTO_RC5_SZ], ''rc-5-sz'', Some ''ir-rc5-decoder''),
     ([RC_PROTO_SANYO], ''sanyo'', Some ''ir-sanyo-decoder''),
     ([RC_PROTO_SHARP], ''sharp'', Some ''ir-sharp-decoder''),
     ([RC_PROTO_MCIR2_KBD, RC_PROTO_MCIR2_MSE], ''mce_kbd'', Some ''ir-mce_kbd-decoder''),
     ([RC_PROTO_XMP], ''xmp'', Some ''ir-xmp-decoder''),
     ([RC_PROTO_CEC], ''cec'', None),
     ([RC_PROTO_IMON], ''imon'', Some ''ir-imon-decoder''),
     ([RC_PROTO_RCMM12, RC_PROTO_RCMM24, RC_PROTO_RCMM32], ''rc-mm'', Some ''ir-rcmm-decoder''),
     ([RC_PROTO_XBOX_DVD], ''xbox-dvd'', None)]"

text \<open>\<^verbatim>\<open>request_module\<close> runs the module, which may register a handler; its result is negative when there is no such module.\<close>

type_synonym 'd module_loader = "string \<Rightarrow> 'd raw_core \<Rightarrow> 'd raw_core \<times> int"

definition ir_raw_get_allowed_protocols :: "'d raw_core \<Rightarrow> u64" where
  "ir_raw_get_allowed_protocols core = available_protocols core"

fun load_modules :: "'d module_loader \<Rightarrow> proto_name list \<Rightarrow> 'd raw_core \<Rightarrow> u64 \<Rightarrow> 'd raw_core \<times> u64" where
  "load_modules request [] core protos = (core, protos)"
| "load_modules request (pn # pns) core protos =
     (if pn_type pn = 0 \<or> pn_type pn AND rc_proto_bits [RC_PROTO_OTHER, RC_PROTO_UNKNOWN] \<noteq> 0 then load_modules request pns core protos
      else if protos AND pn_type pn AND NOT (ir_raw_get_allowed_protocols core) = 0 then load_modules request pns core protos
      else
        case pn_module pn of
          None \<Rightarrow> load_modules request pns core (protos AND NOT (pn_type pn))
        | Some m \<Rightarrow>
            let (core, ret) = request m core in
            if ret < 0 then load_modules request pns core (protos AND NOT (pn_type pn))
            else if protos AND pn_type pn AND NOT (ir_raw_get_allowed_protocols core) = 0 then load_modules request pns core protos
            else load_modules request pns core (protos AND NOT (pn_type pn)))"

definition ir_raw_load_modules :: "'d module_loader \<Rightarrow> 'd raw_core \<Rightarrow> u64 \<Rightarrow> 'd raw_core \<times> u64" where
  "ir_raw_load_modules request core protos = load_modules request proto_names core protos"

section \<open>Encoding\<close>

text \<open>An encoder writes its events at the beginning of the array.\<close>

definition write_events :: "ir_raw_event list \<Rightarrow> ir_raw_event list \<Rightarrow> ir_raw_event list" where
  "write_events evs buf = evs @ drop (length evs) buf"

fun encode_with :: "'d ir_raw_handler list \<Rightarrow> u64 \<Rightarrow> rc_proto \<Rightarrow> u32 \<Rightarrow> ir_raw_event list \<Rightarrow> nat result \<Rightarrow> ir_raw_event list \<times> nat result" where
  "encode_with [] msk protocol scancode buf ret = (buf, ret)"
| "encode_with (hh # hds) msk protocol scancode buf ret =
     (if protocols hh AND msk \<noteq> 0 then
        case encode hh of
          None \<Rightarrow> encode_with hds msk protocol scancode buf ret
        | Some enc \<Rightarrow>
            (case enc protocol scancode (length buf) of
               (evs, Inr n) \<Rightarrow> (write_events evs buf, Inr n)
             | (evs, Inl e) \<Rightarrow>
                 if e = ENOBUFS then (write_events evs buf, Inl e)
                 else encode_with hds msk protocol scancode (write_events evs buf) (Inl e))
      else encode_with hds msk protocol scancode buf ret)"

definition ir_raw_encode_scancode ::
  "'d module_loader \<Rightarrow> 'd raw_core \<Rightarrow> rc_proto \<Rightarrow> u32 \<Rightarrow> ir_raw_event list \<Rightarrow> 'd raw_core \<times> ir_raw_event list \<times> nat result" where
  "ir_raw_encode_scancode request core protocol scancode events =
     (let (core, msk) = ir_raw_load_modules request core (rc_proto_bit protocol) in
      (core, encode_with (handler_list core) msk protocol scancode events (Inl EINVAL)))"

fun ir_raw_encode_carrier :: "'d ir_raw_handler list \<Rightarrow> rc_proto \<Rightarrow> u32 result" where
  "ir_raw_encode_carrier [] protocol = Inl EINVAL"
| "ir_raw_encode_carrier (hh # hds) protocol =
     (if protocols hh AND rc_proto_bit protocol \<noteq> 0 \<and> encode hh \<noteq> None then Inr (carrier hh) else ir_raw_encode_carrier hds protocol)"

section \<open>Registering\<close>

definition ir_raw_event_register :: "unit result \<Rightarrow> 'd raw_core \<Rightarrow> raw_dev \<times> 'd \<Rightarrow> 'd raw_core \<times> unit result" where
  "ir_raw_event_register kthread core c =
     (case kthread of
        Inl e \<Rightarrow> (core, Inl e)
      | Inr _ \<Rightarrow>
          (core\<lparr>client_list := client_list core @ [((fst c)\<lparr>raw := map_option (\<lambda>r. r\<lparr>thread := True\<rparr>) (raw (fst c))\<rparr>, snd c)]\<rparr>, Inr ()))"

fun unregister_handlers :: "'d ir_raw_handler list \<Rightarrow> u64 \<Rightarrow> 'd \<Rightarrow> 'd" where
  "unregister_handlers [] enabled d = d"
| "unregister_handlers (hh # hds) enabled d =
     unregister_handlers hds enabled
       (case raw_unregister hh of Some f \<Rightarrow> if protocols hh AND enabled \<noteq> 0 then f d else d | None \<Rightarrow> d)"

text \<open>The device at position \<open>i\<close> of the list goes.\<close>

definition ir_raw_event_unregister :: "'d raw_core \<Rightarrow> nat \<Rightarrow> 'd raw_core \<times> (raw_dev \<times> 'd) option" where
  "ir_raw_event_unregister core i =
     (if i \<ge> length (client_list core) then (core, None)
      else
        let (dev, d) = client_list core ! i;
            d = unregister_handlers (handler_list core) (enabled_protocols dev) d
        in (core\<lparr>client_list := take i (client_list core) @ drop (i + 1) (client_list core)\<rparr>, Some (ir_raw_event_free dev, d)))"

definition ir_raw_handler_register :: "'d raw_core \<Rightarrow> 'd ir_raw_handler \<Rightarrow> 'd raw_core" where
  "ir_raw_handler_register core hh =
     core\<lparr>handler_list := handler_list core @ [hh], available_protocols := available_protocols core OR protocols hh\<rparr>"

definition ir_raw_handler_unregister :: "'d raw_core \<Rightarrow> nat \<Rightarrow> 'd raw_core" where
  "ir_raw_handler_unregister core i =
     (if i \<ge> length (handler_list core) then core
      else let hh = handler_list core ! i;
          protos = protocols hh;
          leave = (\<lambda>(dev, d).
            (ir_raw_disable_protocols dev protos,
             case raw_unregister hh of Some f \<Rightarrow> if enabled_protocols dev AND protos \<noteq> 0 then f d else d | None \<Rightarrow> d))
      in core\<lparr>handler_list := take i (handler_list core) @ drop (i + 1) (handler_list core),
              client_list := map leave (client_list core),
              available_protocols := available_protocols core AND NOT protos\<rparr>)"

section \<open>Timeouts\<close>

lemma longest_timeout_ge: "tmo \<le> longest_timeout hds new tmo"
proof (induction hds arbitrary: tmo)
  case (Cons hh hds)
  have "tmo \<le> (if protocols hh AND new \<noteq> 0 \<and> tmo < h_min_timeout hh then h_min_timeout hh else tmo)" by auto
  also have "\<dots> \<le> longest_timeout (hh # hds) new tmo" using Cons.IH by simp
  finally show ?case .
qed simp

lemma longest_timeout_covers:
  "hh \<in> set hds \<Longrightarrow> protocols hh AND new \<noteq> 0 \<Longrightarrow> h_min_timeout hh \<le> longest_timeout hds new tmo"
proof (induction hds arbitrary: tmo)
  case (Cons h hds)
  show ?case
  proof (cases "hh = h")
    case True
    have "h_min_timeout hh \<le> (if tmo < h_min_timeout hh then h_min_timeout hh else tmo)" by auto
    also have "\<dots> \<le> longest_timeout (h # hds) new tmo" using Cons.prems(2) True by (auto intro: longest_timeout_ge order_trans)
    finally show ?thesis .
  next
    case False
    with Cons show ?thesis by simp
  qed
qed simp

lemma longest_timeout_bound:
  "\<forall>hh \<in> set hds. protocols hh AND new \<noteq> 0 \<longrightarrow> h_min_timeout hh \<le> b \<Longrightarrow> tmo \<le> b \<Longrightarrow> longest_timeout hds new tmo \<le> b"
  by (induction hds arbitrary: tmo) auto

text \<open>
  C21: For a receiver with an upper limit and without \<^verbatim>\<open>s_timeout\<close> a change of protocols leaves a timeout between the limits of the receiver, and
  every handler of the new protocols gets its minimum and 10 ms more, or the timeout is the upper limit of the receiver, which may be below that.
\<close>

theorem change_protocol_timeout:
  assumes "max_timeout dev \<noteq> 0" "min_timeout dev \<le> max_timeout dev" "s_timeout drv = None"
    and "\<forall>hh \<in> set hds. protocols hh AND proto \<noteq> 0 \<longrightarrow> unat (h_min_timeout hh) + 10000000 < 2 ^ 32"
  shows "\<exists>dev' d' h'. change_protocol hds drv dev d h proto = (dev', d', h') \<and>
    min_timeout dev \<le> timeout dev' \<and> timeout dev' \<le> max_timeout dev \<and>
    (\<forall>hh \<in> set hds. protocols hh AND proto \<noteq> 0 \<longrightarrow>
       unat (h_min_timeout hh) + (if h_min_timeout hh = 0 then 0 else 10000000) \<le> unat (timeout dev') \<or> timeout dev' = max_timeout dev)"
proof -
  define l where "l = longest_timeout hds proto 0"
  define t where "t = (if l = 0 then IR_DEFAULT_TIMEOUT else l + 10 * 1000 * 1000)"
  define u where "u = (if t < min_timeout dev then min_timeout dev else if max_timeout dev < t then max_timeout dev else t)"
  have ch: "change_protocol hds drv dev d h proto = (dev\<lparr>timeout := u\<rparr>, change_handlers hds (enabled_protocols dev) proto d, h)"
    using assms(1,3) by (simp add: change_protocol_def Let_def l_def t_def u_def)
  have "\<forall>hh \<in> set hds. protocols hh AND proto \<noteq> 0 \<longrightarrow> h_min_timeout hh \<le> of_nat (2 ^ 32 - 10000001)"
    using assms(4) by (auto simp: word_le_nat_alt)
  then have "l \<le> of_nat (2 ^ 32 - 10000001)" unfolding l_def by (rule longest_timeout_bound) simp
  then have l: "unat l + 10000000 < 2 ^ 32" by (simp add: word_le_nat_alt)
  have big: "unat (h_min_timeout hh) + (if h_min_timeout hh = 0 then 0 else 10000000) \<le> unat t" if "hh \<in> set hds" "protocols hh AND proto \<noteq> 0" for hh
  proof -
    have le: "h_min_timeout hh \<le> l" unfolding l_def by (rule longest_timeout_covers [OF that])
    show ?thesis
    proof (cases "h_min_timeout hh = 0")
      case False
      with le have "l \<noteq> 0" by auto
      then have "unat t = unat l + 10000000" using l by (simp add: t_def unat_word_ariths)
      with le show ?thesis by (simp add: word_le_nat_alt)
    qed simp
  qed
  have u: "t \<le> u \<or> u = max_timeout dev" "min_timeout dev \<le> u" "u \<le> max_timeout dev" using assms(2) by (auto simp: u_def)
  have "unat (h_min_timeout hh) + (if h_min_timeout hh = 0 then 0 else 10000000) \<le> unat u \<or> u = max_timeout dev"
    if "hh \<in> set hds" "protocols hh AND proto \<noteq> 0" for hh
    using big [OF that] u(1) by (meson le_trans word_le_nat_alt)
  with ch u(2,3) show ?thesis by simp
qed


section \<open>What loading modules gives\<close>

text \<open>The groups of \<^const>\<open>proto_names\<close> that have to be decoded, and the protocols in them.\<close>

definition loadable :: "proto_name \<Rightarrow> bool" where
  "loadable pn \<longleftrightarrow> pn_type pn \<noteq> 0 \<and> pn_type pn AND rc_proto_bits [RC_PROTO_OTHER, RC_PROTO_UNKNOWN] = 0"

definition decoders :: u64 where
  "decoders = foldr (\<lambda>pn w. pn_type pn OR w) (filter loadable proto_names) 0"

lemma groups_disjoint: "sorted_wrt (\<lambda>a b. pn_type a AND pn_type b = 0) proto_names"
  by (simp add: proto_names_def rc_proto_bits_def rc_proto_bit_def)

definition only_grows :: "'d module_loader \<Rightarrow> bool" where
  "only_grows request \<longleftrightarrow> (\<forall>m core i. bit (available_protocols core) i \<longrightarrow> bit (available_protocols (fst (request m core))) i)"

lemma and_eq_0_iff: "(a :: 'a::len word) AND b = 0 \<longleftrightarrow> (\<forall>i. bit a i \<longrightarrow> \<not> bit b i)"
  by (auto simp: bit_eq_iff [of "a AND b"] bit_and_iff dest: bit_imp_le_length)

lemma and_not_eq_0_iff: "(a :: 'a::len word) AND NOT b = 0 \<longleftrightarrow> (\<forall>i. bit a i \<longrightarrow> bit b i)"
  unfolding and_eq_0_iff by (auto simp: bit_not_iff dest: bit_imp_le_length)

lemma and_and_not_eq_0_iff: "(a :: 'a::len word) AND t AND NOT b = 0 \<longleftrightarrow> (\<forall>i. bit a i \<and> bit t i \<longrightarrow> bit b i)"
  unfolding and_eq_0_iff by (auto simp: bit_and_iff bit_not_iff dest: bit_imp_le_length)

lemma and_neq_0_iff: "(a :: 'a::len word) AND b \<noteq> 0 \<longleftrightarrow> (\<exists>i. bit a i \<and> bit b i)"
  unfolding and_eq_0_iff by auto

lemma bit_unions: "bit (foldr (\<lambda>x w. f x OR w) xs 0 :: 'a::len word) i \<longleftrightarrow> (\<exists>x \<in> set xs. bit (f x) i)"
  by (induction xs) (auto simp: bit_or_iff)

lemma group_unique:
  assumes "pn \<in> set proto_names" "q \<in> set proto_names" "bit (pn_type pn) i" "bit (pn_type q) i"
  shows "pn = q"
proof -
  obtain j k where jk: "j < length proto_names" "k < length proto_names" "proto_names ! j = pn" "proto_names ! k = q"
    using assms(1,2) by (metis in_set_conv_nth)
  have "pn_type (proto_names ! a) AND pn_type (proto_names ! b) = 0" if "a < b" "b < length proto_names" for a b
    by (rule sorted_wrt_nth_less [OF groups_disjoint that])
  with assms(3,4) jk have "\<not> j < k" "\<not> k < j" unfolding and_eq_0_iff by blast+
  with jk show ?thesis by simp
qed

text \<open>A group whose module can be loaded and brings handlers for all of its protocols.\<close>

definition module_works :: "'d module_loader \<Rightarrow> proto_name \<Rightarrow> bool" where
  "module_works request pn \<longleftrightarrow> (\<exists>m. pn_module pn = Some m \<and>
     (\<forall>core. 0 \<le> snd (request m core) \<and> pn_type pn AND NOT (available_protocols (fst (request m core))) = 0))"

text \<open>A module that has to be loaded: one of its groups holds a wanted protocol that cannot be decoded yet.\<close>

definition needs_module :: "'d raw_core \<Rightarrow> u64 \<Rightarrow> string \<Rightarrow> bool" where
  "needs_module core p m \<longleftrightarrow> (\<exists>pn \<in> set proto_names. loadable pn \<and> pn_module pn = Some m \<and>
     p AND pn_type pn AND NOT (available_protocols core) \<noteq> 0)"

text \<open>One group of the loop: either the group is left as it is, or it is taken from the protocols.\<close>

lemma load_modules_step:
  assumes "load_modules request (pn # pns) core p = (core', p')"
  shows "\<exists>core1 p1. load_modules request pns core1 p1 = (core', p') \<and>
    (core1 = core \<or> (\<exists>m. pn_module pn = Some m \<and> core1 = fst (request m core))) \<and>
    (p1 = p \<and> (\<not> loadable pn \<or> p AND pn_type pn AND NOT (available_protocols core1) = 0) \<or> p1 = p AND NOT (pn_type pn)) \<and>
    (p AND pn_type pn AND NOT (available_protocols core) = 0 \<longrightarrow> core1 = core \<and> p1 = p) \<and>
    (module_works request pn \<or> \<not> loadable pn \<longrightarrow> p1 = p)"
proof (cases "\<not> loadable pn \<or> p AND pn_type pn AND NOT (available_protocols core) = 0")
  case True
  with assms show ?thesis
    by (intro exI [of _ core] exI [of _ p]) (auto simp: loadable_def ir_raw_get_allowed_protocols_def split: if_splits)
next
  case False
  show ?thesis
  proof (cases "pn_module pn")
    case None
    with False assms show ?thesis
      by (intro exI [of _ core] exI [of _ "p AND NOT (pn_type pn)"]) (simp add: loadable_def module_works_def ir_raw_get_allowed_protocols_def)
  next
    case (Some m)
    obtain c r where req: "request m core = (c, r)" by (cases "request m core")
    have "\<not> r < 0 \<and> p AND pn_type pn AND NOT (available_protocols c) = 0" if "module_works request pn"
    proof -
      have "0 \<le> snd (request m core) \<and> pn_type pn AND NOT (available_protocols (fst (request m core))) = 0"
        using that Some by (auto simp: module_works_def)
      then show ?thesis unfolding and_and_not_eq_0_iff and_not_eq_0_iff by (simp add: req)
    qed
    with False assms Some req show ?thesis
      by (intro exI [of _ c]) (auto simp: loadable_def ir_raw_get_allowed_protocols_def split: if_splits)
  qed
qed

lemma load_modules_grows:
  "only_grows request \<Longrightarrow> load_modules request pns core p = (core', p') \<Longrightarrow>
   (bit p' i \<longrightarrow> bit p i) \<and> (bit (available_protocols core) i \<longrightarrow> bit (available_protocols core') i)"
proof (induction pns arbitrary: core p)
  case (Cons pn pns)
  from load_modules_step [OF Cons.prems(2)] obtain core1 p1 where l: "load_modules request pns core1 p1 = (core', p')"
    "core1 = core \<or> (\<exists>m. core1 = fst (request m core))" "p1 = p \<or> p1 = p AND NOT (pn_type pn)" by blast
  have "bit p1 i \<longrightarrow> bit p i" "bit (available_protocols core) i \<longrightarrow> bit (available_protocols core1) i"
    using l(2,3) Cons.prems(1) by (auto simp: bit_and_iff only_grows_def)
  with Cons.IH [OF Cons.prems(1) l(1)] show ?case by blast
qed simp

lemma load_modules_available:
  "only_grows request \<Longrightarrow> load_modules request pns core p = (core', p') \<Longrightarrow> pn \<in> set pns \<Longrightarrow> loadable pn \<Longrightarrow>
   bit p' i \<Longrightarrow> bit (pn_type pn) i \<Longrightarrow> bit (available_protocols core') i"
proof (induction pns arbitrary: core p)
  case (Cons q pns)
  from load_modules_step [OF Cons.prems(2)] obtain core1 p1 where l: "load_modules request pns core1 p1 = (core', p')"
    "p1 = p \<and> (\<not> loadable q \<or> p AND pn_type q AND NOT (available_protocols core1) = 0) \<or> p1 = p AND NOT (pn_type q)" by blast
  show ?case
  proof (cases "pn = q")
    case True
    with l(2) Cons.prems(4,6) have "bit p1 i \<longrightarrow> bit (available_protocols core1) i"
      unfolding and_and_not_eq_0_iff by (auto simp: bit_and_iff bit_not_iff)
    with load_modules_grows [OF Cons.prems(1) l(1), of i] Cons.prems(5) show ?thesis by blast
  next
    case False
    with Cons.IH [OF Cons.prems(1) l(1)] Cons.prems(3-) show ?thesis by simp
  qed
qed simp

lemma load_modules_idle:
  "\<forall>pn \<in> set pns. loadable pn \<longrightarrow> p AND pn_type pn AND NOT (available_protocols core) = 0 \<Longrightarrow> load_modules request pns core p = (core, p)"
  by (induction pns) (auto simp: loadable_def ir_raw_get_allowed_protocols_def)

lemma load_idle:
  "p AND decoders AND NOT (available_protocols core) = 0 \<Longrightarrow> ir_raw_load_modules request core p = (core, p)"
  unfolding ir_raw_load_modules_def
  by (rule load_modules_idle) (auto simp: and_and_not_eq_0_iff decoders_def bit_unions)

text \<open>A protocol stays wanted when each group it is in is available or has a module that works.\<close>

lemma load_modules_keeps:
  "only_grows request \<Longrightarrow> load_modules request pns core p = (core', p') \<Longrightarrow> bit p i \<Longrightarrow>
   \<forall>pn \<in> set pns. loadable pn \<and> bit (pn_type pn) i \<longrightarrow> module_works request pn \<or> p AND pn_type pn AND NOT (available_protocols core) = 0 \<Longrightarrow>
   bit p' i"
proof (induction pns arbitrary: core p)
  case (Cons pn pns)
  from load_modules_step [OF Cons.prems(2)] obtain core1 p1 where l: "load_modules request pns core1 p1 = (core', p')"
    "core1 = core \<or> (\<exists>m. core1 = fst (request m core))" "p1 = p \<and> (\<not> loadable pn \<or> p AND pn_type pn AND NOT (available_protocols core1) = 0) \<or> p1 = p AND NOT (pn_type pn)"
    "p AND pn_type pn AND NOT (available_protocols core) = 0 \<longrightarrow> core1 = core \<and> p1 = p" "module_works request pn \<longrightarrow> p1 = p"
    "\<not> loadable pn \<longrightarrow> p1 = p" by blast
  have "i < 64" using Cons.prems(3) by (auto dest: bit_imp_le_length)
  then have "bit p1 i" using l(3-6) Cons.prems(3,4) by (cases "bit (pn_type pn) i") (auto simp: bit_and_iff bit_not_iff)
  moreover have "p1 AND pn_type q AND NOT (available_protocols core1) = 0" if "p AND pn_type q AND NOT (available_protocols core) = 0" for q
    using that l(2,3) Cons.prems(1) unfolding and_and_not_eq_0_iff only_grows_def by (auto simp: bit_and_iff)
  then have "\<forall>q \<in> set pns. loadable q \<and> bit (pn_type q) i \<longrightarrow> module_works request q \<or> p1 AND pn_type q AND NOT (available_protocols core1) = 0"
    using Cons.prems(4) by auto
  ultimately show ?case using Cons.IH [OF Cons.prems(1) l(1)] by blast
qed simp

text \<open>Only modules that are needed are asked for: what the others would do does not matter.\<close>

lemma load_modules_agree:
  "only_grows request \<Longrightarrow>
   \<forall>pn \<in> set pns. \<forall>m. loadable pn \<and> pn_module pn = Some m \<and> p AND pn_type pn AND NOT (available_protocols core) \<noteq> 0 \<longrightarrow> request' m = request m \<Longrightarrow>
   load_modules request' pns core p = load_modules request pns core p"
proof (induction pns arbitrary: core p)
  case (Cons pn pns)
  have less: "load_modules request' pns core1 p1 = load_modules request pns core1 p1"
    if "\<And>i. bit p1 i \<Longrightarrow> bit p i" "\<And>i. bit (available_protocols core) i \<Longrightarrow> bit (available_protocols core1) i" for core1 p1
  proof (rule Cons.IH [OF Cons.prems(1)])
    have "p AND t AND NOT (available_protocols core) \<noteq> 0" if "p1 AND t AND NOT (available_protocols core1) \<noteq> 0" for t
      using that \<open>\<And>i. bit p1 i \<Longrightarrow> bit p i\<close> \<open>\<And>i. bit (available_protocols core) i \<Longrightarrow> bit (available_protocols core1) i\<close>
      unfolding and_and_not_eq_0_iff by blast
    with Cons.prems(2) show "\<forall>pn \<in> set pns. \<forall>m. loadable pn \<and> pn_module pn = Some m \<and> p1 AND pn_type pn AND NOT (available_protocols core1) \<noteq> 0 \<longrightarrow>
        request' m = request m" by simp
  qed
  show ?case
  proof (cases "\<not> loadable pn \<or> p AND pn_type pn AND NOT (available_protocols core) = 0")
    case True
    with less [of p core] show ?thesis by (auto simp: loadable_def ir_raw_get_allowed_protocols_def)
  next
    case False
    have grown: "bit (available_protocols (fst (request m core))) i" if "bit (available_protocols core) i" for m i
      using that Cons.prems(1) unfolding only_grows_def by blast
    show ?thesis
    proof (cases "pn_module pn")
      case None
      with False less [of "p AND NOT (pn_type pn)" core] show ?thesis
        by (simp add: loadable_def ir_raw_get_allowed_protocols_def bit_and_iff)
    next
      case (Some m)
      with False Cons.prems(2) have same: "request' m = request m" by simp
      obtain c r where req: "request m core = (c, r)" by (cases "request m core")
      have "bit (available_protocols core) i \<Longrightarrow> bit (available_protocols c) i" for i using grown [of i m] by (simp add: req)
      with False Some same req less [of p c] less [of "p AND NOT (pn_type pn)" c] show ?thesis
        by (simp add: loadable_def ir_raw_get_allowed_protocols_def bit_and_iff)
    qed
  qed
qed simp

lemma loaded_available:
  assumes "only_grows request" "ir_raw_load_modules request core p = (core', p')"
  shows "p' AND NOT p = 0 \<and> p' AND decoders AND NOT (available_protocols core') = 0 \<and> p AND NOT decoders AND NOT p' = 0"
proof (intro conjI)
  note l = assms(2) [unfolded ir_raw_load_modules_def]
  show "p' AND NOT p = 0" using load_modules_grows [OF assms(1) l] unfolding and_not_eq_0_iff by blast
  show "p' AND decoders AND NOT (available_protocols core') = 0"
    using load_modules_available [OF assms(1) l] unfolding and_and_not_eq_0_iff decoders_def by (auto simp: bit_unions)
  have "bit p' i" if "bit p i" "\<not> bit decoders i" for i
  proof (rule load_modules_keeps [OF assms(1) l that(1)])
    show "\<forall>pn \<in> set proto_names. loadable pn \<and> bit (pn_type pn) i \<longrightarrow>
        module_works request pn \<or> p AND pn_type pn AND NOT (available_protocols core) = 0"
      using that(2) unfolding decoders_def by (auto simp: bit_unions)
  qed
  then show "p AND NOT decoders AND NOT p' = 0" unfolding and_and_not_eq_0_iff by (simp add: bit_not_iff)
qed

lemma loaded_groups:
  assumes "only_grows request" "ir_raw_load_modules request core p = (core', p')" "pn \<in> set proto_names"
    and "module_works request pn \<or> p AND pn_type pn AND NOT (available_protocols core) = 0"
  shows "p AND pn_type pn AND NOT p' = 0"
  unfolding and_and_not_eq_0_iff
proof (intro allI impI)
  fix i assume i: "bit p i \<and> bit (pn_type pn) i"
  show "bit p' i"
  proof (rule load_modules_keeps [OF assms(1) assms(2) [unfolded ir_raw_load_modules_def]])
    show "bit p i" using i by simp
    show "\<forall>q \<in> set proto_names. loadable q \<and> bit (pn_type q) i \<longrightarrow>
        module_works request q \<or> p AND pn_type q AND NOT (available_protocols core) = 0"
      using group_unique [OF assms(3) _ conjunct2 [OF i]] assms(4) by blast
  qed
qed

lemma load_needs:
  assumes "only_grows request" "\<forall>m. needs_module core p m \<longrightarrow> request' m = request m"
  shows "ir_raw_load_modules request' core p = ir_raw_load_modules request core p"
  unfolding ir_raw_load_modules_def
proof (rule load_modules_agree [OF assms(1)])
  show "\<forall>pn \<in> set proto_names. \<forall>m. loadable pn \<and> pn_module pn = Some m \<and> p AND pn_type pn AND NOT (available_protocols core) \<noteq> 0 \<longrightarrow>
      request' m = request m"
    using assms(2) unfolding needs_module_def by blast
qed

text \<open>
  C20: What \<^verbatim>\<open>ir_raw_load_modules\<close> leaves of the wanted protocols is exactly what can be decoded, as far as the groups with a decoder are concerned.
  Nothing is wanted that was not before, and every protocol of such a group that is left has a registered handler; a group stays wanted when
  its handlers were there, or when its module can be loaded and brings them. The protocols outside of these groups (other and unknown) stay wanted
  without a handler. No module is asked for but those of groups of which a wanted protocol is missing at the beginning: any other behaviour of the
  rest gives the same result, and when none is missing nothing changes.
\<close>

theorem loaded_protocols_available:
  assumes "only_grows request" "ir_raw_load_modules request core p = (core', p')"
  shows "p' AND NOT p = 0 \<and> p' AND decoders AND NOT (available_protocols core') = 0 \<and> p AND NOT decoders AND NOT p' = 0 \<and>
    (\<forall>pn \<in> set proto_names. module_works request pn \<or> p AND pn_type pn AND NOT (available_protocols core) = 0 \<longrightarrow> p AND pn_type pn AND NOT p' = 0) \<and>
    (\<forall>request'. (\<forall>m. needs_module core p m \<longrightarrow> request' m = request m) \<longrightarrow> ir_raw_load_modules request' core p = (core', p')) \<and>
    (p AND decoders AND NOT (available_protocols core) = 0 \<longrightarrow> core' = core \<and> p' = p)"
proof (intro conjI ballI allI impI)
  fix pn assume "pn \<in> set proto_names" "module_works request pn \<or> p AND pn_type pn AND NOT (available_protocols core) = 0"
  then show "p AND pn_type pn AND NOT p' = 0" by (rule loaded_groups [OF assms])
next
  fix request' assume "\<forall>m. needs_module core p m \<longrightarrow> request' m = request m"
  then have "ir_raw_load_modules request' core p = ir_raw_load_modules request core p" by (rule load_needs [OF assms(1)])
  then show "ir_raw_load_modules request' core p = (core', p')" by (simp only: assms(2))
next
  assume "p AND decoders AND NOT (available_protocols core) = 0"
  from load_idle [OF this] assms(2) show "core' = core" "p' = p" by simp_all
qed (use loaded_available [OF assms] in blast)+

section \<open>What a handler is told\<close>

text \<open>
  A handler is told with \<^verbatim>\<open>raw_register\<close> that a device begins to use it, and with \<^verbatim>\<open>raw_unregister\<close> that it stops. To count the two calls the
  state of the decoders is taken to be the list of the handlers in use, each named by its protocols.
\<close>

definition counted :: "u64 list ir_raw_handler \<Rightarrow> bool" where
  "counted hh \<longleftrightarrow> raw_register hh = Some ((#) (protocols hh)) \<and> raw_unregister hh = Some (remove1 (protocols hh)) \<and>
     protocols hh \<noteq> 0 \<and> protocols hh AND NOT decoders = 0"

text \<open>A handler can be registered when no other has one of its protocols.\<close>

definition acceptable :: "u64 list raw_core \<Rightarrow> u64 list ir_raw_handler \<Rightarrow> bool" where
  "acceptable core hh \<longleftrightarrow> counted hh \<and> protocols hh AND available_protocols core = 0"

text \<open>
  While a module is loaded, handlers are registered, by the module and by others: the lock of the registry is not held by the caller.
\<close>

inductive handlers_arrive :: "u64 list raw_core \<Rightarrow> u64 list raw_core \<Rightarrow> bool" where
  none: "handlers_arrive core core"
| one: "handlers_arrive core core1 \<Longrightarrow> acceptable core1 hh \<Longrightarrow> handlers_arrive core (ir_raw_handler_register core1 hh)"

definition loads_handlers :: "u64 list module_loader \<Rightarrow> bool" where
  "loads_handlers request \<longleftrightarrow> (\<forall>m core. handlers_arrive core (fst (request m core)))"

text \<open>
  A change of the protocols of a device takes several steps, and the lock of the registry is released between them: \<^verbatim>\<open>ir_raw_load_modules\<close> looks at one
  group after the other, \<^verbatim>\<open>change_protocol\<close> tells the handlers, and then the caller (\<^verbatim>\<open>store_protocols\<close> or \<^verbatim>\<open>rc_prepare_rx_device\<close>) stores the
  enabled protocols. What a device has reached is its progress: the groups that are left and the protocols that are wanted so far, or the protocols that the
  handlers have been told and that are not yet stored.
\<close>

datatype progress = Idle | Loading "proto_name list" u64 | Told u64

type_synonym client = "(raw_dev \<times> u64 list) \<times> progress"

inductive change_step :: "u64 list module_loader \<Rightarrow> u64 list raw_core \<Rightarrow> client \<Rightarrow> u64 list raw_core \<Rightarrow> client \<Rightarrow> bool" for request where
  begin_change: "change_step request core (c, Idle) core (c, Loading proto_names protos)"
| load_group:
    "load_modules request [pn] core protos = (core1, protos1) \<Longrightarrow>
     change_step request core (c, Loading (pn # pns) protos) core1 (c, Loading pns protos1)"
| tell_handlers:
    "change_protocol (handler_list core) drv dev used () protos = (dev1, used1, ()) \<Longrightarrow>
     change_step request core ((dev, used), Loading [] protos) core ((dev1, used1), Told protos)"
| store_enabled: "change_step request core ((dev, used), Told protos) core ((dev\<lparr>enabled_protocols := protos\<rparr>, used), Idle)"

text \<open>
  The registry with the progress of each listed device, and the devices that \<^verbatim>\<open>rc_register_device\<close> is making and that are not in the list yet; their
  attributes in sysfs can be there before they are listed. A device that is being made leaves by being listed, by a thread that cannot be started, or by
  another failure.

  A handler is unregistered only while no change is under way and no device that is not yet listed has protocols enabled. Nothing in the code ensures this.
\<close>

record registry =
  reg_core :: "u64 list raw_core"
  listed :: "progress list"
  making :: "client list"

definition registry_quiet :: "registry \<Rightarrow> bool" where
  "registry_quiet r \<longleftrightarrow> (\<forall>pg \<in> set (listed r). pg = Idle) \<and> (\<forall>(c, pg) \<in> set (making r). pg = Idle \<and> enabled_protocols (fst c) = 0)"

inductive registry_step :: "u64 list module_loader \<Rightarrow> registry \<Rightarrow> registry \<Rightarrow> bool" for request where
  handler_register: "acceptable (reg_core r) hh \<Longrightarrow> registry_step request r (r\<lparr>reg_core := ir_raw_handler_register (reg_core r) hh\<rparr>)"
| handler_unregister: "registry_quiet r \<Longrightarrow> registry_step request r (r\<lparr>reg_core := ir_raw_handler_unregister (reg_core r) i\<rparr>)"
| device_make:
    "enabled_protocols dev = 0 \<Longrightarrow> ir_raw_event_prepare True dev = (dev1, Inr ()) \<Longrightarrow>
     registry_step request r (r\<lparr>making := making r @ [((dev1, []), Idle)]\<rparr>)"
| making_change:
    "i < length (making r) \<Longrightarrow> change_step request (reg_core r) (making r ! i) core1 c1 \<Longrightarrow>
     registry_step request r (r\<lparr>reg_core := core1, making := (making r)[i := c1]\<rparr>)"
| device_list:
    "i < length (making r) \<Longrightarrow> making r ! i = (c, pg) \<Longrightarrow> ir_raw_event_register started (reg_core r) c = (core1, ret) \<Longrightarrow>
     registry_step request r \<lparr>reg_core = core1, listed = listed r @ (case ret of Inl e \<Rightarrow> [] | Inr _ \<Rightarrow> [pg]),
       making = take i (making r) @ drop (Suc i) (making r)\<rparr>"
| device_fail: "registry_step request r (r\<lparr>making := take i (making r) @ drop (Suc i) (making r)\<rparr>)"
| listed_change:
    "i < length (client_list (reg_core r)) \<Longrightarrow>
     change_step request (reg_core r) (client_list (reg_core r) ! i, listed r ! i) core1 (c1, pg1) \<Longrightarrow>
     registry_step request r (r\<lparr>reg_core := core1\<lparr>client_list := (client_list core1)[i := c1]\<rparr>, listed := (listed r)[i := pg1]\<rparr>)"
| device_unregister:
    "ir_raw_event_unregister (reg_core r) i = (core1, gone) \<Longrightarrow>
     registry_step request r (r\<lparr>reg_core := core1, listed := take i (listed r) @ drop (Suc i) (listed r)\<rparr>)"

definition no_devices :: registry where
  "no_devices = \<lparr>reg_core = \<lparr>handler_list = [], client_list = [], available_protocols = 0\<rparr>, listed = [], making = []\<rparr>"

inductive registry_reachable :: "u64 list module_loader \<Rightarrow> registry \<Rightarrow> bool" for request where
  empty: "registry_reachable request no_devices"
| step: "registry_reachable request r \<Longrightarrow> registry_step request r r1 \<Longrightarrow> registry_reachable request r1"

text \<open>The protocols for which the handlers have last been told of a device.\<close>

definition told_protocols :: "client \<Rightarrow> u64" where
  "told_protocols c = (case snd c of Told protos \<Rightarrow> protos | _ \<Rightarrow> enabled_protocols (fst (fst c)))"

definition devices :: "registry \<Rightarrow> client list" where
  "devices r = zip (client_list (reg_core r)) (listed r) @ making r"

text \<open>The invariant of a device, and of the handlers. It speaks of a device with the protocols that the handlers know.\<close>

definition client_inv :: "u64 list raw_core \<Rightarrow> raw_dev \<times> u64 list \<Rightarrow> bool" where
  "client_inv core c \<longleftrightarrow> enabled_protocols (fst c) AND decoders AND NOT (available_protocols core) = 0 \<and>
     (\<forall>p. count_list (snd c) p = of_bool (p \<in> protocols ` set (handler_list core) \<and> enabled_protocols (fst c) AND p \<noteq> 0))"

definition handlers_ok :: "'d raw_core \<Rightarrow> bool" where
  "handlers_ok core \<longleftrightarrow> sorted_wrt (\<lambda>a b. protocols a AND protocols b = 0) (handler_list core) \<and>
     (\<forall>i. bit (available_protocols core) i \<longleftrightarrow> (\<exists>hh \<in> set (handler_list core). bit (protocols hh) i))"

definition core_inv :: "u64 list raw_core \<Rightarrow> bool" where
  "core_inv core \<longleftrightarrow> handlers_ok core \<and> (\<forall>hh \<in> set (handler_list core). counted hh)"

text \<open>The groups that a load has passed can be decoded as far as they are still wanted.\<close>

definition groups_loaded :: "u64 list raw_core \<Rightarrow> progress \<Rightarrow> bool" where
  "groups_loaded core pg \<longleftrightarrow> (\<forall>pns protos. pg = Loading pns protos \<longrightarrow>
     (\<exists>passed. proto_names = passed @ pns \<and>
        (\<forall>pn \<in> set passed. loadable pn \<longrightarrow> protos AND pn_type pn AND NOT (available_protocols core) = 0)))"

definition told_inv :: "u64 list raw_core \<Rightarrow> client \<Rightarrow> bool" where
  "told_inv core c \<longleftrightarrow> client_inv core ((fst (fst c))\<lparr>enabled_protocols := told_protocols c\<rparr>, snd (fst c)) \<and> groups_loaded core (snd c)"

definition registry_inv :: "registry \<Rightarrow> bool" where
  "registry_inv r \<longleftrightarrow> core_inv (reg_core r) \<and> length (listed r) = length (client_list (reg_core r)) \<and> (\<forall>c \<in> set (devices r). told_inv (reg_core r) c)"

lemma counted_in: "counted hh \<Longrightarrow> bit (protocols hh) i \<Longrightarrow> bit decoders i"
  unfolding counted_def and_not_eq_0_iff by blast

lemma client_inv_iff:
  "client_inv core c \<longleftrightarrow> (\<forall>i. bit (enabled_protocols (fst c)) i \<and> bit decoders i \<longrightarrow> bit (available_protocols core) i) \<and>
     (\<forall>p. count_list (snd c) p = of_bool (p \<in> protocols ` set (handler_list core) \<and> enabled_protocols (fst c) AND p \<noteq> 0))"
  unfolding client_inv_def and_and_not_eq_0_iff ..

lemma register_keeps:
  assumes "core_inv core" "acceptable core hh"
  shows "core_inv (ir_raw_handler_register core hh)" "client_inv core c \<Longrightarrow> client_inv (ir_raw_handler_register core hh) c"
proof -
  have new: "counted hh" "\<And>i. bit (protocols hh) i \<Longrightarrow> \<not> bit (available_protocols core) i"
    using assms(2) by (auto simp: acceptable_def and_eq_0_iff)
  have inv: "handlers_ok core" using assms(1) by (simp add: core_inv_def)
  have fresh: "protocols hh \<notin> protocols ` set (handler_list core)"
  proof
    assume "protocols hh \<in> protocols ` set (handler_list core)"
    moreover obtain i where "bit (protocols hh) i" using new(1) by (auto simp: counted_def bit_eq_iff [of "protocols hh"])
    ultimately show False using inv new(2) by (force simp: handlers_ok_def)
  qed
  have "handlers_ok (ir_raw_handler_register core hh)"
    using inv new(2) by (auto simp: handlers_ok_def ir_raw_handler_register_def sorted_wrt_append and_eq_0_iff bit_or_iff)
  then show "core_inv (ir_raw_handler_register core hh)"
    using assms(1) new(1) by (auto simp: core_inv_def ir_raw_handler_register_def)
  assume c: "client_inv core c"
  then have "enabled_protocols (fst c) AND protocols hh = 0"
    using new counted_in [OF new(1)] unfolding and_eq_0_iff client_inv_iff by blast
  with c fresh show "client_inv (ir_raw_handler_register core hh) c"
    unfolding client_inv_iff by (auto simp: ir_raw_handler_register_def bit_or_iff)
qed

lemma counted_nonzero: "counted hh \<Longrightarrow> protocols hh \<noteq> 0"
  by (simp add: counted_def)

lemma handlers_distinct:
  "sorted_wrt (\<lambda>a b. protocols a AND protocols b = 0) hds \<Longrightarrow> \<forall>hh \<in> set hds. counted hh \<Longrightarrow> distinct (map protocols hds)"
proof (induction hds)
  case (Cons hh hds)
  have "protocols hh \<noteq> protocols x" if "x \<in> set hds" for x
  proof
    assume eq: "protocols hh = protocols x"
    have "protocols hh AND protocols x = 0" "protocols hh \<noteq> 0" using Cons.prems that by (auto dest: counted_nonzero)
    then show False by (simp add: eq)
  qed
  with Cons show ?case by auto
qed simp

lemma unregister_keeps:
  assumes "core_inv core" "\<forall>c \<in> set (client_list core). client_inv core c"
  shows "core_inv (ir_raw_handler_unregister core i) \<and> (\<forall>c \<in> set (client_list (ir_raw_handler_unregister core i)). client_inv (ir_raw_handler_unregister core i) c)"
proof (cases "i < length (handler_list core)")
  case False
  with assms show ?thesis by (simp add: ir_raw_handler_unregister_def)
next
  case True
  define hh where "hh = handler_list core ! i"
  define rest where "rest = take i (handler_list core) @ drop (Suc i) (handler_list core)"
  define core1 where "core1 = ir_raw_handler_unregister core i"
  have split: "handler_list core = take i (handler_list core) @ hh # drop (Suc i) (handler_list core)"
    using True by (simp add: hh_def id_take_nth_drop [symmetric])
  have hds: "sorted_wrt (\<lambda>a b. protocols a AND protocols b = 0) (handler_list core)" "\<forall>h \<in> set (handler_list core). counted h"
    "\<And>i. bit (available_protocols core) i \<longleftrightarrow> (\<exists>h \<in> set (handler_list core). bit (protocols h) i)"
    using assms(1) by (simp_all add: core_inv_def handlers_ok_def)
  have set: "set (handler_list core) = insert hh (set rest)" by (subst split) (auto simp: rest_def)
  have disjoint: "\<And>h i. h \<in> set rest \<Longrightarrow> bit (protocols h) i \<Longrightarrow> \<not> bit (protocols hh) i"
    using hds(1) by (subst (asm) split) (auto simp: sorted_wrt_append and_eq_0_iff rest_def)
  have core1: "handler_list core1 = rest" "\<And>i. bit (available_protocols core1) i \<longleftrightarrow> (\<exists>h \<in> set rest. bit (protocols h) i)"
    using True disjoint
    by (auto simp: core1_def ir_raw_handler_unregister_def Let_def rest_def [symmetric] hh_def [symmetric] hds(3) set bit_and_iff bit_not_iff
        dest: bit_imp_le_length)
  have "sorted_wrt (\<lambda>a b. protocols a AND protocols b = 0) rest"
    using hds(1) by (subst (asm) split) (auto simp: sorted_wrt_append rest_def)
  then have "handlers_ok core1" by (simp add: handlers_ok_def core1)
  moreover have "client_inv core1 c" if mem: "c \<in> set (client_list core1)" for c
  proof -
    obtain dev used where c: "(dev, used) \<in> set (client_list core)"
      "c = (ir_raw_disable_protocols dev (protocols hh), if enabled_protocols dev AND protocols hh \<noteq> 0 then remove1 (protocols hh) used else used)"
      using mem True hds(2)
      by (auto simp: core1_def ir_raw_handler_unregister_def Let_def hh_def [symmetric] set counted_def)
    then have inv: "client_inv core (dev, used)" using assms(2) by blast
    have e: "bit (enabled_protocols (fst c)) i \<longleftrightarrow> bit (enabled_protocols dev) i \<and> \<not> bit (protocols hh) i" for i
      by (auto simp: c ir_raw_disable_protocols_def bit_and_iff bit_not_iff dest: bit_imp_le_length)
    have "bit (available_protocols core1) i" if "bit (enabled_protocols (fst c)) i" "bit decoders i" for i
      using that e inv by (auto simp: client_inv_iff core1 hds(3) set)
    moreover have "count_list (snd c) p = of_bool (p \<in> protocols ` set rest \<and> enabled_protocols (fst c) AND p \<noteq> 0)" for p
    proof (cases "p = protocols hh")
      case True
      have "count_list used p = of_bool (enabled_protocols dev AND p \<noteq> 0)" using inv by (simp add: client_inv_iff set True)
      moreover have "enabled_protocols (fst c) AND p = 0" by (simp add: and_eq_0_iff e True)
      ultimately show ?thesis by (simp add: c True count_list_remove1)
    next
      case False
      have "enabled_protocols (fst c) AND p \<noteq> 0 \<longleftrightarrow> enabled_protocols dev AND p \<noteq> 0" if "p \<in> protocols ` set rest"
        using that disjoint unfolding and_neq_0_iff e by blast
      moreover have "count_list (snd c) p = count_list used p" using False by (simp add: c count_list_remove1)
      ultimately show ?thesis using inv False by (auto simp: client_inv_iff set)
    qed
    ultimately show ?thesis by (simp add: client_inv_iff core1)
  qed
  ultimately show ?thesis using hds(2) by (simp add: core_inv_def core1 set flip: core1_def)
qed

lemma change_handlers_count:
  assumes "distinct (map protocols hds)" "\<forall>hh \<in> set hds. counted hh"
  shows "count_list (change_handlers hds old new used) p =
    (if p \<in> protocols ` set hds \<and> old AND p = 0 \<and> new AND p \<noteq> 0 then count_list used p + 1
     else if p \<in> protocols ` set hds \<and> old AND p \<noteq> 0 \<and> new AND p = 0 then count_list used p - 1
     else count_list used p)"
  using assms by (induction hds arbitrary: used) (auto simp: Let_def counted_def)

lemma change_protocol_sel:
  "change_protocol hds drv dev used h protos = (dev', used', h') \<Longrightarrow>
   used' = change_handlers hds (enabled_protocols dev) protos used \<and> raw dev' = raw dev"
  by (auto simp: change_protocol_def Let_def split: if_splits option.splits)

text \<open>A change gives a device the handlers of the new protocols, whether it had some before or is new.\<close>

lemma change_keeps:
  assumes "handlers_ok core" "\<forall>hh \<in> set (handler_list core). counted hh" "protos AND decoders AND NOT (available_protocols core) = 0"
    and "change_protocol (handler_list core) drv dev used () protos = (dev', used', ())"
    and "\<forall>p. count_list used p = of_bool (p \<in> protocols ` set (handler_list core) \<and> enabled_protocols dev AND p \<noteq> 0)"
  shows "client_inv core (dev'\<lparr>enabled_protocols := protos\<rparr>, used')"
proof -
  have "distinct (map protocols (handler_list core))" using handlers_distinct [OF _ assms(2)] assms(1) by (simp add: handlers_ok_def)
  note change_handlers_count [OF this assms(2)]
  with assms(3,5) change_protocol_sel [OF assms(4)] show ?thesis unfolding client_inv_def by auto
qed

lemma arrive_keeps:
  "handlers_arrive core core1 \<Longrightarrow> core_inv core \<Longrightarrow>
   core_inv core1 \<and> client_list core1 = client_list core \<and> (\<forall>c. client_inv core c \<longrightarrow> client_inv core1 c) \<and>
   (\<forall>i. bit (available_protocols core) i \<longrightarrow> bit (available_protocols core1) i)"
proof (induction rule: handlers_arrive.induct)
  case (one core core1 hh)
  then show ?case using register_keeps [of core1 hh] by (auto simp: ir_raw_handler_register_def bit_or_iff)
qed simp

lemma arrive_grows: "handlers_arrive core core1 \<Longrightarrow> bit (available_protocols core) i \<Longrightarrow> bit (available_protocols core1) i"
  by (induction rule: handlers_arrive.induct) (auto simp: ir_raw_handler_register_def bit_or_iff)

lemma loads_only_grows: "loads_handlers request \<Longrightarrow> only_grows request"
  unfolding loads_handlers_def only_grows_def by (blast intro: arrive_grows)

lemma group_passed:
  assumes "loads_handlers request" "load_modules request [pn] core p = (core1, p1)"
  shows "handlers_arrive core core1 \<and> (\<forall>i. bit p1 i \<longrightarrow> bit p i) \<and>
    (loadable pn \<longrightarrow> p1 AND pn_type pn AND NOT (available_protocols core1) = 0)"
proof -
  from load_modules_step [OF assms(2)]
  have l: "core1 = core \<or> (\<exists>m. core1 = fst (request m core))"
    "p1 = p \<and> (\<not> loadable pn \<or> p AND pn_type pn AND NOT (available_protocols core1) = 0) \<or> p1 = p AND NOT (pn_type pn)" by auto
  moreover have "handlers_arrive core core1" using l(1) assms(1) unfolding loads_handlers_def by (auto intro: handlers_arrive.none)
  ultimately show ?thesis unfolding and_and_not_eq_0_iff by (auto simp: bit_and_iff bit_not_iff)
qed

lemma groups_loaded_grows:
  assumes "groups_loaded core pg" "\<forall>i. bit (available_protocols core) i \<longrightarrow> bit (available_protocols core1) i"
  shows "groups_loaded core1 pg"
  unfolding groups_loaded_def
proof (intro allI impI)
  fix pns protos assume "pg = Loading pns protos"
  with assms(1) obtain passed where "proto_names = passed @ pns"
    "\<forall>pn \<in> set passed. loadable pn \<longrightarrow> protos AND pn_type pn AND NOT (available_protocols core) = 0"
    unfolding groups_loaded_def by blast
  with assms(2) show "\<exists>passed. proto_names = passed @ pns \<and>
      (\<forall>pn \<in> set passed. loadable pn \<longrightarrow> protos AND pn_type pn AND NOT (available_protocols core1) = 0)"
    unfolding and_and_not_eq_0_iff by (intro exI [of _ passed]) blast
qed

lemma told_arrive: "handlers_arrive core core1 \<Longrightarrow> core_inv core \<Longrightarrow> told_inv core c \<Longrightarrow> told_inv core1 c"
  using arrive_keeps [of core core1] groups_loaded_grows [of core "snd c" core1] unfolding told_inv_def by blast

lemma client_inv_cong:
  "enabled_protocols (fst c) = enabled_protocols (fst c1) \<Longrightarrow> snd c = snd c1 \<Longrightarrow> client_inv core c \<longleftrightarrow> client_inv core c1"
  by (simp add: client_inv_def)

lemma change_step_keeps:
  assumes "loads_handlers request" "change_step request core c core1 c1" "core_inv core" "told_inv core c"
  shows "handlers_arrive core core1 \<and> told_inv core1 c1"
  using assms(2)
proof cases
  case (begin_change c0 protos)
  with assms(4) show ?thesis by (auto simp: told_inv_def told_protocols_def groups_loaded_def intro: handlers_arrive.none)
next
  case (load_group pn protos protos1 c0 pns)
  note g = group_passed [OF assms(1) load_group(3)]
  have told: "told_inv core1 c" using told_arrive assms(3,4) g by blast
  then obtain passed where p: "proto_names = passed @ pn # pns"
    "\<forall>q \<in> set passed. loadable q \<longrightarrow> protos AND pn_type q AND NOT (available_protocols core1) = 0"
    unfolding told_inv_def groups_loaded_def load_group(1) by auto
  have "\<forall>q \<in> set (passed @ [pn]). loadable q \<longrightarrow> protos1 AND pn_type q AND NOT (available_protocols core1) = 0"
    using p(2) g unfolding and_and_not_eq_0_iff by auto
  with p(1) have "groups_loaded core1 (Loading pns protos1)"
    unfolding groups_loaded_def by (auto intro!: exI [of _ "passed @ [pn]"])
  with g told show ?thesis unfolding told_inv_def load_group(1,2) by (simp add: told_protocols_def)
next
  case (tell_handlers drv dev used protos dev1 used1)
  have "\<forall>pn \<in> set proto_names. loadable pn \<longrightarrow> protos AND pn_type pn AND NOT (available_protocols core) = 0"
    using assms(4) unfolding told_inv_def groups_loaded_def tell_handlers(1) by auto
  then have av: "protos AND decoders AND NOT (available_protocols core) = 0"
    unfolding and_and_not_eq_0_iff decoders_def by (auto simp: bit_unions)
  have "client_inv core (dev, used)" using assms(4) by (simp add: told_inv_def told_protocols_def tell_handlers(1))
  then have "client_inv core (dev1\<lparr>enabled_protocols := protos\<rparr>, used1)"
    using assms(3) by (intro change_keeps [OF _ _ av tell_handlers(4)]) (simp_all add: core_inv_def client_inv_def)
  then show ?thesis
    unfolding tell_handlers(2,3) by (simp add: told_inv_def told_protocols_def groups_loaded_def handlers_arrive.none)
next
  case (store_enabled dev used protos)
  with assms(4) show ?thesis by (simp add: told_inv_def told_protocols_def groups_loaded_def handlers_arrive.none)
qed

text \<open>A device without protocols is in use by no handler, whatever handlers there are.\<close>

lemma without_protocols: "told_inv core ((dev, used), Idle) \<Longrightarrow> enabled_protocols dev = 0 \<Longrightarrow> told_inv core1 ((dev, used), Idle)"
  by (simp add: told_inv_def client_inv_def told_protocols_def groups_loaded_def)

lemma told_inv_raw: "told_inv core ((dev\<lparr>raw := x\<rparr>, used), pg) \<longleftrightarrow> told_inv core ((dev, used), pg)"
  by (simp add: told_inv_def client_inv_def told_protocols_def split: progress.split)

lemma told_inv_list: "told_inv (core\<lparr>client_list := cs\<rparr>) c \<longleftrightarrow> told_inv core c"
  by (simp add: told_inv_def client_inv_def groups_loaded_def)

lemma told_inv_idle: "told_inv core (c, Idle) \<longleftrightarrow> client_inv core c"
  by (simp add: told_inv_def told_protocols_def groups_loaded_def client_inv_def)

lemma core_inv_list: "core_inv (core\<lparr>client_list := cs\<rparr>) \<longleftrightarrow> core_inv core"
  by (simp add: core_inv_def handlers_ok_def)

lemma set_without: "set (take i xs @ drop (Suc i) xs) \<subseteq> set xs"
  by (auto dest: in_set_takeD in_set_dropD)

lemma zip_without: "length xs = length ys \<Longrightarrow> zip (take i xs @ drop (Suc i) xs) (take i ys @ drop (Suc i) ys) = take i (zip xs ys) @ drop (Suc i) (zip xs ys)"
  by (simp add: take_zip drop_zip)

lemma registry_invI:
  "core_inv (reg_core r) \<Longrightarrow> length (listed r) = length (client_list (reg_core r)) \<Longrightarrow>
   (\<And>c. c \<in> set (zip (client_list (reg_core r)) (listed r)) \<Longrightarrow> told_inv (reg_core r) c) \<Longrightarrow>
   (\<And>c. c \<in> set (making r) \<Longrightarrow> told_inv (reg_core r) c) \<Longrightarrow> registry_inv r"
  by (auto simp: registry_inv_def devices_def)

lemma registry_invD:
  assumes "registry_inv r"
  shows "core_inv (reg_core r)" "length (listed r) = length (client_list (reg_core r))"
    "c \<in> set (zip (client_list (reg_core r)) (listed r)) \<Longrightarrow> told_inv (reg_core r) c" "c \<in> set (making r) \<Longrightarrow> told_inv (reg_core r) c"
  using assms by (auto simp: registry_inv_def devices_def)

text \<open>The handlers go while all is quiet.\<close>

lemma quiet_unregister:
  assumes "registry_quiet r" "registry_inv r"
  shows "registry_inv (r\<lparr>reg_core := ir_raw_handler_unregister (reg_core r) i\<rparr>)"
proof -
  let ?core1 = "ir_raw_handler_unregister (reg_core r) i"
  note inv = registry_invD [OF assms(2)]
  have idle: "listed r = replicate (length (client_list (reg_core r))) Idle"
    using assms(1) inv(2) by (intro replicate_eqI) (auto simp: registry_quiet_def)
  have zip: "c \<in> set (zip xs (replicate (length xs) Idle)) \<longleftrightarrow> fst c \<in> set xs \<and> snd c = Idle" for c :: client and xs
    by (induction xs) (auto simp: prod_eq_iff)
  have "\<forall>c \<in> set (client_list (reg_core r)). client_inv (reg_core r) c"
    using inv(3) unfolding idle zip by (metis fst_conv snd_conv told_inv_idle)
  note keeps = unregister_keeps [OF inv(1) this, of i]
  have len: "length (client_list ?core1) = length (client_list (reg_core r))" by (simp add: ir_raw_handler_unregister_def Let_def)
  show ?thesis
  proof (rule registry_invI; simp)
    show "core_inv ?core1" using keeps by blast
    show "length (listed r) = length (client_list ?core1)" using inv(2) len by simp
  next
    fix c assume "c \<in> set (zip (client_list ?core1) (listed r))"
    then have "fst c \<in> set (client_list ?core1)" "snd c = Idle" unfolding idle len [symmetric] zip by simp_all
    with keeps show "told_inv ?core1 c" by (metis prod.collapse told_inv_idle)
  next
    fix c assume c: "c \<in> set (making r)"
    obtain dev used pg where [simp]: "c = ((dev, used), pg)" by (metis surj_pair)
    have "pg = Idle" "enabled_protocols dev = 0" using assms(1) c by (auto simp: registry_quiet_def)
    with inv(4) [OF c] show "told_inv ?core1 c" by (simp add: without_protocols)
  qed
qed

lemma registry_step_keeps:
  assumes "loads_handlers request" "registry_step request r r1" "registry_inv r"
  shows "registry_inv r1"
  using assms(2)
proof cases
  note inv = registry_invD [OF assms(3)]
  {
    case (handler_register hh)
    have "told_inv (ir_raw_handler_register (reg_core r) hh) c" if "told_inv (reg_core r) c" for c
      by (rule told_arrive [OF handlers_arrive.one [OF handlers_arrive.none handler_register(2)] inv(1) that])
    with register_keeps(1) [OF inv(1) handler_register(2)] inv show ?thesis
      unfolding handler_register(1) by (intro registry_invI) (simp_all add: ir_raw_handler_register_def)
  next
    case (handler_unregister i)
    with assms(3) show ?thesis by (simp add: quiet_unregister)
  next
    case (device_make dev dev1)
    have "enabled_protocols dev1 = 0" using device_make(2,3) by (auto simp: ir_raw_event_prepare_def)
    then have "told_inv (reg_core r) ((dev1, []), Idle)" by (simp add: told_inv_idle client_inv_def)
    with inv show ?thesis unfolding device_make(1) by (intro registry_invI) auto
  next
    case (making_change i core1 c1)
    have "told_inv (reg_core r) (making r ! i)" using inv(4) making_change(2) by simp
    note ch = change_step_keeps [OF assms(1) making_change(3) inv(1) this]
    note arr = arrive_keeps [OF conjunct1 [OF ch] inv(1)] and told = told_arrive [OF conjunct1 [OF ch] inv(1)]
    show ?thesis
      unfolding making_change(1)
      using inv ch arr told by (intro registry_invI) (auto dest!: set_update_subset_insert [THEN subsetD])
  next
    case (device_list i c pg started core1 ret)
    have c: "told_inv (reg_core r) (c, pg)" using inv(4) device_list(2,3) by (metis nth_mem)
    have rest: "told_inv (reg_core r) d" if "d \<in> set (take i (making r) @ drop (Suc i) (making r))" for d
      using inv(4) that set_without by fast
    show ?thesis
    proof (cases started)
      case (Inl e)
      with device_list(4) have "core1 = reg_core r" "ret = Inl e" by (simp_all add: ir_raw_event_register_def)
      with inv rest show ?thesis unfolding device_list(1) by (intro registry_invI) auto
    next
      case (Inr u)
      obtain dev used where [simp]: "c = (dev, used)" by (cases c)
      obtain raw1 where core1: "core1 = (reg_core r)\<lparr>client_list := client_list (reg_core r) @ [(dev\<lparr>raw := raw1\<rparr>, used)]\<rparr>" and ret: "ret = Inr ()"
        using Inr device_list(4) by (auto simp: ir_raw_event_register_def)
      show ?thesis
        using inv rest c unfolding device_list(1) core1 ret
        by (intro registry_invI) (auto simp: core_inv_list told_inv_list told_inv_raw)
    qed
  next
    case (device_fail i)
    show ?thesis unfolding device_fail(1) using inv set_without [of i "making r"] by (intro registry_invI) auto
  next
    case (listed_change i core1 c1 pg1)
    have "told_inv (reg_core r) (client_list (reg_core r) ! i, listed r ! i)"
      using inv(2) listed_change(2) by (intro inv(3)) (auto simp: in_set_zip intro!: exI [of _ i])
    note ch = change_step_keeps [OF assms(1) listed_change(3) inv(1) this]
    note arr = arrive_keeps [OF conjunct1 [OF ch] inv(1)] and told = told_arrive [OF conjunct1 [OF ch] inv(1)]
    show ?thesis
      unfolding listed_change(1)
      using inv ch arr told
      by (intro registry_invI)
        (auto simp: core_inv_list told_inv_list zip_update dest!: set_update_subset_insert [THEN subsetD])
  next
    case (device_unregister i core1 gone)
    show ?thesis
    proof (cases "i < length (client_list (reg_core r))")
      case True
      then have core1: "core1 = (reg_core r)\<lparr>client_list := take i (client_list (reg_core r)) @ drop (Suc i) (client_list (reg_core r))\<rparr>"
        using device_unregister(2) by (auto simp: ir_raw_event_unregister_def Let_def split: prod.splits)
      show ?thesis
        unfolding device_unregister(1) core1
      proof (rule registry_invI; simp add: core_inv_list told_inv_list del: zip_append)
        fix c assume "c \<in> set (zip (take i (client_list (reg_core r)) @ drop (Suc i) (client_list (reg_core r))) (take i (listed r) @ drop (Suc i) (listed r)))"
        then have "c \<in> set (zip (client_list (reg_core r)) (listed r))"
          using set_without unfolding zip_without [OF inv(2) [symmetric]] by fast
        then show "told_inv (reg_core r) c" by (rule inv(3))
      qed (use inv in auto)
    next
      case False
      with device_unregister inv(2) have "r1 = r" by (cases r) (simp add: ir_raw_event_unregister_def)
      with assms(3) show ?thesis by simp
    qed
  }
qed

lemma registry_reachable_inv:
  assumes "loads_handlers request" "registry_reachable request r"
  shows "registry_inv r"
  using assms(2)
proof induction
  case empty
  show ?case by (simp add: registry_inv_def core_inv_def handlers_ok_def no_devices_def devices_def)
next
  case (step r r1)
  show ?case by (rule registry_step_keeps [OF assms(1) step(2,3)])
qed

text \<open>
  C19: Whatever handlers and devices come and go and however the protocols change, step by step and interleaved, a handler is in use by a device, listed or
  being registered, exactly when one of its protocols is among those the handlers were last told of: the enabled ones, or during a change, after
  \<^verbatim>\<open>change_protocol\<close>, the ones that will be stored. In use means that \<^verbatim>\<open>raw_register\<close> has been called once more than \<^verbatim>\<open>raw_unregister\<close>, otherwise
  as often. Every such protocol in a group with a decoder has a registered handler (other and unknown have none), and the protocols that are reported as available
  are those of the handlers. The condition is that no handler is unregistered while a change is under way or a device with protocols is not yet
  listed; the code does not ensure it.
\<close>

theorem handlers_used_iff_enabled:
  assumes "loads_handlers request" "registry_reachable request r"
  shows "ir_raw_get_allowed_protocols (reg_core r) = foldr (\<lambda>hh w. protocols hh OR w) (handler_list (reg_core r)) 0 \<and>
    length (listed r) = length (client_list (reg_core r)) \<and>
    (\<forall>((dev, used), pg) \<in> set (zip (client_list (reg_core r)) (listed r) @ making r).
      let protos = (case pg of Told protos \<Rightarrow> protos | _ \<Rightarrow> enabled_protocols dev) in
      (\<forall>hh \<in> set (handler_list (reg_core r)). count_list used (protocols hh) = of_bool (protos AND protocols hh \<noteq> 0)) \<and>
      set used \<subseteq> protocols ` set (handler_list (reg_core r)) \<and>
      protos AND decoders AND NOT (ir_raw_get_allowed_protocols (reg_core r)) = 0)"
proof (intro conjI ballI, goal_cases)
  note inv = registry_invD [OF registry_reachable_inv [OF assms]]
  case 1
  show ?case
    using inv(1) by (intro bit_word_eqI) (simp add: bit_unions core_inv_def handlers_ok_def ir_raw_get_allowed_protocols_def)
  case 2
  show ?case by (rule inv(2))
  case (3 c)
  obtain dev used pg where [simp]: "c = ((dev, used), pg)" by (metis surj_pair)
  define protos where "protos = (case pg of Told protos \<Rightarrow> protos | _ \<Rightarrow> enabled_protocols dev)"
  have told: "told_protocols c = protos" by (cases pg) (simp_all add: told_protocols_def protos_def)
  have "told_inv (reg_core r) c" using inv(3,4) 3 by auto
  then have c: "client_inv (reg_core r) (dev\<lparr>enabled_protocols := protos\<rparr>, used)" by (simp add: told_inv_def told [simplified])
  have "p \<in> protocols ` set (handler_list (reg_core r))" if "p \<in> set used" for p
  proof (rule ccontr)
    assume "p \<notin> protocols ` set (handler_list (reg_core r))"
    with c have "count_list used p = 0" by (simp add: client_inv_def)
    with that show False by (simp add: count_list_0_iff)
  qed
  with c have "(\<forall>hh \<in> set (handler_list (reg_core r)). count_list used (protocols hh) = of_bool (protos AND protocols hh \<noteq> 0)) \<and>
      set used \<subseteq> protocols ` set (handler_list (reg_core r)) \<and> protos AND decoders AND NOT (ir_raw_get_allowed_protocols (reg_core r)) = 0"
    by (auto simp: client_inv_def ir_raw_get_allowed_protocols_def)
  then show ?case by (simp add: Let_def flip: protos_def)
qed

text \<open>
  Without that condition it fails. A handler that is unregistered while a device that has its protocols enabled is not yet listed does not see the
  device: when the device is listed it has protocols enabled that nothing decodes, and the handler's \<^verbatim>\<open>raw_register\<close> has never been undone.
\<close>

lemma unload_misses_new_device:
  assumes "core_inv core" "i < length (handler_list core)" "client_inv core (dev, used)"
    "enabled_protocols dev AND protocols (handler_list core ! i) \<noteq> 0"
  shows "\<exists>core1 dev1. ir_raw_event_register (Inr ()) (ir_raw_handler_unregister core i) (dev, used) = (core1, Inr ()) \<and>
    (dev1, used) \<in> set (client_list core1) \<and> protocols (handler_list core ! i) \<in> set used \<and>
    enabled_protocols dev1 AND protocols (handler_list core ! i) \<noteq> 0 \<and> ir_raw_get_allowed_protocols core1 AND protocols (handler_list core ! i) = 0"
proof -
  let ?p = "protocols (handler_list core ! i)"
  have "count_list used ?p = 1" using assms(2-4) by (simp add: client_inv_def)
  then have "?p \<in> set used" by (metis count_list_0_iff zero_neq_one)
  moreover have "available_protocols (ir_raw_handler_unregister core i) AND ?p = 0"
    using assms(2) unfolding and_eq_0_iff by (simp add: ir_raw_handler_unregister_def Let_def bit_and_iff bit_not_iff)
  ultimately show ?thesis using assms(4) by (auto simp: ir_raw_event_register_def ir_raw_get_allowed_protocols_def)
qed

section \<open>A concrete registry\<close>

definition example_module :: "u64 list ir_raw_handler" where
  "example_module = \<lparr>protocols = rc_proto_bits [RC_PROTO_NEC, RC_PROTO_NECX, RC_PROTO_NEC32], decode = (\<lambda>ev d. d), encode = None, carrier = 38000,
     h_min_timeout = 5625000, raw_register = Some ((#) (rc_proto_bits [RC_PROTO_NEC, RC_PROTO_NECX, RC_PROTO_NEC32])),
     raw_unregister = Some (remove1 (rc_proto_bits [RC_PROTO_NEC, RC_PROTO_NECX, RC_PROTO_NEC32]))\<rparr>"

text \<open>A loader that knows one module and loads it when it is asked for.\<close>

definition example_loader :: "u64 list module_loader" where
  "example_loader m core =
     (if m \<noteq> ''ir-nec-decoder'' then (core, - 2)
      else if protocols example_module AND available_protocols core = 0 then (ir_raw_handler_register core example_module, 0) else (core, 0))"

definition example_receiver :: raw_dev where
  "example_receiver = \<lparr>raw = None, idle = False, timeout = IR_DEFAULT_TIMEOUT, min_timeout = 1000, max_timeout = 200000000, enabled_protocols = 0\<rparr>"

definition no_driver :: "'h raw_driver" where
  "no_driver = \<lparr>s_idle = None, s_timeout = None\<rparr>"

lemma example_loads: "loads_handlers example_loader"
  unfolding loads_handlers_def
proof (intro allI)
  fix m core
  have "counted example_module" unfolding counted_def by (simp add: example_module_def) code_simp
  then have "handlers_arrive core (ir_raw_handler_register core example_module)" if "protocols example_module AND available_protocols core = 0"
    using that by (intro handlers_arrive.one [OF handlers_arrive.none]) (simp add: acceptable_def)
  then show "handlers_arrive core (fst (example_loader m core))" by (simp add: example_loader_def handlers_arrive.none)
qed

definition empty_core :: "u64 list raw_core" where
  "empty_core = \<lparr>handler_list = [], client_list = [], available_protocols = 0\<rparr>"

lemma example_load:
  "ir_raw_load_modules example_loader empty_core (rc_proto_bits [RC_PROTO_NEC, RC_PROTO_XMP]) =
   (ir_raw_handler_register empty_core example_module, rc_proto_bit RC_PROTO_NEC)"
  unfolding ir_raw_load_modules_def proto_names_def example_loader_def empty_core_def
  by (simp add: ir_raw_get_allowed_protocols_def rc_proto_bits_def rc_proto_bit_def ir_raw_handler_register_def example_module_def)

text \<open>A loader whose one module always brings its handler, and the group of the module.\<close>

definition nec_loader :: "u64 list module_loader" where
  "nec_loader m core = (if m = ''ir-nec-decoder'' then (ir_raw_handler_register core example_module, 0) else (core, - 2))"

definition nec_group :: proto_name where
  "nec_group = \<lparr>pn_type = rc_proto_bits [RC_PROTO_NEC, RC_PROTO_NECX, RC_PROTO_NEC32], pn_name = ''nec'', pn_module = Some ''ir-nec-decoder''\<rparr>"

lemma nec_loader_grows: "only_grows nec_loader"
  by (simp add: only_grows_def nec_loader_def ir_raw_handler_register_def bit_or_iff)

lemma nec_group_works: "nec_group \<in> set proto_names" "module_works nec_loader nec_group"
proof -
  show "nec_group \<in> set proto_names" by (simp add: nec_group_def proto_names_def)
  have "pn_type nec_group AND NOT (available_protocols core OR protocols example_module) = 0" for core :: "u64 list raw_core"
    unfolding and_not_eq_0_iff by (simp add: nec_group_def example_module_def bit_or_iff)
  then show "module_works nec_loader nec_group"
    by (simp add: module_works_def nec_group_def nec_loader_def ir_raw_handler_register_def)
qed

text \<open>A device that wants NEC in all variants and XMP, of which only the first has a module.\<close>

theorem loaded_protocols_available_witness:
  "\<exists>core' p'. ir_raw_load_modules nec_loader empty_core (pn_type nec_group OR rc_proto_bit RC_PROTO_XMP) = (core', p') \<and>
     p' AND decoders AND NOT (available_protocols core') = 0 \<and>
     (pn_type nec_group OR rc_proto_bit RC_PROTO_XMP) AND pn_type nec_group AND NOT p' = 0"
proof -
  obtain core' p' where l: "ir_raw_load_modules nec_loader empty_core (pn_type nec_group OR rc_proto_bit RC_PROTO_XMP) = (core', p')"
    by fastforce
  with loaded_protocols_available [OF nec_loader_grows l] nec_group_works show ?thesis by blast
qed

text \<open>A device is registered step by step: the load of a device that is being made is that of \<^verbatim>\<open>ir_raw_load_modules\<close>.\<close>

lemma load_modules_Cons:
  "load_modules request (pn # pns) core p = (case load_modules request [pn] core p of (core1, p1) \<Rightarrow> load_modules request pns core1 p1)"
  by (simp add: Let_def split: option.split prod.split)

lemma making_load:
  "registry_reachable request r \<Longrightarrow> i < length (making r) \<Longrightarrow> making r ! i = (c, Loading pns p) \<Longrightarrow>
   load_modules request pns (reg_core r) p = (core1, p1) \<Longrightarrow>
   registry_reachable request (r\<lparr>reg_core := core1, making := (making r)[i := (c, Loading [] p1)]\<rparr>)"
proof (induction pns arbitrary: r p)
  case Nil
  then have "core1 = reg_core r" "(making r)[i := (c, Loading [] p1)] = making r" by (simp_all add: list_update_same_conv)
  with Nil.prems(1) show ?case by simp
next
  case (Cons pn pns)
  obtain core2 p2 where g: "load_modules request [pn] (reg_core r) p = (core2, p2)" by fastforce
  let ?r = "r\<lparr>reg_core := core2, making := (making r)[i := (c, Loading pns p2)]\<rparr>"
  have "change_step request (reg_core r) (making r ! i) core2 (c, Loading pns p2)"
    unfolding Cons.prems(3) by (rule load_group [OF g])
  then have "registry_reachable request ?r" by (intro registry_reachable.step [OF Cons.prems(1)] making_change [OF Cons.prems(2)])
  moreover have "load_modules request pns core2 p2 = (core1, p1)"
    using Cons.prems(4) load_modules_Cons [of request pn pns "reg_core r" p] by (simp only: g split)
  then have "load_modules request pns (reg_core ?r) p2 = (core1, p1)" by simp
  ultimately show ?case using Cons.IH [of ?r p2] Cons.prems(2) by simp
qed

definition example_dev :: raw_dev where
  "example_dev = (fst (change_protocol [example_module] (no_driver :: unit raw_driver) (fst (ir_raw_event_prepare True example_receiver)) [] () (rc_proto_bit RC_PROTO_NEC)))
     \<lparr>enabled_protocols := rc_proto_bit RC_PROTO_NEC\<rparr>"

definition example_registry :: registry where
  "example_registry = \<lparr>reg_core = fst (ir_raw_event_register (Inr ()) (ir_raw_handler_register empty_core example_module) (example_dev, [protocols example_module])),
     listed = [Idle], making = []\<rparr>"

lemma example_change:
  "\<exists>dev. change_protocol [example_module] no_driver (fst (ir_raw_event_prepare True example_receiver)) [] () (rc_proto_bit RC_PROTO_NEC) =
     (dev, [protocols example_module], ()) \<and> dev\<lparr>enabled_protocols := rc_proto_bit RC_PROTO_NEC\<rparr> = example_dev"
  by (simp add: example_dev_def change_protocol_def Let_def no_driver_def ir_raw_event_prepare_def example_receiver_def example_module_def
      rc_proto_bits_def rc_proto_bit_def)

lemma example_registry_reachable: "registry_reachable example_loader example_registry"
proof -
  let ?core = "ir_raw_handler_register empty_core example_module"
  let ?dev = "fst (ir_raw_event_prepare True example_receiver)"
  let ?r = "\<lambda>core m. \<lparr>reg_core = core, listed = [], making = [m]\<rparr>"
  obtain dev1 where ch: "change_protocol (handler_list ?core) no_driver ?dev [] () (rc_proto_bit RC_PROTO_NEC) = (dev1, [protocols example_module], ())"
    "dev1\<lparr>enabled_protocols := rc_proto_bit RC_PROTO_NEC\<rparr> = example_dev"
    using example_change by (auto simp: ir_raw_handler_register_def empty_core_def)
  have made: "registry_reachable example_loader (?r empty_core ((?dev, []), Idle))"
    using registry_reachable.step [OF registry_reachable.empty device_make [of example_receiver ?dev]]
    by (simp add: no_devices_def empty_core_def example_receiver_def ir_raw_event_prepare_def)
  have change: "registry_reachable example_loader (?r core1 c1)"
    if "registry_reachable example_loader (?r core c)" "change_step example_loader core c core1 c1" for core c core1 c1
    using registry_reachable.step [OF that(1) making_change [of 0 _ _ core1 c1]] that(2) by simp
  have begun: "registry_reachable example_loader (?r empty_core ((?dev, []), Loading proto_names (rc_proto_bits [RC_PROTO_NEC, RC_PROTO_XMP])))"
    by (rule change [OF made begin_change])
  have "registry_reachable example_loader (?r ?core ((?dev, []), Loading [] (rc_proto_bit RC_PROTO_NEC)))"
    using making_load [OF begun, of 0] example_load by (simp add: ir_raw_load_modules_def)
  from change [OF change [OF this tell_handlers [OF ch(1)]] store_enabled]
  have "registry_reachable example_loader (?r ?core ((example_dev, [protocols example_module]), Idle))" by (simp add: ch(2))
  from registry_reachable.step [OF this device_list [of 0 _ _ _ "Inr ()"]]
  show ?thesis by (simp add: example_registry_def ir_raw_event_register_def)
qed

theorem handlers_used_iff_enabled_witness:
  "registry_reachable example_loader example_registry \<and> ir_raw_get_allowed_protocols (reg_core example_registry) = protocols example_module \<and>
   (\<exists>dev used. client_list (reg_core example_registry) = [(dev, used)] \<and> count_list used (protocols example_module) = 1)"
proof -
  have "rc_proto_bit RC_PROTO_NEC AND protocols example_module \<noteq> 0"
    by (simp add: example_module_def rc_proto_bits_def rc_proto_bit_def)
  with handlers_used_iff_enabled [OF example_loads example_registry_reachable] show ?thesis
    by (simp add: example_registry_reachable) (simp add: example_registry_def ir_raw_event_register_def ir_raw_handler_register_def empty_core_def example_dev_def)
qed

theorem change_protocol_timeout_witness:
  "\<exists>dev' d' h'. change_protocol [example_module] no_driver example_receiver [] () (rc_proto_bit RC_PROTO_NEC) = (dev', d', h') \<and>
     1000 \<le> timeout dev' \<and> timeout dev' \<le> 200000000"
  using change_protocol_timeout [of example_receiver no_driver "[example_module]" "rc_proto_bit RC_PROTO_NEC" "[]" "()"]
  by (auto simp: example_receiver_def no_driver_def example_module_def)

end
