(* ===== verification/Rc_Table.thy ===== *)
theory Rc_Table
  imports Rc_Proto
begin

text \<open>
  The scancode table of a remote control device, the first half of \<^verbatim>\<open>rc/rc-main.c\<close>: a sorted array
  of scancode and keycode pairs that grows and shrinks, with the set of keys the input device announces.

  Accesses outside the array are \<^const>\<open>None\<close>. \<^verbatim>\<open>kmalloc\<close> is a parameter of the operations that
  call it: it fails (\<^const>\<open>None\<close>) or returns an array with arbitrary contents. \<^verbatim>\<open>bsearch\<close>,
  \<^verbatim>\<open>roundup_pow_of_two\<close> and \<^verbatim>\<open>input_scancode_to_scalar\<close> are kernel functions and parameters too.
  Unsigned 32 bit quantities that count entries or bytes are natural numbers with their wrap-around written out.
\<close>

section \<open>Data\<close>

definition IR_TAB_MIN_SIZE :: nat where "IR_TAB_MIN_SIZE = 256"
definition IR_TAB_MAX_SIZE :: nat where "IR_TAB_MAX_SIZE = 8192"

text \<open>Two key codes of the input layer that mean that no key is mapped.\<close>

definition KEY_RESERVED :: u32 where "KEY_RESERVED = 0"
definition KEY_UNKNOWN :: u32 where "KEY_UNKNOWN = 240"

record rc_map_table =
  e_scancode :: u32
  e_keycode :: u32

record rc_map =
  scan :: "rc_map_table list"
  map_size :: nat
  map_len :: nat
  map_alloc :: nat
  map_proto :: rc_proto
  map_name :: "string option"

text \<open>\<^verbatim>\<open>sizeof(struct rc_map_table)\<close>, and the value \<^verbatim>\<open>-1U\<close> that stands for no index.\<close>

definition entry_size :: nat where "entry_size = 8"
definition no_index :: nat where "no_index = 2 ^ 32 - 1"

text \<open>What the table operations use of \<^verbatim>\<open>struct rc_dev\<close> and of its input device.\<close>

record rc_keytab =
  tab :: rc_map
  keybit :: "u32 set"
  scancode_mask :: u32

type_synonym kmalloc = "nat \<Rightarrow> rc_map_table list option"

text \<open>An entry of \<^verbatim>\<open>struct input_keymap_entry\<close> as the two ioctls use it.\<close>

record input_keymap_entry =
  by_index :: bool
  ke_index :: nat
  ke_keycode :: u32
  ke_scancode :: "u8 list"

section \<open>Operations\<close>

definition ir_create_table ::
  "(nat \<Rightarrow> nat) \<Rightarrow> (string \<Rightarrow> string option) \<Rightarrow> kmalloc \<Rightarrow> rc_map \<Rightarrow> string option \<Rightarrow> rc_proto \<Rightarrow> nat \<Rightarrow> rc_map \<times> unit result" where
  "ir_create_table roundup_pow_of_two kstrdup kmalloc rc_map name proto n =
     (case Option.bind name kstrdup of
        None \<Rightarrow> (rc_map\<lparr>map_name := None\<rparr>, Inl ENOMEM)
      | Some name \<Rightarrow>
          let alloc = roundup_pow_of_two (n * entry_size) mod 2 ^ 32;
              rc_map = rc_map\<lparr>map_name := Some name, map_proto := proto, map_alloc := alloc,
                 map_size := alloc div entry_size\<rparr> in
          case kmalloc alloc of
            None \<Rightarrow> (rc_map\<lparr>map_name := None, scan := []\<rparr>, Inl ENOMEM)
          | Some buf \<Rightarrow> (rc_map\<lparr>scan := buf\<rparr>, Inr ()))"

definition ir_free_table :: "rc_map \<Rightarrow> rc_map" where
  "ir_free_table rc_map = rc_map\<lparr>map_size := 0, map_name := None, scan := []\<rparr>"

definition ir_resize_table :: "kmalloc \<Rightarrow> rc_map \<Rightarrow> (rc_map \<times> unit result) option" where
  "ir_resize_table kmalloc rc_map =
     (let oldalloc = map_alloc rc_map in
      if map_size rc_map = map_len rc_map \<and> oldalloc \<ge> IR_TAB_MAX_SIZE then Some (rc_map, Inl ENOMEM)
      else
        let newalloc = (if map_size rc_map = map_len rc_map then oldalloc * 2 mod 2 ^ 32 else oldalloc);
            newalloc = (if map_len rc_map * 3 mod 2 ^ 32 < map_size rc_map \<and> oldalloc > IR_TAB_MIN_SIZE
                        then newalloc div 2 else newalloc) in
        if newalloc = oldalloc then Some (rc_map, Inr ())
        else
          case kmalloc newalloc of
            None \<Rightarrow> Some (rc_map, Inl ENOMEM)
          | Some newscan \<Rightarrow> do {
              es \<leftarrow> mem_read (scan rc_map) 0 (map_len rc_map);
              newscan \<leftarrow> mem_write newscan 0 es;
              Some (rc_map\<lparr>scan := newscan, map_alloc := newalloc, map_size := newalloc div entry_size\<rparr>, Inr ())
            })"

text \<open>The search for another entry with the old keycode.\<close>

definition keycode_in_use :: "rc_map \<Rightarrow> u32 \<Rightarrow> bool option" where
  "keycode_in_use rc_map old_keycode =
     map_option (list_ex (\<lambda>e. e_keycode e = old_keycode)) (mem_read (scan rc_map) 0 (map_len rc_map))"

definition ir_update_mapping :: "kmalloc \<Rightarrow> rc_keytab \<Rightarrow> nat \<Rightarrow> u32 \<Rightarrow> (rc_keytab \<times> u32) option" where
  "ir_update_mapping kmalloc dev index new_keycode = do {
     let rc_map = tab dev;
     e \<leftarrow> mem_get (scan rc_map) index;
     let old_keycode = e_keycode e;
     (rc_map, bits) \<leftarrow>
       (if new_keycode = KEY_RESERVED \<or> new_keycode = KEY_UNKNOWN then do {
          let len = map_len rc_map - 1;
          es \<leftarrow> mem_read (scan rc_map) (index + 1) (len - index);
          sc \<leftarrow> mem_write (scan rc_map) index es;
          Some (rc_map\<lparr>map_len := len, scan := sc\<rparr>, keybit dev)
        } else do {
          sc \<leftarrow> mem_set (scan rc_map) index (e\<lparr>e_keycode := new_keycode\<rparr>);
          Some (rc_map\<lparr>scan := sc\<rparr>, insert new_keycode (keybit dev))
        });
     if old_keycode \<noteq> KEY_RESERVED then do {
       used \<leftarrow> keycode_in_use rc_map old_keycode;
       let bits = (if used then insert old_keycode bits else bits - {old_keycode});
       (rc_map, _) \<leftarrow> ir_resize_table kmalloc rc_map;
       Some (dev\<lparr>tab := rc_map, keybit := bits\<rparr>, old_keycode)
     } else Some (dev\<lparr>tab := rc_map, keybit := bits\<rparr>, old_keycode)
   }"

text \<open>The search loop: the index of the scancode (\<open>Inl\<close>), or where it has to be inserted (\<open>Inr\<close>).\<close>

function establish_loop :: "rc_map \<Rightarrow> u32 \<Rightarrow> nat \<Rightarrow> (nat + nat) option" where
  "establish_loop rc_map sc i =
     (if i < map_len rc_map then do {
        e \<leftarrow> mem_get (scan rc_map) i;
        if e_scancode e = sc then Some (Inl i)
        else if e_scancode e \<ge> sc then Some (Inr i)
        else establish_loop rc_map sc (i + 1)
      } else Some (Inr i))"
  by pat_completeness auto

termination by (relation "measure (\<lambda>(m, sc, i). map_len m - i)") auto

declare establish_loop.simps [simp del]

definition ir_establish_scancode :: "kmalloc \<Rightarrow> rc_keytab \<Rightarrow> u32 \<Rightarrow> bool \<Rightarrow> (rc_keytab \<times> nat) option" where
  "ir_establish_scancode kmalloc dev sc resize = do {
     let sc = (if scancode_mask dev \<noteq> 0 then sc AND scancode_mask dev else sc);
     r \<leftarrow> establish_loop (tab dev) sc 0;
     case r of
       Inl i \<Rightarrow> Some (dev, i)
     | Inr i \<Rightarrow> do {
         (rc_map, full) \<leftarrow>
           (if map_size (tab dev) = map_len (tab dev) then
              if \<not> resize then Some (tab dev, True)
              else map_option (\<lambda>(m, r). (m, r \<noteq> Inr ())) (ir_resize_table kmalloc (tab dev))
            else Some (tab dev, False));
         if full then Some (dev\<lparr>tab := rc_map\<rparr>, no_index)
         else do {
           es \<leftarrow> mem_read (scan rc_map) i (map_len rc_map - i);
           s1 \<leftarrow> (if i < map_len rc_map then mem_write (scan rc_map) (i + 1) es else Some (scan rc_map));
           s2 \<leftarrow> mem_set s1 i \<lparr>e_scancode = sc, e_keycode = KEY_RESERVED\<rparr>;
           Some (dev\<lparr>tab := rc_map\<lparr>scan := s2, map_len := map_len rc_map + 1\<rparr>\<rparr>, i)
         }
       }
   }"

definition ir_setkeycode ::
  "(u8 list \<Rightarrow> u32 result) \<Rightarrow> kmalloc \<Rightarrow> rc_keytab \<Rightarrow> input_keymap_entry \<Rightarrow> (rc_keytab \<times> u32 result) option" where
  "ir_setkeycode input_scancode_to_scalar kmalloc dev ke =
     (if by_index ke then
        if ke_index ke \<ge> map_len (tab dev) then Some (dev, Inl EINVAL)
        else map_option (\<lambda>(dev, old). (dev, Inr old)) (ir_update_mapping kmalloc dev (ke_index ke) (ke_keycode ke))
      else
        case input_scancode_to_scalar (ke_scancode ke) of
          Inl e \<Rightarrow> Some (dev, Inl e)
        | Inr sc \<Rightarrow> do {
            (dev, index) \<leftarrow> ir_establish_scancode kmalloc dev sc True;
            if index \<ge> map_len (tab dev) then Some (dev, Inl ENOMEM)
            else map_option (\<lambda>(dev, old). (dev, Inr old)) (ir_update_mapping kmalloc dev index (ke_keycode ke))
          })"

text \<open>The loop of \<^verbatim>\<open>ir_setkeytable\<close> over the entries of the source table; call number \<open>i\<close> of \<^verbatim>\<open>kmalloc\<close> may differ from the others.\<close>

fun setkeytable_loop :: "(nat \<Rightarrow> kmalloc) \<Rightarrow> rc_keytab \<Rightarrow> rc_map_table list \<Rightarrow> (rc_keytab \<times> unit result) option" where
  "setkeytable_loop kmalloc dev [] = Some (dev, Inr ())"
| "setkeytable_loop kmalloc dev (e # es) = do {
     (dev, index) \<leftarrow> ir_establish_scancode (kmalloc (length es)) dev (e_scancode e) False;
     if index \<ge> map_len (tab dev) then Some (dev, Inl ENOMEM)
     else do {
       (dev, _) \<leftarrow> ir_update_mapping (kmalloc (length es)) dev index (e_keycode e);
       setkeytable_loop kmalloc dev es
     }
   }"

definition ir_setkeytable ::
  "(nat \<Rightarrow> nat) \<Rightarrow> (string \<Rightarrow> string option) \<Rightarrow> (nat \<Rightarrow> kmalloc) \<Rightarrow> rc_keytab \<Rightarrow> rc_map \<Rightarrow> (rc_keytab \<times> unit result) option" where
  "ir_setkeytable roundup_pow_of_two kstrdup kmalloc dev from =
     (case ir_create_table roundup_pow_of_two kstrdup (kmalloc (map_size from)) (tab dev)
             (map_name from) (map_proto from) (map_size from) of
        (m, Inl e) \<Rightarrow> Some (dev\<lparr>tab := m\<rparr>, Inl e)
      | (m, Inr _) \<Rightarrow> do {
          es \<leftarrow> mem_read (scan from) 0 (map_size from);
          (dev, rc) \<leftarrow> setkeytable_loop kmalloc (dev\<lparr>tab := m\<rparr>) es;
          Some (case rc of Inl e \<Rightarrow> (dev\<lparr>tab := ir_free_table (tab dev)\<rparr>, Inl e) | Inr _ \<Rightarrow> (dev, Inr ()))
        })"

definition rc_map_cmp :: "u32 \<Rightarrow> rc_map_table \<Rightarrow> int" where
  "rc_map_cmp sc e = (if sc < e_scancode e then - 1 else if sc > e_scancode e then 1 else 0)"

type_synonym bsearch = "u32 \<Rightarrow> rc_map_table list \<Rightarrow> (u32 \<Rightarrow> rc_map_table \<Rightarrow> int) \<Rightarrow> nat option"

definition ir_lookup_by_scancode :: "bsearch \<Rightarrow> rc_map \<Rightarrow> u32 \<Rightarrow> nat option" where
  "ir_lookup_by_scancode bsearch rc_map sc = do {
     es \<leftarrow> mem_read (scan rc_map) 0 (map_len rc_map);
     Some (case bsearch sc es rc_map_cmp of None \<Rightarrow> no_index | Some i \<Rightarrow> i)
   }"

definition ir_getkeycode ::
  "(u8 list \<Rightarrow> u32 result) \<Rightarrow> (u32 \<Rightarrow> u8 list) \<Rightarrow> bsearch \<Rightarrow> rc_keytab \<Rightarrow> input_keymap_entry \<Rightarrow> (input_keymap_entry result) option" where
  "ir_getkeycode input_scancode_to_scalar scancode_bytes bsearch dev ke =
     (case (if by_index ke then Inr 0 else input_scancode_to_scalar (ke_scancode ke)) of
        Inl e \<Rightarrow> Some (Inl e)
      | Inr sc \<Rightarrow> do {
          index \<leftarrow> (if by_index ke then Some (ke_index ke) else ir_lookup_by_scancode bsearch (tab dev) sc);
          if index < map_len (tab dev) then do {
            e \<leftarrow> mem_get (scan (tab dev)) index;
            Some (Inr (ke\<lparr>ke_index := index mod 2 ^ 16, ke_keycode := e_keycode e, ke_scancode := scancode_bytes (e_scancode e)\<rparr>))
          } else if \<not> by_index ke then Some (Inr (ke\<lparr>ke_index := index mod 2 ^ 16, ke_keycode := KEY_RESERVED\<rparr>))
          else Some (Inl EINVAL)
        })"

definition rc_g_keycode_from_table :: "bsearch \<Rightarrow> rc_keytab \<Rightarrow> u32 \<Rightarrow> u32 option" where
  "rc_g_keycode_from_table bsearch dev sc = do {
     index \<leftarrow> ir_lookup_by_scancode bsearch (tab dev) sc;
     if index < map_len (tab dev) then map_option e_keycode (mem_get (scan (tab dev)) index)
     else Some KEY_RESERVED
   }"

section \<open>The table as a map\<close>

abbreviation entries :: "rc_map \<Rightarrow> rc_map_table list" where
  "entries m \<equiv> take (map_len m) (scan m)"

definition ordered :: "rc_map_table list \<Rightarrow> bool" where
  "ordered es \<longleftrightarrow> sorted_wrt (<) (map e_scancode es)"

definition tlookup :: "rc_map_table list \<Rightarrow> u32 \<rightharpoonup> u32" where
  "tlookup es = map_of (map (\<lambda>e. (e_scancode e, e_keycode e)) es)"

definition tkeys :: "rc_map_table list \<Rightarrow> u32 set" where
  "tkeys es = e_keycode ` set es - {KEY_RESERVED}"

lemma ordered_distinct: "ordered es \<Longrightarrow> distinct (map e_scancode es) \<and> distinct es"
  unfolding ordered_def strict_sorted_iff by (auto simp: distinct_map)

lemma tlookup_iff:
  assumes "ordered es"
  shows "tlookup es sc = Some k \<longleftrightarrow> (\<exists>e \<in> set es. e_scancode e = sc \<and> e_keycode e = k)"
proof -
  have "distinct (map fst (map (\<lambda>e. (e_scancode e, e_keycode e)) es))"
    using ordered_distinct [OF assms] by (simp add: comp_def)
  then show ?thesis unfolding tlookup_def by (subst map_of_eq_Some_iff) auto
qed

lemma tlookup_eqI:
  assumes "ordered es" "\<And>k. (\<exists>e \<in> set es. e_scancode e = sc \<and> e_keycode e = k) \<longleftrightarrow> r = Some k"
  shows "tlookup es sc = r"
  using assms tlookup_iff [OF assms(1), of sc] by (metis option.exhaust)

text \<open>Replacing, deleting and inserting an entry.\<close>

lemma ordered_update: "ordered es \<Longrightarrow> i < length es \<Longrightarrow> ordered (es[i := (es ! i)\<lparr>e_keycode := k\<rparr>])"
  unfolding ordered_def map_update by simp (metis list_update_id nth_map)

lemma ordered_delete: "ordered es \<Longrightarrow> ordered (take i es @ drop (Suc i) es)"
proof -
  assume o: "ordered es"
  have "map e_scancode es = take i (map e_scancode es) @ drop i (map e_scancode es)" by simp
  then have "sorted_wrt (<) (take i (map e_scancode es) @ drop i (map e_scancode es))" using o by (simp add: ordered_def)
  then show ?thesis
    unfolding ordered_def sorted_wrt_append map_append take_map [symmetric] drop_map [symmetric]
    by (metis (no_types, lifting) drop_drop in_set_dropD plus_1_eq_Suc sorted_wrt_drop)
qed

lemma ordered_insert:
  assumes "ordered (us @ vs)" "\<forall>e \<in> set us. e_scancode e < sc" "\<forall>e \<in> set vs. sc < e_scancode e"
  shows "ordered (us @ \<lparr>e_scancode = sc, e_keycode = k\<rparr> # vs)"
  using assms by (auto simp: ordered_def sorted_wrt_append)

lemma set_delete:
  assumes "distinct es" "i < length es"
  shows "set (take i es @ drop (Suc i) es) = set es - {es ! i}"
proof -
  have "distinct (take i es @ es ! i # drop (Suc i) es)" using assms by (simp flip: id_take_nth_drop)
  moreover have "set es = set (take i es @ es ! i # drop (Suc i) es)" using assms(2) by (simp flip: id_take_nth_drop)
  ultimately show ?thesis by auto
qed

section \<open>The invariant\<close>

definition tab_inv :: "rc_map \<Rightarrow> bool" where
  "tab_inv m \<longleftrightarrow> length (scan m) = map_size m \<and> map_size m = map_alloc m div 8 \<and> 8 \<le> map_alloc m \<and> map_alloc m < 2 ^ 31 \<and>
     map_len m \<le> map_size m \<and> ordered (entries m)"

definition dev_inv :: "rc_keytab \<Rightarrow> bool" where
  "dev_inv dev \<longleftrightarrow> tab_inv (tab dev) \<and> keybit dev = tkeys (entries (tab dev))"

text \<open>What is relied on of the allocator: the array has the size asked for.\<close>

definition kmalloc_spec :: "kmalloc \<Rightarrow> bool" where
  "kmalloc_spec k \<longleftrightarrow> (\<forall>n a. k n = Some a \<longrightarrow> length a = n div 8)"

lemma resize_table_ok:
  assumes "tab_inv m" "kmalloc_spec k"
  obtains m' r where "ir_resize_table k m = Some (m', r)" "tab_inv m'" "entries m' = entries m" "map_len m' = map_len m"
    "r = Inr () \<Longrightarrow> map_size m = map_len m \<Longrightarrow> map_len m' < map_size m'"
    "r \<noteq> Inr () \<Longrightarrow> m' = m"
    "map_size m = map_len m \<Longrightarrow> map_alloc m < IR_TAB_MAX_SIZE \<Longrightarrow> k (2 * map_alloc m) \<noteq> None \<Longrightarrow> r = Inr ()"
    "\<lbrakk>map_len m * 3 < map_size m; 256 < map_alloc m; k (map_alloc m div 2) \<noteq> None\<rbrakk> \<Longrightarrow> map_size m' = map_alloc m div 2 div 8"
proof -
  define n where "n = (if map_size m = map_len m then 2 * map_alloc m
    else if map_len m * 3 < map_size m \<and> map_alloc m > 256 then map_alloc m div 2 else map_alloc m)"
  note inv = assms(1) [unfolded tab_inv_def]
  have "map_len m * 3 < 2 ^ 32" "map_alloc m * 2 < 2 ^ 32"
    using inv times_div_less_eq_dividend [of 8 "map_alloc m"] by auto
  then have len3: "map_len m * 3 mod 2 ^ 32 = map_len m * 3" "map_alloc m * 2 mod 2 ^ 32 = 2 * map_alloc m"
    by (simp_all only: mod_less mult.commute)
  show thesis
  proof (cases "map_size m = map_len m \<and> IR_TAB_MAX_SIZE \<le> map_alloc m")
    case True
    then have "ir_resize_table k m = Some (m, Inl ENOMEM)" by (simp add: ir_resize_table_def Let_def)
    with True assms(1) show thesis by (intro that [of m "Inl ENOMEM"]) simp_all
  next
    case small: False
    have step: "ir_resize_table k m = (if n = map_alloc m then Some (m, Inr ()) else case k n of
        None \<Rightarrow> Some (m, Inl ENOMEM)
      | Some a \<Rightarrow> do { es \<leftarrow> mem_read (scan m) 0 (map_len m); a \<leftarrow> mem_write a 0 es;
          Some (m\<lparr>scan := a, map_alloc := n, map_size := n div entry_size\<rparr>, Inr ()) })"
    proof -
      have "(if map_len m * 3 mod 2 ^ 32 < map_size m \<and> map_alloc m > IR_TAB_MIN_SIZE
          then (if map_size m = map_len m then map_alloc m * 2 mod 2 ^ 32 else map_alloc m) div 2
          else (if map_size m = map_len m then map_alloc m * 2 mod 2 ^ 32 else map_alloc m)) = n"
        unfolding len3 n_def using inv by (auto simp: IR_TAB_MIN_SIZE_def)
      with small show ?thesis unfolding ir_resize_table_def Let_def by presburger
    qed
    show thesis
    proof (cases "n = map_alloc m")
      case True
      then show thesis using step assms(1) inv by (intro that [of m "Inr ()"]) (auto simp: n_def split: if_splits)
    next
      case ne: False
      show thesis
      proof (cases "k n")
        case None
        with step ne assms(1) show thesis by (intro that [of m "Inl ENOMEM"]) (auto simp: n_def)
      next
        case (Some a)
        then have a: "length a = n div 8" using assms(2) by (simp add: kmalloc_spec_def)
        have n: "8 \<le> n" "n < 2 ^ 31" "map_len m \<le> n div 8" "map_size m = map_len m \<Longrightarrow> map_len m < n div 8"
          using inv ne small by (auto simp: n_def IR_TAB_MAX_SIZE_def split: if_splits)
        let ?m = "m\<lparr>scan := entries m @ drop (map_len m) a, map_alloc := n, map_size := n div 8\<rparr>"
        have "ir_resize_table k m = Some (?m, Inr ())"
          using step ne Some a n(3) inv by (simp add: mem_simps entry_size_def min_absorb2)
        moreover have "tab_inv ?m" "entries ?m = entries m" using inv a n by (simp_all add: tab_inv_def min_absorb2)
        ultimately show thesis using n(4) by (intro that [of ?m "Inr ()"]) (auto simp: n_def)
      qed
    qed
  qed
qed

text \<open>What an update does to the entries.\<close>

definition unmapped :: "u32 \<Rightarrow> bool" where
  "unmapped k \<longleftrightarrow> k = KEY_RESERVED \<or> k = KEY_UNKNOWN"

definition updated :: "rc_map_table list \<Rightarrow> nat \<Rightarrow> u32 \<Rightarrow> rc_map_table list" where
  "updated es i k = (if unmapped k then take i es @ drop (Suc i) es else es[i := (es ! i)\<lparr>e_keycode := k\<rparr>])"

lemma ordered_updated: "ordered es \<Longrightarrow> i < length es \<Longrightarrow> ordered (updated es i k)"
  by (simp add: updated_def ordered_delete ordered_update)

lemma set_updated:
  "ordered es \<Longrightarrow> i < length es \<Longrightarrow>
   set (updated es i k) = set es - {es ! i} \<union> (if unmapped k then {} else {(es ! i)\<lparr>e_keycode := k\<rparr>})"
  using ordered_distinct [of es] set_delete [of es i] set_update_distinct [of es i]
  by (cases "unmapped k") (simp_all only: updated_def if_True if_False Un_empty_right, auto)

lemma tkeys_updated:
  assumes "ordered es" "i < length es"
  shows "tkeys (updated es i k) =
    (let old = e_keycode (es ! i); bits = (if unmapped k then tkeys es else insert k (tkeys es)) in
     if old = KEY_RESERVED then bits
     else if list_ex (\<lambda>e. e_keycode e = old) (updated es i k) then insert old bits else bits - {old})"
  unfolding tkeys_def list_ex_iff set_updated [OF assms] Let_def
  using nth_mem [OF assms(2)] by (cases "unmapped k") (auto simp: unmapped_def image_iff Bex_def, metis+)

lemma update_mapping_ok:
  assumes "dev_inv dev" "kmalloc_spec k" "i < map_len (tab dev)"
  obtains dev' where "ir_update_mapping k dev i kc = Some (dev', e_keycode (entries (tab dev) ! i))" "dev_inv dev'"
    "entries (tab dev') = updated (entries (tab dev)) i kc" "scancode_mask dev' = scancode_mask dev"
    "e_keycode (entries (tab dev) ! i) = KEY_RESERVED \<Longrightarrow> map_size (tab dev') = map_size (tab dev)"
    "\<lbrakk>e_keycode (entries (tab dev) ! i) \<noteq> KEY_RESERVED; \<not> unmapped kc; map_len (tab dev) * 3 < map_size (tab dev);
      256 < map_alloc (tab dev); k (map_alloc (tab dev) div 2) \<noteq> None\<rbrakk> \<Longrightarrow> map_size (tab dev') = map_alloc (tab dev) div 2 div 8"
proof -
  define m where "m = tab dev"
  have inv: "tab_inv m" and bits: "keybit dev = tkeys (entries m)" using assms(1) by (simp_all add: dev_inv_def m_def)
  have i: "i < map_len m" "map_len m \<le> length (scan m)" using assms(3) inv by (simp_all add: m_def tab_inv_def)
  let ?es = "entries m" and ?old = "e_keycode (entries m ! i)"
  let ?bits = "if unmapped kc then keybit dev else insert kc (keybit dev)"
  define m1 where "m1 = (if unmapped kc
    then m\<lparr>map_len := map_len m - 1, scan := take i (scan m) @ take (map_len m - 1 - i) (drop (i + 1) (scan m)) @ drop (map_len m - 1) (scan m)\<rparr>
    else m\<lparr>scan := (scan m)[i := (scan m ! i)\<lparr>e_keycode := kc\<rparr>]\<rparr>)"
  have e1: "entries m1 = updated ?es i kc"
  proof (cases "unmapped kc")
    case True
    from i(1) obtain n where n: "map_len m = Suc n" "i \<le> n" by (cases "map_len m") auto
    have "length (take i (scan m) @ take (n - i) (drop (i + 1) (scan m))) = n" using i n by simp
    then have "take n ((take i (scan m) @ take (n - i) (drop (i + 1) (scan m))) @ drop n (scan m)) =
      take i (scan m) @ take (n - i) (drop (i + 1) (scan m))" by (metis append_eq_conv_conj)
    with True n show ?thesis by (simp add: m1_def updated_def min_def drop_take)
  next
    case False
    with i show ?thesis by (simp add: m1_def updated_def take_update_swap)
  qed
  have inv1: "tab_inv m1"
    using inv i ordered_updated [of ?es i kc] e1 by (auto simp: tab_inv_def m1_def split: if_splits)
  have len1: "map_len m1 \<le> length (scan m1)" using inv1 by (simp add: tab_inv_def)
  have old: "e_keycode (scan m ! i) = ?old" using i(1) by simp
  have w: "mem_read (scan m) (i + 1) (map_len m - 1 - i) = Some (take (map_len m - 1 - i) (drop (i + 1) (scan m)))"
    "mem_write (scan m) i (take (map_len m - 1 - i) (drop (i + 1) (scan m))) =
      Some (take i (scan m) @ take (map_len m - 1 - i) (drop (i + 1) (scan m)) @ drop (map_len m - 1) (scan m))"
    using i by (auto simp: mem_read_def mem_write_def)
  have step: "ir_update_mapping k dev i kc =
     (if ?old \<noteq> KEY_RESERVED then do {
        (rc_map, _) \<leftarrow> ir_resize_table k m1;
        Some (dev\<lparr>tab := rc_map, keybit := if list_ex (\<lambda>e. e_keycode e = ?old) (entries m1) then insert ?old ?bits else ?bits - {?old}\<rparr>, ?old)
      } else Some (dev\<lparr>tab := m1, keybit := ?bits\<rparr>, ?old))"
  proof -
    have g: "mem_get (scan m) i = Some (scan m ! i)" using i by (simp add: mem_get_Some)
    have u: "keycode_in_use m1 x = Some (list_ex (\<lambda>e. e_keycode e = x) (entries m1))" for x
      using len1 by (simp add: keycode_in_use_def mem_read_Some)
    have inner: "(if unmapped kc then do {
          es \<leftarrow> mem_read (scan m) (i + 1) (map_len m - 1 - i);
          sc \<leftarrow> mem_write (scan m) i es;
          Some (m\<lparr>map_len := map_len m - 1, scan := sc\<rparr>, keybit dev)
        } else do {
          sc \<leftarrow> mem_set (scan m) i ((scan m ! i)\<lparr>e_keycode := kc\<rparr>);
          Some (m\<lparr>scan := sc\<rparr>, insert kc (keybit dev))
        }) = Some (m1, ?bits)"
      using mem_set_Some [of i "scan m"] i
      by (cases "unmapped kc") (simp_all only: if_True if_False w m1_def bind.simps)
    show ?thesis
      unfolding ir_update_mapping_def Let_def m_def [symmetric] unmapped_def [symmetric] g bind.simps inner
        prod.case u old by (rule refl)
  qed
  have tk: "tkeys (entries m1) = (if ?old = KEY_RESERVED then ?bits
      else if list_ex (\<lambda>e. e_keycode e = ?old) (entries m1) then insert ?old ?bits else ?bits - {?old})"
    using tkeys_updated [of ?es i kc] inv i unfolding e1 bits by (simp add: tab_inv_def Let_def)
  show thesis
  proof (cases "?old = KEY_RESERVED")
    case True
    with step inv1 tk e1 show thesis
      by (intro that [of "dev\<lparr>tab := m1, keybit := ?bits\<rparr>"]) (simp_all add: dev_inv_def m_def m1_def)
  next
    case False
    from resize_table_ok [OF inv1 assms(2)] obtain m2 r where m2: "ir_resize_table k m1 = Some (m2, r)" "tab_inv m2"
      "entries m2 = entries m1"
      "\<lbrakk>map_len m1 * 3 < map_size m1; 256 < map_alloc m1; k (map_alloc m1 div 2) \<noteq> None\<rbrakk> \<Longrightarrow> map_size m2 = map_alloc m1 div 2 div 8"
      by metis
    have m2': "\<lbrakk>\<not> unmapped kc; map_len m * 3 < map_size m; 256 < map_alloc m; k (map_alloc m div 2) \<noteq> None\<rbrakk> \<Longrightarrow>
        map_size m2 = map_alloc m div 2 div 8" using m2(4) by (simp add: m1_def)
    with m2(1-3) False step tk e1 show thesis
      by (intro that [of "dev\<lparr>tab := m2, keybit := tkeys (entries m1)\<rparr>"]) (simp_all add: dev_inv_def m_def)
  qed
qed

text \<open>The key a scancode is mapped to, \<^const>\<open>KEY_RESERVED\<close> if none.\<close>

definition keymap :: "rc_map_table list \<Rightarrow> u32 \<Rightarrow> u32" where
  "keymap es sc = (case tlookup es sc of None \<Rightarrow> KEY_RESERVED | Some k \<Rightarrow> k)"

lemma keymap_entry: "ordered es \<Longrightarrow> e \<in> set es \<Longrightarrow> keymap es (e_scancode e) = e_keycode e"
  using tlookup_iff [of es "e_scancode e" "e_keycode e"] by (auto simp: keymap_def)

lemma keymap_none: "\<forall>e \<in> set es. e_scancode e \<noteq> sc \<Longrightarrow> keymap es sc = KEY_RESERVED"
  by (auto simp: keymap_def tlookup_def map_of_eq_None_iff split: option.splits dest!: map_of_SomeD)

lemma keymap_cong:
  assumes "ordered es" "ordered es'" "\<And>e. e_scancode e = sc \<Longrightarrow> e \<in> set es \<longleftrightarrow> e \<in> set es'"
  shows "keymap es sc = keymap es' sc"
proof (cases "\<exists>e \<in> set es. e_scancode e = sc")
  case True
  then obtain e where e: "e \<in> set es" "e_scancode e = sc" by blast
  with assms(3) have "e \<in> set es'" by blast
  with e keymap_entry [OF assms(1), of e] keymap_entry [OF assms(2), of e] show ?thesis by simp
next
  case False
  with assms(3) show ?thesis by (metis keymap_none)
qed

lemma keymap_updated:
  assumes "ordered es" "i < length es"
  shows "keymap (updated es i k) = (keymap es)(e_scancode (es ! i) := if unmapped k then KEY_RESERVED else k)"
proof
  fix sc
  let ?e = "es ! i"
  have inj: "e = ?e" if "e \<in> set es" "e_scancode e = e_scancode ?e" for e
    using that ordered_distinct [OF assms(1)] nth_mem [OF assms(2)] by (auto simp: distinct_map inj_on_def)
  show "keymap (updated es i k) sc = ((keymap es)(e_scancode ?e := if unmapped k then KEY_RESERVED else k)) sc"
  proof (cases "sc = e_scancode ?e")
    case True
    show ?thesis
    proof (cases "unmapped k")
      case un: True
      have "keymap (updated es i k) sc = KEY_RESERVED"
        by (rule keymap_none) (use inj True un in \<open>auto simp: set_updated [OF assms]\<close>)
      with True un show ?thesis by simp
    next
      case False
      then have "?e\<lparr>e_keycode := k\<rparr> \<in> set (updated es i k)" by (simp add: set_updated [OF assms])
      from keymap_entry [OF ordered_updated [OF assms] this] False True show ?thesis by simp
    qed
  next
    case False
    then have "keymap (updated es i k) sc = keymap es sc"
      by (intro keymap_cong ordered_updated assms) (auto simp: set_updated [OF assms])
    with False show ?thesis by simp
  qed
qed

lemma keymap_insert:
  assumes "ordered (us @ vs)" "ordered (us @ x # vs)" "e_keycode x = KEY_RESERVED" "\<forall>e \<in> set (us @ vs). e_scancode e \<noteq> e_scancode x"
  shows "keymap (us @ x # vs) = keymap (us @ vs)"
proof
  fix sc
  show "keymap (us @ x # vs) sc = keymap (us @ vs) sc"
  proof (cases "sc = e_scancode x")
    case True
    then have "keymap (us @ x # vs) sc = KEY_RESERVED" using keymap_entry [OF assms(2), of x] assms(3) by simp
    moreover have "keymap (us @ vs) sc = KEY_RESERVED" using True assms(4) by (intro keymap_none) simp
    ultimately show ?thesis by simp
  qed (intro keymap_cong assms, auto)
qed

section \<open>Establishing a scancode\<close>

lemma establish_loop_ok:
  assumes "tab_inv m" "\<forall>e \<in> set (take i (entries m)). e_scancode e < sc" "i \<le> map_len m"
  shows "\<exists>r. establish_loop m sc i = Some r \<and> (case r of
      Inl j \<Rightarrow> j < map_len m \<and> e_scancode (entries m ! j) = sc
    | Inr j \<Rightarrow> j \<le> map_len m \<and> (\<forall>e \<in> set (take j (entries m)). e_scancode e < sc) \<and>
        (\<forall>e \<in> set (drop j (entries m)). sc < e_scancode e))"
  using assms
proof (induction m sc i rule: establish_loop.induct)
  case (1 m sc i)
  let ?es = "entries m"
  have len: "length ?es = map_len m" and o: "ordered ?es" using "1.prems"(1) by (simp_all add: tab_inv_def)
  show ?case
  proof (cases "i < map_len m")
    case False
    then have "establish_loop m sc i = Some (Inr i)" by (simp add: establish_loop.simps)
    with False "1.prems" len show ?thesis by simp
  next
    case lt: True
    have get: "mem_get (scan m) i = Some (?es ! i)" using lt "1.prems"(1) by (simp add: tab_inv_def mem_simps)
    consider "e_scancode (?es ! i) = sc" | "e_scancode (?es ! i) > sc" | "e_scancode (?es ! i) < sc" by fastforce
    then show ?thesis
    proof cases
      case 1
      with get lt show ?thesis by (subst establish_loop.simps) simp
    next
      case 2
      have d: "?es ! i # drop (Suc i) ?es = drop i ?es" using lt len by (intro Cons_nth_drop_Suc) simp
      have "sorted_wrt (<) (map e_scancode (?es ! i # drop (Suc i) ?es))"
        unfolding d using o by (metis drop_map ordered_def sorted_wrt_drop)
      with 2 have "\<forall>e \<in> set (?es ! i # drop (Suc i) ?es). sc < e_scancode e" by auto
      then have "\<forall>e \<in> set (drop i ?es). sc < e_scancode e" unfolding d .
      with 2 less_imp_le [OF 2] get lt "1.prems" show ?thesis by (subst establish_loop.simps) simp
    next
      case 3
      then have "\<forall>e \<in> set (take (i + 1) ?es). e_scancode e < sc"
        using "1.prems"(2) lt len by (simp add: take_Suc_conv_app_nth)
      with "1.IH" [OF lt get] 3 "1.prems"(1) lt get show ?thesis by (subst establish_loop.simps) auto
    qed
  qed
qed

text \<open>
  Establishing a scancode never faults. It leaves the mapping as it is and returns the index of
  an entry with the (masked) scancode, or it fails and leaves the table as it is; it succeeds when there is
  room, or when the table may grow.
\<close>

definition masked :: "rc_keytab \<Rightarrow> u32 \<Rightarrow> u32" where
  "masked dev sc = (if scancode_mask dev \<noteq> 0 then sc AND scancode_mask dev else sc)"

lemma insert_entry_ok:
  assumes "tab_inv m" "map_len m < map_size m" "i \<le> map_len m"
    "\<forall>e \<in> set (take i (entries m)). e_scancode e < sc" "\<forall>e \<in> set (drop i (entries m)). sc < e_scancode e"
  defines "x \<equiv> \<lparr>e_scancode = sc, e_keycode = KEY_RESERVED\<rparr>"
  shows "\<exists>s2. do {
      es \<leftarrow> mem_read (scan m) i (map_len m - i);
      s1 \<leftarrow> (if i < map_len m then mem_write (scan m) (i + 1) es else Some (scan m));
      mem_set s1 i x
    } = Some s2 \<and> tab_inv (m\<lparr>scan := s2, map_len := map_len m + 1\<rparr>) \<and>
      entries (m\<lparr>scan := s2, map_len := map_len m + 1\<rparr>) = take i (entries m) @ x # drop i (entries m)"
proof -
  let ?s = "scan m" and ?n = "map_len m"
  have len: "?n < length ?s" "length ?s = map_size m" using assms(1,2) by (simp_all add: tab_inv_def)
  define s2 where "s2 = take i ?s @ x # drop i (entries m) @ drop (Suc ?n) ?s"
  have run: "do { es \<leftarrow> mem_read ?s i (?n - i); s1 \<leftarrow> (if i < ?n then mem_write ?s (i + 1) es else Some ?s); mem_set s1 i x } = Some s2"
  proof (cases "i < ?n")
    case True
    with len show ?thesis
      by (simp add: mem_simps s2_def list_update_append drop_take Cons_nth_drop_Suc [symmetric] take_Suc_conv_app_nth)
  next
    case False
    with assms(3) have "i = ?n" by simp
    with len show ?thesis by (simp add: mem_simps s2_def upd_conv_take_nth_drop)
  qed
  have "length s2 = map_size m" using len assms(3) by (simp add: s2_def)
  moreover have es: "take (?n + 1) s2 = take i (entries m) @ x # drop i (entries m)"
  proof -
    let ?A = "take i (entries m) @ x # drop i (entries m)"
    have "s2 = ?A @ drop (Suc ?n) ?s" "length ?A = ?n + 1" using len assms(3) by (simp_all add: s2_def min_def)
    then show ?thesis by (metis append_eq_conv_conj)
  qed
  moreover have "ordered (take i (entries m) @ x # drop i (entries m))"
    unfolding x_def using assms(1,4,5) by (intro ordered_insert) (simp_all only: append_take_drop_id tab_inv_def)
  ultimately show ?thesis using run assms(1,2) by (intro exI [of _ s2]) (simp add: tab_inv_def)
qed

lemma establish_ok:
  assumes "dev_inv dev" "kmalloc_spec k"
  obtains dev' j where "ir_establish_scancode k dev sc resize = Some (dev', j)" "dev_inv dev'" "scancode_mask dev' = scancode_mask dev"
    "keymap (entries (tab dev')) = keymap (entries (tab dev))"
    "j < map_len (tab dev') \<and> e_scancode (entries (tab dev') ! j) = masked dev sc \<or>
     map_len (tab dev') \<le> j \<and> dev' = dev \<and> map_size (tab dev) = map_len (tab dev) \<and>
       (resize \<longrightarrow> IR_TAB_MAX_SIZE \<le> map_alloc (tab dev) \<or> k (2 * map_alloc (tab dev)) = None)"
    "\<lbrakk>\<forall>e \<in> set (entries (tab dev)). e_scancode e \<noteq> masked dev sc; \<not> resize; map_len (tab dev) < map_size (tab dev)\<rbrakk> \<Longrightarrow>
      map_len (tab dev') = Suc (map_len (tab dev)) \<and> map_size (tab dev') = map_size (tab dev) \<and>
      e_keycode (entries (tab dev') ! j) = KEY_RESERVED \<and>
      e_scancode ` set (entries (tab dev')) = insert (masked dev sc) (e_scancode ` set (entries (tab dev)))"
    "\<lbrakk>\<forall>e \<in> set (entries (tab dev)). e_scancode e \<noteq> masked dev sc; \<not> resize; map_size (tab dev) = map_len (tab dev)\<rbrakk> \<Longrightarrow>
      map_len (tab dev') \<le> j"
    "\<exists>e \<in> set (entries (tab dev)). e_scancode e = masked dev sc \<Longrightarrow> dev' = dev \<and> j < map_len (tab dev)"
proof -
  note result = that
  let ?sc = "masked dev sc" and ?m = "tab dev"
  have inv: "tab_inv ?m" and bits: "keybit dev = tkeys (entries ?m)" using assms(1) by (simp_all add: dev_inv_def)
  then have small: "map_len ?m \<le> no_index" by (auto simp: tab_inv_def no_index_def)
  have unf: "ir_establish_scancode k dev sc resize = do {
     r \<leftarrow> establish_loop ?m ?sc 0;
     case r of
       Inl i \<Rightarrow> Some (dev, i)
     | Inr i \<Rightarrow> do {
         (rc_map, full) \<leftarrow> (if map_size ?m = map_len ?m then
              if \<not> resize then Some (?m, True) else map_option (\<lambda>(m, r). (m, r \<noteq> Inr ())) (ir_resize_table k ?m)
            else Some (?m, False));
         if full then Some (dev\<lparr>tab := rc_map\<rparr>, no_index)
         else do {
           s2 \<leftarrow> do { es \<leftarrow> mem_read (scan rc_map) i (map_len rc_map - i);
             s1 \<leftarrow> (if i < map_len rc_map then mem_write (scan rc_map) (i + 1) es else Some (scan rc_map));
             mem_set s1 i \<lparr>e_scancode = ?sc, e_keycode = KEY_RESERVED\<rparr> };
           Some (dev\<lparr>tab := rc_map\<lparr>scan := s2, map_len := map_len rc_map + 1\<rparr>\<rparr>, i)
         } } }"
    unfolding ir_establish_scancode_def masked_def Let_def by (simp only: Option.bind_assoc)
  from establish_loop_ok [OF inv, of 0 ?sc] obtain r where r: "establish_loop ?m ?sc 0 = Some r"
    "case r of Inl j \<Rightarrow> j < map_len ?m \<and> e_scancode (entries ?m ! j) = ?sc
    | Inr j \<Rightarrow> j \<le> map_len ?m \<and> (\<forall>e \<in> set (take j (entries ?m)). e_scancode e < ?sc) \<and>
        (\<forall>e \<in> set (drop j (entries ?m)). ?sc < e_scancode e)" by auto
  show thesis
  proof (cases r)
    case (Inl j)
    have "entries ?m ! j \<in> set (entries ?m)" if "j < map_len ?m" using that inv by (intro nth_mem) (simp add: tab_inv_def)
    with Inl r assms(1) show thesis by (intro result [of dev j]) (auto simp: unf simp del: set_take_subset)
  next
    case (Inr i)
    with r(2) have i: "i \<le> map_len ?m" "\<forall>e \<in> set (take i (entries ?m)). e_scancode e < ?sc"
      "\<forall>e \<in> set (drop i (entries ?m)). ?sc < e_scancode e" by simp_all
    let ?x = "\<lparr>e_scancode = ?sc, e_keycode = KEY_RESERVED\<rparr>"
    have new: "e_scancode x \<noteq> ?sc" if "x \<in> set (entries ?m)" for x
    proof -
      from that have "x \<in> set (take i (entries ?m)) \<or> x \<in> set (drop i (entries ?m))" by (metis Un_iff append_take_drop_id set_append)
      with i(2,3) show ?thesis by (metis order_less_irrefl)
    qed
    have ins: thesis if m: "tab_inv m" "entries m = entries ?m" "map_len m = map_len ?m" "map_len m < map_size m"
      and grow: "(if map_size ?m = map_len ?m then
          if \<not> resize then Some (?m, True) else map_option (\<lambda>(m, r). (m, r \<noteq> Inr ())) (ir_resize_table k ?m)
          else Some (?m, False)) = Some (m, False)"
      and full: "map_size ?m = map_len ?m \<Longrightarrow> resize"
      and sz: "map_len ?m < map_size ?m \<Longrightarrow> map_size m = map_size ?m" for m
    proof -
      have i1: "i \<le> map_len m" using i(1) m(3) by simp
      have i2: "\<forall>e \<in> set (take i (entries m)). e_scancode e < ?sc" unfolding m(2) by (rule i(2))
      have i3: "\<forall>e \<in> set (drop i (entries m)). ?sc < e_scancode e" unfolding m(2) by (rule i(3))
      note i' = i1 i2 i3
      from insert_entry_ok [OF m(1,4) i'] obtain s2 where s2: "do {
          es \<leftarrow> mem_read (scan m) i (map_len m - i);
          s1 \<leftarrow> (if i < map_len m then mem_write (scan m) (i + 1) es else Some (scan m));
          mem_set s1 i ?x } = Some s2" "tab_inv (m\<lparr>scan := s2, map_len := map_len m + 1\<rparr>)"
        "entries (m\<lparr>scan := s2, map_len := map_len m + 1\<rparr>) = take i (entries m) @ ?x # drop i (entries m)" by blast
      let ?m' = "m\<lparr>scan := s2, map_len := map_len m + 1\<rparr>"
      have ord: "ordered (take i (entries m) @ drop i (entries m))" "ordered (entries ?m')"
        using m(1) s2(2) unfolding append_take_drop_id tab_inv_def by blast+
      have "keymap (entries ?m') = keymap (take i (entries m) @ drop i (entries m))"
        unfolding s2(3) by (rule keymap_insert [OF ord(1) ord(2) [unfolded s2(3)]]) (use i' in auto)
      then have km: "keymap (entries ?m') = keymap (entries ?m)" unfolding append_take_drop_id m(2) .
      have "tkeys (entries ?m') = tkeys (take i (entries m) @ drop i (entries m))"
        unfolding s2(3) tkeys_def by auto
      then have bk: "keybit dev = tkeys (entries ?m')" unfolding append_take_drop_id m(2) bits by (rule sym)
      have "length (take i (entries m)) = i" using i'(1) m(1) by (simp add: tab_inv_def)
      then have "entries ?m' ! i = ?x" unfolding s2(3) by (metis nth_append_length)
      then have x: "e_scancode (entries ?m' ! i) = ?sc" "e_keycode (entries ?m' ! i) = KEY_RESERVED" by (simp_all only: rc_map_table.select_convs)
      have "set (entries ?m') = insert ?x (set (entries m))" unfolding s2(3) by (metis Un_insert_right append_take_drop_id list.set(2) set_append)
      then have scs: "e_scancode ` set (entries ?m') = insert ?sc (e_scancode ` set (entries ?m))" unfolding m(2) by (simp only: image_insert rc_map_table.select_convs)
      moreover have "ir_establish_scancode k dev sc resize = Some (dev\<lparr>tab := ?m'\<rparr>, i)"
        unfolding unf r(1) Inr bind.simps sum.case grow prod.case s2(1) by simp
      moreover have "i < map_len ?m'" using i'(1) by simp
      ultimately show thesis
        using km bk s2(2) x scs sz full m(3) new
        by (intro result [of "dev\<lparr>tab := ?m'\<rparr>" i]) (simp_all add: dev_inv_def)
    qed
    have fail: thesis if "map_size ?m = map_len ?m"
      "resize \<longrightarrow> IR_TAB_MAX_SIZE \<le> map_alloc ?m \<or> k (2 * map_alloc ?m) = None"
      "(if \<not> resize then Some (?m, True) else map_option (\<lambda>(m, r). (m, r \<noteq> Inr ())) (ir_resize_table k ?m)) = Some (?m, True)"
      using that(1-3) r Inr assms(1) small new by (intro result [of dev no_index]) (simp_all add: unf)
    show thesis
    proof (cases "map_size ?m = map_len ?m")
      case False
      with inv show thesis by (intro ins [of ?m]) (simp_all add: tab_inv_def)
    next
      case full: True
      from resize_table_ok [OF inv assms(2)] obtain m' r' where m': "ir_resize_table k ?m = Some (m', r')" "tab_inv m'"
        "entries m' = entries ?m" "map_len m' = map_len ?m" "r' = Inr () \<Longrightarrow> map_len m' < map_size m'" "r' \<noteq> Inr () \<Longrightarrow> m' = ?m"
        "map_alloc ?m < IR_TAB_MAX_SIZE \<Longrightarrow> k (2 * map_alloc ?m) \<noteq> None \<Longrightarrow> r' = Inr ()" using full by metis
      show thesis
      proof (cases "resize \<and> r' = Inr ()")
        case True
        with m' full show thesis by (intro ins [of m']) simp_all
      next
        case False
        with m' full show thesis by (intro fail) (auto intro: leI)
      qed
    qed
  qed
qed

section \<open>The table as a component\<close>

text \<open>A sequence of settings, and what it should do to the mapping, given which of them succeed.\<close>

fun setkeys :: "(kmalloc \<Rightarrow> 'd \<Rightarrow> u32 \<Rightarrow> u32 \<Rightarrow> ('d \<times> u32 result) option) \<Rightarrow> 'd \<Rightarrow> (kmalloc \<times> u32 \<times> u32) list \<Rightarrow>
    ('d \<times> bool list) option" where
  "setkeys setkey d [] = Some (d, [])"
| "setkeys setkey d ((k, sc, kc) # ops) =
     do { (d, r) \<leftarrow> setkey k d sc kc; (d, rs) \<leftarrow> setkeys setkey d ops; Some (d, (case r of Inl _ \<Rightarrow> False | Inr _ \<Rightarrow> True) # rs) }"

fun set_spec :: "(u32 \<Rightarrow> u32) \<Rightarrow> (u32 \<rightharpoonup> u32) \<Rightarrow> (kmalloc \<times> u32 \<times> u32) list \<Rightarrow> bool list \<Rightarrow> (u32 \<rightharpoonup> u32)" where
  "set_spec mk f ((k, sc, kc) # ops) (b # bs) =
     set_spec mk (if b then f(mk sc \<mapsto> if unmapped kc then KEY_RESERVED else kc) else f) ops bs"
| "set_spec mk f _ _ = f"

text \<open>
  What a user of the table relies on: a lookup always has an answer, and setting a key changes
  the answer for its (masked) scancode only, or nothing at all when it fails.
\<close>

locale scancode_table =
  fixes lookup :: "'d \<Rightarrow> u32 \<Rightarrow> u32 option"
    and setkey :: "kmalloc \<Rightarrow> 'd \<Rightarrow> u32 \<Rightarrow> u32 \<Rightarrow> ('d \<times> u32 result) option"
    and tinv :: "'d \<Rightarrow> bool"
    and mask :: "'d \<Rightarrow> u32 \<Rightarrow> u32"
  assumes lookup_total: "tinv d \<Longrightarrow> lookup d sc \<noteq> None"
    and setkey_total: "tinv d \<Longrightarrow> kmalloc_spec k \<Longrightarrow> \<exists>d' r. setkey k d sc kc = Some (d', r) \<and> tinv d' \<and> mask d' = mask d"
    and setkey_ok: "tinv d \<Longrightarrow> kmalloc_spec k \<Longrightarrow> setkey k d sc kc = Some (d', Inr old) \<Longrightarrow>
      lookup d (mask d sc) = Some old \<and>
      lookup d' = (lookup d)(mask d sc \<mapsto> if unmapped kc then KEY_RESERVED else kc)"
    and setkey_fail: "tinv d \<Longrightarrow> kmalloc_spec k \<Longrightarrow> setkey k d sc kc = Some (d', Inl e) \<Longrightarrow> lookup d' = lookup d"
begin

lemma setkeys_spec:
  assumes "tinv d" "\<forall>(k, _, _) \<in> set ops. kmalloc_spec k"
  shows "\<exists>d' bs. setkeys setkey d ops = Some (d', bs) \<and> tinv d' \<and> length bs = length ops \<and>
    lookup d' = set_spec (mask d) (lookup d) ops bs"
  using assms
proof (induction ops arbitrary: d)
  case (Cons op ops)
  obtain k sc kc where op: "op = (k, sc, kc)" by (cases op)
  then have k: "kmalloc_spec k" using Cons.prems(2) by simp
  from setkey_total [OF Cons.prems(1) k] obtain d1 r where 1: "setkey k d sc kc = Some (d1, r)" "tinv d1" "mask d1 = mask d" by blast
  from Cons.IH [OF 1(2)] Cons.prems(2) obtain d2 bs
    where 2: "setkeys setkey d1 ops = Some (d2, bs)" "tinv d2" "length bs = length ops" "lookup d2 = set_spec (mask d) (lookup d1) ops bs"
    using 1(3) by auto
  show ?case
  proof (cases r)
    case (Inl e)
    with 1 2 op setkey_fail [OF Cons.prems(1) k, of sc kc d1 e] show ?thesis by simp
  next
    case (Inr old)
    with 1 2 op setkey_ok [OF Cons.prems(1) k, of sc kc d1 old] show ?thesis by simp
  qed
qed simp

end

text \<open>What is relied on of the binary search and of the conversion of scancodes.\<close>

definition bsearch_spec :: "bsearch \<Rightarrow> bool" where
  "bsearch_spec b \<longleftrightarrow> (\<forall>key xs cmp. sorted_wrt (\<lambda>x y. cmp key y \<le> cmp key x) xs \<longrightarrow>
     (case b key xs cmp of Some i \<Rightarrow> i < length xs \<and> cmp key (xs ! i) = 0 | None \<Rightarrow> \<forall>x \<in> set xs. cmp key x \<noteq> 0))"

definition scalar_spec :: "(u8 list \<Rightarrow> u32 result) \<Rightarrow> (u32 \<Rightarrow> u8 list) \<Rightarrow> bool" where
  "scalar_spec to_scalar bytes \<longleftrightarrow> (\<forall>sc. to_scalar (bytes sc) = Inr sc)"

lemma lookup_ok:
  assumes "tab_inv (tab dev)" "bsearch_spec b"
  shows "rc_g_keycode_from_table b dev sc = Some (keymap (entries (tab dev)) sc)"
proof -
  let ?m = "tab dev" and ?es = "entries (tab dev)"
  have len: "map_len ?m \<le> length (scan ?m)" "length ?es = map_len ?m" "map_len ?m \<le> no_index" and ord: "ordered ?es"
    using assms(1) by (auto simp: tab_inv_def no_index_def)
  have "sorted_wrt (\<lambda>x y. rc_map_cmp sc y \<le> rc_map_cmp sc x) ?es"
    using ord unfolding ordered_def sorted_wrt_map by (rule sorted_wrt_mono_rel [rotated]) (auto simp: rc_map_cmp_def)
  then have s: "case b sc ?es rc_map_cmp of Some i \<Rightarrow> i < length ?es \<and> rc_map_cmp sc (?es ! i) = 0
    | None \<Rightarrow> \<forall>x \<in> set ?es. rc_map_cmp sc x \<noteq> 0" using assms(2) by (simp only: bsearch_spec_def)
  have cmp: "rc_map_cmp sc e = 0 \<longleftrightarrow> e_scancode e = sc" for e by (auto simp: rc_map_cmp_def)
  have rd: "ir_lookup_by_scancode b ?m sc = Some (case b sc ?es rc_map_cmp of None \<Rightarrow> no_index | Some i \<Rightarrow> i)"
    using len(1) by (simp add: ir_lookup_by_scancode_def mem_read_Some)
  show ?thesis
  proof (cases "b sc ?es rc_map_cmp")
    case None
    with s cmp have "keymap ?es sc = KEY_RESERVED" by (intro keymap_none) simp
    with None rd len show ?thesis by (simp add: rc_g_keycode_from_table_def)
  next
    case (Some i)
    from s [unfolded Some option.case] len(2) have i: "i < map_len ?m" "e_scancode (?es ! i) = sc"
      unfolding cmp by (simp_all only:)
    have "?es ! i \<in> set ?es" using i(1) len(2) by (intro nth_mem) simp
    from keymap_entry [OF ord this] i(2) have "keymap ?es sc = e_keycode (?es ! i)" by (simp only:)
    with Some rd i len show ?thesis by (simp add: rc_g_keycode_from_table_def mem_get_Some)
  qed
qed

text \<open>Setting the key of a scancode through the ioctl.\<close>

definition set_scancode ::
  "(u8 list \<Rightarrow> u32 result) \<Rightarrow> (u32 \<Rightarrow> u8 list) \<Rightarrow> kmalloc \<Rightarrow> rc_keytab \<Rightarrow> u32 \<Rightarrow> u32 \<Rightarrow> (rc_keytab \<times> u32 result) option" where
  "set_scancode to_scalar bytes k dev sc kc =
     ir_setkeycode to_scalar k dev \<lparr>by_index = False, ke_index = 0, ke_keycode = kc, ke_scancode = bytes sc\<rparr>"

lemma set_scancode_ok:
  assumes "dev_inv dev" "kmalloc_spec k" "scalar_spec ts bytes"
  obtains dev' r where "set_scancode ts bytes k dev sc kc = Some (dev', r)" "dev_inv dev'" "scancode_mask dev' = scancode_mask dev"
    "case r of
       Inr old \<Rightarrow> keymap (entries (tab dev)) (masked dev sc) = old \<and>
         keymap (entries (tab dev')) = (keymap (entries (tab dev)))(masked dev sc := if unmapped kc then KEY_RESERVED else kc)
     | Inl e \<Rightarrow> e = ENOMEM \<and> dev' = dev \<and> map_size (tab dev) = map_len (tab dev) \<and>
         (IR_TAB_MAX_SIZE \<le> map_alloc (tab dev) \<or> k (2 * map_alloc (tab dev)) = None)"
proof -
  obtain d1 j where 1: "ir_establish_scancode k dev sc True = Some (d1, j)"
    "dev_inv d1" "scancode_mask d1 = scancode_mask dev" "keymap (entries (tab d1)) = keymap (entries (tab dev))"
    "j < map_len (tab d1) \<and> e_scancode (entries (tab d1) ! j) = masked dev sc \<or>
     map_len (tab d1) \<le> j \<and> d1 = dev \<and> map_size (tab dev) = map_len (tab dev) \<and>
       (IR_TAB_MAX_SIZE \<le> map_alloc (tab dev) \<or> k (2 * map_alloc (tab dev)) = None)"
    by (rule establish_ok [OF assms(1,2), of sc True]) blast
  have unf: "set_scancode ts bytes k dev sc kc = (if j \<ge> map_len (tab d1) then Some (d1, Inl ENOMEM)
      else map_option (\<lambda>(dev, old). (dev, Inr old)) (ir_update_mapping k d1 j kc))"
    using assms(3) 1(1) by (simp add: set_scancode_def ir_setkeycode_def scalar_spec_def)
  show thesis
  proof (cases "j < map_len (tab d1)")
    case True
    let ?es = "entries (tab d1)"
    from update_mapping_ok [OF 1(2) assms(2) True, of kc] obtain d2 where 2: "ir_update_mapping k d1 j kc = Some (d2, e_keycode (?es ! j))"
      "dev_inv d2" "entries (tab d2) = updated ?es j kc" "scancode_mask d2 = scancode_mask d1" .
    have o: "ordered ?es" "j < length ?es" using 1(2) True by (auto simp: dev_inv_def tab_inv_def)
    have e: "e_scancode (?es ! j) = masked dev sc" using 1(5) True by auto
    have "keymap ?es (masked dev sc) = e_keycode (?es ! j)" using keymap_entry [OF o(1) nth_mem [OF o(2)]] e by simp
    moreover have "keymap (entries (tab d2)) = (keymap ?es)(masked dev sc := if unmapped kc then KEY_RESERVED else kc)"
      unfolding 2(3) keymap_updated [OF o] e ..
    ultimately show thesis using True unf 1(3,4) 2 by (intro that [of d2 "Inr (e_keycode (?es ! j))"]) simp_all
  next
    case False
    with 1 unf show thesis by (intro that [of d1 "Inl ENOMEM"]) auto
  qed
qed

interpretation keytab: scancode_table "rc_g_keycode_from_table b" "set_scancode ts bytes"
  "\<lambda>dev. dev_inv dev \<and> bsearch_spec b \<and> scalar_spec ts bytes" masked
proof
  fix dev sc k kc dev' old e
  assume inv: "dev_inv dev \<and> bsearch_spec b \<and> scalar_spec ts bytes"
  then have lk: "dev_inv d \<Longrightarrow> rc_g_keycode_from_table b d = Some \<circ> keymap (entries (tab d))" for d
    by (auto simp: lookup_ok dev_inv_def)
  show "rc_g_keycode_from_table b dev sc \<noteq> None" using lk [of dev] inv by simp
  assume k: "kmalloc_spec k"
  obtain d1 r where 1: "set_scancode ts bytes k dev sc kc = Some (d1, r)" "dev_inv d1" "scancode_mask d1 = scancode_mask dev"
    "case r of
       Inr old \<Rightarrow> keymap (entries (tab dev)) (masked dev sc) = old \<and>
         keymap (entries (tab d1)) = (keymap (entries (tab dev)))(masked dev sc := if unmapped kc then KEY_RESERVED else kc)
     | Inl e \<Rightarrow> e = ENOMEM \<and> d1 = dev \<and> map_size (tab dev) = map_len (tab dev) \<and>
         (IR_TAB_MAX_SIZE \<le> map_alloc (tab dev) \<or> k (2 * map_alloc (tab dev)) = None)"
    using set_scancode_ok [of dev k ts bytes sc kc] inv k by blast
  show "\<exists>d' r. set_scancode ts bytes k dev sc kc = Some (d', r) \<and> (dev_inv d' \<and> bsearch_spec b \<and> scalar_spec ts bytes) \<and>
      masked d' = masked dev"
    using 1 inv by (auto simp: masked_def)
  show "rc_g_keycode_from_table b dev (masked dev sc) = Some old \<and>
      rc_g_keycode_from_table b dev' = (rc_g_keycode_from_table b dev)(masked dev sc \<mapsto> if unmapped kc then KEY_RESERVED else kc)"
    if "set_scancode ts bytes k dev sc kc = Some (dev', Inr old)"
    using 1 that lk [of dev] lk [of dev'] inv by (auto simp: fun_eq_iff)
  show "rc_g_keycode_from_table b dev' = rc_g_keycode_from_table b dev"
    if "set_scancode ts bytes k dev sc kc = Some (dev', Inl e)"
    using 1 that by auto
qed

section \<open>Properties\<close>

text \<open>
  C32: Setting keys through \<^verbatim>\<open>EVIOCSKEYCODE\<close> refines the update of a finite map. Starting from a well-formed table, for any sequence
  of settings and any behaviour of the allocator, \<^verbatim>\<open>ir_setkeycode\<close> never accesses the table outside its bounds, and
  afterwards \<^verbatim>\<open>rc_g_keycode_from_table\<close> returns for every scancode what the sequence of map updates
  that succeeded gives.
\<close>

theorem setkeycode_refines_map:
  assumes "dev_inv dev" "bsearch_spec bsearch" "scalar_spec to_scalar bytes" "\<forall>(k, _, _) \<in> set ops. kmalloc_spec k"
  shows "\<exists>dev' bs. setkeys (set_scancode to_scalar bytes) dev ops = Some (dev', bs) \<and> length bs = length ops \<and>
    rc_g_keycode_from_table bsearch dev' = set_spec (masked dev) (rc_g_keycode_from_table bsearch dev) ops bs"
  using keytab.setkeys_spec [of dev bsearch to_scalar bytes ops] assms by blast

text \<open>
  C35: \<^verbatim>\<open>ir_setkeycode\<close>, by scancode or by index, with any entry and any behaviour of the allocator, makes no access outside the table, keeps the
  table sorted and within its allocation, and keeps the set of keys that the device announces equal to the set of keys that some
  scancode is mapped to; when it returns an error the mapping is unchanged. (A load of a whole keymap that fails, \<^verbatim>\<open>ir_setkeytable\<close>, is not covered: it
  empties the table but keeps the keys announced, \<open>failed_load_keeps_keybits\<close>.)
\<close>

theorem setkeycode_keeps_inv:
  assumes "dev_inv dev" "kmalloc_spec kmalloc"
  shows "\<exists>dev' r. ir_setkeycode to_scalar kmalloc dev ke = Some (dev', r) \<and> dev_inv dev' \<and>
    (\<forall>e. r = Inl e \<longrightarrow> keymap (entries (tab dev')) = keymap (entries (tab dev)))"
proof (cases "by_index ke")
  case True
  show ?thesis
  proof (cases "ke_index ke < map_len (tab dev)")
    case lt: True
    from update_mapping_ok [OF assms(1,2) lt, of "ke_keycode ke"] obtain d2 x
      where "ir_update_mapping kmalloc dev (ke_index ke) (ke_keycode ke) = Some (d2, x)" "dev_inv d2" by metis
    with True lt show ?thesis by (auto simp: ir_setkeycode_def)
  qed (use True assms(1) in \<open>simp add: ir_setkeycode_def\<close>)
next
  case False
  show ?thesis
  proof (cases "to_scalar (ke_scancode ke)")
    case (Inr sc)
    from establish_ok [OF assms(1,2), of sc True] obtain d1 j
      where 1: "ir_establish_scancode kmalloc dev sc True = Some (d1, j)" "dev_inv d1" "keymap (entries (tab d1)) = keymap (entries (tab dev))" by metis
    show ?thesis
    proof (cases "j < map_len (tab d1)")
      case lt: True
      from update_mapping_ok [OF 1(2) assms(2) lt, of "ke_keycode ke"] obtain d2 x
        where "ir_update_mapping kmalloc d1 j (ke_keycode ke) = Some (d2, x)" "dev_inv d2" by metis
      with False Inr 1 lt show ?thesis by (auto simp: ir_setkeycode_def)
    qed (use False Inr 1 in \<open>simp add: ir_setkeycode_def\<close>)
  qed (use False assms(1) in \<open>simp add: ir_setkeycode_def\<close>)
qed

text \<open>A load that fails in its loop frees the array, but the length of the table and the announced keys stay as the loop left them.\<close>

lemma failed_load_keeps_keybits:
  assumes "ir_create_table roundup_pow_of_two kstrdup (kmalloc (map_size from)) (tab dev) (map_name from) (map_proto from) (map_size from) = (m, Inr ())"
    "mem_read (scan from) 0 (map_size from) = Some es" "setkeytable_loop kmalloc (dev\<lparr>tab := m\<rparr>) es = Some (d1, Inl e)"
  shows "\<exists>dev'. ir_setkeytable roundup_pow_of_two kstrdup kmalloc dev from = Some (dev', Inl e) \<and> scan (tab dev') = [] \<and> map_size (tab dev') = 0 \<and>
    map_len (tab dev') = map_len (tab d1) \<and> keybit dev' = keybit d1"
  using assms by (simp add: ir_setkeytable_def ir_free_table_def)

text \<open>Loading a table of distinct scancodes into an empty one of sufficient size.\<close>

lemma setkeytable_step:
  assumes "dev_inv dev" "kmalloc_spec (kmalloc (length es))" "map_len (tab dev) < map_size (tab dev)"
    "masked dev (e_scancode e) \<notin> e_scancode ` set (entries (tab dev))" "\<not> unmapped (e_keycode e)"
  obtains d2 where "setkeytable_loop kmalloc dev (e # es) = setkeytable_loop kmalloc d2 es" "dev_inv d2" "masked d2 = masked dev"
    "map_len (tab d2) = Suc (map_len (tab dev))" "map_size (tab d2) = map_size (tab dev)"
    "e_scancode ` set (entries (tab d2)) = insert (masked dev (e_scancode e)) (e_scancode ` set (entries (tab dev)))"
    "keymap (entries (tab d2)) = (keymap (entries (tab dev)))(masked dev (e_scancode e) := e_keycode e)"
proof -
  let ?k = "kmalloc (length es)" and ?sc = "masked dev (e_scancode e)"
  have new: "\<forall>x \<in> set (entries (tab dev)). e_scancode x \<noteq> ?sc" using assms(4) by (metis image_eqI)
  from establish_ok [OF assms(1,2), of "e_scancode e" False] obtain d1 j
    where 1: "ir_establish_scancode ?k dev (e_scancode e) False = Some (d1, j)" "dev_inv d1" "scancode_mask d1 = scancode_mask dev"
      "keymap (entries (tab d1)) = keymap (entries (tab dev))"
      "j < map_len (tab d1) \<and> e_scancode (entries (tab d1) ! j) = ?sc \<or> map_size (tab dev) = map_len (tab dev)"
      "map_len (tab d1) = Suc (map_len (tab dev)) \<and> map_size (tab d1) = map_size (tab dev) \<and>
      e_keycode (entries (tab d1) ! j) = KEY_RESERVED \<and>
      e_scancode ` set (entries (tab d1)) = insert ?sc (e_scancode ` set (entries (tab dev)))"
    using new assms(3) by metis
  have j: "j < map_len (tab d1)" "e_scancode (entries (tab d1) ! j) = ?sc" using 1(5) assms(3) by auto
  from update_mapping_ok [OF 1(2) assms(2) j(1), of "e_keycode e"] obtain d2
    where 2: "ir_update_mapping ?k d1 j (e_keycode e) = Some (d2, e_keycode (entries (tab d1) ! j))" "dev_inv d2"
      "entries (tab d2) = updated (entries (tab d1)) j (e_keycode e)" "scancode_mask d2 = scancode_mask d1"
      "map_size (tab d2) = map_size (tab d1)" using 1(6) by metis
  have o: "ordered (entries (tab d1))" "j < length (entries (tab d1))" using 1(2) j(1) by (auto simp: dev_inv_def tab_inv_def)
  have scs: "e_scancode ` set (entries (tab d2)) = insert ?sc (e_scancode ` set (entries (tab dev)))"
  proof -
    have "map e_scancode (updated (entries (tab d1)) j (e_keycode e)) = map e_scancode (entries (tab d1))"
      using assms(5) o(2) by (simp add: updated_def map_update) (metis list_update_id nth_map o(2) nth_take)
    then show ?thesis using 1(6) unfolding 2(3) by (metis image_set)
  qed
  show thesis
  proof (rule that [OF _ 2(2)])
    show "setkeytable_loop kmalloc dev (e # es) = setkeytable_loop kmalloc d2 es" using 1(1) 2(1) j(1) by simp
    show "masked d2 = masked dev" using 1(3) 2(4) by (simp add: masked_def fun_eq_iff)
    show "map_len (tab d2) = Suc (map_len (tab dev))"
      using arg_cong [OF 2(3), of length] assms(5) 1(2,6) 2(2) by (simp add: updated_def dev_inv_def tab_inv_def)
    show "keymap (entries (tab d2)) = (keymap (entries (tab dev)))(?sc := e_keycode e)"
      unfolding 2(3) keymap_updated [OF o] j(2) 1(4) using assms(5) by simp
  qed (use 1(6) 2(5) scs in auto)
qed

lemma setkeytable_loop_ok:
  assumes "dev_inv dev" "\<forall>i. kmalloc_spec (kmalloc i)" "map_len (tab dev) + length es \<le> map_size (tab dev)"
    "distinct (map (masked dev \<circ> e_scancode) es)" "\<forall>e \<in> set es. masked dev (e_scancode e) \<notin> e_scancode ` set (entries (tab dev))"
    "\<forall>e \<in> set es. \<not> unmapped (e_keycode e)"
  shows "\<exists>dev'. setkeytable_loop kmalloc dev es = Some (dev', Inr ()) \<and> dev_inv dev' \<and>
    keymap (entries (tab dev')) = foldl (\<lambda>f e. f(masked dev (e_scancode e) := e_keycode e)) (keymap (entries (tab dev))) es"
  using assms
proof (induction es arbitrary: dev)
  case (Cons e es)
  from setkeytable_step [of dev kmalloc es e] Cons.prems obtain d2
    where d2: "setkeytable_loop kmalloc dev (e # es) = setkeytable_loop kmalloc d2 es" "dev_inv d2" "masked d2 = masked dev"
    "map_len (tab d2) = Suc (map_len (tab dev))" "map_size (tab d2) = map_size (tab dev)"
    "e_scancode ` set (entries (tab d2)) = insert (masked dev (e_scancode e)) (e_scancode ` set (entries (tab dev)))"
    "keymap (entries (tab d2)) = (keymap (entries (tab dev)))(masked dev (e_scancode e) := e_keycode e)" by auto
  have new: "\<forall>e \<in> set es. masked d2 (e_scancode e) \<notin> e_scancode ` set (entries (tab d2))"
    unfolding d2(3,6) using Cons.prems(4,5) by (fastforce simp: image_iff)
  have "\<exists>dev'. setkeytable_loop kmalloc d2 es = Some (dev', Inr ()) \<and> dev_inv dev' \<and>
      keymap (entries (tab dev')) = foldl (\<lambda>f e. f(masked d2 (e_scancode e) := e_keycode e)) (keymap (entries (tab d2))) es"
    using Cons.prems(3,4,6) by (intro Cons.IH [OF d2(2) Cons.prems(2) _ _ new]) (auto simp: d2(3-5) comp_def)
  then show ?case unfolding d2(1,3,7) by (simp only: foldl_Cons)
qed simp

lemma setkeytable_loop_full:
  assumes "dev_inv dev" "\<forall>i. kmalloc_spec (kmalloc i)" "map_size (tab dev) < map_len (tab dev) + length es"
    "distinct (map (masked dev \<circ> e_scancode) es)" "\<forall>e \<in> set es. masked dev (e_scancode e) \<notin> e_scancode ` set (entries (tab dev))"
    "\<forall>e \<in> set es. \<not> unmapped (e_keycode e)"
  shows "\<exists>dev'. setkeytable_loop kmalloc dev es = Some (dev', Inl ENOMEM)"
  using assms
proof (induction es arbitrary: dev)
  case Nil
  then show ?case by (simp add: dev_inv_def tab_inv_def)
next
  case (Cons e es)
  show ?case
  proof (cases "map_len (tab dev) < map_size (tab dev)")
    case True
    have pre: "kmalloc_spec (kmalloc (length es))" "masked dev (e_scancode e) \<notin> e_scancode ` set (entries (tab dev))"
      "\<not> unmapped (e_keycode e)" using Cons.prems(2,5,6) by auto
    obtain d2 where d2: "setkeytable_loop kmalloc dev (e # es) = setkeytable_loop kmalloc d2 es" "dev_inv d2" "masked d2 = masked dev"
        "map_len (tab d2) = Suc (map_len (tab dev))" "map_size (tab d2) = map_size (tab dev)"
        "e_scancode ` set (entries (tab d2)) = insert (masked dev (e_scancode e)) (e_scancode ` set (entries (tab dev)))"
      using setkeytable_step [where kmalloc = kmalloc and es = es, OF Cons.prems(1) pre(1) True pre(2,3)] by metis
    have new: "\<forall>e \<in> set es. masked d2 (e_scancode e) \<notin> e_scancode ` set (entries (tab d2))"
      unfolding d2(3,6) using Cons.prems(4,5) by (fastforce simp: image_iff)
    show ?thesis unfolding d2(1)
      using Cons.prems(3,4,6) by (intro Cons.IH [OF d2(2) Cons.prems(2) _ _ new]) (auto simp: d2(3-5) comp_def)
  next
    case False
    then have full: "map_size (tab dev) = map_len (tab dev)" using Cons.prems(1) by (simp add: dev_inv_def tab_inv_def)
    have "\<forall>x \<in> set (entries (tab dev)). e_scancode x \<noteq> masked dev (e_scancode e)"
      using Cons.prems(5) by (metis image_eqI list.set_intros(1))
    with establish_ok [OF Cons.prems(1) spec [OF Cons.prems(2), of "length es"], of "e_scancode e" False] full obtain d1 j
      where "ir_establish_scancode (kmalloc (length es)) dev (e_scancode e) False = Some (d1, j)" "map_len (tab d1) \<le> j" by metis
    then show ?thesis by simp
  qed
qed

lemma foldl_upd_other: "x \<notin> key ` set es \<Longrightarrow> foldl (\<lambda>f e. f(key e := val e)) f es x = f x"
  by (induction es arbitrary: f) auto

lemma foldl_upd_distinct:
  "distinct (map key es) \<Longrightarrow> e \<in> set es \<Longrightarrow> foldl (\<lambda>f e. f(key e := val e)) f es (key e) = val e"
  by (induction es arbitrary: f) (auto simp: foldl_upd_other)

text \<open>What is relied on of \<^verbatim>\<open>roundup_pow_of_two\<close> for a positive argument.\<close>

definition roundup_spec :: "(nat \<Rightarrow> nat) \<Rightarrow> bool" where
  "roundup_spec r \<longleftrightarrow> (\<forall>n > 0. n \<le> r n \<and> r n < 2 * n)"

lemma create_table_ok:
  assumes "roundup_spec r" "0 < n" "n < 2 ^ 27" "kmalloc_spec k" "k (r (n * 8)) = Some a" "kstrdup name = Some name" "map_len m = 0"
  shows "\<exists>m'. ir_create_table r kstrdup k m (Some name) p n = (m', Inr ()) \<and> tab_inv m' \<and> map_len m' = 0 \<and> n \<le> map_size m' \<and>
    map_alloc m' = r (n * 8)"
proof -
  have r: "n * 8 \<le> r (n * 8)" "r (n * 8) < 2 * (n * 8)" using assms(1) [unfolded roundup_spec_def, rule_format, of "n * 8"] assms(2) by simp_all
  then have mod: "r (n * 8) mod 2 ^ 32 = r (n * 8)" using assms(3) by (intro mod_less) simp
  have a: "length a = r (n * 8) div 8" using assms(4,5) by (simp add: kmalloc_spec_def)
  let ?m = "m\<lparr>map_name := Some name, map_proto := p, map_alloc := r (n * 8), map_size := r (n * 8) div 8, scan := a\<rparr>"
  have "ir_create_table r kstrdup k m (Some name) p n = (?m, Inr ())"
    using assms(5,6) unfolding ir_create_table_def entry_size_def mod Let_def by simp
  moreover have "8 \<le> r (n * 8)" using r(1) assms(2) by linarith
  then have "tab_inv ?m" using r a assms(3,7) by (auto simp: tab_inv_def ordered_def)
  moreover have "n \<le> r (n * 8) div 8" using r(1) by (metis div_le_mono nonzero_mult_div_cancel_right zero_neq_numeral)
  ultimately show ?thesis using assms(7) by (intro exI [of _ ?m]) simp
qed

text \<open>
  C36: Loading a keymap whose scancodes are distinct and whose keys are all mapped into a device with an empty table succeeds
  when the one allocation it needs succeeds, and afterwards every scancode of the keymap is looked up
  as its key.
\<close>

theorem setkeytable_loads:
  assumes "bsearch_spec bsearch" "roundup_spec roundup_pow_of_two" "\<forall>i. kmalloc_spec (kmalloc i)"
    "kmalloc (map_size from) (roundup_pow_of_two (map_size from * 8)) \<noteq> None"
    "map_name from = Some name" "kstrdup name = Some name"
    "0 < map_size from" "map_size from < 2 ^ 27" "map_size from \<le> length (scan from)"
    "map_len (tab dev) = 0" "keybit dev = {}"
    "distinct (map (masked dev \<circ> e_scancode) (take (map_size from) (scan from)))"
    "\<forall>e \<in> set (take (map_size from) (scan from)). \<not> unmapped (e_keycode e)"
  shows "\<exists>dev'. ir_setkeytable roundup_pow_of_two kstrdup kmalloc dev from = Some (dev', Inr ()) \<and>
    (\<forall>e \<in> set (take (map_size from) (scan from)).
       rc_g_keycode_from_table bsearch dev' (masked dev (e_scancode e)) = Some (e_keycode e))"
proof -
  let ?es = "take (map_size from) (scan from)"
  obtain a where a: "kmalloc (map_size from) (roundup_pow_of_two (map_size from * 8)) = Some a" using assms(4) by blast
  from create_table_ok [where p = "map_proto from" and k = "kmalloc (map_size from)" and r = roundup_pow_of_two and kstrdup = kstrdup and name = name,
      OF assms(2,7,8) spec [OF assms(3)] a assms(6,10)] obtain m
    where m: "ir_create_table roundup_pow_of_two kstrdup (kmalloc (map_size from)) (tab dev) (Some name) (map_proto from) (map_size from) = (m, Inr ())"
      "tab_inv m" "map_len m = 0" "map_size from \<le> map_size m" by blast
  let ?d = "dev\<lparr>tab := m\<rparr>"
  have inv: "dev_inv ?d" using m(2,3) assms(11) by (simp add: dev_inv_def tkeys_def)
  have mk: "masked ?d = masked dev" by (simp add: masked_def fun_eq_iff)
  from setkeytable_loop_ok [OF inv assms(3), of ?es] obtain dev'
    where d': "setkeytable_loop kmalloc ?d ?es = Some (dev', Inr ())" "dev_inv dev'"
      "keymap (entries (tab dev')) = foldl (\<lambda>f e. f(masked dev (e_scancode e) := e_keycode e)) (keymap []) ?es"
    unfolding mk using m(3,4) assms(9,12,13) by auto
  have "ir_setkeytable roundup_pow_of_two kstrdup kmalloc dev from = Some (dev', Inr ())"
    using m(1) d'(1) assms(5,9) by (simp add: ir_setkeytable_def mem_read_Some)
  moreover have "rc_g_keycode_from_table bsearch dev' (masked dev (e_scancode e)) = Some (e_keycode e)" if "e \<in> set ?es" for e
    using lookup_ok [OF _ assms(1), of dev'] d'(2)
      foldl_upd_distinct [of "masked dev \<circ> e_scancode" ?es e e_keycode "keymap []"] that assms(12)
    by (simp add: d'(3) dev_inv_def)
  ultimately show ?thesis by blast
qed

section \<open>Witnesses\<close>

text \<open>Instances of the parameters: a linear search, an allocator, a rounding function and a byte order.\<close>

definition linear_search :: bsearch where
  "linear_search key xs cmp = (case filter (\<lambda>i. cmp key (xs ! i) = 0) [0..<length xs] of [] \<Rightarrow> None | i # _ \<Rightarrow> Some i)"

definition some_kmalloc :: kmalloc where
  "some_kmalloc n = (if n \<le> 65536 then Some (replicate (n div 8) \<lparr>e_scancode = 0xdead, e_keycode = 0xbeef\<rparr>) else None)"

fun roundup_from :: "nat \<Rightarrow> nat \<Rightarrow> nat \<Rightarrow> nat" where
  "roundup_from 0 p n = p"
| "roundup_from (Suc f) p n = (if n \<le> p then p else roundup_from f (2 * p) n)"

definition le_bytes :: "u32 \<Rightarrow> u8 list" where
  "le_bytes sc = [ucast sc, ucast (drop_bit 8 sc), ucast (drop_bit 16 sc), ucast (drop_bit 24 sc)]"

fun le_scalar :: "u8 list \<Rightarrow> u32 result" where
  "le_scalar [a, b, c, d] = Inr (ucast a OR push_bit 8 (ucast b) OR push_bit 16 (ucast c) OR push_bit 24 (ucast d))"
| "le_scalar _ = Inl EINVAL"

lemma linear_search_spec: "bsearch_spec linear_search"
proof -
  have "case linear_search key xs cmp of Some i \<Rightarrow> i < length xs \<and> cmp key (xs ! i) = 0 | None \<Rightarrow> \<forall>x \<in> set xs. cmp key x \<noteq> 0"
    for key xs cmp
  proof (cases "filter (\<lambda>i. cmp key (xs ! i) = 0) [0..<length xs]")
    case Nil
    then show ?thesis by (auto simp: linear_search_def filter_empty_conv in_set_conv_nth)
  next
    case (Cons i js)
    have "i \<in> set (filter (\<lambda>i. cmp key (xs ! i) = 0) [0..<length xs])" unfolding Cons by simp
    then have "i < length xs \<and> cmp key (xs ! i) = 0" by simp
    with Cons show ?thesis by (simp add: linear_search_def)
  qed
  then show ?thesis by (simp add: bsearch_spec_def)
qed

lemma some_kmalloc_spec: "kmalloc_spec some_kmalloc"
  by (auto simp: kmalloc_spec_def some_kmalloc_def split: if_splits)

lemma scalar_spec_le: "scalar_spec le_scalar le_bytes"
proof -
  have "ucast (ucast sc :: u8) OR push_bit 8 (ucast (ucast (drop_bit 8 sc) :: u8)) OR push_bit 16 (ucast (ucast (drop_bit 16 sc) :: u8)) OR
      push_bit 24 (ucast (ucast (drop_bit 24 sc) :: u8)) = sc" for sc :: u32
    by (rule u32_eqI, unfold upt_32) (simp add: bit_simps)
  then show ?thesis by (simp add: scalar_spec_def le_bytes_def)
qed

lemma roundup_from_bounds: "p < 2 * n \<Longrightarrow> n \<le> p * 2 ^ f \<Longrightarrow> n \<le> roundup_from f p n \<and> roundup_from f p n < 2 * n"
  by (induction f p n rule: roundup_from.induct) (auto simp: ac_simps)

lemma roundup_from_spec: "roundup_spec (\<lambda>n. roundup_from n 1 n)"
  unfolding roundup_spec_def using roundup_from_bounds by (simp add: less_imp_le)

definition example_tab :: rc_keytab where
  "example_tab = \<lparr>tab = \<lparr>scan = [\<lparr>e_scancode = 5, e_keycode = 30\<rparr>, \<lparr>e_scancode = 9, e_keycode = 48\<rparr>], map_size = 2, map_len = 2, map_alloc = 16,
     map_proto = RC_PROTO_NEC, map_name = Some ''rc-example''\<rparr>, keybit = {30, 48}, scancode_mask = 0xff\<rparr>"

lemma example_tab_inv: "dev_inv example_tab"
  by (auto simp: dev_inv_def tab_inv_def example_tab_def ordered_def tkeys_def KEY_RESERVED_def)

theorem setkeycode_refines_map_witness:
  "\<exists>dev' bs. setkeys (set_scancode le_scalar le_bytes) example_tab
      [(some_kmalloc, 0x107, 46), (some_kmalloc, 5, KEY_RESERVED), (\<lambda>_. None, 9, 47)] = Some (dev', bs) \<and> length bs = 3 \<and>
    rc_g_keycode_from_table linear_search dev' = set_spec (masked example_tab) (rc_g_keycode_from_table linear_search example_tab)
      [(some_kmalloc, 0x107, 46), (some_kmalloc, 5, KEY_RESERVED), (\<lambda>_. None, 9, 47)] bs"
proof -
  let ?ops = "[(some_kmalloc, 0x107, 46), (some_kmalloc, 5, KEY_RESERVED), (\<lambda>_. None, 9, 47)] :: (kmalloc \<times> u32 \<times> u32) list"
  have "\<forall>(k, _, _) \<in> set ?ops. kmalloc_spec k" using some_kmalloc_spec by (simp add: kmalloc_spec_def)
  from setkeycode_refines_map [OF example_tab_inv linear_search_spec scalar_spec_le this] obtain dev' bs
    where "setkeys (set_scancode le_scalar le_bytes) example_tab ?ops = Some (dev', bs)" "length bs = length ?ops"
      "rc_g_keycode_from_table linear_search dev' = set_spec (masked example_tab) (rc_g_keycode_from_table linear_search example_tab) ?ops bs"
    by blast
  moreover have "length ?ops = 3" by simp
  ultimately show ?thesis by metis
qed

theorem setkeycode_keeps_inv_witness:
  "\<exists>dev' r. ir_setkeycode le_scalar some_kmalloc example_tab
      \<lparr>by_index = True, ke_index = 1, ke_keycode = 99, ke_scancode = []\<rparr> = Some (dev', r) \<and> dev_inv dev'"
  using setkeycode_keeps_inv [OF example_tab_inv some_kmalloc_spec] by blast

definition example_map :: rc_map where
  "example_map = \<lparr>scan = [\<lparr>e_scancode = 7, e_keycode = 30\<rparr>, \<lparr>e_scancode = 3, e_keycode = 48\<rparr>, \<lparr>e_scancode = 5, e_keycode = 46\<rparr>],
     map_size = 3, map_len = 0, map_alloc = 0, map_proto = RC_PROTO_NEC, map_name = Some ''rc-example''\<rparr>"

theorem setkeytable_loads_witness:
  "\<exists>dev'. ir_setkeytable (\<lambda>n. roundup_from n 1 n) Some (\<lambda>_. some_kmalloc)
      \<lparr>tab = \<lparr>scan = [], map_size = 0, map_len = 0, map_alloc = 0, map_proto = RC_PROTO_UNKNOWN, map_name = None\<rparr>, keybit = {}, scancode_mask = 0\<rparr>
      example_map = Some (dev', Inr ()) \<and> rc_g_keycode_from_table linear_search dev' 3 = Some 48"
proof -
  let ?dev = "\<lparr>tab = \<lparr>scan = [], map_size = 0, map_len = 0, map_alloc = 0, map_proto = RC_PROTO_UNKNOWN, map_name = None\<rparr>, keybit = {}, scancode_mask = 0\<rparr>"
  have k: "\<forall>i. kmalloc_spec ((\<lambda>_. some_kmalloc) i)" using some_kmalloc_spec by simp
  have "roundup_from 24 1 24 < 48" using roundup_from_spec [unfolded roundup_spec_def, rule_format, of 24] by simp
  then have a: "some_kmalloc (roundup_from (map_size example_map * 8) 1 (map_size example_map * 8)) \<noteq> None"
    by (simp add: some_kmalloc_def example_map_def)
  have m: "map_name example_map = Some ''rc-example''" "map_size example_map = 3" "map_size example_map \<le> length (scan example_map)"
    "take (map_size example_map) (scan example_map) =
      [\<lparr>e_scancode = 7, e_keycode = 30\<rparr>, \<lparr>e_scancode = 3, e_keycode = 48\<rparr>, \<lparr>e_scancode = 5, e_keycode = 46\<rparr>]"
    by (simp_all add: example_map_def)
  have d: "map_len (tab ?dev) = 0" "keybit ?dev = {}" "masked ?dev = id" by (simp_all add: masked_def fun_eq_iff)
  have e: "distinct (map (masked ?dev \<circ> e_scancode) (take (map_size example_map) (scan example_map)))"
    "\<forall>e \<in> set (take (map_size example_map) (scan example_map)). \<not> unmapped (e_keycode e)"
    unfolding m(4) d(3) by (simp_all add: unmapped_def KEY_RESERVED_def KEY_UNKNOWN_def)
  have sz: "0 < map_size example_map" "map_size example_map < 2 ^ 27" by (simp_all add: m(2))
  from setkeytable_loads [where kstrdup = Some and kmalloc = "\<lambda>_. some_kmalloc" and roundup_pow_of_two = "\<lambda>n. roundup_from n 1 n",
      OF linear_search_spec roundup_from_spec k a m(1) refl sz m(3) d(1,2) e] obtain dev'
    where l: "ir_setkeytable (\<lambda>n. roundup_from n 1 n) Some (\<lambda>_. some_kmalloc) ?dev example_map = Some (dev', Inr ())"
      "\<forall>e \<in> set [\<lparr>e_scancode = 7, e_keycode = 30\<rparr>, \<lparr>e_scancode = 3, e_keycode = 48\<rparr>, \<lparr>e_scancode = 5, e_keycode = 46\<rparr>].
        rc_g_keycode_from_table linear_search dev' (e_scancode e) = Some (e_keycode e)"
    unfolding m(4) d(3) id_apply by blast
  from bspec [OF l(2), of "\<lparr>e_scancode = 3, e_keycode = 48\<rparr>"] l(1) show ?thesis by simp
qed

lemma setkeytable_shrinks:
  assumes "dev_inv dev" "kmalloc_spec (kmalloc (length es))" "\<exists>x \<in> set (entries (tab dev)). e_scancode x = masked dev (e_scancode e)"
    "\<forall>x \<in> set (entries (tab dev)). e_keycode x \<noteq> KEY_RESERVED" "\<not> unmapped (e_keycode e)"
    "map_len (tab dev) * 3 < map_size (tab dev)" "32 < map_size (tab dev)" "\<forall>n. kmalloc (length es) n \<noteq> None"
  obtains d2 where "setkeytable_loop kmalloc dev (e # es) = setkeytable_loop kmalloc d2 es" "dev_inv d2" "masked d2 = masked dev"
    "map_len (tab d2) = map_len (tab dev)" "map_size (tab d2) = map_size (tab dev) div 2"
    "e_scancode ` set (entries (tab d2)) = e_scancode ` set (entries (tab dev))"
proof -
  let ?k = "kmalloc (length es)"
  from establish_ok [OF assms(1,2), of "e_scancode e" False] assms(3) obtain j
    where j: "ir_establish_scancode ?k dev (e_scancode e) False = Some (dev, j)" "j < map_len (tab dev)" by metis
  have o: "ordered (entries (tab dev))" "j < length (entries (tab dev))" using assms(1) j(2) by (auto simp: dev_inv_def tab_inv_def)
  have "e_keycode (entries (tab dev) ! j) \<noteq> KEY_RESERVED" using assms(4) nth_mem [OF o(2)] by blast
  have sz: "256 < map_alloc (tab dev)" "map_alloc (tab dev) div 2 div 8 = map_size (tab dev) div 2"
    using assms(1,7) by (auto simp: dev_inv_def tab_inv_def div_mult2_eq [symmetric])
  with \<open>e_keycode (entries (tab dev) ! j) \<noteq> KEY_RESERVED\<close>
    update_mapping_ok [OF assms(1,2) j(2), of "e_keycode e"] assms(5,6,8) obtain d2 x
    where 2: "ir_update_mapping ?k dev j (e_keycode e) = Some (d2, x)" "dev_inv d2"
      "entries (tab d2) = updated (entries (tab dev)) j (e_keycode e)" "scancode_mask d2 = scancode_mask dev"
      "map_size (tab d2) = map_size (tab dev) div 2" by metis
  have "map e_scancode (updated (entries (tab dev)) j (e_keycode e)) = map e_scancode (entries (tab dev))"
    using assms(5) o(2) by (simp add: updated_def map_update) (metis list_update_id nth_map o(2) nth_take)
  then have scs: "e_scancode ` set (entries (tab d2)) = e_scancode ` set (entries (tab dev))" unfolding 2(3) by (metis image_set)
  show thesis
  proof (rule that [OF _ 2(2) _ _ 2(5) scs])
    show "setkeytable_loop kmalloc dev (e # es) = setkeytable_loop kmalloc d2 es" using j 2(1) by simp
    show "masked d2 = masked dev" using 2(4) by (simp add: masked_def fun_eq_iff)
    show "map_len (tab d2) = map_len (tab dev)"
      using arg_cong [OF 2(3), of length] assms(1,5) 2(2) by (simp add: updated_def dev_inv_def tab_inv_def)
  qed
qed

text \<open>
  C37: A keymap of at least 33 entries whose first two entries have the same scancode does not load, when half of the table allocated for it is too small for the
  rest: replacing the key of the repeated scancode
  shrinks the still almost empty table, and the loop of \<^verbatim>\<open>ir_setkeytable\<close>, which may not grow it again, runs out of room and
  reports \<^verbatim>\<open>ENOMEM\<close>, although every allocation succeeds and the table it allocated first was large enough. (With
  allocations that are powers of two this concerns every keymap of at least 34 entries whose size is not 1 above
  a power of two.)
\<close>

theorem setkeytable_duplicate_fails:
  assumes "roundup_spec roundup_pow_of_two" "\<forall>i. kmalloc_spec (kmalloc i)" "\<forall>i n. kmalloc i n \<noteq> None"
    "map_name from = Some name" "kstrdup name = Some name" "map_size from < 2 ^ 27" "map_size from = length (scan from)"
    "map_len (tab dev) = 0" "keybit dev = {}" "scan from = e1 # e2 # es" "masked dev (e_scancode e1) = masked dev (e_scancode e2)"
    "distinct (map (masked dev \<circ> e_scancode) (e2 # es))" "\<forall>e \<in> set (scan from). \<not> unmapped (e_keycode e)"
    "33 \<le> map_size from" "roundup_pow_of_two (map_size from * 8) div 16 < map_size from - 1"
  shows "\<exists>dev'. ir_setkeytable roundup_pow_of_two kstrdup kmalloc dev from = Some (dev', Inl ENOMEM)"
proof -
  let ?n = "map_size from" and ?sc = "masked dev (e_scancode e1)"
  have n: "0 < ?n" "?n = length es + 2" using assms(7,10) by simp_all
  obtain a where a: "kmalloc ?n (roundup_pow_of_two (?n * 8)) = Some a" using assms(3) by blast
  from create_table_ok [where p = "map_proto from" and k = "kmalloc ?n" and r = roundup_pow_of_two and kstrdup = kstrdup and name = name,
      OF assms(1) n(1) assms(6) spec [OF assms(2)] a assms(5,8)] obtain m
    where m: "ir_create_table roundup_pow_of_two kstrdup (kmalloc ?n) (tab dev) (Some name) (map_proto from) ?n = (m, Inr ())"
      "tab_inv m" "map_len m = 0" "?n \<le> map_size m" "map_alloc m = roundup_pow_of_two (?n * 8)" by blast
  define d where "d = dev\<lparr>tab := m\<rparr>"
  have tb: "tab d = m" by (simp add: d_def)
  have inv: "dev_inv d" using m(2,3) assms(9) by (simp add: dev_inv_def tkeys_def d_def)
  have pre: "kmalloc_spec (kmalloc (length (e2 # es)))" "map_len (tab d) < map_size (tab d)"
    "masked d (e_scancode e1) \<notin> e_scancode ` set (entries (tab d))" "\<not> unmapped (e_keycode e1)"
    using assms(2,10,13) m(3,4) n(1) by (simp_all add: tb)
  have mk: "masked d = masked dev" by (simp add: masked_def fun_eq_iff d_def)
  from setkeytable_step [where kmalloc = kmalloc and es = "e2 # es", OF inv pre] obtain d1
    where d1: "setkeytable_loop kmalloc d (e1 # e2 # es) = setkeytable_loop kmalloc d1 (e2 # es)" "dev_inv d1" "masked d1 = masked dev"
      "map_len (tab d1) = Suc (map_len m)" "map_size (tab d1) = map_size m" "e_scancode ` set (entries (tab d1)) = insert ?sc (e_scancode ` set (entries m))"
      "keymap (entries (tab d1)) = (keymap (entries m))(?sc := e_keycode e1)"
    unfolding mk tb by metis
  have e0: "entries m = []" using m(3) by simp
  have ord: "ordered (entries (tab d1))" using d1(2) by (simp add: dev_inv_def tab_inv_def)
  have scs1: "e_scancode x = ?sc" if "x \<in> set (entries (tab d1))" for x using d1(6) that unfolding e0 by auto
  have keys: "\<forall>x \<in> set (entries (tab d1)). e_keycode x \<noteq> KEY_RESERVED"
    using keymap_entry [OF ord] scs1 d1(7) pre(4) by (metis fun_upd_same unmapped_def)
  have dup: "\<exists>x \<in> set (entries (tab d1)). e_scancode x = masked d1 (e_scancode e2)"
    using d1(3,6) assms(11) by (metis imageE insertI1)
  have pre2: "kmalloc_spec (kmalloc (length es))" "\<not> unmapped (e_keycode e2)" "\<forall>n. kmalloc (length es) n \<noteq> None"
    using assms(2,3,10,13) by simp_all
  have sz: "map_len (tab d1) * 3 < map_size (tab d1)" "32 < map_size (tab d1)" using d1(4,5) m(3,4) assms(14) by simp_all
  from setkeytable_shrinks [where kmalloc = kmalloc and es = es, OF d1(2) pre2(1) dup keys pre2(2) sz pre2(3)] obtain d2
    where d2: "setkeytable_loop kmalloc d1 (e2 # es) = setkeytable_loop kmalloc d2 es" "dev_inv d2" "masked d2 = masked d1"
      "map_len (tab d2) = map_len (tab d1)" "map_size (tab d2) = map_size (tab d1) div 2"
      "e_scancode ` set (entries (tab d2)) = e_scancode ` set (entries (tab d1))" by metis
  have "\<exists>dev'. setkeytable_loop kmalloc d2 es = Some (dev', Inl ENOMEM)"
  proof (rule setkeytable_loop_full [OF d2(2) assms(2)])
    have "map_size m div 2 = roundup_pow_of_two (?n * 8) div 16"
      using m(2,5) by (simp add: tab_inv_def div_mult2_eq [symmetric])
    then show "map_size (tab d2) < map_len (tab d2) + length es" using assms(15) n(2) d2(4,5) d1(4,5) m(3) by simp
    show "distinct (map (masked d2 \<circ> e_scancode) es)" using assms(12) d1(3) d2(3) by (simp add: comp_def)
    show "\<forall>e \<in> set es. masked d2 (e_scancode e) \<notin> e_scancode ` set (entries (tab d2))"
      unfolding d2(3,6) d1(3,6) e0 using assms(11,12) by (fastforce simp: image_iff)
    show "\<forall>e \<in> set es. \<not> unmapped (e_keycode e)" using assms(10,13) by simp
  qed
  then obtain dev' where "setkeytable_loop kmalloc d (scan from) = Some (dev', Inl ENOMEM)"
    unfolding assms(10) d1(1) d2(1) by blast
  then show ?thesis using m(1) assms(4,7) by (simp add: ir_setkeytable_def mem_read_Some d_def)
qed

definition duplicate_map :: rc_map where
  "duplicate_map = \<lparr>scan = \<lparr>e_scancode = 0, e_keycode = 30\<rparr> # \<lparr>e_scancode = 0, e_keycode = 48\<rparr> #
       map (\<lambda>i. \<lparr>e_scancode = of_nat i, e_keycode = 46\<rparr>) [1..<35],
     map_size = 36, map_len = 0, map_alloc = 0, map_proto = RC_PROTO_NEC, map_name = Some ''rc-example''\<rparr>"

theorem setkeytable_duplicate_fails_witness:
  "\<exists>dev'. ir_setkeytable (\<lambda>n. if n = 288 then 512 else roundup_from n 1 n) Some (\<lambda>_ n. Some (replicate (n div 8) \<lparr>e_scancode = 1, e_keycode = 2\<rparr>))
      \<lparr>tab = \<lparr>scan = [], map_size = 0, map_len = 0, map_alloc = 0, map_proto = RC_PROTO_UNKNOWN, map_name = None\<rparr>, keybit = {}, scancode_mask = 0\<rparr>
      duplicate_map = Some (dev', Inl ENOMEM)"
proof (rule setkeytable_duplicate_fails)
  let ?dev = "\<lparr>tab = \<lparr>scan = [], map_size = 0, map_len = 0, map_alloc = 0, map_proto = RC_PROTO_UNKNOWN, map_name = None\<rparr>, keybit = {}, scancode_mask = 0\<rparr>"
  let ?es = "map (\<lambda>i. \<lparr>e_scancode = of_nat i, e_keycode = 46\<rparr>) [1..<35] :: rc_map_table list"
  show "roundup_spec (\<lambda>n. if n = 288 then 512 else roundup_from n 1 n)" using roundup_from_spec by (simp add: roundup_spec_def)
  show "\<forall>i. kmalloc_spec (\<lambda>n. Some (replicate (n div 8) \<lparr>e_scancode = 1, e_keycode = 2\<rparr>))" by (simp add: kmalloc_spec_def)
  show "scan duplicate_map = \<lparr>e_scancode = 0, e_keycode = 30\<rparr> # \<lparr>e_scancode = 0, e_keycode = 48\<rparr> # ?es" by (simp add: duplicate_map_def)
  show "map_name duplicate_map = Some ''rc-example''" by (simp add: duplicate_map_def)
  have "masked ?dev = id" by (simp add: masked_def fun_eq_iff)
  moreover have "inj_on (of_nat :: nat \<Rightarrow> u32) {0..<35}" by (rule inj_onI) (simp add: word_of_nat_eq_iff take_bit_nat_eq_self)
  then have "distinct (map (of_nat :: nat \<Rightarrow> u32) [0..<35])" by (simp only: distinct_map distinct_upt set_upt)
  moreover have "[0..<35] = 0 # [1..<35]" by (rule trans [OF upt_conv_Cons]) simp_all
  ultimately have "distinct (map (of_nat :: nat \<Rightarrow> u32) (0 # [1..<35]))" "masked ?dev = id" by (simp_all only:)
  then show "distinct (map (masked ?dev \<circ> e_scancode) (\<lparr>e_scancode = 0, e_keycode = 48\<rparr> # ?es))" by (simp add: comp_def)
qed (simp_all add: duplicate_map_def unmapped_def KEY_RESERVED_def KEY_UNKNOWN_def)

end
