(* ===== verification/Rc_Main.thy ===== *)
theory Rc_Main
  imports Rc_Table
begin

text \<open>
  Key presses, releases and repeats, the second half of \<^verbatim>\<open>rc/rc-main.c\<close>. A call changes the state
  of the device and reports events to the input layer, the LED and LIRC; the events are returned in
  order. Time is a parameter of every call (\<open>now\<close>), as are the conversions to jiffies. A pending timer is
  its expiry time.
\<close>

section \<open>State\<close>

datatype input_ev = Ev_key u32 int | Ev_scan u32 | Ev_syn | Led bool
  | Lirc_ev rc_proto u32 u32 bool bool

record rc_dev =
  keytable :: rc_keytab
  keypressed :: bool
  last_protocol :: rc_proto
  last_scancode :: u32
  last_keycode :: u32
  last_toggle :: u8
  dev_timeout :: u32
  allowed_protocols :: u64
  keyup_jiffies :: u64
  timer_keyup :: "u64 option"
  timer_repeat :: "u64 option"
  rep_delay :: u32
  rep_period :: u32

text \<open>
  What the code calls of \<^verbatim>\<open>linux/jiffies.h\<close>: the two conversions, and \<^verbatim>\<open>time_is_before_eq_jiffies(a)\<close>
  as a relation between the current jiffies and \<open>a\<close>.
\<close>

record jiffies_api =
  nsecs_to_jiffies :: "u64 \<Rightarrow> u64"
  msecs_to_jiffies :: "u32 \<Rightarrow> u64"
  time_is_before_eq_jiffies :: "u64 \<Rightarrow> u64 \<Rightarrow> bool"

definition RC_PROTO_BIT_CEC :: u64 where "RC_PROTO_BIT_CEC = push_bit (rc_proto_num RC_PROTO_CEC) 1"

section \<open>Operations\<close>

definition ir_do_keyup :: "rc_dev \<Rightarrow> bool \<Rightarrow> rc_dev \<times> input_ev list" where
  "ir_do_keyup dev sync =
     (if \<not> keypressed dev then (dev, [])
      else
        (dev\<lparr>timer_repeat := None, keypressed := False\<rparr>,
         [Ev_key (last_keycode dev) 0, Led False] @ (if sync then [Ev_syn] else [])))"

definition rc_keyup :: "rc_dev \<Rightarrow> rc_dev \<times> input_ev list" where
  "rc_keyup dev = ir_do_keyup dev True"

definition ir_timer_keyup :: "jiffies_api \<Rightarrow> u64 \<Rightarrow> rc_dev \<Rightarrow> rc_dev \<times> input_ev list" where
  "ir_timer_keyup cv now dev =
     (if time_is_before_eq_jiffies cv now (keyup_jiffies dev) then ir_do_keyup dev True else (dev, []))"

definition ir_timer_repeat :: "jiffies_api \<Rightarrow> u64 \<Rightarrow> rc_dev \<Rightarrow> rc_dev \<times> input_ev list" where
  "ir_timer_repeat cv now dev =
     (if keypressed dev then
        ((if rep_period dev \<noteq> 0 then dev\<lparr>timer_repeat := Some (now + msecs_to_jiffies cv (rep_period dev))\<rparr> else dev),
         [Ev_key (last_keycode dev) 2, Ev_syn])
      else (dev, []))"

definition repeat_period :: "rc_proto \<Rightarrow> u32" where
  "repeat_period protocol = of_nat (protocols_repeat_period protocol)"

definition rc_repeat :: "jiffies_api \<Rightarrow> u64 \<Rightarrow> rc_dev \<Rightarrow> rc_dev \<times> input_ev list" where
  "rc_repeat cv now dev =
     (let timeout = ucast (nsecs_to_jiffies cv (ucast (dev_timeout dev)) +
            msecs_to_jiffies cv (repeat_period (last_protocol dev))) :: u32;
          lirc = (if allowed_protocols dev \<noteq> RC_PROTO_BIT_CEC then
            [Lirc_ev (last_protocol dev) (last_scancode dev) (if keypressed dev then last_keycode dev else KEY_RESERVED)
               (last_toggle dev \<noteq> 0) True] else []);
          dev' = (if keypressed dev then
            dev\<lparr>keyup_jiffies := now + ucast timeout, timer_keyup := Some (now + ucast timeout)\<rparr> else dev) in
      (dev', lirc @ [Ev_scan (last_scancode dev), Ev_syn]))"

definition ir_do_keydown :: "jiffies_api \<Rightarrow> u64 \<Rightarrow> rc_dev \<Rightarrow> rc_proto \<Rightarrow> u32 \<Rightarrow> u32 \<Rightarrow> u8 \<Rightarrow> rc_dev \<times> input_ev list" where
  "ir_do_keydown cv now dev protocol sc kc toggle =
     (let new_event = (\<not> keypressed dev \<or> last_protocol dev \<noteq> protocol \<or> last_scancode dev \<noteq> sc \<or> last_toggle dev \<noteq> toggle);
          lirc = (if allowed_protocols dev \<noteq> RC_PROTO_BIT_CEC then [Lirc_ev protocol sc kc (toggle \<noteq> 0) False] else []);
          (dev, up) = (if new_event \<and> keypressed dev then ir_do_keyup dev False else (dev, []));
          dev = dev\<lparr>last_protocol := protocol, last_scancode := sc, last_toggle := toggle, last_keycode := kc\<rparr>;
          (dev, down) = (if new_event \<and> kc \<noteq> KEY_RESERVED then (dev\<lparr>keypressed := True\<rparr>, [Ev_key kc 1, Led True]) else (dev, []));
          (dev, rep) = (if \<not> new_event \<and> kc \<noteq> KEY_RESERVED \<and> allowed_protocols dev = RC_PROTO_BIT_CEC \<and>
              timer_repeat dev = None \<and> rep_period dev \<noteq> 0 \<and> rep_delay dev = 0
            then (dev\<lparr>timer_repeat := Some (now + msecs_to_jiffies cv (rep_period dev))\<rparr>, [Ev_key kc 2]) else (dev, [])) in
      (dev, lirc @ up @ [Ev_scan sc] @ down @ rep @ [Ev_syn]))"

definition rc_keydown :: "bsearch \<Rightarrow> jiffies_api \<Rightarrow> u64 \<Rightarrow> rc_dev \<Rightarrow> rc_proto \<Rightarrow> u32 \<Rightarrow> u8 \<Rightarrow> (rc_dev \<times> input_ev list) option" where
  "rc_keydown bsearch cv now dev protocol sc toggle =
     map_option (\<lambda>kc.
       let (dev, evs) = ir_do_keydown cv now dev protocol sc kc toggle;
           expires = now + nsecs_to_jiffies cv (ucast (dev_timeout dev)) + msecs_to_jiffies cv (repeat_period protocol) in
       ((if keypressed dev then dev\<lparr>keyup_jiffies := expires, timer_keyup := Some expires\<rparr> else dev), evs))
     (rc_g_keycode_from_table bsearch (keytable dev) sc)"

definition rc_keydown_notimeout ::
  "bsearch \<Rightarrow> jiffies_api \<Rightarrow> u64 \<Rightarrow> rc_dev \<Rightarrow> rc_proto \<Rightarrow> u32 \<Rightarrow> u8 \<Rightarrow> (rc_dev \<times> input_ev list) option" where
  "rc_keydown_notimeout bsearch cv now dev protocol sc toggle =
     map_option (\<lambda>kc. ir_do_keydown cv now dev protocol sc kc toggle) (rc_g_keycode_from_table bsearch (keytable dev) sc)"

section \<open>The keys that are down\<close>

fun down_after :: "u32 set \<Rightarrow> input_ev list \<Rightarrow> u32 set" where
  "down_after ks [] = ks"
| "down_after ks (Ev_key k v # evs) = down_after (if v = 0 then ks - {k} else if v = 1 then insert k ks else ks) evs"
| "down_after ks (_ # evs) = down_after ks evs"

lemma down_after_append: "down_after ks (xs @ ys) = down_after (down_after ks xs) ys"
proof (induction xs arbitrary: ks)
  case (Cons x xs)
  then show ?case by (cases x) auto
qed simp

lemma down_after_lirc [simp]: "down_after ks (if c then [Lirc_ev p sc kc t r] else []) = ks"
  by simp

text \<open>
  The calls of drivers, decoders and timers, as steps of a system with a clock. The timer core takes
  an expired timer off the list of pending timers (\<open>Expire_keyup\<close>, \<open>Expire_repeat\<close>) and then runs its callback; a
  driver may come in between and arm the timer again.
\<close>

record rc_sys =
  sdev :: rc_dev
  clock :: nat
  keyup_cb :: bool
  repeat_cb :: bool

datatype call = Keydown rc_proto u32 u8 | Keydown_notimeout rc_proto u32 u8 | Keyup | Repeat
  | Tick nat | Expire_keyup | Timer_keyup | Expire_repeat | Timer_repeat

abbreviation now :: "rc_sys \<Rightarrow> u64" where
  "now s \<equiv> of_nat (clock s)"

inductive rc_step :: "bsearch \<Rightarrow> jiffies_api \<Rightarrow> rc_sys \<Rightarrow> call \<Rightarrow> input_ev list \<Rightarrow> rc_sys \<Rightarrow> bool" for b cv where
  keydown: "rc_keydown b cv (now s) (sdev s) p sc t = Some (d, evs) \<Longrightarrow> rc_step b cv s (Keydown p sc t) evs (s\<lparr>sdev := d\<rparr>)"
| notimeout: "rc_keydown_notimeout b cv (now s) (sdev s) p sc t = Some (d, evs) \<Longrightarrow>
    rc_step b cv s (Keydown_notimeout p sc t) evs (s\<lparr>sdev := d\<rparr>)"
| keyup: "rc_keyup (sdev s) = (d, evs) \<Longrightarrow> rc_step b cv s Keyup evs (s\<lparr>sdev := d\<rparr>)"
| repeat: "rc_repeat cv (now s) (sdev s) = (d, evs) \<Longrightarrow> rc_step b cv s Repeat evs (s\<lparr>sdev := d\<rparr>)"
| tick: "clock s \<le> n \<Longrightarrow> rc_step b cv s (Tick n) [] (s\<lparr>clock := n\<rparr>)"
| expire_keyup: "timer_keyup (sdev s) = Some x \<Longrightarrow> unat x \<le> clock s \<Longrightarrow> \<not> keyup_cb s \<Longrightarrow>
    rc_step b cv s Expire_keyup [] (s\<lparr>sdev := (sdev s)\<lparr>timer_keyup := None\<rparr>, keyup_cb := True\<rparr>)"
| timer_keyup: "keyup_cb s \<Longrightarrow> ir_timer_keyup cv (now s) (sdev s) = (d, evs) \<Longrightarrow>
    rc_step b cv s Timer_keyup evs (s\<lparr>sdev := d, keyup_cb := False\<rparr>)"
| expire_repeat: "timer_repeat (sdev s) = Some x \<Longrightarrow> unat x \<le> clock s \<Longrightarrow> \<not> repeat_cb s \<Longrightarrow>
    rc_step b cv s Expire_repeat [] (s\<lparr>sdev := (sdev s)\<lparr>timer_repeat := None\<rparr>, repeat_cb := True\<rparr>)"
| timer_repeat: "repeat_cb s \<Longrightarrow> ir_timer_repeat cv (now s) (sdev s) = (d, evs) \<Longrightarrow>
    rc_step b cv s Timer_repeat evs (s\<lparr>sdev := d, repeat_cb := False\<rparr>)"

inductive rc_run :: "bsearch \<Rightarrow> jiffies_api \<Rightarrow> rc_sys \<Rightarrow> call list \<Rightarrow> input_ev list \<Rightarrow> rc_sys \<Rightarrow> bool" for b cv where
  nil: "rc_run b cv s [] [] s"
| step: "rc_step b cv s c evs s1 \<Longrightarrow> rc_run b cv s1 cs evs' s2 \<Longrightarrow> rc_run b cv s (c # cs) (evs @ evs') s2"

inductive_cases rc_stepE: "rc_step b cv s c evs s'"
inductive_simps rc_run_simps: "rc_run b cv s [] evs s'" "rc_run b cv s (c # cs) evs s'"

section \<open>Which keys are down\<close>

text \<open>
  The invariant: a pressed key is the one the last scancode is mapped to, and the keys that are
  down are this one key, or none.
\<close>

definition key_inv :: "rc_dev \<Rightarrow> u32 set \<Rightarrow> bool" where
  "key_inv dev ks \<longleftrightarrow> dev_inv (keytable dev) \<and>
     (if keypressed dev then ks = {last_keycode dev} \<and> last_keycode dev \<noteq> KEY_RESERVED \<and>
        keymap (entries (tab (keytable dev))) (last_scancode dev) = last_keycode dev
      else ks = {})"

definition held :: "rc_dev \<Rightarrow> rc_proto \<Rightarrow> u32 \<Rightarrow> u8 \<Rightarrow> bool" where
  "held dev p sc t \<longleftrightarrow> keypressed dev \<and> last_protocol dev = p \<and> last_scancode dev = sc \<and> last_toggle dev = t"

lemma do_keydown_held:
  assumes "ir_do_keydown cv t0 dev p sc kc t = (dev', evs)" "held dev p sc t"
  shows "keypressed dev' \<and> last_keycode dev' = kc \<and> last_scancode dev' = sc \<and> keytable dev' = keytable dev \<and>
    timer_keyup dev' = timer_keyup dev \<and> keyup_jiffies dev' = keyup_jiffies dev \<and> down_after ks evs = ks"
  using assms by (auto simp: ir_do_keydown_def held_def Let_def split: if_splits)

lemma do_keydown_fresh:
  assumes "ir_do_keydown cv t0 dev p sc kc t = (dev', evs)" "\<not> held dev p sc t"
  shows "keypressed dev' = (kc \<noteq> KEY_RESERVED) \<and> last_keycode dev' = kc \<and> last_scancode dev' = sc \<and> keytable dev' = keytable dev \<and>
    timer_keyup dev' = timer_keyup dev \<and> keyup_jiffies dev' = keyup_jiffies dev \<and>
    down_after ks evs = (let ks = (if keypressed dev then ks - {last_keycode dev} else ks) in
      if kc \<noteq> KEY_RESERVED then insert kc ks else ks)"
proof -
  have new: "\<not> keypressed dev \<or> last_protocol dev \<noteq> p \<or> last_scancode dev \<noteq> sc \<or> last_toggle dev \<noteq> t"
    using assms(2) by (auto simp: held_def)
  show ?thesis using assms(1) unfolding ir_do_keydown_def Let_def simp_thms new [THEN eqTrueI] 
    by (cases "keypressed dev"; cases "kc = KEY_RESERVED"; auto simp: ir_do_keyup_def down_after_append)
qed

lemma do_keydown_inv:
  assumes "key_inv dev ks" "keymap (entries (tab (keytable dev))) sc = kc" "ir_do_keydown cv t0 dev p sc kc t = (dev', evs)"
  shows "key_inv dev' (down_after ks evs) \<and> keytable dev' = keytable dev"
proof (cases "held dev p sc t")
  case True
  with do_keydown_held [OF assms(3), of ks] assms(1,2) show ?thesis by (auto simp: key_inv_def held_def)
next
  case False
  with do_keydown_fresh [OF assms(3), of ks] assms(1,2) show ?thesis by (auto simp: key_inv_def Let_def split: if_splits)
qed

lemma keycode_lookup:
  assumes "key_inv dev ks" "bsearch_spec b"
  shows "rc_g_keycode_from_table b (keytable dev) sc = Some (keymap (entries (tab (keytable dev))) sc)"
  using lookup_ok [OF _ assms(2)] assms(1) by (simp add: key_inv_def dev_inv_def)

lemma rc_keydownE:
  assumes "rc_keydown b cv t0 d p sc t = Some (d', evs)"
  obtains kc d0 x where "rc_g_keycode_from_table b (keytable d) sc = Some kc" "ir_do_keydown cv t0 d p sc kc t = (d0, evs)"
    "x = t0 + nsecs_to_jiffies cv (ucast (dev_timeout d0)) + msecs_to_jiffies cv (repeat_period p)"
    "d' = (if keypressed d0 then d0\<lparr>keyup_jiffies := x, timer_keyup := Some x\<rparr> else d0)"
proof -
  from assms obtain kc where kc: "rc_g_keycode_from_table b (keytable d) sc = Some kc"
    by (cases "rc_g_keycode_from_table b (keytable d) sc") (simp_all add: rc_keydown_def)
  obtain d0 e where "ir_do_keydown cv t0 d p sc kc t = (d0, e)" by force
  with assms kc that show thesis by (simp add: rc_keydown_def Let_def)
qed

lemma rc_step_inv:
  assumes "rc_step b cv s c evs s'" "key_inv (sdev s) ks" "bsearch_spec b"
  shows "key_inv (sdev s') (down_after ks evs)"
proof -
  note lk = keycode_lookup [OF assms(2,3)]
  from assms(1) show ?thesis
  proof cases
    case (keydown p sc t d')
    from keydown(3) obtain d where d: "ir_do_keydown cv (now s) (sdev s) p sc (keymap (entries (tab (keytable (sdev s)))) sc) t = (d, evs)"
      and d': "d' = d \<or> (\<exists>x. d' = d\<lparr>keyup_jiffies := x, timer_keyup := Some x\<rparr>)"
      by (rule rc_keydownE) (auto simp: lk split: if_splits)
    from do_keydown_inv [OF assms(2) refl d] d' keydown show ?thesis by (auto simp: key_inv_def)
  next
    case (notimeout p sc t d)
    with do_keydown_inv [OF assms(2) refl, of cv "now s" p sc t d evs] show ?thesis
      by (auto simp: rc_keydown_notimeout_def lk)
  next
    case keyup
    with assms(2) show ?thesis by (auto simp: rc_keyup_def ir_do_keyup_def key_inv_def split: if_splits)
  next
    case repeat
    with assms(2) show ?thesis by (auto simp: rc_repeat_def key_inv_def Let_def split: if_splits)
  next
    case timer_keyup
    with assms(2) show ?thesis by (auto simp: ir_timer_keyup_def ir_do_keyup_def key_inv_def split: if_splits)
  next
    case timer_repeat
    with assms(2) show ?thesis by (auto simp: ir_timer_repeat_def key_inv_def split: if_splits)
  qed (use assms(2) in \<open>simp_all add: key_inv_def\<close>)
qed

lemma rc_run_inv: "rc_run b cv s cs evs s' \<Longrightarrow> key_inv (sdev s) ks \<Longrightarrow> bsearch_spec b \<Longrightarrow> key_inv (sdev s') (down_after ks evs)"
proof (induction arbitrary: ks rule: rc_run.induct)
  case (step s c evs s1 cs evs' s2)
  then show ?case by (metis rc_step_inv down_after_append)
qed (simp)

text \<open>
  C34: At most one key of a remote control is down at any time, and it is the key the last scancode is mapped to. For every
  interleaving of key presses with and without timeout, repeats, releases, timer expiries and timer callbacks on a device with a
  well-formed table and no key pressed, the events reported to the input layer leave exactly the last keycode down if the
  device says that a key is pressed, and none otherwise; a key that is down is never \<^verbatim>\<open>KEY_RESERVED\<close>.
\<close>

theorem keys_down_tracked:
  assumes "rc_run b cv s cs evs s'" "bsearch_spec b" "dev_inv (keytable (sdev s))" "\<not> keypressed (sdev s)"
  shows "down_after {} evs = (if keypressed (sdev s') then {last_keycode (sdev s')} else {}) \<and> KEY_RESERVED \<notin> down_after {} evs \<and>
    (keypressed (sdev s') \<longrightarrow> rc_g_keycode_from_table b (keytable (sdev s')) (last_scancode (sdev s')) = Some (last_keycode (sdev s')))"
proof -
  have "key_inv (sdev s) {}" using assms(3,4) by (simp add: key_inv_def)
  from rc_run_inv [OF assms(1) this assms(2)] have inv: "key_inv (sdev s') (down_after {} evs)" .
  from keycode_lookup [OF inv assms(2)] inv show ?thesis by (auto simp: key_inv_def split: if_splits)
qed

section \<open>Every key is released\<close>

text \<open>
  What is relied on of the jiffies: a duration in nanoseconds is at most as many jiffies, \<^verbatim>\<open>msecs_to_jiffies\<close> is at most
  \<^verbatim>\<open>MAX_JIFFY_OFFSET\<close>, and times less than half the range apart are compared as numbers.
\<close>

definition jiffies_spec :: "jiffies_api \<Rightarrow> bool" where
  "jiffies_spec cv \<longleftrightarrow> (\<forall>n. nsecs_to_jiffies cv n \<le> n) \<and> (\<forall>m. msecs_to_jiffies cv m < 2 ^ 62) \<and>
     (\<forall>t a. t < 2 ^ 63 \<and> a < 2 ^ 63 \<longrightarrow> (time_is_before_eq_jiffies cv t a \<longleftrightarrow> a \<le> t))"

text \<open>The uptime that is considered, in jiffies.\<close>

definition max_clock :: nat where "max_clock = 2 ^ 61"

definition timer_inv :: "rc_sys \<Rightarrow> bool" where
  "timer_inv s \<longleftrightarrow> clock s < max_clock \<and> keyup_jiffies (sdev s) < 2 ^ 63 \<and>
     (keypressed (sdev s) \<longrightarrow> timer_keyup (sdev s) = Some (keyup_jiffies (sdev s)) \<or>
        keyup_cb s \<and> unat (keyup_jiffies (sdev s)) \<le> clock s)"

fun timed_call :: "call \<Rightarrow> bool" where
  "timed_call (Keydown_notimeout _ _ _) = False"
| "timed_call (Tick n) = (n < max_clock)"
| "timed_call _ = True"

lemma clock_word: "clock s < max_clock \<Longrightarrow> unat (now s) = clock s"
  by (simp add: max_clock_def unat_of_nat)

lemma unat_ucast_32_64: "unat (ucast (n :: u32) :: u64) < 4294967296"
  by (rule le_less_trans [OF _ unsigned_less [of n, simplified]]) (simp add: unsigned_ucast_eq take_bit_nat_less_eq_self)

lemma expiry_bound:
  assumes "jiffies_spec cv" "clock s < max_clock"
  shows "now s + nsecs_to_jiffies cv (ucast (n :: u32)) + msecs_to_jiffies cv m < 2 ^ 63"
proof -
  have a: "unat (now s) < 2 ^ 61" using clock_word [OF assms(2)] assms(2) by (simp add: max_clock_def)
  have "nsecs_to_jiffies cv (ucast n) \<le> ucast n" using assms(1) by (simp add: jiffies_spec_def)
  then have b: "unat (nsecs_to_jiffies cv (ucast n)) < 2 ^ 32"
    using unat_ucast_32_64 [of n] by (simp add: word_le_nat_alt)
  have c: "unat (msecs_to_jiffies cv m) < 2 ^ 62"
    using assms(1) by (simp add: jiffies_spec_def word_less_nat_alt)
  show ?thesis using a b c by (simp add: word_less_nat_alt unat_word_ariths)
qed

lemma repeat_bound:
  assumes "clock s < max_clock"
  shows "now s + ucast (n :: u32) < 2 ^ 63"
  using clock_word [OF assms] assms unat_ucast_32_64 [of n]
  by (simp add: word_less_nat_alt unat_word_ariths max_clock_def)

lemma keydown_timer:
  assumes "rc_keydown b cv (now s) (sdev s) p sc t = Some (d, evs)"
  shows "(if keypressed d then \<exists>n m. keyup_jiffies d = now s + nsecs_to_jiffies cv (ucast (n :: u32)) + msecs_to_jiffies cv m
      else keyup_jiffies d = keyup_jiffies (sdev s)) \<and> (keypressed d \<longrightarrow> timer_keyup d = Some (keyup_jiffies d))"
proof -
  from assms obtain kc d1 x where d1: "ir_do_keydown cv (now s) (sdev s) p sc kc t = (d1, evs)"
    and x: "x = now s + nsecs_to_jiffies cv (ucast (dev_timeout d1)) + msecs_to_jiffies cv (repeat_period p)"
    and d: "d = (if keypressed d1 then d1\<lparr>keyup_jiffies := x, timer_keyup := Some x\<rparr> else d1)" by (rule rc_keydownE)
  have "keyup_jiffies d1 = keyup_jiffies (sdev s)"
    using do_keydown_held [OF d1] do_keydown_fresh [OF d1] by blast
  then show ?thesis using d x by auto
qed

lemma keyup_due:
  assumes "timer_inv s" "jiffies_spec cv"
  shows "time_is_before_eq_jiffies cv (now s) (keyup_jiffies (sdev s)) \<longleftrightarrow> unat (keyup_jiffies (sdev s)) \<le> clock s"
proof -
  have bound: "clock s < max_clock" using assms(1) by (simp add: timer_inv_def)
  then show ?thesis using assms clock_word [OF bound]
    by (simp add: jiffies_spec_def timer_inv_def word_le_nat_alt word_less_nat_alt max_clock_def)
qed

lemma timer_step_inv:
  assumes "rc_step b cv s c evs s'" "timer_inv s" "timed_call c" "jiffies_spec cv"
  shows "timer_inv s'"
proof -
  have bound: "clock s < max_clock" using assms(2) by (simp add: timer_inv_def)
  from assms(1) show ?thesis
  proof cases
    case (keydown p sc t d)
    with keydown_timer [OF keydown(3)] expiry_bound [OF assms(4) bound] assms(2) show ?thesis
      by (auto simp: timer_inv_def split: if_splits)
  next
    case (notimeout p sc t d)
    with assms(3) show ?thesis by simp
  next
    case keyup
    with assms(2) show ?thesis by (auto simp: rc_keyup_def ir_do_keyup_def timer_inv_def split: if_splits)
  next
    case repeat
    with assms(2) repeat_bound [OF bound] show ?thesis by (auto simp: rc_repeat_def timer_inv_def Let_def split: if_splits)
  next
    case (tick n)
    with assms(2,3) show ?thesis by (auto simp: timer_inv_def)
  next
    case (timer_keyup d)
    with keyup_due [OF assms(2,4)] assms(2) show ?thesis by (auto simp: ir_timer_keyup_def ir_do_keyup_def timer_inv_def split: if_splits)
  next
    case timer_repeat
    with assms(2) show ?thesis by (auto simp: ir_timer_repeat_def timer_inv_def split: if_splits)
  qed (use assms(2) in \<open>auto simp: timer_inv_def\<close>)
qed

lemma timer_run_inv: "rc_run b cv s cs evs s' \<Longrightarrow> timer_inv s \<Longrightarrow> list_all timed_call cs \<Longrightarrow> jiffies_spec cv \<Longrightarrow> timer_inv s'"
  by (induction rule: rc_run.induct) (auto intro: timer_step_inv)

lemma rc_run_append: "rc_run b cv s cs evs s' \<Longrightarrow> rc_run b cv s' cs' evs' s'' \<Longrightarrow> rc_run b cv s (cs @ cs') (evs @ evs') s''"
  by (induction rule: rc_run.induct) (auto intro: rc_run.step)

lemma callback_releases:
  assumes "timer_inv s" "jiffies_spec cv" "keyup_cb s" "unat (keyup_jiffies (sdev s)) \<le> clock s"
  shows "\<exists>evs s'. rc_step b cv s Timer_keyup evs s' \<and> \<not> keypressed (sdev s')"
proof (intro exI conjI)
  show "rc_step b cv s Timer_keyup (snd (ir_do_keyup (sdev s) True)) (s\<lparr>sdev := fst (ir_do_keyup (sdev s) True), keyup_cb := False\<rparr>)"
    using assms keyup_due [OF assms(1,2)] by (intro rc_step.timer_keyup) (simp_all add: ir_timer_keyup_def)
qed (simp add: ir_do_keyup_def)

abbreviation release_time :: "rc_sys \<Rightarrow> nat" where
  "release_time s \<equiv> max (clock s) (unat (keyup_jiffies (sdev s)))"

lemma pending_releases:
  assumes "timer_inv s" "jiffies_spec cv" "\<not> keyup_cb s" "keypressed (sdev s)" "release_time s < max_clock"
  shows "\<exists>evs s'. rc_run b cv s [Tick (release_time s), Expire_keyup, Timer_keyup] evs s' \<and> \<not> keypressed (sdev s')"
proof -
  let ?s1 = "s\<lparr>clock := release_time s\<rparr>"
  let ?s2 = "?s1\<lparr>sdev := (sdev s)\<lparr>timer_keyup := None\<rparr>, keyup_cb := True\<rparr>"
  have 1: "rc_step b cv s (Tick (release_time s)) [] ?s1" by (rule tick) simp
  have pend: "timer_keyup (sdev s) = Some (keyup_jiffies (sdev s))" using assms(1,3,4) by (simp add: timer_inv_def)
  have 2: "rc_step b cv ?s1 Expire_keyup [] ?s2"
    using expire_keyup [of ?s1 "keyup_jiffies (sdev s)" b cv] pend assms(3) by simp
  have "timer_inv ?s2"
    by (rule timer_step_inv [OF 2 timer_step_inv [OF 1 assms(1)]]) (simp_all add: assms(2) assms(5) [simplified])
  from callback_releases [OF this assms(2), of b] obtain evs s' where "rc_step b cv ?s2 Timer_keyup evs s'" "\<not> keypressed (sdev s')"
    by auto
  with 1 2 show ?thesis by (meson rc_run.step rc_run.nil)
qed

lemma callback_step:
  assumes "keyup_cb s"
  obtains evs s' where "rc_step b cv s Timer_keyup evs s'" "\<not> keyup_cb s'" "\<not> keypressed (sdev s') \<or> release_time s' = release_time s"
proof -
  obtain d evs where d: "ir_timer_keyup cv (now s) (sdev s) = (d, evs)" by force
  then have "\<not> keypressed d \<or> keyup_jiffies d = keyup_jiffies (sdev s)"
    by (auto simp: ir_timer_keyup_def ir_do_keyup_def split: if_splits)
  then show thesis using timer_keyup [OF assms d] by (intro that) auto
qed

lemma eventually_released:
  assumes "timer_inv s" "jiffies_spec cv" "release_time s < max_clock"
  shows "\<exists>cs evs s'. rc_run b cv s cs evs s' \<and> set cs \<subseteq> {Tick (release_time s), Expire_keyup, Timer_keyup} \<and> \<not> keypressed (sdev s')"
proof (cases "keypressed (sdev s)")
  case False
  then show ?thesis using rc_run.nil [of b cv s] by force
next
  case pressed: True
  show ?thesis
  proof (cases "keyup_cb s")
    case False
    from pending_releases [OF assms(1,2) this pressed assms(3)] show ?thesis by force
  next
    case True
    then obtain evs s' where s': "rc_step b cv s Timer_keyup evs s'" "\<not> keyup_cb s'"
      "\<not> keypressed (sdev s') \<or> release_time s' = release_time s" by (rule callback_step)
    have inv: "timer_inv s'" by (rule timer_step_inv [OF s'(1) assms(1) _ assms(2)]) simp
    show ?thesis
    proof (cases "keypressed (sdev s')")
      case False
      then show ?thesis using rc_run.step [OF s'(1) rc_run.nil] by force
    next
      case True
      with s'(3) have t: "release_time s' = release_time s" by simp
      from pending_releases [OF inv assms(2) s'(2) True] assms(3) t obtain evs' s''
        where "rc_run b cv s' [Tick (release_time s), Expire_keyup, Timer_keyup] evs' s''" "\<not> keypressed (sdev s'')" by force
      from rc_run.step [OF s'(1) this(1)] this(2) show ?thesis by force
    qed
  qed
qed

text \<open>
  C33: No key pressed with \<^verbatim>\<open>rc_keydown\<close> stays down. After any interleaving of key presses, repeats, releases, clock
  ticks, timer expiries and timer callbacks (also those where a key press arms the timer again between its expiry and its callback) on
  a device that starts with no key pressed, the timers alone release the key: when the remote control falls silent, the clock
  reaching the recorded release time, the expiry of the timer and its callback lead to a state in which no key is pressed and
  the events reported leave no key down. Uptime is below $2^{61}$ jiffies.
\<close>

theorem keydown_always_released:
  assumes "rc_run b cv s cs evs s'" "list_all timed_call cs" "bsearch_spec b" "jiffies_spec cv"
    and "dev_inv (keytable (sdev s))" "\<not> keypressed (sdev s)" "keyup_jiffies (sdev s) = 0" "clock s < max_clock"
    and "unat (keyup_jiffies (sdev s')) < max_clock"
  shows "\<exists>cs' evs' s''. rc_run b cv s' cs' evs' s'' \<and>
    set cs' \<subseteq> {Tick (max (clock s') (unat (keyup_jiffies (sdev s')))), Expire_keyup, Timer_keyup} \<and>
    \<not> keypressed (sdev s'') \<and> down_after {} (evs @ evs') = {}"
proof -
  have "timer_inv s" using assms(6-8) by (simp add: timer_inv_def)
  from timer_run_inv [OF assms(1) this assms(2,4)] have inv: "timer_inv s'" .
  then have "release_time s' < max_clock" using assms(9) by (simp add: timer_inv_def)
  from eventually_released [OF inv assms(4) this] obtain cs' evs' s'' where
    r: "rc_run b cv s' cs' evs' s''" "set cs' \<subseteq> {Tick (release_time s'), Expire_keyup, Timer_keyup}" "\<not> keypressed (sdev s'')"
    by blast
  have "key_inv (sdev s) {}" using assms(5,6) by (simp add: key_inv_def)
  from rc_run_inv [OF rc_run_append [OF assms(1) r(1)] this assms(3)] r(3) have "down_after {} (evs @ evs') = {}"
    by (simp add: key_inv_def)
  with r show ?thesis by blast
qed

section \<open>Changing the table while a key is held\<close>

text \<open>
  Changing the key of a held scancode leaves the old key down. When the table is changed so that the scancode of the key that is
  down is mapped to another key, the next message of the same key press is not a new event, but \<^verbatim>\<open>ir_do_keydown\<close> records the new
  keycode; the release that follows reports the new key up, the device says that nothing is pressed, and the old key is still
  down. The input layer releases the old key itself only when no other scancode is mapped to it.
\<close>

theorem remap_held_key_sticks:
  assumes "key_inv d ks" "held d p sc t" "bsearch_spec b" "dev_inv kt"
    and "rc_g_keycode_from_table b kt sc = Some kc" "kc \<noteq> last_keycode d"
    and "rc_keydown b cv t0 (d\<lparr>keytable := kt\<rparr>) p sc t = Some (d1, evs)" "rc_keyup d1 = (d2, evs')"
  shows "\<not> keypressed d2 \<and> last_keycode d \<in> down_after ks (evs @ evs')"
proof -
  have ks: "ks = {last_keycode d}" using assms(1,2) by (simp add: key_inv_def held_def)
  from assms(7) obtain d0 x where d0: "ir_do_keydown cv t0 (d\<lparr>keytable := kt\<rparr>) p sc kc t = (d0, evs)"
    and d1: "d1 = (if keypressed d0 then d0\<lparr>keyup_jiffies := x, timer_keyup := Some x\<rparr> else d0)"
    by (rule rc_keydownE) (simp add: assms(5))
  have "held (d\<lparr>keytable := kt\<rparr>) p sc t" using assms(2) by (simp add: held_def)
  from do_keydown_held [OF d0 this, of ks] have h: "keypressed d0" "last_keycode d0 = kc" "down_after ks evs = ks" by simp_all
  from d1 h have "keypressed d1" "last_keycode d1 = kc" by simp_all
  with assms(8) have "\<not> keypressed d2" "evs' = [Ev_key kc 0, Led False, Ev_syn]"
    by (auto simp: rc_keyup_def ir_do_keyup_def)
  moreover have "last_keycode d \<in> ks - {kc}" using ks assms(6) by simp
  ultimately show ?thesis using h(3) by (simp add: down_after_append)
qed

section \<open>Witnesses\<close>

definition example_jiffies :: jiffies_api where
  "example_jiffies = \<lparr>nsecs_to_jiffies = (\<lambda>n. n div 1000000), msecs_to_jiffies = ucast, time_is_before_eq_jiffies = (\<lambda>t a. a \<le> t)\<rparr>"

lemma example_jiffies_spec: "jiffies_spec example_jiffies"
proof -
  have "ucast (m :: u32) < (2 ^ 62 :: u64)" for m
    using unat_ucast_32_64 [of m] by (simp add: word_less_nat_alt)
  moreover have "n div 1000000 \<le> (n :: u64)" for n
    by (simp add: word_le_nat_alt unat_div)
  ultimately show ?thesis by (simp add: jiffies_spec_def example_jiffies_def)
qed

definition example_dev :: rc_dev where
  "example_dev = \<lparr>keytable = example_tab, keypressed = False, last_protocol = RC_PROTO_UNKNOWN, last_scancode = 0, last_keycode = 0,
     last_toggle = 0, dev_timeout = 125000000, allowed_protocols = 0x700, keyup_jiffies = 0, timer_keyup = None, timer_repeat = None,
     rep_delay = 500, rep_period = 125\<rparr>"

definition example_sys :: rc_sys where
  "example_sys = \<lparr>sdev = example_dev, clock = 1000, keyup_cb = False, repeat_cb = False\<rparr>"

definition example_pressed :: rc_dev where
  "example_pressed = example_dev\<lparr>keypressed := True, last_protocol := RC_PROTO_NEC, last_scancode := 5, last_keycode := 30,
     keyup_jiffies := 1235, timer_keyup := Some 1235\<rparr>"

lemmas keydown_eval = rc_keydown_def ir_do_keydown_def Let_def rc_g_keycode_from_table_def ir_lookup_by_scancode_def
  linear_search_def rc_map_cmp_def mem_read_def mem_get_def KEY_RESERVED_def repeat_period_def example_jiffies_def RC_PROTO_BIT_CEC_def

lemma example_keydown:
  "rc_keydown linear_search example_jiffies (now example_sys) (sdev example_sys) RC_PROTO_NEC 5 0 =
     Some (example_pressed, [Lirc_ev RC_PROTO_NEC 5 30 False False, Ev_scan 5, Ev_key 30 1, Led True, Ev_syn])"
  by (simp add: keydown_eval example_sys_def example_dev_def example_pressed_def example_tab_def)


lemma example_run:
  "rc_run linear_search example_jiffies example_sys [Keydown RC_PROTO_NEC 5 0]
     [Lirc_ev RC_PROTO_NEC 5 30 False False, Ev_scan 5, Ev_key 30 1, Led True, Ev_syn] (example_sys\<lparr>sdev := example_pressed\<rparr>)"
  using rc_run.step [OF rc_step.keydown [OF example_keydown] rc_run.nil] by simp

theorem keys_down_tracked_witness:
  "rc_run linear_search example_jiffies example_sys [Keydown RC_PROTO_NEC 5 0]
     [Lirc_ev RC_PROTO_NEC 5 30 False False, Ev_scan 5, Ev_key 30 1, Led True, Ev_syn] (example_sys\<lparr>sdev := example_pressed\<rparr>) \<and>
   down_after {} [Lirc_ev RC_PROTO_NEC 5 30 False False, Ev_scan 5, Ev_key 30 1, Led True, Ev_syn] = {30}"
  using keys_down_tracked [OF example_run linear_search_spec] example_run example_tab_inv
  by (simp add: example_sys_def example_pressed_def example_dev_def)

theorem keydown_always_released_witness:
  "\<exists>cs' evs' s''. rc_run linear_search example_jiffies (example_sys\<lparr>sdev := example_pressed\<rparr>) cs' evs' s'' \<and>
    set cs' \<subseteq> {Tick 1235, Expire_keyup, Timer_keyup} \<and> \<not> keypressed (sdev s'') \<and>
    down_after {} ([Lirc_ev RC_PROTO_NEC 5 30 False False, Ev_scan 5, Ev_key 30 1, Led True, Ev_syn] @ evs') = {}"
  using keydown_always_released [OF example_run _ linear_search_spec example_jiffies_spec] example_tab_inv
  by (simp add: example_sys_def example_pressed_def example_dev_def max_clock_def)

text \<open>Scancodes 5 and 9 are mapped to the same key; 5 is held when it is mapped to another one.\<close>

definition shared_tab :: rc_keytab where
  "shared_tab = \<lparr>tab = \<lparr>scan = [\<lparr>e_scancode = 5, e_keycode = 30\<rparr>, \<lparr>e_scancode = 9, e_keycode = 30\<rparr>, \<lparr>e_scancode = 0, e_keycode = 0\<rparr>, \<lparr>e_scancode = 0, e_keycode = 0\<rparr>],
     map_size = 4, map_len = 2, map_alloc = 32, map_proto = RC_PROTO_NEC, map_name = Some ''rc-example''\<rparr>, keybit = {30}, scancode_mask = 0\<rparr>"

definition changed_tab :: rc_keytab where
  "changed_tab = \<lparr>tab = \<lparr>scan = [\<lparr>e_scancode = 5, e_keycode = 48\<rparr>, \<lparr>e_scancode = 9, e_keycode = 30\<rparr>, \<lparr>e_scancode = 0, e_keycode = 0\<rparr>, \<lparr>e_scancode = 0, e_keycode = 0\<rparr>],
     map_size = 4, map_len = 2, map_alloc = 32, map_proto = RC_PROTO_NEC, map_name = Some ''rc-example''\<rparr>, keybit = {30, 48}, scancode_mask = 0\<rparr>"

lemma shared_to_changed:
  "ir_setkeycode le_scalar some_kmalloc shared_tab \<lparr>by_index = True, ke_index = 0, ke_keycode = 48, ke_scancode = []\<rparr> =
     Some (changed_tab, Inr 30)"
  by (auto simp: ir_setkeycode_def shared_tab_def changed_tab_def ir_update_mapping_def mem_get_def mem_set_def Let_def
      KEY_RESERVED_def KEY_UNKNOWN_def keycode_in_use_def mem_read_def ir_resize_table_def some_kmalloc_def IR_TAB_MAX_SIZE_def mem_write_def)

lemma shared_pressed_inv: "key_inv (example_pressed\<lparr>keytable := shared_tab\<rparr>) {30}"
  by (auto simp: key_inv_def dev_inv_def tab_inv_def shared_tab_def example_pressed_def example_dev_def ordered_def
      tkeys_def keymap_def tlookup_def KEY_RESERVED_def)

lemma changed_tab_inv: "dev_inv changed_tab"
  by (auto simp: dev_inv_def tab_inv_def changed_tab_def ordered_def tkeys_def KEY_RESERVED_def)

theorem remap_held_key_sticks_witness:
  "ir_setkeycode le_scalar some_kmalloc shared_tab \<lparr>by_index = True, ke_index = 0, ke_keycode = 48, ke_scancode = []\<rparr> =
     Some (changed_tab, Inr 30) \<and> 30 \<in> keybit changed_tab \<and>
   (\<exists>d1 evs d2 evs'. rc_keydown linear_search example_jiffies 1100 (example_pressed\<lparr>keytable := changed_tab\<rparr>) RC_PROTO_NEC 5 0 = Some (d1, evs) \<and>
     rc_keyup d1 = (d2, evs') \<and> \<not> keypressed d2 \<and> 30 \<in> down_after {30} (evs @ evs'))"
proof -
  have lk: "rc_g_keycode_from_table linear_search changed_tab 5 = Some 48"
    by (simp add: keydown_eval changed_tab_def)
  obtain d1 evs where k: "rc_keydown linear_search example_jiffies 1100 (example_pressed\<lparr>keytable := shared_tab, keytable := changed_tab\<rparr>)
      RC_PROTO_NEC 5 0 = Some (d1, evs)" by (cases "ir_do_keydown example_jiffies 1100 (example_pressed\<lparr>keytable := changed_tab\<rparr>) RC_PROTO_NEC 5 48 0") (simp add: rc_keydown_def lk Let_def)
  obtain d2 evs' where u: "rc_keyup d1 = (d2, evs')" by force
  have "held (example_pressed\<lparr>keytable := shared_tab\<rparr>) RC_PROTO_NEC 5 0" by (simp add: held_def example_pressed_def example_dev_def)
  from remap_held_key_sticks [OF shared_pressed_inv this linear_search_spec changed_tab_inv lk _ k u]
  have "\<not> keypressed d2 \<and> 30 \<in> down_after {30} (evs @ evs')" by (simp add: example_pressed_def)
  with shared_to_changed k u show ?thesis by (auto simp: changed_tab_def)
qed

end
