(* ===== verification/Rc_Receive.thy ===== *)
theory Rc_Receive
  imports Rc_Registry Rc_Main Ir_Nec
begin

text \<open>
  The whole way of a message from the receiver to the key: the samples of the hardware, the filter and the queue of \<^verbatim>\<open>Rc_Raw\<close>, the thread and the
  handlers of \<^verbatim>\<open>Rc_Registry\<close>, the NEC decoder of \<^verbatim>\<open>Ir_Nec\<close> and the key events of \<^verbatim>\<open>Rc_Main\<close>.
\<close>

section \<open>The NEC handler in the registry\<close>

text \<open>
  What the handler works on: its decoder, the keys of the device and what has been reported. \<^const>\<open>None\<close> is an access outside the scancode table.
  The clock stands still while the thread empties the queue.
\<close>

record nec_remote =
  nec :: nec_dec
  remote :: rc_dev
  reported :: "input_ev list"

fun perform :: "bsearch \<Rightarrow> jiffies_api \<Rightarrow> u64 \<Rightarrow> rc_action \<Rightarrow> nec_remote \<Rightarrow> nec_remote option" where
  "perform b cv jiffies (Rc_keydown p sc toggle) s =
     map_option (\<lambda>(dev, evs). s\<lparr>remote := dev, reported := reported s @ evs\<rparr>) (rc_keydown b cv jiffies (remote s) p sc toggle)"
| "perform b cv jiffies Rc_repeat s = (let (dev, evs) = rc_repeat cv jiffies (remote s) in Some (s\<lparr>remote := dev, reported := reported s @ evs\<rparr>))"
| "perform b cv jiffies a s = Some s"

fun perform_all :: "bsearch \<Rightarrow> jiffies_api \<Rightarrow> u64 \<Rightarrow> rc_action list \<Rightarrow> nec_remote \<Rightarrow> nec_remote option" where
  "perform_all b cv jiffies [] s = Some s"
| "perform_all b cv jiffies (a # as) s = Option.bind (perform b cv jiffies a s) (perform_all b cv jiffies as)"

definition nec_handler :: "(u8 \<Rightarrow> u8) \<Rightarrow> bsearch \<Rightarrow> jiffies_api \<Rightarrow> u64 \<Rightarrow> nec_remote option ir_raw_handler" where
  "nec_handler bitrev8 b cv jiffies =
     \<lparr>protocols = rc_proto_bits [RC_PROTO_NEC, RC_PROTO_NECX, RC_PROTO_NEC32],
      decode = (\<lambda>ev st. Option.bind st (\<lambda>s.
        let (d, as, _) = ir_nec_decode bitrev8 (nec s) ev in perform_all b cv jiffies as (s\<lparr>nec := d\<rparr>))),
      encode = Some ir_nec_encode, carrier = 38000, h_min_timeout = NEC_TRAILER_SPACE, raw_register = None, raw_unregister = None\<rparr>"

section \<open>Emptying the queue\<close>

text \<open>A handler sees the events of a device when one of its protocols is enabled.\<close>

definition sees :: "u64 \<Rightarrow> 'd ir_raw_handler \<Rightarrow> bool" where
  "sees enabled hh \<longleftrightarrow> enabled AND protocols hh \<noteq> 0 \<or> protocols hh = 0"

lemma run_handlers_sees: "run_handlers hds enabled ev d = fold (\<lambda>hh. decode hh ev) (filter (sees enabled) hds) d"
  by (induction hds arbitrary: d) (simp_all add: sees_def)

lemma perform_nec: "perform b cv jiffies a (s\<lparr>nec := n\<rparr>) = map_option (nec_update (\<lambda>_. n)) (perform b cv jiffies a s)"
  by (cases a) (auto simp: option.map_comp comp_def split_def Let_def intro!: arg_cong2 [where f = map_option])

lemma perform_all_nec:
  "perform_all b cv jiffies as (s\<lparr>nec := n\<rparr>) = map_option (nec_update (\<lambda>_. n)) (perform_all b cv jiffies as s)"
proof (induction as arbitrary: s)
  case (Cons a as)
  then show ?case by (cases "perform b cv jiffies a s") (simp_all add: perform_nec)
qed simp

lemma perform_all_append:
  "perform_all b cv jiffies (as @ as') s = Option.bind (perform_all b cv jiffies as s) (perform_all b cv jiffies as')"
proof (induction as arbitrary: s)
  case (Cons a as)
  then show ?case by (cases "perform b cv jiffies a s") simp_all
qed simp

text \<open>A queue that only the NEC handler sees is decoded, and the calls of the decoder are carried out.\<close>

lemma drain_nec:
  assumes "filter (sees enabled) hds = [nec_handler bitrev8 b cv jiffies]"
  shows "snd (drain hds (\<lambda>_ d. d) enabled evs prev (Some s)) =
    (case decode_run (ir_nec_decode bitrev8) (nec s) evs of (n, as) \<Rightarrow> perform_all b cv jiffies as (s\<lparr>nec := n\<rparr>))"
proof (induction evs arbitrary: prev s)
  case (Cons ev evs)
  obtain d1 as1 r1 where d1: "ir_nec_decode bitrev8 (nec s) ev = (d1, as1, r1)" by (cases "ir_nec_decode bitrev8 (nec s) ev")
  obtain d2 as2 where d2: "decode_run (ir_nec_decode bitrev8) d1 evs = (d2, as2)" by (cases "decode_run (ir_nec_decode bitrev8) d1 evs")
  have step: "run_handlers hds enabled ev (Some s) = perform_all b cv jiffies as1 (s\<lparr>nec := d1\<rparr>)"
    by (simp add: run_handlers_sees assms nec_handler_def d1)
  show ?case
  proof (cases "perform_all b cv jiffies as1 s")
    case None
    have "snd (drain hds (\<lambda>_ d. d) enabled evs prev None) = None" for prev
      by (induction evs arbitrary: prev) (simp_all add: run_handlers_sees assms nec_handler_def)
    with None step show ?thesis by (simp add: d1 d2 perform_all_nec perform_all_append)
  next
    case (Some s1)
    with step Cons.IH [of ev "s1\<lparr>nec := d1\<rparr>"] show ?thesis by (simp add: d1 d2 perform_all_nec perform_all_append)
  qed
qed simp

section \<open>The message as the filter hands it on\<close>

lemma alternating_proper: "alternating p gs \<Longrightarrow> g \<in> set gs \<Longrightarrow> proper g"
  by (induction p gs rule: alternating.induct) auto

lemma joined_duration: "proper g \<Longrightarrow> unat (duration (joined g)) = span_of (snd g)"
  by (simp add: joined_def proper_def unat_of_nat)

lemma nec_encode_shape:
  assumes "ir_nec_encode p sc room = (es, Inr n)"
  shows "length es = 68" "pulse (last (butlast es))" "e \<in> set (butlast es) \<Longrightarrow> \<not> pulse e \<Longrightarrow> duration e \<le> NEC_HEADER_SPACE"
proof -
  define bs where "bs = lsb_bits 32 (ucast (ir_nec_scancode_to_raw p sc) :: u64)"
  have es: "es = [init_ir_raw_event_duration True NEC_HEADER_PULSE, init_ir_raw_event_duration False NEC_HEADER_SPACE] @
     pd_events ir_nec_timings bs @
     [init_ir_raw_event_duration True NEC_TRAILER_PULSE, init_ir_raw_event_duration False NEC_TRAILER_SPACE]"
    using nec_encode_events [OF assms] by (simp add: bs_def)
  have "length (pd_events ir_nec_timings bs) = 2 * length bs" by (induction bs) (simp_all add: pd_symbol_def)
  then show "length es = 68" by (simp add: es bs_def)
  show "pulse (last (butlast es))" by (simp add: es butlast_append)
  have "e \<in> set (pd_events ir_nec_timings bs) \<Longrightarrow> \<not> pulse e \<Longrightarrow> duration e \<le> NEC_HEADER_SPACE"
    by (auto simp: pd_symbol_def ir_nec_timings_def ir_const split: if_splits)
  then show "e \<in> set (butlast es) \<Longrightarrow> \<not> pulse e \<Longrightarrow> duration e \<le> NEC_HEADER_SPACE"
    by (auto simp: es butlast_append)
qed

lemma list_all2_map_ex: "list_all2 P xs (map f ys) \<Longrightarrow> y \<in> set ys \<Longrightarrow> \<exists>x \<in> set xs. P x (f y)"
  by (induction ys arbitrary: xs) (auto simp: list_all2_Cons2)

lemma list_all2_last: "list_all2 P xs ys \<Longrightarrow> ys \<noteq> [] \<Longrightarrow> P (last xs) (last ys)"
  by (induction rule: list_all2_induct) (auto simp: list_all2_conv_all_nth)

lemma nec_groups_shape:
  assumes "ir_nec_encode p sc room = (es, Inr n)" "jittered nec_tol (butlast es) (map joined gs)"
  shows "length gs = 67" "fst (last gs)" "gs \<noteq> []"
proof -
  have "length (butlast es) = length gs" using assms(2) unfolding jittered_def by (auto dest: list_all2_lengthD)
  then show len: "length gs = 67" using nec_encode_shape(1) [OF assms(1)] by simp
  then show ne: "gs \<noteq> []" by auto
  then have "near nec_tol (last (butlast es)) (last (map joined gs))"
    using assms(2) unfolding jittered_def by (intro list_all2_last [where P = "near nec_tol"]) simp_all
  then show "fst (last gs)" using nec_encode_shape(2) [OF assms(1)] ne by (simp add: near_def last_map joined_def)
qed

text \<open>The spaces of a NEC message, also when they are off by half a unit, stay below its last space.\<close>

lemma nec_spaces_short:
  assumes "ir_nec_encode p sc room = (es, Inr n)" "jittered nec_tol (butlast es) (map joined gs)" "alternating True gs" "NEC_TRAILER_SPACE \<le> tmo"
  shows "\<forall>g \<in> set gs. fst g \<or> span_of (snd g) < unat tmo"
proof (intro ballI disjCI)
  fix g
  assume g: "g \<in> set gs" "\<not> span_of (snd g) < unat tmo"
  obtain e where e: "e \<in> set (butlast es)" "near nec_tol e (joined g)"
    using assms(2) g(1) unfolding jittered_def by (blast dest: list_all2_map_ex)
  show "fst g"
  proof (rule ccontr)
    assume "\<not> fst g"
    then have "\<not> pulse e" using e(2) by (simp add: near_def joined_def)
    then have "duration e \<le> NEC_HEADER_SPACE" using nec_encode_shape(3) [OF assms(1)] e(1) by blast
    moreover have "duration (joined g) < duration e + nec_tol" using e(2) by (simp add: near_def eq_margin_def)
    ultimately have "unat (duration (joined g)) < unat NEC_TRAILER_SPACE"
      by (simp add: ir_const word_le_nat_alt word_less_nat_alt unat_word_ariths)
    moreover have "unat (duration (joined g)) = span_of (snd g)" using alternating_proper [OF assms(3) g(1)] by (rule joined_duration)
    moreover have "unat NEC_TRAILER_SPACE \<le> unat tmo" using assms(4) by (simp add: word_le_nat_alt)
    ultimately show False using g(2) by simp
  qed
qed

lemma store_filtered_enabled: "store_filtered drv dev h evs = (dev', h') \<Longrightarrow> enabled_protocols dev' = enabled_protocols dev"
proof (induction evs arbitrary: dev h)
  case (Cons ev evs)
  obtain dev1 h1 r where st: "ir_raw_event_store_with_filter drv dev h ev = (dev1, h1, r)"
    by (cases "ir_raw_event_store_with_filter drv dev h ev") auto
  then have "enabled_protocols dev1 = enabled_protocols dev"
    by (auto simp: ir_raw_event_store_with_filter_def ir_raw_event_set_idle_def ir_raw_event_store_def Let_def
        split: option.splits if_splits)
  with Cons.IH Cons.prems st show ?case by simp
qed simp

section \<open>From the receiver to the key\<close>

text \<open>
  C11: A NEC message that somebody sends becomes the press of its key. What \<^verbatim>\<open>ir_nec_encode\<close> makes of a scancode is sent, each duration arrives less
  than half a unit off, the hardware cuts pulses and spaces into samples as it likes, and after the last pulse it sees nothing until the timeout, which is at
  least the last space of the message. The driver hands the samples to the filter; then the thread empties the queue to the handlers, of which only
  NEC is enabled. The device reports exactly the press of the key that its table has for the scancode, arms the timer that releases the key,
  and both the receiver and the decoder wait for the next message.
\<close>

theorem nec_key_received:
  assumes "bitrev_spec bitrev8" "canonical_scancode p sc" "p \<in> {RC_PROTO_NEC, RC_PROTO_NECX, RC_PROTO_NEC32}"
    and sent: "ir_nec_encode p sc room = (es, Inr n)"
    and arrives: "jittered nec_tol (butlast es) (map joined gs)" "alternating True gs" "proper (False, quiet)" "unat tmo \<le> span_of quiet"
    and receiver: "waiting dev tmo []" "NEC_TRAILER_SPACE \<le> tmo"
      "filter (sees (enabled_protocols dev)) hds = [nec_handler bitrev8 b cv jiffies]"
    and state: "nec_ready (nec s)" "\<not> keypressed (remote s)"
    and key: "rc_g_keycode_from_table b (keytable (remote s)) sc = Some kc" "kc \<noteq> KEY_RESERVED"
  shows "\<exists>dev1 h1 dev2 s2. store_filtered drv dev h (concat (map samples gs) @ samples (False, quiet)) = (dev1, h1) \<and>
    ir_raw_event_thread hds (\<lambda>_ d. d) dev1 (Some s) = (dev2, Some s2) \<and> waiting dev2 tmo [] \<and> nec_ready (nec s2) \<and>
    reported s2 = reported s @ (if allowed_protocols (remote s) \<noteq> RC_PROTO_BIT_CEC then [Lirc_ev p sc kc False False] else []) @
      [Ev_scan sc, Ev_key kc 1, Led True, Ev_syn] \<and>
    keypressed (remote s2) \<and> last_keycode (remote s2) = kc \<and> last_scancode (remote s2) = sc \<and> timer_keyup (remote s2) \<noteq> None"
proof -
  note shape = nec_groups_shape [OF sent arrives(1)]
  have tmo: "tmo \<noteq> 0" using receiver(2) by (auto simp: ir_const)
  obtain dev1 h1 m where st: "store_filtered drv dev h (concat (map samples gs) @ samples (False, quiet)) = (dev1, h1)"
    "waiting dev1 tmo (map joined gs @ [timeout_event m])" "unat tmo \<le> m" "m \<le> span_of quiet"
    using filter_joins [OF receiver(1) tmo shape(3) arrives(2) shape(2) nec_spaces_short [OF sent arrives(1,2) receiver(2)] arrives(3,4), of drv h]
      shape(1) by (auto simp: MAX_IR_EVENT_SIZE_def)
  obtain r where r: "raw dev1 = Some r" "kfifo r = map joined gs @ [timeout_event m]" using st(2) by (auto simp: waiting_def)
  have "m < 2 ^ 32" using st(4) arrives(3) by (simp add: proper_def)
  then have "NEC_TRAILER_SPACE \<le> duration (timeout_event m)"
    using receiver(2) st(3) by (simp add: timeout_event_def word_le_nat_alt unat_of_nat)
  then have "geq_margin (duration (timeout_event m)) NEC_TRAILER_SPACE (NEC_UNIT div 2)"
    by (simp add: geq_margin_def ir_const word_le_nat_alt word_less_nat_alt)
  then obtain n' where n': "decode_run (ir_nec_decode bitrev8) (nec s) (map joined gs @ [timeout_event m]) = (n', [Rc_keydown p sc 0])" "nec_ready n'"
    using nec_message [OF state(1) assms(2,3) sent arrives(1), of "timeout_event m"] bitrev_spec_eq [OF assms(1)]
    by (auto simp: timeout_event_def is_timing_event_def init_ir_raw_event_duration_def)
  obtain dev evs where kd: "rc_keydown b cv jiffies (remote s) p sc 0 = Some (dev, evs)" "keypressed dev" "last_keycode dev = kc" "last_scancode dev = sc"
    "timer_keyup dev \<noteq> None"
    "evs = (if allowed_protocols (remote s) \<noteq> RC_PROTO_BIT_CEC then [Lirc_ev p sc kc False False] else []) @ [Ev_scan sc, Ev_key kc 1, Led True, Ev_syn]"
    using key state(2) by (simp add: rc_keydown_def ir_do_keydown_def Let_def)
  obtain prev d where dr: "drain hds (\<lambda>_ d. d) (enabled_protocols dev1) (kfifo r) (prev_ev r) (Some s) = (prev, d)" by fastforce
  have "d = Some (s\<lparr>nec := n', remote := dev, reported := reported s @ evs\<rparr>)"
    using drain_nec [OF receiver(3), of "kfifo r" "prev_ev r" s] dr n'(1) kd(1)
    by (simp add: store_filtered_enabled [OF st(1)] r(2))
  with st(1,2) r dr n'(2) kd show ?thesis
    by (auto simp: ir_raw_event_thread_def waiting_def)
qed

section \<open>A concrete press\<close>

definition example_remote :: nec_remote where
  "example_remote = \<lparr>nec = \<lparr>nec_st = NEC_STATE_INACTIVE, nec_count = 0, nec_bits = 0, is_nec_x = False, necx_repeat = False\<rparr>,
     remote = example_dev, reported = []\<rparr>"

definition nec_only :: raw_dev where
  "nec_only = example_raw\<lparr>timeout := 15625000, enabled_protocols := rc_proto_bit RC_PROTO_NEC\<rparr>"

text \<open>The events of a message, each in one sample.\<close>

definition one_sample :: "ir_raw_event list \<Rightarrow> group list" where
  "one_sample es = map (\<lambda>e. (pulse e, [duration e])) es"

lemma joined_one_sample: "\<forall>e \<in> set es. e = init_ir_raw_event_duration (pulse e) (duration e) \<Longrightarrow> map joined (one_sample es) = es"
  by (induction es) (auto simp: one_sample_def joined_def span_of_def)

fun flips :: "bool \<Rightarrow> ir_raw_event list \<Rightarrow> bool" where
  "flips p [] = True"
| "flips p (e # es) = (pulse e = p \<and> duration e \<noteq> 0 \<and> flips (\<not> p) es)"

lemma alternating_one_sample: "alternating p (one_sample es) = flips p es"
proof (induction es arbitrary: p)
  case (Cons e es)
  have "unat (duration e) < 2 ^ 32" using unsigned_less [of "duration e"] by simp
  then have "proper (pulse e, [duration e]) = (duration e \<noteq> 0)" by (simp add: proper_def span_of_def)
  with Cons show ?case by (simp add: one_sample_def)
qed (simp add: one_sample_def)

lemma flips_pd: "flips True (pd_events ir_nec_timings bs @ xs) = flips True xs"
  by (induction bs) (simp_all add: pd_symbol_def ir_nec_timings_def ir_const)

lemma nec_events_made:
  assumes "ir_nec_encode p sc room = (es, Inr n)"
  shows "\<forall>e \<in> set (butlast es). e = init_ir_raw_event_duration (pulse e) (duration e)" "flips True (butlast es)"
proof -
  have "\<forall>e \<in> set (pd_events ir_nec_timings bs). e = init_ir_raw_event_duration (pulse e) (duration e)" for bs
    by (auto simp: pd_symbol_def)
  then show "\<forall>e \<in> set (butlast es). e = init_ir_raw_event_duration (pulse e) (duration e)"
    using nec_encode_events [OF assms] by (auto simp: butlast_append)
  show "flips True (butlast es)"
    using nec_encode_events [OF assms] by (simp add: butlast_append flips_pd ir_const)
qed

theorem nec_key_received_witness:
  "\<exists>gs dev1 h1 dev2 s2. store_filtered no_driver nec_only () (concat (map samples gs) @ samples (False, [20000000])) = (dev1, h1) \<and>
    ir_raw_event_thread [nec_handler word_reverse linear_search example_jiffies 1000] (\<lambda>_ d. d) dev1 (Some example_remote) = (dev2, Some s2) \<and>
    reported s2 = [Lirc_ev RC_PROTO_NEC 5 30 False False, Ev_scan 5, Ev_key 30 1, Led True, Ev_syn]"
proof -
  obtain n es where es: "ir_nec_encode RC_PROTO_NEC 5 68 = (es, Inr n)" "jittered nec_tol es es" using nec_encode_ok by metis
  have "jittered nec_tol (butlast es @ [last es]) (butlast es @ [last es])"
    using es(2) nec_encode_shape(1) [OF es(1)] by (subst (1 2) append_butlast_last_id) auto
  then have but: "jittered nec_tol (butlast es) (butlast es)"
    unfolding jittered_def by (auto simp: list_all2_append)
  note made = nec_events_made [OF es(1)]
  have key: "rc_g_keycode_from_table linear_search (keytable (remote example_remote)) 5 = Some 30"
    by (simp add: keydown_eval example_remote_def example_dev_def example_tab_def)
  have sees: "filter (sees (enabled_protocols nec_only)) [nec_handler word_reverse linear_search example_jiffies 1000] =
      [nec_handler word_reverse linear_search example_jiffies 1000]"
    by (simp add: sees_def nec_only_def nec_handler_def rc_proto_bits_def rc_proto_bit_def)
  have "waiting nec_only 15625000 []" by (simp add: waiting_def nec_only_def example_raw_def example_ctrl_def)
  moreover have "proper (False, [20000000])" "unat (15625000 :: u32) \<le> span_of [20000000]" by (simp_all add: proper_def span_of_def)
  moreover have "canonical_scancode RC_PROTO_NEC 5" by (simp add: canonical_scancode_def rc_validate_scancode_def)
  moreover have "nec_ready (nec example_remote)" "\<not> keypressed (remote example_remote)"
    by (simp_all add: example_remote_def nec_ready_def example_dev_def)
  ultimately show ?thesis
    using nec_key_received [OF bitrev_spec_word_reverse _ _ es(1), of "one_sample (butlast es)" "[20000000]" 15625000 nec_only
        "[nec_handler word_reverse linear_search example_jiffies 1000]" linear_search example_jiffies 1000 example_remote 30 no_driver "()"]
      but made sees key
    by (fastforce simp: joined_one_sample alternating_one_sample ir_const KEY_RESERVED_def example_remote_def example_dev_def RC_PROTO_BIT_CEC_def)
qed

end
