(* ===== verification/Rc_Sysfs.thy ===== *)
theory Rc_Sysfs
  imports Rc_Registry
begin

text \<open>
  The attributes of a remote control device in sysfs, \<^verbatim>\<open>rc/rc-main.c\<close>: the protocols that are decoded, the scancode filters and the protocol for
  wake-up, as texts that are shown and stored.

  The functions of the driver act on a state of any type; \<^verbatim>\<open>kstrtoul\<close> and \<^verbatim>\<open>sysfs_streq\<close> are kernel functions and parameters.
\<close>

section \<open>Texts\<close>

definition delim :: "char \<Rightarrow> bool" where
  "delim c \<longleftrightarrow> c = CHR '' '' \<or> c = CHR 0x0A"

text \<open>\<^verbatim>\<open>strsep\<close> at a blank or a newline: the token, and the rest behind the delimiter if there is one.\<close>

definition strsep :: "string \<Rightarrow> string \<times> string option" where
  "strsep s = (takeWhile (\<lambda>c. \<not> delim c) s, case dropWhile (\<lambda>c. \<not> delim c) s of [] \<Rightarrow> None | _ # r \<Rightarrow> Some r)"

definition to_lower :: "char \<Rightarrow> char" where
  "to_lower c = (let n = of_char c :: nat in if 65 \<le> n \<and> n \<le> 90 then char_of (n + 32) else c)"

definition strcase_eq :: "string \<Rightarrow> string \<Rightarrow> bool" where
  "strcase_eq a b \<longleftrightarrow> map to_lower a = map to_lower b"

section \<open>Changing the protocols\<close>

text \<open>The mask a name stands for; \<open>lirc\<close> is accepted and stands for nothing.\<close>

definition proto_mask :: "string \<Rightarrow> u64 option" where
  "proto_mask nm =
     (case find (\<lambda>pn. strcase_eq nm (pn_name pn)) proto_names of
        Some pn \<Rightarrow> Some (pn_type pn)
      | None \<Rightarrow> if strcase_eq nm ''lirc'' then Some 0 else None)"

function parse_loop :: "string option \<Rightarrow> u64 \<Rightarrow> nat \<Rightarrow> u64 \<times> nat result" where
  "parse_loop None protos count = (protos, if count = 0 then Inl EINVAL else Inr count)"
| "parse_loop (Some buf) protos count =
     (let (tmp, rest) = strsep buf in
      case tmp of
        [] \<Rightarrow> (protos, if count = 0 then Inl EINVAL else Inr count)
      | c # cs \<Rightarrow>
          let enable = (c = CHR ''+''); disable = (c = CHR ''-''); nm = (if enable \<or> disable then cs else tmp) in
          case proto_mask nm of
            None \<Rightarrow> (protos, Inl EINVAL)
          | Some msk \<Rightarrow>
              parse_loop rest (if enable then protos OR msk else if disable then protos AND NOT msk else msk) (count + 1))"
  by pat_completeness auto

lemma strsep_shorter: "strsep buf = (tmp, Some rest) \<Longrightarrow> length rest < length buf"
proof -
  assume "strsep buf = (tmp, Some rest)"
  then obtain c where "dropWhile (\<lambda>c. \<not> delim c) buf = c # rest" by (auto simp: strsep_def split: list.splits)
  then have "Suc (length rest) \<le> length buf" by (metis length_Cons length_dropWhile_le)
  then show ?thesis by simp
qed

termination parse_loop
  by (relation "measure (\<lambda>(buf, _, _). case buf of None \<Rightarrow> 0 | Some s \<Rightarrow> Suc (length s))")
    (auto split: option.split dest: strsep_shorter [OF sym])

definition parse_protocol_change :: "u64 \<Rightarrow> string \<Rightarrow> u64 \<times> nat result" where
  "parse_protocol_change protos buf = parse_loop (Some buf) protos 0"

section \<open>Showing the protocols\<close>

fun show_groups :: "proto_name list \<Rightarrow> u64 \<Rightarrow> u64 \<Rightarrow> string" where
  "show_groups [] allowed enabled = []"
| "show_groups (pn # pns) allowed enabled =
     (if allowed AND enabled AND pn_type pn \<noteq> 0 then ''['' @ pn_name pn @ ''] ''
      else if allowed AND pn_type pn \<noteq> 0 then pn_name pn @ '' '' else []) @
     show_groups pns (if allowed AND pn_type pn \<noteq> 0 then allowed AND NOT (pn_type pn) else allowed) enabled"

text \<open>The last blank becomes a newline.\<close>

definition end_line :: "string \<Rightarrow> string" where
  "end_line s = (if s = [] then [] else butlast s) @ [CHR 0x0A]"

section \<open>The device\<close>

datatype rc_driver_type = RC_DRIVER_SCANCODE | RC_DRIVER_IR_RAW | RC_DRIVER_IR_RAW_TX
datatype rc_filter_type = RC_FILTER_NORMAL | RC_FILTER_WAKEUP

record rc_scancode_filter =
  f_data :: u32
  f_mask :: u32

text \<open>
  The driver and what is behind it, with a state of any type: the modules and the registry of the handlers (\<open>ops_load\<close>, \<open>ops_available\<close>), the change of
  protocols from the enabled ones, which may alter the protocols asked for, and the two filters, which the driver may alter.
\<close>

record 's rc_ops =
  ops_load :: "u64 \<Rightarrow> 's \<Rightarrow> 's \<times> u64"
  ops_available :: "'s \<Rightarrow> u64"
  ops_change :: "(u64 \<Rightarrow> u64 \<Rightarrow> 's \<Rightarrow> 's \<times> u64 \<times> unit result) option"
  ops_filter :: "(rc_scancode_filter \<Rightarrow> 's \<Rightarrow> 's \<times> rc_scancode_filter \<times> unit result) option"
  ops_wakeup :: "(rc_scancode_filter \<Rightarrow> 's \<Rightarrow> 's \<times> rc_scancode_filter \<times> unit result) option"

record 's rc_ctl =
  behind :: 's
  driver_type :: rc_driver_type
  has_raw :: bool
  encode_wakeup :: bool
  ctl_allowed :: u64
  ctl_enabled :: u64
  allowed_wakeup :: u64
  wakeup_protocol :: rc_proto
  scancode_filter :: rc_scancode_filter
  wakeup_filter :: rc_scancode_filter

definition show_protocols :: "'s rc_ops \<Rightarrow> bool \<Rightarrow> 's rc_ctl \<Rightarrow> string" where
  "show_protocols ops config_lirc dev =
     (let allowed = (if has_raw dev \<and> ctl_allowed dev = 0 then ops_available ops (behind dev) else ctl_allowed dev)
      in end_line (show_groups proto_names allowed (ctl_enabled dev) @
           (if config_lirc \<and> driver_type dev = RC_DRIVER_IR_RAW then ''[lirc] '' else [])))"

text \<open>A call that stores a text of length \<open>len\<close> returns \<open>len\<close>.\<close>

definition store_protocols :: "'s rc_ops \<Rightarrow> 's rc_ctl \<Rightarrow> string \<Rightarrow> nat \<Rightarrow> 's rc_ctl \<times> nat result" where
  "store_protocols ops dev buf len =
     (case ops_change ops of
        None \<Rightarrow> (dev, Inl EINVAL)
      | Some change \<Rightarrow>
          (case parse_protocol_change (ctl_enabled dev) buf of
             (_, Inl e) \<Rightarrow> (dev, Inl e)
           | (new, Inr _) \<Rightarrow>
               let (s, new) = (if driver_type dev = RC_DRIVER_IR_RAW then ops_load ops new (behind dev) else (behind dev, new));
                   (s, new, rc) = change (ctl_enabled dev) new s;
                   dev = dev\<lparr>behind := s\<rparr>
               in (case rc of
                     Inl e \<Rightarrow> (dev, Inl e)
                   | Inr _ \<Rightarrow>
                       let dev = (if new \<noteq> ctl_enabled dev then dev\<lparr>ctl_enabled := new\<rparr> else dev)
                       in (case ops_filter ops of
                             Some set_filter \<Rightarrow>
                               if f_mask (scancode_filter dev) \<noteq> 0 then
                                 let (dev, failed) =
                                   (if new \<noteq> 0 then
                                      let (s, f, rc) = set_filter (scancode_filter dev) (behind dev)
                                      in (dev\<lparr>behind := s, scancode_filter := f\<rparr>, \<exists>e. rc = Inl e)
                                    else (dev, True))
                                 in if failed then
                                      let (s, f, _) = set_filter \<lparr>f_data = 0, f_mask = 0\<rparr> (behind dev)
                                      in (dev\<lparr>behind := s, scancode_filter := f\<rparr>, Inr len)
                                    else (dev, Inr len)
                               else (dev, Inr len)
                           | None \<Rightarrow> (dev, Inr len)))))"

section \<open>The filters\<close>

definition rc_validate_filter :: "'s rc_ctl \<Rightarrow> rc_scancode_filter \<Rightarrow> rc_scancode_filter \<times> unit result" where
  "rc_validate_filter dev filt =
     (let msk = protocols_scancode_bits (wakeup_protocol dev) in
      if \<not> rc_validate_scancode (wakeup_protocol dev) (f_data filt) then (filt, Inl EINVAL)
      else
        let filt = \<lparr>f_data = f_data filt AND msk, f_mask = f_mask filt AND msk\<rparr> in
        if encode_wakeup dev \<and> f_mask filt \<noteq> 0 \<and> f_mask filt \<noteq> msk then (filt, Inl EINVAL) else (filt, Inr ()))"

text \<open>\<^verbatim>\<open>sprintf(buf, "%#x\n", val)\<close>.\<close>

fun hex_digits :: "nat \<Rightarrow> string" where
  "hex_digits n = (if n = 0 then [] else hex_digits (n div 16) @ [''0123456789abcdef'' ! (n mod 16)])"

declare hex_digits.simps [simp del]

definition show_filter :: "'s rc_ctl \<Rightarrow> rc_filter_type \<Rightarrow> bool \<Rightarrow> string" where
  "show_filter dev type msk =
     (let filt = (if type = RC_FILTER_NORMAL then scancode_filter dev else wakeup_filter dev);
          val = (if msk then f_mask filt else f_data filt)
      in (if val = 0 then ''0'' else ''0x'' @ hex_digits (unat val)) @ [CHR 0x0A])"

text \<open>The number read is 64 bits wide, the filter 32.\<close>

definition store_filter ::
  "'s rc_ops \<Rightarrow> (string \<Rightarrow> u64 result) \<Rightarrow> 's rc_ctl \<Rightarrow> rc_filter_type \<Rightarrow> bool \<Rightarrow> string \<Rightarrow> nat \<Rightarrow> 's rc_ctl \<times> nat result" where
  "store_filter ops kstrtoul dev type msk buf len =
     (case kstrtoul buf of
        Inl e \<Rightarrow> (dev, Inl e)
      | Inr val \<Rightarrow>
          (case (if type = RC_FILTER_NORMAL then ops_filter ops else ops_wakeup ops) of
             None \<Rightarrow> (dev, Inl EINVAL)
           | Some set_filter \<Rightarrow>
               let filt = (if type = RC_FILTER_NORMAL then scancode_filter dev else wakeup_filter dev);
                   new = (if msk then filt\<lparr>f_mask := ucast val\<rparr> else filt\<lparr>f_data := ucast val\<rparr>);
                   (new, valid) =
                     (if type = RC_FILTER_WAKEUP then
                        if wakeup_protocol dev \<noteq> RC_PROTO_UNKNOWN then rc_validate_filter dev new else (new, Inl EINVAL)
                      else (new, Inr ()))
               in (case valid of
                     Inl e \<Rightarrow> (dev, Inl e)
                   | Inr _ \<Rightarrow>
                       if type = RC_FILTER_NORMAL \<and> ctl_enabled dev = 0 \<and> val \<noteq> 0 then (dev, Inl EINVAL)
                       else
                         let (s, new, ret) = set_filter new (behind dev); dev = dev\<lparr>behind := s\<rparr>
                         in (case ret of
                               Inl e \<Rightarrow> (dev, Inl e)
                             | Inr _ \<Rightarrow>
                                 (if type = RC_FILTER_NORMAL then dev\<lparr>scancode_filter := new\<rparr> else dev\<lparr>wakeup_filter := new\<rparr>, Inr len)))))"

section \<open>The protocol for wake-up\<close>

text \<open>The names of \<^verbatim>\<open>protocols[]\<close>, in the order of their numbers.\<close>

definition protocols_name :: "(rc_proto \<times> string) list" where
  "protocols_name =
    [(RC_PROTO_UNKNOWN, ''unknown''),
     (RC_PROTO_OTHER, ''other''),
     (RC_PROTO_RC5, ''rc-5''),
     (RC_PROTO_RC5X_20, ''rc-5x-20''),
     (RC_PROTO_RC5_SZ, ''rc-5-sz''),
     (RC_PROTO_JVC, ''jvc''),
     (RC_PROTO_SONY12, ''sony-12''),
     (RC_PROTO_SONY15, ''sony-15''),
     (RC_PROTO_SONY20, ''sony-20''),
     (RC_PROTO_NEC, ''nec''),
     (RC_PROTO_NECX, ''nec-x''),
     (RC_PROTO_NEC32, ''nec-32''),
     (RC_PROTO_SANYO, ''sanyo''),
     (RC_PROTO_MCIR2_KBD, ''mcir2-kbd''),
     (RC_PROTO_MCIR2_MSE, ''mcir2-mse''),
     (RC_PROTO_RC6_0, ''rc-6-0''),
     (RC_PROTO_RC6_6A_20, ''rc-6-6a-20''),
     (RC_PROTO_RC6_6A_24, ''rc-6-6a-24''),
     (RC_PROTO_RC6_6A_32, ''rc-6-6a-32''),
     (RC_PROTO_RC6_MCE, ''rc-6-mce''),
     (RC_PROTO_SHARP, ''sharp''),
     (RC_PROTO_XMP, ''xmp''),
     (RC_PROTO_CEC, ''cec''),
     (RC_PROTO_IMON, ''imon''),
     (RC_PROTO_RCMM12, ''rc-mm-12''),
     (RC_PROTO_RCMM24, ''rc-mm-24''),
     (RC_PROTO_RCMM32, ''rc-mm-32''),
     (RC_PROTO_XBOX_DVD, ''xbox-dvd'')]"

definition show_wakeup_protocols :: "'s rc_ctl \<Rightarrow> string" where
  "show_wakeup_protocols dev =
     end_line (concat (map (\<lambda>(p, nm).
       if allowed_wakeup dev AND push_bit (rc_proto_num p) 1 \<noteq> 0 then
         if p = wakeup_protocol dev then ''['' @ nm @ ''] '' else nm @ '' ''
       else []) protocols_name))"

text \<open>The attribute is only there for a device that has \<^verbatim>\<open>s_wakeup_filter\<close> (\<open>set_filter\<close>). Its error number is returned after the protocol and the filter have been set.\<close>

definition store_wakeup_protocols ::
  "'s rc_ops \<Rightarrow> (rc_scancode_filter \<Rightarrow> 's \<Rightarrow> 's \<times> rc_scancode_filter \<times> unit result) \<Rightarrow> (string \<Rightarrow> string \<Rightarrow> bool) \<Rightarrow>
   's rc_ctl \<Rightarrow> string \<Rightarrow> nat \<Rightarrow> 's rc_ctl \<times> nat result" where
  "store_wakeup_protocols ops set_filter sysfs_streq dev buf len =
     (let (dev, chosen) =
        (if sysfs_streq buf ''none'' then (dev, Inr RC_PROTO_UNKNOWN)
         else
           case find (\<lambda>(p, nm). allowed_wakeup dev AND push_bit (rc_proto_num p) 1 \<noteq> 0 \<and> sysfs_streq buf nm) protocols_name of
             None \<Rightarrow> (dev, Inl EINVAL)
           | Some (p, _) \<Rightarrow>
               if encode_wakeup dev then
                 let (s, msk) = ops_load ops (push_bit (rc_proto_num p) 1) (behind dev); dev = dev\<lparr>behind := s\<rparr>
                 in if msk = 0 then (dev, Inl EINVAL) else (dev, Inr p)
               else (dev, Inr p))
      in (case chosen of
            Inl e \<Rightarrow> (dev, Inl e)
          | Inr protocol \<Rightarrow>
              if wakeup_protocol dev \<noteq> protocol then
                let filt = \<lparr>f_data = (if protocol = RC_PROTO_RC6_MCE then 0x800f0000 else 0), f_mask = 0\<rparr>;
                    dev = dev\<lparr>wakeup_protocol := protocol\<rparr>;
                    (s, filt, rc) = set_filter filt (behind dev);
                    dev = dev\<lparr>behind := s, wakeup_filter := filt\<rparr>
                in (dev, case rc of Inl e \<Rightarrow> Inl e | Inr _ \<Rightarrow> Inr len)
              else (dev, Inr len)))"

section \<open>Parsing what was printed\<close>

text \<open>A change of the protocols: a sign or none, the name of a group in any case of letters, and what ends it.\<close>

datatype sign = Plus | Minus | Only

record proto_change =
  ch_sign :: sign
  ch_group :: proto_name
  ch_text :: string
  ch_end :: char

fun sign_text :: "sign \<Rightarrow> string" where
  "sign_text Plus = ''+''"
| "sign_text Minus = ''-''"
| "sign_text Only = []"

fun apply_change :: "proto_change \<Rightarrow> u64 \<Rightarrow> u64" where
  "apply_change ch protos =
     (case ch_sign ch of Plus \<Rightarrow> protos OR pn_type (ch_group ch) | Minus \<Rightarrow> protos AND NOT (pn_type (ch_group ch)) | Only \<Rightarrow> pn_type (ch_group ch))"

definition proper_change :: "proto_change \<Rightarrow> bool" where
  "proper_change ch \<longleftrightarrow> ch_group ch \<in> set proto_names \<and> map to_lower (ch_text ch) = pn_name (ch_group ch) \<and> delim (ch_end ch)"

definition change_text :: "proto_change \<Rightarrow> string" where
  "change_text ch = sign_text (ch_sign ch) @ ch_text ch"

definition print_changes :: "proto_change list \<Rightarrow> string" where
  "print_changes chs = concat (map (\<lambda>ch. change_text ch @ [ch_end ch]) chs)"

lemma names_lower: "pn \<in> set proto_names \<Longrightarrow> map to_lower (pn_name pn) = pn_name pn"
  by (auto simp: proto_names_def to_lower_def)

lemma names_plain: "pn \<in> set proto_names \<Longrightarrow> list_all (\<lambda>c. \<not> delim c) (pn_name pn) \<and> pn_name pn \<noteq> [] \<and> hd (pn_name pn) \<notin> {CHR ''+'', CHR ''-''}"
  by (auto simp: proto_names_def delim_def)

lemma names_distinct: "distinct (map pn_name proto_names)"
  by (simp add: proto_names_def)

lemma to_lower_special: "c \<in> {CHR '' '', CHR 0x0A, CHR ''+'', CHR ''-''} \<Longrightarrow> to_lower c = c"
  by (auto simp: to_lower_def)

lemma to_lower_back: "to_lower c \<notin> {CHR '' '', CHR 0x0A, CHR ''+'', CHR ''-''} \<Longrightarrow> c \<notin> {CHR '' '', CHR 0x0A, CHR ''+'', CHR ''-''}"
  by (metis to_lower_special)

lemma find_member: "x \<in> set xs \<Longrightarrow> find (\<lambda>q. q = x) xs = Some x"
  by (induction xs) auto

lemma proto_mask_name:
  assumes "pn \<in> set proto_names" "map to_lower txt = pn_name pn"
  shows "proto_mask txt = Some (pn_type pn)"
proof -
  have eq: "strcase_eq txt (pn_name q) \<longleftrightarrow> q = pn" if "q \<in> set proto_names" for q
    using that assms names_distinct by (auto simp: strcase_eq_def names_lower distinct_map dest: inj_onD)
  have "find (\<lambda>q. strcase_eq txt (pn_name q)) proto_names = find (\<lambda>q. q = pn) proto_names"
    by (rule find_cong) (simp_all add: eq)
  also have "\<dots> = Some pn" using assms(1) by (rule find_member)
  finally show ?thesis by (simp add: proto_mask_def)
qed

lemma change_text_plain:
  assumes "proper_change ch"
  shows "list_all (\<lambda>c. \<not> delim c) (change_text ch)" "change_text ch \<noteq> []"
    "hd (change_text ch) = (case ch_sign ch of Plus \<Rightarrow> CHR ''+'' | Minus \<Rightarrow> CHR ''-'' | Only \<Rightarrow> hd (ch_text ch))"
    "hd (ch_text ch) \<notin> {CHR ''+'', CHR ''-''}" "ch_text ch \<noteq> []"
proof -
  have nm: "list_all (\<lambda>c. \<not> delim c) (map to_lower (ch_text ch))" "map to_lower (ch_text ch) \<noteq> []"
    "hd (map to_lower (ch_text ch)) \<notin> {CHR ''+'', CHR ''-''}"
    using assms names_plain [of "ch_group ch"] by (simp_all add: proper_change_def)
  then show ne: "ch_text ch \<noteq> []" by simp
  have "to_lower c = c" if "delim c" for c using that by (intro to_lower_special) (auto simp: delim_def)
  with nm(1) have "list_all (\<lambda>c. \<not> delim c) (ch_text ch)" by (fastforce simp: list_all_iff)
  then show "list_all (\<lambda>c. \<not> delim c) (change_text ch)" by (cases "ch_sign ch") (auto simp: change_text_def delim_def)
  show "change_text ch \<noteq> []" using ne by (simp add: change_text_def)
  show "hd (change_text ch) = (case ch_sign ch of Plus \<Rightarrow> CHR ''+'' | Minus \<Rightarrow> CHR ''-'' | Only \<Rightarrow> hd (ch_text ch))"
    using ne by (cases "ch_sign ch") (simp_all add: change_text_def)
  show "hd (ch_text ch) \<notin> {CHR ''+'', CHR ''-''}"
    using nm(3) ne to_lower_special [of "hd (ch_text ch)"] by (auto simp: hd_map)
qed

lemma strsep_token: "list_all (\<lambda>c. \<not> delim c) tok \<Longrightarrow> delim d \<Longrightarrow> strsep (tok @ d # rest) = (tok, Some rest)"
  by (simp add: strsep_def list_all_iff)

lemma strsep_end: "list_all (\<lambda>c. \<not> delim c) tok \<Longrightarrow> strsep tok = (tok, None)"
  by (simp add: strsep_def list_all_iff takeWhile_eq_all_conv [THEN iffD2] dropWhile_eq_Nil_conv [THEN iffD2])

text \<open>One turn of the loop.\<close>

lemma parse_turn:
  assumes "proper_change ch" "strsep buf = (change_text ch, rest)"
  shows "parse_loop (Some buf) protos count = parse_loop rest (apply_change ch protos) (count + 1)"
proof -
  note plain = change_text_plain [OF assms(1)]
  obtain c cs where tx: "change_text ch = c # cs" using plain(2) by (cases "change_text ch") auto
  have msk: "proto_mask (ch_text ch) = Some (pn_type (ch_group ch))"
    using assms(1) by (intro proto_mask_name) (simp_all add: proper_change_def)
  show ?thesis
    using assms(2) plain(3-5) msk tx
    by (cases "ch_sign ch") (auto simp: change_text_def)
qed

declare parse_loop.simps(2) [simp del] apply_change.simps [simp del]

lemma parse_print:
  "\<forall>ch \<in> set chs. proper_change ch \<Longrightarrow>
   parse_loop (Some (print_changes chs @ rest)) protos count = parse_loop (Some rest) (fold apply_change chs protos) (count + length chs)"
proof (induction chs arbitrary: protos count)
  case (Cons ch chs)
  have "strsep (print_changes (ch # chs) @ rest) = (change_text ch, Some (print_changes chs @ rest))"
    using Cons.prems strsep_token [OF change_text_plain(1) [of ch], of "ch_end ch" "print_changes chs @ rest"]
    by (simp add: print_changes_def proper_change_def)
  from parse_turn [OF _ this] Cons show ?case by simp
qed (simp add: print_changes_def)

lemma parse_stop [simp]: "0 < count \<Longrightarrow> parse_loop (Some []) protos count = (protos, Inr count)"
  by (simp add: strsep_def parse_loop.simps(2))

lemma protocol_changes:
  assumes "chs \<noteq> []" "\<forall>ch \<in> set chs. proper_change ch" "buf = print_changes chs \<or> buf = butlast (print_changes chs)"
  shows "parse_protocol_change protos buf = (fold apply_change chs protos, Inr (length chs))"
proof (cases "buf = print_changes chs")
  case True
  with parse_print [OF assms(2), of "[]" protos 0] assms(1) show ?thesis by (simp add: parse_protocol_change_def)
next
  case False
  obtain cs c where chs: "chs = cs @ [c]" using assms(1) by (cases chs rule: rev_cases) auto
  have "buf = print_changes cs @ change_text c"
    using False assms(3) by (simp add: chs print_changes_def butlast_append)
  moreover have "parse_loop (Some (change_text c)) protos' n = parse_loop None (apply_change c protos') (n + 1)" for protos' n
    using assms(2) by (intro parse_turn) (simp_all add: chs strsep_end change_text_plain(1))
  ultimately show ?thesis
    using parse_print [of cs "change_text c" protos 0] assms(2) by (simp add: parse_protocol_change_def chs)
qed

text \<open>
  The texts that are stored into the attribute \<^verbatim>\<open>protocols\<close> mean what they say: a list of changes, each the name of a group in any case of letters
  with \<open>+\<close>, \<open>-\<close> or no sign, each ended by a blank or a newline (the last one may miss it), is carried out one by one from left to right, and the number
  of changes is returned.
\<close>

theorem protocol_changes_parsed:
  assumes "chs \<noteq> []" "\<forall>ch \<in> set chs. proper_change ch" "buf = print_changes chs \<or> buf = butlast (print_changes chs)"
  shows "parse_protocol_change protos buf = (fold apply_change chs protos, Inr (length chs))"
  by (rule protocol_changes [OF assms])

text \<open>The list ends at the first empty token: after two blanks the rest of the text is ignored without an error.\<close>

theorem double_blank_ignores_rest:
  assumes "chs \<noteq> []" "\<forall>ch \<in> set chs. proper_change ch" "delim d"
  shows "parse_protocol_change protos (print_changes chs @ [d] @ rest) = (fold apply_change chs protos, Inr (length chs))"
proof -
  have "strsep ([d] @ rest) = ([], Some rest)" using strsep_token [of "[]" d rest] assms(3) by simp
  with parse_print [OF assms(2), of "[d] @ rest" protos 0] assms(1) show ?thesis
    by (simp add: parse_protocol_change_def parse_loop.simps(2))
qed

section \<open>What is shown can be stored\<close>

definition shown_word :: "proto_name \<times> bool \<Rightarrow> string" where
  "shown_word w = (if snd w then ''['' @ pn_name (fst w) @ ''] '' else pn_name (fst w) @ '' '')"

definition shown_marks :: "u64 \<Rightarrow> u64 \<Rightarrow> proto_name list \<Rightarrow> (proto_name \<times> bool) list" where
  "shown_marks allowed enabled pns = map (\<lambda>pn. (pn, allowed AND enabled AND pn_type pn \<noteq> 0)) (filter (\<lambda>pn. allowed AND pn_type pn \<noteq> 0) pns)"

text \<open>Taking a group from the allowed protocols does not change what is shown of the later groups.\<close>

lemma shown_marks_rest:
  assumes "\<forall>pn \<in> set pns. t AND pn_type pn = 0"
  shows "shown_marks (allowed AND NOT t) enabled pns = shown_marks allowed enabled pns"
proof -
  have "(allowed AND NOT t) AND pn_type pn = allowed AND pn_type pn"
    "(allowed AND NOT t) AND enabled AND pn_type pn = allowed AND enabled AND pn_type pn" if "pn \<in> set pns" for pn
    using assms that unfolding and_eq_0_iff by (intro bit_word_eqI; auto simp: bit_and_iff bit_not_iff)+
  then show ?thesis unfolding shown_marks_def by (intro map_cong filter_cong) auto
qed

lemma shown_marks_Cons:
  "shown_marks allowed enabled (pn # pns) =
     (if allowed AND pn_type pn \<noteq> 0 then [(pn, allowed AND enabled AND pn_type pn \<noteq> 0)] else []) @ shown_marks allowed enabled pns"
  by (simp add: shown_marks_def)

lemma show_groups_words:
  "sorted_wrt (\<lambda>a b. pn_type a AND pn_type b = 0) pns \<Longrightarrow>
   show_groups pns allowed enabled = concat (map shown_word (shown_marks allowed enabled pns))"
proof (induction pns arbitrary: allowed)
  case (Cons pn pns)
  then have rest: "shown_marks (allowed AND NOT (pn_type pn)) enabled pns = shown_marks allowed enabled pns"
    by (intro shown_marks_rest) simp
  have "allowed AND enabled AND pn_type pn \<noteq> 0 \<Longrightarrow> allowed AND pn_type pn \<noteq> 0"
    unfolding and_neq_0_iff by (auto simp: bit_and_iff)
  with Cons rest show ?case by (simp add: shown_marks_Cons shown_word_def)
qed (simp add: shown_marks_def)

text \<open>The text that enables what is marked, and nothing else.\<close>

definition enable_text :: "(proto_name \<times> bool) list \<Rightarrow> string" where
  "enable_text marks =
     print_changes (\<lparr>ch_sign = Only, ch_group = \<lparr>pn_type = 0, pn_name = ''none'', pn_module = None\<rparr>, ch_text = ''none'', ch_end = CHR '' ''\<rparr> #
       map (\<lambda>w. \<lparr>ch_sign = Plus, ch_group = fst w, ch_text = pn_name (fst w), ch_end = CHR '' ''\<rparr>) (filter snd marks))"

text \<open>
  Protocols that are whole groups of the table. Names can only ask for these; the single protocol that \<^verbatim>\<open>rc_prepare_rx_device\<close> enables for a keymap need
  not be one (\<open>shown_group_widens\<close>).
\<close>

definition whole_groups :: "u64 \<Rightarrow> bool" where
  "whole_groups protos \<longleftrightarrow> (\<forall>pn \<in> set proto_names. protos AND pn_type pn = 0 \<or> protos AND pn_type pn = pn_type pn) \<and>
     protos AND NOT (foldr (\<lambda>pn w. pn_type pn OR w) proto_names 0) = 0"

lemma bit_fold_plus:
  "bit (fold apply_change (map (\<lambda>w. \<lparr>ch_sign = Plus, ch_group = fst w, ch_text = f w, ch_end = d\<rparr>) ws) a) i \<longleftrightarrow>
   bit a i \<or> (\<exists>w \<in> set ws. bit (pn_type (fst w)) i)"
  by (induction ws arbitrary: a) (auto simp: apply_change.simps bit_or_iff)

lemma shown_text_parses:
  assumes "enabled AND NOT allowed = 0" "whole_groups enabled"
  shows "\<exists>n. parse_protocol_change protos (enable_text (shown_marks allowed enabled proto_names)) = (enabled, Inr n)"
    "\<forall>(pn, m) \<in> set (shown_marks allowed enabled proto_names). m \<longleftrightarrow> enabled AND pn_type pn \<noteq> 0"
proof -
  let ?e = enabled let ?marks = "shown_marks allowed ?e proto_names"
  have sub: "bit ?e i \<Longrightarrow> bit allowed i" for i using assms(1) by (simp add: and_not_eq_0_iff)
  have mark: "allowed AND ?e AND pn_type pn \<noteq> 0 \<longleftrightarrow> ?e AND pn_type pn \<noteq> 0" for pn
    unfolding and_neq_0_iff by (auto simp: bit_and_iff dest: sub)
  have "?e AND pn_type pn \<noteq> 0 \<Longrightarrow> allowed AND pn_type pn \<noteq> 0" for pn unfolding and_neq_0_iff by (auto dest: sub)
  then have marked: "set (filter snd ?marks) = (\<lambda>pn. (pn, True)) ` {pn \<in> set proto_names. ?e AND pn_type pn \<noteq> 0}"
    using mark by (auto simp: shown_marks_def)
  have "proper_change \<lparr>ch_sign = Only, ch_group = \<lparr>pn_type = 0, pn_name = ''none'', pn_module = None\<rparr>, ch_text = ''none'', ch_end = CHR '' ''\<rparr>"
    by (simp add: proper_change_def proto_names_def rc_proto_bits_def to_lower_def delim_def)
  moreover have "proper_change \<lparr>ch_sign = Plus, ch_group = pn, ch_text = pn_name pn, ch_end = CHR '' ''\<rparr>" if "pn \<in> set proto_names" for pn
    using that by (simp add: proper_change_def names_lower delim_def)
  ultimately have parsed: "\<exists>n. parse_protocol_change protos (enable_text ?marks) =
      (fold apply_change (map (\<lambda>w. \<lparr>ch_sign = Plus, ch_group = fst w, ch_text = pn_name (fst w), ch_end = CHR '' ''\<rparr>) (filter snd ?marks)) 0, Inr n)"
    unfolding enable_text_def
    by (subst protocol_changes) (auto simp: shown_marks_def apply_change.simps)
  have "fold apply_change (map (\<lambda>w. \<lparr>ch_sign = Plus, ch_group = fst w, ch_text = pn_name (fst w), ch_end = CHR '' ''\<rparr>) (filter snd ?marks)) 0 = ?e"
  proof (rule bit_word_eqI)
    fix i
    have "(\<exists>w \<in> set (filter snd ?marks). bit (pn_type (fst w)) i) \<longleftrightarrow> (\<exists>pn \<in> set proto_names. ?e AND pn_type pn \<noteq> 0 \<and> bit (pn_type pn) i)"
      unfolding marked by auto
    also have "\<dots> \<longleftrightarrow> bit ?e i"
    proof
      assume "\<exists>pn \<in> set proto_names. ?e AND pn_type pn \<noteq> 0 \<and> bit (pn_type pn) i"
      then obtain pn where pn: "pn \<in> set proto_names" "?e AND pn_type pn \<noteq> 0" "bit (pn_type pn) i" by blast
      then have "?e AND pn_type pn = pn_type pn" using assms(2) unfolding whole_groups_def by blast
      with pn(3) show "bit ?e i" by (metis bit_and_iff)
    next
      assume e: "bit ?e i"
      then obtain pn where "pn \<in> set proto_names" "bit (pn_type pn) i"
        using assms(2) unfolding whole_groups_def and_not_eq_0_iff by (auto simp: bit_unions)
      with e show "\<exists>pn \<in> set proto_names. ?e AND pn_type pn \<noteq> 0 \<and> bit (pn_type pn) i" unfolding and_neq_0_iff by blast
    qed
    finally show "bit (fold apply_change (map (\<lambda>w. \<lparr>ch_sign = Plus, ch_group = fst w, ch_text = pn_name (fst w), ch_end = CHR '' ''\<rparr>)
        (filter snd ?marks)) 0) i \<longleftrightarrow> bit ?e i" by (simp only: bit_fold_plus bit_0_eq bot_fun_def bot_bool_def simp_thms)
  qed
  with parsed show "\<exists>n. parse_protocol_change protos (enable_text ?marks) = (?e, Inr n)" by auto
  show "\<forall>(pn, m) \<in> set ?marks. m \<longleftrightarrow> ?e AND pn_type pn \<noteq> 0" using mark by (auto simp: shown_marks_def)
qed

text \<open>
  A text that is shown does not tell which protocols of a group are enabled, and the names stand for whole groups. A device whose keymap is for NEC is
  registered with that protocol alone; it shows \<open>[nec]\<close>, and storing \<open>nec\<close> enables the extended and the 32 bit protocol as well.
\<close>

lemma shown_group_widens:
  assumes "ctl_allowed dev = rc_proto_bits [RC_PROTO_NEC, RC_PROTO_NECX, RC_PROTO_NEC32]" "ctl_enabled dev = rc_proto_bit RC_PROTO_NEC"
  shows "show_protocols ops False dev = ''[nec]'' @ [CHR 0x0A]"
    "parse_protocol_change protos ''nec'' = (rc_proto_bits [RC_PROTO_NEC, RC_PROTO_NECX, RC_PROTO_NEC32], Inr 1)"
    "\<not> whole_groups (ctl_enabled dev)"
proof -
  have "proper_change \<lparr>ch_sign = Only, ch_group = nec_group, ch_text = ''nec'', ch_end = CHR '' ''\<rparr>"
    using nec_group_works(1) by (simp add: proper_change_def nec_group_def to_lower_def delim_def)
  with protocol_changes [of "[\<lparr>ch_sign = Only, ch_group = nec_group, ch_text = ''nec'', ch_end = CHR '' ''\<rparr>]" "''nec''" protos]
  show "parse_protocol_change protos ''nec'' = (rc_proto_bits [RC_PROTO_NEC, RC_PROTO_NECX, RC_PROTO_NEC32], Inr 1)"
    by (simp add: print_changes_def change_text_def apply_change.simps nec_group_def)
  have "shown_marks (rc_proto_bits [RC_PROTO_NEC, RC_PROTO_NECX, RC_PROTO_NEC32]) (rc_proto_bit RC_PROTO_NEC) proto_names = [(nec_group, True)]"
    by (simp add: shown_marks_def proto_names_def nec_group_def rc_proto_bits_def rc_proto_bit_def)
  moreover have "rc_proto_bits [RC_PROTO_NEC, RC_PROTO_NECX, RC_PROTO_NEC32] \<noteq> 0" by (simp add: rc_proto_bits_def rc_proto_bit_def)
  ultimately show "show_protocols ops False dev = ''[nec]'' @ [CHR 0x0A]"
    using assms by (simp add: show_protocols_def show_groups_words [OF groups_disjoint] shown_word_def end_line_def) (simp add: nec_group_def)
  have "rc_proto_bit RC_PROTO_NEC AND pn_type nec_group \<noteq> 0" "rc_proto_bit RC_PROTO_NEC AND pn_type nec_group \<noteq> pn_type nec_group"
    by (simp_all add: nec_group_def rc_proto_bits_def rc_proto_bit_def)
  with nec_group_works(1) assms(2) show "\<not> whole_groups (ctl_enabled dev)" unfolding whole_groups_def by auto
qed

section \<open>The filter for wake-up fits its protocol\<close>

datatype sysfs_call = Store_protocols string | Store_filter rc_filter_type bool string | Store_wakeup string

fun sysfs_store ::
  "'s rc_ops \<Rightarrow> (rc_scancode_filter \<Rightarrow> 's \<Rightarrow> 's \<times> rc_scancode_filter \<times> unit result) \<Rightarrow> (string \<Rightarrow> u64 result) \<Rightarrow> (string \<Rightarrow> string \<Rightarrow> bool) \<Rightarrow>
   sysfs_call \<Rightarrow> 's rc_ctl \<Rightarrow> 's rc_ctl" where
  "sysfs_store ops set_filter kstrtoul streq (Store_protocols buf) dev = fst (store_protocols ops dev buf (length buf))"
| "sysfs_store ops set_filter kstrtoul streq (Store_filter type msk buf) dev = fst (store_filter ops kstrtoul dev type msk buf (length buf))"
| "sysfs_store ops set_filter kstrtoul streq (Store_wakeup buf) dev = fst (store_wakeup_protocols ops set_filter streq dev buf (length buf))"

text \<open>The filter is a scancode of the protocol, with a mask of its bits; a device that sends the scancode itself needs all of them or none.\<close>

definition wakeup_ok :: "'s rc_ctl \<Rightarrow> bool" where
  "wakeup_ok dev \<longleftrightarrow> canonical_scancode (wakeup_protocol dev) (f_data (wakeup_filter dev)) \<and>
     f_mask (wakeup_filter dev) AND NOT (protocols_scancode_bits (wakeup_protocol dev)) = 0 \<and>
     (encode_wakeup dev \<longrightarrow> f_mask (wakeup_filter dev) \<in> {0, protocols_scancode_bits (wakeup_protocol dev)})"

lemma validate_masked:
  assumes "rc_validate_scancode p sc"
  shows "canonical_scancode p (sc AND protocols_scancode_bits p)"
proof -
  have bits: "(sc AND m) AND NOT m = 0" for m :: u32 by (rule bit_word_eqI) (simp add: bit_simps)
  have necx: "(drop_bit 16 (sc AND 0xffffff) XOR NOT (drop_bit 8 (sc AND 0xffffff))) AND 0xff = (drop_bit 16 sc XOR NOT (drop_bit 8 sc)) AND 0xff"
    by (rule u32_eqI) (simp add: upt_32 bit_simps)
  have full: "sc AND 0xffffffff = sc" by (rule u32_eqI) (simp add: upt_32 bit_simps)
  have "rc_validate_scancode p (sc AND protocols_scancode_bits p)"
    using assms necx full by (cases p) (simp_all add: rc_validate_scancode_def and.assoc)
  with bits show ?thesis by (simp add: canonical_scancode_def)
qed

lemma store_protocols_keeps:
  "store_protocols ops dev buf len = (dev', r) \<Longrightarrow>
   wakeup_protocol dev' = wakeup_protocol dev \<and> wakeup_filter dev' = wakeup_filter dev \<and> encode_wakeup dev' = encode_wakeup dev"
  by (auto simp: store_protocols_def Let_def split: option.splits prod.splits sum.splits if_splits)

lemma canonical_zero: "p \<noteq> RC_PROTO_RC6_MCE \<Longrightarrow> canonical_scancode p 0"
  by (cases p) (simp_all add: canonical_scancode_def rc_validate_scancode_def)

lemma store_wakeup_keeps:
  assumes "\<forall>f s. fst (snd (set_filter f s)) = f" "wakeup_ok dev" "store_wakeup_protocols ops set_filter streq dev buf len = (dev', r)"
  shows "wakeup_ok dev'"
proof -
  have kept: "set_filter f s = (s', f', rc) \<Longrightarrow> f' = f" for f s s' f' rc using assms(1) by (metis fst_conv snd_conv)
  have "canonical_scancode RC_PROTO_RC6_MCE 0x800f0000" by (simp add: canonical_scancode_def rc_validate_scancode_def)
  then show ?thesis
    using assms(2,3)
    by (auto simp: store_wakeup_protocols_def wakeup_ok_def Let_def canonical_zero split: option.splits prod.splits sum.splits if_splits dest!: kept)
qed

lemma store_filter_keeps:
  assumes "ops_wakeup ops = Some set_filter" "\<forall>f s. fst (snd (set_filter f s)) = f" "wakeup_ok dev"
    and "store_filter ops kstrtoul dev type msk buf len = (dev', r)"
  shows "wakeup_ok dev'"
proof -
  have kept: "set_filter f s = (s', f', rc) \<Longrightarrow> f' = f" for f s s' f' rc using assms(2) by (metis fst_conv snd_conv)
  have valid: "canonical_scancode (wakeup_protocol dev) (f_data f') \<and> f_mask f' AND NOT (protocols_scancode_bits (wakeup_protocol dev)) = 0 \<and>
      (encode_wakeup dev \<longrightarrow> f_mask f' \<in> {0, protocols_scancode_bits (wakeup_protocol dev)})"
    if "rc_validate_filter dev f = (f', Inr ())" for f f'
  proof -
    have "(a AND m) AND NOT m = 0" for a m :: u32 by (rule bit_word_eqI) (simp add: bit_simps)
    with that show ?thesis by (auto simp: rc_validate_filter_def Let_def validate_masked split: if_splits)
  qed
  show ?thesis
    using assms(1,3,4)
    by (cases type) (auto simp: store_filter_def wakeup_ok_def Let_def split: option.splits prod.splits sum.splits if_splits dest!: kept valid)
qed

text \<open>
  C14: However the attributes of a device are written, with any texts in any order and a driver that may refuse, the filter for wake-up stays a valid
  scancode of the protocol for wake-up with a mask within its bits, and all of its bits or none when the device has to send the scancode itself. The
  driver is one that does not change the filters it gets.
\<close>

theorem wakeup_filter_valid:
  assumes "ops_wakeup ops = Some set_filter" "\<forall>f s. fst (snd (set_filter f s)) = f" "wakeup_ok dev"
  shows "wakeup_ok (fold (sysfs_store ops set_filter kstrtoul streq) calls dev)"
  using assms(3)
proof (induction calls arbitrary: dev)
  case (Cons c calls)
  have "wakeup_ok (sysfs_store ops set_filter kstrtoul streq c dev)"
  proof (cases c)
    case (Store_protocols buf)
    have "store_protocols ops dev buf (length buf) = (fst (store_protocols ops dev buf (length buf)), snd (store_protocols ops dev buf (length buf)))"
      by simp
    from store_protocols_keeps [OF this] Cons.prems show ?thesis by (simp add: Store_protocols wakeup_ok_def)
  next
    case (Store_filter type msk buf)
    then show ?thesis by (auto intro: store_filter_keeps [OF assms(1,2) Cons.prems prod.collapse [symmetric]])
  next
    case (Store_wakeup buf)
    then show ?thesis by (auto intro: store_wakeup_keeps [OF assms(2) Cons.prems prod.collapse [symmetric]])
  qed
  with Cons.IH show ?case by simp
qed simp

text \<open>A filter that does not fit into 32 bits is cut, not refused.\<close>

lemma store_filter_truncates:
  assumes "kstrtoul buf = Inr (push_bit 32 n)" "ops_filter ops = Some (\<lambda>f s. (s, f, Inr ()))" "ctl_enabled dev \<noteq> 0"
  shows "store_filter ops kstrtoul dev RC_FILTER_NORMAL False buf len = (dev\<lparr>scancode_filter := (scancode_filter dev)\<lparr>f_data := 0\<rparr>\<rparr>, Inr len)"
proof -
  have "(ucast (push_bit 32 n) :: u32) = 0" by (rule bit_word_eqI) (simp add: bit_simps)
  with assms show ?thesis by (simp add: store_filter_def Let_def)
qed

text \<open>A driver that refuses the filter for wake-up: the error number is returned, but the protocol has been changed.\<close>

lemma wakeup_error_keeps_change:
  assumes "set_filter = (\<lambda>f s. (s, f, Inl EINVAL))" "streq buf ''none''" "wakeup_protocol dev \<noteq> RC_PROTO_UNKNOWN"
  shows "\<exists>dev'. store_wakeup_protocols ops set_filter streq dev buf len = (dev', Inl EINVAL) \<and> wakeup_protocol dev' = RC_PROTO_UNKNOWN"
  using assms by (simp add: store_wakeup_protocols_def Let_def)

section \<open>A receiver of raw events\<close>

text \<open>The functions behind a device that decodes raw events: the registry, the device and its decoders, and the hardware.\<close>

definition raw_ops ::
  "'d module_loader \<Rightarrow> 'h raw_driver \<Rightarrow> ('d raw_core \<times> raw_dev \<times> 'd \<times> 'h) rc_ops" where
  "raw_ops request drv =
     \<lparr>ops_load = (\<lambda>p (core, x). let (core, p) = ir_raw_load_modules request core p in ((core, x), p)),
      ops_available = (\<lambda>(core, _). ir_raw_get_allowed_protocols core),
      ops_change = Some (\<lambda>enabled p (core, dev, d, h).
        let (dev, d, h) = change_protocol (handler_list core) drv (dev\<lparr>enabled_protocols := enabled\<rparr>) d h p
        in ((core, dev\<lparr>enabled_protocols := p\<rparr>, d, h), p, Inr ())),
      ops_filter = None, ops_wakeup = None\<rparr>"

text \<open>What storing a text that parses does to a receiver of raw events.\<close>

lemma store_raw:
  assumes "driver_type dev = RC_DRIVER_IR_RAW" "behind dev = (core, rdev, d, h)" "parse_protocol_change (ctl_enabled dev) buf = (want, Inr n)"
    "ir_raw_load_modules request core want = (core', p')"
  shows "\<exists>dev' rdev' h'. store_protocols (raw_ops request drv) dev buf len = (dev', Inr len) \<and>
    behind dev' = (core', rdev', change_handlers (handler_list core') (ctl_enabled dev) p' d, h') \<and> enabled_protocols rdev' = p' \<and> ctl_enabled dev' = p'"
proof -
  obtain rdev' d' h' where ch: "change_protocol (handler_list core') drv (rdev\<lparr>enabled_protocols := ctl_enabled dev\<rparr>) d h p' = (rdev', d', h')"
    by (cases "change_protocol (handler_list core') drv (rdev\<lparr>enabled_protocols := ctl_enabled dev\<rparr>) d h p'") auto
  then have "d' = change_handlers (handler_list core') (ctl_enabled dev) p' d"
    by (auto simp: change_protocol_def Let_def split: if_splits option.splits)
  with ch assms show ?thesis by (simp add: store_protocols_def raw_ops_def Let_def)
qed

text \<open>
  C12: Storing changes of the protocols of a receiver succeeds and enables what the changes say, exactly as far as it can be decoded. Nothing else is
  enabled; every enabled protocol in a group with a decoder has a handler (other and unknown are enabled without one); a wanted group is enabled when its
  handlers were there, or when its module can be loaded and brings them; and when no handler is missing nothing is loaded. The raw
  device sees the same protocols, and the handlers are told of the change from the old protocols to the new ones.
\<close>

theorem stored_protocols_enabled:
  assumes "only_grows request" "driver_type dev = RC_DRIVER_IR_RAW" "behind dev = (core, rdev, d, h)"
    "chs \<noteq> []" "\<forall>ch \<in> set chs. proper_change ch" "buf = print_changes chs \<or> buf = butlast (print_changes chs)"
    "want = fold apply_change chs (ctl_enabled dev)"
  shows "\<exists>dev' core' rdev' h'. store_protocols (raw_ops request drv) dev buf len = (dev', Inr len) \<and>
    behind dev' = (core', rdev', change_handlers (handler_list core') (ctl_enabled dev) (ctl_enabled dev') d, h') \<and>
    enabled_protocols rdev' = ctl_enabled dev' \<and>
    ctl_enabled dev' AND NOT want = 0 \<and> ctl_enabled dev' AND decoders AND NOT (ir_raw_get_allowed_protocols core') = 0 \<and>
    want AND NOT decoders AND NOT (ctl_enabled dev') = 0 \<and>
    (\<forall>pn \<in> set proto_names. module_works request pn \<or> want AND pn_type pn AND NOT (ir_raw_get_allowed_protocols core) = 0 \<longrightarrow>
       want AND pn_type pn AND NOT (ctl_enabled dev') = 0) \<and>
    (want AND decoders AND NOT (ir_raw_get_allowed_protocols core) = 0 \<longrightarrow> core' = core \<and> ctl_enabled dev' = want)"
proof -
  obtain core' p' where l: "ir_raw_load_modules request core want = (core', p')" by fastforce
  have "parse_protocol_change (ctl_enabled dev) buf = (want, Inr (length chs))"
    unfolding assms(7) by (rule protocol_changes [OF assms(4-6)])
  from store_raw [OF assms(2,3) this l] obtain dev' rdev' h' where s: "store_protocols (raw_ops request drv) dev buf len = (dev', Inr len)"
    "behind dev' = (core', rdev', change_handlers (handler_list core') (ctl_enabled dev) p' d, h')" "enabled_protocols rdev' = p'" "ctl_enabled dev' = p'"
    by blast
  have "\<forall>pn \<in> set proto_names. module_works request pn \<or> want AND pn_type pn AND NOT (ir_raw_get_allowed_protocols core) = 0 \<longrightarrow>
      want AND pn_type pn AND NOT p' = 0"
    using loaded_groups [OF assms(1) l] unfolding ir_raw_get_allowed_protocols_def by blast
  moreover have "want AND decoders AND NOT (ir_raw_get_allowed_protocols core) = 0 \<longrightarrow> core' = core \<and> p' = want"
    using load_idle [of want core request] l unfolding ir_raw_get_allowed_protocols_def by simp
  ultimately show ?thesis
    using loaded_available [OF assms(1) l] s unfolding ir_raw_get_allowed_protocols_def
    by (intro exI [of _ dev'] exI [of _ core'] exI [of _ rdev'] exI [of _ h']) simp
qed

text \<open>
  C13: What \<^verbatim>\<open>show_protocols\<close> shows of a receiver as enabled can be stored back later. The text lists every group of which a protocol is allowed,
  once and in order, in brackets exactly when a protocol of it is enabled. When whole groups were enabled, and their handlers are there, then storing
  \<open>none\<close> and every name in brackets with \<open>+\<close>, whatever is enabled at that time, succeeds and leaves exactly the protocols enabled that
  were enabled when the text was shown. (A group of which a part is enabled becomes whole, \<open>shown_group_widens\<close>.)
\<close>

theorem shown_protocols_store_back:
  assumes "driver_type dev = RC_DRIVER_IR_RAW" "behind dev = (core, rdev, d, h)"
    "allowed = (if has_raw dev \<and> ctl_allowed dev = 0 then ir_raw_get_allowed_protocols core else ctl_allowed dev)"
    "ctl_enabled dev AND NOT allowed = 0" "whole_groups (ctl_enabled dev)"
    "ctl_enabled dev AND decoders AND NOT (ir_raw_get_allowed_protocols core) = 0"
  shows "\<exists>marks. map fst marks = filter (\<lambda>pn. allowed AND pn_type pn \<noteq> 0) proto_names \<and>
    (\<forall>(pn, m) \<in> set marks. m \<longleftrightarrow> ctl_enabled dev AND pn_type pn \<noteq> 0) \<and>
    show_protocols (raw_ops request drv) cfg dev = end_line (concat (map shown_word marks) @ (if cfg then ''[lirc] '' else [])) \<and>
    (\<forall>e len. \<exists>dev' rdev' d' h'. store_protocols (raw_ops request drv) (dev\<lparr>ctl_enabled := e\<rparr>) (enable_text marks) len = (dev', Inr len) \<and>
       behind dev' = (core, rdev', d', h') \<and> ctl_enabled dev' = ctl_enabled dev \<and> enabled_protocols rdev' = ctl_enabled dev)"
proof (intro exI [of _ "shown_marks allowed (ctl_enabled dev) proto_names"] conjI allI)
  let ?marks = "shown_marks allowed (ctl_enabled dev) proto_names"
  show "map fst ?marks = filter (\<lambda>pn. allowed AND pn_type pn \<noteq> 0) proto_names" by (simp add: shown_marks_def comp_def)
  show "\<forall>(pn, m) \<in> set ?marks. m \<longleftrightarrow> ctl_enabled dev AND pn_type pn \<noteq> 0" by (rule shown_text_parses(2) [OF assms(4,5)])
  show "show_protocols (raw_ops request drv) cfg dev = end_line (concat (map shown_word ?marks) @ (if cfg then ''[lirc] '' else []))"
    using assms(1,2) by (simp add: show_protocols_def raw_ops_def show_groups_words [OF groups_disjoint] assms(3))
  fix e len
  obtain n where "parse_protocol_change e (enable_text ?marks) = (ctl_enabled dev, Inr n)" using shown_text_parses(1) [OF assms(4,5)] by blast
  moreover have "ir_raw_load_modules request core (ctl_enabled dev) = (core, ctl_enabled dev)"
    using assms(6) by (intro load_idle) (simp add: ir_raw_get_allowed_protocols_def)
  ultimately show "\<exists>dev' rdev' d' h'. store_protocols (raw_ops request drv) (dev\<lparr>ctl_enabled := e\<rparr>) (enable_text ?marks) len = (dev', Inr len) \<and>
       behind dev' = (core, rdev', d', h') \<and> ctl_enabled dev' = ctl_enabled dev \<and> enabled_protocols rdev' = ctl_enabled dev"
    using store_raw [of "dev\<lparr>ctl_enabled := e\<rparr>" core rdev d h "enable_text ?marks" "ctl_enabled dev" n request core "ctl_enabled dev" drv len] assms(1,2)
    by auto
qed

section \<open>Concrete devices\<close>

definition group :: "rc_proto list \<Rightarrow> string \<Rightarrow> string \<Rightarrow> proto_name" where
  "group ps nm md = \<lparr>pn_type = rc_proto_bits ps, pn_name = nm, pn_module = Some md\<rparr>"

text \<open>Three changes, with other letters than in the table and both delimiters.\<close>

definition example_changes :: "proto_change list" where
  "example_changes =
     [\<lparr>ch_sign = Only, ch_group = group [RC_PROTO_JVC] ''jvc'' ''ir-jvc-decoder'', ch_text = ''jvc'', ch_end = CHR '' ''\<rparr>,
      \<lparr>ch_sign = Plus, ch_group = group [RC_PROTO_NEC, RC_PROTO_NECX, RC_PROTO_NEC32] ''nec'' ''ir-nec-decoder'', ch_text = ''NEC'', ch_end = CHR '' ''\<rparr>,
      \<lparr>ch_sign = Minus, ch_group = group [RC_PROTO_JVC] ''jvc'' ''ir-jvc-decoder'', ch_text = ''Jvc'', ch_end = CHR 0x0A\<rparr>]"

lemma example_changes_proper: "\<forall>ch \<in> set example_changes. proper_change ch" "example_changes \<noteq> []"
  by (simp_all add: example_changes_def proper_change_def group_def proto_names_def to_lower_def delim_def char_of_def bit_0)

lemma example_changes_text: "print_changes example_changes = ''jvc +NEC -Jvc'' @ [CHR 0x0A]"
  by (simp add: example_changes_def print_changes_def change_text_def)

lemma example_changes_apply: "fold apply_change example_changes protos = rc_proto_bits [RC_PROTO_NEC, RC_PROTO_NECX, RC_PROTO_NEC32]"
  by (simp add: example_changes_def apply_change.simps group_def rc_proto_bits_def rc_proto_bit_def)

theorem protocol_changes_parsed_witness:
  "parse_protocol_change 7 ''jvc +NEC -Jvc'' = (rc_proto_bits [RC_PROTO_NEC, RC_PROTO_NECX, RC_PROTO_NEC32], Inr 3)"
proof -
  have "''jvc +NEC -Jvc'' = butlast (print_changes example_changes)" by (simp add: example_changes_text)
  from protocol_changes_parsed [OF example_changes_proper(2,1) disjI2 [OF this]] show ?thesis
    by (simp add: example_changes_apply) (simp add: example_changes_def)
qed

definition example_ctl :: "(u64 list raw_core \<times> raw_dev \<times> u64 list \<times> unit) rc_ctl" where
  "example_ctl = \<lparr>behind = (empty_core, example_receiver, [], ()), driver_type = RC_DRIVER_IR_RAW, has_raw = True, encode_wakeup = False,
     ctl_allowed = rc_proto_bits [RC_PROTO_RC5, RC_PROTO_NEC, RC_PROTO_NECX, RC_PROTO_NEC32, RC_PROTO_XMP],
     ctl_enabled = rc_proto_bits [RC_PROTO_NEC, RC_PROTO_NECX, RC_PROTO_NEC32], allowed_wakeup = 0, wakeup_protocol = RC_PROTO_UNKNOWN,
     scancode_filter = \<lparr>f_data = 0, f_mask = 0\<rparr>, wakeup_filter = \<lparr>f_data = 0, f_mask = 0\<rparr>\<rparr>"

text \<open>A receiver that decodes NEC.\<close>

definition example_nec :: "(u64 list raw_core \<times> raw_dev \<times> u64 list \<times> unit) rc_ctl" where
  "example_nec = example_ctl\<lparr>behind := (ir_raw_handler_register empty_core example_module, example_receiver, [protocols example_module], ())\<rparr>"

theorem shown_protocols_store_back_witness:
  "\<exists>marks dev'. map pn_name (map fst marks) = [''rc-5'', ''nec'', ''xmp''] \<and>
     store_protocols (raw_ops example_loader no_driver) (example_nec\<lparr>ctl_enabled := 1\<rparr>) (enable_text marks) 10 = (dev', Inr 10) \<and>
     ctl_enabled dev' = rc_proto_bits [RC_PROTO_NEC, RC_PROTO_NECX, RC_PROTO_NEC32]"
proof -
  have "whole_groups (ctl_enabled example_nec)"
    by (simp add: whole_groups_def example_nec_def example_ctl_def proto_names_def rc_proto_bits_def rc_proto_bit_def)
  moreover have "ctl_enabled example_nec AND NOT (ctl_allowed example_nec) = 0" "driver_type example_nec = RC_DRIVER_IR_RAW"
    "ctl_allowed example_nec = (if has_raw example_nec \<and> ctl_allowed example_nec = 0
       then ir_raw_get_allowed_protocols (ir_raw_handler_register empty_core example_module) else ctl_allowed example_nec)"
    by (simp_all add: example_nec_def example_ctl_def rc_proto_bits_def rc_proto_bit_def)
  moreover have "ctl_enabled example_nec AND decoders AND NOT (ir_raw_get_allowed_protocols (ir_raw_handler_register empty_core example_module)) = 0"
    unfolding and_and_not_eq_0_iff
    by (simp add: example_nec_def example_ctl_def ir_raw_get_allowed_protocols_def ir_raw_handler_register_def empty_core_def example_module_def)
  ultimately obtain marks where m: "map fst marks = filter (\<lambda>pn. ctl_allowed example_nec AND pn_type pn \<noteq> 0) proto_names"
    "\<And>e len. \<exists>dev' rdev' d' h'. store_protocols (raw_ops example_loader no_driver) (example_nec\<lparr>ctl_enabled := e\<rparr>) (enable_text marks) len = (dev', Inr len) \<and>
       behind dev' = (ir_raw_handler_register empty_core example_module, rdev', d', h') \<and> ctl_enabled dev' = ctl_enabled example_nec \<and>
       enabled_protocols rdev' = ctl_enabled example_nec"
    using shown_protocols_store_back [of example_nec "ir_raw_handler_register empty_core example_module" example_receiver "[protocols example_module]" "()"
        "ctl_allowed example_nec" example_loader no_driver False]
    by (auto simp: example_nec_def)
  moreover have "map pn_name (filter (\<lambda>pn. ctl_allowed example_nec AND pn_type pn \<noteq> 0) proto_names) = [''rc-5'', ''nec'', ''xmp'']"
    by (simp add: example_nec_def example_ctl_def proto_names_def rc_proto_bits_def rc_proto_bit_def)
  moreover have "ctl_enabled example_nec = rc_proto_bits [RC_PROTO_NEC, RC_PROTO_NECX, RC_PROTO_NEC32]" by (simp add: example_nec_def example_ctl_def)
  ultimately show ?thesis by (metis m(2))
qed

theorem wakeup_filter_valid_witness:
  "wakeup_ok (fold (sysfs_store \<lparr>ops_load = (\<lambda>p s. (s, p)), ops_available = (\<lambda>_. 0), ops_change = None, ops_filter = None,
      ops_wakeup = Some (\<lambda>f s. (s, f, Inr ()))\<rparr> (\<lambda>f s. (s, f, Inr ())) (\<lambda>_. Inr 0x123456789) (=))
    [Store_wakeup ''nec'', Store_filter RC_FILTER_WAKEUP True ''x'', Store_filter RC_FILTER_WAKEUP False ''y'']
    (example_ctl\<lparr>allowed_wakeup := rc_proto_bit RC_PROTO_NEC, encode_wakeup := True\<rparr>))"
  by (rule wakeup_filter_valid) (simp_all add: wakeup_ok_def example_ctl_def canonical_zero)

theorem stored_protocols_enabled_witness:
  "\<exists>dev' core'. store_protocols (raw_ops nec_loader no_driver) example_ctl ''jvc +NEC -Jvc'' 13 = (dev', Inr 13) \<and>
    fst (behind dev') = core' \<and> ctl_enabled dev' AND decoders AND NOT (ir_raw_get_allowed_protocols core') = 0 \<and>
    pn_type nec_group AND NOT (ctl_enabled dev') = 0"
proof -
  have "''jvc +NEC -Jvc'' = butlast (print_changes example_changes)" by (simp add: example_changes_text)
  from stored_protocols_enabled [OF nec_loader_grows _ _ example_changes_proper(2,1) disjI2 [OF this] example_changes_apply [symmetric],
      of example_ctl empty_core example_receiver "[]" "()" no_driver 13] nec_group_works
  obtain dev' core' rdev' d' h' where s: "store_protocols (raw_ops nec_loader no_driver) example_ctl ''jvc +NEC -Jvc'' 13 = (dev', Inr 13)"
    "behind dev' = (core', rdev', d', h')" "ctl_enabled dev' AND decoders AND NOT (ir_raw_get_allowed_protocols core') = 0"
    "pn_type nec_group AND pn_type nec_group AND NOT (ctl_enabled dev') = 0"
    by (fastforce simp: example_ctl_def nec_group_def)
  then show ?thesis by simp
qed

end
