(* ===== verification/Rc_Device.thy ===== *)
theory Rc_Device
  imports Rc_Sysfs Rc_Table
begin

text \<open>
  The life of a remote control device, \<^verbatim>\<open>rc/rc-main.c\<close>: the list of keymaps, the allocation, registration and unregistration of a device with its
  error paths, and the users that open and close it.

  What the kernel and the driver do is a parameter: each call that can fail gives its result.
\<close>

section \<open>Keymaps\<close>

definition RC_MAP_EMPTY :: string where "RC_MAP_EMPTY = ''rc-empty''"

definition seek_rc_map :: "string \<Rightarrow> rc_map list \<Rightarrow> rc_map option" where
  "seek_rc_map nm maps = find (\<lambda>m. map_name m = Some nm) maps"

text \<open>A keymap that is not in the list is asked for as a module, which may register it.\<close>

type_synonym map_loader = "string \<Rightarrow> rc_map list \<Rightarrow> rc_map list \<times> int"

definition rc_map_get :: "map_loader \<Rightarrow> string \<Rightarrow> rc_map list \<Rightarrow> rc_map list \<times> rc_map option" where
  "rc_map_get request nm maps =
     (case seek_rc_map nm maps of
        Some m \<Rightarrow> (maps, Some m)
      | None \<Rightarrow> let (maps, rc) = request nm maps in if rc < 0 then (maps, None) else (maps, seek_rc_map nm maps))"

definition rc_map_register :: "rc_map list \<Rightarrow> rc_map \<Rightarrow> rc_map list" where
  "rc_map_register maps m = maps @ [m]"

definition rc_map_unregister :: "rc_map list \<Rightarrow> nat \<Rightarrow> rc_map list" where
  "rc_map_unregister maps i = take i maps @ drop (i + 1) maps"

section \<open>The device\<close>

datatype input_state = No_input | Input_allocated | Input_registered

record 's rc_life =
  ctl :: "'s rc_ctl"
  keys :: rc_keytab
  keymap :: "string option"
  minor :: "nat option"
  raw_there :: bool
  in_tree :: bool
  input_dev :: input_state
  input_opened :: bool
  lirc_there :: bool
  raw_client :: bool
  registered :: bool
  users :: u32
  hw_calls :: "bool list"

text \<open>
  The driver and the kernel. \<open>hw_calls\<close> records what has been called of the driver: \<^const>\<open>True\<close> for an \<^verbatim>\<open>open\<close> that succeeded, \<^const>\<open>False\<close> for a
  \<^verbatim>\<open>close\<close>. When the input device is registered, a handler of the input layer may open it (\<open>input_opens\<close>).
\<close>

record 's life_env =
  ops :: "'s rc_ops"
  drv_open :: "('s \<Rightarrow> 's \<times> unit result) option"
  drv_close :: "('s \<Rightarrow> 's) option"
  request_map :: map_loader
  pow2 :: "nat \<Rightarrow> nat"
  strdup :: "string \<Rightarrow> string option"
  alloc :: "nat \<Rightarrow> kmalloc"
  ida_get :: "nat result"
  raw_alloc :: bool
  dev_add :: "unit result"
  input_register :: "unit result"
  input_opens :: bool
  lirc_register :: "unit result"
  raw_register_client :: "unit result"

definition set_behind :: "'s \<Rightarrow> 's rc_life \<Rightarrow> 's rc_life" where
  "set_behind s d = d\<lparr>ctl := (ctl d)\<lparr>behind := s\<rparr>\<rparr>"

section \<open>Users\<close>

definition rc_open :: "'s life_env \<Rightarrow> 's rc_life \<Rightarrow> 's rc_life \<times> unit result" where
  "rc_open env d =
     (if \<not> registered d then (d, Inl ENODEV)
      else
        let first = (users d = 0); d = d\<lparr>users := users d + 1\<rparr>;
            (d, rval) =
              (case drv_open env of
                 Some f \<Rightarrow>
                   if first then
                     let (s, rval) = f (behind (ctl d)); d = set_behind s d
                     in (if rval = Inr () then d\<lparr>hw_calls := hw_calls d @ [True]\<rparr> else d, rval)
                   else (d, Inr ())
               | None \<Rightarrow> (d, Inr ()))
        in case rval of Inl e \<Rightarrow> (d\<lparr>users := users d - 1\<rparr>, Inl e) | Inr _ \<Rightarrow> (d, Inr ()))"

text \<open>The driver's \<^verbatim>\<open>close\<close>.\<close>

definition call_close :: "('s \<Rightarrow> 's) \<Rightarrow> 's rc_life \<Rightarrow> 's rc_life" where
  "call_close f d = (set_behind (f (behind (ctl d))) d)\<lparr>hw_calls := hw_calls d @ [False]\<rparr>"

definition rc_close :: "'s life_env \<Rightarrow> 's rc_life \<Rightarrow> 's rc_life" where
  "rc_close env d =
     (let d = d\<lparr>users := users d - 1\<rparr> in
      case drv_close env of
        Some f \<Rightarrow> if users d = 0 \<and> registered d then call_close f d else d
      | None \<Rightarrow> d)"

section \<open>Allocation\<close>

definition rc_allocate_device :: "rc_driver_type \<Rightarrow> bool \<Rightarrow> bool \<Rightarrow> 's \<Rightarrow> 's rc_life option" where
  "rc_allocate_device type mem input_mem s =
     (if \<not> mem \<or> type \<noteq> RC_DRIVER_IR_RAW_TX \<and> \<not> input_mem then None
      else Some
        \<lparr>ctl = \<lparr>behind = s, driver_type = type, has_raw = False, encode_wakeup = False, ctl_allowed = 0, ctl_enabled = 0, allowed_wakeup = 0,
           wakeup_protocol = RC_PROTO_UNKNOWN, scancode_filter = \<lparr>f_data = 0, f_mask = 0\<rparr>, wakeup_filter = \<lparr>f_data = 0, f_mask = 0\<rparr>\<rparr>,
         keys = \<lparr>tab = \<lparr>scan = [], map_size = 0, map_len = 0, map_alloc = 0, map_proto = RC_PROTO_UNKNOWN, map_name = None\<rparr>,
           keybit = {}, scancode_mask = 0\<rparr>,
         keymap = None, minor = None, raw_there = False, in_tree = False,
         input_dev = (if type \<noteq> RC_DRIVER_IR_RAW_TX then Input_allocated else No_input), input_opened = False,
         lirc_there = False, raw_client = False, registered = False, users = 0, hw_calls = []\<rparr>)"

section \<open>Registration\<close>

text \<open>The parts of the device that the input layer sees (event bits, names, identifiers) are left out.\<close>

definition rc_prepare_rx_device :: "'s life_env \<Rightarrow> rc_map list \<Rightarrow> 's rc_life \<Rightarrow> (rc_map list \<times> 's rc_life \<times> unit result) option" where
  "rc_prepare_rx_device env maps d =
     (case keymap d of
        None \<Rightarrow> Some (maps, d, Inl EINVAL)
      | Some nm \<Rightarrow>
          let (maps, found) = rc_map_get (request_map env) nm maps;
              (maps, found) = (case found of None \<Rightarrow> rc_map_get (request_map env) RC_MAP_EMPTY maps | Some m \<Rightarrow> (maps, Some m))
          in (case found of
                None \<Rightarrow> Some (maps, d, Inl EINVAL)
              | Some m \<Rightarrow>
                  if scan m = [] \<or> map_size m = 0 then Some (maps, d, Inl EINVAL)
                  else do {
                    (keytab, rc) \<leftarrow> ir_setkeytable (pow2 env) (strdup env) (alloc env) (keys d) m;
                    let d = d\<lparr>keys := keytab\<rparr>;
                    case rc of
                      Inl e \<Rightarrow> Some (maps, d, Inl e)
                    | Inr _ \<Rightarrow>
                        let proto = push_bit (rc_proto_num (map_proto m)) 1;
                            d = (if driver_type (ctl d) = RC_DRIVER_SCANCODE \<and> ops_change (ops env) = None
                                 then d\<lparr>ctl := (ctl d)\<lparr>ctl_enabled := ctl_allowed (ctl d)\<rparr>\<rparr> else d);
                            (s, proto) = (if driver_type (ctl d) = RC_DRIVER_IR_RAW then ops_load (ops env) proto (behind (ctl d))
                                          else (behind (ctl d), proto));
                            d = set_behind s d
                        in (case ops_change (ops env) of
                              None \<Rightarrow> Some (maps, d, Inr ())
                            | Some change \<Rightarrow>
                                let (s, proto, rc) = change (ctl_enabled (ctl d)) proto (behind (ctl d)); d = set_behind s d
                                in (case rc of
                                      Inl e \<Rightarrow> Some (maps, d\<lparr>keys := (keys d)\<lparr>tab := ir_free_table (tab (keys d))\<rparr>\<rparr>, Inl e)
                                    | Inr _ \<Rightarrow> Some (maps, d\<lparr>ctl := (ctl d)\<lparr>ctl_enabled := proto\<rparr>\<rparr>, Inr ())))
                  }))"

definition free_keys :: "'s rc_life \<Rightarrow> 's rc_life" where
  "free_keys d = d\<lparr>keys := (keys d)\<lparr>tab := ir_free_table (tab (keys d))\<rparr>\<rparr>"

text \<open>
  The input layer calls \<^verbatim>\<open>ir_open\<close> and \<^verbatim>\<open>ir_close\<close>, which are there when the driver has \<^verbatim>\<open>open\<close> and \<^verbatim>\<open>close\<close>.
\<close>

definition input_open :: "'s life_env \<Rightarrow> 's rc_life \<Rightarrow> 's rc_life" where
  "input_open env d =
     (if drv_open env = None then d\<lparr>input_opened := True\<rparr>
      else let (d, rc) = rc_open env d in d\<lparr>input_opened := (rc = Inr ())\<rparr>)"

definition input_close :: "'s life_env \<Rightarrow> 's rc_life \<Rightarrow> 's rc_life" where
  "input_close env d = (if drv_close env \<noteq> None then rc_close env d else d)\<lparr>input_opened := False\<rparr>"

definition rc_setup_rx_device :: "'s life_env \<Rightarrow> 's rc_life \<Rightarrow> 's rc_life \<times> unit result" where
  "rc_setup_rx_device env d =
     (case input_register env of
        Inl e \<Rightarrow> (d, Inl e)
      | Inr _ \<Rightarrow> let d = d\<lparr>input_dev := Input_registered\<rparr> in (if input_opens env then input_open env d else d, Inr ()))"

definition rc_free_rx_device :: "'s life_env \<Rightarrow> 's rc_life \<Rightarrow> 's rc_life" where
  "rc_free_rx_device env d =
     free_keys
       (if input_dev d = No_input then d
        else (if input_opened d then input_close env d else d)\<lparr>input_dev := No_input\<rparr>)"

definition has_lirc :: "'s rc_life \<Rightarrow> bool" where
  "has_lirc d \<longleftrightarrow> ctl_allowed (ctl d) \<noteq> rc_proto_bit RC_PROTO_CEC"

text \<open>The labels of \<^verbatim>\<open>rc_register_device\<close>, from the last to the first.\<close>

definition out_minor :: "'s rc_life \<Rightarrow> 's rc_life" where
  "out_minor d = d\<lparr>minor := None\<rparr>"

definition out_raw :: "'s rc_life \<Rightarrow> 's rc_life" where
  "out_raw d = out_minor (d\<lparr>raw_there := False, ctl := (ctl d)\<lparr>has_raw := False\<rparr>\<rparr>)"

definition out_rx_free :: "'s rc_life \<Rightarrow> 's rc_life" where
  "out_rx_free d = out_raw (free_keys d)"

definition out_dev :: "'s rc_life \<Rightarrow> 's rc_life" where
  "out_dev d = out_rx_free (d\<lparr>in_tree := False\<rparr>)"

definition out_rx :: "'s life_env \<Rightarrow> 's rc_life \<Rightarrow> 's rc_life" where
  "out_rx env d = out_dev (rc_free_rx_device env d)"

definition out_lirc :: "'s life_env \<Rightarrow> 's rc_life \<Rightarrow> 's rc_life" where
  "out_lirc env d = out_rx env (if has_lirc d then d\<lparr>lirc_there := False\<rparr> else d)"

text \<open>From \<^verbatim>\<open>ir_lirc_register\<close> on, from the input device on, and from \<^verbatim>\<open>device_add\<close> on.\<close>

definition register_lirc :: "'s life_env \<Rightarrow> 's rc_life \<Rightarrow> 's rc_life \<times> unit result" where
  "register_lirc env d =
     (case (if has_lirc d then lirc_register env else Inr ()) of
        Inl e \<Rightarrow> (out_rx env d, Inl e)
      | Inr _ \<Rightarrow>
          let d = (if has_lirc d then d\<lparr>lirc_there := True\<rparr> else d) in
          if driver_type (ctl d) = RC_DRIVER_IR_RAW then
            (case raw_register_client env of
               Inl e \<Rightarrow> (out_lirc env d, Inl e)
             | Inr _ \<Rightarrow> (d\<lparr>raw_client := True\<rparr>, Inr ()))
          else (d, Inr ()))"

definition register_input :: "'s life_env \<Rightarrow> 's rc_life \<Rightarrow> 's rc_life \<times> unit result" where
  "register_input env d =
     (let (d, rc) = (if driver_type (ctl d) \<noteq> RC_DRIVER_IR_RAW_TX then rc_setup_rx_device env d else (d, Inr ()))
      in case rc of Inl e \<Rightarrow> (out_dev d, Inl e) | Inr _ \<Rightarrow> register_lirc env d)"

definition register_add :: "'s life_env \<Rightarrow> 's rc_life \<Rightarrow> 's rc_life \<times> unit result" where
  "register_add env d =
     (case dev_add env of
        Inl e \<Rightarrow> (out_rx_free d, Inl e)
      | Inr _ \<Rightarrow> register_input env (d\<lparr>in_tree := True, registered := True\<rparr>))"

definition rc_register_device :: "'s life_env \<Rightarrow> rc_map list \<Rightarrow> 's rc_life \<Rightarrow> (rc_map list \<times> 's rc_life \<times> unit result) option" where
  "rc_register_device env maps d =
     (case ida_get env of
        Inl e \<Rightarrow> Some (maps, d, Inl e)
      | Inr n \<Rightarrow>
          let d = d\<lparr>minor := Some n\<rparr>; type = driver_type (ctl d) in
          if type = RC_DRIVER_IR_RAW \<and> \<not> raw_alloc env then Some (maps, out_minor d, Inl ENOMEM)
          else
            let d = (if type = RC_DRIVER_IR_RAW then d\<lparr>raw_there := True, ctl := (ctl d)\<lparr>has_raw := True\<rparr>\<rparr> else d) in
            do {
              (maps, d, rc) \<leftarrow> (if type \<noteq> RC_DRIVER_IR_RAW_TX then rc_prepare_rx_device env maps d else Some (maps, d, Inr ()));
              case rc of
                Inl e \<Rightarrow> Some (maps, out_raw d, Inl e)
              | Inr _ \<Rightarrow> let (d, rc) = register_add env d in Some (maps, d, rc)
            })"

text \<open>The calls of \<^verbatim>\<open>rc_unregister_device\<close>, in their order.\<close>

definition raw_gone :: "'s rc_life \<Rightarrow> 's rc_life" where
  "raw_gone d =
     (if driver_type (ctl d) = RC_DRIVER_IR_RAW then d\<lparr>raw_client := False, raw_there := False, ctl := (ctl d)\<lparr>has_raw := False\<rparr>\<rparr> else d)"

definition switch_off :: "'s life_env \<Rightarrow> 's rc_life \<Rightarrow> 's rc_life" where
  "switch_off env d =
     (case drv_close env of Some f \<Rightarrow> if users d \<noteq> 0 then call_close f d else d | None \<Rightarrow> d)\<lparr>registered := False\<rparr>"

definition unlink :: "'s rc_life \<Rightarrow> 's rc_life" where
  "unlink d = (if has_lirc d then d\<lparr>lirc_there := False\<rparr> else d)\<lparr>in_tree := False, minor := None\<rparr>"

definition rc_unregister_device :: "'s life_env \<Rightarrow> 's rc_life \<Rightarrow> 's rc_life" where
  "rc_unregister_device env d = unlink (switch_off env (rc_free_rx_device env (raw_gone d)))"

section \<open>A registration that fails\<close>

definition released :: "'s rc_life \<Rightarrow> bool" where
  "released d \<longleftrightarrow> minor d = None \<and> \<not> raw_there d \<and> \<not> has_raw (ctl d) \<and> \<not> in_tree d \<and> input_dev d \<noteq> Input_registered \<and> \<not> lirc_there d \<and>
     \<not> raw_client d \<and> scan (tab (keys d)) = []"

text \<open>A device between its allocation and its registration: the driver has set what it likes of the keymap and the protocols.\<close>

definition fresh :: "'s rc_life \<Rightarrow> bool" where
  "fresh d \<longleftrightarrow> released d \<and> input_dev d = (if driver_type (ctl d) = RC_DRIVER_IR_RAW_TX then No_input else Input_allocated) \<and>
     \<not> input_opened d \<and> \<not> registered d \<and> users d = 0 \<and> hw_calls d = []"

text \<open>What is called of the driver: pairs of \<^verbatim>\<open>open\<close> and \<^verbatim>\<open>close\<close>, and one \<^verbatim>\<open>open\<close> more while it is on.\<close>

definition hw_log :: "nat \<Rightarrow> bool \<Rightarrow> bool list" where
  "hw_log n on = concat (replicate n [True, False]) @ (if on then [True] else [])"

lemma concat_replicate_comm: "concat (replicate n xs) @ xs = xs @ concat (replicate n xs)"
  by (induction n) simp_all

lemma hw_log_simps [simp]:
  "hw_log 0 False = []" "hw_log n False @ [True] = hw_log n True" "hw_log n True @ [False] = hw_log (Suc n) False"
  using concat_replicate_comm [of n "[True, False]"] by (simp_all add: hw_log_def)

lemma allocate_fresh: "rc_allocate_device type mem input_mem s = Some d \<Longrightarrow> fresh d"
  by (auto simp: rc_allocate_device_def fresh_def released_def split: if_splits)

lemma setkeytable_fails_empty:
  "ir_setkeytable r k a t from = Some (t', Inl e) \<Longrightarrow> scan (tab t) = [] \<Longrightarrow> scan (tab t') = []"
  by (auto simp: ir_setkeytable_def ir_create_table_def ir_free_table_def Let_def split: option.splits sum.splits prod.splits bind_splits)

text \<open>What the preparation of the input side leaves alone.\<close>

definition same_life :: "'s rc_life \<Rightarrow> 's rc_life \<Rightarrow> bool" where
  "same_life d d' \<longleftrightarrow> driver_type (ctl d') = driver_type (ctl d) \<and> has_raw (ctl d') = has_raw (ctl d) \<and> ctl_allowed (ctl d') = ctl_allowed (ctl d) \<and>
     minor d' = minor d \<and> raw_there d' = raw_there d \<and> in_tree d' = in_tree d \<and> input_dev d' = input_dev d \<and> input_opened d' = input_opened d \<and>
     lirc_there d' = lirc_there d \<and> raw_client d' = raw_client d \<and> registered d' = registered d \<and> users d' = users d \<and> hw_calls d' = hw_calls d"

lemma prepare_same:
  assumes "rc_prepare_rx_device env maps d = Some (maps', d', rc)" "scan (tab (keys d)) = []"
  shows "same_life d d' \<and> (\<forall>e. rc = Inl e \<longrightarrow> scan (tab (keys d')) = [])"
  using assms
  by (auto simp: rc_prepare_rx_device_def same_life_def set_behind_def ir_free_table_def Let_def setkeytable_fails_empty
      split: option.splits sum.splits prod.splits bind_splits if_splits)

text \<open>What the functions of this file do with the users, for a driver that has both or none of \<^verbatim>\<open>open\<close> and \<^verbatim>\<open>close\<close>.\<close>

definition paired :: "'s life_env \<Rightarrow> bool" where
  "paired env \<longleftrightarrow> (drv_open env = None \<longleftrightarrow> drv_close env = None)"

text \<open>The driver is on exactly while somebody uses a registered device.\<close>

definition hw_ok :: "'s life_env \<Rightarrow> 's rc_life \<Rightarrow> bool" where
  "hw_ok env d \<longleftrightarrow> (if drv_open env = None then hw_calls d = [] else \<exists>k. hw_calls d = hw_log k (registered d \<and> users d \<noteq> 0))"

text \<open>The users are the \<open>n\<close> files of the lirc device and the input device.\<close>

definition counts :: "'s life_env \<Rightarrow> 's rc_life \<Rightarrow> nat \<Rightarrow> bool" where
  "counts env d n \<longleftrightarrow> n + 1 < 2 ^ 32 \<and> users d = of_nat (n + of_bool (input_opened d \<and> drv_open env \<noteq> None)) \<and>
     (input_opened d \<longrightarrow> input_dev d = Input_registered) \<and> hw_ok env d"

lemma of_nat_u32_eq_0: "n < 2 ^ 32 \<Longrightarrow> (of_nat n :: u32) = 0 \<longleftrightarrow> n = 0"
  by (simp add: word_unat_eq_iff unat_of_nat)

lemma u32_Suc_eq_0: "n + 1 < 2 ^ 32 \<Longrightarrow> 1 + (of_nat n :: u32) \<noteq> 0"
  using of_nat_u32_eq_0 [of "n + 1"] by simp

definition same_parts :: "'s rc_life \<Rightarrow> 's rc_life \<Rightarrow> bool" where
  "same_parts d d' \<longleftrightarrow> driver_type (ctl d') = driver_type (ctl d) \<and> has_raw (ctl d') = has_raw (ctl d) \<and> ctl_allowed (ctl d') = ctl_allowed (ctl d) \<and>
     minor d' = minor d \<and> raw_there d' = raw_there d \<and> in_tree d' = in_tree d \<and> input_dev d' = input_dev d \<and>
     lirc_there d' = lirc_there d \<and> raw_client d' = raw_client d \<and> registered d' = registered d \<and> keys d' = keys d \<and> input_opened d' = input_opened d"

text \<open>Opening: one user more, or an error and as many as before.\<close>

lemma rc_open_counts:
  assumes "rc_open env d = (d', rc)" "users d = of_nat m" "m + 1 < 2 ^ 32" "hw_ok env d"
  shows "same_parts d d' \<and> users d' = of_nat (if rc = Inr () then m + 1 else m) \<and> hw_ok env d'"
proof -
  have m: "(of_nat m :: u32) = 0 \<longleftrightarrow> m = 0" "1 + (of_nat m :: u32) \<noteq> 0" "(of_nat m :: u32) + 1 \<noteq> 0"
    using assms(3) by (simp_all add: of_nat_u32_eq_0 u32_Suc_eq_0 add.commute [of _ 1])
  from assms(1,2,4) m show ?thesis
    by (auto simp: rc_open_def same_parts_def set_behind_def hw_ok_def Let_def split: option.splits prod.splits sum.splits if_splits)
qed

lemma rc_close_counts:
  assumes "users d = of_nat (Suc m)" "Suc m < 2 ^ 32" "paired env" "hw_ok env d"
  shows "same_parts d (rc_close env d) \<and> users (rc_close env d) = of_nat m \<and> hw_ok env (rc_close env d)"
proof -
  have m: "(of_nat m :: u32) = 0 \<longleftrightarrow> m = 0" "1 + (of_nat m :: u32) \<noteq> 0" "(of_nat m :: u32) + 1 \<noteq> 0"
    using assms(2) by (simp_all add: of_nat_u32_eq_0 u32_Suc_eq_0 add.commute [of _ 1])
  from assms(1,3,4) m show ?thesis
    by (auto simp: rc_close_def call_close_def same_parts_def set_behind_def paired_def hw_ok_def Let_def split: option.splits if_splits)
qed

text \<open>The input device.\<close>

lemma hw_ok_update [simp]:
  "hw_ok env (d\<lparr>input_dev := i\<rparr>) = hw_ok env d" "hw_ok env (d\<lparr>input_opened := b\<rparr>) = hw_ok env d"
  "hw_ok env (d\<lparr>keys := k\<rparr>) = hw_ok env d" "hw_ok env (d\<lparr>minor := m\<rparr>) = hw_ok env d" "hw_ok env (d\<lparr>raw_there := b\<rparr>) = hw_ok env d"
  "hw_ok env (d\<lparr>ctl := c\<rparr>) = hw_ok env d" "hw_ok env (d\<lparr>in_tree := b\<rparr>) = hw_ok env d" "hw_ok env (d\<lparr>lirc_there := b\<rparr>) = hw_ok env d"
  "hw_ok env (d\<lparr>raw_client := b\<rparr>) = hw_ok env d"
  by (simp_all add: hw_ok_def)

lemma input_open_counts:
  assumes "counts env d n" "\<not> input_opened d" "input_dev d = Input_registered"
  shows "counts env (input_open env d) n \<and> same_parts d ((input_open env d)\<lparr>input_opened := False\<rparr>)"
proof (cases "drv_open env = None")
  case True
  with assms show ?thesis by (auto simp: input_open_def counts_def same_parts_def)
next
  case False
  obtain d' rc where e: "rc_open env d = (d', rc)" by force
  from assms(1,2) have "users d = of_nat n" "n + 1 < 2 ^ 32" "hw_ok env d" by (auto simp: counts_def)
  from rc_open_counts [OF e this] False assms e show ?thesis
    by (auto simp: input_open_def counts_def same_parts_def add.commute split: if_splits)
qed

lemma input_close_counts:
  assumes "counts env d n" "input_opened d" "paired env"
  shows "counts env (input_close env d) n \<and> same_parts d ((input_close env d)\<lparr>input_opened := True\<rparr>) \<and> \<not> input_opened (input_close env d)"
proof (cases "drv_open env = None")
  case True
  with assms show ?thesis by (auto simp: input_close_def counts_def same_parts_def paired_def)
next
  case False
  with assms(1,2) have "users d = of_nat (Suc n)" "Suc n < 2 ^ 32" "hw_ok env d" by (auto simp: counts_def)
  from rc_close_counts [OF this(1,2) assms(3) this(3)] False assms show ?thesis
    by (auto simp: input_close_def counts_def same_parts_def paired_def)
qed

text \<open>The input side set up and freed.\<close>

lemma setup_counts:
  assumes "rc_setup_rx_device env d = (d', rc)" "counts env d n" "\<not> input_opened d"
  shows "counts env d' n" "same_parts (d\<lparr>input_opened := input_opened d', input_dev := input_dev d'\<rparr>) d'"
    "rc = Inr () \<Longrightarrow> input_dev d' = Input_registered" "rc \<noteq> Inr () \<Longrightarrow> d' = d"
proof -
  obtain d1 where d1: "d1 = d\<lparr>input_dev := Input_registered\<rparr>" by blast
  have c: "counts env d1 n" "\<not> input_opened d1" "input_dev d1 = Input_registered" using assms(2,3) by (simp_all add: counts_def d1)
  have s1: "same_parts (d\<lparr>input_dev := Input_registered\<rparr>) d1" by (simp add: same_parts_def d1)
  note o = input_open_counts [OF c]
  consider e where "d' = d" "rc = Inl e" | "d' = d1" "rc = Inr ()" | "d' = input_open env d1" "rc = Inr ()"
  proof (cases "input_register env")
    case (Inl e)
    with assms(1) [symmetric] that(1) show ?thesis by (simp add: rc_setup_rx_device_def)
  next
    case (Inr u)
    with assms(1) that(2,3) show ?thesis by (auto simp: rc_setup_rx_device_def d1 Let_def split: if_splits)
  qed
  then have "counts env d' n \<and> same_parts (d\<lparr>input_opened := input_opened d', input_dev := input_dev d'\<rparr>) d' \<and>
    (rc = Inr () \<longrightarrow> input_dev d' = Input_registered) \<and> (rc \<noteq> Inr () \<longrightarrow> d' = d)"
  proof cases
    case 1
    with assms(2) show ?thesis by (simp add: same_parts_def)
  next
    case 2
    with c s1 show ?thesis by (simp add: same_parts_def)
  next
    case 3
    with o c s1 show ?thesis by (simp add: same_parts_def)
  qed
  then show "counts env d' n" "same_parts (d\<lparr>input_opened := input_opened d', input_dev := input_dev d'\<rparr>) d'"
    "rc = Inr () \<Longrightarrow> input_dev d' = Input_registered" "rc \<noteq> Inr () \<Longrightarrow> d' = d" by blast+
qed

lemma no_input_same: "input_dev d = No_input \<Longrightarrow> d\<lparr>input_dev := No_input\<rparr> = d"
  by (cases d) simp

lemma unplug_counts:
  assumes "counts env d n" "\<not> input_opened d"
  shows "counts env (free_keys (d\<lparr>input_dev := No_input\<rparr>)) n"
  using assms by (simp add: counts_def free_keys_def)

lemma free_counts:
  assumes "counts env d n" "paired env"
  obtains d' where "rc_free_rx_device env d = d'" "counts env d' n" "input_dev d' = No_input" "\<not> input_opened d'" "scan (tab (keys d')) = []"
    "same_parts (d\<lparr>input_opened := False, input_dev := No_input, keys := keys d'\<rparr>) d'"
proof -
  have opened: "input_opened d \<Longrightarrow> input_dev d \<noteq> No_input" using assms(1) by (simp add: counts_def)
  obtain e where e: "e = (if input_opened d then input_close env d else d)" by blast
  have c: "counts env e n" "\<not> input_opened e" and same: "same_parts (d\<lparr>input_opened := False\<rparr>) e"
    using input_close_counts [OF assms(1) _ assms(2)] assms(1) by (cases "input_opened d"; simp add: e same_parts_def)+
  have r: "rc_free_rx_device env d = free_keys (e\<lparr>input_dev := No_input\<rparr>)"
    using opened by (cases "input_dev d = No_input"; cases "input_opened d"; simp add: rc_free_rx_device_def e no_input_same)
  show ?thesis
  proof (rule that [OF r unplug_counts [OF c]])
    show "same_parts (d\<lparr>input_opened := False, input_dev := No_input, keys := keys (free_keys (e\<lparr>input_dev := No_input\<rparr>))\<rparr>)
      (free_keys (e\<lparr>input_dev := No_input\<rparr>))"
      using same c(2) by (simp add: same_parts_def free_keys_def)
  qed (simp_all add: free_keys_def ir_free_table_def c(2))
qed

text \<open>The device with nothing held, no user, and the driver off.\<close>

definition off :: "'s rc_life \<Rightarrow> bool" where
  "off d \<longleftrightarrow> released d \<and> users d = 0 \<and> (\<exists>k. hw_calls d = hw_log k False)"

lemma counts_unused:
  assumes "counts env d 0" "\<not> input_opened d"
  shows "users d = 0" "\<exists>k. hw_calls d = hw_log k False"
proof -
  from assms show u: "users d = 0" by (simp add: counts_def)
  show "\<exists>k. hw_calls d = hw_log k False"
  proof (cases "drv_open env = None")
    case True
    with assms have "hw_calls d = hw_log 0 False" by (simp add: counts_def hw_ok_def)
    then show ?thesis ..
  next
    case False
    with assms u show ?thesis by (simp add: counts_def hw_ok_def)
  qed
qed

lemma fresh_counts: "fresh d \<Longrightarrow> counts env d 0"
  by (auto simp: fresh_def counts_def hw_ok_def intro: exI [of _ 0])

lemma same_life_counts: "same_life d d' \<Longrightarrow> counts env d' n \<longleftrightarrow> counts env d n"
  by (simp add: same_life_def counts_def hw_ok_def)

lemma counts_in_tree: "counts env d 0 \<Longrightarrow> \<not> input_opened d \<Longrightarrow> counts env (d\<lparr>in_tree := True, registered := b\<rparr>) 0"
  by (auto simp: counts_def hw_ok_def)

lemma out_rx_off:
  assumes "counts env d 0" "paired env" "\<not> lirc_there d" "\<not> raw_client d"
  shows "off (out_rx env d)"
proof -
  obtain e where e: "rc_free_rx_device env d = e" "counts env e 0" "input_dev e = No_input" "\<not> input_opened e" "scan (tab (keys e)) = []"
    "same_parts (d\<lparr>input_opened := False, input_dev := No_input, keys := keys e\<rparr>) e"
    by (rule free_counts [OF assms(1,2)])
  with counts_unused [OF e(2,4)] assms(3,4) show ?thesis
    by (simp add: off_def out_rx_def out_dev_def out_rx_free_def out_raw_def out_minor_def free_keys_def ir_free_table_def released_def same_parts_def)
qed

lemma out_lirc_off:
  assumes "counts env d 0" "paired env" "lirc_there d \<longrightarrow> has_lirc d" "\<not> raw_client d"
  shows "off (out_lirc env d)"
proof -
  let ?d = "if has_lirc d then d\<lparr>lirc_there := False\<rparr> else d"
  have "counts env ?d 0" using assms(1) by (simp add: counts_def)
  from out_rx_off [OF this assms(2)] assms(3,4) show ?thesis by (auto simp: out_lirc_def)
qed

text \<open>A device that is registered and complete.\<close>

definition complete :: "'s rc_life \<Rightarrow> bool" where
  "complete d \<longleftrightarrow> registered d \<and> in_tree d \<and> minor d \<noteq> None \<and>
     (input_dev d = Input_registered \<longleftrightarrow> driver_type (ctl d) \<noteq> RC_DRIVER_IR_RAW_TX) \<and> (lirc_there d \<longleftrightarrow> has_lirc d) \<and>
     (raw_there d \<longleftrightarrow> driver_type (ctl d) = RC_DRIVER_IR_RAW) \<and>
     (has_raw (ctl d) \<longleftrightarrow> driver_type (ctl d) = RC_DRIVER_IR_RAW) \<and> (raw_client d \<longleftrightarrow> driver_type (ctl d) = RC_DRIVER_IR_RAW)"

definition outcome :: "'s life_env \<Rightarrow> 's rc_life \<Rightarrow> unit result \<Rightarrow> bool" where
  "outcome env d rc \<longleftrightarrow> (if rc = Inr () then counts env d 0 \<and> complete d else off d)"

lemma outcome_simps [simp]:
  "outcome env d (Inl e) = off d" "outcome env d (Inr u) = (counts env d 0 \<and> complete d)"
  by (simp_all add: outcome_def)

text \<open>What holds of the device between the stages.\<close>

definition under_way :: "'s rc_life \<Rightarrow> bool" where
  "under_way d \<longleftrightarrow> minor d \<noteq> None \<and> \<not> lirc_there d \<and> \<not> raw_client d \<and> (raw_there d \<longleftrightarrow> driver_type (ctl d) = RC_DRIVER_IR_RAW) \<and>
     (has_raw (ctl d) \<longleftrightarrow> driver_type (ctl d) = RC_DRIVER_IR_RAW)"

lemma register_lirc_outcome:
  assumes "counts env d 0" "paired env" "under_way d" "registered d" "in_tree d"
    "input_dev d = Input_registered \<longleftrightarrow> driver_type (ctl d) \<noteq> RC_DRIVER_IR_RAW_TX" "register_lirc env d = (d', rc)"
  shows "outcome env d' rc"
proof -
  let ?d = "if has_lirc d then d\<lparr>lirc_there := True\<rparr> else d"
  have c: "counts env ?d 0" using assms(1) by (simp add: counts_def)
  have c': "counts env (?d\<lparr>raw_client := True\<rparr>) 0" using assms(1) by (simp add: counts_def)
  have h: "lirc_there ?d \<longrightarrow> has_lirc ?d" "\<not> raw_client ?d" using assms(3) by (simp_all add: under_way_def has_lirc_def)
  have rx: "off (out_rx env d)" using assms(3) by (intro out_rx_off [OF assms(1,2)]) (simp_all add: under_way_def)
  have lirc: "off (out_lirc env ?d)" by (rule out_lirc_off [OF c assms(2) h])
  have ok: "driver_type (ctl d) \<noteq> RC_DRIVER_IR_RAW \<Longrightarrow> complete ?d" "driver_type (ctl d) = RC_DRIVER_IR_RAW \<Longrightarrow> complete (?d\<lparr>raw_client := True\<rparr>)"
    using assms(3-6) by (auto simp: complete_def under_way_def has_lirc_def)
  from assms(7) [symmetric] rx lirc ok c c' show ?thesis
    by (cases "lirc_register env"; cases "raw_register_client env"; simp add: register_lirc_def Let_def split: if_splits)
qed

lemma register_input_outcome:
  assumes "counts env d 0" "paired env" "under_way d" "registered d" "in_tree d" "\<not> input_opened d" "input_dev d \<noteq> Input_registered"
    "register_input env d = (d', rc)"
  shows "outcome env d' rc"
proof (cases "driver_type (ctl d) = RC_DRIVER_IR_RAW_TX")
  case True
  with assms(8) have "register_lirc env d = (d', rc)" by (simp add: register_input_def)
  from register_lirc_outcome [OF assms(1-5) _ this] True assms(7) show ?thesis by simp
next
  case False
  obtain e re where e: "rc_setup_rx_device env d = (e, re)" by force
  note su = setup_counts [OF e assms(1,6)]
  show ?thesis
  proof (cases re)
    case (Inl x)
    with False e assms(8) su(4) have "d' = out_dev d" "rc = Inl x" by (simp_all add: register_input_def)
    with counts_unused [OF assms(1,6)] assms(3,7) show ?thesis
      by (simp add: off_def released_def out_dev_def out_rx_free_def out_raw_def out_minor_def free_keys_def ir_free_table_def under_way_def)
  next
    case (Inr u)
    with False e assms(8) have l: "register_lirc env e = (d', rc)" by (simp add: register_input_def)
    from Inr su(3) have "input_dev e = Input_registered" by simp
    with su(1,2) assms(3-5) False show ?thesis
      by (intro register_lirc_outcome [OF su(1) assms(2) _ _ _ _ l]) (simp_all add: same_parts_def under_way_def)
  qed
qed

lemma register_add_outcome:
  assumes "counts env d 0" "paired env" "under_way d" "\<not> in_tree d" "\<not> input_opened d" "input_dev d \<noteq> Input_registered" "register_add env d = (d', rc)"
  shows "outcome env d' rc"
proof (cases "dev_add env")
  case (Inl e)
  with assms(7) have "d' = out_rx_free d" "rc = Inl e" by (simp_all add: register_add_def)
  with counts_unused [OF assms(1,5)] assms(3,4,6) show ?thesis
    by (simp add: off_def released_def out_rx_free_def out_raw_def out_minor_def free_keys_def ir_free_table_def under_way_def)
next
  case (Inr u)
  let ?d = "d\<lparr>in_tree := True, registered := True\<rparr>"
  from Inr assms(7) have "register_input env ?d = (d', rc)" by (simp add: register_add_def)
  from register_input_outcome [OF counts_in_tree [OF assms(1,5)] assms(2) _ _ _ _ _ this] assms(3,5,6) show ?thesis
    by (simp add: under_way_def)
qed

lemma same_life_unused: "same_life d d' \<Longrightarrow> counts env d 0 \<Longrightarrow> \<not> input_opened d \<Longrightarrow> users d' = 0 \<and> (\<exists>k. hw_calls d' = hw_log k False)"
  using counts_unused [of env d'] same_life_counts [of d d' env 0] by (simp add: same_life_def)

text \<open>The stage before \<^verbatim>\<open>device_add\<close>, as \<^const>\<open>rc_register_device\<close> reaches it.\<close>

definition numbered :: "nat \<Rightarrow> 's rc_life \<Rightarrow> 's rc_life" where
  "numbered m d =
     (let d = d\<lparr>minor := Some m\<rparr> in if driver_type (ctl d) = RC_DRIVER_IR_RAW then d\<lparr>raw_there := True, ctl := (ctl d)\<lparr>has_raw := True\<rparr>\<rparr> else d)"

lemma numbered_simps [simp]:
  "driver_type (ctl (numbered m d)) = driver_type (ctl d)" "input_dev (numbered m d) = input_dev d" "input_opened (numbered m d) = input_opened d"
  "in_tree (numbered m d) = in_tree d" "lirc_there (numbered m d) = lirc_there d" "raw_client (numbered m d) = raw_client d"
  "keys (numbered m d) = keys d" "minor (numbered m d) = Some m" "counts env (numbered m d) n = counts env d n"
  by (simp_all add: numbered_def counts_def Let_def)

lemma register_outcome:
  assumes "fresh d" "paired env" "rc_register_device env maps d = Some (maps', d', rc)"
  shows "outcome env d' rc"
proof (cases "ida_get env")
  case (Inl e)
  with assms(3) have "d' = d" "rc = Inl e" by (simp_all add: rc_register_device_def)
  with counts_unused [OF fresh_counts [OF assms(1)]] assms(1) show ?thesis by (simp add: fresh_def off_def)
next
  case (Inr m)
  note c = fresh_counts [OF assms(1), of env]
  show ?thesis
  proof (cases "driver_type (ctl d) = RC_DRIVER_IR_RAW \<and> \<not> raw_alloc env")
    case True
    with Inr assms(3) have "d' = out_minor (d\<lparr>minor := Some m\<rparr>)" "rc = Inl ENOMEM" by (simp_all add: rc_register_device_def)
    with counts_unused [OF c] assms(1) show ?thesis by (simp add: fresh_def off_def out_minor_def released_def)
  next
    case False
    let ?d = "numbered m d"
    from False Inr assms(3) obtain maps1 d1 r1 where
      prep: "(if driver_type (ctl d) \<noteq> RC_DRIVER_IR_RAW_TX then rc_prepare_rx_device env maps ?d else Some (maps, ?d, Inr ())) = Some (maps1, d1, r1)"
      and rest: "(maps', d', rc) = (case r1 of Inl e \<Rightarrow> (maps1, out_raw d1, Inl e) | Inr _ \<Rightarrow> let (d, rc) = register_add env d1 in (maps1, d, rc))"
      by (auto simp: rc_register_device_def numbered_def Let_def split: bind_splits sum.splits prod.splits if_splits)
    have d1: "same_life ?d d1 \<and> (\<forall>e. r1 = Inl e \<longrightarrow> scan (tab (keys d1)) = [])"
    proof (cases "driver_type (ctl d) = RC_DRIVER_IR_RAW_TX")
      case True
      with prep show ?thesis by (auto simp: same_life_def)
    next
      case False
      with prep prepare_same [of env maps ?d maps1 d1 r1] assms(1) show ?thesis by (simp add: fresh_def released_def)
    qed
    show ?thesis
    proof (cases r1)
      case (Inl e)
      with rest d1 same_life_unused [of ?d d1 env] c assms(1) show ?thesis
        by (simp add: off_def released_def out_raw_def out_minor_def same_life_def fresh_def)
    next
      case (Inr u)
      with rest have add: "register_add env d1 = (d', rc)" by (simp split: prod.splits)
      have "counts env d1 0" using d1 c same_life_counts [of ?d d1 env 0] by simp
      with d1 assms(1) show ?thesis
        by (intro register_add_outcome [OF _ assms(2) _ _ _ _ add])
          (auto simp: same_life_def under_way_def fresh_def released_def numbered_def Let_def split: if_splits)
    qed
  qed
qed

section \<open>The life of a device\<close>

text \<open>The driver of an environment has \<^verbatim>\<open>open\<close> and \<^verbatim>\<open>close\<close>, or neither.\<close>

definition fits :: "bool \<Rightarrow> 's life_env \<Rightarrow> bool" where
  "fits oc env \<longleftrightarrow> (drv_open env \<noteq> None \<longleftrightarrow> oc) \<and> (drv_close env \<noteq> None \<longleftrightarrow> oc)"

text \<open>\<open>n\<close> files of the lirc device are open. A file that is open may be closed after the device has been unregistered.\<close>

inductive life :: "bool \<Rightarrow> 's rc_life \<Rightarrow> nat \<Rightarrow> bool" for oc where
  registers: "fits oc env \<Longrightarrow> fresh d \<Longrightarrow> rc_register_device env maps d = Some (maps', d', Inr ()) \<Longrightarrow> life oc d' 0"
| file_opens: "life oc d n \<Longrightarrow> fits oc env \<Longrightarrow> n + 2 < 2 ^ 32 \<Longrightarrow> rc_open env d = (d', Inr ()) \<Longrightarrow> life oc d' (n + 1)"
| file_refused: "life oc d n \<Longrightarrow> fits oc env \<Longrightarrow> n + 2 < 2 ^ 32 \<Longrightarrow> rc_open env d = (d', Inl e) \<Longrightarrow> life oc d' n"
| file_closes: "life oc d (Suc n) \<Longrightarrow> fits oc env \<Longrightarrow> life oc (rc_close env d) n"
| device_opens: "life oc d n \<Longrightarrow> fits oc env \<Longrightarrow> input_dev d = Input_registered \<Longrightarrow> \<not> input_opened d \<Longrightarrow> life oc (input_open env d) n"
| device_closes: "life oc d n \<Longrightarrow> fits oc env \<Longrightarrow> input_opened d \<Longrightarrow> life oc (input_close env d) n"
| unregisters: "life oc d n \<Longrightarrow> fits oc env \<Longrightarrow> registered d \<Longrightarrow> life oc (rc_unregister_device env d) n"

lemma fits_paired: "fits oc env \<Longrightarrow> paired env"
  by (auto simp: fits_def paired_def)

lemma fits_counts: "fits oc env \<Longrightarrow> fits oc env' \<Longrightarrow> counts env d n \<longleftrightarrow> counts env' d n"
  by (auto simp: fits_def counts_def hw_ok_def)

text \<open>The invariant.\<close>

definition life_inv :: "bool \<Rightarrow> 's rc_life \<Rightarrow> nat \<Rightarrow> bool" where
  "life_inv oc d n \<longleftrightarrow> (\<forall>env. fits oc env \<longrightarrow> counts env d n) \<and> (registered d \<longrightarrow> complete d)"

lemma life_invI: "fits oc env \<Longrightarrow> counts env d n \<Longrightarrow> (registered d \<Longrightarrow> complete d) \<Longrightarrow> life_inv oc d n"
  unfolding life_inv_def by (blast dest: fits_counts)

lemma complete_same: "same_parts d d' \<Longrightarrow> complete d' \<longleftrightarrow> complete d"
  by (simp add: same_parts_def complete_def has_lirc_def)

lemma complete_opened [simp]: "complete (d\<lparr>input_opened := b\<rparr>) \<longleftrightarrow> complete d"
  by (simp add: complete_def has_lirc_def)

lemma switch_off_counts:
  assumes "counts env d n" "\<not> input_opened d" "registered d" "paired env"
  shows "counts env (switch_off env d) n" "\<not> registered (switch_off env d)" "same_parts (d\<lparr>registered := False\<rparr>) (switch_off env d)"
  using assms by (auto simp: switch_off_def counts_def call_close_def set_behind_def hw_ok_def paired_def same_parts_def split: option.splits if_splits)

lemma unlink_counts: "counts env (unlink d) n = counts env d n"
  by (simp add: unlink_def counts_def)

lemma unregister_counts:
  assumes "counts env d n" "paired env" "registered d" "complete d"
  shows "counts env (rc_unregister_device env d) n" "\<not> registered (rc_unregister_device env d)" "released (rc_unregister_device env d)"
    "\<not> input_opened (rc_unregister_device env d)"
proof -
  have "counts env (raw_gone d) n" using assms(1) by (simp add: counts_def raw_gone_def)
  then obtain e where e: "rc_free_rx_device env (raw_gone d) = e" "counts env e n" "input_dev e = No_input" "\<not> input_opened e" "scan (tab (keys e)) = []"
    "same_parts ((raw_gone d)\<lparr>input_opened := False, input_dev := No_input, keys := keys e\<rparr>) e"
    by (rule free_counts [OF _ assms(2)])
  from e(6) assms(3) have r: "registered e" by (simp add: same_parts_def raw_gone_def split: if_splits)
  note off = switch_off_counts [OF e(2,4) r assms(2)]
  have u: "rc_unregister_device env d = unlink (switch_off env e)" by (simp add: rc_unregister_device_def e(1))
  show "counts env (rc_unregister_device env d) n" by (simp add: u unlink_counts off(1))
  show "\<not> registered (rc_unregister_device env d)" "\<not> input_opened (rc_unregister_device env d)"
    using off(2,3) e(4) by (simp_all add: u unlink_def same_parts_def)
  show "released (rc_unregister_device env d)"
    using off(3) e(3-6) assms(4)
    by (auto simp: released_def u unlink_def same_parts_def raw_gone_def complete_def has_lirc_def split: if_splits)
qed

text \<open>The invariant holds throughout.\<close>

lemma file_open_counts:
  assumes "counts env d n" "n + 2 < 2 ^ 32" "rc_open env d = (d', rc)"
  shows "counts env d' (if rc = Inr () then n + 1 else n)" "same_parts d d'"
proof -
  let ?m = "n + of_bool (input_opened d \<and> drv_open env \<noteq> None)"
  have "users d = of_nat ?m" "?m + 1 < 2 ^ 32" "hw_ok env d" using assms(1,2) by (simp_all add: counts_def)
  from rc_open_counts [OF assms(3) this] assms(1,2) show "same_parts d d'" "counts env d' (if rc = Inr () then n + 1 else n)"
    by (auto simp: counts_def same_parts_def ac_simps)
qed

lemma file_close_counts:
  assumes "counts env d (Suc n)" "paired env"
  shows "counts env (rc_close env d) n" "same_parts d (rc_close env d)"
proof -
  let ?m = "n + of_bool (input_opened d \<and> drv_open env \<noteq> None)"
  have "users d = of_nat (Suc ?m)" "Suc ?m < 2 ^ 32" "hw_ok env d" using assms(1) by (simp_all add: counts_def)
  from rc_close_counts [OF this(1,2) assms(2) this(3)] assms(1) show "same_parts d (rc_close env d)" "counts env (rc_close env d) n"
    by (auto simp: counts_def same_parts_def)
qed

lemma life_step_inv:
  assumes "life_inv oc d n" "fits oc env" "counts env d' m" "same_parts d (d'\<lparr>input_opened := b\<rparr>)"
  shows "life_inv oc d' m"
proof (rule life_invI [OF assms(2,3)])
  assume "registered d'"
  then have "registered d" using assms(4) by (simp add: same_parts_def)
  then have "complete d" using assms(1) by (simp add: life_inv_def)
  then show "complete d'" using complete_same [OF assms(4)] by simp
qed

lemma life_counts: "life_inv oc d n \<Longrightarrow> fits oc env \<Longrightarrow> counts env d n"
  by (simp add: life_inv_def)

lemma life_keeps: "life oc d n \<Longrightarrow> life_inv oc d n"
proof (induction rule: life.induct)
  case (registers env d maps maps' d')
  from register_outcome [OF this(2) fits_paired [OF this(1)] this(3)] registers(1) show ?case by (auto intro: life_invI)
next
  case (file_opens d n env d')
  note c = file_open_counts [OF life_counts [OF file_opens.IH file_opens(2)] file_opens(3,4)]
  show ?case by (rule life_step_inv [OF file_opens.IH file_opens(2), where b = "input_opened d'"]) (use c in simp_all)
next
  case (file_refused d n env d' e)
  note c = file_open_counts [OF life_counts [OF file_refused.IH file_refused(2)] file_refused(3,4)]
  show ?case by (rule life_step_inv [OF file_refused.IH file_refused(2), where b = "input_opened d'"]) (use c in simp_all)
next
  case (file_closes d n env)
  note c = file_close_counts [OF life_counts [OF file_closes.IH file_closes(2)] fits_paired [OF file_closes(2)]]
  show ?case by (rule life_step_inv [OF file_closes.IH file_closes(2) c(1), where b = "input_opened (rc_close env d)"]) (use c in simp)
next
  case (device_opens d n env)
  note c = input_open_counts [OF life_counts [OF device_opens.IH device_opens(2)] device_opens(4,3)]
  show ?case by (rule life_step_inv [OF device_opens.IH device_opens(2) conjunct1 [OF c] conjunct2 [OF c]])
next
  case (device_closes d n env)
  note c = input_close_counts [OF life_counts [OF device_closes.IH device_closes(2)] device_closes(3) fits_paired [OF device_closes(2)]]
  show ?case by (rule life_step_inv [OF device_closes.IH device_closes(2) conjunct1 [OF c] conjunct1 [OF conjunct2 [OF c]]])
next
  case (unregisters d n env)
  from unregisters.IH unregisters(3) have "complete d" by (simp add: life_inv_def)
  from unregister_counts [OF life_counts [OF unregisters.IH unregisters(2)] fits_paired [OF unregisters(2)] unregisters(3) this] unregisters(2) show ?case
    by (auto intro: life_invI)
qed

lemma counts_not_registered: "counts env d n \<Longrightarrow> \<not> registered d \<Longrightarrow> \<exists>k. hw_calls d = hw_log k False"
  by (cases "drv_open env = None") (auto simp: counts_def hw_ok_def intro: exI [of _ 0])

section \<open>Properties\<close>

text \<open>
  C15: A registration that fails, whatever fails and wherever it fails, undoes what it has done: the device number, the raw event state, the
  table of keys, the entry in the device tree, the input device and the lirc device are released, nobody uses the device, and the driver has
  been closed as often as it has been opened, the \<^verbatim>\<open>open\<close> of an input handler during the registration included.
\<close>

theorem failed_registration_undone:
  assumes "fresh d" "paired env" "rc_register_device env maps d = Some (maps', d', Inl e)"
  shows "released d' \<and> users d' = 0 \<and> (\<exists>k. hw_calls d' = hw_log k False)"
  using register_outcome [OF assms] by (simp add: off_def)

text \<open>
  C16: From its registration on, whatever the order in which files of the lirc device and the input device are opened and closed, opening is
  refused and the device is unregistered, the driver is on exactly while the device is registered and somebody uses it: its \<^verbatim>\<open>open\<close> and
  \<^verbatim>\<open>close\<close> are called in turn, \<^verbatim>\<open>open\<close> by the first user and \<^verbatim>\<open>close\<close> after the last one or by \<^verbatim>\<open>rc_unregister_device\<close>. A file
  closed after that does not close the driver a second time.
\<close>

theorem driver_on_iff_used:
  assumes "life True d n"
  shows "\<exists>k. hw_calls d = hw_log k (registered d \<and> (n \<noteq> 0 \<or> input_opened d))"
proof -
  obtain env :: "'a life_env" where env: "drv_open env \<noteq> None" "fits True env"
  proof
    fix e :: "'a life_env"
    show "drv_open (e\<lparr>drv_open := Some (\<lambda>s. (s, Inr ())), drv_close := Some id\<rparr>) \<noteq> None"
      "fits True (e\<lparr>drv_open := Some (\<lambda>s. (s, Inr ())), drv_close := Some id\<rparr>)" by (simp_all add: fits_def)
  qed
  from life_counts [OF life_keeps [OF assms] env(2)] have c: "counts env d n" .
  then have "users d = 0 \<longleftrightarrow> n = 0 \<and> \<not> input_opened d"
    using of_nat_u32_eq_0 [of "n + of_bool (input_opened d \<and> drv_open env \<noteq> None)"] env(1) by (auto simp: counts_def)
  with c env(1) show ?thesis by (simp add: counts_def hw_ok_def disj_commute)
qed

text \<open>
  C17: \<^verbatim>\<open>rc_unregister_device\<close> of a registered device, with any number of files still open, releases all that the registration took,
  leaves the driver off, and from then on \<^verbatim>\<open>rc_open\<close> gives \<^const>\<open>ENODEV\<close> and changes nothing.
\<close>

theorem unregister_releases:
  assumes "life oc d n" "registered d" "fits oc env"
  shows "released (rc_unregister_device env d) \<and> (\<exists>k. hw_calls (rc_unregister_device env d) = hw_log k False) \<and>
    rc_open env' (rc_unregister_device env d) = (rc_unregister_device env d, Inl ENODEV)"
proof -
  from life_keeps [OF assms(1)] assms(2) have "complete d" by (simp add: life_inv_def)
  note u = unregister_counts [OF life_counts [OF life_keeps [OF assms(1)] assms(3)] fits_paired [OF assms(3)] assms(2) this]
  from u(3) counts_not_registered [OF u(1,2)] u(2) show ?thesis by (simp add: rc_open_def)
qed

section \<open>Examples\<close>

text \<open>A device with a scancode interface, a keymap of one key, and a driver that counts its users.\<close>

definition example_life :: "nat rc_life" where
  "example_life =
     (the (rc_allocate_device RC_DRIVER_SCANCODE True True 0))\<lparr>keymap := Some ''rc-one''\<rparr>"

definition example_maps :: "rc_map list" where
  "example_maps = [\<lparr>scan = [\<lparr>e_scancode = 0x107, e_keycode = 46\<rparr>], map_size = 1, map_len = 1, map_alloc = 8, map_proto = RC_PROTO_NEC,
     map_name = Some ''rc-one''\<rparr>]"

text \<open>The environment, with the result of \<^verbatim>\<open>ir_lirc_register\<close> left open.\<close>

definition example_env :: "unit result \<Rightarrow> nat life_env" where
  "example_env r =
     \<lparr>ops = \<lparr>ops_load = (\<lambda>p s. (s, p)), ops_available = (\<lambda>_. 0), ops_change = None, ops_filter = None, ops_wakeup = None\<rparr>,
      drv_open = Some (\<lambda>s. (s + 1, Inr ())), drv_close = Some (\<lambda>s. s - 1), request_map = (\<lambda>_ maps. (maps, 0)), pow2 = (\<lambda>_. 8),
      strdup = Some, alloc = (\<lambda>_ _. Some [\<lparr>e_scancode = 0xdead, e_keycode = 0xbeef\<rparr>]), ida_get = Inr 3, raw_alloc = True, dev_add = Inr (), input_register = Inr (), input_opens = True,
      lirc_register = r, raw_register_client = Inr ()\<rparr>"

lemma example_fresh: "fresh example_life"
  by (simp add: example_life_def rc_allocate_device_def fresh_def released_def)

lemma example_keys:
  "ir_setkeytable (\<lambda>_. 8) Some (\<lambda>_ _. Some [\<lparr>e_scancode = 0xdead, e_keycode = 0xbeef\<rparr>]) (keys example_life) (hd example_maps) =
     Some (\<lparr>tab = \<lparr>scan = [\<lparr>e_scancode = 0x107, e_keycode = 46\<rparr>], map_size = 1, map_len = 1, map_alloc = 8, map_proto = RC_PROTO_NEC,
       map_name = Some ''rc-one''\<rparr>, keybit = {46}, scancode_mask = 0\<rparr>, Inr ())"
  by (simp add: ir_setkeytable_def ir_create_table_def example_life_def rc_allocate_device_def example_maps_def mem_read_def Let_def
      ir_establish_scancode_def establish_loop.simps mem_set_def ir_update_mapping_def mem_get_def KEY_RESERVED_def KEY_UNKNOWN_def
      ir_resize_table_def mem_write_def keycode_in_use_def entry_size_def)

lemma example_env_simps [simp]:
  "drv_open (example_env r) = Some (\<lambda>s. (s + 1, Inr ()))" "drv_close (example_env r) = Some (\<lambda>s. s - 1)" "request_map (example_env r) = (\<lambda>_ maps. (maps, 0))"
  "pow2 (example_env r) = (\<lambda>_. 8)" "strdup (example_env r) = Some" "alloc (example_env r) = (\<lambda>_ _. Some [\<lparr>e_scancode = 0xdead, e_keycode = 0xbeef\<rparr>])"
  "ida_get (example_env r) = Inr 3" "dev_add (example_env r) = Inr ()" "input_register (example_env r) = Inr ()" "input_opens (example_env r)"
  "lirc_register (example_env r) = r" "ops_change (ops (example_env r)) = None"
  by (simp_all add: example_env_def)

lemma example_life_simps [simp]:
  "driver_type (ctl example_life) = RC_DRIVER_SCANCODE" "keymap example_life = Some ''rc-one''" "ctl_allowed (ctl example_life) = 0"
  "hw_calls example_life = []" "users example_life = 0" "input_opened example_life = False"
  by (simp_all add: example_life_def rc_allocate_device_def)

definition example_loaded :: rc_keytab where
  "example_loaded = \<lparr>tab = \<lparr>scan = [\<lparr>e_scancode = 0x107, e_keycode = 46\<rparr>], map_size = 1, map_len = 1, map_alloc = 8, map_proto = RC_PROTO_NEC,
     map_name = Some ''rc-one''\<rparr>, keybit = {46}, scancode_mask = 0\<rparr>"

definition example_ready :: "nat rc_life" where
  "example_ready = example_life\<lparr>minor := Some 3, keys := example_loaded, ctl := (ctl example_life)\<lparr>ctl_enabled := 0\<rparr>\<rparr>"

lemma example_prepared:
  "rc_prepare_rx_device (example_env r) example_maps (example_life\<lparr>minor := Some 3\<rparr>) = Some (example_maps, example_ready, Inr ())"
proof -
  have m: "seek_rc_map ''rc-one'' example_maps = Some (hd example_maps)" "scan (hd example_maps) \<noteq> []" "map_size (hd example_maps) \<noteq> 0"
    by (simp_all add: seek_rc_map_def example_maps_def)
  from m example_keys show ?thesis
    by (simp add: rc_prepare_rx_device_def rc_map_get_def set_behind_def example_loaded_def example_ready_def Let_def)
qed

lemma example_registers:
  "rc_register_device (example_env r) example_maps example_life = (let (d, rc) = register_add (example_env r) example_ready in Some (example_maps, d, rc))"
  using example_prepared [of r] by (simp add: rc_register_device_def)

lemmas example_steps =
  register_add_def register_input_def register_lirc_def rc_setup_rx_device_def input_open_def rc_open_def set_behind_def has_lirc_def
  out_rx_def out_dev_def out_rx_free_def out_raw_def out_minor_def free_keys_def rc_free_rx_device_def input_close_def rc_close_def call_close_def Let_def

lemma cec_bit: "rc_proto_bit RC_PROTO_CEC \<noteq> 0"
  by (simp add: rc_proto_bit_def)

lemma example_fails:
  "\<exists>d'. register_add (example_env (Inl ENOMEM)) example_ready = (d', Inl ENOMEM) \<and> registered d' \<and> hw_calls d' = [True, False]"
  using cec_bit by (simp add: example_ready_def example_steps)

lemma example_works:
  "\<exists>d'. register_add (example_env (Inr ())) example_ready = (d', Inr ()) \<and> registered d' \<and> users d' = 1"
  using cec_bit by (simp add: example_ready_def example_steps)

theorem failed_registration_undone_witness:
  "\<exists>d'. rc_register_device (example_env (Inl ENOMEM)) example_maps example_life = Some (example_maps, d', Inl ENOMEM) \<and>
     released d' \<and> hw_calls d' = [True, False]"
proof -
  obtain d' where d': "register_add (example_env (Inl ENOMEM)) example_ready = (d', Inl ENOMEM)" "hw_calls d' = [True, False]"
    using example_fails by blast
  then have "rc_register_device (example_env (Inl ENOMEM)) example_maps example_life = Some (example_maps, d', Inl ENOMEM)"
    by (simp add: example_registers)
  with failed_registration_undone [OF example_fresh _ this] d'(2) show ?thesis by (simp add: paired_def)
qed

lemma example_fits: "fits True (example_env r)"
  by (simp add: fits_def)

text \<open>Registered, with the input device and one file open.\<close>

lemma example_life_open: "\<exists>d :: nat rc_life. life True d 1 \<and> registered d"
proof -
  obtain d where d: "register_add (example_env (Inr ())) example_ready = (d, Inr ())" "registered d" "users d = 1"
    using example_works by blast
  then have "rc_register_device (example_env (Inr ())) example_maps example_life = Some (example_maps, d, Inr ())"
    by (simp add: example_registers)
  from life.registers [OF example_fits example_fresh this] have l: "life True d 0" .
  have o: "rc_open (example_env (Inr ())) d = (d\<lparr>users := 2\<rparr>, Inr ())" using d(2,3) by (simp add: rc_open_def Let_def)
  have "life True (d\<lparr>users := 2\<rparr>) (0 + 1)" by (rule life.file_opens [OF l example_fits _ o]) simp
  with d(2) show ?thesis by (intro exI [of _ "d\<lparr>users := 2\<rparr>"]) simp
qed

theorem driver_on_iff_used_witness:
  "\<exists>d k. life True d (1 :: nat) \<and> registered d \<and> hw_calls (d :: nat rc_life) = hw_log k True"
  using example_life_open driver_on_iff_used by fastforce

theorem unregister_releases_witness:
  "\<exists>d k. life True d (1 :: nat) \<and> registered d \<and> hw_calls (rc_unregister_device (example_env (Inr ())) d) = hw_log k False"
  using example_life_open unregister_releases [OF _ _ example_fits] by blast

text \<open>A registration that fails after \<^verbatim>\<open>device_add\<close> leaves the device marked as registered.\<close>

lemma failed_still_registered:
  "\<exists>d'. rc_register_device (example_env (Inl ENOMEM)) example_maps example_life = Some (example_maps, d', Inl ENOMEM) \<and> registered d'"
  using example_fails by (auto simp: example_registers)

end
