(* ===== verification/Dvb_Dmxdev_Read.thy ===== *)
theory Dvb_Dmxdev_Read
  imports Dvb_Ringbuffer
begin

text \<open>
  What a user reads from a demux device, \<^verbatim>\<open>dvb-core/dmxdev.c\<close>: the buffers that the callbacks fill, the loop that copies them to the user and may sleep,
  and the reading of sections, one section at most in each call.

  A buffer that is not allocated has no data. While a reader sleeps others change the buffer: the list \<open>waits\<close> says what it finds each time it is woken; when
  the list is at its end the reader sleeps on, and the call has no result yet. The bytes that the reader gets are given beside the return value.
\<close>

section \<open>The buffers\<close>

definition dvb_dmxdev_buffer_write :: "dvb_ringbuffer \<Rightarrow> u8 list \<Rightarrow> (dvb_ringbuffer \<times> int) option" where
  "dvb_dmxdev_buffer_write buf src =
     (if length src = 0 then Some (buf, 0)
      else if rb_data buf = [] then Some (buf, 0)
      else
        let free = dvb_ringbuffer_free buf in
        if int (length src) > free then Some (buf, - errno_num EOVERFLOW)
        else dvb_ringbuffer_write buf src)"

datatype wake = Signal | Changed dvb_ringbuffer

text \<open>The value of the call: the number of bytes, or the last result when there are none.\<close>

definition read_end :: "u8 list \<Rightarrow> int \<Rightarrow> u8 list \<times> int" where
  "read_end bs ret = (bs, if bs = [] then ret else int (length bs))"

text \<open>
  The loop. A buffer that is not empty has at least one byte (\<open>ring_avail_pos\<close>); a read of nothing would be repeated for ever.
\<close>

function buffer_read_loop ::
  "bool \<Rightarrow> (nat \<Rightarrow> nat \<Rightarrow> nat) \<Rightarrow> wake list \<Rightarrow> dvb_ringbuffer \<Rightarrow> nat \<Rightarrow> u8 list \<Rightarrow> (dvb_ringbuffer \<times> wake list \<times> (u8 list \<times> int) option) option" where
  "buffer_read_loop non_blocking ctu waits src todo bs =
     (if todo = 0 then Some (src, waits, Some (read_end bs 0))
      else if non_blocking \<and> dvb_ringbuffer_empty src then Some (src, waits, Some (read_end bs (- errno_num EWOULDBLOCK)))
      else if dvb_ringbuffer_empty src \<and> rb_error src = 0 then
        (case waits of
           [] \<Rightarrow> Some (src, [], None)
         | Signal # ws \<Rightarrow> Some (src, ws, Some (read_end bs (- errno_num ERESTARTSYS)))
         | Changed src # ws \<Rightarrow> buffer_read_loop non_blocking ctu ws src todo bs)
      else if rb_error src \<noteq> 0 then Some (dvb_ringbuffer_flush src, waits, Some (read_end bs (rb_error src)))
      else
        let avail = min (nat (dvb_ringbuffer_avail src)) todo in
        if avail = 0 then None
        else case dvb_ringbuffer_read_user (\<lambda>off n. ctu (length bs + off) n) src avail of
          None \<Rightarrow> None
        | Some (src, Inl e) \<Rightarrow> Some (src, waits, Some (read_end bs (- errno_num e)))
        | Some (src, Inr b) \<Rightarrow> buffer_read_loop non_blocking ctu waits src (todo - avail) (bs @ b))"
  by pat_completeness auto
termination
  by (relation "measure (\<lambda>(nb, ctu, ws, src, todo, bs). length ws + todo)") auto

declare buffer_read_loop.simps [simp del]

definition dvb_dmxdev_buffer_read ::
  "bool \<Rightarrow> (nat \<Rightarrow> nat \<Rightarrow> nat) \<Rightarrow> wake list \<Rightarrow> dvb_ringbuffer \<Rightarrow> nat \<Rightarrow> (dvb_ringbuffer \<times> wake list \<times> (u8 list \<times> int) option) option" where
  "dvb_dmxdev_buffer_read non_blocking ctu waits src count =
     (if rb_data src = [] then Some (src, waits, Some ([], 0))
      else if rb_error src \<noteq> 0 then Some (dvb_ringbuffer_flush src, waits, Some ([], rb_error src))
      else buffer_read_loop non_blocking ctu waits src count [])"

section \<open>Reading sections\<close>

text \<open>
  The header of a section is copied to the user and read back from there: \<open>cfu\<close> gives, for the bytes that were copied, whether the second copy
  faults and what it puts into \<^verbatim>\<open>secheader\<close>.
\<close>

record sec_reader =
  sr_buffer :: dvb_ringbuffer
  sr_todo :: int
  secheader :: "u8 list"

definition read_body ::
  "bool \<Rightarrow> (nat \<Rightarrow> nat \<Rightarrow> nat) \<Rightarrow> wake list \<Rightarrow> sec_reader \<Rightarrow> nat \<Rightarrow> u8 list \<Rightarrow> (sec_reader \<times> (u8 list \<times> int) option) option" where
  "read_body non_blocking ctu waits dfil count hdr =
     (let count = (if int count > sr_todo dfil then nat (sr_todo dfil) else count) in
      do {
        (rb, _, r) \<leftarrow> dvb_dmxdev_buffer_read non_blocking (\<lambda>off n. ctu (length hdr + off) n) waits (sr_buffer dfil) count;
        let dfil = dfil\<lparr>sr_buffer := rb\<rparr>;
        Some (case r of
            None \<Rightarrow> (dfil, None)
          | Some (bs, result) \<Rightarrow>
              if result < 0 then (dfil, Some (hdr @ bs, result))
              else (dfil\<lparr>sr_todo := sr_todo dfil - result\<rparr>, Some (hdr @ bs, result + int (length hdr))))
      })"

definition dvb_dmxdev_read_sec ::
  "bool \<Rightarrow> (nat \<Rightarrow> nat \<Rightarrow> nat) \<Rightarrow> (u8 list \<Rightarrow> bool \<times> u8 list) \<Rightarrow> wake list \<Rightarrow> sec_reader \<Rightarrow> nat \<Rightarrow> (sec_reader \<times> (u8 list \<times> int) option) option" where
  "dvb_dmxdev_read_sec non_blocking ctu cfu waits dfil count =
     (if sr_todo dfil \<le> 0 then
        let hcount = min (nat (3 + sr_todo dfil)) count in
        do {
          (rb, waits, r) \<leftarrow> dvb_dmxdev_buffer_read non_blocking ctu waits (sr_buffer dfil) hcount;
          let dfil = dfil\<lparr>sr_buffer := rb\<rparr>;
          case r of
            None \<Rightarrow> Some (dfil, None)
          | Some (bs, result) \<Rightarrow>
              if result < 0 then Some (dfil\<lparr>sr_todo := 0\<rparr>, Some (bs, result))
              else do {
                let (fault, hdr) = cfu bs;
                h \<leftarrow> mem_write (secheader dfil) (nat (- sr_todo dfil)) hdr;
                let dfil = dfil\<lparr>secheader := h\<rparr>;
                if fault then Some (dfil, Some (bs, - errno_num EFAULT))
                else
                  let count = count - nat result; dfil = dfil\<lparr>sr_todo := sr_todo dfil - result\<rparr> in
                  if sr_todo dfil > - 3 then Some (dfil, Some (bs, result))
                  else do {
                    h1 \<leftarrow> mem_get (secheader dfil) 1;
                    h2 \<leftarrow> mem_get (secheader dfil) 2;
                    let dfil = dfil\<lparr>sr_todo := int ((unat h1 * 256 + unat h2) mod 4096)\<rparr>;
                    if count = 0 then Some (dfil, Some (bs, result)) else read_body non_blocking ctu waits dfil count bs
                  }
              }
        }
      else read_body non_blocking ctu waits dfil count [])"

section \<open>What the buffers hold\<close>

text \<open>A buffer in use: well formed and without an error.\<close>

definition in_use :: "dvb_ringbuffer \<Rightarrow> bool" where
  "in_use rb \<longleftrightarrow> ring_inv rb \<and> rb_error rb = 0"

lemma in_use_data: "in_use rb \<Longrightarrow> rb_data rb \<noteq> []"
  by (auto simp: in_use_def ring_inv_def)

lemma ring_avail_pos: "ring_inv rb \<Longrightarrow> \<not> dvb_ringbuffer_empty rb \<Longrightarrow> 0 < ring_avail rb"
  by (metis empty_eq gr0I length_0_conv length_ring_contents)

text \<open>A write takes all or nothing.\<close>

lemma buffer_write_appends:
  assumes "in_use rb" "ring_avail rb + length bs < rb_size rb"
  shows "\<exists>rb'. dvb_dmxdev_buffer_write rb bs = Some (rb', int (length bs)) \<and> in_use rb' \<and> ring_contents rb' = ring_contents rb @ bs \<and>
    rb_size rb' = rb_size rb"
proof -
  have inv: "ring_inv rb" and data: "rb_data rb \<noteq> []" using assms(1) in_use_data by (auto simp: in_use_def)
  have w: "dvb_ringbuffer_write rb bs = Some (ring_append rb bs, int (length bs))" by (rule ring_write_put [OF inv]) (use assms(2) in simp)
  have fits: "\<not> int (length bs) > dvb_ringbuffer_free rb" using assms(2) by (simp add: free_eq [OF inv])
  show ?thesis
  proof (cases "bs = []")
    case True
    with assms(1) show ?thesis by (simp add: dvb_dmxdev_buffer_write_def)
  next
    case False
    with data fits w have "dvb_dmxdev_buffer_write rb bs = Some (ring_append rb bs, int (length bs))"
      by (simp add: dvb_dmxdev_buffer_write_def)
    moreover have "rb_error (ring_append rb bs) = rb_error rb" by (simp add: ring_append_def)
    ultimately show ?thesis using ring_inv_append [OF inv] ring_contents_append [OF inv assms(2)] assms(1) by (simp add: in_use_def)
  qed
qed

lemma buffer_write_overflow:
  assumes "in_use rb" "\<not> ring_avail rb + length bs < rb_size rb"
  shows "dvb_dmxdev_buffer_write rb bs = Some (rb, - errno_num EOVERFLOW)"
proof -
  have inv: "ring_inv rb" and data: "rb_data rb \<noteq> []" using assms(1) in_use_data by (auto simp: in_use_def)
  have "ring_avail rb < rb_size rb" by (rule ring_avail_less [OF inv])
  with assms(2) data show ?thesis by (auto simp: dvb_dmxdev_buffer_write_def free_eq [OF inv])
qed

text \<open>Any buffer, also one with an error or none at all: the write stays in its memory.\<close>

definition buffer_inv :: "dvb_ringbuffer \<Rightarrow> bool" where
  "buffer_inv rb \<longleftrightarrow> rb_data rb = [] \<or> ring_inv rb"

lemma buffer_write_safe:
  assumes "buffer_inv rb"
  shows "\<exists>rb' r. dvb_dmxdev_buffer_write rb bs = Some (rb', r) \<and> buffer_inv rb' \<and> rb_size rb' = rb_size rb \<and> rb_error rb' = rb_error rb"
proof (cases "rb_data rb = [] \<or> bs = [] \<or> int (length bs) > dvb_ringbuffer_free rb")
  case True
  with assms show ?thesis by (auto simp: dvb_dmxdev_buffer_write_def)
next
  case False
  with assms have inv: "ring_inv rb" by (simp add: buffer_inv_def)
  have "length bs \<le> rb_size rb" using False by (simp add: free_eq [OF inv])
  with False inv ring_inv_append [OF inv] show ?thesis
    by (simp add: dvb_dmxdev_buffer_write_def ring_write_put [OF inv] buffer_inv_def) (simp add: ring_append_def)
qed

text \<open>A reader that does not have to sleep gets as much as there is.\<close>

lemma read_user_all:
  assumes "ring_inv rb" "n \<le> ring_avail rb"
  shows "\<exists>rb'. dvb_ringbuffer_read_user (\<lambda>_ _. 0) rb n = Some (rb', Inr (take n (ring_contents rb))) \<and> ring_inv rb' \<and>
    ring_contents rb' = drop n (ring_contents rb) \<and> rb_error rb' = rb_error rb \<and> rb_size rb' = rb_size rb"
proof -
  have "n < rb_size rb" using ring_avail_less [OF assms(1)] assms(2) by simp
  then have "dvb_ringbuffer_read rb n = Some (rb\<lparr>pread := (pread rb + n) mod rb_size rb\<rparr>, take n (ring_contents rb))"
    using ring_read_slice [OF assms(1), of n] take_ring_contents [OF assms(2)] by simp
  then show ?thesis
    using ring_inv_read [OF assms(1)] ring_contents_skip [OF assms] by (simp add: read_user_ok)
qed

lemma buffer_read_now:
  assumes "in_use rb" "nb \<or> count \<le> ring_avail rb" "0 < count" "ring_contents rb \<noteq> []"
  shows "\<exists>rb'. dvb_dmxdev_buffer_read nb (\<lambda>_ _. 0) ws rb count =
      Some (rb', ws, Some (take count (ring_contents rb), int (min count (ring_avail rb)))) \<and>
    in_use rb' \<and> ring_contents rb' = drop count (ring_contents rb) \<and> rb_size rb' = rb_size rb"
proof -
  let ?n = "min (ring_avail rb) count"
  have inv: "ring_inv rb" and e: "rb_error rb = 0" and data: "rb_data rb \<noteq> []" using assms(1) in_use_data by (auto simp: in_use_def)
  have ne: "\<not> dvb_ringbuffer_empty rb" using empty_eq [OF inv] assms(4) by simp
  have pos: "0 < ring_avail rb" by (rule ring_avail_pos [OF inv ne])
  obtain rb' where r: "dvb_ringbuffer_read_user (\<lambda>_ _. 0) rb ?n = Some (rb', Inr (take ?n (ring_contents rb)))" "ring_inv rb'"
    "ring_contents rb' = drop ?n (ring_contents rb)" "rb_error rb' = rb_error rb" "rb_size rb' = rb_size rb"
    using read_user_all [OF inv, of ?n] by auto
  have min0: "?n \<noteq> 0" using pos assms(3) by simp
  have step: "dvb_dmxdev_buffer_read nb (\<lambda>_ _. 0) ws rb count =
    buffer_read_loop nb (\<lambda>_ _. 0) ws rb' (count - ?n) (take ?n (ring_contents rb))"
    using data e ne pos assms(3) r(1)
    by (simp add: dvb_dmxdev_buffer_read_def buffer_read_loop.simps [of nb _ ws rb] avail_eq [OF inv] Let_def) (use min0 in blast)
  have len: "length (take ?n (ring_contents rb)) = min count (ring_avail rb)" and ne': "take ?n (ring_contents rb) \<noteq> []"
    using pos assms(3,4) by auto
  have t: "take ?n (ring_contents rb) = take count (ring_contents rb)" by (cases "ring_avail rb \<le> count") simp_all
  have "dvb_dmxdev_buffer_read nb (\<lambda>_ _. 0) ws rb count = Some (rb', ws, Some (take count (ring_contents rb), int (min count (ring_avail rb))))"
  proof (cases "count \<le> ring_avail rb")
    case True
    with step len ne' t show ?thesis by (simp add: buffer_read_loop.simps read_end_def)
  next
    case False
    then have "ring_contents rb' = []" using r(3) by simp
    then have "dvb_ringbuffer_empty rb'" using empty_eq [OF r(2)] by simp
    with False assms(2) step len ne' t show ?thesis by (simp add: buffer_read_loop.simps read_end_def)
  qed
  moreover have "drop ?n (ring_contents rb) = drop count (ring_contents rb)" by (cases "ring_avail rb \<le> count") simp_all
  ultimately show ?thesis using r(2-5) e by (simp add: in_use_def)
qed

lemma buffer_read_empty:
  assumes "in_use rb" "0 < count" "ring_contents rb = []"
  shows "dvb_dmxdev_buffer_read True ctu ws rb count = Some (rb, ws, Some ([], - errno_num EWOULDBLOCK))"
  using assms in_use_data [OF assms(1)]
  by (simp add: dvb_dmxdev_buffer_read_def buffer_read_loop.simps in_use_def empty_eq read_end_def)

lemma buffer_read_none: "in_use rb \<Longrightarrow> dvb_dmxdev_buffer_read nb ctu ws rb 0 = Some (rb, ws, Some ([], 0))"
  using in_use_data by (simp add: dvb_dmxdev_buffer_read_def buffer_read_loop.simps in_use_def read_end_def)

section \<open>Sections in the buffer\<close>

text \<open>A section as its header announces it.\<close>

definition sec_sized :: "u8 list \<Rightarrow> bool" where
  "sec_sized s \<longleftrightarrow> 3 \<le> length s \<and> length s = 3 + (unat (s ! 1) * 256 + unat (s ! 2)) mod 4096"

text \<open>
  The reader is in the middle of a section of which \<open>rest\<close> is left, or between two sections (\<open>rest\<close> is empty). What it has read of a header is in
  \<^const>\<open>secheader\<close>, \<^const>\<open>sr_todo\<close> is minus the number of these bytes; after the header it is what is left.
\<close>

definition reads_on :: "sec_reader \<Rightarrow> u8 list \<Rightarrow> bool" where
  "reads_on d rest \<longleftrightarrow>
     (if 0 < sr_todo d then sr_todo d = int (length rest)
      else rest = [] \<and> sr_todo d = 0 \<or> - 3 < sr_todo d \<and> sec_sized (take (nat (- sr_todo d)) (secheader d) @ rest))"

definition sec_holds :: "sec_reader \<Rightarrow> u8 list \<Rightarrow> u8 list list \<Rightarrow> bool" where
  "sec_holds d rest secs \<longleftrightarrow> in_use (sr_buffer d) \<and> length (secheader d) = 3 \<and> ring_contents (sr_buffer d) = rest @ concat secs \<and>
     (\<forall>s \<in> set secs. sec_sized s) \<and> reads_on d rest"

lemma sec_holds_next: "sec_holds d [] (s # secs) \<Longrightarrow> sr_todo d = 0 \<Longrightarrow> sec_holds d s secs"
  by (simp add: sec_holds_def reads_on_def)

lemma sec_holds_idle: "sec_holds d [] secs \<Longrightarrow> sr_todo d = 0"
  by (auto simp: sec_holds_def reads_on_def sec_sized_def split: if_splits)

text \<open>The body: at most what is left of the section.\<close>

lemma read_body_rest:
  assumes "in_use (sr_buffer d)" "ring_contents (sr_buffer d) = rest @ later" "sr_todo d = int (length rest)" "0 < count"
  shows "\<exists>d'. read_body nb (\<lambda>_ _. 0) ws d count hdr = Some (d', Some (hdr @ take count rest, int (length hdr + min count (length rest)))) \<and>
    in_use (sr_buffer d') \<and> ring_contents (sr_buffer d') = drop count rest @ later \<and> secheader d' = secheader d \<and>
    sr_todo d' = int (length rest - min count (length rest)) \<and> rb_size (sr_buffer d') = rb_size (sr_buffer d)"
proof (cases "rest = []")
  case True
  with assms(1-3) show ?thesis by (simp add: read_body_def buffer_read_none)
next
  case False
  let ?n = "min count (length rest)"
  have c: "(if int count > sr_todo d then nat (sr_todo d) else count) = ?n" using assms(3) by auto
  have av: "?n \<le> ring_avail (sr_buffer d)" using arg_cong [where f = length, OF assms(2)] by simp
  have pos: "0 < ?n" "ring_contents (sr_buffer d) \<noteq> []" using False assms(2,4) by auto
  have t: "take ?n rest = take count rest" "drop ?n rest = drop count rest" by (simp_all add: min_def)
  from buffer_read_now [OF assms(1) disjI2 [OF av] pos, of nb ws] obtain rb' where
    "dvb_dmxdev_buffer_read nb (\<lambda>_ _. 0) ws (sr_buffer d) ?n = Some (rb', ws, Some (take count rest, int ?n))"
    "in_use rb'" "ring_contents rb' = drop count rest @ later" "rb_size rb' = rb_size (sr_buffer d)"
    using av t by (auto simp: assms(2) min_absorb1)
  with c assms(3) show ?thesis by (auto simp: read_body_def Let_def of_nat_diff)
qed

lemma reads_on_left: "sr_todo d = int (length rest) \<Longrightarrow> reads_on d rest"
  by (simp add: reads_on_def)

lemma take_drop_parts: "h \<le> n \<Longrightarrow> take h xs @ take (n - h) (drop h xs) = take n xs"
  by (metis le_add_diff_inverse take_add)

text \<open>One call of the user, in the middle of a section or at its start.\<close>

lemma read_header:
  assumes h: "sec_holds d rest secs" "rest \<noteq> []" "sr_todo d \<le> 0" and c: "0 < count"
  shows "\<exists>d'. dvb_dmxdev_read_sec nb (\<lambda>_ _. 0) (\<lambda>bs. (False, bs)) ws d count = Some (d', Some (take count rest, int (min count (length rest)))) \<and>
    sec_holds d' (drop count rest) secs \<and> rb_size (sr_buffer d') = rb_size (sr_buffer d)"
proof -
  define k where "k = nat (- sr_todo d)"
  define h where "h = min (3 - k) count"
  let ?pre = "take k (secheader d)" and ?later = "concat secs"
  have td: "sr_todo d = - int k" "k < 3" and sized: "sec_sized (?pre @ rest)"
    using h by (auto simp: k_def sec_holds_def reads_on_def)
  have b: "in_use (sr_buffer d)" "length (secheader d) = 3" "ring_contents (sr_buffer d) = rest @ ?later" "\<forall>s \<in> set secs. sec_sized s"
    using h(1) by (simp_all add: sec_holds_def)
  have hc: "min (nat (3 + sr_todo d)) count = h" by (simp add: h_def td nat_diff_distrib)
  have hr: "h \<le> length rest" "0 < h" "h \<le> count" "k + h \<le> 3" using sized b(2) td(2) c by (auto simp: sec_sized_def h_def)
  have av: "h \<le> ring_avail (sr_buffer d)" using arg_cong [where f = length, OF b(3)] hr(1) by simp
  from buffer_read_now [OF b(1) disjI2 [OF av] hr(2), of nb ws] obtain rb where
    r: "dvb_dmxdev_buffer_read nb (\<lambda>_ _. 0) ws (sr_buffer d) h = Some (rb, ws, Some (take h rest, int h))"
    "in_use rb" "ring_contents rb = drop h rest @ ?later" "rb_size rb = rb_size (sr_buffer d)"
    using av hr(1) h(2) b(3) by (auto simp: min_absorb1)
  define H where "H = ?pre @ take h rest @ drop (k + h) (secheader d)"
  have w: "mem_write (secheader d) (nat (- sr_todo d)) (take h rest) = Some H" and lenH: "length H = 3"
    using hr b(2) td(2) by (simp_all add: mem_write_def H_def td(1))
  have Hk: "take (k + h) H = ?pre @ take h rest" using b(2) td(2) hr(1,4) by (simp add: H_def)
  let ?d = "d\<lparr>sr_buffer := rb, secheader := H, sr_todo := - int (k + h)\<rparr>"
  show ?thesis
  proof (cases "k + h = 3")
    case False
    then have ch: "h = count" using hr(4) by (auto simp: h_def)
    have "dvb_dmxdev_read_sec nb (\<lambda>_ _. 0) (\<lambda>bs. (False, bs)) ws d count = Some (?d, Some (take h rest, int h))"
      using h(3) r(1) w False hr(4) by (simp add: dvb_dmxdev_read_sec_def hc td(1) [symmetric]) (simp add: td(1))
    moreover have "sec_holds ?d (drop h rest) secs"
      using r(2,3) lenH b(4) sized Hk Hk [unfolded add.commute [of k h]] hr False by (simp add: sec_holds_def reads_on_def nat_add_distrib)
    ultimately show ?thesis using hr(1) ch r(4) by (intro exI [of _ ?d]) (simp add: min_absorb1)
  next
    case True
    have hk: "3 - k = h" using True by simp
    have H3: "H = take 3 (?pre @ rest)" using True hr(1) b(2) td(2) by (simp add: H_def hk)
    have H12: "H ! 1 = (?pre @ rest) ! 1" "H ! 2 = (?pre @ rest) ! 2" unfolding H3 by (rule nth_take, simp)+
    let ?L = "(unat (H ! 1) * 256 + unat (H ! 2)) mod 4096"
    have L: "?L = length (drop h rest)" using sized True b(2) td(2) unfolding H12 by (auto simp: sec_sized_def)
    let ?e = "?d\<lparr>sr_todo := int (length (drop h rest))\<rparr>"
    have step: "dvb_dmxdev_read_sec nb (\<lambda>_ _. 0) (\<lambda>bs. (False, bs)) ws d count =
      (if count - h = 0 then Some (?e, Some (take h rest, int h)) else read_body nb (\<lambda>_ _. 0) ws ?e (count - h) (take h rest))"
      using h(3) r(1) w True lenH L by (simp add: dvb_dmxdev_read_sec_def hc td(1) [symmetric]) (simp add: td(1) mem_get_def)
    show ?thesis
    proof (cases "count - h = 0")
      case True
      have "sec_holds ?e (drop h rest) secs" using r(2,3) lenH b(4) by (simp add: sec_holds_def reads_on_left)
      with True step hr r(4) show ?thesis by (intro exI [of _ ?e]) (simp add: min_absorb1)
    next
      case False
      from read_body_rest [of ?e "drop h rest" ?later "count - h" nb ws "take h rest"] False r(2,3) obtain d' where
        d': "read_body nb (\<lambda>_ _. 0) ws ?e (count - h) (take h rest) =
            Some (d', Some (take h rest @ take (count - h) (drop h rest), int (length (take h rest) + min (count - h) (length (drop h rest)))))"
          "in_use (sr_buffer d')" "ring_contents (sr_buffer d') = drop (count - h) (drop h rest) @ ?later" "secheader d' = H"
          "sr_todo d' = int (length (drop h rest) - min (count - h) (length (drop h rest)))" "rb_size (sr_buffer d') = rb_size rb"
        by auto
      have "sec_holds d' (drop count rest) secs" using d' lenH b(4) hr(3) by (simp add: sec_holds_def reads_on_left min_def)
      moreover have "length (take h rest) + min (count - h) (length (drop h rest)) = min count (length rest)" using hr(1,3) by auto
      moreover have "take h rest @ take (count - h) (drop h rest) = take count rest" by (rule take_drop_parts [OF hr(3)])
      ultimately show ?thesis using False step d'(1,6) r(4) by (intro exI [of _ d']) simp
    qed
  qed
qed

lemma read_sec_chunk:
  assumes "sec_holds d rest secs" "rest \<noteq> []" "0 < count"
  shows "\<exists>d'. dvb_dmxdev_read_sec nb (\<lambda>_ _. 0) (\<lambda>bs. (False, bs)) ws d count = Some (d', Some (take count rest, int (min count (length rest)))) \<and>
    sec_holds d' (drop count rest) secs \<and> rb_size (sr_buffer d') = rb_size (sr_buffer d)"
proof (cases "sr_todo d \<le> 0")
  case True
  from read_header [OF assms(1,2) True assms(3)] show ?thesis .
next
  case False
  then have t: "sr_todo d = int (length rest)" "in_use (sr_buffer d)" "ring_contents (sr_buffer d) = rest @ concat secs"
    using assms(1) by (auto simp: sec_holds_def reads_on_def)
  from read_body_rest [OF t(2,3,1) assms(3), of nb ws "[]"] obtain d' where
    d': "read_body nb (\<lambda>_ _. 0) ws d count [] = Some (d', Some (take count rest, int (min count (length rest))))"
      "in_use (sr_buffer d')" "ring_contents (sr_buffer d') = drop count rest @ concat secs" "secheader d' = secheader d"
      "sr_todo d' = int (length rest - min count (length rest))" "rb_size (sr_buffer d') = rb_size (sr_buffer d)" by auto
  have "sec_holds d' (drop count rest) secs"
    using d' assms(1) by (simp add: sec_holds_def reads_on_left min_def)
  with d'(1,6) False show ?thesis by (simp add: dvb_dmxdev_read_sec_def)
qed

lemma read_sec_empty:
  assumes "sec_holds d [] []" "0 < count"
  shows "dvb_dmxdev_read_sec True ctu cfu ws d count = Some (d, Some ([], - errno_num EWOULDBLOCK))"
proof -
  have t: "sr_todo d = 0" by (rule sec_holds_idle [OF assms(1)])
  moreover have "in_use (sr_buffer d)" "ring_contents (sr_buffer d) = []" using assms(1) by (simp_all add: sec_holds_def)
  moreover have "d\<lparr>sr_buffer := sr_buffer d, sr_todo := 0\<rparr> = d" using t by (cases d) simp
  ultimately show ?thesis using assms(2) by (simp add: dvb_dmxdev_read_sec_def buffer_read_empty)
qed

text \<open>A user who reads again and again, and what the sections give.\<close>

fun read_all :: "nat list \<Rightarrow> sec_reader \<Rightarrow> (sec_reader \<times> (u8 list \<times> int) list) option" where
  "read_all [] d = Some (d, [])"
| "read_all (n # ns) d = do {
     (d, r) \<leftarrow> dvb_dmxdev_read_sec True (\<lambda>_ _. 0) (\<lambda>bs. (False, bs)) [] d n;
     (d, rs) \<leftarrow> read_all ns d;
     Some (d, (case r of None \<Rightarrow> rs | Some x \<Rightarrow> x # rs))
   }"

fun give_all :: "nat list \<Rightarrow> u8 list list \<Rightarrow> u8 list list \<times> (u8 list \<times> int) list" where
  "give_all [] secs = (secs, [])"
| "give_all (n # ns) [] = (let (left, rs) = give_all ns [] in (left, ([], - errno_num EWOULDBLOCK) # rs))"
| "give_all (n # ns) (s # secs) =
     (let (left, rs) = give_all ns (if n < length s then drop n s # secs else secs) in (left, (take n s, int (min n (length s))) # rs))"

definition sec_holds_all :: "sec_reader \<Rightarrow> u8 list list \<Rightarrow> bool" where
  "sec_holds_all d q \<longleftrightarrow> (\<exists>rest secs. sec_holds d rest secs \<and> q = (if rest = [] then secs else rest # secs))"

lemma sec_sized_ne: "sec_sized s \<Longrightarrow> s \<noteq> []"
  by (auto simp: sec_sized_def)

lemma sec_holds_all_cases:
  assumes "sec_holds_all d q"
  obtains "q = []" "sec_holds d [] []" | s secs where "q = s # secs" "s \<noteq> []" "sec_holds d s secs"
proof -
  from assms obtain rest secs where h: "sec_holds d rest secs" "q = (if rest = [] then secs else rest # secs)" by (auto simp: sec_holds_all_def)
  show ?thesis
  proof (cases rest)
    case (Cons x xs)
    with h that(2) [of rest secs] show ?thesis by simp
  next
    case Nil
    show ?thesis
    proof (cases secs)
      case Nil
      with h \<open>rest = []\<close> that(1) show ?thesis by simp
    next
      case (Cons s ss)
      have "s \<noteq> []" using h(1) Cons sec_sized_ne by (auto simp: sec_holds_def)
      moreover have "sec_holds d s ss" using h(1) Cons \<open>rest = []\<close> sec_holds_idle sec_holds_next by blast
      ultimately show ?thesis using h(2) Cons \<open>rest = []\<close> that(2) by simp
    qed
  qed
qed

lemma read_all_gives:
  assumes "sec_holds_all d q" "\<forall>n \<in> set ns. 0 < n"
  shows "\<exists>d'. read_all ns d = Some (d', snd (give_all ns q)) \<and> sec_holds_all d' (fst (give_all ns q))"
  using assms
proof (induction ns arbitrary: d q)
  case (Cons n ns)
  from Cons.prems(1) show ?case
  proof (cases rule: sec_holds_all_cases)
    case 1
    then have r: "dvb_dmxdev_read_sec True (\<lambda>_ _. 0) (\<lambda>bs. (False, bs)) [] d n = Some (d, Some ([], - errno_num EWOULDBLOCK))"
      using Cons.prems(2) by (simp add: read_sec_empty)
    from Cons.IH [of d "[]"] 1 Cons.prems show ?thesis by (auto simp: r split: prod.splits)
  next
    case (2 s secs)
    obtain d1 where d1: "dvb_dmxdev_read_sec True (\<lambda>_ _. 0) (\<lambda>bs. (False, bs)) [] d n = Some (d1, Some (take n s, int (min n (length s))))"
      "sec_holds d1 (drop n s) secs" using read_sec_chunk [OF 2(3,2), of n True "[]"] Cons.prems(2) by auto
    have "sec_holds_all d1 (if n < length s then drop n s # secs else secs)" 
    proof (cases "n < length s")
      case True
      with d1(2) show ?thesis by (auto simp: sec_holds_all_def intro: exI [of _ "drop n s"])
    next
      case False
      with d1(2) show ?thesis by (auto simp: sec_holds_all_def intro: exI [of _ "[]"])
    qed
    from Cons.IH [OF this] Cons.prems(2) 2(1) d1(1) show ?thesis by (auto split: prod.splits)
  qed
qed simp

section \<open>Properties\<close>

text \<open>
  C4: Reading sections. Whatever the sizes of the buffers a user gives to successive calls, the calls give the sections in the order in which they were
  stored, byte for byte; no call gives bytes of two sections, a buffer that is large enough gets a whole section, a section that does not fit
  goes on in the next call, and when there is none the call fails with \<^const>\<open>EWOULDBLOCK\<close>.
\<close>

theorem section_reads:
  assumes "sec_holds d [] secs" "\<forall>n \<in> set ns. 0 < n"
  shows "\<exists>d'. read_all ns d = Some (d', snd (give_all ns secs)) \<and> sec_holds_all d' (fst (give_all ns secs))"
proof -
  have "sec_holds_all d secs" using assms(1) by (auto simp: sec_holds_all_def intro: exI [of _ "[]"])
  from read_all_gives [OF this assms(2)] show ?thesis .
qed

text \<open>
  C9: An error in the middle of a section. When the buffer has overflown (or the filter has timed out) while a user has read a part of a section, the next read
  gives the error and throws the buffer away, but what is left of the section, which will never come, is still counted: of the next section that arrives
  the user gets only so many bytes, however large a buffer it offers, and the rest of that section will be taken for a header.
\<close>

theorem error_desyncs_reader:
  assumes "0 < sr_todo d" "rb_data (sr_buffer d) \<noteq> []" "rb_error (sr_buffer d) < 0"
    and "in_use rb" "ring_contents rb = s @ later" "sr_todo d \<le> int (length s)" "length s \<le> count"
  shows "\<exists>d1. dvb_dmxdev_read_sec True (\<lambda>_ _. 0) cfu [] d n = Some (d1, Some ([], rb_error (sr_buffer d))) \<and> dvb_ringbuffer_empty (sr_buffer d1) \<and>
    (\<exists>d2. dvb_dmxdev_read_sec True (\<lambda>_ _. 0) cfu [] (d1\<lparr>sr_buffer := rb\<rparr>) count =
       Some (d2, Some (take (nat (sr_todo d)) s, sr_todo d)) \<and> sr_todo d2 = 0 \<and> ring_contents (sr_buffer d2) = drop (nat (sr_todo d)) s @ later)"
proof -
  let ?d1 = "d\<lparr>sr_buffer := dvb_ringbuffer_flush (sr_buffer d)\<rparr>" and ?rest = "take (nat (sr_todo d)) s"
  have r1: "dvb_dmxdev_read_sec True (\<lambda>_ _. 0) cfu [] d n = Some (?d1, Some ([], rb_error (sr_buffer d)))"
    using assms(1-3) by (simp add: dvb_dmxdev_read_sec_def read_body_def dvb_dmxdev_buffer_read_def Let_def)
  have c: "ring_contents (sr_buffer (?d1\<lparr>sr_buffer := rb\<rparr>)) = ?rest @ (drop (nat (sr_todo d)) s @ later)" using assms(5) by simp
  have l: "sr_todo (?d1\<lparr>sr_buffer := rb\<rparr>) = int (length ?rest)" using assms(1,6) by simp
  have n: "0 < count" "length ?rest \<le> count" "length ?rest = nat (sr_todo d)" using assms(1,6,7) by simp_all
  from read_body_rest [OF _ c l n(1), of True "[]" "[]"] assms(4) obtain d2 where
    "read_body True (\<lambda>_ _. 0) [] (?d1\<lparr>sr_buffer := rb\<rparr>) count [] = Some (d2, Some (take count ?rest, int (min count (length ?rest))))"
    "ring_contents (sr_buffer d2) = drop count ?rest @ drop (nat (sr_todo d)) s @ later" "sr_todo d2 = int (length ?rest - min count (length ?rest))"
    by auto
  then have "dvb_dmxdev_read_sec True (\<lambda>_ _. 0) cfu [] (?d1\<lparr>sr_buffer := rb\<rparr>) count = Some (d2, Some (?rest, sr_todo d))"
    "sr_todo d2 = 0" "ring_contents (sr_buffer d2) = drop (nat (sr_todo d)) s @ later"
    using assms(1) n by (simp_all add: dvb_dmxdev_read_sec_def)
  with r1 show ?thesis by (intro exI [of _ ?d1]) (simp add: dvb_ringbuffer_flush_def dvb_ringbuffer_empty_def)
qed

text \<open>A buffer of 16 bytes with two sections of 3 and 5 bytes, the second one wrapping around, read in portions of 2, 9, 9 and 9 bytes.\<close>

definition example_reader :: sec_reader where
  "example_reader = \<lparr>sr_buffer = \<lparr>rb_data = [0x73, 0, 2, 7, 8, 0, 0, 0, 0, 0, 0, 0, 0, 0x72, 0, 0], rb_size = 16, pread = 13, pwrite = 5, rb_error = 0\<rparr>,
     sr_todo = 0, secheader = [1, 2, 3]\<rparr>"

lemma example_reader_holds: "sec_holds example_reader [] [[0x72, 0, 0], [0x73, 0, 2, 7, 8]]"
  by (simp add: sec_holds_def in_use_def ring_inv_def example_reader_def ring_contents_def ring_slice_def ring_avail_def sec_sized_def reads_on_def
      upt_conv_Cons)

theorem section_reads_witness:
  "\<exists>d'. read_all [2, 9, 9, 9] example_reader =
     Some (d', [([0x72, 0], 2), ([0], 1), ([0x73, 0, 2, 7, 8], 5), ([], - 11)])"
  using section_reads [OF example_reader_holds, of "[2, 9, 9, 9]"] by auto

text \<open>A user has read the header of a section of 7 bytes when the buffer overflows; the next section has 5 bytes.\<close>

theorem error_desyncs_reader_witness:
  "\<exists>d1 d2. dvb_dmxdev_read_sec True (\<lambda>_ _. 0) (\<lambda>bs. (False, bs)) []
      (example_reader\<lparr>sr_buffer := (sr_buffer example_reader)\<lparr>rb_error := - 75\<rparr>, sr_todo := 4\<rparr>) 100 = Some (d1, Some ([], - 75)) \<and>
    dvb_dmxdev_read_sec True (\<lambda>_ _. 0) (\<lambda>bs. (False, bs)) [] (d1\<lparr>sr_buffer := (sr_buffer example_reader)\<lparr>pread := 0\<rparr>\<rparr>) 100 =
      Some (d2, Some ([0x73, 0, 2, 7], 4))"
proof -
  have u: "in_use ((sr_buffer example_reader)\<lparr>pread := 0\<rparr>)" by (simp add: in_use_def ring_inv_def example_reader_def)
  have c: "ring_contents ((sr_buffer example_reader)\<lparr>pread := 0\<rparr>) = [0x73, 0, 2, 7, 8] @ []"
    by (simp add: example_reader_def ring_contents_def ring_slice_def ring_avail_def upt_conv_Cons)
  from error_desyncs_reader [where d = "example_reader\<lparr>sr_buffer := (sr_buffer example_reader)\<lparr>rb_error := - 75\<rparr>, sr_todo := 4\<rparr>"
      and cfu = "\<lambda>bs. (False, bs)" and n = 100, OF _ _ _ u c, of 100]
  show ?thesis by (auto simp: example_reader_def)
qed

end
