(* ===== verification/Dvb_Section.thy ===== *)
theory Dvb_Section
  imports Kernel_Prelude
begin

text \<open>
  The software section filter of \<^verbatim>\<open>dvb-core/dvb_demux.c\<close>: one feed collects the payload of the transport
  stream packets of its PID in a buffer, cuts it into sections and hands the sections that match a filter to the client.

  The buffer is a list of bytes and the pointer \<^verbatim>\<open>secbuf\<close> an offset into it; an access outside the buffer
  is \<^const>\<open>None\<close>. The filters of a demux are an array, and the chain of filters of a feed is the list of their indices
  (\<^verbatim>\<open>filter\<close> and \<^verbatim>\<open>next\<close>). The 16 bit positions in the buffer are natural numbers: the checks of the code keep them below
  \<^verbatim>\<open>DMX_MAX_SECFEED_SIZE\<close>. The client that registered the callbacks is a parameter: it has a state of any type \<open>'c\<close>,
  and a callback gets the data, the buffer flags and the client's state, and returns its return value, the new flags and
  the new state of the client.
\<close>

section \<open>Data\<close>

definition DVB_DEMUX_MASK_MAX :: nat where "DVB_DEMUX_MASK_MAX = 18"
definition DMX_MAX_SECTION_SIZE :: nat where "DMX_MAX_SECTION_SIZE = 4096"
definition DMX_MAX_SECFEED_SIZE :: nat where "DMX_MAX_SECFEED_SIZE = DMX_MAX_SECTION_SIZE + 188"

definition DMX_BUFFER_FLAG_HAD_CRC32_DISCARD :: u32 where "DMX_BUFFER_FLAG_HAD_CRC32_DISCARD = push_bit 0 1"
definition DMX_BUFFER_FLAG_TEI :: u32 where "DMX_BUFFER_FLAG_TEI = push_bit 1 1"
definition DMX_BUFFER_PKT_COUNTER_MISMATCH :: u32 where "DMX_BUFFER_PKT_COUNTER_MISMATCH = push_bit 2 1"
definition DMX_BUFFER_FLAG_DISCONTINUITY_DETECTED :: u32 where "DMX_BUFFER_FLAG_DISCONTINUITY_DETECTED = push_bit 3 1"
definition DMX_BUFFER_FLAG_DISCONTINUITY_INDICATOR :: u32 where "DMX_BUFFER_FLAG_DISCONTINUITY_INDICATOR = push_bit 4 1"

definition TS_PACKET :: u32 where "TS_PACKET = 1"
definition TS_PAYLOAD_ONLY :: u32 where "TS_PAYLOAD_ONLY = 2"
definition TS_DECODER :: u32 where "TS_DECODER = 4"
definition TS_DEMUX :: u32 where "TS_DEMUX = 8"

datatype dvb_dmx_filter_type = DMX_TYPE_TS | DMX_TYPE_SEC

datatype dvb_dmx_state = DMX_STATE_FREE | DMX_STATE_ALLOCATED | DMX_STATE_READY | DMX_STATE_GO

record dvb_demux_filter =
  filter_value :: "u8 list"
  filter_mask :: "u8 list"
  filter_mode :: "u8 list"
  maskandmode :: "u8 list"
  maskandnotmode :: "u8 list"
  doneq :: bool
  flt_feed :: nat
  flt_state :: dvb_dmx_state
  flt_type :: dvb_dmx_filter_type

record dvb_demux_feed =
  is_filtering :: bool
  check_crc :: bool
  crc_val :: u32
  secbuf :: nat
  secbuf_base :: "u8 list"
  secbufp :: nat
  seclen :: nat
  tsfeedp :: nat
  feed_type :: dvb_dmx_filter_type
  feed_state :: dvb_dmx_state
  feed_pid :: u16
  feed_filter :: "nat list"
  buffer_flags :: u32
  ts_type :: u32
  pes_type :: nat
  feed_cc :: u8
  pusi_seen :: bool
  peslen :: u16
  feed_index :: nat

text \<open>The functions a demux calls: the callbacks of its clients, the decoder of a full-featured card, and the CRC of the kernel.\<close>

record 'c dmx_env =
  cb_ts :: "nat \<Rightarrow> u8 list \<Rightarrow> u32 \<Rightarrow> 'c \<Rightarrow> int \<times> u32 \<times> 'c"
  cb_sec :: "nat \<Rightarrow> u8 list \<Rightarrow> u32 \<Rightarrow> 'c \<Rightarrow> int \<times> u32 \<times> 'c"
  write_to_decoder :: "(nat \<Rightarrow> u8 list \<Rightarrow> 'c \<Rightarrow> 'c) option"
  crc32_be :: "u32 \<Rightarrow> u8 list \<Rightarrow> u32"

definition set_buf_flags :: "dvb_demux_feed \<Rightarrow> u32 \<Rightarrow> dvb_demux_feed" where
  "set_buf_flags feed flag = feed\<lparr>buffer_flags := buffer_flags feed OR flag\<rparr>"

section \<open>Packets\<close>

definition section_length :: "u8 \<Rightarrow> u8 \<Rightarrow> nat" where
  "section_length b1 b2 = 3 + unat (b1 AND 0x0f) * 2 ^ 8 + unat b2"

definition ts_pid :: "u8 list \<Rightarrow> u16 option" where
  "ts_pid buf = do {
     b1 \<leftarrow> mem_get buf 1;
     b2 \<leftarrow> mem_get buf 2;
     Some (push_bit 8 (ucast (b1 AND 0x1f)) + ucast b2)
   }"

definition payload :: "u8 list \<Rightarrow> nat option" where
  "payload tsp = do {
     b3 \<leftarrow> mem_get tsp 3;
     if b3 AND 0x10 = 0 then Some 0
     else if b3 AND 0x20 \<noteq> 0 then do {
       b4 \<leftarrow> mem_get tsp 4;
       if b4 > 183 then Some 0 else Some (184 - 1 - unat b4)
     } else Some 184
   }"

definition dvb_dmx_crc32 :: "'c dmx_env \<Rightarrow> dvb_demux_feed \<Rightarrow> u8 list \<Rightarrow> dvb_demux_feed \<times> u32" where
  "dvb_dmx_crc32 env f src = (let v = crc32_be env (crc_val f) src in (f\<lparr>crc_val := v\<rparr>, v))"

definition dvb_dmx_memcopy :: "u8 list \<Rightarrow> nat \<Rightarrow> u8 list \<Rightarrow> u8 list option" where
  "dvb_dmx_memcopy mem d s = mem_write mem d s"

definition dvb_dmx_swfilter_payload ::
  "'c dmx_env \<Rightarrow> dvb_demux_feed \<Rightarrow> 'c \<Rightarrow> u8 list \<Rightarrow> (dvb_demux_feed \<times> 'c \<times> int) option" where
  "dvb_dmx_swfilter_payload env feed c buf = do {
     count \<leftarrow> payload buf;
     if count = 0 then Some (feed, c, -1)
     else do {
       b3 \<leftarrow> mem_get buf 3;
       let cc = b3 AND 0x0f;
       let ccok = ((feed_cc feed + 1) AND 0x0f = cc);
       let feed = feed\<lparr>feed_cc := cc\<rparr>;
       let feed = (if \<not> ccok then set_buf_flags feed DMX_BUFFER_FLAG_DISCONTINUITY_DETECTED else feed);
       b1 \<leftarrow> mem_get buf 1;
       let feed = (if b1 AND 0x40 \<noteq> 0 then feed\<lparr>peslen := 0xfffa\<rparr> else feed);
       let feed = feed\<lparr>peslen := peslen feed + of_nat count\<rparr>;
       bs \<leftarrow> mem_read buf (188 - count) count;
       let (r, flags, c) = cb_ts env (feed_index feed) bs (buffer_flags feed) c;
       Some (feed\<lparr>buffer_flags := flags\<rparr>, c, r)
     }
   }"

section \<open>Sections\<close>

text \<open>
  The comparison with a filter: \<^term>\<open>Some None\<close> when a byte that must be equal differs, else the
  accumulated differences of the bytes of which one must differ.
\<close>

fun sectionfilter_loop :: "dvb_demux_filter \<Rightarrow> u8 list \<Rightarrow> nat \<Rightarrow> nat list \<Rightarrow> u8 \<Rightarrow> u8 option option" where
  "sectionfilter_loop f mem off [] neq = Some (Some neq)"
| "sectionfilter_loop f mem off (i # is) neq = do {
     v \<leftarrow> mem_get (filter_value f) i;
     b \<leftarrow> mem_get mem (off + i);
     mm \<leftarrow> mem_get (maskandmode f) i;
     let x = v XOR b;
     if mm AND x \<noteq> 0 then Some None
     else do {
       mn \<leftarrow> mem_get (maskandnotmode f) i;
       sectionfilter_loop f mem off is (neq OR (mn AND x))
     }
   }"

definition dvb_dmx_swfilter_sectionfilter ::
  "'c dmx_env \<Rightarrow> dvb_demux_filter \<Rightarrow> nat \<Rightarrow> dvb_demux_feed \<Rightarrow> 'c \<Rightarrow> (dvb_demux_feed \<times> 'c \<times> int) option" where
  "dvb_dmx_swfilter_sectionfilter env f fi feed c = do {
     r \<leftarrow> sectionfilter_loop f (secbuf_base feed) (secbuf feed) [0..<DVB_DEMUX_MASK_MAX] 0;
     case r of
       None \<Rightarrow> Some (feed, c, 0)
     | Some neq \<Rightarrow>
         if doneq f \<and> neq = 0 then Some (feed, c, 0)
         else do {
           bs \<leftarrow> mem_read (secbuf_base feed) (secbuf feed) (seclen feed);
           let (r, flags, c) = cb_sec env fi bs (buffer_flags feed) c;
           Some (feed\<lparr>buffer_flags := flags\<rparr>, c, r)
         }
   }"

text \<open>The loop over the chain of filters.\<close>

fun section_feed_loop ::
  "'c dmx_env \<Rightarrow> dvb_demux_filter list \<Rightarrow> nat list \<Rightarrow> dvb_demux_feed \<Rightarrow> 'c \<Rightarrow> (dvb_demux_feed \<times> 'c \<times> int) option" where
  "section_feed_loop env flts [] feed c = Some (feed\<lparr>seclen := 0\<rparr>, c, 0)"
| "section_feed_loop env flts (fi # fis) feed c = do {
     f \<leftarrow> mem_get flts fi;
     (feed, c, r) \<leftarrow> dvb_dmx_swfilter_sectionfilter env f fi feed c;
     if r < 0 then Some (feed, c, -1)
     else if is_filtering feed then section_feed_loop env flts fis feed c
     else Some (feed\<lparr>seclen := 0\<rparr>, c, 0)
   }"

definition dvb_dmx_swfilter_section_feed ::
  "'c dmx_env \<Rightarrow> dvb_demux_filter list \<Rightarrow> dvb_demux_feed \<Rightarrow> 'c \<Rightarrow> (dvb_demux_feed \<times> 'c \<times> int) option" where
  "dvb_dmx_swfilter_section_feed env flts feed c =
     (if \<not> is_filtering feed then Some (feed, c, 0)
      else if feed_filter feed = [] then Some (feed, c, 0)
      else do {
        (feed, bad) \<leftarrow>
          (if check_crc feed then do {
             b1 \<leftarrow> mem_get (secbuf_base feed) (secbuf feed + 1);
             if b1 AND 0x80 \<noteq> 0 then do {
               bs \<leftarrow> mem_read (secbuf_base feed) (secbuf feed) (seclen feed);
               let (feed, crc) = dvb_dmx_crc32 env feed bs;
               Some (feed, crc \<noteq> 0)
             } else Some (feed, False)
           } else Some (feed, False));
        if bad then Some (set_buf_flags feed DMX_BUFFER_FLAG_HAD_CRC32_DISCARD, c, -1)
        else section_feed_loop env flts (feed_filter feed) feed c
      })"

definition dvb_dmx_swfilter_section_new :: "dvb_demux_feed \<Rightarrow> dvb_demux_feed option" where
  "dvb_dmx_swfilter_section_new feed = do {
     feed \<leftarrow>
       (if secbufp feed < tsfeedp feed then do {
          let n = tsfeedp feed - secbufp feed;
          b0 \<leftarrow> mem_get (secbuf_base feed) (secbuf feed);
          lost \<leftarrow> (if b0 \<noteq> 0xff then Some True
                  else map_option (\<lambda>b. b \<noteq> 0xff) (mem_get (secbuf_base feed) (secbuf feed + (n - 1))));
          Some (if lost then set_buf_flags feed DMX_BUFFER_FLAG_DISCONTINUITY_DETECTED else feed)
        } else Some feed);
     Some (feed\<lparr>tsfeedp := 0, secbufp := 0, seclen := 0, secbuf := 0\<rparr>)
   }"

text \<open>Handing out one section of the buffer.\<close>

definition dump_section ::
  "'c dmx_env \<Rightarrow> dvb_demux_filter list \<Rightarrow> nat \<Rightarrow> dvb_demux_feed \<Rightarrow> 'c \<Rightarrow> (dvb_demux_feed \<times> 'c) option" where
  "dump_section env flts len feed c = do {
     let feed = feed\<lparr>seclen := len, crc_val := NOT 0\<rparr>;
     (feed, c) \<leftarrow>
       (if pusi_seen feed then map_option (\<lambda>(feed, c, _). (feed, c)) (dvb_dmx_swfilter_section_feed env flts feed c)
        else Some (set_buf_flags feed DMX_BUFFER_FLAG_DISCONTINUITY_DETECTED, c));
     Some (feed\<lparr>secbufp := secbufp feed + len, secbuf := secbuf feed + len\<rparr>, c)
   }"

text \<open>What the section filter leaves alone: everything but the CRC, the length of the section and the flags.\<close>

definition erase :: "dvb_demux_feed \<Rightarrow> dvb_demux_feed" where
  "erase feed = feed\<lparr>crc_val := 0, seclen := 0, buffer_flags := 0\<rparr>"

lemma erase_update [simp]:
  "erase (feed\<lparr>crc_val := v\<rparr>) = erase feed" "erase (feed\<lparr>seclen := l\<rparr>) = erase feed"
  "erase (feed\<lparr>buffer_flags := fl\<rparr>) = erase feed" "erase (set_buf_flags feed fl) = erase feed"
  by (simp_all add: erase_def set_buf_flags_def)

lemma erase_move: "erase (feed\<lparr>secbufp := a, secbuf := b\<rparr>) = (erase feed)\<lparr>secbufp := a, secbuf := b\<rparr>"
  by (cases feed) (simp add: erase_def)

lemma erase_eqD:
  assumes "erase feed = erase feed'"
  shows "secbufp feed = secbufp feed'" "secbuf feed = secbuf feed'" "tsfeedp feed = tsfeedp feed'" "secbuf_base feed = secbuf_base feed'"
    "pusi_seen feed = pusi_seen feed'" "feed_cc feed = feed_cc feed'" "is_filtering feed = is_filtering feed'"
    "feed_filter feed = feed_filter feed'" "check_crc feed = check_crc feed'" "feed_type feed = feed_type feed'"
proof -
  have "f (erase feed) = f (erase feed')" for f :: "dvb_demux_feed \<Rightarrow> 'a" using assms by simp
  note this [of secbufp] this [of secbuf] this [of tsfeedp]
  then show "secbufp feed = secbufp feed'" "secbuf feed = secbuf feed'" "tsfeedp feed = tsfeedp feed'" by (simp_all add: erase_def)
next
  show "secbuf_base feed = secbuf_base feed'" using assms [THEN arg_cong, of secbuf_base] by (simp add: erase_def)
  show "pusi_seen feed = pusi_seen feed'" using assms [THEN arg_cong, of pusi_seen] by (simp add: erase_def)
  show "feed_cc feed = feed_cc feed'" using assms [THEN arg_cong, of feed_cc] by (simp add: erase_def)
  show "is_filtering feed = is_filtering feed'" using assms [THEN arg_cong, of is_filtering] by (simp add: erase_def)
  show "feed_filter feed = feed_filter feed'" using assms [THEN arg_cong, of feed_filter] by (simp add: erase_def)
  show "check_crc feed = check_crc feed'" using assms [THEN arg_cong, of check_crc] by (simp add: erase_def)
  show "feed_type feed = feed_type feed'" using assms [THEN arg_cong, of feed_type] by (simp add: erase_def)
qed

lemma sectionfilter_erase:
  "dvb_dmx_swfilter_sectionfilter env f fi feed c = Some (feed', c', r) \<Longrightarrow> erase feed' = erase feed"
  by (auto simp: dvb_dmx_swfilter_sectionfilter_def bind_eq_Some_conv case_prod_beta Let_def split: option.split_asm if_split_asm)

lemma section_feed_loop_erase:
  "section_feed_loop env flts fis feed c = Some (feed', c', r) \<Longrightarrow> erase feed' = erase feed"
proof (induction env flts fis feed c rule: section_feed_loop.induct)
  case (2 env flts fi fis feed c)
  from 2(2) obtain f feed1 c1 r1 where f: "mem_get flts fi = Some f" "dvb_dmx_swfilter_sectionfilter env f fi feed c = Some (feed1, c1, r1)"
    by (auto simp: bind_eq_Some_conv)
  with 2(2) sectionfilter_erase [OF f(2)] 2(1) [OF f refl refl] show ?case by (auto split: if_splits)
qed auto

lemma section_feed_erase:
  "dvb_dmx_swfilter_section_feed env flts feed c = Some (feed', c', r) \<Longrightarrow> erase feed' = erase feed"
  by (auto simp: dvb_dmx_swfilter_section_feed_def dvb_dmx_crc32_def Let_def bind_eq_Some_conv split: if_splits dest!: section_feed_loop_erase)

lemma dump_section_moves:
  assumes "dump_section env flts len feed c = Some (feed', c')"
  shows "erase feed' = (erase feed)\<lparr>secbufp := secbufp feed + len, secbuf := secbuf feed + len\<rparr>"
proof -
  from assms obtain f where "erase f = erase feed" "feed' = f\<lparr>secbufp := secbufp f + len, secbuf := secbuf f + len\<rparr>"
  proof (cases "pusi_seen feed")
    case True
    with assms obtain f r where "dvb_dmx_swfilter_section_feed env flts (feed\<lparr>seclen := len, crc_val := NOT 0\<rparr>) c = Some (f, c', r)"
      "feed' = f\<lparr>secbufp := secbufp f + len, secbuf := secbuf f + len\<rparr>"
      by (auto simp: dump_section_def Let_def bind_eq_Some_conv)
    with section_feed_erase [OF this(1)] show thesis by (intro that [of f]) simp_all
  next
    case False
    with assms show thesis
      by (intro that [of "set_buf_flags (feed\<lparr>seclen := len, crc_val := NOT 0\<rparr>) DMX_BUFFER_FLAG_DISCONTINUITY_DETECTED"])
         (simp_all add: dump_section_def Let_def)
  qed
  then show ?thesis using erase_eqD [of f feed] by (simp add: erase_move)
qed

lemma dump_section_secbufp: "dump_section env flts len feed c = Some (feed', c') \<Longrightarrow> secbufp feed' = secbufp feed + len"
  by (drule dump_section_moves, drule arg_cong [of _ _ secbufp]) (simp add: erase_def)

function dump_loop ::
  "'c dmx_env \<Rightarrow> dvb_demux_filter list \<Rightarrow> nat \<Rightarrow> dvb_demux_feed \<Rightarrow> 'c \<Rightarrow> (dvb_demux_feed \<times> 'c) option" where
  "dump_loop env flts limit feed c =
     (if secbufp feed + 2 < limit then do {
        b1 \<leftarrow> mem_get (secbuf_base feed) (secbuf feed + 1);
        b2 \<leftarrow> mem_get (secbuf_base feed) (secbuf feed + 2);
        let len = section_length b1 b2;
        if len = 0 \<or> len > DMX_MAX_SECTION_SIZE \<or> len + secbufp feed > limit then Some (feed, c)
        else do {
          (feed, c) \<leftarrow> dump_section env flts len feed c;
          dump_loop env flts limit feed c
        }
      } else Some (feed, c))"
  by pat_completeness auto

termination
  by (relation "measure (\<lambda>(_, _, limit, feed, _). limit - secbufp feed)") (auto dest!: dump_section_secbufp)

declare dump_loop.simps [simp del]

definition dvb_dmx_swfilter_section_copy_dump ::
  "'c dmx_env \<Rightarrow> dvb_demux_filter list \<Rightarrow> dvb_demux_feed \<Rightarrow> 'c \<Rightarrow> u8 list \<Rightarrow> nat \<Rightarrow> nat \<Rightarrow> (dvb_demux_feed \<times> 'c) option" where
  "dvb_dmx_swfilter_section_copy_dump env flts feed c buf off len =
     (if tsfeedp feed \<ge> DMX_MAX_SECFEED_SIZE then Some (feed, c)
      else do {
        let (feed, len) =
          (if tsfeedp feed + len > DMX_MAX_SECFEED_SIZE
           then (set_buf_flags feed DMX_BUFFER_FLAG_DISCONTINUITY_DETECTED, DMX_MAX_SECFEED_SIZE - tsfeedp feed)
           else (feed, len));
        if len = 0 then Some (feed, c)
        else do {
          bs \<leftarrow> mem_read buf off len;
          mem \<leftarrow> dvb_dmx_memcopy (secbuf_base feed) (tsfeedp feed) bs;
          let feed = feed\<lparr>secbuf_base := mem, tsfeedp := tsfeedp feed + len\<rparr>;
          let limit = tsfeedp feed;
          if limit > DMX_MAX_SECFEED_SIZE then Some (feed, c)
          else dump_loop env flts limit (feed\<lparr>secbuf := secbufp feed\<rparr>) c
        }
      })"

definition dvb_dmx_swfilter_section_packet ::
  "'c dmx_env \<Rightarrow> dvb_demux_filter list \<Rightarrow> dvb_demux_feed \<Rightarrow> 'c \<Rightarrow> u8 list \<Rightarrow> (dvb_demux_feed \<times> 'c \<times> int) option" where
  "dvb_dmx_swfilter_section_packet env flts feed c buf = do {
     count \<leftarrow> payload buf;
     if count = 0 then Some (feed, c, -1)
     else do {
       let p = 188 - count;
       b3 \<leftarrow> mem_get buf 3;
       let cc = b3 AND 0x0f;
       let ccok = ((feed_cc feed + 1) AND 0x0f = cc);
       let feed = feed\<lparr>feed_cc := cc\<rparr>;
       dc_i \<leftarrow>
         (if b3 AND 0x20 \<noteq> 0 then do {
            b4 \<leftarrow> mem_get buf 4;
            if b4 > 0 then map_option (\<lambda>b5. b5 AND 0x80 \<noteq> 0) (mem_get buf 5) else Some False
          } else Some False);
       feed \<leftarrow>
         (if \<not> ccok \<or> dc_i then
            let feed = set_buf_flags feed (if dc_i then DMX_BUFFER_FLAG_DISCONTINUITY_INDICATOR
                                           else DMX_BUFFER_FLAG_DISCONTINUITY_DETECTED) in
            dvb_dmx_swfilter_section_new (feed\<lparr>pusi_seen := False\<rparr>)
          else Some feed);
       b1 \<leftarrow> mem_get buf 1;
       (feed, c) \<leftarrow>
         (if b1 AND 0x40 \<noteq> 0 then do {
            bp \<leftarrow> mem_get buf p;
            if count > 1 \<and> unat bp < count then do {
              let before_len = unat bp;
              let after_len = count - 1 - before_len;
              (feed, c) \<leftarrow> dvb_dmx_swfilter_section_copy_dump env flts feed c buf (p + 1) before_len;
              feed \<leftarrow> dvb_dmx_swfilter_section_new (feed\<lparr>pusi_seen := True\<rparr>);
              dvb_dmx_swfilter_section_copy_dump env flts feed c buf (p + 1 + before_len) after_len
            } else Some (set_buf_flags feed DMX_BUFFER_FLAG_DISCONTINUITY_DETECTED, c)
          } else dvb_dmx_swfilter_section_copy_dump env flts feed c buf p count);
       Some (feed, c, 0)
     }
   }"

definition dvb_dmx_swfilter_packet_type ::
  "'c dmx_env \<Rightarrow> dvb_demux_filter list \<Rightarrow> dvb_demux_feed \<Rightarrow> 'c \<Rightarrow> u8 list \<Rightarrow> (dvb_demux_feed \<times> 'c) option" where
  "dvb_dmx_swfilter_packet_type env flts feed c buf =
     (case feed_type feed of
        DMX_TYPE_TS \<Rightarrow>
          if \<not> is_filtering feed then Some (feed, c)
          else do {
            (feed, c) \<leftarrow>
              (if ts_type feed AND TS_PACKET \<noteq> 0 then
                 if ts_type feed AND TS_PAYLOAD_ONLY \<noteq> 0 then
                   map_option (\<lambda>(feed, c, _). (feed, c)) (dvb_dmx_swfilter_payload env feed c buf)
                 else do {
                   bs \<leftarrow> mem_read buf 0 188;
                   let (_, flags, c) = cb_ts env (feed_index feed) bs (buffer_flags feed) c;
                   Some (feed\<lparr>buffer_flags := flags\<rparr>, c)
                 }
               else Some (feed, c));
            if ts_type feed AND TS_DECODER \<noteq> 0 then
              case write_to_decoder env of
                None \<Rightarrow> Some (feed, c)
              | Some w \<Rightarrow> map_option (\<lambda>bs. (feed, w (feed_index feed) bs c)) (mem_read buf 0 188)
            else Some (feed, c)
          }
      | DMX_TYPE_SEC \<Rightarrow>
          if \<not> is_filtering feed then Some (feed, c)
          else do {
            (feed, c, r) \<leftarrow> dvb_dmx_swfilter_section_packet env flts feed c buf;
            Some (if r < 0 then feed\<lparr>seclen := 0, secbufp := 0\<rparr> else feed, c)
          })"

section \<open>Which sections a filter takes\<close>

text \<open>
  A filter that \<^verbatim>\<open>prepare_secfilters\<close> has set up, and the sections it takes: the masked bits with mode 1 are equal to
  the filter value, and if there are masked bits with mode 0, one of them differs.
\<close>

definition prepared :: "dvb_demux_filter \<Rightarrow> bool" where
  "prepared f \<longleftrightarrow> length (filter_value f) = 18 \<and> length (filter_mask f) = 18 \<and> length (filter_mode f) = 18 \<and>
     maskandmode f = map2 (AND) (filter_mask f) (filter_mode f) \<and>
     maskandnotmode f = map2 (\<lambda>m d. m AND NOT d) (filter_mask f) (filter_mode f) \<and>
     doneq f = (\<exists>i<18. filter_mask f ! i AND NOT (filter_mode f ! i) \<noteq> 0)"

definition matches :: "dvb_demux_filter \<Rightarrow> u8 list \<Rightarrow> bool" where
  "matches f s \<longleftrightarrow>
     (\<forall>i<min 18 (length s). filter_mask f ! i AND filter_mode f ! i AND (filter_value f ! i XOR s ! i) = 0) \<and>
     ((\<exists>i<18. filter_mask f ! i AND NOT (filter_mode f ! i) \<noteq> 0) \<longrightarrow>
      (\<exists>i<min 18 (length s). filter_mask f ! i AND NOT (filter_mode f ! i) AND (filter_value f ! i XOR s ! i) \<noteq> 0))"

text \<open>A short section has to be covered by the bytes a filter looks at.\<close>

definition covers :: "dvb_demux_filter \<Rightarrow> u8 list \<Rightarrow> bool" where
  "covers f s \<longleftrightarrow> (\<forall>i<18. length s \<le> i \<longrightarrow> filter_mask f ! i = 0)"

lemma prepared_nth:
  assumes "prepared f" "i < 18"
  shows "i < length (filter_value f)" "mem_get (maskandmode f) i = Some (filter_mask f ! i AND filter_mode f ! i)"
    "mem_get (maskandnotmode f) i = Some (filter_mask f ! i AND NOT (filter_mode f ! i))"
    "mem_get (filter_value f) i = Some (filter_value f ! i)"
  using assms by (auto simp: prepared_def mem_get_def)

lemma or_zero: "(a :: u8) OR b = 0 \<longleftrightarrow> a = 0 \<and> b = 0"
  by (auto intro!: bit_word_eqI simp: bit_eq_iff bit_simps)

lemma sectionfilter_loop_spec:
  assumes "prepared f" "off + 18 \<le> length mem" "set is \<subseteq> {..<18}"
  shows "\<exists>r. sectionfilter_loop f mem off is neq = Some r \<and>
    (r = None \<longleftrightarrow> (\<exists>i\<in>set is. filter_mask f ! i AND filter_mode f ! i AND (filter_value f ! i XOR mem ! (off + i)) \<noteq> 0)) \<and>
    (\<forall>v. r = Some v \<longrightarrow> (v = 0 \<longleftrightarrow> neq = 0 \<and>
       (\<forall>i\<in>set is. filter_mask f ! i AND NOT (filter_mode f ! i) AND (filter_value f ! i XOR mem ! (off + i)) = 0)))"
  using assms(3)
proof (induction "is" arbitrary: neq)
  case (Cons i "is")
  then have i: "i < 18" "off + i < length mem" using assms(2) by auto
  show ?case
  proof (cases "filter_mask f ! i AND filter_mode f ! i AND (filter_value f ! i XOR mem ! (off + i)) = 0")
    case True
    from Cons.IH [of "neq OR (filter_mask f ! i AND NOT (filter_mode f ! i) AND (filter_value f ! i XOR mem ! (off + i)))"] Cons.prems
    show ?thesis using True i prepared_nth [OF assms(1) i(1)] by (auto simp: mem_get_Some or_zero and.assoc)
  next
    case False
    then show ?thesis using i prepared_nth [OF assms(1) i(1)] by (auto simp: mem_get_Some and.assoc)
  qed
qed simp

lemma sectionfilter_spec:
  assumes "prepared f" "covers f s" "secbuf feed + 18 \<le> length (secbuf_base feed)"
    and "take (seclen feed) (drop (secbuf feed) (secbuf_base feed)) = s" "secbuf feed + seclen feed \<le> length (secbuf_base feed)"
  shows "dvb_dmx_swfilter_sectionfilter env f fi feed c =
    (if matches f s then let (r, fl, c) = cb_sec env fi s (buffer_flags feed) c in Some (feed\<lparr>buffer_flags := fl\<rparr>, c, r)
     else Some (feed, c, 0))"
proof -
  let ?x = "\<lambda>i. filter_value f ! i XOR secbuf_base feed ! (secbuf feed + i)"
  have len: "length s = seclen feed" using assms(4,5) by auto
  have byte: "s ! i = secbuf_base feed ! (secbuf feed + i)" if "i < length s" for i
    using that assms(4,5) len by (metis add_leD1 nth_drop nth_take)
  have short: "filter_mask f ! i = 0" if "i < 18" "\<not> i < length s" for i
    using assms(2) that by (simp add: covers_def)
  have eq: "(\<exists>i\<in>{0..<18}. filter_mask f ! i AND filter_mode f ! i AND ?x i \<noteq> 0) \<longleftrightarrow>
      (\<exists>i<min 18 (length s). filter_mask f ! i AND filter_mode f ! i AND (filter_value f ! i XOR s ! i) \<noteq> 0)"
    using byte short by (metis atLeastLessThan_iff bit.conj_zero_left le0 min_less_iff_conj)
  have neq: "(\<exists>i\<in>{0..<18}. filter_mask f ! i AND NOT (filter_mode f ! i) AND ?x i \<noteq> 0) \<longleftrightarrow>
      (\<exists>i<min 18 (length s). filter_mask f ! i AND NOT (filter_mode f ! i) AND (filter_value f ! i XOR s ! i) \<noteq> 0)"
    using byte short by (metis atLeastLessThan_iff bit.conj_zero_left le0 min_less_iff_conj)
  have "set [0..<18] \<subseteq> {..<18 :: nat}" by auto
  from sectionfilter_loop_spec [OF assms(1,3) this, of 0]
  obtain r where r: "sectionfilter_loop f (secbuf_base feed) (secbuf feed) [0..<18] 0 = Some r"
    "r = None \<longleftrightarrow> (\<exists>i\<in>{0..<18}. filter_mask f ! i AND filter_mode f ! i AND ?x i \<noteq> 0)"
    "\<And>v. r = Some v \<Longrightarrow> v = 0 \<longleftrightarrow> (\<forall>i\<in>{0..<18}. filter_mask f ! i AND NOT (filter_mode f ! i) AND ?x i = 0)"
    unfolding set_upt by blast
  have dn: "doneq f \<longleftrightarrow> (\<exists>i<18. filter_mask f ! i AND NOT (filter_mode f ! i) \<noteq> 0)" using assms(1) by (simp add: prepared_def)
  have m: "matches f s \<longleftrightarrow> (case r of None \<Rightarrow> False | Some v \<Rightarrow> \<not> (doneq f \<and> v = 0))"
  proof (cases r)
    case None
    then show ?thesis using r(2) eq by (auto simp: matches_def)
  next
    case (Some v)
    then have "\<not> (\<exists>i<min 18 (length s). filter_mask f ! i AND filter_mode f ! i AND (filter_value f ! i XOR s ! i) \<noteq> 0)"
      using r(2) eq by auto
    moreover have "v \<noteq> 0 \<longleftrightarrow> (\<exists>i<min 18 (length s). filter_mask f ! i AND NOT (filter_mode f ! i) AND (filter_value f ! i XOR s ! i) \<noteq> 0)"
      unfolding neq [symmetric] using r(3) [OF Some] by auto
    ultimately show ?thesis using Some dn by (auto simp: matches_def)
  qed
  show ?thesis using m r(1) assms(4,5)
    by (cases r) (auto simp: dvb_dmx_swfilter_sectionfilter_def DVB_DEMUX_MASK_MAX_def mem_read_Some)
qed

section \<open>What a section does to the client\<close>

text \<open>
  The specification of the delivery of a section: a section with a wrong CRC is only noted in the flags; else the callback is called for
  every filter that takes the section, until one of them fails.
\<close>

fun run_filters :: "'c dmx_env \<Rightarrow> dvb_demux_filter list \<Rightarrow> nat list \<Rightarrow> u8 list \<Rightarrow> u32 \<times> 'c \<Rightarrow> u32 \<times> 'c" where
  "run_filters env flts [] s (fl, c) = (fl, c)"
| "run_filters env flts (fi # fis) s (fl, c) =
     (if matches (flts ! fi) s then
        let (r, fl, c) = cb_sec env fi s fl c in if r < 0 then (fl, c) else run_filters env flts fis s (fl, c)
      else run_filters env flts fis s (fl, c))"

definition deliver :: "'c dmx_env \<Rightarrow> dvb_demux_filter list \<Rightarrow> nat list \<Rightarrow> bool \<Rightarrow> u8 list \<Rightarrow> u32 \<times> 'c \<Rightarrow> u32 \<times> 'c" where
  "deliver env flts fis crc s st =
     (if crc \<and> s ! 1 AND 0x80 \<noteq> 0 \<and> crc32_be env (NOT 0) s \<noteq> 0
      then (fst st OR DMX_BUFFER_FLAG_HAD_CRC32_DISCARD, snd st) else run_filters env flts fis s st)"

text \<open>The filters of a feed are prepared and look only at bytes the section has.\<close>

definition filters_for :: "dvb_demux_filter list \<Rightarrow> nat list \<Rightarrow> u8 list \<Rightarrow> bool" where
  "filters_for flts fis s \<longleftrightarrow> (\<forall>fi \<in> set fis. fi < length flts \<and> prepared (flts ! fi) \<and> covers (flts ! fi) s)"

lemma section_feed_loop_spec:
  assumes "filters_for flts fis s" "secbuf feed + 18 \<le> length (secbuf_base feed)"
    and "take (seclen feed) (drop (secbuf feed) (secbuf_base feed)) = s" "secbuf feed + seclen feed \<le> length (secbuf_base feed)"
    and "is_filtering feed"
  shows "\<exists>feed' c' r. section_feed_loop env flts fis feed c = Some (feed', c', r) \<and>
    (buffer_flags feed', c') = run_filters env flts fis s (buffer_flags feed, c)"
  using assms
proof (induction fis arbitrary: feed c)
  case (Cons fi fis)
  then have f: "fi < length flts" "prepared (flts ! fi)" "covers (flts ! fi) s" "filters_for flts fis s"
    by (simp_all add: filters_for_def)
  note sf = sectionfilter_spec [OF f(2,3) Cons.prems(2,3,4), of env fi c]
  show ?case
  proof (cases "matches (flts ! fi) s")
    case True
    obtain r fl c1 where cb: "cb_sec env fi s (buffer_flags feed) c = (r, fl, c1)" by (metis prod_cases3)
    let ?feed = "feed\<lparr>buffer_flags := fl\<rparr>"
    from Cons.IH [of ?feed c1] f(4) Cons.prems(2-) True sf cb f(1) show ?thesis by (auto simp: mem_get_Some)
  next
    case False
    with Cons.IH [of feed c] f(4) Cons.prems(2-) sf f(1) show ?thesis by (auto simp: mem_get_Some)
  qed
qed auto

lemma section_feed_spec:
  assumes "filters_for flts (feed_filter feed) s" "secbuf feed + 18 \<le> length (secbuf_base feed)"
    and "take (seclen feed) (drop (secbuf feed) (secbuf_base feed)) = s" "secbuf feed + seclen feed \<le> length (secbuf_base feed)"
    and "is_filtering feed" "feed_filter feed \<noteq> []" "3 \<le> seclen feed" "crc_val feed = NOT 0"
  shows "\<exists>feed' c' r. dvb_dmx_swfilter_section_feed env flts feed c = Some (feed', c', r) \<and>
    (buffer_flags feed', c') = deliver env flts (feed_filter feed) (check_crc feed) s (buffer_flags feed, c)"
proof -
  have b1: "mem_get (secbuf_base feed) (secbuf feed + 1) = Some (s ! 1)"
    using assms(2,3,7) by (auto simp: mem_get_def)
  have rd: "mem_read (secbuf_base feed) (secbuf feed) (seclen feed) = Some s" using assms(3,4) by (simp add: mem_read_Some)
  let ?feed = "feed\<lparr>crc_val := crc32_be env (NOT 0) s\<rparr>"
  have loop: "\<exists>feed' c' r. section_feed_loop env flts (feed_filter feed) g c = Some (feed', c', r) \<and>
    (buffer_flags feed', c') = run_filters env flts (feed_filter feed) s (buffer_flags feed, c)" if "g = feed \<or> g = ?feed" for g
    using section_feed_loop_spec [of flts "feed_filter feed" s g env c] assms(1-5) that by auto
  show ?thesis
  proof (cases "check_crc feed \<and> s ! 1 AND 0x80 \<noteq> 0")
    case True
    with assms(5,6,8) b1 rd loop [of ?feed] show ?thesis
      by (auto simp: dvb_dmx_swfilter_section_feed_def dvb_dmx_crc32_def deliver_def set_buf_flags_def Let_def)
  next
    case False
    with assms(5,6) b1 loop [of feed] show ?thesis
      by (auto simp: dvb_dmx_swfilter_section_feed_def deliver_def)
  qed
qed

section \<open>Cutting the buffer into sections\<close>

definition valid_section :: "u8 list \<Rightarrow> bool" where
  "valid_section s \<longleftrightarrow> 3 \<le> length s \<and> length s \<le> DMX_MAX_SECTION_SIZE \<and> length s = section_length (s ! 1) (s ! 2)"

text \<open>The sections that have arrived completely when \<open>n\<close> bytes are there.\<close>

fun complete :: "nat \<Rightarrow> u8 list list \<Rightarrow> u8 list list" where
  "complete n [] = []"
| "complete n (s # ss) = (if length s \<le> n then s # complete (n - length s) ss else [])"

definition size_of :: "u8 list list \<Rightarrow> nat" where
  "size_of ss = length (concat ss)"

lemma size_of_simps [simp]: "size_of [] = 0" "size_of (s # ss) = length s + size_of ss" "size_of (ss @ ts) = size_of ss + size_of ts"
  by (simp_all add: size_of_def)

lemma complete_size: "size_of (complete n ss) \<le> n"
  by (induction n ss rule: complete.induct) auto

lemma complete_all: "size_of ss \<le> n \<Longrightarrow> complete n ss = ss"
  by (induction n ss rule: complete.induct) auto

lemma complete_more:
  "n \<le> m \<Longrightarrow> complete m ss = complete n ss @ complete (m - size_of (complete n ss)) (drop (length (complete n ss)) ss)"
proof (induction n ss arbitrary: m rule: complete.induct)
  case (2 n s ss)
  show ?case
  proof (cases "length s \<le> n")
    case True
    with 2(1) [OF True, of "m - length s"] 2(2) show ?thesis by simp
  qed simp
qed simp

lemma complete_prefix: "complete n ss @ drop (length (complete n ss)) ss = ss"
  by (induction n ss rule: complete.induct) auto

text \<open>
  A feed whose filters are ready and whose buffer holds the first \<open>t\<close> bytes of sections and stuffing. The comparison with a filter
  reads 18 bytes from the start of a section, which have to be in the buffer.
\<close>

definition stuffing :: "u8 list \<Rightarrow> bool" where
  "stuffing pad \<longleftrightarrow> (\<forall>b \<in> set pad. b = 0xff)"

definition feed_ready :: "dvb_demux_filter list \<Rightarrow> dvb_demux_feed \<Rightarrow> u8 list list \<Rightarrow> bool" where
  "feed_ready flts feed ss \<longleftrightarrow> feed_type feed = DMX_TYPE_SEC \<and> is_filtering feed \<and> feed_filter feed \<noteq> [] \<and> pusi_seen feed \<and>
     DMX_MAX_SECFEED_SIZE \<le> length (secbuf_base feed) \<and>
     (\<forall>s \<in> set ss. valid_section s \<and> filters_for flts (feed_filter feed) s)"

lemma feed_ready_cong:
  "erase feed = erase feed' \<Longrightarrow> feed_ready flts feed ss = feed_ready flts feed' ss"
  using erase_eqD [of feed feed'] by (simp add: feed_ready_def)

lemma dump_section_spec:
  assumes "feed_ready flts feed (s # ss)" "secbuf feed + 18 \<le> length (secbuf_base feed)"
    and "take (length s) (drop (secbuf feed) (secbuf_base feed)) = s" "secbuf feed + length s \<le> length (secbuf_base feed)"
  shows "\<exists>feed' c'. dump_section env flts (length s) feed c = Some (feed', c') \<and>
    (buffer_flags feed', c') = deliver env flts (feed_filter feed) (check_crc feed) s (buffer_flags feed, c)"
proof -
  let ?feed = "feed\<lparr>seclen := length s, crc_val := NOT 0\<rparr>"
  have "\<exists>feed' c' r. dvb_dmx_swfilter_section_feed env flts ?feed c = Some (feed', c', r) \<and>
    (buffer_flags feed', c') = deliver env flts (feed_filter ?feed) (check_crc ?feed) s (buffer_flags ?feed, c)"
    using assms by (intro section_feed_spec) (simp_all add: feed_ready_def valid_section_def)
  then show ?thesis using assms(1) by (auto simp: dump_section_def feed_ready_def)
qed

lemma window_nth:
  assumes "take n (drop k mem) = take n bs" "i < n" "k + n \<le> length mem"
  shows "mem ! (k + i) = bs ! i" "n \<le> length bs"
proof -
  have "take n (drop k mem) ! i = take n bs ! i" using assms(1) by simp
  then show "mem ! (k + i) = bs ! i" using assms(2,3) by simp
  have "length (take n (drop k mem)) = n" using assms(3) by simp
  then show "n \<le> length bs" unfolding assms(1) by simp
qed

lemma window_drop:
  assumes "take n (drop k mem) = take n (s @ rest)"
  shows "take (n - length s) (drop (k + length s) mem) = take (n - length s) rest"
proof -
  have "drop (length s) (take n (drop k mem)) = drop (length s) (take n (s @ rest))" by (simp only: assms)
  then show ?thesis by (simp only: drop_take drop_drop add.commute append_eq_conv_conj) simp
qed

lemma dump_loop_stop:
  assumes "limit \<le> secbufp feed + 2 \<or> limit \<le> length (secbuf_base feed) \<and> secbuf feed = secbufp feed \<and>
    (let len = section_length (secbuf_base feed ! (secbufp feed + 1)) (secbuf_base feed ! (secbufp feed + 2)) in
     len > DMX_MAX_SECTION_SIZE \<or> len + secbufp feed > limit)"
  shows "dump_loop env flts limit feed c = Some (feed, c)"
  using assms by (subst dump_loop.simps) (auto simp: mem_get_def Let_def)

lemma dump_loop_spec:
  assumes "feed_ready flts feed ss" "secbuf feed = secbufp feed" "limit \<le> DMX_MAX_SECFEED_SIZE" "secbufp feed \<le> limit"
    and "take (limit - secbufp feed) (drop (secbufp feed) (secbuf_base feed)) = take (limit - secbufp feed) (concat ss @ pad)"
    and "stuffing pad" "ss \<noteq> [] \<longrightarrow> secbufp feed + size_of (butlast ss) + 18 \<le> DMX_MAX_SECFEED_SIZE"
  shows "\<exists>feed' c'. dump_loop env flts limit feed c = Some (feed', c') \<and>
    (buffer_flags feed', c') = foldl (\<lambda>st s. deliver env flts (feed_filter feed) (check_crc feed) s st) (buffer_flags feed, c)
      (complete (limit - secbufp feed) ss) \<and>
    erase feed' = (erase feed)\<lparr>secbufp := secbufp feed + size_of (complete (limit - secbufp feed) ss),
      secbuf := secbufp feed + size_of (complete (limit - secbufp feed) ss)\<rparr>"
  using assms
proof (induction ss arbitrary: feed c)
  case Nil
  have long: "limit \<le> length (secbuf_base feed)" using Nil.prems(1,3) by (simp add: feed_ready_def)
  have same: "erase feed = (erase feed)\<lparr>secbufp := secbufp feed, secbuf := secbufp feed\<rparr>"
    using Nil.prems(2) by (simp add: erase_def)
  have ff: "secbuf_base feed ! (secbufp feed + i) = 0xff" if i: "secbufp feed + i < limit" for i
  proof -
    have "i < limit - secbufp feed" "secbufp feed + (limit - secbufp feed) \<le> length (secbuf_base feed)" using i long by simp_all
    from window_nth [OF Nil.prems(5) this] i have "secbuf_base feed ! (secbufp feed + i) = pad ! i" "i < length pad" by simp_all
    then show ?thesis using Nil.prems(6) by (simp add: stuffing_def)
  qed
  have "dump_loop env flts limit feed c = Some (feed, c)"
    using long Nil.prems(2) ff [of 1] ff [of 2] 
    by (intro dump_loop_stop) (auto simp: section_length_def DMX_MAX_SECTION_SIZE_def Let_def)
  with same show ?case by simp
next
  case (Cons s ss)
  let ?k = "secbufp feed"
  have long: "limit \<le> length (secbuf_base feed)" using Cons.prems(1,3) by (simp add: feed_ready_def)
  have v: "valid_section s" using Cons.prems(1) by (simp add: feed_ready_def)
  then have s3: "3 \<le> length s" by (simp add: valid_section_def)
  have hdr: "secbuf_base feed ! (?k + i) = s ! i" if "?k + i < limit" "i < length s" for i
    using window_nth [OF Cons.prems(5), of i] that long by (simp add: nth_append)
  have same: "erase feed = (erase feed)\<lparr>secbufp := ?k, secbuf := ?k\<rparr>" using Cons.prems(2) by (simp add: erase_def)
  show ?case
  proof (cases "?k + length s \<le> limit")
    case False
    then have "dump_loop env flts limit feed c = Some (feed, c)"
      using long Cons.prems(2) s3 hdr [of 1] hdr [of 2] v
      by (intro dump_loop_stop) (auto simp: valid_section_def Let_def)
    moreover have "complete (limit - ?k) (s # ss) = []" using False Cons.prems(4) by auto
    ultimately show ?thesis using same by simp
  next
    case True
    let ?del = "\<lambda>st s. deliver env flts (feed_filter feed) (check_crc feed) s st"
    have start: "?k + 18 \<le> DMX_MAX_SECFEED_SIZE" using Cons.prems(7) by auto
    have sec: "take (length s) (drop ?k (secbuf_base feed)) = s"
    proof (rule nth_equalityI)
      fix i assume "i < length (take (length s) (drop ?k (secbuf_base feed)))"
      then show "take (length s) (drop ?k (secbuf_base feed)) ! i = s ! i" using hdr [of i] True long by simp
    qed (use True long in simp)
    obtain feed1 c1 where d: "dump_section env flts (length s) feed c = Some (feed1, c1)"
      "(buffer_flags feed1, c1) = ?del (buffer_flags feed, c) s"
      using dump_section_spec [OF Cons.prems(1), of env c] start sec True long Cons.prems(1,2) by (auto simp: feed_ready_def)
    note moved = dump_section_moves [OF d(1)]
    let ?f = "feed\<lparr>secbufp := ?k + length s, secbuf := ?k + length s\<rparr>"
    have e1: "erase feed1 = erase ?f" using moved Cons.prems(2) by (simp add: erase_move)
    note fields = erase_eqD [OF e1, simplified]
    have "\<exists>feed' c'. dump_loop env flts limit feed1 c1 = Some (feed', c') \<and>
      (buffer_flags feed', c') = foldl (\<lambda>st s. deliver env flts (feed_filter feed1) (check_crc feed1) s st) (buffer_flags feed1, c1)
        (complete (limit - secbufp feed1) ss) \<and>
      erase feed' = (erase feed1)\<lparr>secbufp := secbufp feed1 + size_of (complete (limit - secbufp feed1) ss),
        secbuf := secbufp feed1 + size_of (complete (limit - secbufp feed1) ss)\<rparr>"
    proof (rule Cons.IH)
      show "feed_ready flts feed1 ss" using Cons.prems(1) fields by (simp add: feed_ready_def)
      show "take (limit - secbufp feed1) (drop (secbufp feed1) (secbuf_base feed1)) = take (limit - secbufp feed1) (concat ss @ pad)"
        using window_drop [of "limit - ?k" ?k "secbuf_base feed" s "concat ss @ pad"] Cons.prems(5) fields by simp
      show "ss \<noteq> [] \<longrightarrow> secbufp feed1 + size_of (butlast ss) + 18 \<le> DMX_MAX_SECFEED_SIZE"
        using Cons.prems(7) fields by auto
    qed (use Cons.prems fields True in simp_all)
    moreover have "dump_loop env flts limit feed c = dump_loop env flts limit feed1 c1"
      using d(1) True long s3 hdr [of 1] hdr [of 2] v Cons.prems(2)
      by (subst dump_loop.simps) (auto simp: mem_get_def valid_section_def)
    ultimately show ?thesis using fields d(2) True e1 s3 by (auto simp: erase_move add.assoc)
  qed
qed

text \<open>
  A feed in the middle of a group of sections and stuffing that began at the start of its buffer, after \<open>t\<close> bytes of it: the sections that are
  complete have been handed out.
\<close>

definition group_ok :: "u8 list list \<Rightarrow> u8 list \<Rightarrow> bool" where
  "group_ok ss pad \<longleftrightarrow> stuffing pad \<and> size_of ss + length pad \<le> DMX_MAX_SECFEED_SIZE \<and>
     (ss \<noteq> [] \<longrightarrow> size_of (butlast ss) + 18 \<le> DMX_MAX_SECFEED_SIZE)"

definition collecting :: "dvb_demux_filter list \<Rightarrow> u8 list list \<Rightarrow> u8 list \<Rightarrow> nat \<Rightarrow> dvb_demux_feed \<Rightarrow> bool" where
  "collecting flts ss pad t feed \<longleftrightarrow> feed_ready flts feed ss \<and> group_ok ss pad \<and>
     tsfeedp feed = t \<and> t \<le> size_of ss + length pad \<and> take t (secbuf_base feed) = take t (concat ss @ pad) \<and>
     secbufp feed = size_of (complete t ss) \<and> secbuf feed = secbufp feed"

abbreviation delivers where
  "delivers env flts feed \<equiv> foldl (\<lambda>st s. deliver env flts (feed_filter feed) (check_crc feed) s st)"

lemma feed_ready_buffer:
  "feed_ready flts feed ss \<Longrightarrow> DMX_MAX_SECFEED_SIZE \<le> length mem \<Longrightarrow> set rs \<subseteq> set ss \<Longrightarrow>
   feed_ready flts (feed\<lparr>secbuf_base := mem, tsfeedp := a, secbuf := b\<rparr>) rs"
  by (auto simp: feed_ready_def)

text \<open>The same with the position \<^verbatim>\<open>secbufp\<close> behind the sections that are complete after \<open>u\<close> bytes.\<close>

definition buffered :: "dvb_demux_filter list \<Rightarrow> u8 list list \<Rightarrow> u8 list \<Rightarrow> nat \<Rightarrow> nat \<Rightarrow> dvb_demux_feed \<Rightarrow> bool" where
  "buffered flts ss pad t u feed \<longleftrightarrow> feed_ready flts feed ss \<and> group_ok ss pad \<and>
     tsfeedp feed = t \<and> t \<le> size_of ss + length pad \<and> take t (secbuf_base feed) = take t (concat ss @ pad) \<and>
     secbufp feed = size_of (complete u ss) \<and> u \<le> t"

lemma copy_dump_buffered:
  assumes "buffered flts ss pad t u feed" "off + len \<le> length buf" "len \<noteq> 0"
    and "take len (drop off buf) = take len (drop t (concat ss @ pad))" "t + len \<le> size_of ss + length pad"
  shows "\<exists>feed' c'. dvb_dmx_swfilter_section_copy_dump env flts feed c buf off len = Some (feed', c') \<and>
    collecting flts ss pad (t + len) feed' \<and> feed_cc feed' = feed_cc feed \<and> feed_filter feed' = feed_filter feed \<and>
    check_crc feed' = check_crc feed \<and>
    (buffer_flags feed', c') = delivers env flts feed (buffer_flags feed, c) (drop (length (complete u ss)) (complete (t + len) ss))"
proof -
  note col = assms(1) [unfolded buffered_def]
  let ?k = "secbufp feed" and ?L = "t + len" and ?done = "length (complete u ss)"
  let ?rs = "drop ?done ss"
  define mem where "mem = take t (secbuf_base feed) @ take len (drop off buf) @ drop ?L (secbuf_base feed)"
  define f where "f = feed\<lparr>secbuf_base := mem, tsfeedp := ?L, secbuf := ?k\<rparr>"
  have f_simps [simp]: "secbufp f = ?k" "secbuf f = ?k" "tsfeedp f = ?L" "secbuf_base f = mem" "feed_filter f = feed_filter feed"
    "check_crc f = check_crc feed" "buffer_flags f = buffer_flags feed" "feed_cc f = feed_cc feed"
    by (simp_all add: f_def)
  have fits: "?L \<le> DMX_MAX_SECFEED_SIZE" using assms(5) col by (simp add: group_ok_def)
  have long: "DMX_MAX_SECFEED_SIZE \<le> length (secbuf_base feed)" using col by (simp add: feed_ready_def)
  have k: "?k \<le> t" using col complete_size [of u ss] by simp
  have step: "dvb_dmx_swfilter_section_copy_dump env flts feed c buf off len = dump_loop env flts ?L f c"
    using assms(3) fits long conjunct1 [OF conjunct2 [OF conjunct2 [OF col]]] assms(2)
    by (simp add: dvb_dmx_swfilter_section_copy_dump_def mem_read_Some dvb_dmx_memcopy_def mem_write_Some Let_def f_def mem_def)
  have "length (take t (secbuf_base feed)) = t" "length (take len (drop off buf)) = len" using long fits assms(2) by simp_all
  then have "take ?L mem = take t (secbuf_base feed) @ take len (drop off buf)"
    unfolding mem_def by (metis append_assoc append_eq_conv_conj length_append)
  also have "\<dots> = take ?L (concat ss @ pad)" using col assms(4) by (simp only: take_add)
  finally have mem: "take ?L mem = take ?L (concat ss @ pad)" .
  have memlen: "DMX_MAX_SECFEED_SIZE \<le> length mem" using long fits assms(2) by (simp add: mem_def)
  have ss: "concat ss @ pad = concat (complete u ss) @ concat ?rs @ pad"
    using complete_prefix [of u ss] by (metis append.assoc concat_append)
  have klen: "length (concat (complete u ss)) = ?k" using col by (simp add: size_of_def)
  have win: "take (?L - ?k) (drop ?k mem) = take (?L - ?k) (concat ?rs @ pad)"
    using window_drop [of ?L 0 mem "concat (complete u ss)" "concat ?rs @ pad"] mem unfolding ss klen by simp
  have bl: "?rs \<noteq> [] \<longrightarrow> ?k + size_of (butlast ?rs) + 18 \<le> DMX_MAX_SECFEED_SIZE"
  proof
    assume "?rs \<noteq> []"
    then have "butlast ss = complete u ss @ butlast ?rs" "ss \<noteq> []"
      using complete_prefix [of u ss] by (metis butlast_append, force)
    then show "?k + size_of (butlast ?rs) + 18 \<le> DMX_MAX_SECFEED_SIZE" using col by (simp add: group_ok_def)
  qed
  have more: "complete ?L ss = complete u ss @ complete (?L - ?k) ?rs" using complete_more [of u ?L ss] col by simp
  have ready: "feed_ready flts f rs" if "set rs \<subseteq> set ss" for rs
    unfolding f_def by (rule feed_ready_buffer [OF _ memlen that]) (use col in blast)
  have "feed_ready flts f ?rs" by (rule ready) (rule set_drop_subset)
  from dump_loop_spec [OF this, of ?L pad env c] obtain feed' c' where l: "dump_loop env flts ?L f c = Some (feed', c')"
    "(buffer_flags feed', c') = delivers env flts feed (buffer_flags feed, c) (complete (?L - ?k) ?rs)"
    "erase feed' = (erase f)\<lparr>secbufp := ?k + size_of (complete (?L - ?k) ?rs), secbuf := ?k + size_of (complete (?L - ?k) ?rs)\<rparr>"
    using k fits win bl col by (auto simp: group_ok_def)
  have size: "?k + size_of (complete (?L - ?k) ?rs) = size_of (complete ?L ss)" using col unfolding more by simp
  have dl: "(buffer_flags feed', c') = delivers env flts feed (buffer_flags feed, c) (drop ?done (complete ?L ss))"
    using l(2) unfolding more by simp
  have e: "erase feed' = erase (f\<lparr>secbufp := size_of (complete ?L ss), secbuf := size_of (complete ?L ss)\<rparr>)"
    using l(3) unfolding erase_move size [symmetric] by simp
  note fields = erase_eqD [OF e, simplified]
  have "feed_ready flts feed' ss" using ready [OF subset_refl] fields unfolding feed_ready_def by simp
  then have "collecting flts ss pad ?L feed'"
    using fields col assms(5) mem by (simp add: collecting_def)
  moreover have "feed_cc feed' = feed_cc feed" "feed_filter feed' = feed_filter feed" "check_crc feed' = check_crc feed"
    using fields by simp_all
  ultimately show ?thesis unfolding step by (intro exI [of _ feed'] exI [of _ c'] conjI l(1) dl)
qed

lemma copy_dump_spec:
  assumes "collecting flts ss pad t feed" "off + len \<le> length buf"
    and "take len (drop off buf) = take len (drop t (concat ss @ pad))" "t + len \<le> size_of ss + length pad"
  shows "\<exists>feed' c'. dvb_dmx_swfilter_section_copy_dump env flts feed c buf off len = Some (feed', c') \<and>
    collecting flts ss pad (t + len) feed' \<and> feed_cc feed' = feed_cc feed \<and> feed_filter feed' = feed_filter feed \<and>
    check_crc feed' = check_crc feed \<and>
    (buffer_flags feed', c') = delivers env flts feed (buffer_flags feed, c) (drop (length (complete t ss)) (complete (t + len) ss))"
proof (cases "len = 0")
  case True
  with assms(1) show ?thesis by (auto simp: dvb_dmx_swfilter_section_copy_dump_def collecting_def)
next
  case False
  have "buffered flts ss pad t t feed" using assms(1) by (simp add: collecting_def buffered_def)
  from copy_dump_buffered [OF this assms(2) False assms(3,4)] show ?thesis .
qed

section \<open>Memory safety\<close>

text \<open>
  The invariant of the buffer, for a buffer of \<open>N\<close> bytes (in the code \<open>N\<close> is \<^const>\<open>DMX_MAX_SECFEED_SIZE\<close>), and what a filter needs
  to be compared safely: complete arrays, and 15 bytes behind the area that is filled.
\<close>

definition sec_inv :: "dvb_demux_feed \<Rightarrow> bool" where
  "sec_inv feed \<longleftrightarrow> DMX_MAX_SECFEED_SIZE \<le> length (secbuf_base feed) \<and> secbuf feed = secbufp feed \<and>
     secbufp feed \<le> tsfeedp feed \<and> tsfeedp feed \<le> DMX_MAX_SECFEED_SIZE"

definition filter_sized :: "dvb_demux_filter \<Rightarrow> bool" where
  "filter_sized f \<longleftrightarrow> length (filter_value f) = 18 \<and> length (maskandmode f) = 18 \<and> length (maskandnotmode f) = 18"

definition readable :: "dvb_demux_filter list \<Rightarrow> dvb_demux_feed \<Rightarrow> bool" where
  "readable flts feed \<longleftrightarrow> DMX_MAX_SECFEED_SIZE + 15 \<le> length (secbuf_base feed) \<and>
     (\<forall>fi \<in> set (feed_filter feed). fi < length flts \<and> filter_sized (flts ! fi))"

lemma sectionfilter_loop_total:
  "filter_sized f \<Longrightarrow> off + 18 \<le> length mem \<Longrightarrow> set is \<subseteq> {..<18} \<Longrightarrow> \<exists>r. sectionfilter_loop f mem off is neq = Some r"
  by (induction "is" arbitrary: neq) (auto simp: filter_sized_def mem_get_Some Let_def)

lemma sectionfilter_total:
  assumes "filter_sized f" "secbuf feed + 18 \<le> length (secbuf_base feed)" "secbuf feed + seclen feed \<le> length (secbuf_base feed)"
  shows "\<exists>feed' c' r. dvb_dmx_swfilter_sectionfilter env f fi feed c = Some (feed', c', r) \<and> seclen feed' = seclen feed"
proof -
  have "set [0..<DVB_DEMUX_MASK_MAX] \<subseteq> {..<18}" by (auto simp: DVB_DEMUX_MASK_MAX_def)
  from sectionfilter_loop_total [OF assms(1,2) this, of 0] obtain r where
    "sectionfilter_loop f (secbuf_base feed) (secbuf feed) [0..<DVB_DEMUX_MASK_MAX] 0 = Some r" by blast
  with assms(3) show ?thesis
    by (cases "cb_sec env fi (take (seclen feed) (drop (secbuf feed) (secbuf_base feed))) (buffer_flags feed) c")
       (auto simp: dvb_dmx_swfilter_sectionfilter_def mem_read_Some split: option.splits)
qed

lemma section_feed_loop_total:
  assumes "\<forall>fi \<in> set fis. fi < length flts \<and> filter_sized (flts ! fi)"
    and "secbuf feed + 18 \<le> length (secbuf_base feed)" "secbuf feed + seclen feed \<le> length (secbuf_base feed)"
  shows "\<exists>feed' c' r. section_feed_loop env flts fis feed c = Some (feed', c', r)"
  using assms
proof (induction fis arbitrary: feed c)
  case (Cons fi fis)
  then obtain f1 c1 r1 where s: "dvb_dmx_swfilter_sectionfilter env (flts ! fi) fi feed c = Some (f1, c1, r1)" "seclen f1 = seclen feed"
    using sectionfilter_total [of "flts ! fi" feed env fi c] by auto
  note fields = erase_eqD [OF sectionfilter_erase [OF s(1)]]
  have "\<exists>feed' c' r. section_feed_loop env flts fis f1 c1 = Some (feed', c', r)"
    using Cons.prems fields s(2) by (intro Cons.IH) simp_all
  with s Cons.prems(1) show ?case by (auto simp: mem_get_Some)
qed simp

lemma section_feed_total:
  assumes "\<forall>fi \<in> set (feed_filter feed). fi < length flts \<and> filter_sized (flts ! fi)" "3 \<le> seclen feed"
    and "secbuf feed + 18 \<le> length (secbuf_base feed)" "secbuf feed + seclen feed \<le> length (secbuf_base feed)"
  shows "\<exists>feed' c' r. dvb_dmx_swfilter_section_feed env flts feed c = Some (feed', c', r)"
proof -
  have "\<exists>feed' c' r. section_feed_loop env flts (feed_filter feed) feed c = Some (feed', c', r)"
    "\<exists>feed' c' r. section_feed_loop env flts (feed_filter feed) (feed\<lparr>crc_val := v\<rparr>) c = Some (feed', c', r)" for v
    using section_feed_loop_total [of "feed_filter feed" flts feed env c]
      section_feed_loop_total [of "feed_filter feed" flts "feed\<lparr>crc_val := v\<rparr>" env c] assms by simp_all
  with assms show ?thesis
    by (auto simp: dvb_dmx_swfilter_section_feed_def dvb_dmx_crc32_def mem_get_def mem_read_Some Let_def)
qed

text \<open>With \<open>pusi_seen\<close> unset nothing is handed out, and no filter is compared.\<close>

lemma dump_section_total:
  assumes "pusi_seen feed \<longrightarrow> readable flts feed" "secbuf feed \<le> DMX_MAX_SECFEED_SIZE - 3" "3 \<le> len"
    and "secbuf feed + len \<le> length (secbuf_base feed)"
  shows "\<exists>feed' c'. dump_section env flts len feed c = Some (feed', c') \<and> (\<not> pusi_seen feed \<longrightarrow> c' = c)"
proof (cases "pusi_seen feed")
  case True
  let ?feed = "feed\<lparr>seclen := len, crc_val := NOT 0\<rparr>"
  have "secbuf feed + 18 \<le> length (secbuf_base feed)"
    using assms(1,2) True by (simp add: readable_def DMX_MAX_SECFEED_SIZE_def DMX_MAX_SECTION_SIZE_def)
  then have "\<exists>feed' c' r. dvb_dmx_swfilter_section_feed env flts ?feed c = Some (feed', c', r)"
    using assms True by (intro section_feed_total) (simp_all add: readable_def)
  with True show ?thesis by (auto simp: dump_section_def)
qed (simp add: dump_section_def Let_def)

lemma dump_loop_total:
  assumes "pusi_seen feed \<longrightarrow> readable flts feed" "sec_inv feed" "limit = tsfeedp feed"
  shows "\<exists>feed' c'. dump_loop env flts limit feed c = Some (feed', c') \<and> (\<not> pusi_seen feed \<longrightarrow> c' = c) \<and> sec_inv feed' \<and>
    (\<exists>k. erase feed' = erase (feed\<lparr>secbufp := k, secbuf := k\<rparr>))"
  using assms
proof (induction env flts limit feed c rule: dump_loop.induct)
  case (1 env flts limit feed c)
  let ?len = "section_length (secbuf_base feed ! (secbuf feed + 1)) (secbuf_base feed ! (secbuf feed + 2))"
  have same: "erase feed = erase (feed\<lparr>secbufp := secbufp feed, secbuf := secbufp feed\<rparr>)"
    using 1(3) by (simp add: erase_def sec_inv_def)
  show ?case
  proof (cases "secbufp feed + 2 < limit \<and> ?len \<le> DMX_MAX_SECTION_SIZE \<and> ?len + secbufp feed \<le> limit")
    case False
    then have "dump_loop env flts limit feed c = Some (feed, c)"
      using 1(3,4) by (intro dump_loop_stop) (auto simp: sec_inv_def Let_def)
    with same 1(3) show ?thesis by blast
  next
    case True
    have inv: "secbuf feed = secbufp feed" "limit \<le> length (secbuf_base feed)" "limit \<le> DMX_MAX_SECFEED_SIZE"
      using 1(3,4) by (auto simp: sec_inv_def)
    have len3: "3 \<le> ?len" by (simp add: section_length_def)
    obtain f1 c1 where d: "dump_section env flts ?len feed c = Some (f1, c1)" "\<not> pusi_seen feed \<longrightarrow> c1 = c"
    proof -
      have "secbuf feed \<le> DMX_MAX_SECFEED_SIZE - 3" "secbuf feed + ?len \<le> length (secbuf_base feed)" using True inv by linarith+
      from dump_section_total [OF 1(2) this(1) len3 this(2), of env c] that show thesis by blast
    qed
    have e: "erase f1 = erase (feed\<lparr>secbufp := secbufp feed + ?len, secbuf := secbufp feed + ?len\<rparr>)"
      using dump_section_moves [OF d(1)] inv(1) by (simp add: erase_move)
    note fields = erase_eqD [OF e, simplified]
    have step: "dump_loop env flts limit feed c = dump_loop env flts limit f1 c1"
      using True inv d(1) len3 by (subst dump_loop.simps) (simp add: mem_get_def)
    have "\<exists>feed' c'. dump_loop env flts limit f1 c1 = Some (feed', c') \<and> (\<not> pusi_seen f1 \<longrightarrow> c' = c1) \<and> sec_inv feed' \<and>
      (\<exists>k. erase feed' = erase (f1\<lparr>secbufp := k, secbuf := k\<rparr>))"
    proof (rule "1.IH")
      show "dump_section env flts ?len feed c = Some (f1, c1)" by (rule d(1))
    qed (use True inv 1(2,3,4) len3 fields in \<open>simp_all add: mem_get_Some sec_inv_def readable_def\<close>)
    then obtain f2 c2 k where r: "dump_loop env flts limit f1 c1 = Some (f2, c2)" "\<not> pusi_seen f1 \<longrightarrow> c2 = c1" "sec_inv f2"
      "erase f2 = erase (f1\<lparr>secbufp := k, secbuf := k\<rparr>)" by blast
    have "erase f2 = erase (feed\<lparr>secbufp := k, secbuf := k\<rparr>)" using r(4) e by (simp add: erase_move)
    moreover have "\<not> pusi_seen feed \<longrightarrow> c2 = c" using r(2) d(2) fields(5) by simp
    ultimately show ?thesis unfolding step using r(1,3) by blast
  qed
qed

end
