(* ===== verification/Dvb_Stream.thy ===== *)
theory Dvb_Stream
  imports Dvb_Section
begin

text \<open>
  What the section filter of \<^theory_text>\<open>Dvb_Section\<close> does to whole streams of packets: any packets with payload are handled safely, sections that are
  packed into packets with payload in the way of MPEG-2 are delivered once each and in order, and packets without payload break both.
\<close>

section \<open>Packets of a stream\<close>

definition carries :: "u8 list \<Rightarrow> u8 \<Rightarrow> bool \<Rightarrow> u8 list \<Rightarrow> bool" where
  "carries pkt cc pusi pl \<longleftrightarrow> length pkt = 188 \<and> payload pkt = Some (length pl) \<and> pl \<noteq> [] \<and> drop (188 - length pl) pkt = pl \<and>
     pkt ! 3 AND 0x0f = cc \<and> (pkt ! 1 AND 0x40 \<noteq> 0) = pusi \<and>
     \<not> (pkt ! 3 AND 0x20 \<noteq> 0 \<and> pkt ! 4 > 0 \<and> pkt ! 5 AND 0x80 \<noteq> 0)"

lemma payload_bound: "payload pkt = Some n \<Longrightarrow> n \<le> 184"
  by (auto simp: payload_def Let_def mem_get_def split: if_splits option.splits)

lemma payload_Some: "length pkt = 188 \<Longrightarrow> \<exists>n. payload pkt = Some n"
  by (simp add: payload_def mem_get_Some)

section \<open>Safety\<close>

abbreviation restarted :: "dvb_demux_feed \<Rightarrow> dvb_demux_feed" where
  "restarted feed \<equiv> feed\<lparr>tsfeedp := 0, secbufp := 0, seclen := 0, secbuf := 0\<rparr>"

lemma section_new_total:
  assumes "sec_inv feed"
  obtains g where "dvb_dmx_swfilter_section_new feed = Some (restarted g)"
    "g = feed \<or> g = set_buf_flags feed DMX_BUFFER_FLAG_DISCONTINUITY_DETECTED"
proof (cases "secbufp feed < tsfeedp feed")
  case True
  have "secbuf feed + (tsfeedp feed - secbufp feed - 1) < length (secbuf_base feed)" "secbuf feed < length (secbuf_base feed)"
    using assms True unfolding sec_inv_def by linarith+
  with True show thesis
    by (intro that [of "if secbuf_base feed ! secbuf feed \<noteq> 0xff \<or> secbuf_base feed ! (secbuf feed + (tsfeedp feed - secbufp feed - 1)) \<noteq> 0xff
        then set_buf_flags feed DMX_BUFFER_FLAG_DISCONTINUITY_DETECTED else feed"])
      (auto simp: dvb_dmx_swfilter_section_new_def mem_get_def Let_def)
next
  case False
  then show thesis by (intro that [of feed]) (simp_all add: dvb_dmx_swfilter_section_new_def)
qed

lemma copy_dump_total:
  assumes "pusi_seen feed \<longrightarrow> readable flts feed" "sec_inv feed" "off + len \<le> length buf"
  shows "\<exists>feed' c'. dvb_dmx_swfilter_section_copy_dump env flts feed c buf off len = Some (feed', c') \<and> sec_inv feed' \<and>
    (\<not> pusi_seen feed \<longrightarrow> c' = c) \<and> pusi_seen feed' = pusi_seen feed \<and> feed_cc feed' = feed_cc feed \<and>
    feed_filter feed' = feed_filter feed \<and> check_crc feed' = check_crc feed \<and> is_filtering feed' = is_filtering feed \<and>
    length (secbuf_base feed') = length (secbuf_base feed) \<and> feed_type feed' = feed_type feed"
proof -
  define g where "g = (if tsfeedp feed + len > DMX_MAX_SECFEED_SIZE then set_buf_flags feed DMX_BUFFER_FLAG_DISCONTINUITY_DETECTED else feed)"
  define n where "n = (if tsfeedp feed + len > DMX_MAX_SECFEED_SIZE then DMX_MAX_SECFEED_SIZE - tsfeedp feed else len)"
  have e: "erase g = erase feed" by (simp add: g_def)
  note fields = erase_eqD [OF e]
  have inv: "sec_inv g" using assms(2) fields by (simp add: sec_inv_def)
  show ?thesis
  proof (cases "DMX_MAX_SECFEED_SIZE \<le> tsfeedp feed \<or> n = 0")
    case True
    then have "dvb_dmx_swfilter_section_copy_dump env flts feed c buf off len = Some (g, c) \<or>
      dvb_dmx_swfilter_section_copy_dump env flts feed c buf off len = Some (feed, c)"
      by (auto simp: dvb_dmx_swfilter_section_copy_dump_def g_def n_def)
    with inv assms(2) fields show ?thesis by auto
  next
    case False
    have n: "n \<le> len" "tsfeedp feed + n \<le> DMX_MAX_SECFEED_SIZE" using False by (auto simp: n_def)
    define mem where "mem = take (tsfeedp feed) (secbuf_base feed) @ take n (drop off buf) @ drop (tsfeedp feed + n) (secbuf_base feed)"
    define h where "h = g\<lparr>secbuf_base := mem, tsfeedp := tsfeedp feed + n, secbuf := secbufp feed\<rparr>"
    have long: "DMX_MAX_SECFEED_SIZE \<le> length (secbuf_base feed)" using assms(2) by (simp add: sec_inv_def)
    have mem: "length mem = length (secbuf_base feed)" using n long assms(3) by (simp add: mem_def)
    have step: "dvb_dmx_swfilter_section_copy_dump env flts feed c buf off len = dump_loop env flts (tsfeedp h) h c"
      using False n long assms(3) fields
      by (auto simp: dvb_dmx_swfilter_section_copy_dump_def mem_read_Some dvb_dmx_memcopy_def mem_write_Some Let_def h_def mem_def g_def n_def)
    have h: "sec_inv h" "pusi_seen h \<longrightarrow> readable flts h" "pusi_seen h = pusi_seen feed" "feed_cc h = feed_cc feed"
      "feed_filter h = feed_filter feed" "check_crc h = check_crc feed" "is_filtering h = is_filtering feed" "secbuf_base h = mem"
      "feed_type h = feed_type feed"
      using inv assms(1,2) fields mem n(2) by (auto simp: h_def sec_inv_def readable_def)
    from dump_loop_total [OF h(2,1) refl, of env c] obtain f' c' k where
      l: "dump_loop env flts (tsfeedp h) h c = Some (f', c')" "\<not> pusi_seen h \<longrightarrow> c' = c" "sec_inv f'"
        "erase f' = erase (h\<lparr>secbufp := k, secbuf := k\<rparr>)" by blast
    note f' = erase_eqD [OF l(4), simplified]
    show ?thesis unfolding step using l f' h mem by auto
  qed
qed

text \<open>The first half of \<^verbatim>\<open>dvb_dmx_swfilter_section_packet\<close>: the continuity counter.\<close>

definition continuity :: "dvb_demux_feed \<Rightarrow> u8 \<Rightarrow> bool \<Rightarrow> dvb_demux_feed option" where
  "continuity feed cc dc_i =
     (let feed' = feed\<lparr>feed_cc := cc\<rparr> in
      if (feed_cc feed + 1) AND 0x0f \<noteq> cc \<or> dc_i then
        dvb_dmx_swfilter_section_new (set_buf_flags feed' (if dc_i then DMX_BUFFER_FLAG_DISCONTINUITY_INDICATOR
          else DMX_BUFFER_FLAG_DISCONTINUITY_DETECTED) \<lparr>pusi_seen := False\<rparr>)
      else Some feed')"

definition discontinuity :: "u8 list \<Rightarrow> bool" where
  "discontinuity pkt \<longleftrightarrow> pkt ! 3 AND 0x20 \<noteq> 0 \<and> pkt ! 4 > 0 \<and> pkt ! 5 AND 0x80 \<noteq> 0"

text \<open>The packet handler for a packet with payload.\<close>

lemma section_packet_eq:
  assumes "length pkt = 188" "payload pkt = Some n" "n \<noteq> 0"
  shows "dvb_dmx_swfilter_section_packet env flts feed c pkt = do {
    feed \<leftarrow> continuity feed (pkt ! 3 AND 0x0f) (discontinuity pkt);
    (feed, c) \<leftarrow>
      (if pkt ! 1 AND 0x40 \<noteq> 0 then
         if n > 1 \<and> unat (pkt ! (188 - n)) < n then do {
           (feed, c) \<leftarrow> dvb_dmx_swfilter_section_copy_dump env flts feed c pkt (188 - n + 1) (unat (pkt ! (188 - n)));
           feed \<leftarrow> dvb_dmx_swfilter_section_new (feed\<lparr>pusi_seen := True\<rparr>);
           dvb_dmx_swfilter_section_copy_dump env flts feed c pkt (188 - n + 1 + unat (pkt ! (188 - n))) (n - 1 - unat (pkt ! (188 - n)))
         } else Some (set_buf_flags feed DMX_BUFFER_FLAG_DISCONTINUITY_DETECTED, c)
       else dvb_dmx_swfilter_section_copy_dump env flts feed c pkt (188 - n) n);
    Some (feed, c, 0)
  }"
proof -
  have "n \<le> 184" using assms(2) by (rule payload_bound)
  with assms show ?thesis
    unfolding dvb_dmx_swfilter_section_packet_def continuity_def discontinuity_def
    by (auto simp: mem_get_Some Let_def)
qed

lemma continuity_total:
  assumes "sec_inv feed"
  obtains feed' where "continuity feed cc dc = Some feed'" "sec_inv feed'" "feed_filter feed' = feed_filter feed" "check_crc feed' = check_crc feed"
    "is_filtering feed' = is_filtering feed" "secbuf_base feed' = secbuf_base feed" "feed_cc feed' = cc" "pusi_seen feed' \<longrightarrow> pusi_seen feed"
    "feed_type feed' = feed_type feed"
proof (cases "(feed_cc feed + 1) AND 0x0f \<noteq> cc \<or> dc")
  case True
  let ?g = "set_buf_flags (feed\<lparr>feed_cc := cc\<rparr>) (if dc then DMX_BUFFER_FLAG_DISCONTINUITY_INDICATOR
    else DMX_BUFFER_FLAG_DISCONTINUITY_DETECTED) \<lparr>pusi_seen := False\<rparr>"
  have "sec_inv ?g" using assms by (simp add: sec_inv_def set_buf_flags_def)
  then obtain h where h: "dvb_dmx_swfilter_section_new ?g = Some (restarted h)"
    "h = ?g \<or> h = set_buf_flags ?g DMX_BUFFER_FLAG_DISCONTINUITY_DETECTED" by (rule section_new_total)
  with True assms show thesis
    by (intro that [of "restarted h"]) (auto simp: continuity_def sec_inv_def set_buf_flags_def)
next
  case False
  with assms show thesis by (intro that [of "feed\<lparr>feed_cc := cc\<rparr>"]) (auto simp: continuity_def sec_inv_def)
qed

lemma section_packet_total:
  assumes "length pkt = 188" "sec_inv feed" "readable flts feed"
  shows "\<exists>feed' c' r. dvb_dmx_swfilter_section_packet env flts feed c pkt = Some (feed', c', r) \<and> sec_inv feed' \<and> readable flts feed'"
proof -
  from payload_Some [OF assms(1)] obtain n where n: "payload pkt = Some n" by blast
  show ?thesis
  proof (cases "n = 0")
    case True
    with n assms show ?thesis by (simp add: dvb_dmx_swfilter_section_packet_def)
  next
    case False
    have n184: "n \<le> 184" using n by (rule payload_bound)
    note eq = section_packet_eq [OF assms(1) n False, of env flts feed c]
    obtain f1 where f1: "continuity feed (pkt ! 3 AND 0x0f) (discontinuity pkt) = Some f1" "sec_inv f1"
      "feed_filter f1 = feed_filter feed" "secbuf_base f1 = secbuf_base feed"
      using continuity_total [OF assms(2)] by metis
    have r1: "readable flts f1" using assms(3) f1 by (simp add: readable_def)
    let ?b = "unat (pkt ! (188 - n))"
    consider (cont) "pkt ! 1 AND 0x40 = 0" | (lost) "pkt ! 1 AND 0x40 \<noteq> 0" "\<not> (n > 1 \<and> ?b < n)" | (start) "pkt ! 1 AND 0x40 \<noteq> 0" "n > 1 \<and> ?b < n"
      by blast
    then show ?thesis
    proof cases
      case cont
      have b: "188 - n + n \<le> length pkt" using assms(1) n184 by simp
      obtain f2 c2 where f2: "dvb_dmx_swfilter_section_copy_dump env flts f1 c pkt (188 - n) n = Some (f2, c2)" "sec_inv f2"
        "feed_filter f2 = feed_filter f1" "length (secbuf_base f2) = length (secbuf_base f1)"
        using copy_dump_total [OF impI [OF r1] f1(2) b, of env c] by blast
      have "readable flts f2" using r1 f2 by (simp add: readable_def)
      then show ?thesis using f1(1) f2(1,2) cont by (simp add: eq)
    next
      case lost
      with f1 r1 show ?thesis by (auto simp: eq set_buf_flags_def sec_inv_def readable_def)
    next
      case start
      have b: "188 - n + 1 + ?b \<le> length pkt" "188 - n + 1 + ?b + (n - 1 - ?b) \<le> length pkt" using assms(1) n184 start by linarith+
      obtain f2 c2 where f2: "dvb_dmx_swfilter_section_copy_dump env flts f1 c pkt (188 - n + 1) ?b = Some (f2, c2)" "sec_inv f2"
        "feed_filter f2 = feed_filter f1" "length (secbuf_base f2) = length (secbuf_base f1)"
        using copy_dump_total [OF impI [OF r1] f1(2) b(1), of env c] by blast
      have "sec_inv (f2\<lparr>pusi_seen := True\<rparr>)" using f2(2) by (simp add: sec_inv_def)
      then obtain g where g: "dvb_dmx_swfilter_section_new (f2\<lparr>pusi_seen := True\<rparr>) = Some (restarted g)"
        "g = f2\<lparr>pusi_seen := True\<rparr> \<or> g = set_buf_flags (f2\<lparr>pusi_seen := True\<rparr>) DMX_BUFFER_FLAG_DISCONTINUITY_DETECTED"
        by (rule section_new_total)
      have f3: "sec_inv (restarted g)" "readable flts (restarted g)"
        using g(2) f2 r1 by (auto simp: sec_inv_def readable_def set_buf_flags_def)
      obtain f4 c4 where f4: "dvb_dmx_swfilter_section_copy_dump env flts (restarted g) c2 pkt (188 - n + 1 + ?b) (n - 1 - ?b) = Some (f4, c4)"
        "sec_inv f4" "feed_filter f4 = feed_filter (restarted g)" "length (secbuf_base f4) = length (secbuf_base (restarted g))"
        using copy_dump_total [OF impI [OF f3(2)] f3(1) b(2), of env c2] by blast
      have "readable flts f4" using f3(2) f4 by (simp add: readable_def)
      then show ?thesis using f1(1) f2(1) g(1) f4(1,2) start by (simp add: eq)
    qed
  qed
qed

text \<open>
  C39: One call of the section filter is memory safe on any packet, as long as the positions in the section buffer are in order (\<open>sec_inv\<close>). For a
  feed with any number of filters and any client, every 188 byte packet is handled without an access outside the packet, outside the filter arrays or more than 15 bytes behind the \<^verbatim>\<open>DMX_MAX_SECFEED_SIZE\<close>
  bytes of the section buffer, and the positions in the buffer keep their order. This is about
  \<^verbatim>\<open>dvb_dmx_swfilter_section_packet\<close>: its caller breaks the order after a packet without payload, and the next call is then not
  safe (\<open>empty_packet_overruns\<close>). (The 15 bytes are needed: a filter compares 18 bytes also when
  a section header is in the last bytes of the buffer.)
\<close>

theorem section_packet_safe:
  assumes "length pkt = 188" "sec_inv feed" "readable flts feed"
  shows "\<exists>feed' c' r. dvb_dmx_swfilter_section_packet env flts feed c pkt = Some (feed', c', r) \<and> sec_inv feed' \<and> readable flts feed'"
  by (rule section_packet_total [OF assms])

section \<open>Sections in packets\<close>

text \<open>The handler of the feed on a list of packets.\<close>

fun feed_packets :: "'c dmx_env \<Rightarrow> dvb_demux_filter list \<Rightarrow> dvb_demux_feed \<Rightarrow> 'c \<Rightarrow> u8 list list \<Rightarrow> (dvb_demux_feed \<times> 'c) option" where
  "feed_packets env flts feed c [] = Some (feed, c)"
| "feed_packets env flts feed c (p # ps) = do {
     (feed, c) \<leftarrow> dvb_dmx_swfilter_packet_type env flts feed c p;
     feed_packets env flts feed c ps
   }"

lemma feed_packets_append:
  "feed_packets env flts feed c (ps @ qs) = do {
     (feed, c) \<leftarrow> feed_packets env flts feed c ps;
     feed_packets env flts feed c qs
   }"
proof (induction ps arbitrary: feed c)
  case (Cons p ps)
  then show ?case by (cases "dvb_dmx_swfilter_packet_type env flts feed c p") auto
qed simp

lemma packet_type_sec:
  assumes "feed_type feed = DMX_TYPE_SEC" "is_filtering feed"
    and "dvb_dmx_swfilter_section_packet env flts feed c p = Some (feed', c', 0)"
  shows "dvb_dmx_swfilter_packet_type env flts feed c p = Some (feed', c')"
  using assms by (simp add: dvb_dmx_swfilter_packet_type_def)

text \<open>
  Sections are packed into payloads group by group. A group is some sections and stuffing; it begins behind the pointer field of a packet with
  the payload unit start indicator, goes on in packets without it, and ends in front of the point where the next group starts.
\<close>

record section_group =
  g_secs :: "u8 list list"
  g_pad :: "u8 list"
  g_first :: "u8 list"
  g_mids :: "u8 list list"
  g_last :: "u8 list"

definition valid_group :: "section_group \<Rightarrow> bool" where
  "valid_group g \<longleftrightarrow> group_ok (g_secs g) (g_pad g) \<and> g_first g @ concat (g_mids g) @ g_last g = concat (g_secs g) @ g_pad g \<and>
     [] \<notin> set (g_mids g)"

text \<open>The payloads of the groups, each with its start indicator; \<open>pre\<close> is the end of what came before.\<close>

fun payloads :: "u8 list \<Rightarrow> section_group list \<Rightarrow> (bool \<times> u8 list) list" where
  "payloads pre [] = []"
| "payloads pre (g # gs) =
     (True, of_nat (length pre) # pre @ g_first g) # map (Pair False) (g_mids g) @ payloads (g_last g) gs"

fun linked :: "u8 list \<Rightarrow> section_group list \<Rightarrow> bool" where
  "linked pre [] = (pre = [])"
| "linked pre (g # gs) = (pre @ g_first g \<noteq> [] \<and> length pre + length (g_first g) \<le> 183 \<and> valid_group g \<and> linked (g_last g) gs)"

text \<open>
  Packets with these payloads and consecutive continuity counters; the counter before them was \<open>cc\<close>. Each of them has payload and no discontinuity
  indicator. This is less than MPEG-2 allows: a packet that has only an adaptation field may come in between and does not count, and the section filter
  does not treat it properly (\<open>empty_packet_repeats\<close>).
\<close>

fun in_packets :: "u8 \<Rightarrow> (bool \<times> u8 list) list \<Rightarrow> u8 list list \<Rightarrow> bool" where
  "in_packets cc [] ps = (ps = [])"
| "in_packets cc ((pusi, pl) # pls) ps =
     (case ps of [] \<Rightarrow> False | p # ps \<Rightarrow> carries p ((cc + 1) AND 0x0f) pusi pl \<and> in_packets ((cc + 1) AND 0x0f) pls ps)"

lemma carries_payload:
  assumes "carries p cc pusi pl"
  shows "length p = 188" "payload p = Some (length pl)" "length pl \<le> 184" "length pl \<noteq> 0" "p ! 3 AND 0x0f = cc" "\<not> discontinuity p"
    "p ! 1 AND 0x40 \<noteq> 0 \<longleftrightarrow> pusi" "\<And>n. take n (drop (188 - length pl) p) = take n pl" "\<And>i. i < length pl \<Longrightarrow> p ! (188 - length pl + i) = pl ! i"
proof -
  show l: "length p = 188" "payload p = Some (length pl)" "length pl \<noteq> 0" "p ! 3 AND 0x0f = cc" "\<not> discontinuity p"
    "p ! 1 AND 0x40 \<noteq> 0 \<longleftrightarrow> pusi" "\<And>n. take n (drop (188 - length pl) p) = take n pl"
    using assms by (auto simp: carries_def discontinuity_def)
  show "length pl \<le> 184" using l(2) by (rule payload_bound)
  fix i assume "i < length pl"
  moreover have d: "drop (188 - length pl) p = pl" using assms by (simp add: carries_def)
  ultimately show "p ! (188 - length pl + i) = pl ! i" using l(1) by (metis add.commute less_diff_conv length_drop nth_drop less_or_eq_imp_le diff_le_self)
qed

text \<open>A packet in the middle of a group.\<close>

lemma packet_continue:
  assumes "collecting flts ss pad t feed" "carries p ((feed_cc feed + 1) AND 0x0f) False pl"
    and "pl = take (length pl) (drop t (concat ss @ pad))"
  shows "\<exists>feed' c'. dvb_dmx_swfilter_packet_type env flts feed c p = Some (feed', c') \<and> collecting flts ss pad (t + length pl) feed' \<and>
    feed_cc feed' = (feed_cc feed + 1) AND 0x0f \<and> feed_filter feed' = feed_filter feed \<and> check_crc feed' = check_crc feed \<and>
    (buffer_flags feed', c') = delivers env flts feed (buffer_flags feed, c)
      (drop (length (complete t ss)) (complete (t + length pl) ss))"
proof -
  note pl = carries_payload [OF assms(2)]
  let ?f = "feed\<lparr>feed_cc := (feed_cc feed + 1) AND 0x0f\<rparr>"
  have cont: "continuity feed (p ! 3 AND 0x0f) (discontinuity p) = Some ?f" using pl(5,6) by (simp add: continuity_def)
  have col: "collecting flts ss pad t ?f" using assms(1) by (simp add: collecting_def feed_ready_def)
  have len: "t + length pl \<le> size_of ss + length pad"
  proof -
    have "length pl \<le> length (drop t (concat ss @ pad))" using assms(3) by (metis length_take min.cobounded1)
    then show ?thesis using pl(4) unfolding size_of_def length_drop length_append by linarith
  qed
  have bound: "188 - length pl + length pl \<le> length p" using pl(1,3) by simp
  have win: "take (length pl) (drop (188 - length pl) p) = take (length pl) (drop t (concat ss @ pad))"
    using assms(3) pl(8) by (metis take_all_iff le_refl)
  from copy_dump_spec [OF col bound win len, of env c] obtain feed' c' where
    "dvb_dmx_swfilter_section_copy_dump env flts ?f c p (188 - length pl) (length pl) = Some (feed', c')"
    and rest: "collecting flts ss pad (t + length pl) feed'" "feed_cc feed' = feed_cc ?f" "feed_filter feed' = feed_filter ?f"
      "check_crc feed' = check_crc ?f"
      "(buffer_flags feed', c') = delivers env flts ?f (buffer_flags ?f, c) (drop (length (complete t ss)) (complete (t + length pl) ss))" by blast
  then have "dvb_dmx_swfilter_section_packet env flts feed c p = Some (feed', c', 0)"
    using section_packet_eq [OF pl(1,2,4), of env flts feed c] cont pl(7) by simp
  moreover have "feed_type feed = DMX_TYPE_SEC" "is_filtering feed" using assms(1) by (simp_all add: collecting_def feed_ready_def)
  ultimately have "dvb_dmx_swfilter_packet_type env flts feed c p = Some (feed', c')" by (intro packet_type_sec)
  with rest show ?thesis by (intro exI [of _ feed'] exI [of _ c'] conjI) simp_all
qed

text \<open>The start of a group: what is left of the group before is stuffing, and the buffer is empty again.\<close>

lemma section_new_collecting:
  assumes "collecting flts ss pad (size_of ss + length pad) feed"
  shows "dvb_dmx_swfilter_section_new (feed\<lparr>pusi_seen := True\<rparr>) = Some (restarted (feed\<lparr>pusi_seen := True\<rparr>))"
proof -
  note col = assms [unfolded collecting_def]
  have k: "secbufp feed = size_of ss" "secbuf feed = size_of ss" "tsfeedp feed = size_of ss + length pad"
    using col by (simp_all add: complete_all)
  have long: "size_of ss + length pad \<le> length (secbuf_base feed)" using col by (simp add: group_ok_def feed_ready_def)
  have take_mem: "take (size_of ss + length pad) (secbuf_base feed) = concat ss @ pad"
    using col by (simp add: size_of_def)
  have ff: "secbuf_base feed ! (size_of ss + i) = 0xff" if i: "i < length pad" for i
  proof -
    have "secbuf_base feed ! (size_of ss + i) = take (size_of ss + length pad) (secbuf_base feed) ! (size_of ss + i)" using i by simp
    also have "\<dots> = pad ! i" unfolding take_mem by (simp add: size_of_def nth_append)
    finally show ?thesis using col i by (simp add: group_ok_def stuffing_def)
  qed
  show ?thesis
  proof (cases "pad = []")
    case True
    then show ?thesis using k by (simp add: dvb_dmx_swfilter_section_new_def)
  next
    case False
    then have "0 < length pad" by simp
    moreover from this long have "size_of ss + (length pad - 1) < length (secbuf_base feed)" by linarith
    ultimately show ?thesis using k long ff [of 0] ff [of "length pad - 1"]
      by (simp add: dvb_dmx_swfilter_section_new_def mem_get_def Let_def)
  qed
qed

lemma restarted_collecting:
  assumes "feed_ready flts (restarted feed) ss" "group_ok ss pad"
  shows "collecting flts ss pad 0 (restarted feed)"
proof -
  have "complete 0 ss = []" using assms(1) by (cases ss) (auto simp: feed_ready_def valid_section_def)
  with assms show ?thesis by (simp add: collecting_def)
qed

lemma packet_start:
  assumes pkt: "carries p cc True (of_nat (length pre) # pre @ first)" and room: "length pre + length first \<le> 183" "pre @ first \<noteq> []"
    and f1: "continuity feed cc False = Some f1"
    and f2: "dvb_dmx_swfilter_section_copy_dump env flts f1 c p (187 - length pre - length first + 1) (length pre) = Some (f2, c2)"
    and g: "dvb_dmx_swfilter_section_new (f2\<lparr>pusi_seen := True\<rparr>) = Some (restarted g)"
    and grp: "feed_ready flts (restarted g) ss" "group_ok ss pad" "first = take (length first) (concat ss @ pad)"
    and sec: "feed_type feed = DMX_TYPE_SEC" "is_filtering feed"
  shows "\<exists>feed' c'. dvb_dmx_swfilter_packet_type env flts feed c p = Some (feed', c') \<and> collecting flts ss pad (length first) feed' \<and>
    feed_cc feed' = feed_cc g \<and> feed_filter feed' = feed_filter g \<and> check_crc feed' = check_crc g \<and>
    (buffer_flags feed', c') = delivers env flts g (buffer_flags g, c2) (complete (length first) ss)"
proof -
  let ?pl = "of_nat (length pre) # pre @ first"
  note pl = carries_payload [OF pkt]
  define n where "n = Suc (length pre + length first)"
  have n: "length ?pl = n" "188 - n = 187 - length pre - length first" "n \<le> 184" using room(1) by (simp_all add: n_def)
  have b: "unat (of_nat (length pre) :: u8) = length pre" using room(1) by (simp add: unat_of_nat)
  have ptr: "unat (p ! (188 - n)) = length pre" using pl(9) [of 0] b by (simp add: n_def)
  have "drop (188 - n) p = ?pl" using pkt by (simp add: carries_def n_def)
  then have "drop (length pre + 1) (drop (188 - n) p) = drop (length pre + 1) ?pl" by simp
  then have after: "drop (188 - n + 1 + length pre) p = first" by (simp add: add.commute)
  have col: "collecting flts ss pad 0 (restarted g)" by (rule restarted_collecting [OF grp(1,2)])
  have len: "0 + length first \<le> size_of ss + length pad"
    using grp(3) by (metis add_0 length_append length_take min.cobounded1 size_of_def)
  have bound: "188 - n + 1 + length pre + length first \<le> length p" using pl(1) n(3) by (simp add: n_def)
  have win: "take (length first) (drop (188 - n + 1 + length pre) p) = take (length first) (drop 0 (concat ss @ pad))"
    using after grp(3) by simp
  have c0: "complete 0 ss = []" using col by (cases ss) (auto simp: collecting_def feed_ready_def valid_section_def)
  from copy_dump_spec [OF col bound win len, of env c2] obtain feed' c' where
    last: "dvb_dmx_swfilter_section_copy_dump env flts (restarted g) c2 p (188 - n + 1 + length pre) (length first) = Some (feed', c')"
    and rest: "collecting flts ss pad (0 + length first) feed'" "feed_cc feed' = feed_cc (restarted g)"
      "feed_filter feed' = feed_filter (restarted g)" "check_crc feed' = check_crc (restarted g)"
      "(buffer_flags feed', c') = delivers env flts (restarted g) (buffer_flags (restarted g), c2)
        (drop (length (complete 0 ss)) (complete (0 + length first) ss))" by blast
  have "n > 1 \<and> length pre < n" "n - 1 - length pre = length first" using room(2) by (auto simp: n_def)
  then have "dvb_dmx_swfilter_section_packet env flts feed c p = Some (feed', c', 0)"
    using section_packet_eq [OF pl(1,2,4), of env flts feed c] pl(5,6,7) f1 f2 g last ptr n by simp
  then have "dvb_dmx_swfilter_packet_type env flts feed c p = Some (feed', c')" by (rule packet_type_sec [OF sec])
  with rest c0 show ?thesis by (intro exI [of _ feed'] exI [of _ c'] conjI) simp_all
qed

text \<open>From the middle of a group to the end of the stream.\<close>

lemma start_payload:
  assumes "carries p cc True (of_nat (length pre) # pre @ first)" "length pre + length first \<le> 183"
  shows "drop (187 - length pre - length first + 1) p = pre @ first"
proof -
  have "drop (187 - length pre - length first) p = of_nat (length pre) # pre @ first" using assms(1) by (simp add: carries_def)
  then have "drop 1 (drop (187 - length pre - length first) p) = pre @ first" by simp
  then show ?thesis by (simp add: add.commute)
qed

lemma complete_split:
  assumes "n \<le> m"
  shows "drop (length (complete n ss)) (complete m ss) @ drop (length (complete m ss)) ss = drop (length (complete n ss)) ss"
proof -
  have "drop (length (complete n ss)) (complete m ss @ drop (length (complete m ss)) ss) =
      drop (length (complete n ss)) (complete m ss) @ drop (length (complete m ss)) ss"
    using complete_more [OF assms, of ss] by simp
  then show ?thesis unfolding complete_prefix by simp
qed

lemma feed_ready_secs:
  "feed_ready flts feed ss \<Longrightarrow> \<forall>s \<in> set ss'. valid_section s \<and> filters_for flts (feed_filter feed) s \<Longrightarrow> feed_ready flts feed ss'"
  by (simp add: feed_ready_def)

lemma collecting_end:
  assumes "collecting flts ss pad t feed" "drop t (concat ss @ pad) = []"
  shows "t = size_of ss + length pad" "complete t ss = ss"
proof -
  have "length (concat ss @ pad) \<le> t" using assms(2) by (simp only: drop_eq_Nil)
  moreover have "t \<le> size_of ss + length pad" using assms(1) by (simp add: collecting_def)
  ultimately show "t = size_of ss + length pad" by (simp add: size_of_def)
  then show "complete t ss = ss" by (simp add: complete_all)
qed

lemma group_next:
  assumes col: "collecting flts ss pad t feed" and tail: "drop t (concat ss @ pad) = rest"
    and pkt: "carries p ((feed_cc feed + 1) AND 0x0f) True (of_nat (length rest) # rest @ g_first g)"
    and room: "length rest + length (g_first g) \<le> 183" "rest @ g_first g \<noteq> []" and grp: "valid_group g"
    and secs: "\<forall>s \<in> set (g_secs g). valid_section s \<and> filters_for flts (feed_filter feed) s"
  shows "\<exists>feed' c'. dvb_dmx_swfilter_packet_type env flts feed c p = Some (feed', c') \<and>
    collecting flts (g_secs g) (g_pad g) (length (g_first g)) feed' \<and>
    feed_cc feed' = (feed_cc feed + 1) AND 0x0f \<and> feed_filter feed' = feed_filter feed \<and> check_crc feed' = check_crc feed \<and>
    (buffer_flags feed', c') = delivers env flts feed (buffer_flags feed, c)
      (drop (length (complete t ss)) ss @ complete (length (g_first g)) (g_secs g))"
proof -
  let ?cc = "(feed_cc feed + 1) AND 0x0f"
  let ?f = "feed\<lparr>feed_cc := ?cc\<rparr>" and ?off = "187 - length rest - length (g_first g) + 1"
  have f1: "continuity feed ?cc False = Some ?f" by (simp add: continuity_def)
  have col1: "collecting flts ss pad t ?f" using col by (simp add: collecting_def feed_ready_def)
  have end1: "t + length rest = size_of ss + length pad" using col tail by (auto simp: collecting_def size_of_def)
  have bound: "?off + length rest \<le> length p" using carries_payload(1) [OF pkt] room(1) by simp
  have win: "take (length rest) (drop ?off p) = take (length rest) (drop t (concat ss @ pad))"
    using start_payload [OF pkt room(1)] tail by simp
  have len: "t + length rest \<le> size_of ss + length pad" using end1 by simp
  from copy_dump_spec [OF col1 bound win len, of env c] obtain f2 c2 where
    f2: "dvb_dmx_swfilter_section_copy_dump env flts ?f c p ?off (length rest) = Some (f2, c2)"
    and c2: "collecting flts ss pad (t + length rest) f2" "feed_cc f2 = ?cc" "feed_filter f2 = feed_filter feed" "check_crc f2 = check_crc feed"
      "(buffer_flags f2, c2) = delivers env flts feed (buffer_flags feed, c) (drop (length (complete t ss)) (complete (t + length rest) ss))"
    by auto
  have new: "dvb_dmx_swfilter_section_new (f2\<lparr>pusi_seen := True\<rparr>) = Some (restarted (f2\<lparr>pusi_seen := True\<rparr>))"
    using c2(1) unfolding end1 by (rule section_new_collecting)
  have all: "complete (t + length rest) ss = ss" unfolding end1 by (simp add: complete_all)
  have ready: "feed_ready flts (restarted (f2\<lparr>pusi_seen := True\<rparr>)) (g_secs g)"
    using c2(1,3) secs by (simp add: collecting_def feed_ready_def)
  have first: "g_first g = take (length (g_first g)) (concat (g_secs g) @ g_pad g)"
    using grp unfolding valid_group_def by (metis append_eq_conv_conj)
  have gok: "group_ok (g_secs g) (g_pad g)" using grp by (simp add: valid_group_def)
  have sec: "feed_type feed = DMX_TYPE_SEC" "is_filtering feed" using col by (simp_all add: collecting_def feed_ready_def)
  from packet_start [OF pkt room f1 f2 new ready gok first sec] obtain feed' c' where
    r: "dvb_dmx_swfilter_packet_type env flts feed c p = Some (feed', c')" "collecting flts (g_secs g) (g_pad g) (length (g_first g)) feed'"
      "feed_cc feed' = feed_cc f2" "feed_filter feed' = feed_filter f2" "check_crc feed' = check_crc f2"
      "(buffer_flags feed', c') = delivers env flts f2 (buffer_flags f2, c2) (complete (length (g_first g)) (g_secs g))"
    by auto
  have "(buffer_flags feed', c') = delivers env flts feed (buffer_flags feed, c)
      (drop (length (complete t ss)) ss @ complete (length (g_first g)) (g_secs g))"
    unfolding foldl_append c2(5) [unfolded all, symmetric] using r(6) c2(3,4) by simp
  with r(1-5) c2(2-4) show ?thesis by (intro exI [of _ feed'] exI [of _ c'] conjI) simp_all
qed

lemma group_middle:
  assumes "collecting flts ss pad t feed" "drop t (concat ss @ pad) = concat ms @ rest" "[] \<notin> set ms"
    and "in_packets (feed_cc feed) (map (Pair False) ms @ pls) pkts"
  shows "\<exists>ps qs feed' c'. pkts = ps @ qs \<and> feed_packets env flts feed c ps = Some (feed', c') \<and>
    collecting flts ss pad (t + length (concat ms)) feed' \<and> in_packets (feed_cc feed') pls qs \<and>
    feed_filter feed' = feed_filter feed \<and> check_crc feed' = check_crc feed \<and>
    (buffer_flags feed', c') = delivers env flts feed (buffer_flags feed, c)
      (drop (length (complete t ss)) (complete (t + length (concat ms)) ss))"
  using assms
proof (induction ms arbitrary: t feed c pkts)
  case Nil
  then show ?case by (intro exI [of _ "[]"] exI [of _ pkts] exI [of _ feed] exI [of _ c]) simp
next
  case (Cons m ms)
  let ?n = "length m" and ?m = "length (concat ms)"
  obtain p ps where pkts: "pkts = p # ps" "carries p ((feed_cc feed + 1) AND 0x0f) False m"
    "in_packets ((feed_cc feed + 1) AND 0x0f) (map (Pair False) ms @ pls) ps"
    using Cons.prems(4) by (auto split: list.splits)
  have m: "m = take ?n (drop t (concat ss @ pad))" using Cons.prems(2) by simp
  from packet_continue [OF Cons.prems(1) pkts(2) m, of env c] obtain f1 c1 where
    f1: "dvb_dmx_swfilter_packet_type env flts feed c p = Some (f1, c1)" "collecting flts ss pad (t + ?n) f1"
      "feed_cc f1 = (feed_cc feed + 1) AND 0x0f" "feed_filter f1 = feed_filter feed" "check_crc f1 = check_crc feed"
      "(buffer_flags f1, c1) = delivers env flts feed (buffer_flags feed, c) (drop (length (complete t ss)) (complete (t + ?n) ss))" by auto
  have "drop ?n (drop t (concat ss @ pad)) = concat ms @ rest" unfolding Cons.prems(2) by simp
  then have drop: "drop (t + ?n) (concat ss @ pad) = concat ms @ rest" unfolding drop_drop by (simp only: add.commute)
  have mem: "[] \<notin> set ms" using Cons.prems(3) by simp
  from Cons.IH [OF f1(2) drop mem, of ps c1] pkts(3) f1(3) obtain qs1 qs f2 c2 where
    f2: "ps = qs1 @ qs" "feed_packets env flts f1 c1 qs1 = Some (f2, c2)" "collecting flts ss pad (t + ?n + ?m) f2"
      "in_packets (feed_cc f2) pls qs" "feed_filter f2 = feed_filter f1" "check_crc f2 = check_crc f1"
      "(buffer_flags f2, c2) = delivers env flts f1 (buffer_flags f1, c1) (drop (length (complete (t + ?n) ss)) (complete (t + ?n + ?m) ss))"
    by auto
  have parts: "drop (length (complete t ss)) (complete (t + ?n) ss) @ drop (length (complete (t + ?n) ss)) (complete (t + ?n + ?m) ss) =
      drop (length (complete t ss)) (complete (t + ?n + ?m) ss)"
    using complete_more [of t "t + ?n" ss] complete_more [of "t + ?n" "t + ?n + ?m" ss] by (simp add: add.assoc)
  have same: "delivers env flts f1 = delivers env flts feed" using f1(4,5) by simp
  have del: "(buffer_flags f2, c2) = delivers env flts feed (buffer_flags feed, c)
      (drop (length (complete t ss)) (complete (t + ?n + ?m) ss))"
    using f2(7) unfolding parts [symmetric] foldl_append f1(6) [symmetric] same .
  show ?case
  proof (intro exI conjI)
    show "pkts = (p # qs1) @ qs" using pkts(1) f2(1) by simp
    show "feed_packets env flts feed c (p # qs1) = Some (f2, c2)" using f1(1) f2(2) by simp
    show "collecting flts ss pad (t + length (concat (m # ms))) f2" using f2(3) by (simp add: add.assoc)
    show "in_packets (feed_cc f2) pls qs" by (rule f2(4))
    show "feed_filter f2 = feed_filter feed" "check_crc f2 = check_crc feed" using f2(5,6) f1(4,5) by simp_all
    show "(buffer_flags f2, c2) = delivers env flts feed (buffer_flags feed, c)
      (drop (length (complete t ss)) (complete (t + length (concat (m # ms))) ss))" using del by (simp add: add.assoc)
  qed
qed

lemma stream_collecting:
  assumes "collecting flts ss pad t feed" "drop t (concat ss @ pad) = concat ms @ rest" "[] \<notin> set ms"
    and "linked rest gs" "in_packets (feed_cc feed) (map (Pair False) ms @ payloads rest gs) pkts"
    and "\<forall>g \<in> set gs. \<forall>s \<in> set (g_secs g). valid_section s \<and> filters_for flts (feed_filter feed) s"
  shows "\<exists>feed' c'. feed_packets env flts feed c pkts = Some (feed', c') \<and>
    (buffer_flags feed', c') = delivers env flts feed (buffer_flags feed, c) (drop (length (complete t ss)) ss @ concat (map g_secs gs))"
  using assms
proof (induction gs arbitrary: ss pad t feed c ms rest pkts)
  case Nil
  let ?n = "length (concat ms)"
  from group_middle [OF Nil.prems(1,2,3,5), of env c] obtain ps qs f1 c1 where
    f1: "pkts = ps @ qs" "feed_packets env flts feed c ps = Some (f1, c1)" "collecting flts ss pad (t + ?n) f1" "in_packets (feed_cc f1) (payloads rest []) qs"
      "(buffer_flags f1, c1) = delivers env flts feed (buffer_flags feed, c) (drop (length (complete t ss)) (complete (t + ?n) ss))" by blast
  have "drop ?n (drop t (concat ss @ pad)) = rest" unfolding Nil.prems(2) by simp
  then have "drop (t + ?n) (concat ss @ pad) = []" using Nil.prems(4) unfolding drop_drop by (simp only: add.commute linked.simps)
  from collecting_end(2) [OF f1(3) this] f1 show ?case by auto
next
  case (Cons g gs)
  let ?n = "length (concat ms)"
  from group_middle [OF Cons.prems(1,2,3,5), of env c] obtain ps qs f1 c1 where
    f1: "pkts = ps @ qs" "feed_packets env flts feed c ps = Some (f1, c1)" "collecting flts ss pad (t + ?n) f1"
      "in_packets (feed_cc f1) (payloads rest (g # gs)) qs" "feed_filter f1 = feed_filter feed" "check_crc f1 = check_crc feed"
      "(buffer_flags f1, c1) = delivers env flts feed (buffer_flags feed, c) (drop (length (complete t ss)) (complete (t + ?n) ss))" by blast
  have "drop ?n (drop t (concat ss @ pad)) = rest" unfolding Cons.prems(2) by simp
  then have tail: "drop (t + ?n) (concat ss @ pad) = rest" unfolding drop_drop by (simp only: add.commute)
  obtain p qs1 where p: "qs = p # qs1" "carries p ((feed_cc f1 + 1) AND 0x0f) True (of_nat (length rest) # rest @ g_first g)"
    "in_packets ((feed_cc f1 + 1) AND 0x0f) (map (Pair False) (g_mids g) @ payloads (g_last g) gs) qs1"
    using f1(4) by (auto split: list.splits)
  have lk: "length rest + length (g_first g) \<le> 183" "rest @ g_first g \<noteq> []" "valid_group g" "linked (g_last g) gs" using Cons.prems(4) by simp_all
  have secs: "\<forall>s \<in> set (g_secs g). valid_section s \<and> filters_for flts (feed_filter f1) s" using Cons.prems(6) f1(5) by simp
  from group_next [OF f1(3) tail p(2) lk(1,2,3) secs, of env c1] obtain f2 c2 where
    f2: "dvb_dmx_swfilter_packet_type env flts f1 c1 p = Some (f2, c2)" "collecting flts (g_secs g) (g_pad g) (length (g_first g)) f2"
      "feed_cc f2 = (feed_cc f1 + 1) AND 0x0f" "feed_filter f2 = feed_filter f1" "check_crc f2 = check_crc f1"
      "(buffer_flags f2, c2) = delivers env flts f1 (buffer_flags f1, c1)
        (drop (length (complete (t + ?n) ss)) ss @ complete (length (g_first g)) (g_secs g))" by blast
  have dm: "drop (length (g_first g)) (concat (g_secs g) @ g_pad g) = concat (g_mids g) @ g_last g" "[] \<notin> set (g_mids g)"
    using lk(3) unfolding valid_group_def by (metis append_eq_conv_conj, blast)
  have secs': "\<forall>g \<in> set gs. \<forall>s \<in> set (g_secs g). valid_section s \<and> filters_for flts (feed_filter f2) s"
    using Cons.prems(6) f1(5) f2(4) by simp
  have pk: "in_packets (feed_cc f2) (map (Pair False) (g_mids g) @ payloads (g_last g) gs) qs1" using p(3) f2(3) by simp
  from Cons.IH [OF f2(2) dm lk(4) pk secs', of c2] obtain f3 c3 where
    f3: "feed_packets env flts f2 c2 qs1 = Some (f3, c3)"
      "(buffer_flags f3, c3) = delivers env flts f2 (buffer_flags f2, c2)
        (drop (length (complete (length (g_first g)) (g_secs g))) (g_secs g) @ concat (map g_secs gs))" by blast
  have "feed_packets env flts feed c pkts = Some (f3, c3)"
    using f1(1,2) p(1) f2(1) f3(1) by (simp add: feed_packets_append)
  moreover have "(buffer_flags f3, c3) = delivers env flts feed (buffer_flags feed, c)
      (drop (length (complete t ss)) ss @ concat (map g_secs (g # gs)))"
  proof -
    have a: "drop (length (complete t ss)) ss @ concat (map g_secs (g # gs)) =
        drop (length (complete t ss)) (complete (t + ?n) ss) @ (drop (length (complete (t + ?n) ss)) ss @ complete (length (g_first g)) (g_secs g)) @
        (drop (length (complete (length (g_first g)) (g_secs g))) (g_secs g) @ concat (map g_secs gs))"
      using complete_split [of t "t + ?n" ss] complete_prefix [of "length (g_first g)" "g_secs g"]
      by (metis (no_types, lifting) append.assoc concat.simps(2) le_add1 list.simps(9))
    have same: "delivers env flts f1 = delivers env flts feed" "delivers env flts f2 = delivers env flts feed"
      using f1(5,6) f2(4,5) by simp_all
    show ?thesis unfolding a foldl_append f1(7) [symmetric] f2(6) [unfolded same foldl_append, symmetric] f3(2) [unfolded same foldl_append, symmetric] ..
  qed
  ultimately show ?case by blast
qed

section \<open>Tuning in\<close>

text \<open>Until the first start indicator nothing is handed out.\<close>

definition tuning :: "dvb_demux_feed \<Rightarrow> bool" where
  "tuning feed \<longleftrightarrow> feed_type feed = DMX_TYPE_SEC \<and> is_filtering feed \<and> \<not> pusi_seen feed \<and> sec_inv feed"

definition continuation_packet :: "u8 list \<Rightarrow> bool" where
  "continuation_packet p \<longleftrightarrow> length p = 188 \<and> payload p \<noteq> Some 0 \<and> p ! 1 AND 0x40 = 0"

lemma tuning_packet:
  assumes "tuning feed" "continuation_packet p"
  shows "\<exists>feed'. dvb_dmx_swfilter_packet_type env flts feed c p = Some (feed', c) \<and> tuning feed' \<and>
    feed_filter feed' = feed_filter feed \<and> check_crc feed' = check_crc feed"
proof -
  have p: "length p = 188" "p ! 1 AND 0x40 = 0" using assms(2) by (simp_all add: continuation_packet_def)
  from payload_Some [OF p(1)] assms(2) obtain n where n: "payload p = Some n" "n \<noteq> 0" by (auto simp: continuation_packet_def)
  have inv: "sec_inv feed" using assms(1) by (simp add: tuning_def)
  obtain f1 where f1: "continuity feed (p ! 3 AND 0x0f) (discontinuity p) = Some f1" "sec_inv f1" "feed_filter f1 = feed_filter feed"
    "check_crc f1 = check_crc feed" "is_filtering f1 = is_filtering feed" "pusi_seen f1 \<longrightarrow> pusi_seen feed" "feed_type f1 = feed_type feed"
    by (rule continuity_total [OF inv]) blast
  have np: "\<not> pusi_seen f1" using f1(6) assms(1) by (simp add: tuning_def)
  have bound: "188 - n + n \<le> length p" using payload_bound [OF n(1)] p(1) by simp
  from np have "pusi_seen f1 \<longrightarrow> readable flts f1" by simp
  from copy_dump_total [OF this f1(2) bound, of env c] np obtain f2 where
    f2: "dvb_dmx_swfilter_section_copy_dump env flts f1 c p (188 - n) n = Some (f2, c)" "sec_inv f2" "pusi_seen f2 = pusi_seen f1"
      "feed_filter f2 = feed_filter f1" "check_crc f2 = check_crc f1" "is_filtering f2 = is_filtering f1" "feed_type f2 = feed_type f1" by auto
  have "dvb_dmx_swfilter_section_packet env flts feed c p = Some (f2, c, 0)"
    using section_packet_eq [OF p(1) n, of env flts feed c] f1(1) f2(1) p(2) by simp
  then have "dvb_dmx_swfilter_packet_type env flts feed c p = Some (f2, c)"
    using assms(1) by (intro packet_type_sec) (simp_all add: tuning_def)
  moreover have "tuning f2" using assms(1) f1 f2 np by (simp add: tuning_def)
  ultimately show ?thesis using f1 f2 by simp
qed

lemma tuning_packets:
  assumes "tuning feed" "\<forall>p \<in> set ps. continuation_packet p"
  shows "\<exists>feed'. feed_packets env flts feed c ps = Some (feed', c) \<and> tuning feed' \<and>
    feed_filter feed' = feed_filter feed \<and> check_crc feed' = check_crc feed"
  using assms
proof (induction ps arbitrary: feed)
  case (Cons p ps)
  from tuning_packet [OF Cons.prems(1), of p env flts c] Cons.prems(2) obtain f1 where
    f1: "dvb_dmx_swfilter_packet_type env flts feed c p = Some (f1, c)" "tuning f1" "feed_filter f1 = feed_filter feed" "check_crc f1 = check_crc feed"
    by auto
  from Cons.IH [OF f1(2)] Cons.prems(2) f1 show ?case by auto
qed simp

lemma tuning_start:
  assumes tun: "tuning feed" and pkt: "carries p cc True (of_nat (length pre) # pre @ g_first g)"
    and room: "length pre + length (g_first g) \<le> 183" "pre @ g_first g \<noteq> []" and grp: "valid_group g"
    and flt: "feed_filter feed \<noteq> []"
    and secs: "\<forall>s \<in> set (g_secs g). valid_section s \<and> filters_for flts (feed_filter feed) s"
  shows "\<exists>feed' c' fl. dvb_dmx_swfilter_packet_type env flts feed c p = Some (feed', c') \<and>
    collecting flts (g_secs g) (g_pad g) (length (g_first g)) feed' \<and>
    feed_cc feed' = cc \<and> feed_filter feed' = feed_filter feed \<and> check_crc feed' = check_crc feed \<and>
    (buffer_flags feed', c') = delivers env flts feed (fl, c) (complete (length (g_first g)) (g_secs g))"
proof -
  let ?off = "187 - length pre - length (g_first g) + 1"
  have inv: "sec_inv feed" and sec: "feed_type feed = DMX_TYPE_SEC" "is_filtering feed" using tun by (simp_all add: tuning_def)
  obtain f1 where f1: "continuity feed cc False = Some f1" "sec_inv f1" "feed_filter f1 = feed_filter feed" "feed_cc f1 = cc"
    "check_crc f1 = check_crc feed" "is_filtering f1 = is_filtering feed" "pusi_seen f1 \<longrightarrow> pusi_seen feed" "feed_type f1 = feed_type feed"
    by (rule continuity_total [OF inv]) blast
  have np: "\<not> pusi_seen f1" using f1(7) tun by (simp add: tuning_def)
  then have r: "pusi_seen f1 \<longrightarrow> readable flts f1" by simp
  have bound: "?off + length pre \<le> length p" using carries_payload(1) [OF pkt] room(1) by simp
  from copy_dump_total [OF r f1(2) bound, of env c] np obtain f2 where
    f2: "dvb_dmx_swfilter_section_copy_dump env flts f1 c p ?off (length pre) = Some (f2, c)" "sec_inv f2" "feed_cc f2 = feed_cc f1"
      "feed_filter f2 = feed_filter f1" "check_crc f2 = check_crc f1" "is_filtering f2 = is_filtering f1" "feed_type f2 = feed_type f1" by auto
  have inv2: "sec_inv (f2\<lparr>pusi_seen := True\<rparr>)" using f2(2) by (simp add: sec_inv_def)
  obtain g' where g': "dvb_dmx_swfilter_section_new (f2\<lparr>pusi_seen := True\<rparr>) = Some (restarted g')"
    "g' = f2\<lparr>pusi_seen := True\<rparr> \<or> g' = set_buf_flags (f2\<lparr>pusi_seen := True\<rparr>) DMX_BUFFER_FLAG_DISCONTINUITY_DETECTED"
    by (rule section_new_total [OF inv2])
  have ready: "feed_ready flts (restarted g') (g_secs g)"
    using g'(2) f1 f2 sec flt secs by (auto simp: feed_ready_def set_buf_flags_def sec_inv_def)
  have first: "g_first g = take (length (g_first g)) (concat (g_secs g) @ g_pad g)"
    using grp unfolding valid_group_def by (metis append_eq_conv_conj)
  have gok: "group_ok (g_secs g) (g_pad g)" using grp by (simp add: valid_group_def)
  have gf: "feed_cc g' = cc" "feed_filter g' = feed_filter feed" "check_crc g' = check_crc feed"
    using g'(2) f1 f2 by (auto simp: set_buf_flags_def)
  from packet_start [OF pkt room f1(1) f2(1) g'(1) ready gok first sec] gf show ?thesis by auto
qed

lemma section_stream:
  assumes "tuning feed" "feed_filter feed \<noteq> []" "\<forall>p \<in> set junk. continuation_packet p"
    and "linked pre gs" "gs \<noteq> []" "in_packets cc (payloads pre gs) pkts"
    and "\<forall>g \<in> set gs. \<forall>s \<in> set (g_secs g). valid_section s \<and> filters_for flts (feed_filter feed) s"
  shows "\<exists>feed' c' fl. feed_packets env flts feed c (junk @ pkts) = Some (feed', c') \<and>
    (buffer_flags feed', c') =
      foldl (\<lambda>st s. deliver env flts (feed_filter feed) (check_crc feed) s st) (fl, c) (concat (map g_secs gs))"
proof -
  obtain g gs' where gs: "gs = g # gs'" using assms(5) by (cases gs) auto
  from tuning_packets [OF assms(1,3), of env flts c] obtain f0 where
    f0: "feed_packets env flts feed c junk = Some (f0, c)" "tuning f0" "feed_filter f0 = feed_filter feed" "check_crc f0 = check_crc feed" by blast
  obtain p ps where p: "pkts = p # ps" "carries p ((cc + 1) AND 0x0f) True (of_nat (length pre) # pre @ g_first g)"
    "in_packets ((cc + 1) AND 0x0f) (map (Pair False) (g_mids g) @ payloads (g_last g) gs') ps"
    using assms(6) unfolding gs by (auto split: list.splits)
  have lk: "length pre + length (g_first g) \<le> 183" "pre @ g_first g \<noteq> []" "valid_group g" "linked (g_last g) gs'"
    using assms(4) unfolding gs by simp_all
  have flt: "feed_filter f0 \<noteq> []" using assms(2) f0(3) by simp
  have secs: "\<forall>s \<in> set (g_secs g). valid_section s \<and> filters_for flts (feed_filter f0) s" using assms(7) f0(3) unfolding gs by simp
  from tuning_start [OF f0(2) p(2) lk(1,2,3) flt secs, of env c] obtain f1 c1 fl where
    f1: "dvb_dmx_swfilter_packet_type env flts f0 c p = Some (f1, c1)" "collecting flts (g_secs g) (g_pad g) (length (g_first g)) f1"
      "feed_cc f1 = (cc + 1) AND 0x0f" "feed_filter f1 = feed_filter f0" "check_crc f1 = check_crc f0"
      "(buffer_flags f1, c1) = delivers env flts f0 (fl, c) (complete (length (g_first g)) (g_secs g))" by blast
  have dm: "drop (length (g_first g)) (concat (g_secs g) @ g_pad g) = concat (g_mids g) @ g_last g" "[] \<notin> set (g_mids g)"
    using lk(3) unfolding valid_group_def by (metis append_eq_conv_conj, blast)
  have pk: "in_packets (feed_cc f1) (map (Pair False) (g_mids g) @ payloads (g_last g) gs') ps" using p(3) f1(3) by simp
  have secs': "\<forall>g \<in> set gs'. \<forall>s \<in> set (g_secs g). valid_section s \<and> filters_for flts (feed_filter f1) s"
    using assms(7) f0(3) f1(4) unfolding gs by simp
  from stream_collecting [OF f1(2) dm lk(4) pk secs', of env c1] obtain f2 c2 where
    f2: "feed_packets env flts f1 c1 ps = Some (f2, c2)"
      "(buffer_flags f2, c2) = delivers env flts f1 (buffer_flags f1, c1)
        (drop (length (complete (length (g_first g)) (g_secs g))) (g_secs g) @ concat (map g_secs gs'))" by blast
  have run: "feed_packets env flts feed c (junk @ pkts) = Some (f2, c2)"
    using f0(1) f1(1) f2(1) p(1) by (simp add: feed_packets_append)
  have same: "delivers env flts f0 = delivers env flts feed" "delivers env flts f1 = delivers env flts feed"
    using f0(3,4) f1(4,5) by simp_all
  have parts: "concat (map g_secs gs) = complete (length (g_first g)) (g_secs g) @
      (drop (length (complete (length (g_first g)) (g_secs g))) (g_secs g) @ concat (map g_secs gs'))"
    unfolding gs using complete_prefix [of "length (g_first g)" "g_secs g"] by simp
  have "(buffer_flags f2, c2) = delivers env flts feed (fl, c) (concat (map g_secs gs))"
    using f2(2) unfolding parts foldl_append [of _ _ "complete _ _"] f1(6) [unfolded same, symmetric] same .
  with run show ?thesis by blast
qed

text \<open>
  C38: The section filter is lossless. Take a section feed that has not yet seen a start indicator, in any state of its buffer, with at least one
  filter and any client. Let any packets without start indicator arrive (the tail of a section that began before), and then a stream of packets
  that carries groups of sections and stuffing with pointer fields, cut into packets at any place, each of which has payload, the next value of the
  continuity counter and no discontinuity indicator (with a packet that has only an adaptation field it fails, \<open>empty_packet_repeats\<close>), the first packet beginning with
  any bytes \<open>pre\<close> of an old section. Then every section of the stream is handed out exactly once, complete and in order, to exactly the
  filters that take it (or dropped because of its CRC), and nothing else is.
\<close>

theorem section_stream_lossless:
  assumes "tuning feed" "feed_filter feed \<noteq> []" "\<forall>p \<in> set junk. continuation_packet p"
    and "linked pre gs" "gs \<noteq> []" "in_packets cc (payloads pre gs) pkts"
    and "\<forall>g \<in> set gs. \<forall>s \<in> set (g_secs g). valid_section s \<and> filters_for flts (feed_filter feed) s"
  shows "\<exists>feed' c' fl. feed_packets env flts feed c (junk @ pkts) = Some (feed', c') \<and>
    (buffer_flags feed', c') =
      foldl (\<lambda>st s. deliver env flts (feed_filter feed) (check_crc feed) s st) (fl, c) (concat (map g_secs gs))"
  by (rule section_stream [OF assms])

section \<open>Packets without payload\<close>

text \<open>
  A packet that has only an adaptation field makes \<^verbatim>\<open>dvb_dmx_swfilter_section_packet\<close> return $-1$, and
  \<^verbatim>\<open>dvb_dmx_swfilter_packet_type\<close> then sets \<^verbatim>\<open>secbufp\<close> back, but neither \<^verbatim>\<open>secbuf\<close> nor \<^verbatim>\<open>tsfeedp\<close>.
\<close>

lemma empty_packet:
  assumes "feed_type feed = DMX_TYPE_SEC" "is_filtering feed" "payload e = Some 0"
  shows "dvb_dmx_swfilter_packet_type env flts feed c e = Some (feed\<lparr>seclen := 0, secbufp := 0\<rparr>, c)"
  using assms by (simp add: dvb_dmx_swfilter_packet_type_def dvb_dmx_swfilter_section_packet_def)

text \<open>
  A packet without payload makes the section filter hand out sections twice. In the middle of a group of sections, after which those that
  are complete have been handed out, a packet of the same PID that carries only an adaptation field (which MPEG-2 allows at any time and
  which does not count in the continuity counter) is followed by the next packet of the group: then all sections of
  the group are handed out again from the first one on.
\<close>

theorem empty_packet_repeats:
  assumes "collecting flts ss pad t feed" "payload e = Some 0"
    and "carries p ((feed_cc feed + 1) AND 0x0f) False pl" "pl = take (length pl) (drop t (concat ss @ pad))"
  shows "\<exists>feed' c'. feed_packets env flts feed c [e, p] = Some (feed', c') \<and>
    (buffer_flags feed', c') =
      foldl (\<lambda>st s. deliver env flts (feed_filter feed) (check_crc feed) s st) (buffer_flags feed, c) (complete (t + length pl) ss)"
proof -
  note pl = carries_payload [OF assms(3)]
  have sec: "feed_type feed = DMX_TYPE_SEC" "is_filtering feed" using assms(1) by (simp_all add: collecting_def feed_ready_def)
  let ?e = "feed\<lparr>seclen := 0, secbufp := 0\<rparr>"
  let ?f = "?e\<lparr>feed_cc := (feed_cc feed + 1) AND 0x0f\<rparr>"
  have c0: "complete 0 ss = []" using assms(1) by (cases ss) (auto simp: collecting_def feed_ready_def valid_section_def)
  have buf: "buffered flts ss pad t 0 ?f" using assms(1) c0 by (simp add: collecting_def buffered_def feed_ready_def)
  have cont: "continuity ?e (p ! 3 AND 0x0f) (discontinuity p) = Some ?f" using pl(5,6) by (simp add: continuity_def)
  have bound: "188 - length pl + length pl \<le> length p" using pl(1,3) by simp
  have win: "take (length pl) (drop (188 - length pl) p) = take (length pl) (drop t (concat ss @ pad))"
    using assms(4) pl(8) by (metis take_all_iff le_refl)
  have len: "t + length pl \<le> size_of ss + length pad"
  proof -
    have "length pl \<le> length (drop t (concat ss @ pad))" using assms(4) by (metis length_take min.cobounded1)
    then show ?thesis using pl(4) unfolding size_of_def length_drop length_append by linarith
  qed
  from copy_dump_buffered [OF buf bound pl(4) win len, of env c] c0 obtain f' c' where
    f': "dvb_dmx_swfilter_section_copy_dump env flts ?f c p (188 - length pl) (length pl) = Some (f', c')"
      "(buffer_flags f', c') = delivers env flts feed (buffer_flags feed, c) (complete (t + length pl) ss)" by auto
  have "dvb_dmx_swfilter_section_packet env flts ?e c p = Some (f', c', 0)"
    using section_packet_eq [OF pl(1,2,4), of env flts ?e c] cont f'(1) pl(7) by simp
  then have "dvb_dmx_swfilter_packet_type env flts ?e c p = Some (f', c')" using sec by (intro packet_type_sec) simp_all
  with empty_packet [OF sec assms(2), of env flts c] f'(2) show ?thesis by simp
qed

text \<open>
  C40: A packet without payload makes the section filter read far outside its buffer. When the section at position \<open>k\<close> of the buffer
  is followed by stuffing, so that the pointer \<^verbatim>\<open>secbuf\<close> is at a byte \<^verbatim>\<open>0xff\<close>, a packet without payload and then the start of a new section
  make \<^verbatim>\<open>dvb_dmx_swfilter_section_new\<close> look at the byte \<open>k + tsfeedp - 1\<close>, up to about the size of the buffer behind its end: the model
  has no result then.
\<close>

theorem empty_packet_overruns:
  assumes "tsfeedp feed \<noteq> 0" "tsfeedp feed \<le> DMX_MAX_SECFEED_SIZE" "secbuf feed < length (secbuf_base feed)"
    and "secbuf_base feed ! secbuf feed = 0xff" "length (secbuf_base feed) \<le> secbuf feed + (tsfeedp feed - 1)"
    and "feed_type feed = DMX_TYPE_SEC" "is_filtering feed" "payload e = Some 0"
    and "carries p ((feed_cc feed + 1) AND 0x0f) True (0 # first)" "first \<noteq> []"
  shows "feed_packets env flts feed c [e, p] = None"
proof -
  note pl = carries_payload [OF assms(9)]
  let ?f = "feed\<lparr>seclen := 0, secbufp := 0, feed_cc := (feed_cc feed + 1) AND 0x0f\<rparr>"
  let ?n = "length (0 # first)"
  have cont: "continuity (feed\<lparr>seclen := 0, secbufp := 0\<rparr>) (p ! 3 AND 0x0f) (discontinuity p) = Some ?f"
    using pl(5,6) by (simp add: continuity_def)
  have ptr: "p ! (188 - ?n) = 0" using pl(9) [of 0] by simp
  have copy: "dvb_dmx_swfilter_section_copy_dump env flts ?f c p off 0 = Some (?f, c)" for off
    using assms(2) by (simp add: dvb_dmx_swfilter_section_copy_dump_def)
  have new: "dvb_dmx_swfilter_section_new (?f\<lparr>pusi_seen := True\<rparr>) = None"
    using assms(1,3,4,5) by (simp add: dvb_dmx_swfilter_section_new_def mem_get_def Let_def)
  have "1 < ?n \<and> unat (p ! (188 - ?n)) < ?n" using ptr assms(10) by simp
  then have "dvb_dmx_swfilter_section_packet env flts (feed\<lparr>seclen := 0, secbufp := 0\<rparr>) c p = None"
    using section_packet_eq [OF pl(1,2,4), of env flts "feed\<lparr>seclen := 0, secbufp := 0\<rparr>" c] cont pl(7) ptr copy new by simp
  then have "dvb_dmx_swfilter_packet_type env flts (feed\<lparr>seclen := 0, secbufp := 0\<rparr>) c p = None"
    using assms(6,7) by (simp add: dvb_dmx_swfilter_packet_type_def)
  with empty_packet [OF assms(6,7,8), of env flts c] show ?thesis by simp
qed

section \<open>Witnesses\<close>

text \<open>A client that records what it gets, a filter for one table, and packets with an adaptation field that fills them up.\<close>

definition recorder :: "(nat \<times> u8 list) list dmx_env" where
  "recorder = \<lparr>cb_ts = (\<lambda>i bs fl c. (0, fl, c @ [(i, bs)])), cb_sec = (\<lambda>i bs fl c. (0, fl, c @ [(i, bs)])),
     write_to_decoder = None, crc32_be = (\<lambda>v bs. 0)\<rparr>"

definition table_filter :: "u8 \<Rightarrow> dvb_demux_filter" where
  "table_filter tid = \<lparr>filter_value = tid # replicate 17 0, filter_mask = 0xff # replicate 17 0, filter_mode = replicate 18 0xff,
     maskandmode = 0xff # replicate 17 0, maskandnotmode = replicate 18 0, doneq = False, flt_feed = 0, flt_state = DMX_STATE_READY,
     flt_type = DMX_TYPE_SEC\<rparr>"

definition make_packet :: "bool \<Rightarrow> u8 \<Rightarrow> u8 list \<Rightarrow> u8 list" where
  "make_packet pusi cc pl = [0x47, if pusi then 0x40 else 0, 0x10, 0x30 OR cc, of_nat (183 - length pl), 0] @ replicate (182 - length pl) 0xff @ pl"

definition example_feed :: dvb_demux_feed where
  "example_feed = \<lparr>is_filtering = True, check_crc = False, crc_val = 0, secbuf = 0, secbuf_base = replicate 4299 0, secbufp = 0, seclen = 0,
     tsfeedp = 0, feed_type = DMX_TYPE_SEC, feed_state = DMX_STATE_GO, feed_pid = 0x10, feed_filter = [0], buffer_flags = 0, ts_type = 0, pes_type = 0,
     feed_cc = 0, pusi_seen = False, peslen = 0, feed_index = 0\<rparr>"

definition example_section :: "u8 list" where "example_section = [0x42, 0, 1, 0xaa]"

lemma table_filter_nth:
  "i < 18 \<Longrightarrow> filter_value (table_filter tid) ! i = (if i = 0 then tid else 0)"
  "i < 18 \<Longrightarrow> filter_mask (table_filter tid) ! i = (if i = 0 then 0xff else 0)"
  "i < 18 \<Longrightarrow> filter_mode (table_filter tid) ! i = 0xff"
  by (auto simp: table_filter_def nth_Cons simp del: replicate.simps split: nat.splits)

lemma table_filter_prepared: "prepared (table_filter tid)"
proof -
  have "filter_mask (table_filter tid) ! i AND NOT (filter_mode (table_filter tid) ! i) = 0" if "i < 18" for i
    using that by (simp add: table_filter_nth)
  moreover have "maskandmode (table_filter tid) = map2 (AND) (filter_mask (table_filter tid)) (filter_mode (table_filter tid))"
    "maskandnotmode (table_filter tid) = map2 (\<lambda>m d. m AND NOT d) (filter_mask (table_filter tid)) (filter_mode (table_filter tid))"
    by (simp_all add: table_filter_def numeral_eq_Suc)
  ultimately show ?thesis by (auto simp: prepared_def) (simp_all add: table_filter_def)
qed

lemma table_filter_covers: "s \<noteq> [] \<Longrightarrow> covers (table_filter tid) s"
  by (auto simp: covers_def table_filter_nth)

lemma table_filter_matches:
  assumes "s \<noteq> []"
  shows "matches (table_filter tid) s \<longleftrightarrow> s ! 0 = tid"
proof -
  have ff: "(0xff :: u8) AND x = x" for x
    by (rule u8_eqI, unfold upt_8) (simp add: bit_simps)
  have "tid XOR s ! 0 = 0 \<longleftrightarrow> s ! 0 = tid" by (auto simp: bit_eq_iff bit_xor_iff)
  then have "(\<forall>i<min 18 (length s). filter_mask (table_filter tid) ! i AND filter_mode (table_filter tid) ! i AND
      (filter_value (table_filter tid) ! i XOR s ! i) = 0) \<longleftrightarrow> s ! 0 = tid"
    using assms by (auto simp: table_filter_nth ff)
  moreover have "\<not> (\<exists>i<18. filter_mask (table_filter tid) ! i AND NOT (filter_mode (table_filter tid) ! i) \<noteq> 0)"
    by (auto simp: table_filter_nth)
  ultimately show ?thesis unfolding matches_def by blast
qed

lemma example_matches: "matches (table_filter 0x42) example_section"
  by (simp add: table_filter_matches example_section_def)

lemma example_valid: "valid_section example_section"
  by (simp add: valid_section_def example_section_def section_length_def DMX_MAX_SECTION_SIZE_def)

lemma make_packet_carries:
  assumes "0 < length pl" "length pl \<le> 182" "cc \<in> {0, 1, 2, 3}"
  shows "carries (make_packet pusi cc pl) cc pusi pl"
proof -
  have n: "unat (of_nat (183 - length pl) :: u8) = 183 - length pl" by (simp add: unat_of_nat)
  have gt: "\<not> (183 :: u8) < of_nat (183 - length pl)" using n by (simp add: word_less_nat_alt)
  have len: "length (make_packet pusi cc pl) = 188" using assms(2) by (simp add: make_packet_def)
  have pay: "payload (make_packet pusi cc pl) = Some (length pl)"
    using assms n gt by (auto simp: payload_def mem_get_def len) (simp_all add: make_packet_def)
  define hdr where "hdr = [0x47, if pusi then 0x40 else 0, 0x10, 0x30 OR cc, of_nat (183 - length pl), 0] @ replicate (182 - length pl) 0xff"
  have "make_packet pusi cc pl = hdr @ pl" "length hdr = 188 - length pl" using assms(2) by (simp_all add: make_packet_def hdr_def)
  then have "drop (188 - length pl) (make_packet pusi cc pl) = pl" by simp
  with assms len pay show ?thesis by (auto simp: carries_def make_packet_def)
qed

theorem section_packet_safe_witness:
  "\<exists>feed' c' r. dvb_dmx_swfilter_section_packet recorder [table_filter 0x42] example_feed [] (make_packet True 1 (0 # example_section)) =
    Some (feed', c', r) \<and> sec_inv feed'"
proof -
  have "carries (make_packet True 1 (0 # example_section)) 1 True (0 # example_section)"
    by (rule make_packet_carries) (simp_all add: example_section_def)
  then have l: "length (make_packet True 1 (0 # example_section)) = 188" by (simp add: carries_def)
  have "sec_inv example_feed" by (simp add: sec_inv_def example_feed_def DMX_MAX_SECFEED_SIZE_def DMX_MAX_SECTION_SIZE_def)
  moreover have "readable [table_filter 0x42] example_feed"
    by (simp add: readable_def example_feed_def DMX_MAX_SECFEED_SIZE_def DMX_MAX_SECTION_SIZE_def filter_sized_def table_filter_def)
  ultimately show ?thesis using section_packet_safe [OF l, of example_feed "[table_filter 0x42]" recorder "[]"] by blast
qed

text \<open>The section is cut into two packets; the stream starts in the middle of an old section.\<close>

definition example_group :: section_group where
  "example_group = \<lparr>g_secs = [example_section], g_pad = [0xff, 0xff, 0xff], g_first = [0x42, 0], g_mids = [[1, 0xaa, 0xff, 0xff, 0xff]], g_last = []\<rparr>"

lemma example_group_ok: "group_ok (g_secs example_group) (g_pad example_group)"
  by (simp add: group_ok_def example_group_def stuffing_def example_section_def DMX_MAX_SECFEED_SIZE_def DMX_MAX_SECTION_SIZE_def)

lemma example_filters: "filters_for [table_filter 0x42] [0] example_section"
  using table_filter_prepared table_filter_covers by (simp add: filters_for_def example_section_def)

theorem section_stream_lossless_witness:
  "\<exists>feed'. feed_packets recorder [table_filter 0x42] example_feed []
    ([make_packet False 3 [1, 2, 3]] @ [make_packet True 1 [1, 0xbb, 0x42, 0], make_packet False 2 [1, 0xaa, 0xff, 0xff, 0xff]]) =
      Some (feed', [(0, example_section)])"
proof -
  let ?pkts = "[make_packet True 1 [1, 0xbb, 0x42, 0], make_packet False 2 [1, 0xaa, 0xff, 0xff, 0xff]]"
  have tun: "tuning example_feed"
    by (simp add: tuning_def sec_inv_def example_feed_def DMX_MAX_SECFEED_SIZE_def DMX_MAX_SECTION_SIZE_def)
  have "carries (make_packet False 3 [1, 2, 3]) 3 False [1, 2, 3]" by (rule make_packet_carries) simp_all
  then have junk: "\<forall>p \<in> set [make_packet False 3 [1, 2, 3]]. continuation_packet p"
    by (auto simp: carries_def continuation_packet_def)
  have "linked [0xbb] [example_group]"
    using example_group_ok by (simp add: valid_group_def) (simp add: example_group_def example_section_def)
  moreover have "in_packets 0 (payloads [0xbb] [example_group]) ?pkts"
    using make_packet_carries [of "[1, 0xbb, 0x42, 0]" 1 True] make_packet_carries [of "[1, 0xaa, 0xff, 0xff, 0xff]" 2 False]
    by (simp add: example_group_def)
  moreover have "\<forall>g \<in> set [example_group]. \<forall>s \<in> set (g_secs g). valid_section s \<and> filters_for [table_filter 0x42] (feed_filter example_feed) s"
    using example_valid example_filters by (simp add: example_group_def example_feed_def)
  ultimately obtain feed' c' fl where
    r: "feed_packets recorder [table_filter 0x42] example_feed [] ([make_packet False 3 [1, 2, 3]] @ ?pkts) = Some (feed', c')"
      "(buffer_flags feed', c') = foldl (\<lambda>st s. deliver recorder [table_filter 0x42] (feed_filter example_feed) (check_crc example_feed) s st)
        (fl, []) (concat (map g_secs [example_group]))"
    using section_stream_lossless [OF tun _ junk, of "[0xbb]" "[example_group]" 0 ?pkts "[table_filter 0x42]" recorder "[]"]
    by (auto simp: example_feed_def)
  have "c' = [(0, example_section)]"
    using r(2) example_matches by (simp add: example_feed_def example_group_def deliver_def recorder_def)
  with r(1) show ?thesis by blast
qed

text \<open>A packet with an adaptation field only.\<close>

definition adaptation_packet :: "u8 list" where
  "adaptation_packet = [0x47, 0, 0x10, 0x20, 183, 0] @ replicate 182 0xff"

lemma adaptation_packet_empty: "payload adaptation_packet = Some 0"
  by (simp add: payload_def mem_get_def adaptation_packet_def)

definition collected_feed :: dvb_demux_feed where
  "collected_feed = example_feed\<lparr>secbuf_base := example_section @ replicate 4295 0xff, secbufp := 4, secbuf := 4, tsfeedp := 4, pusi_seen := True\<rparr>"

theorem empty_packet_repeats_witness:
  "\<exists>feed'. feed_packets recorder [table_filter 0x42] collected_feed [(0, example_section)] [adaptation_packet, make_packet False 1 [0xff]] =
    Some (feed', [(0, example_section), (0, example_section)])"
proof -
  have col: "collecting [table_filter 0x42] [example_section] [0xff, 0xff, 0xff] 4 collected_feed"
    using example_valid example_filters example_group_ok
    by (simp add: collecting_def feed_ready_def collected_feed_def example_feed_def example_group_def example_section_def
        DMX_MAX_SECFEED_SIZE_def DMX_MAX_SECTION_SIZE_def)
  have "carries (make_packet False 1 [0xff]) ((feed_cc collected_feed + 1) AND 0x0f) False [0xff]"
    using make_packet_carries [of "[0xff]" 1 False] by (simp add: collected_feed_def example_feed_def)
  from empty_packet_repeats [OF col adaptation_packet_empty this, of recorder "[(0, example_section)]"] obtain feed' c' where
    r: "feed_packets recorder [table_filter 0x42] collected_feed [(0, example_section)] [adaptation_packet, make_packet False 1 [0xff]] = Some (feed', c')"
      "(buffer_flags feed', c') = foldl (\<lambda>st s. deliver recorder [table_filter 0x42] (feed_filter collected_feed) (check_crc collected_feed) s st)
        (buffer_flags collected_feed, [(0, example_section)]) (complete (4 + length [0xff :: u8]) [example_section])"
    by (auto simp: example_section_def)
  have "complete (4 + length [0xff :: u8]) [example_section] = [example_section]" by (simp add: example_section_def)
  with r(2) example_matches have "c' = [(0, example_section), (0, example_section)]"
    by (simp add: collected_feed_def example_feed_def deliver_def recorder_def)
  with r(1) show ?thesis by blast
qed

definition padded_feed :: dvb_demux_feed where
  "padded_feed = example_feed\<lparr>secbuf_base := replicate 4284 0xff, secbufp := 2200, secbuf := 2200, tsfeedp := 2300, pusi_seen := True\<rparr>"

theorem empty_packet_overruns_witness:
  "sec_inv padded_feed \<and>
   feed_packets recorder [table_filter 0x42] padded_feed [] [adaptation_packet, make_packet True 1 (0 # example_section)] = None"
proof
  show "sec_inv padded_feed" by (simp add: sec_inv_def padded_feed_def DMX_MAX_SECFEED_SIZE_def DMX_MAX_SECTION_SIZE_def)
  have "carries (make_packet True 1 (0 # example_section)) ((feed_cc padded_feed + 1) AND 0x0f) True (0 # example_section)"
    using make_packet_carries [of "0 # example_section" 1 True] by (simp add: padded_feed_def example_feed_def example_section_def)
  then show "feed_packets recorder [table_filter 0x42] padded_feed [] [adaptation_packet, make_packet True 1 (0 # example_section)] = None"
    using adaptation_packet_empty
    by (intro empty_packet_overruns [where first = example_section])
       (simp_all add: padded_feed_def example_feed_def DMX_MAX_SECFEED_SIZE_def DMX_MAX_SECTION_SIZE_def example_section_def)
qed

end
