(* ===== verification/Dvb_Demux.thy ===== *)
theory Dvb_Demux
  imports Dvb_Stream
begin

text \<open>
  The software demultiplexer of \<^verbatim>\<open>dvb-core/dvb_demux.c\<close>: the distribution of packets to the feeds, and the filter that finds
  packets in a stream of bytes that comes in chunks of any size.

  The feeds and filters of a demux are arrays, the feed list a list of indices. The statistics on the speed of the stream (\<^verbatim>\<open>dvb_demux_speedcheck\<close>)
  only print and are left out.
\<close>

section \<open>State\<close>

definition MAX_PID :: nat where "MAX_PID = 0x1fff"
definition DMX_MAX_PID :: u16 where "DMX_MAX_PID = 0x2000"
definition DMX_PES_OTHER :: nat where "DMX_PES_OTHER = 20"

record dvb_demux =
  users :: nat
  filters :: "dvb_demux_filter list"
  feeds :: "dvb_demux_feed list"
  feed_list :: "nat list"
  pesfilter :: "nat option list"
  pids :: "u16 list"
  tsbuf :: "u8 list"
  tsbufp :: nat
  cnt_storage :: "u8 list option"
  frontend :: "nat option"
  frontend_list :: "nat list"

text \<open>The module parameters.\<close>

record dmx_opts =
  dvb_demux_tscheck :: bool
  dvb_demux_feed_err_pkts :: bool

section \<open>One packet\<close>

definition DVR_FEED :: "dvb_demux_feed \<Rightarrow> bool" where
  "DVR_FEED f \<longleftrightarrow> feed_type f = DMX_TYPE_TS \<and> is_filtering f \<and> ts_type f AND (TS_PACKET OR TS_DEMUX) = TS_PACKET"

text \<open>The loops that set a flag of every feed of the list that takes the PID.\<close>

fun flag_feeds :: "u16 \<Rightarrow> u32 \<Rightarrow> nat list \<Rightarrow> dvb_demux_feed list \<Rightarrow> dvb_demux_feed list option" where
  "flag_feeds pid flag [] fs = Some fs"
| "flag_feeds pid flag (i # is) fs = do {
     feed \<leftarrow> mem_get fs i;
     if feed_pid feed \<noteq> pid \<and> feed_pid feed \<noteq> 0x2000 then flag_feeds pid flag is fs
     else flag_feeds pid flag is (fs[i := set_buf_flags feed flag])
   }"

text \<open>The loop that hands the packet to the feeds.\<close>

fun dispatch ::
  "'c dmx_env \<Rightarrow> dvb_demux_filter list \<Rightarrow> u8 list \<Rightarrow> u16 \<Rightarrow> nat list \<Rightarrow> bool \<Rightarrow> dvb_demux_feed list \<Rightarrow> 'c \<Rightarrow> (dvb_demux_feed list \<times> 'c) option" where
  "dispatch env flts buf pid [] dvr_done fs c = Some (fs, c)"
| "dispatch env flts buf pid (i # is) dvr_done fs c = do {
     feed \<leftarrow> mem_get fs i;
     if feed_pid feed \<noteq> pid \<and> feed_pid feed \<noteq> 0x2000 then dispatch env flts buf pid is dvr_done fs c
     else if DVR_FEED feed \<and> dvr_done then dispatch env flts buf pid is dvr_done fs c
     else do {
       (feed', c) \<leftarrow>
         (if feed_pid feed = pid then dvb_dmx_swfilter_packet_type env flts feed c buf
          else do {
            bs \<leftarrow> mem_read buf 0 188;
            let (_, flags, c) = cb_ts env (feed_index feed) bs (buffer_flags feed) c;
            Some (feed\<lparr>buffer_flags := flags\<rparr>, c)
          });
       dispatch env flts buf pid is (dvr_done \<or> DVR_FEED feed) (fs[i := feed']) c
     }
   }"

text \<open>The check of the continuity counter of a PID.\<close>

definition check_counter :: "u8 list \<Rightarrow> u16 \<Rightarrow> dvb_demux \<Rightarrow> dvb_demux option" where
  "check_counter buf pid demux =
     (case cnt_storage demux of
        None \<Rightarrow> Some demux
      | Some cnt \<Rightarrow>
          if unat pid < MAX_PID then do {
            b3 \<leftarrow> mem_get buf 3;
            v \<leftarrow> mem_get cnt (unat pid);
            let v = (if b3 AND 0x10 \<noteq> 0 then (v + 1) AND 0xf else v);
            let cnt = cnt[unat pid := v];
            if b3 AND 0xf \<noteq> v then do {
              fs \<leftarrow> flag_feeds pid DMX_BUFFER_PKT_COUNTER_MISMATCH (feed_list demux) (feeds demux);
              Some (demux\<lparr>feeds := fs, cnt_storage := Some (cnt[unat pid := b3 AND 0xf])\<rparr>)
            } else Some (demux\<lparr>cnt_storage := Some cnt\<rparr>)
          } else Some demux)"

definition dvb_dmx_swfilter_packet :: "dmx_opts \<Rightarrow> 'c dmx_env \<Rightarrow> dvb_demux \<Rightarrow> 'c \<Rightarrow> u8 list \<Rightarrow> (dvb_demux \<times> 'c) option" where
  "dvb_dmx_swfilter_packet opts env demux c buf = do {
     pid \<leftarrow> ts_pid buf;
     b1 \<leftarrow> mem_get buf 1;
     demux \<leftarrow>
       (if b1 AND 0x80 \<noteq> 0 then
          map_option (\<lambda>fs. demux\<lparr>feeds := fs\<rparr>) (flag_feeds pid DMX_BUFFER_FLAG_TEI (feed_list demux) (feeds demux))
        else if dvb_demux_tscheck opts then check_counter buf pid demux
        else Some demux);
     if b1 AND 0x80 \<noteq> 0 \<and> \<not> dvb_demux_feed_err_pkts opts then Some (demux, c)
     else do {
       (fs, c) \<leftarrow> dispatch env (filters demux) buf pid (feed_list demux) False (feeds demux) c;
       Some (demux\<lparr>feeds := fs\<rparr>, c)
     }
   }"

fun dvb_dmx_swfilter_packets :: "dmx_opts \<Rightarrow> 'c dmx_env \<Rightarrow> dvb_demux \<Rightarrow> 'c \<Rightarrow> u8 list \<Rightarrow> nat \<Rightarrow> (dvb_demux \<times> 'c) option" where
  "dvb_dmx_swfilter_packets opts env demux c buf 0 = Some (demux, c)"
| "dvb_dmx_swfilter_packets opts env demux c buf (Suc count) = do {
     b \<leftarrow> mem_get buf 0;
     (demux, c) \<leftarrow> (if b = 0x47 then dvb_dmx_swfilter_packet opts env demux c buf else Some (demux, c));
     dvb_dmx_swfilter_packets opts env demux c (drop 188 buf) count
   }"

section \<open>A stream of bytes\<close>

text \<open>The two packet sizes for which the filter is compiled, and the first bytes of a packet.\<close>

datatype ts_format = TS188 | TS204

fun pktsize :: "ts_format \<Rightarrow> nat" where
  "pktsize TS188 = 188"
| "pktsize TS204 = 204"

definition sync_byte :: "ts_format \<Rightarrow> u8 \<Rightarrow> bool" where
  "sync_byte fmt b \<longleftrightarrow> b = 0x47 \<or> pktsize fmt = 204 \<and> b = 0xb8"

text \<open>The loop of \<^verbatim>\<open>find_next_packet\<close>.\<close>

function scan_sync :: "ts_format \<Rightarrow> u8 list \<Rightarrow> nat \<Rightarrow> nat \<Rightarrow> nat option" where
  "scan_sync fmt buf pos count =
     (if pos < count then do {
        b \<leftarrow> mem_get buf pos;
        if sync_byte fmt b then Some pos else scan_sync fmt buf (pos + 1) count
      } else Some pos)"
  by pat_completeness auto

termination by (relation "measure (\<lambda>(_, _, pos, count). count - pos)") auto

declare scan_sync.simps [simp del]

definition find_next_packet :: "ts_format \<Rightarrow> u8 list \<Rightarrow> nat \<Rightarrow> nat \<Rightarrow> nat option" where
  "find_next_packet fmt buf start count = do {
     pos \<leftarrow> scan_sync fmt buf start count;
     let lost = pos - start;
     if lost \<noteq> 0 \<and> pktsize fmt \<le> pos then do {
       let backtrack = pos - pktsize fmt;
       b \<leftarrow> mem_get buf backtrack;
       Some (if sync_byte fmt b then backtrack else pos)
     } else Some pos
   }"

lemma scan_sync_ge: "scan_sync fmt buf pos count = Some p \<Longrightarrow> pos \<le> p"
  by (induction fmt buf pos count arbitrary: p rule: scan_sync.induct)
     (subst (asm) (2) scan_sync.simps, fastforce simp: bind_eq_Some_conv split: if_splits)

text \<open>Going back is never further than the packet that is processed next.\<close>

lemma find_next_packet_progress: "find_next_packet fmt buf start count = Some p \<Longrightarrow> start < p + pktsize fmt"
  by (cases fmt) (auto simp: find_next_packet_def bind_eq_Some_conv Let_def split: if_splits dest!: scan_sync_ge)

function swfilter_loop ::
  "ts_format \<Rightarrow> dmx_opts \<Rightarrow> 'c dmx_env \<Rightarrow> dvb_demux \<Rightarrow> 'c \<Rightarrow> u8 list \<Rightarrow> nat \<Rightarrow> nat \<Rightarrow> (dvb_demux \<times> 'c \<times> nat) option" where
  "swfilter_loop fmt opts env demux c buf p count = do {
     p' \<leftarrow> find_next_packet fmt buf p count;
     if p' \<ge> count \<or> count - p' < pktsize fmt then Some (demux, c, p')
     else do {
       q \<leftarrow> mem_read buf p' 188;
       (demux, q) \<leftarrow>
         (if pktsize fmt = 204 \<and> q ! 0 = 0xb8 then do {
            ts \<leftarrow> mem_write (tsbuf demux) 0 q;
            ts \<leftarrow> mem_set ts 0 0x47;
            Some (demux\<lparr>tsbuf := ts\<rparr>, take 188 ts)
          } else Some (demux, q));
       (demux, c) \<leftarrow> dvb_dmx_swfilter_packet opts env demux c q;
       swfilter_loop fmt opts env demux c buf (p' + pktsize fmt) count
     }
   }"
  by pat_completeness auto

termination
  by (relation "measure (\<lambda>(fmt, _, _, _, _, _, p, count). count - p)") (auto dest!: find_next_packet_progress)

declare swfilter_loop.simps [simp del]

text \<open>
  The filter for a chunk of bytes. \<^verbatim>\<open>count < j\<close> is a comparison of unsigned numbers, so a negative \<open>j\<close> is larger than any \<open>count\<close>.
\<close>

definition dvb_dmx_swfilter_fmt ::
  "ts_format \<Rightarrow> dmx_opts \<Rightarrow> 'c dmx_env \<Rightarrow> dvb_demux \<Rightarrow> 'c \<Rightarrow> u8 list \<Rightarrow> nat \<Rightarrow> (dvb_demux \<times> 'c) option" where
  "dvb_dmx_swfilter_fmt fmt opts env demux c buf count =
     (let i = tsbufp demux; j = int (pktsize fmt) - int i in
      if i \<noteq> 0 \<and> (j < 0 \<or> int count < j) then do {
        bs \<leftarrow> mem_read buf 0 count;
        ts \<leftarrow> mem_write (tsbuf demux) i bs;
        Some (demux\<lparr>tsbuf := ts, tsbufp := i + count\<rparr>, c)
      } else do {
        (demux, c, p) \<leftarrow>
          (if i \<noteq> 0 then do {
             bs \<leftarrow> mem_read buf 0 (nat j);
             ts \<leftarrow> mem_write (tsbuf demux) i bs;
             b \<leftarrow> mem_get ts 0;
             let demux = demux\<lparr>tsbuf := ts\<rparr>;
             (demux, c) \<leftarrow> (if b = 0x47 then dvb_dmx_swfilter_packet opts env demux c (take 188 ts) else Some (demux, c));
             Some (demux\<lparr>tsbufp := 0\<rparr>, c, nat j)
           } else Some (demux, c, 0));
        (demux, c, p) \<leftarrow> swfilter_loop fmt opts env demux c buf p count;
        let i = count - p;
        if i \<noteq> 0 then do {
          bs \<leftarrow> mem_read buf p i;
          ts \<leftarrow> mem_write (tsbuf demux) 0 bs;
          b \<leftarrow> mem_get ts 0;
          ts \<leftarrow> (if pktsize fmt = 204 \<and> b = 0xb8 then mem_set ts 0 0x47 else Some ts);
          Some (demux\<lparr>tsbuf := ts, tsbufp := i\<rparr>, c)
        } else Some (demux, c)
      })"

definition dvb_dmx_swfilter :: "dmx_opts \<Rightarrow> 'c dmx_env \<Rightarrow> dvb_demux \<Rightarrow> 'c \<Rightarrow> u8 list \<Rightarrow> nat \<Rightarrow> (dvb_demux \<times> 'c) option" where
  "dvb_dmx_swfilter = dvb_dmx_swfilter_fmt TS188"

definition dvb_dmx_swfilter_204 :: "dmx_opts \<Rightarrow> 'c dmx_env \<Rightarrow> dvb_demux \<Rightarrow> 'c \<Rightarrow> u8 list \<Rightarrow> nat \<Rightarrow> (dvb_demux \<times> 'c) option" where
  "dvb_dmx_swfilter_204 = dvb_dmx_swfilter_fmt TS204"

text \<open>The raw stream goes to the first feed.\<close>

definition dvb_dmx_swfilter_raw :: "'c dmx_env \<Rightarrow> dvb_demux \<Rightarrow> 'c \<Rightarrow> u8 list \<Rightarrow> nat \<Rightarrow> (dvb_demux \<times> 'c) option" where
  "dvb_dmx_swfilter_raw env demux c buf count = do {
     feed \<leftarrow> mem_get (feeds demux) 0;
     bs \<leftarrow> mem_read buf 0 count;
     let (_, flags, c) = cb_ts env (feed_index feed) bs (buffer_flags feed) c;
     fs \<leftarrow> mem_set (feeds demux) 0 (feed\<lparr>buffer_flags := flags\<rparr>);
     Some (demux\<lparr>feeds := fs\<rparr>, c)
   }"

section \<open>Packets and the buffer of the byte filter\<close>

lemma check_counter_tsbuf:
  "check_counter buf pid (demux\<lparr>tsbuf := ts, tsbufp := n\<rparr>) = map_option (\<lambda>d. d\<lparr>tsbuf := ts, tsbufp := n\<rparr>) (check_counter buf pid demux)"
proof (cases "cnt_storage demux")
  case (Some cnt)
  then show ?thesis
    by (cases "mem_get buf 3"; cases "mem_get cnt (unat pid)";
        cases "flag_feeds pid DMX_BUFFER_PKT_COUNTER_MISMATCH (feed_list demux) (feeds demux)")
       (simp_all add: check_counter_def Let_def)
qed (simp add: check_counter_def)

definition same_setup :: "dvb_demux \<Rightarrow> dvb_demux \<Rightarrow> bool" where
  "same_setup d d' \<longleftrightarrow> tsbuf d' = tsbuf d \<and> tsbufp d' = tsbufp d \<and> filters d' = filters d \<and> feed_list d' = feed_list d"

lemma check_counter_same: "check_counter buf pid demux = Some d \<Longrightarrow> same_setup demux d"
proof (cases "cnt_storage demux")
  case (Some cnt)
  then show "check_counter buf pid demux = Some d \<Longrightarrow> same_setup demux d"
    by (cases "mem_get buf 3"; cases "mem_get cnt (unat pid)";
        cases "flag_feeds pid DMX_BUFFER_PKT_COUNTER_MISMATCH (feed_list demux) (feeds demux)")
       (auto simp: check_counter_def same_setup_def Let_def split: if_splits)
qed (auto simp: check_counter_def same_setup_def)

lemma swfilter_packet_same:
  assumes "dvb_dmx_swfilter_packet opts env demux c buf = Some (d, c')"
  shows "same_setup demux d"
proof -
  from assms obtain pid b1 d1 where d1: "(if (b1 :: u8) AND 0x80 \<noteq> 0 then
        map_option (\<lambda>fs. demux\<lparr>feeds := fs\<rparr>) (flag_feeds pid DMX_BUFFER_FLAG_TEI (feed_list demux) (feeds demux))
      else if dvb_demux_tscheck opts then check_counter buf pid demux else Some demux) = Some d1"
    and d: "(if b1 AND 0x80 \<noteq> 0 \<and> \<not> dvb_demux_feed_err_pkts opts then Some (d1, c)
      else dispatch env (filters d1) buf pid (feed_list d1) False (feeds d1) c \<bind> (\<lambda>(fs, c). Some (d1\<lparr>feeds := fs\<rparr>, c))) = Some (d, c')"
    unfolding dvb_dmx_swfilter_packet_def bind_eq_Some_conv by blast
  have "same_setup demux d1"
    using d1 check_counter_same [of buf pid demux d1] by (auto simp: same_setup_def split: if_splits)
  moreover have "d = d1 \<or> (\<exists>fs. d = d1\<lparr>feeds := fs\<rparr>)"
    using d by (cases "dispatch env (filters d1) buf pid (feed_list d1) False (feeds d1) c") (auto split: if_splits)
  ultimately show ?thesis by (auto simp: same_setup_def)
qed

lemma swfilter_packet_tsbuf:
  "dvb_dmx_swfilter_packet opts env (demux\<lparr>tsbuf := ts, tsbufp := n\<rparr>) c buf =
     map_option (\<lambda>(d, c). (d\<lparr>tsbuf := ts, tsbufp := n\<rparr>, c)) (dvb_dmx_swfilter_packet opts env demux c buf)"
proof (cases "ts_pid buf")
  case (Some pid)
  have disp: "(dispatch env flts buf pid is b fs c \<bind> (\<lambda>(fs, c). Some (d\<lparr>tsbuf := ts, tsbufp := n, feeds := fs\<rparr>, c))) =
      map_option (\<lambda>(d, c). (d\<lparr>tsbuf := ts, tsbufp := n\<rparr>, c)) (dispatch env flts buf pid is b fs c \<bind> (\<lambda>(fs, c). Some (d\<lparr>feeds := fs\<rparr>, c)))"
    for flts "is" b fs c d
    by (cases "dispatch env flts buf pid is b fs c") auto
  show ?thesis
  proof (cases "mem_get buf 1")
    case b1: (Some b1)
    show ?thesis
      using Some b1 disp
      by (cases "flag_feeds pid DMX_BUFFER_FLAG_TEI (feed_list demux) (feeds demux)"; cases "check_counter buf pid demux")
         (auto simp: dvb_dmx_swfilter_packet_def check_counter_tsbuf)
  qed (simp add: dvb_dmx_swfilter_packet_def Some)
qed (simp add: dvb_dmx_swfilter_packet_def)

text \<open>The reference: the packets one after the other, with no buffer.\<close>

fun handle_packets :: "dmx_opts \<Rightarrow> 'c dmx_env \<Rightarrow> dvb_demux \<Rightarrow> 'c \<Rightarrow> u8 list list \<Rightarrow> (dvb_demux \<times> 'c) option" where
  "handle_packets opts env d c [] = Some (d, c)"
| "handle_packets opts env d c (p # ps) = do {
     (d, c) \<leftarrow> dvb_dmx_swfilter_packet opts env d c p;
     handle_packets opts env d c ps
   }"

lemma handle_packets_append:
  "handle_packets opts env d c (ps @ qs) = do {
     (d, c) \<leftarrow> handle_packets opts env d c ps;
     handle_packets opts env d c qs
   }"
proof (induction ps arbitrary: d c)
  case (Cons p ps)
  then show ?case by (cases "dvb_dmx_swfilter_packet opts env d c p") auto
qed simp

lemma handle_packets_tsbuf:
  "handle_packets opts env (d\<lparr>tsbuf := ts, tsbufp := n\<rparr>) c ps =
     map_option (\<lambda>(d, c). (d\<lparr>tsbuf := ts, tsbufp := n\<rparr>, c)) (handle_packets opts env d c ps)"
proof (induction ps arbitrary: d c)
  case (Cons p ps)
  then show ?case by (cases "dvb_dmx_swfilter_packet opts env d c p") (auto simp: swfilter_packet_tsbuf)
qed simp

definition ts_packets :: "u8 list list \<Rightarrow> bool" where
  "ts_packets ps \<longleftrightarrow> (\<forall>p \<in> set ps. length p = 188 \<and> p ! 0 = 0x47)"

text \<open>The beginning of a packet.\<close>

definition ts_rest :: "u8 list \<Rightarrow> bool" where
  "ts_rest l \<longleftrightarrow> length l < 188 \<and> (l = [] \<or> l ! 0 = 0x47)"

lemma find_next_sync:
  "pos < count \<Longrightarrow> count \<le> length buf \<Longrightarrow> buf ! pos = 0x47 \<Longrightarrow> find_next_packet fmt buf pos count = Some pos"
  by (simp add: find_next_packet_def scan_sync.simps [of fmt buf pos count] mem_get_def sync_byte_def)

lemma find_next_end: "count \<le> pos \<Longrightarrow> find_next_packet fmt buf pos count = Some pos"
  by (simp add: find_next_packet_def scan_sync.simps [of fmt buf pos count])

lemma loop_rest:
  "ts_rest l \<Longrightarrow> buf = pre @ l \<Longrightarrow> swfilter_loop TS188 opts env d c buf (length pre) (length buf) = Some (d, c, length pre)"
  using find_next_sync [of "length pre" "length buf" buf TS188] find_next_end [of "length buf" "length pre" TS188 buf]
  by (subst swfilter_loop.simps, cases l) (auto simp: ts_rest_def)

lemma loop_packets:
  assumes "ts_packets ps" "ts_rest l" "buf = pre @ concat ps @ l"
  shows "swfilter_loop TS188 opts env d c buf (length pre) (length buf) =
    map_option (\<lambda>(d, c). (d, c, length buf - length l)) (handle_packets opts env d c ps)"
  using assms
proof (induction ps arbitrary: pre d c)
  case Nil
  then show ?case by (simp add: loop_rest [of l "pre @ l" pre, simplified])
next
  case (Cons p ps)
  then have p: "length p = 188" "p ! 0 = 0x47" "ts_packets ps" by (simp_all add: ts_packets_def)
  have buf: "buf = (pre @ p) @ concat ps @ l" using Cons.prems(3) by simp
  have "buf ! length pre = 0x47" using buf p by (simp add: nth_append)
  then have found: "find_next_packet TS188 buf (length pre) (length buf) = Some (length pre)"
    using buf p by (simp add: find_next_sync)
  have rd: "mem_read buf (length pre) 188 = Some p" using buf p(1) by (simp add: mem_read_def)
  have IH: "swfilter_loop TS188 opts env d' c' buf (length pre + 188) (length buf) =
      map_option (\<lambda>(d, c). (d, c, length buf - length l)) (handle_packets opts env d' c' ps)" for d' c'
    using Cons.IH [OF p(3) Cons.prems(2) buf, of d' c'] p(1) by simp
  have enough: "\<not> (length buf \<le> length pre \<or> length buf - length pre < 188)" using buf p(1) by simp
  show ?case
    unfolding swfilter_loop.simps [of TS188 opts env d c buf "length pre"] found
    using enough rd IH by (cases "dvb_dmx_swfilter_packet opts env d c p") auto
qed

lemma handle_packets_same: "handle_packets opts env d c ps = Some (e, c') \<Longrightarrow> same_setup d e"
proof (induction ps arbitrary: d c)
  case (Cons p ps)
  then obtain d1 c1 where "dvb_dmx_swfilter_packet opts env d c p = Some (d1, c1)" "handle_packets opts env d1 c1 ps = Some (e, c')"
    by (auto simp: bind_eq_Some_conv)
  with Cons.IH [of d1 c1] swfilter_packet_same [of opts env d c p d1 c1] show ?case by (simp add: same_setup_def)
qed (simp add: same_setup_def)

text \<open>The demux keeps the bytes \<open>lo\<close> of a packet that is not complete.\<close>

definition holds :: "dvb_demux \<Rightarrow> u8 list \<Rightarrow> bool" where
  "holds d lo \<longleftrightarrow> length (tsbuf d) = 204 \<and> tsbufp d = length lo \<and> take (length lo) (tsbuf d) = lo"

definition strip :: "dvb_demux \<Rightarrow> dvb_demux" where
  "strip d = d\<lparr>tsbuf := [], tsbufp := 0\<rparr>"

definition chunk_ok :: "u8 list \<Rightarrow> (dvb_demux \<times> 'c) option \<Rightarrow> (dvb_demux \<times> 'c) option \<Rightarrow> bool" where
  "chunk_ok l r ref \<longleftrightarrow>
     map_option (\<lambda>(d, c). (strip d, c)) r = map_option (\<lambda>(d, c). (strip d, c)) ref \<and> (\<forall>d c. r = Some (d, c) \<longrightarrow> holds d l)"

lemma chunk_aligned:
  assumes "holds d []" "ts_packets ps" "ts_rest l" "ck = concat ps @ l"
  shows "chunk_ok l (dvb_dmx_swfilter opts env d c ck (length ck)) (handle_packets opts env d c ps)"
proof (cases "handle_packets opts env d c ps")
  case None
  have "swfilter_loop TS188 opts env d c ck 0 (length ck) = None"
    using loop_packets [of ps l ck "[]" opts env d c] assms None by simp
  then have "dvb_dmx_swfilter opts env d c ck (length ck) = None"
    using assms(1) by (simp add: dvb_dmx_swfilter_def dvb_dmx_swfilter_fmt_def holds_def)
  with None show ?thesis by (simp add: chunk_ok_def)
next
  case (Some r)
  obtain e c' where r: "r = (e, c')" by (cases r)
  have lp: "swfilter_loop TS188 opts env d c ck 0 (length ck) = Some (e, c', length ck - length l)"
    using loop_packets [of ps l ck "[]" opts env d c] assms Some r by simp
  have e: "length (tsbuf e) = 204" "tsbufp e = 0"
    using handle_packets_same [of opts env d c ps e c'] Some r assms(1) by (auto simp: same_setup_def holds_def)
  have "dvb_dmx_swfilter opts env d c ck (length ck) =
      Some (if l = [] then e else e\<lparr>tsbuf := l @ drop (length l) (tsbuf e), tsbufp := length l\<rparr>, c')"
    using assms(1,3,4) lp e
    by (auto simp: dvb_dmx_swfilter_def dvb_dmx_swfilter_fmt_def holds_def ts_rest_def Let_def mem_simps)
  with Some r e assms(3) show ?thesis by (auto simp: chunk_ok_def holds_def strip_def ts_rest_def)
qed

lemma chunk_short:
  assumes "holds d lo" "lo \<noteq> []" "length lo + length ck < 188"
  shows "chunk_ok (lo @ ck) (dvb_dmx_swfilter opts env d c ck (length ck)) (Some (d, c))"
proof -
  have "dvb_dmx_swfilter opts env d c ck (length ck) =
      Some (d\<lparr>tsbuf := lo @ ck @ drop (length lo + length ck) (tsbuf d), tsbufp := length lo + length ck\<rparr>, c)"
    using assms by (auto simp: dvb_dmx_swfilter_def dvb_dmx_swfilter_fmt_def holds_def Let_def mem_simps)
  with assms show ?thesis by (auto simp: chunk_ok_def holds_def strip_def)
qed


text \<open>The chunk that completes the packet is the end of it and a chunk that begins with a packet.\<close>

lemma chunk_first:
  assumes "holds d lo" "lo \<noteq> []" "length (lo @ x) = 188" "lo ! 0 = 0x47"
  shows "dvb_dmx_swfilter opts env d c (x @ ck) (length (x @ ck)) =
    (case dvb_dmx_swfilter_packet opts env (d\<lparr>tsbuf := lo @ x @ drop 188 (tsbuf d)\<rparr>) c (lo @ x) of
       None \<Rightarrow> None
     | Some (e, c) \<Rightarrow>
        (case swfilter_loop TS188 opts env (e\<lparr>tsbufp := 0\<rparr>) c (x @ ck) (length x) (length (x @ ck)) of
           None \<Rightarrow> None
         | Some (e, c, p) \<Rightarrow>
            (let i = length (x @ ck) - p in
             if i \<noteq> 0 then do {
               bs \<leftarrow> mem_read (x @ ck) p i;
               ts \<leftarrow> mem_write (tsbuf e) 0 bs;
               b \<leftarrow> mem_get ts 0;
               Some (e\<lparr>tsbuf := ts, tsbufp := i\<rparr>, c)
             } else Some (e, c))))"
proof -
  have j: "nat (188 - int (length lo)) = length x" using assms(3) by simp
  have wr: "mem_write (tsbuf d) (length lo) x = Some (lo @ x @ drop 188 (tsbuf d))"
    using assms(1,3) by (auto simp: mem_write_def holds_def)
  have rd: "mem_read (x @ ck) 0 (length x) = Some x" by (simp add: mem_read_def)
  have hd: "mem_get (lo @ x @ drop 188 (tsbuf d)) 0 = Some 0x47" using assms(2,4) by (simp add: mem_get_def nth_append)
  have tk: "take 188 (lo @ x @ drop 188 (tsbuf d)) = lo @ x" using assms(3) by simp
  have nl: "(188 - int (length lo) < 0 \<or> int (length (x @ ck)) < 188 - int (length lo)) = False"
    "(length lo \<noteq> 0) = True" using assms(2,3) by auto
  have step: "(case r \<bind> (\<lambda>(d, c). Some (d\<lparr>tsbufp := 0\<rparr>, c, n)) of None \<Rightarrow> None | Some (d, c, p) \<Rightarrow> f d c p) =
      (case r of None \<Rightarrow> None | Some (d, c) \<Rightarrow> f (d\<lparr>tsbufp := 0\<rparr>) c n)" for r :: "(dvb_demux \<times> 'a) option" and n :: nat and f :: "_ \<Rightarrow> _ \<Rightarrow> _ \<Rightarrow> 'b option"
    by (cases r) auto
  have loop: "(r \<bind> (\<lambda>(d, c, p). f d c p)) = (case r of None \<Rightarrow> None | Some (d, c, p) \<Rightarrow> f d c p)"
    for r :: "(dvb_demux \<times> 'a \<times> nat) option" and f :: "_ \<Rightarrow> _ \<Rightarrow> _ \<Rightarrow> 'b option"
    by (cases r) auto
  have i: "tsbufp d = length lo" using assms(1) by (simp add: holds_def)
  have pk: "(pktsize TS188 = 204 \<and> P) = False" "int (pktsize TS188) = 188" for P by simp_all
  show ?thesis
    unfolding dvb_dmx_swfilter_def dvb_dmx_swfilter_fmt_def Let_def i pk nl j rd bind.bind_lunit wr hd tk if_True if_False simp_thms
      loop step ..
qed

lemma chunk_completes:
  assumes "holds d lo" "lo \<noteq> []" "length (lo @ x) = 188" "lo ! 0 = 0x47" "ts_packets ps" "ts_rest l" "ck = concat ps @ l"
  shows "chunk_ok l (dvb_dmx_swfilter opts env d c (x @ ck) (length (x @ ck))) (handle_packets opts env d c ((lo @ x) # ps))"
proof -
  define d0 where "d0 = d\<lparr>tsbuf := lo @ x @ drop 188 (tsbuf d)\<rparr>"
  have len0: "length (tsbuf d0) = 204" using assms(1,3) by (simp add: d0_def holds_def)
  have pkt: "dvb_dmx_swfilter_packet opts env d0 c (lo @ x) =
      map_option (\<lambda>(e, c). (e\<lparr>tsbuf := tsbuf d0\<rparr>, c)) (dvb_dmx_swfilter_packet opts env d c (lo @ x))"
    using swfilter_packet_tsbuf [where demux = d and ts = "tsbuf d0" and n = "tsbufp d" and c = c and buf = "lo @ x" and opts = opts and env = env] swfilter_packet_same [of opts env d c "lo @ x"]
    by (cases "dvb_dmx_swfilter_packet opts env d c (lo @ x)") (auto simp: d0_def same_setup_def)
  show ?thesis
  proof (cases "dvb_dmx_swfilter_packet opts env d c (lo @ x)")
    case None
    then show ?thesis
      unfolding chunk_first [OF assms(1-4), of opts env c ck, folded d0_def] pkt by (simp add: chunk_ok_def)
  next
    case (Some r)
    obtain e c1 where r: "r = (e, c1)" by (cases r)
    define e0 where "e0 = e\<lparr>tsbuf := tsbuf d0, tsbufp := 0\<rparr>"
    have lp: "swfilter_loop TS188 opts env e0 c1 (x @ ck) (length x) (length (x @ ck)) =
        map_option (\<lambda>(d, c). (d, c, length (x @ ck) - length l)) (handle_packets opts env e0 c1 ps)"
      by (rule loop_packets [OF assms(5,6)]) (simp add: assms(7))
    have hp: "handle_packets opts env e0 c1 ps =
        map_option (\<lambda>(d, c). (d\<lparr>tsbuf := tsbuf d0, tsbufp := 0\<rparr>, c)) (handle_packets opts env e c1 ps)"
      unfolding e0_def by (rule handle_packets_tsbuf)
    show ?thesis
    proof (cases "handle_packets opts env e c1 ps")
      case None
      with Some r hp lp show ?thesis
        unfolding chunk_first [OF assms(1-4), of opts env c ck, folded d0_def] pkt by (simp add: chunk_ok_def e0_def)
    next
      case loop: (Some r')
      obtain f c2 where r': "r' = (f, c2)" by (cases r')
      have "dvb_dmx_swfilter opts env d c (x @ ck) (length (x @ ck)) =
          Some (if l = [] then f\<lparr>tsbuf := tsbuf d0, tsbufp := 0\<rparr> else f\<lparr>tsbuf := l @ drop (length l) (tsbuf d0), tsbufp := length l\<rparr>, c2)"
        using assms(6,7) len0 lp hp
        unfolding chunk_first [OF assms(1-4), of opts env c ck, folded d0_def] pkt Some r
        by (auto simp: loop r' e0_def [symmetric] Let_def mem_simps ts_rest_def)
      with Some r loop r' assms(6) len0 show ?thesis by (auto simp: chunk_ok_def holds_def strip_def ts_rest_def)
    qed
  qed
qed

text \<open>A stream cut into the part that is in the demux and the chunk.\<close>

lemma concat_short: "ts_packets ps \<Longrightarrow> length (concat ps) < 188 \<Longrightarrow> ps = []"
  by (cases ps) (auto simp: ts_packets_def)

lemma chunk_stream:
  assumes "holds d lo" "ts_rest lo" "lo @ ck = concat ps @ l" "ts_packets ps" "ts_rest l"
  shows "chunk_ok l (dvb_dmx_swfilter opts env d c ck (length ck)) (handle_packets opts env d c ps)"
proof (cases "lo = []")
  case True
  with assms chunk_aligned [of d ps l ck opts env c] show ?thesis by simp
next
  case lo: False
  show ?thesis
  proof (cases "length lo + length ck < 188")
    case True
    then have "length (concat ps @ l) < 188" unfolding assms(3) [symmetric] by simp
    with assms(4) have "ps = []" by (simp add: concat_short)
    with chunk_short [OF assms(1) lo True, of opts env c] assms(3) show ?thesis by simp
  next
    case False
    then have "188 \<le> length (concat ps @ l)" unfolding assms(3) [symmetric] by simp
    with assms(5) obtain p qs where ps: "ps = p # qs" by (cases ps) (auto simp: ts_rest_def)
    with assms(4) have p: "length p = 188" "ts_packets qs" by (auto simp: ts_packets_def)
    define x where "x = take (188 - length lo) ck"
    have "lo @ x = take 188 (lo @ ck)" using assms(2) by (simp add: x_def ts_rest_def)
    also have "\<dots> = p" using p(1) by (simp add: assms(3) ps)
    finally have lx: "lo @ x = p" .
    have "drop (188 - length lo) ck = drop 188 (lo @ ck)" using assms(2) by (simp add: ts_rest_def)
    also have "\<dots> = concat qs @ l" using p(1) by (simp add: assms(3) ps)
    finally have dr: "drop (188 - length lo) ck = concat qs @ l" .
    have ck: "ck = x @ concat qs @ l" unfolding x_def dr [symmetric] by (rule append_take_drop_id [symmetric])
    show ?thesis
      unfolding ps ck using chunk_completes [OF assms(1) lo _ _ p(2) assms(5) refl, of x opts env c] lx p(1) assms(2) lo
      by (simp only: ts_rest_def simp_thms)
  qed
qed

lemma split_stream:
  assumes "ts_packets ps" "ts_rest l" "xs @ ys = concat ps @ l"
  shows "\<exists>ps1 ps2 lo. ps = ps1 @ ps2 \<and> xs = concat ps1 @ lo \<and> ts_rest lo \<and> lo @ ys = concat ps2 @ l"
  using assms
proof (induction ps arbitrary: xs)
  case Nil
  then show ?case by (intro exI [of _ "[]"] exI [of _ xs]) (cases xs, auto simp: ts_rest_def)
next
  case (Cons p ps)
  then have p: "length p = 188" "p ! 0 = 0x47" "ts_packets ps" by (simp_all add: ts_packets_def)
  show ?case
  proof (cases "length xs < 188")
    case True
    have "take (length xs) (xs @ ys) = take (length xs) p" using Cons.prems(3) p(1) True by simp
    then have "xs = take (length xs) p" by simp
    with True p(2) have "ts_rest xs" by (metis ts_rest_def length_greater_0_conv nth_take)
    with Cons.prems(3) show ?thesis by (intro exI [of _ "[]"] exI [of _ "p # ps"] exI [of _ xs]) simp
  next
    case False
    have "take 188 xs = take 188 (xs @ ys)" using False by simp
    also have "\<dots> = p" using p(1) by (simp add: Cons.prems(3))
    finally have xs: "xs = p @ drop 188 xs" by (metis append_take_drop_id)
    have "drop 188 xs @ ys = drop 188 (xs @ ys)" using False by simp
    also have "\<dots> = concat ps @ l" using p(1) by (simp add: Cons.prems(3))
    finally obtain ps1 ps2 lo where "ps = ps1 @ ps2" "drop 188 xs = concat ps1 @ lo" "ts_rest lo" "lo @ ys = concat ps2 @ l"
      using Cons.IH [OF p(3) Cons.prems(2)] by blast
    with xs show ?thesis by (intro exI [of _ "p # ps1"] exI [of _ ps2] exI [of _ lo]) simp
  qed
qed

text \<open>The filter on the chunks of a stream, one after the other.\<close>

fun swfilter_chunks :: "ts_format \<Rightarrow> dmx_opts \<Rightarrow> 'c dmx_env \<Rightarrow> dvb_demux \<Rightarrow> 'c \<Rightarrow> u8 list list \<Rightarrow> (dvb_demux \<times> 'c) option" where
  "swfilter_chunks fmt opts env d c [] = Some (d, c)"
| "swfilter_chunks fmt opts env d c (ck # cks) = do {
     (d, c) \<leftarrow> dvb_dmx_swfilter_fmt fmt opts env d c ck (length ck);
     swfilter_chunks fmt opts env d c cks
   }"

lemma chunk_ok_bind:
  assumes "chunk_ok l r ref"
  obtains "r = None" "ref = None"
  | d e c where "r = Some (d, c)" "ref = Some (e, c)" "holds d l" "strip d = strip e"
  using assms by (cases r; cases ref) (auto simp: chunk_ok_def)

lemma handle_packets_strip:
  assumes "strip d = strip e"
  shows "map_option (\<lambda>(d, c). (strip d, c)) (handle_packets opts env d c ps) = map_option (\<lambda>(d, c). (strip d, c)) (handle_packets opts env e c ps)"
proof -
  have d: "d = (strip d)\<lparr>tsbuf := tsbuf d, tsbufp := tsbufp d\<rparr>" for d by (simp add: strip_def)
  have "map_option (\<lambda>(d, c). (strip d, c)) (handle_packets opts env d c ps) = map_option (\<lambda>(d, c). (strip d, c)) (handle_packets opts env (strip d) c ps)" for d
    by (subst (1) d, subst handle_packets_tsbuf)
       (cases "handle_packets opts env (strip d) c ps"; auto simp: strip_def)
  with assms show ?thesis by metis
qed

lemma swfilter_chunks_from:
  assumes "holds d lo" "ts_rest lo" "ts_packets ps" "ts_rest l" "lo @ concat cks = concat ps @ l"
  shows "chunk_ok l (swfilter_chunks TS188 opts env d c cks) (handle_packets opts env d c ps)"
  using assms
proof (induction cks arbitrary: d c lo ps)
  case Nil
  then have "lo = l \<and> ps = []"
    by (cases ps) (auto simp: ts_packets_def ts_rest_def)
  with Nil show ?case by (simp add: chunk_ok_def)
next
  case (Cons ck cks)
  obtain ps1 ps2 lo' where split: "ps = ps1 @ ps2" "lo @ ck = concat ps1 @ lo'" "ts_rest lo'" "lo' @ concat cks = concat ps2 @ l"
    using split_stream [OF Cons.prems(3,4), of "lo @ ck" "concat cks"] Cons.prems(5) by auto
  have ps: "ts_packets ps1" "ts_packets ps2" using Cons.prems(3) by (auto simp: split(1) ts_packets_def)
  have "chunk_ok lo' (dvb_dmx_swfilter opts env d c ck (length ck)) (handle_packets opts env d c ps1)"
    by (rule chunk_stream [OF Cons.prems(1,2) split(2) ps(1) split(3)])
  then have "chunk_ok lo' (dvb_dmx_swfilter_fmt TS188 opts env d c ck (length ck)) (handle_packets opts env d c ps1)"
    by (simp add: dvb_dmx_swfilter_def)
  then show ?case
  proof (cases rule: chunk_ok_bind)
    case 1
    then show ?thesis by (simp add: split(1) handle_packets_append chunk_ok_def)
  next
    case (2 d1 e c1)
    have "chunk_ok l (swfilter_chunks TS188 opts env d1 c1 cks) (handle_packets opts env d1 c1 ps2)"
      by (rule Cons.IH [OF 2(3) split(3) ps(2) Cons.prems(4) split(4)])
    with 2 handle_packets_strip [OF 2(4), of opts env c1 ps2] show ?thesis
      by (simp add: split(1) handle_packets_append chunk_ok_def)
  qed
qed

text \<open>
  C3: The packets of a stream are handled one by one, each once and in order, whatever the chunks are in which the bytes arrive: \<open>dvb_dmx_swfilter\<close>
  on the chunks gives the feeds, filters, counters and callbacks that the packets give when each is handed to \<open>dvb_dmx_swfilter_packet\<close>, and what is
  left in its buffer is the beginning of the next packet.
\<close>

theorem swfilter_chunks_refine_packets:
  assumes "length (tsbuf d) = 204" "tsbufp d = 0" "ts_packets ps" "ts_rest l" "concat cks = concat ps @ l"
  shows "map_option (\<lambda>(d, c). (strip d, c)) (swfilter_chunks TS188 opts env d c cks) =
      map_option (\<lambda>(d, c). (strip d, c)) (handle_packets opts env d c ps) \<and>
    (\<forall>d' c'. swfilter_chunks TS188 opts env d c cks = Some (d', c') \<longrightarrow> tsbufp d' = length l \<and> take (length l) (tsbuf d') = l)"
proof -
  have "holds d []" "ts_rest []" using assms(1,2) by (simp_all add: holds_def ts_rest_def)
  from swfilter_chunks_from [OF this assms(3,4), of cks opts env c] assms(5)
  show ?thesis by (simp add: chunk_ok_def holds_def)
qed

section \<open>Packets under an invariant\<close>

text \<open>
  What has to hold of a demux so that a packet can be handled: the feeds of the list exist, the counters cover the PIDs, and the handler of each feed
  copes with the packet and keeps the invariant. Then so does the demux.
\<close>

locale demux_invariant =
  fixes env :: "'c dmx_env" and inv :: "dvb_demux \<Rightarrow> bool" and fit :: "u8 list \<Rightarrow> bool"
  assumes listed: "inv d \<Longrightarrow> i \<in> set (feed_list d) \<Longrightarrow> i < length (feeds d)"
    and counters: "inv d \<Longrightarrow> cnt_storage d = Some cnt \<Longrightarrow> MAX_PID \<le> length cnt"
    and keeps_counters: "inv d \<Longrightarrow> MAX_PID \<le> length cnt \<Longrightarrow> inv (d\<lparr>cnt_storage := Some cnt\<rparr>)"
    and keeps_flags: "inv d \<Longrightarrow> i \<in> set (feed_list d) \<Longrightarrow> inv (d\<lparr>feeds := (feeds d)[i := (feeds d ! i)\<lparr>buffer_flags := fl\<rparr>]\<rparr>)"
    and handler: "inv d \<Longrightarrow> i \<in> set (feed_list d) \<Longrightarrow> length p = 188 \<Longrightarrow> fit p \<Longrightarrow>
      \<exists>f c'. dvb_dmx_swfilter_packet_type env (filters d) (feeds d ! i) c p = Some (f, c') \<and> inv (d\<lparr>feeds := (feeds d)[i := f]\<rparr>)"
begin

lemma flag_feeds_keeps:
  assumes "inv (d\<lparr>feeds := fs\<rparr>)" "set is \<subseteq> set (feed_list d)"
  shows "\<exists>fs'. flag_feeds pid flag is fs = Some fs' \<and> inv (d\<lparr>feeds := fs'\<rparr>)"
  using assms
proof (induction "is" arbitrary: fs)
  case (Cons i "is")
  have "i < length fs" "inv (d\<lparr>feeds := fs[i := set_buf_flags (fs ! i) flag]\<rparr>)"
    using listed [OF Cons.prems(1), of i] keeps_flags [OF Cons.prems(1), of i] Cons.prems(2) by (auto simp: set_buf_flags_def)
  with Cons.IH [of fs] Cons.IH [of "fs[i := set_buf_flags (fs ! i) flag]"] Cons.prems show ?case by (simp add: mem_get_def)
qed auto

lemma check_counter_keeps:
  assumes "inv d" "length p = 188"
  shows "\<exists>d'. check_counter p pid d = Some d' \<and> inv d'"
proof -
  obtain fs where fs: "flag_feeds pid DMX_BUFFER_PKT_COUNTER_MISMATCH (feed_list d) (feeds d) = Some fs" "inv (d\<lparr>feeds := fs\<rparr>)"
    using flag_feeds_keeps [of "feeds d" d "feed_list d"] assms(1) by auto
  with counters [OF assms(1)] keeps_counters [OF assms(1)] keeps_counters [OF fs(2)] assms show ?thesis
    by (auto simp: check_counter_def Let_def mem_simps split: option.splits)
qed

lemma dispatch_keeps:
  assumes "length p = 188" "fit p" "inv (d\<lparr>feeds := fs\<rparr>)" "set is \<subseteq> set (feed_list d)"
  shows "\<exists>fs' c'. dispatch env (filters d) p pid is b fs c = Some (fs', c') \<and> inv (d\<lparr>feeds := fs'\<rparr>)"
  using assms(3,4)
proof (induction "is" arbitrary: b fs c)
  case (Cons i "is")
  have i: "i < length fs" "i \<in> set (feed_list (d\<lparr>feeds := fs\<rparr>))" using listed [OF Cons.prems(1), of i] Cons.prems(2) by simp_all
  obtain f c1 where f: "dvb_dmx_swfilter_packet_type env (filters d) (fs ! i) c p = Some (f, c1)" "inv (d\<lparr>feeds := fs[i := f]\<rparr>)"
    using handler [OF Cons.prems(1) i(2) assms(1,2), of c] by auto
  obtain r fl c2 where cb: "cb_ts env (feed_index (fs ! i)) p (buffer_flags (fs ! i)) c = (r, fl, c2)" by (metis prod_cases3)
  have flags: "inv (d\<lparr>feeds := fs[i := (fs ! i)\<lparr>buffer_flags := fl\<rparr>]\<rparr>)"
    using keeps_flags [OF Cons.prems(1) i(2), of fl] by simp
  have rd: "mem_read p 0 188 = Some p" using assms(1) by (simp add: mem_read_def)
  have "set is \<subseteq> set (feed_list d)" using Cons.prems(2) by simp
  note IH = Cons.IH [OF _ this]
  show ?case
    using IH [OF Cons.prems(1), of b c] IH [OF f(2), of _ c1] IH [OF flags, of _ c2] i(1) by (auto simp: mem_get_def f(1) rd cb)
qed auto

lemma packet_keeps:
  assumes "inv d" "length p = 188" "fit p"
  shows "\<exists>d' c'. dvb_dmx_swfilter_packet opts env d c p = Some (d', c') \<and> inv d'"
proof -
  obtain pid where pid: "ts_pid p = Some pid" using assms(2) by (simp add: ts_pid_def mem_simps)
  obtain fs where fs: "flag_feeds pid DMX_BUFFER_FLAG_TEI (feed_list d) (feeds d) = Some fs" "inv (d\<lparr>feeds := fs\<rparr>)"
    using flag_feeds_keeps [of "feeds d" d "feed_list d"] assms(1) by auto
  obtain d1 where d1: "check_counter p pid d = Some d1" "inv d1" using check_counter_keeps [OF assms(1,2)] by blast
  have disp: "\<exists>d' c'. (dispatch env (filters d) p pid (feed_list d) False (feeds d) c \<bind> (\<lambda>(fs, c). Some (d\<lparr>feeds := fs\<rparr>, c))) = Some (d', c') \<and> inv d'"
    if "inv d" for d
    using dispatch_keeps [OF assms(2,3), of "feeds d" d "feed_list d" pid False c] that by auto
  from disp [OF assms(1)] disp [OF fs(2)] disp [OF d1(2)] fs(2) assms show ?thesis
    by (simp add: dvb_dmx_swfilter_packet_def pid fs(1) d1(1) mem_simps)
qed

end

section \<open>Any bytes\<close>

text \<open>The buffer has its size, the feeds of the list exist and are TS feeds, the counters cover the PIDs.\<close>

definition ts_feeds :: "nat list \<Rightarrow> dvb_demux_feed list \<Rightarrow> bool" where
  "ts_feeds is fs \<longleftrightarrow> (\<forall>i \<in> set is. i < length fs \<and> feed_type (fs ! i) = DMX_TYPE_TS)"

definition recording :: "dvb_demux \<Rightarrow> bool" where
  "recording d \<longleftrightarrow> length (tsbuf d) = 204 \<and> ts_feeds (feed_list d) (feeds d) \<and>
     (\<forall>cnt. cnt_storage d = Some cnt \<longrightarrow> MAX_PID \<le> length cnt)"

lemma ts_feeds_update: "ts_feeds is fs \<Longrightarrow> feed_type f = DMX_TYPE_TS \<Longrightarrow> ts_feeds is (fs[i := f])"
  by (cases "i < length fs") (auto simp: ts_feeds_def nth_list_update)

lemma swfilter_payload_total:
  assumes "length buf = 188"
  shows "\<exists>f c' r. dvb_dmx_swfilter_payload env feed c buf = Some (f, c', r) \<and> feed_type f = feed_type feed"
proof -
  from payload_Some [OF assms] obtain n where n: "payload buf = Some n" by blast
  from payload_bound [OF n] assms show ?thesis
    by (auto simp: dvb_dmx_swfilter_payload_def n Let_def mem_simps set_buf_flags_def split: prod.splits)
qed

lemma packet_type_total:
  assumes "length buf = 188" "feed_type feed = DMX_TYPE_TS"
  shows "\<exists>f c'. dvb_dmx_swfilter_packet_type env flts feed c buf = Some (f, c') \<and> feed_type f = DMX_TYPE_TS"
  using swfilter_payload_total [OF assms(1), of env feed c] assms
  by (auto simp: dvb_dmx_swfilter_packet_type_def Let_def mem_simps split: prod.splits option.splits)

interpretation recording_demux: demux_invariant env recording "\<lambda>p. True"
proof unfold_locales
  fix d i p c
  assume d: "recording d" "i \<in> set (feed_list d)" "length (p :: u8 list) = 188"
  then have "feed_type (feeds d ! i) = DMX_TYPE_TS" by (simp add: recording_def ts_feeds_def)
  from packet_type_total [OF d(3) this, of env "filters d" c] d(1)
  show "\<exists>f c'. dvb_dmx_swfilter_packet_type env (filters d) (feeds d ! i) c p = Some (f, c') \<and> recording (d\<lparr>feeds := (feeds d)[i := f]\<rparr>)"
    by (auto simp: recording_def intro: ts_feeds_update)
next
  fix d i fl
  assume "recording d" "i \<in> set (feed_list d)"
  then show "recording (d\<lparr>feeds := (feeds d)[i := (feeds d ! i)\<lparr>buffer_flags := fl\<rparr>]\<rparr>)"
    by (auto simp: recording_def intro!: ts_feeds_update) (simp add: ts_feeds_def)
qed (auto simp: recording_def ts_feeds_def)

lemmas swfilter_packet_total = recording_demux.packet_keeps [OF _ _ TrueI]

lemma scan_sync_total: "pos \<le> count \<Longrightarrow> count \<le> length buf \<Longrightarrow> \<exists>p. scan_sync fmt buf pos count = Some p \<and> p \<le> count"
  by (induction fmt buf pos count rule: scan_sync.induct) (subst scan_sync.simps, simp add: mem_simps)

lemma find_next_total:
  "start \<le> count \<Longrightarrow> count \<le> length buf \<Longrightarrow> \<exists>p. find_next_packet fmt buf start count = Some p \<and> p \<le> count"
  using scan_sync_total [of start count buf fmt] by (cases fmt; auto simp: find_next_packet_def Let_def mem_simps; linarith)

lemma swfilter_loop_total:
  assumes "recording d" "p \<le> count" "count \<le> length buf"
  shows "\<exists>d' c' p'. swfilter_loop fmt opts env d c buf p count = Some (d', c', p') \<and> recording d' \<and> tsbufp d' = tsbufp d \<and>
    p' \<le> count \<and> count - p' < pktsize fmt"
  using assms
proof (induction fmt opts env d c buf p count rule: swfilter_loop.induct)
  case (1 fmt opts env d c buf p count)
  obtain q where q: "find_next_packet fmt buf p count = Some q" "q \<le> count" using find_next_total [OF "1.prems"(2,3)] by blast
  show ?case
  proof (cases "q \<ge> count \<or> count - q < pktsize fmt")
    case True
    with q "1.prems" show ?thesis by (subst swfilter_loop.simps) (cases fmt; auto)
  next
    case False
    then have q': "q < count" "\<not> (count \<le> q \<or> count - q < pktsize fmt)" "188 \<le> pktsize fmt" by (cases fmt; simp)+
    define x where "x = take 188 (drop q buf)"
    have x: "length x = 188" "mem_read buf q 188 = Some x" using q' False "1.prems"(3) by (auto simp: x_def mem_simps)
    define ts where "ts = (x @ drop 188 (tsbuf d))[0 := 0x47]"
    have len: "length (tsbuf d) = 204" using "1.prems"(1) by (simp add: recording_def)
    have ts: "mem_write (tsbuf d) 0 x \<bind> (\<lambda>ts. mem_set ts 0 0x47) = Some ts" "length ts = 204" "length (take 188 ts) = 188"
      using len x(1) by (simp_all add: mem_simps ts_def)
    obtain d1 y where dy: "(if pktsize fmt = 204 \<and> x ! 0 = 0xb8
        then do {
          ts \<leftarrow> mem_write (tsbuf d) 0 x;
          ts \<leftarrow> mem_set ts 0 0x47;
          Some (d\<lparr>tsbuf := ts\<rparr>, take 188 ts)
        } else Some (d, x)) = Some (d1, y)" "recording d1" "tsbufp d1 = tsbufp d" "length y = 188"
      using ts x(1) "1.prems"(1) by (cases "pktsize fmt = 204 \<and> x ! 0 = 0xb8") (auto simp: recording_def bind_eq_Some_conv)
    obtain d2 c2 where d2: "dvb_dmx_swfilter_packet opts env d1 c y = Some (d2, c2)" "recording d2" "tsbufp d2 = tsbufp d1"
      using swfilter_packet_total [OF dy(2,4), of opts env c] swfilter_packet_same [of opts env d1 c y] by (auto simp: same_setup_def)
    have "q + pktsize fmt \<le> count" using q' by simp
    from "1.IH" [OF q(1) q'(2) x(2) dy(1) refl d2(1) refl d2(2) this "1.prems"(3)] dy(3) d2(3)
    show ?thesis by (subst swfilter_loop.simps) (simp add: q(1) q'(2) x(2) dy(1) d2(1) del: mem_simps)
  qed
qed

lemma swfilter_tail:
  assumes "recording d" "tsbufp d < pktsize fmt" "p \<le> length buf" "length buf - p < pktsize fmt"
  shows "\<exists>d'. (let i = length buf - p in
      if i \<noteq> 0 then do {
        bs \<leftarrow> mem_read buf p i;
        ts \<leftarrow> mem_write (tsbuf d) 0 bs;
        b \<leftarrow> mem_get ts 0;
        ts \<leftarrow> (if pktsize fmt = 204 \<and> b = 0xb8 then mem_set ts 0 0x47 else Some ts);
        Some (d\<lparr>tsbuf := ts, tsbufp := i\<rparr>, c)
      } else Some (d, c)) = Some (d', c) \<and> recording d' \<and> tsbufp d' < pktsize fmt"
proof -
  have "length buf - p < 204" using assms(4) by (cases fmt) simp_all
  with assms show ?thesis by (auto simp: recording_def Let_def mem_simps)
qed

lemma swfilter_fmt_total:
  assumes "recording d" "tsbufp d < pktsize fmt"
  shows "\<exists>d' c'. dvb_dmx_swfilter_fmt fmt opts env d c buf (length buf) = Some (d', c') \<and> recording d' \<and> tsbufp d' < pktsize fmt"
proof -
  have size: "pktsize fmt \<le> 204" "188 \<le> pktsize fmt" "0 < pktsize fmt" by (cases fmt; simp)+
  have len: "length (tsbuf d) = 204" using assms(1) by (simp add: recording_def)
  show ?thesis
  proof (cases "tsbufp d \<noteq> 0 \<and> length buf < pktsize fmt - tsbufp d")
    case True
    then have "(tsbufp d \<noteq> 0 \<and> (int (pktsize fmt) - int (tsbufp d) < 0 \<or> int (length buf) < int (pktsize fmt) - int (tsbufp d))) = True"
      using assms(2) by auto
    moreover have "tsbufp d + length buf < pktsize fmt" using True by linarith
    ultimately show ?thesis using assms len size by (simp add: dvb_dmx_swfilter_fmt_def Let_def mem_simps recording_def)
  next
    case False
    then have no: "(tsbufp d \<noteq> 0 \<and> (int (pktsize fmt) - int (tsbufp d) < 0 \<or> int (length buf) < int (pktsize fmt) - int (tsbufp d))) = False"
      using assms(2) by auto
    obtain d1 c1 p where d1: "(if tsbufp d \<noteq> 0 then do {
        bs \<leftarrow> mem_read buf 0 (nat (int (pktsize fmt) - int (tsbufp d)));
        ts \<leftarrow> mem_write (tsbuf d) (tsbufp d) bs;
        b \<leftarrow> mem_get ts 0;
        (e, c) \<leftarrow> (if b = 0x47 then dvb_dmx_swfilter_packet opts env (d\<lparr>tsbuf := ts\<rparr>) c (take 188 ts) else Some (d\<lparr>tsbuf := ts\<rparr>, c));
        Some (e\<lparr>tsbufp := 0\<rparr>, c, nat (int (pktsize fmt) - int (tsbufp d)))
      } else Some (d, c, 0)) = Some (d1, c1, p)" "recording d1" "tsbufp d1 = 0" "p \<le> length buf"
    proof (cases "tsbufp d = 0")
      case True
      with assms(1) show ?thesis by (intro that [of d c 0]) simp_all
    next
      case partial: False
      define j where "j = pktsize fmt - tsbufp d"
      have j: "nat (int (pktsize fmt) - int (tsbufp d)) = j" "j \<le> length buf" "tsbufp d + j = pktsize fmt" "tsbufp d + j \<le> 204"
        using False partial assms(2) size(1) by (auto simp: j_def)
      define ts where "ts = take (tsbufp d) (tsbuf d) @ take j buf @ drop (pktsize fmt) (tsbuf d)"
      have ts: "mem_write (tsbuf d) (tsbufp d) (take j buf) = Some ts" "length ts = 204"
        using len j(2,3,4) by (simp_all add: ts_def mem_simps)
      have rec: "recording (d\<lparr>tsbuf := ts\<rparr>)" using assms(1) ts(2) by (simp add: recording_def)
      obtain d1 c1 where pkt: "dvb_dmx_swfilter_packet opts env (d\<lparr>tsbuf := ts\<rparr>) c (take 188 ts) = Some (d1, c1)" "recording d1"
        using swfilter_packet_total [OF rec, of "take 188 ts" opts env c] ts(2) by auto
      show ?thesis
      proof (cases "ts ! 0 = 0x47")
        case True
        with rec ts partial j pkt show ?thesis by (intro that [of "d1\<lparr>tsbufp := 0\<rparr>" c1 j]) (auto simp: mem_simps recording_def)
      next
        case False
        with rec ts partial j show ?thesis
          by (intro that [of "d\<lparr>tsbuf := ts, tsbufp := 0\<rparr>" c j]) (auto simp: mem_simps recording_def)
      qed
    qed
    obtain d2 c2 q where d2: "swfilter_loop fmt opts env d1 c1 buf p (length buf) = Some (d2, c2, q)" "recording d2" "tsbufp d2 = 0"
      "q \<le> length buf" "length buf - q < pktsize fmt"
      using swfilter_loop_total [OF d1(2,4) order_refl, of fmt opts env c1] d1(3) by auto
    obtain d3 where d3: "(let i = length buf - q in
      if i \<noteq> 0 then do {
        bs \<leftarrow> mem_read buf q i;
        ts \<leftarrow> mem_write (tsbuf d2) 0 bs;
        b \<leftarrow> mem_get ts 0;
        ts \<leftarrow> (if pktsize fmt = 204 \<and> b = 0xb8 then mem_set ts 0 0x47 else Some ts);
        Some (d2\<lparr>tsbuf := ts, tsbufp := i\<rparr>, c2)
      } else Some (d2, c2)) = Some (d3, c2)" "recording d3" "tsbufp d3 < pktsize fmt"
      using swfilter_tail [OF d2(2) _ d2(4,5), of c2] d2(3) size(3) by auto
    show ?thesis
      unfolding dvb_dmx_swfilter_fmt_def Let_def no if_False d1(1) bind.bind_lunit prod.case d2(1) d3(1) [unfolded Let_def]
      using d3(2,3) by blast
  qed
qed

text \<open>
  C10: The byte filter returns on any bytes in any chunks, for both packet sizes, when the feeds of the list are TS feeds: every access is
  inside the chunk, the 204 bytes of \<open>tsbuf\<close>, the arrays of feeds and of counters, and what is kept is always less than a packet. Going
  back over garbage never makes the loop endless.
\<close>

theorem swfilter_returns:
  assumes "recording d" "tsbufp d < pktsize fmt"
  shows "\<exists>d' c'. swfilter_chunks fmt opts env d c cks = Some (d', c') \<and> recording d' \<and> tsbufp d' < pktsize fmt"
  using assms
proof (induction cks arbitrary: d c)
  case (Cons ck cks)
  obtain d1 c1 where "dvb_dmx_swfilter_fmt fmt opts env d c ck (length ck) = Some (d1, c1)" "recording d1" "tsbufp d1 < pktsize fmt"
    using swfilter_fmt_total [OF Cons.prems, of opts env c ck] by blast
  with Cons.IH [of d1 c1] show ?case by simp
qed simp

section \<open>Witnesses\<close>

definition example_opts :: dmx_opts where
  "example_opts = \<lparr>dvb_demux_tscheck = False, dvb_demux_feed_err_pkts = False\<rparr>"

text \<open>A demux with one feed that records the PID 16.\<close>

definition recording_feed :: dvb_demux_feed where
  "recording_feed = example_feed\<lparr>feed_type := DMX_TYPE_TS, ts_type := TS_PACKET, feed_filter := []\<rparr>"

definition example_demux :: dvb_demux where
  "example_demux = \<lparr>users = 1, filters = [], feeds = [recording_feed], feed_list = [0], pesfilter = [], pids = [], tsbuf = replicate 204 0, tsbufp = 0,
     cnt_storage = None, frontend = None, frontend_list = []\<rparr>"

lemma make_packet_nth:
  "make_packet b cc pl ! 0 = 0x47" "make_packet b cc pl ! Suc 0 = (if b then 0x40 else 0)" "make_packet b cc pl ! 2 = 0x10"
  by (simp_all add: make_packet_def)

lemma length_make_packet: "length pl \<le> 182 \<Longrightarrow> length (make_packet b cc pl) = 188"
  by (simp add: make_packet_def)

lemma make_packet_pid: "length pl \<le> 182 \<Longrightarrow> ts_pid (make_packet b cc pl) = Some 0x10"
  by (simp add: ts_pid_def mem_simps length_make_packet make_packet_nth)

lemma example_records:
  assumes "length pl \<le> 182"
  shows "dvb_dmx_swfilter_packet example_opts recorder example_demux c (make_packet False cc pl) = Some (example_demux, c @ [(0, make_packet False cc pl)])"
  using assms
  by (simp add: dvb_dmx_swfilter_packet_def make_packet_pid mem_simps length_make_packet make_packet_nth example_opts_def example_demux_def
      recording_feed_def example_feed_def dvb_dmx_swfilter_packet_type_def TS_PACKET_def TS_PAYLOAD_ONLY_def TS_DECODER_def recorder_def Let_def)

lemma take_drop_append: "take i xs @ drop i xs @ ys = xs @ ys"
  by (simp add: append_assoc [symmetric] del: append_assoc)

theorem swfilter_chunks_refine_packets_witness:
  "let p = make_packet False 1 [1, 2]; q = make_packet False 2 [3] in
    map_option snd (swfilter_chunks TS188 example_opts recorder example_demux [] [take 100 p, drop 100 p @ take 7 q, drop 7 q @ [0x47]]) =
      Some [(0, p), (0, q)]"
proof -
  define p q where pq: "p = make_packet False 1 [1, 2]" "q = make_packet False 2 [3]"
  have "ts_packets [p, q]" by (simp add: ts_packets_def pq length_make_packet make_packet_nth)
  moreover have "ts_rest [0x47]" by (simp add: ts_rest_def)
  moreover have "concat [take 100 p, drop 100 p @ take 7 q, drop 7 q @ [0x47]] = concat [p, q] @ [0x47]"
    by (simp add: take_drop_append)
  ultimately have r: "map_option (\<lambda>(d, c). (strip d, c)) (swfilter_chunks TS188 example_opts recorder example_demux [] [take 100 p, drop 100 p @ take 7 q, drop 7 q @ [0x47]]) =
      map_option (\<lambda>(d, c). (strip d, c)) (handle_packets example_opts recorder example_demux [] [p, q])"
    using swfilter_chunks_refine_packets [of example_demux "[p, q]" "[0x47]" "[take 100 p, drop 100 p @ take 7 q, drop 7 q @ [0x47]]" example_opts recorder "[]"]
    by (simp add: example_demux_def)
  have "handle_packets example_opts recorder example_demux [] [p, q] = Some (example_demux, [(0, p), (0, q)])"
    by (simp add: pq example_records)
  with r show ?thesis unfolding pq Let_def by (auto simp: map_option_case split: option.splits)
qed

theorem swfilter_returns_witness:
  "\<exists>d' c'. swfilter_chunks TS204 example_opts recorder example_demux [] [[1, 2, 0xb8], [], replicate 300 0x47] = Some (d', c') \<and> tsbufp d' < 204"
proof -
  have "recording example_demux" "tsbufp example_demux < pktsize TS204"
    by (simp_all add: recording_def ts_feeds_def example_demux_def recording_feed_def)
  from swfilter_returns [OF this, of example_opts recorder "[]" "[[1, 2, 0xb8], [], replicate 300 0x47]"] show ?thesis by auto
qed

end
