(* ===== verification/Dvb_Multiplex.thy ===== *)
theory Dvb_Multiplex
  imports Dvb_Demux
begin

text \<open>
  The path of a section through the demultiplexer: bytes of a multiplex in chunks of any size, the packets of the feed's PID among those of others,
  and the sections in them, up to the callbacks of the client. It joins the byte filter and the distribution of packets with the section filter.
\<close>

section \<open>What the filters leave alone\<close>

text \<open>What a packet does not change in a feed: everything that the calls of the clients have set up.\<close>

definition setup_of :: "dvb_demux_feed \<Rightarrow> (bool \<times> bool \<times> dvb_dmx_filter_type \<times> dvb_dmx_state) \<times> u16 \<times> nat list \<times> u32 \<times> nat \<times> nat" where
  "setup_of f = ((is_filtering f, check_crc f, feed_type f, feed_state f), feed_pid f, feed_filter f, ts_type f, pes_type f, feed_index f)"

lemma setup_of_update [simp]:
  "setup_of (f\<lparr>buffer_flags := x\<rparr>) = setup_of f" "setup_of (f\<lparr>seclen := a, secbufp := b\<rparr>) = setup_of f"
  by (simp_all add: setup_of_def)

definition keeps :: "('a \<Rightarrow> bool) \<Rightarrow> 'a option \<Rightarrow> bool" where
  "keeps Q r \<longleftrightarrow> (\<forall>x. r = Some x \<longrightarrow> Q x)"

text \<open>The rules for a step that returns a feed, a feed and the client, or a feed, the client and a code, and for any other step.\<close>

lemma keeps_feed: "keeps (\<lambda>f. setup_of f = k) m \<Longrightarrow> (\<And>f. setup_of f = k \<Longrightarrow> keeps Q (g f)) \<Longrightarrow> keeps Q (m \<bind> g)"
  by (cases m) (simp_all add: keeps_def)

lemma keeps_fc:
  "keeps (\<lambda>(f, c). setup_of f = k) m \<Longrightarrow> (\<And>f c. setup_of f = k \<Longrightarrow> keeps Q (g f c)) \<Longrightarrow> keeps Q (m \<bind> (\<lambda>(f, c). g f c))"
  by (cases m) (auto simp: keeps_def)

lemma keeps_fcr:
  "keeps (\<lambda>(f, c, r). setup_of f = k) m \<Longrightarrow> (\<And>f c r. setup_of f = k \<Longrightarrow> keeps Q (g f c r)) \<Longrightarrow> keeps Q (m \<bind> (\<lambda>(f, c, r). g f c r))"
  by (cases m) (auto simp: keeps_def)

lemma keeps_step: "(\<And>x. keeps Q (g x)) \<Longrightarrow> keeps Q (m \<bind> g)"
  by (cases m) (simp_all add: keeps_def)

lemma keeps_if: "(b \<Longrightarrow> keeps Q x) \<Longrightarrow> (\<not> b \<Longrightarrow> keeps Q y) \<Longrightarrow> keeps Q (if b then x else y)"
  by simp

lemma keeps_pair: "(\<And>a b. p = (a, b) \<Longrightarrow> keeps Q (g a b)) \<Longrightarrow> keeps Q (case p of (a, b) \<Rightarrow> g a b)"
  by (cases p) simp

lemma keeps_option: "keeps Q x \<Longrightarrow> (\<And>y. keeps Q (g y)) \<Longrightarrow> keeps Q (case m of None \<Rightarrow> x | Some y \<Rightarrow> g y)"
  by (cases m) simp_all

lemma keeps_Some: "Q x \<Longrightarrow> keeps Q (Some x)"
  by (simp add: keeps_def)

lemma keeps_map: "keeps (\<lambda>x. Q (g x)) m \<Longrightarrow> keeps Q (map_option g m)"
  by (cases m) (simp_all add: keeps_def)

lemmas keeps_rules = keeps_feed keeps_fcr keeps_fc keeps_step keeps_if keeps_pair keeps_option keeps_Some keeps_map

lemma section_new_setup: "setup_of feed = k \<Longrightarrow> keeps (\<lambda>f. setup_of f = k) (dvb_dmx_swfilter_section_new feed)"
  unfolding dvb_dmx_swfilter_section_new_def Let_def by (intro keeps_rules) (simp_all add: set_buf_flags_def setup_of_def)

lemma dump_section_setup: "dump_section env flts len feed c = Some (f, c') \<Longrightarrow> setup_of f = setup_of feed"
  by (drule dump_section_moves, drule arg_cong [of _ _ setup_of]) (simp add: erase_def setup_of_def)

lemma keeps_loop:
  assumes "\<And>b1 b2 f c'. secbufp feed + 2 < limit \<Longrightarrow> mem_get (secbuf_base feed) (secbuf feed + 1) = Some b1 \<Longrightarrow>
      mem_get (secbuf_base feed) (secbuf feed + 2) = Some b2 \<Longrightarrow>
      \<not> (section_length b1 b2 = 0 \<or> section_length b1 b2 > DMX_MAX_SECTION_SIZE \<or> section_length b1 b2 + secbufp feed > limit) \<Longrightarrow>
      dump_section env flts (section_length b1 b2) feed c = Some (f, c') \<Longrightarrow> keeps Q (dump_loop env flts limit f c')"
    and "Q (feed, c)"
  shows "keeps Q (dump_loop env flts limit feed c)"
  using assms
  by (subst dump_loop.simps; cases "mem_get (secbuf_base feed) (secbuf feed + 1)"; cases "mem_get (secbuf_base feed) (secbuf feed + 2)";
      simp add: keeps_Some Let_def del: One_nat_def add_2_eq_Suc';
      cases "dump_section env flts (section_length (the (mem_get (secbuf_base feed) (secbuf feed + 1))) (the (mem_get (secbuf_base feed) (secbuf feed + 2)))) feed c")
     (auto simp: keeps_def)

lemma dump_loop_setup: "setup_of feed = k \<Longrightarrow> keeps (\<lambda>(f, c). setup_of f = k) (dump_loop env flts limit feed c)"
proof (induction env flts limit feed c rule: dump_loop.induct)
  case (1 env flts limit feed c)
  show ?case
  proof (rule keeps_loop)
    fix b1 b2 f c'
    let ?len = "section_length b1 b2"
    assume a: "secbufp feed + 2 < limit" "mem_get (secbuf_base feed) (secbuf feed + 1) = Some b1" "mem_get (secbuf_base feed) (secbuf feed + 2) = Some b2"
      "\<not> (?len = 0 \<or> ?len > DMX_MAX_SECTION_SIZE \<or> ?len + secbufp feed > limit)" "dump_section env flts ?len feed c = Some (f, c')"
    have "setup_of f = k" using dump_section_setup [OF a(5)] "1.prems" by simp
    from "1.IH" [OF a(1-3) refl a(4,5) refl this] show "keeps (\<lambda>(f, c). setup_of f = k) (dump_loop env flts limit f c')" .
  qed (simp add: "1.prems")
qed

lemma copy_dump_setup:
  "setup_of feed = k \<Longrightarrow> keeps (\<lambda>(f, c). setup_of f = k) (dvb_dmx_swfilter_section_copy_dump env flts feed c buf off len)"
  unfolding dvb_dmx_swfilter_section_copy_dump_def Let_def
  by (intro keeps_rules dump_loop_setup) (auto simp: set_buf_flags_def setup_of_def split: if_splits)

lemma section_packet_setup:
  "setup_of feed = k \<Longrightarrow> keeps (\<lambda>(f, c, r). setup_of f = k) (dvb_dmx_swfilter_section_packet env flts feed c buf)"
  unfolding dvb_dmx_swfilter_section_packet_def Let_def
  by (intro keeps_rules copy_dump_setup section_new_setup) (auto simp: set_buf_flags_def setup_of_def split: if_splits)

lemma payload_setup:
  "setup_of feed = k \<Longrightarrow> keeps (\<lambda>(f, c, r). setup_of f = k) (dvb_dmx_swfilter_payload env feed c buf)"
  unfolding dvb_dmx_swfilter_payload_def Let_def by (intro keeps_rules) (auto simp: set_buf_flags_def setup_of_def split: if_splits)

lemma packet_type_setup:
  assumes "setup_of feed = k"
  shows "keeps (\<lambda>(f, c). setup_of f = k) (dvb_dmx_swfilter_packet_type env flts feed c buf)"
proof (cases "feed_type feed")
  case DMX_TYPE_TS
  have "keeps (\<lambda>x. case x of (f, c, r) \<Rightarrow> setup_of f = k) (dvb_dmx_swfilter_payload env feed c buf)"
    by (rule payload_setup [OF assms])
  then show ?thesis
    unfolding dvb_dmx_swfilter_packet_type_def Let_def DMX_TYPE_TS dvb_dmx_filter_type.case
    by (intro keeps_rules) (auto simp: assms keeps_def)
next
  case DMX_TYPE_SEC
  with assms show ?thesis
    unfolding dvb_dmx_swfilter_packet_type_def DMX_TYPE_SEC dvb_dmx_filter_type.case
    by (intro keeps_rules section_packet_setup) auto
qed

section \<open>One feed\<close>

text \<open>With one feed in the list, the demux does with the packets of its PID what the feed does, and nothing with the others.\<close>

definition clean :: "u8 list \<Rightarrow> bool" where
  "clean p \<longleftrightarrow> length p = 188 \<and> p ! 1 AND 0x80 = 0"

lemma packet_one_feed:
  assumes "clean p" "\<not> dvb_demux_tscheck opts" "feed_list d = [i]" "i < length (feeds d)" "feed_pid (feeds d ! i) \<noteq> 0x2000"
  shows "dvb_dmx_swfilter_packet opts env d c p =
    (if ts_pid p = Some (feed_pid (feeds d ! i))
     then map_option (\<lambda>(f, c). (d\<lparr>feeds := (feeds d)[i := f]\<rparr>, c)) (dvb_dmx_swfilter_packet_type env (filters d) (feeds d ! i) c p)
     else Some (d, c))"
proof -
  obtain pid where pid: "ts_pid p = Some pid" using assms(1) by (simp add: ts_pid_def mem_simps clean_def)
  show ?thesis
    using assms pid
    by (cases "dvb_dmx_swfilter_packet_type env (filters d) (feeds d ! i) c p")
       (auto simp: dvb_dmx_swfilter_packet_def clean_def mem_simps)
qed

lemma handle_one_feed:
  assumes "\<forall>p \<in> set ps. clean p" "\<not> dvb_demux_tscheck opts" "feed_list d = [i]" "i < length (feeds d)" "feed_pid (feeds d ! i) = pid" "pid \<noteq> 0x2000"
  shows "handle_packets opts env d c ps =
    map_option (\<lambda>(f, c). (d\<lparr>feeds := (feeds d)[i := f]\<rparr>, c)) (feed_packets env (filters d) (feeds d ! i) c (filter (\<lambda>p. ts_pid p = Some pid) ps))"
  using assms
proof (induction ps arbitrary: d c)
  case (Cons p ps)
  then have p: "clean p" by simp
  note step = packet_one_feed [OF p Cons.prems(2-4), of env c, unfolded Cons.prems(5), OF Cons.prems(6)]
  show ?case
  proof (cases "ts_pid p = Some pid")
    case False
    with Cons step show ?thesis by simp
  next
    case True
    show ?thesis
    proof (cases "dvb_dmx_swfilter_packet_type env (filters d) (feeds d ! i) c p")
      case None
      with True step show ?thesis by simp
    next
      case (Some r)
      obtain f c' where r: "r = (f, c')" by (cases r)
      have "feed_pid f = pid" using packet_type_setup [OF refl, of "feeds d ! i" env "filters d" c p] Cons.prems(5) Some r by (simp add: keeps_def setup_of_def)
      with Cons.IH [of "d\<lparr>feeds := (feeds d)[i := f]\<rparr>" c'] Cons.prems have
        "handle_packets opts env (d\<lparr>feeds := (feeds d)[i := f]\<rparr>) c' ps =
          map_option (\<lambda>(f', c). (d\<lparr>feeds := (feeds d)[i := f']\<rparr>, c)) (feed_packets env (filters d) f c' (filter (\<lambda>p. ts_pid p = Some pid) ps))"
        by simp
      with True step Some r show ?thesis by simp
    qed
  qed
qed simp

lemma multiplex:
  assumes "length (tsbuf d) = 204" "tsbufp d = 0" "feed_list d = [i]" "i < length (feeds d)" "\<not> dvb_demux_tscheck opts"
    and feed: "tuning (feeds d ! i)" "feed_filter (feeds d ! i) \<noteq> []" "feed_pid (feeds d ! i) = pid" "pid \<noteq> 0x2000"
    and bytes: "ts_packets ps" "ts_rest l" "concat cks = concat ps @ l" "\<forall>p \<in> set ps. p ! 1 AND 0x80 = 0"
    and sections: "filter (\<lambda>p. ts_pid p = Some pid) ps = junk @ pkts" "\<forall>p \<in> set junk. continuation_packet p"
      "linked pre gs" "gs \<noteq> []" "in_packets cc (payloads pre gs) pkts"
      "\<forall>g \<in> set gs. \<forall>s \<in> set (g_secs g). valid_section s \<and> filters_for (filters d) (feed_filter (feeds d ! i)) s"
  shows "\<exists>d' c' fl. swfilter_chunks TS188 opts env d c cks = Some (d', c') \<and>
    (buffer_flags (feeds d' ! i), c') =
      foldl (\<lambda>st s. deliver env (filters d) (feed_filter (feeds d ! i)) (check_crc (feeds d ! i)) s st) (fl, c) (concat (map g_secs gs))"
proof -
  have "holds d []" "ts_rest []" using assms(1,2) by (simp_all add: holds_def ts_rest_def)
  from swfilter_chunks_from [OF this bytes(1,2), of cks opts env c] bytes(3)
  have chunks: "chunk_ok l (swfilter_chunks TS188 opts env d c cks) (handle_packets opts env d c ps)" by simp
  have "\<forall>p \<in> set ps. clean p" using bytes(1,4) by (simp add: clean_def ts_packets_def)
  note one = handle_one_feed [OF this assms(5,3,4) feed(3,4), of env c, unfolded sections(1)]
  obtain f c' fl where f: "feed_packets env (filters d) (feeds d ! i) c (junk @ pkts) = Some (f, c')" "(buffer_flags f, c') =
      foldl (\<lambda>st s. deliver env (filters d) (feed_filter (feeds d ! i)) (check_crc (feeds d ! i)) s st) (fl, c) (concat (map g_secs gs))"
    using section_stream [OF feed(1,2) sections(2-6), of env c] by blast
  from chunks show ?thesis
  proof (cases rule: chunk_ok_bind)
    case 1
    with one f(1) show ?thesis by simp
  next
    case (2 d1 e c1)
    with one f(1) have e: "e = d\<lparr>feeds := (feeds d)[i := f]\<rparr>" "c1 = c'" by simp_all
    have "feeds d1 = feeds e" using 2(4) [THEN arg_cong, of feeds] by (simp add: strip_def)
    with e assms(4) f(2) 2(1) show ?thesis by auto
  qed
qed

text \<open>
  From bytes to sections. A demux whose list has one section feed takes a multiplex that comes in chunks of any sizes: packets of any PIDs, among
  them those of the feed's PID, which begin with any packets without start indicator and then carry groups of sections and stuffing, cut into packets at
  any place, each with payload and the next continuity counter. Then \<open>dvb_dmx_swfilter\<close> on the chunks hands every section of the PID, once, complete and in order, to exactly the filters that take it
  (or drops it because of its CRC), and nothing else to anyone.
\<close>

theorem multiplex_sections:
  assumes "length (tsbuf d) = 204" "tsbufp d = 0" "feed_list d = [i]" "i < length (feeds d)" "\<not> dvb_demux_tscheck opts"
    and feed: "tuning (feeds d ! i)" "feed_filter (feeds d ! i) \<noteq> []" "feed_pid (feeds d ! i) = pid" "pid \<noteq> 0x2000"
    and bytes: "ts_packets ps" "ts_rest l" "concat cks = concat ps @ l" "\<forall>p \<in> set ps. p ! 1 AND 0x80 = 0"
    and sections: "filter (\<lambda>p. ts_pid p = Some pid) ps = junk @ pkts" "\<forall>p \<in> set junk. continuation_packet p"
      "linked pre gs" "gs \<noteq> []" "in_packets cc (payloads pre gs) pkts"
      "\<forall>g \<in> set gs. \<forall>s \<in> set (g_secs g). valid_section s \<and> filters_for (filters d) (feed_filter (feeds d ! i)) s"
  shows "\<exists>d' c' fl. swfilter_chunks TS188 opts env d c cks = Some (d', c') \<and>
    (buffer_flags (feeds d' ! i), c') =
      foldl (\<lambda>st s. deliver env (filters d) (feed_filter (feeds d ! i)) (check_crc (feeds d ! i)) s st) (fl, c) (concat (map g_secs gs))"
  by (rule multiplex [OF assms])

section \<open>Witness\<close>

definition section_demux :: dvb_demux where
  "section_demux = example_demux\<lparr>filters := [table_filter 0x42], feeds := [example_feed]\<rparr>"

text \<open>A packet of another PID, the end of an old section, and two packets with a section.\<close>

definition example_multiplex :: "u8 list list" where
  "example_multiplex = [make_packet False 3 [1, 2, 3], replicate 188 0x47, make_packet True 1 [1, 0xbb, 0x42, 0],
     make_packet False 2 [1, 0xaa, 0xff, 0xff, 0xff]]"

lemma example_packets:
  "ts_packets example_multiplex" "\<forall>p \<in> set example_multiplex. p ! 1 AND 0x80 = 0"
  by (simp_all add: ts_packets_def example_multiplex_def length_make_packet make_packet_nth)

lemma example_mine:
  "filter (\<lambda>p. ts_pid p = Some 0x10) example_multiplex =
    [make_packet False 3 [1, 2, 3]] @ [make_packet True 1 [1, 0xbb, 0x42, 0], make_packet False 2 [1, 0xaa, 0xff, 0xff, 0xff]]"
  by (simp add: example_multiplex_def make_packet_pid) (simp add: ts_pid_def mem_get_def)

lemma example_junk: "\<forall>p \<in> set [make_packet False 3 [1, 2, 3]]. continuation_packet p"
proof -
  have "carries (make_packet False 3 [1, 2, 3]) 3 False [1, 2, 3]" by (rule make_packet_carries) simp_all
  then show ?thesis by (auto simp: carries_def continuation_packet_def)
qed

lemma example_linked: "linked [0xbb] [example_group]"
  using example_group_ok by (simp add: valid_group_def) (simp add: example_group_def example_section_def)

lemma example_in_packets:
  "in_packets 0 (payloads [0xbb] [example_group]) [make_packet True 1 [1, 0xbb, 0x42, 0], make_packet False 2 [1, 0xaa, 0xff, 0xff, 0xff]]"
  using make_packet_carries [of "[1, 0xbb, 0x42, 0]" 1 True] make_packet_carries [of "[1, 0xaa, 0xff, 0xff, 0xff]" 2 False]
  by (simp add: example_group_def)

theorem multiplex_sections_witness:
  "map_option snd (swfilter_chunks TS188 example_opts recorder section_demux []
     [take 300 (concat example_multiplex), drop 300 (concat example_multiplex)]) = Some [(0, example_section)]"
proof -
  have d: "feed_list section_demux = [0]" "feeds section_demux = [example_feed]" "filters section_demux = [table_filter 0x42]"
    "length (tsbuf section_demux) = 204" "tsbufp section_demux = 0" "\<not> dvb_demux_tscheck example_opts"
    by (simp_all add: section_demux_def example_demux_def example_opts_def)
  have tun: "tuning (feeds section_demux ! 0)" "feed_filter (feeds section_demux ! 0) \<noteq> []" "feed_pid (feeds section_demux ! 0) = 0x10" "(0x10 :: u16) \<noteq> 0x2000"
    by (simp_all add: d tuning_def sec_inv_def example_feed_def DMX_MAX_SECFEED_SIZE_def DMX_MAX_SECTION_SIZE_def)
  have "\<forall>g \<in> set [example_group]. \<forall>s \<in> set (g_secs g). valid_section s \<and>
      filters_for (filters section_demux) (feed_filter (feeds section_demux ! 0)) s"
    using example_valid example_filters by (simp add: d example_group_def example_feed_def)
  then obtain d' c' fl where r:
    "swfilter_chunks TS188 example_opts recorder section_demux []
      [take 300 (concat example_multiplex), drop 300 (concat example_multiplex)] = Some (d', c')"
    "(buffer_flags (feeds d' ! 0), c') = foldl (\<lambda>st s. deliver recorder (filters section_demux) (feed_filter (feeds section_demux ! 0))
       (check_crc (feeds section_demux ! 0)) s st) (fl, []) (concat (map g_secs [example_group]))"
    using multiplex_sections [OF d(4,5,1) _ d(6) tun example_packets(1) _ _ example_packets(2) example_mine example_junk example_linked _ example_in_packets,
        of "[]" "[take 300 (concat example_multiplex), drop 300 (concat example_multiplex)]" recorder "[]"]
    by (auto simp: d ts_rest_def)
  have "c' = [(0, example_section)]"
    using r(2) example_matches by (simp add: d example_feed_def example_group_def deliver_def recorder_def)
  with r(1) show ?thesis by simp
qed

end
