(* ===== verification/Dvb_Dmx_Api.thy ===== *)
theory Dvb_Dmx_Api
  imports Dvb_Multiplex
begin

text \<open>
  The calls by which clients use a demux (\<^verbatim>\<open>dvb-core/dvb_demux.c\<close>): allocation and release of feeds and filters, their setup,
  starting and stopping, the frontends, writing, and the initialisation.

  A call gets the answer of \<^verbatim>\<open>mutex_lock_interruptible\<close> as \<open>intr\<close> (a signal arrived first). The result \<^const>\<open>None\<close> is an access outside an
  object or through a null pointer. The driver behind the demux is a parameter: its \<^verbatim>\<open>start_feed\<close> and \<^verbatim>\<open>stop_feed\<close> may be missing, may fail, have
  a state together with the clients, and may set \<^verbatim>\<open>pusi_seen\<close> of the feed (the only field of a feed that the drivers of the repository write).
\<close>

section \<open>Allocation\<close>

definition MAX_DVB_DEMUX_USERS :: nat where "MAX_DVB_DEMUX_USERS = 10"

datatype dmx_frontend_source = DMX_MEMORY_FE | DMX_FRONTEND_0

record 'c dmx_driver =
  start_feed :: "(nat \<Rightarrow> bool \<Rightarrow> 'c \<Rightarrow> unit result \<times> bool \<times> 'c) option"
  stop_feed :: "(nat \<Rightarrow> bool \<Rightarrow> 'c \<Rightarrow> unit result \<times> bool \<times> 'c) option"

text \<open>The search for a free element.\<close>

fun free_index :: "dvb_dmx_state list \<Rightarrow> nat option" where
  "free_index [] = None"
| "free_index (s # ss) = (if s = DMX_STATE_FREE then Some 0 else map_option Suc (free_index ss))"

definition dvb_dmx_filter_alloc :: "dvb_demux \<Rightarrow> dvb_demux \<times> nat option" where
  "dvb_dmx_filter_alloc demux =
     (case free_index (map flt_state (filters demux)) of
        None \<Rightarrow> (demux, None)
      | Some i \<Rightarrow> (demux\<lparr>filters := (filters demux)[i := (filters demux ! i)\<lparr>flt_state := DMX_STATE_ALLOCATED\<rparr>]\<rparr>, Some i))"

definition dvb_dmx_feed_alloc :: "dvb_demux \<Rightarrow> dvb_demux \<times> nat option" where
  "dvb_dmx_feed_alloc demux =
     (case free_index (map feed_state (feeds demux)) of
        None \<Rightarrow> (demux, None)
      | Some i \<Rightarrow> (demux\<lparr>feeds := (feeds demux)[i := (feeds demux ! i)\<lparr>feed_state := DMX_STATE_ALLOCATED\<rparr>]\<rparr>, Some i))"

definition dvb_demux_feed_find :: "dvb_demux \<Rightarrow> nat \<Rightarrow> bool" where
  "dvb_demux_feed_find demux i \<longleftrightarrow> i \<in> set (feed_list demux)"

definition dvb_demux_feed_add :: "dvb_demux \<Rightarrow> nat \<Rightarrow> dvb_demux" where
  "dvb_demux_feed_add demux i = (if dvb_demux_feed_find demux i then demux else demux\<lparr>feed_list := i # feed_list demux\<rparr>)"

definition dvb_demux_feed_del :: "dvb_demux \<Rightarrow> nat \<Rightarrow> dvb_demux" where
  "dvb_demux_feed_del demux i = (if \<not> dvb_demux_feed_find demux i then demux else demux\<lparr>feed_list := remove1 i (feed_list demux)\<rparr>)"

text \<open>The update of a feed and of a filter.\<close>

definition put_feed :: "dvb_demux \<Rightarrow> nat \<Rightarrow> dvb_demux_feed \<Rightarrow> dvb_demux" where
  "put_feed demux i f = demux\<lparr>feeds := (feeds demux)[i := f]\<rparr>"

definition put_filter :: "dvb_demux \<Rightarrow> nat \<Rightarrow> dvb_demux_filter \<Rightarrow> dvb_demux" where
  "put_filter demux k f = demux\<lparr>filters := (filters demux)[k := f]\<rparr>"

section \<open>TS feeds\<close>

definition dmx_ts_feed_set :: "bool \<Rightarrow> dvb_demux \<Rightarrow> nat \<Rightarrow> u16 \<Rightarrow> u32 \<Rightarrow> nat \<Rightarrow> (dvb_demux \<times> unit result) option" where
  "dmx_ts_feed_set intr demux i pid tstype pestype =
     (if pid > DMX_MAX_PID then Some (demux, Inl EINVAL)
      else if intr then Some (demux, Inl ERESTARTSYS)
      else do {
        (demux, ok) \<leftarrow>
          (if tstype AND TS_DECODER \<noteq> 0 then
             if pestype \<ge> DMX_PES_OTHER then Some (demux, False)
             else do {
               slot \<leftarrow> mem_get (pesfilter demux) pestype;
               if slot \<noteq> None \<and> slot \<noteq> Some i then Some (demux, False)
               else do {
                 pf \<leftarrow> mem_set (pesfilter demux) pestype (Some i);
                 ps \<leftarrow> mem_set (pids demux) pestype pid;
                 Some (demux\<lparr>pesfilter := pf, pids := ps\<rparr>, True)
               }
             }
           else Some (demux, True));
        if \<not> ok then Some (demux, Inl EINVAL)
        else do {
          let demux = dvb_demux_feed_add demux i;
          feed \<leftarrow> mem_get (feeds demux) i;
          Some (put_feed demux i (feed\<lparr>feed_pid := pid, ts_type := tstype, pes_type := pestype, feed_state := DMX_STATE_READY\<rparr>), Inr ())
        }
      })"

definition dmx_ts_feed_start_filtering ::
  "'c dmx_driver \<Rightarrow> bool \<Rightarrow> dvb_demux \<Rightarrow> 'c \<Rightarrow> nat \<Rightarrow> (dvb_demux \<times> 'c \<times> unit result) option" where
  "dmx_ts_feed_start_filtering drv intr demux c i =
     (if intr then Some (demux, c, Inl ERESTARTSYS)
      else do {
        feed \<leftarrow> mem_get (feeds demux) i;
        if feed_state feed \<noteq> DMX_STATE_READY \<or> feed_type feed \<noteq> DMX_TYPE_TS then Some (demux, c, Inl EINVAL)
        else case start_feed drv of
          None \<Rightarrow> Some (demux, c, Inl ENODEV)
        | Some start \<Rightarrow>
            (case start i (pusi_seen feed) c of
               (Inl e, seen, c) \<Rightarrow> Some (put_feed demux i (feed\<lparr>pusi_seen := seen\<rparr>), c, Inl e)
             | (Inr _, seen, c) \<Rightarrow>
                 Some (put_feed demux i (feed\<lparr>pusi_seen := seen, is_filtering := True, feed_state := DMX_STATE_GO\<rparr>), c, Inr ()))
      })"

text \<open>The states are numbered in the order of the enumeration.\<close>

definition state_less_go :: "dvb_dmx_state \<Rightarrow> bool" where
  "state_less_go s \<longleftrightarrow> s \<noteq> DMX_STATE_GO"

definition dmx_ts_feed_stop_filtering :: "'c dmx_driver \<Rightarrow> dvb_demux \<Rightarrow> 'c \<Rightarrow> nat \<Rightarrow> (dvb_demux \<times> 'c \<times> unit result) option" where
  "dmx_ts_feed_stop_filtering drv demux c i = do {
     feed \<leftarrow> mem_get (feeds demux) i;
     if state_less_go (feed_state feed) then Some (demux, c, Inl EINVAL)
     else case stop_feed drv of
       None \<Rightarrow> Some (demux, c, Inl ENODEV)
     | Some stop \<Rightarrow>
         let (ret, seen, c) = stop i (pusi_seen feed) c in
         Some (put_feed demux i (feed\<lparr>pusi_seen := seen, is_filtering := False, feed_state := DMX_STATE_ALLOCATED\<rparr>), c, ret)
   }"

definition dvbdmx_allocate_ts_feed :: "bool \<Rightarrow> dvb_demux \<Rightarrow> (dvb_demux \<times> nat result) option" where
  "dvbdmx_allocate_ts_feed intr demux =
     (if intr then Some (demux, Inl ERESTARTSYS)
      else case dvb_dmx_feed_alloc demux of
        (demux, None) \<Rightarrow> Some (demux, Inl EBUSY)
      | (demux, Some i) \<Rightarrow> do {
          feed \<leftarrow> mem_get (feeds demux) i;
          let feed = feed\<lparr>feed_type := DMX_TYPE_TS, feed_pid := 0xffff, peslen := 0xfffa, buffer_flags := 0, is_filtering := False\<rparr>;
          case dvb_dmx_filter_alloc demux of
            (demux, None) \<Rightarrow> Some (put_feed demux i (feed\<lparr>feed_filter := [], feed_state := DMX_STATE_FREE\<rparr>), Inl EBUSY)
          | (demux, Some k) \<Rightarrow> do {
              f \<leftarrow> mem_get (filters demux) k;
              Some (put_filter (put_feed demux i (feed\<lparr>feed_filter := [k]\<rparr>)) k
                      (f\<lparr>flt_type := DMX_TYPE_TS, flt_feed := i, flt_state := DMX_STATE_READY\<rparr>), Inr i)
            }
        })"

text \<open>The head of the chain is the filter of a TS feed.\<close>

definition dvbdmx_release_ts_feed :: "dvb_demux \<Rightarrow> nat \<Rightarrow> (dvb_demux \<times> unit result) option" where
  "dvbdmx_release_ts_feed demux i = do {
     feed \<leftarrow> mem_get (feeds demux) i;
     if feed_state feed = DMX_STATE_FREE then Some (demux, Inl EINVAL)
     else do {
       k \<leftarrow> mem_get (feed_filter feed) 0;
       f \<leftarrow> mem_get (filters demux) k;
       let demux = put_filter demux k (f\<lparr>flt_state := DMX_STATE_FREE\<rparr>);
       let demux = dvb_demux_feed_del demux i;
       let demux = put_feed demux i (feed\<lparr>feed_state := DMX_STATE_FREE, feed_pid := 0xffff\<rparr>);
       if ts_type feed AND TS_DECODER \<noteq> 0 \<and> pes_type feed < DMX_PES_OTHER
       then do {
         pf \<leftarrow> mem_set (pesfilter demux) (pes_type feed) None;
         Some (demux\<lparr>pesfilter := pf\<rparr>, Inr ())
       } else Some (demux, Inr ())
     }
   }"

section \<open>Section feeds\<close>

definition dmx_section_feed_allocate_filter :: "bool \<Rightarrow> dvb_demux \<Rightarrow> nat \<Rightarrow> (dvb_demux \<times> nat result) option" where
  "dmx_section_feed_allocate_filter intr demux i =
     (if intr then Some (demux, Inl ERESTARTSYS)
      else case dvb_dmx_filter_alloc demux of
        (demux, None) \<Rightarrow> Some (demux, Inl EBUSY)
      | (demux, Some k) \<Rightarrow> do {
          feed \<leftarrow> mem_get (feeds demux) i;
          f \<leftarrow> mem_get (filters demux) k;
          let demux = put_filter demux k (f\<lparr>flt_feed := i, flt_type := DMX_TYPE_SEC, flt_state := DMX_STATE_READY\<rparr>);
          Some (put_feed demux i (feed\<lparr>feed_filter := k # feed_filter feed\<rparr>), Inr k)
        })"

definition dmx_section_feed_set :: "bool \<Rightarrow> dvb_demux \<Rightarrow> nat \<Rightarrow> u16 \<Rightarrow> bool \<Rightarrow> (dvb_demux \<times> unit result) option" where
  "dmx_section_feed_set intr demux i pid crc =
     (if pid > 0x1fff then Some (demux, Inl EINVAL)
      else if intr then Some (demux, Inl ERESTARTSYS)
      else do {
        let demux = dvb_demux_feed_add demux i;
        feed \<leftarrow> mem_get (feeds demux) i;
        Some (put_feed demux i (feed\<lparr>feed_pid := pid, check_crc := crc, feed_state := DMX_STATE_READY\<rparr>), Inr ())
      })"

text \<open>The loop over the bytes of a filter, and over the chain.\<close>

fun prepare_bytes :: "dvb_demux_filter \<Rightarrow> nat list \<Rightarrow> u8 \<Rightarrow> (dvb_demux_filter \<times> u8) option" where
  "prepare_bytes f [] dq = Some (f, dq)"
| "prepare_bytes f (i # is) dq = do {
     mode \<leftarrow> mem_get (filter_mode f) i;
     mask \<leftarrow> mem_get (filter_mask f) i;
     mm \<leftarrow> mem_set (maskandmode f) i (mask AND mode);
     mn \<leftarrow> mem_set (maskandnotmode f) i (mask AND NOT mode);
     prepare_bytes (f\<lparr>maskandmode := mm, maskandnotmode := mn\<rparr>) is (dq OR (mask AND NOT mode))
   }"

fun prepare_chain :: "dvb_demux_filter list \<Rightarrow> nat list \<Rightarrow> dvb_demux_filter list option" where
  "prepare_chain fs [] = Some fs"
| "prepare_chain fs (k # ks) = do {
     f \<leftarrow> mem_get fs k;
     (f, dq) \<leftarrow> prepare_bytes f [0..<DVB_DEMUX_MASK_MAX] 0;
     prepare_chain (fs[k := f\<lparr>doneq := dq \<noteq> 0\<rparr>]) ks
   }"

definition prepare_secfilters :: "dvb_demux \<Rightarrow> nat \<Rightarrow> dvb_demux option" where
  "prepare_secfilters demux i = do {
     feed \<leftarrow> mem_get (feeds demux) i;
     fs \<leftarrow> prepare_chain (filters demux) (feed_filter feed);
     Some (demux\<lparr>filters := fs\<rparr>)
   }"

definition dmx_section_feed_start_filtering ::
  "'c dmx_driver \<Rightarrow> bool \<Rightarrow> dvb_demux \<Rightarrow> 'c \<Rightarrow> nat \<Rightarrow> (dvb_demux \<times> 'c \<times> unit result) option" where
  "dmx_section_feed_start_filtering drv intr demux c i =
     (if intr then Some (demux, c, Inl ERESTARTSYS)
      else do {
        feed \<leftarrow> mem_get (feeds demux) i;
        if is_filtering feed then Some (demux, c, Inl EBUSY)
        else if feed_filter feed = [] then Some (demux, c, Inl EINVAL)
        else do {
          let feed = feed\<lparr>tsfeedp := 0, secbuf := 0, secbufp := 0, seclen := 0\<rparr>;
          let demux = put_feed demux i feed;
          case start_feed drv of
            None \<Rightarrow> Some (demux, c, Inl ENODEV)
          | Some start \<Rightarrow> do {
              demux \<leftarrow> prepare_secfilters demux i;
              case start i (pusi_seen feed) c of
                (Inl e, seen, c) \<Rightarrow> Some (put_feed demux i (feed\<lparr>pusi_seen := seen\<rparr>), c, Inl e)
              | (Inr _, seen, c) \<Rightarrow>
                  Some (put_feed demux i (feed\<lparr>pusi_seen := seen, is_filtering := True, feed_state := DMX_STATE_GO\<rparr>), c, Inr ())
            }
        }
      })"

definition dmx_section_feed_stop_filtering :: "'c dmx_driver \<Rightarrow> dvb_demux \<Rightarrow> 'c \<Rightarrow> nat \<Rightarrow> (dvb_demux \<times> 'c \<times> unit result) option" where
  "dmx_section_feed_stop_filtering drv demux c i =
     (case stop_feed drv of
        None \<Rightarrow> Some (demux, c, Inl ENODEV)
      | Some stop \<Rightarrow> do {
          feed \<leftarrow> mem_get (feeds demux) i;
          let (ret, seen, c) = stop i (pusi_seen feed) c;
          Some (put_feed demux i (feed\<lparr>pusi_seen := seen, feed_state := DMX_STATE_READY, is_filtering := False\<rparr>), c, ret)
        })"

text \<open>Walking the chain to a filter that is not in it ends at a null pointer.\<close>

definition dmx_section_feed_release_filter :: "'c dmx_driver \<Rightarrow> dvb_demux \<Rightarrow> 'c \<Rightarrow> nat \<Rightarrow> nat \<Rightarrow> (dvb_demux \<times> 'c \<times> unit result) option" where
  "dmx_section_feed_release_filter drv demux c i k = do {
     f \<leftarrow> mem_get (filters demux) k;
     feed \<leftarrow> mem_get (feeds demux) i;
     if flt_feed f \<noteq> i then Some (demux, c, Inl EINVAL)
     else do {
       (demux, c) \<leftarrow>
         (if is_filtering feed then map_option (\<lambda>(demux, c, _). (demux, c)) (dmx_section_feed_stop_filtering drv demux c i)
          else Some (demux, c));
       feed \<leftarrow> mem_get (feeds demux) i;
       if k \<notin> set (feed_filter feed) then None
       else Some (put_filter (put_feed demux i (feed\<lparr>feed_filter := remove1 k (feed_filter feed)\<rparr>)) k (f\<lparr>flt_state := DMX_STATE_FREE\<rparr>),
                  c, Inr ())
     }
   }"

definition dvbdmx_allocate_section_feed :: "bool \<Rightarrow> dvb_demux \<Rightarrow> (dvb_demux \<times> nat result) option" where
  "dvbdmx_allocate_section_feed intr demux =
     (if intr then Some (demux, Inl ERESTARTSYS)
      else case dvb_dmx_feed_alloc demux of
        (demux, None) \<Rightarrow> Some (demux, Inl EBUSY)
      | (demux, Some i) \<Rightarrow> do {
          feed \<leftarrow> mem_get (feeds demux) i;
          Some (put_feed demux i (feed\<lparr>feed_type := DMX_TYPE_SEC, feed_pid := 0xffff, buffer_flags := 0, secbuf := 0, secbufp := 0,
                  seclen := 0, tsfeedp := 0, feed_filter := [], is_filtering := False\<rparr>), Inr i)
        })"

definition dvbdmx_release_section_feed :: "dvb_demux \<Rightarrow> nat \<Rightarrow> (dvb_demux \<times> unit result) option" where
  "dvbdmx_release_section_feed demux i = do {
     feed \<leftarrow> mem_get (feeds demux) i;
     if feed_state feed = DMX_STATE_FREE then Some (demux, Inl EINVAL)
     else
       let demux = dvb_demux_feed_del demux i in
       Some (put_feed demux i (feed\<lparr>feed_state := DMX_STATE_FREE, feed_pid := 0xffff\<rparr>), Inr ())
   }"

section \<open>The demux\<close>

definition dvbdmx_open :: "dvb_demux \<Rightarrow> dvb_demux \<times> unit result" where
  "dvbdmx_open demux =
     (if users demux \<ge> MAX_DVB_DEMUX_USERS then (demux, Inl EUSERS) else (demux\<lparr>users := users demux + 1\<rparr>, Inr ()))"

definition dvbdmx_close :: "dvb_demux \<Rightarrow> dvb_demux \<times> unit result" where
  "dvbdmx_close demux = (if users demux = 0 then (demux, Inl ENODEV) else (demux\<lparr>users := users demux - 1\<rparr>, Inr ()))"

text \<open>\<open>sources\<close> is the source of each frontend, \<open>ubuf\<close> the result of copying the bytes of the user, \<open>pending\<close> whether a signal is pending afterwards.\<close>

definition dvbdmx_write ::
  "dmx_opts \<Rightarrow> 'c dmx_env \<Rightarrow> (nat \<Rightarrow> dmx_frontend_source) \<Rightarrow> bool \<Rightarrow> bool \<Rightarrow> dvb_demux \<Rightarrow> 'c \<Rightarrow> u8 list result \<Rightarrow> (dvb_demux \<times> 'c \<times> nat result) option" where
  "dvbdmx_write opts env sources intr pending demux c ubuf =
     (case frontend demux of
        None \<Rightarrow> Some (demux, c, Inl EINVAL)
      | Some fe \<Rightarrow>
          if sources fe \<noteq> DMX_MEMORY_FE then Some (demux, c, Inl EINVAL)
          else case ubuf of
            Inl e \<Rightarrow> Some (demux, c, Inl e)
          | Inr p \<Rightarrow>
              if intr then Some (demux, c, Inl ERESTARTSYS)
              else do {
                (demux, c) \<leftarrow> dvb_dmx_swfilter opts env demux c p (length p);
                Some (demux, c, if pending then Inl EINTR else Inr (length p))
              })"

definition dvbdmx_add_frontend :: "dvb_demux \<Rightarrow> nat \<Rightarrow> dvb_demux \<times> unit result" where
  "dvbdmx_add_frontend demux fe = (demux\<lparr>frontend_list := fe # frontend_list demux\<rparr>, Inr ())"

definition dvbdmx_remove_frontend :: "dvb_demux \<Rightarrow> nat \<Rightarrow> dvb_demux \<times> unit result" where
  "dvbdmx_remove_frontend demux fe =
     (if fe \<in> set (frontend_list demux) then (demux\<lparr>frontend_list := remove1 fe (frontend_list demux)\<rparr>, Inr ()) else (demux, Inl ENODEV))"

definition dvbdmx_get_frontends :: "dvb_demux \<Rightarrow> nat list option" where
  "dvbdmx_get_frontends demux = (if frontend_list demux = [] then None else Some (frontend_list demux))"

definition dvbdmx_connect_frontend :: "dvb_demux \<Rightarrow> nat \<Rightarrow> dvb_demux \<times> unit result" where
  "dvbdmx_connect_frontend demux fe = (if frontend demux \<noteq> None then (demux, Inl EINVAL) else (demux\<lparr>frontend := Some fe\<rparr>, Inr ()))"

definition dvbdmx_disconnect_frontend :: "dvb_demux \<Rightarrow> dvb_demux \<times> unit result" where
  "dvbdmx_disconnect_frontend demux = (demux\<lparr>frontend := None\<rparr>, Inr ())"

definition dvbdmx_get_pes_pids :: "dvb_demux \<Rightarrow> u16 list option" where
  "dvbdmx_get_pes_pids demux = mem_read (pids demux) 0 5"

text \<open>
  The initialisation gets the three blocks of memory: the arrays of filters and feeds with whatever \<^verbatim>\<open>vmalloc\<close> leaves in them, and the counters.
\<close>

fun index_feeds :: "nat \<Rightarrow> dvb_demux_feed list \<Rightarrow> dvb_demux_feed list" where
  "index_feeds i [] = []"
| "index_feeds i (f # fs) = f\<lparr>feed_state := DMX_STATE_FREE, feed_index := i\<rparr> # index_feeds (i + 1) fs"

definition dvb_dmx_init ::
  "dvb_demux \<Rightarrow> dvb_demux_filter list option \<Rightarrow> dvb_demux_feed list option \<Rightarrow> u8 list option \<Rightarrow> dvb_demux \<times> unit result" where
  "dvb_dmx_init demux mem_filters mem_feeds mem_cnt =
     (let demux = demux\<lparr>cnt_storage := None, users := 0\<rparr> in
      case mem_filters of
        None \<Rightarrow> (demux\<lparr>filters := []\<rparr>, Inl ENOMEM)
      | Some fls \<Rightarrow>
          (case mem_feeds of
             None \<Rightarrow> (demux\<lparr>filters := [], feeds := []\<rparr>, Inl ENOMEM)
           | Some fds \<Rightarrow>
               (demux\<lparr>filters := map (\<lambda>f. f\<lparr>flt_state := DMX_STATE_FREE\<rparr>) fls, feeds := index_feeds 0 fds, cnt_storage := mem_cnt,
                  frontend_list := [], pesfilter := replicate DMX_PES_OTHER None, pids := replicate DMX_PES_OTHER 0xffff, feed_list := [],
                  tsbufp := 0, frontend := None\<rparr>, Inr ())))"

text \<open>The pointers dangle after the release: any access is outside the memory.\<close>

definition dvb_dmx_release :: "dvb_demux \<Rightarrow> dvb_demux" where
  "dvb_dmx_release demux = demux\<lparr>cnt_storage := Some [], filters := [], feeds := []\<rparr>"

end
