(* ===== verification/Dvb_Dmx_Calls.thy ===== *)
theory Dvb_Dmx_Calls
  imports Dvb_Dmx_Api
begin

text \<open>
  Sequences of calls on a demux: the calls and the packets as steps, the invariant of the feeds, the filters and the tables, and what the errors
  leave behind.
\<close>

section \<open>The calls as steps\<close>

text \<open>
  The calls, and a packet from the hardware. \<open>Configure\<close> is the client filling in the value, mask and mode of a filter it has allocated.
\<close>

datatype dmx_call =
    AllocTs bool | SetTs bool nat u16 u32 nat | StartTs bool nat | StopTs nat | ReleaseTs nat
  | AllocSec bool | SetSec bool nat u16 bool | AllocFilter bool nat | Configure nat "u8 list" "u8 list" "u8 list"
  | StartSec bool nat | StopSec nat | ReleaseFilter nat nat | ReleaseSec nat | Packet "u8 list"

fun dmx_step :: "dmx_opts \<Rightarrow> 'c dmx_env \<Rightarrow> 'c dmx_driver \<Rightarrow> dmx_call \<Rightarrow> dvb_demux \<Rightarrow> 'c \<Rightarrow> (dvb_demux \<times> 'c) option" where
  "dmx_step opts env drv (AllocTs intr) d c = map_option (\<lambda>(d, _). (d, c)) (dvbdmx_allocate_ts_feed intr d)"
| "dmx_step opts env drv (SetTs intr i pid tt pt) d c = map_option (\<lambda>(d, _). (d, c)) (dmx_ts_feed_set intr d i pid tt pt)"
| "dmx_step opts env drv (StartTs intr i) d c = map_option (\<lambda>(d, c, _). (d, c)) (dmx_ts_feed_start_filtering drv intr d c i)"
| "dmx_step opts env drv (StopTs i) d c = map_option (\<lambda>(d, c, _). (d, c)) (dmx_ts_feed_stop_filtering drv d c i)"
| "dmx_step opts env drv (ReleaseTs i) d c = map_option (\<lambda>(d, _). (d, c)) (dvbdmx_release_ts_feed d i)"
| "dmx_step opts env drv (AllocSec intr) d c = map_option (\<lambda>(d, _). (d, c)) (dvbdmx_allocate_section_feed intr d)"
| "dmx_step opts env drv (SetSec intr i pid crc) d c = map_option (\<lambda>(d, _). (d, c)) (dmx_section_feed_set intr d i pid crc)"
| "dmx_step opts env drv (AllocFilter intr i) d c = map_option (\<lambda>(d, _). (d, c)) (dmx_section_feed_allocate_filter intr d i)"
| "dmx_step opts env drv (Configure k v m md) d c =
     map_option (\<lambda>f. (put_filter d k (f\<lparr>filter_value := v, filter_mask := m, filter_mode := md\<rparr>), c)) (mem_get (filters d) k)"
| "dmx_step opts env drv (StartSec intr i) d c = map_option (\<lambda>(d, c, _). (d, c)) (dmx_section_feed_start_filtering drv intr d c i)"
| "dmx_step opts env drv (StopSec i) d c = map_option (\<lambda>(d, c, _). (d, c)) (dmx_section_feed_stop_filtering drv d c i)"
| "dmx_step opts env drv (ReleaseFilter i k) d c = map_option (\<lambda>(d, c, _). (d, c)) (dmx_section_feed_release_filter drv d c i k)"
| "dmx_step opts env drv (ReleaseSec i) d c = map_option (\<lambda>(d, _). (d, c)) (dvbdmx_release_section_feed d i)"
| "dmx_step opts env drv (Packet p) d c = dvb_dmx_swfilter_packet opts env d c p"

text \<open>
  What a client has to keep to: it uses the feeds it has allocated by the calls of their type, releases filters from the feed they belong to, and
  fills all 18 bytes.
\<close>

definition owns :: "dvb_demux \<Rightarrow> dvb_dmx_filter_type \<Rightarrow> nat \<Rightarrow> bool" where
  "owns d t i \<longleftrightarrow> i < length (feeds d) \<and> feed_state (feeds d ! i) \<noteq> DMX_STATE_FREE \<and> feed_type (feeds d ! i) = t"

fun client_ok :: "dvb_demux \<Rightarrow> dmx_call \<Rightarrow> bool" where
  "client_ok d (AllocTs intr) = True"
| "client_ok d (SetTs intr i pid tt pt) = owns d DMX_TYPE_TS i"
| "client_ok d (StartTs intr i) = owns d DMX_TYPE_TS i"
| "client_ok d (StopTs i) = owns d DMX_TYPE_TS i"
| "client_ok d (ReleaseTs i) = owns d DMX_TYPE_TS i"
| "client_ok d (AllocSec intr) = True"
| "client_ok d (SetSec intr i pid crc) = owns d DMX_TYPE_SEC i"
| "client_ok d (AllocFilter intr i) = owns d DMX_TYPE_SEC i"
| "client_ok d (Configure k v m md) = (k < length (filters d) \<and> length v = 18 \<and> length m = 18 \<and> length md = 18)"
| "client_ok d (StartSec intr i) = owns d DMX_TYPE_SEC i"
| "client_ok d (StopSec i) = owns d DMX_TYPE_SEC i"
| "client_ok d (ReleaseFilter i k) = (owns d DMX_TYPE_SEC i \<and> k \<in> set (feed_filter (feeds d ! i)))"
| "client_ok d (ReleaseSec i) = owns d DMX_TYPE_SEC i"
| "client_ok d (Packet p) = True"

text \<open>
  What the stream has to keep to, apart from the clients: the packets that the driver hands over have 188 bytes and a payload. MPEG-2 also allows packets
  that have only an adaptation field; a section feed does not survive these (\<open>empty_packet_overruns\<close>).
\<close>

fun packet_ok :: "dmx_call \<Rightarrow> bool" where
  "packet_ok (Packet p) = (length p = 188 \<and> payload p \<noteq> Some 0)"
| "packet_ok _ = True"

section \<open>The invariant\<close>

definition flt_sized :: "dvb_demux_filter \<Rightarrow> bool" where
  "flt_sized f \<longleftrightarrow> filter_sized f \<and> length (filter_mask f) = 18 \<and> length (filter_mode f) = 18"

text \<open>A feed in use: the filters of its chain exist, are in use and belong to it, and its section buffer is in order.\<close>

definition feed_ok :: "dvb_demux_filter list \<Rightarrow> nat \<Rightarrow> dvb_demux_feed \<Rightarrow> bool" where
  "feed_ok flts i f \<longleftrightarrow> feed_state f = DMX_STATE_FREE \<or>
     distinct (feed_filter f) \<and>
     (\<forall>k \<in> set (feed_filter f). k < length flts \<and> flt_feed (flts ! k) = i \<and> flt_state (flts ! k) = DMX_STATE_READY) \<and>
     (case feed_type f of DMX_TYPE_SEC \<Rightarrow> sec_inv f | DMX_TYPE_TS \<Rightarrow> length (feed_filter f) = 1)"

definition buf_ok :: "dvb_demux_feed \<Rightarrow> bool" where
  "buf_ok f \<longleftrightarrow> DMX_MAX_SECFEED_SIZE + 15 \<le> length (secbuf_base f)"

definition list_ok :: "nat list \<Rightarrow> dvb_demux_feed list \<Rightarrow> bool" where
  "list_ok is fs \<longleftrightarrow> distinct is \<and> (\<forall>i \<in> set is. i < length fs \<and> feed_state (fs ! i) \<noteq> DMX_STATE_FREE)"

definition feeds_ok :: "dvb_demux_filter list \<Rightarrow> dvb_demux_feed list \<Rightarrow> bool" where
  "feeds_ok flts fs \<longleftrightarrow> (\<forall>i<length fs. feed_ok flts i (fs ! i) \<and> buf_ok (fs ! i))"

definition tables_ok :: "dvb_demux \<Rightarrow> bool" where
  "tables_ok d \<longleftrightarrow> length (tsbuf d) = 204 \<and> length (pesfilter d) = DMX_PES_OTHER \<and> length (pids d) = DMX_PES_OTHER \<and>
     (\<forall>cnt. cnt_storage d = Some cnt \<longrightarrow> MAX_PID \<le> length cnt)"

definition dmx_inv :: "dvb_demux \<Rightarrow> bool" where
  "dmx_inv d \<longleftrightarrow> tables_ok d \<and> list_ok (feed_list d) (feeds d) \<and> feeds_ok (filters d) (feeds d) \<and> (\<forall>f \<in> set (filters d). flt_sized f)"

lemma put_simps [simp]:
  "feeds (put_feed d i f) = (feeds d)[i := f]" "filters (put_feed d i f) = filters d" "feed_list (put_feed d i f) = feed_list d"
  "filters (put_filter d k g) = (filters d)[k := g]" "feeds (put_filter d k g) = feeds d" "feed_list (put_filter d k g) = feed_list d"
  "put_feed (put_feed d i f') i f = put_feed d i f" "put_filter (put_filter d k g') k g = put_filter d k g"
  "tables_ok (put_feed d i f) = tables_ok d" "tables_ok (put_filter d k g) = tables_ok d"
  "pesfilter (put_feed d i f) = pesfilter d" "pids (put_feed d i f) = pids d"
  "pesfilter (put_filter d k g) = pesfilter d" "pids (put_filter d k g) = pids d"
  by (simp_all add: put_feed_def put_filter_def tables_ok_def)

lemma put_filter_feed: "put_filter (put_feed d i f) k g = put_feed (put_filter d k g) i f"
  by (simp add: put_feed_def put_filter_def)

lemma inv_put_feed:
  assumes "dmx_inv d" "feed_ok (filters d) i f" "buf_ok f" "i \<in> set (feed_list d) \<Longrightarrow> feed_state f \<noteq> DMX_STATE_FREE"
  shows "dmx_inv (put_feed d i f)"
  using assms by (cases "i < length (feeds d)") (auto simp: dmx_inv_def list_ok_def feeds_ok_def nth_list_update)

text \<open>A filter that no feed in use has in its chain may be changed.\<close>

definition unused :: "dvb_demux \<Rightarrow> nat \<Rightarrow> bool" where
  "unused d k \<longleftrightarrow> (\<forall>i<length (feeds d). feed_state (feeds d ! i) \<noteq> DMX_STATE_FREE \<longrightarrow> k \<notin> set (feed_filter (feeds d ! i)))"

lemma inv_put_filter:
  assumes "dmx_inv d" "unused d k" "flt_sized g"
  shows "dmx_inv (put_filter d k g)"
proof (cases "k < length (filters d)")
  case True
  have "feed_ok ((filters d)[k := g]) i (feeds d ! i)" if "i < length (feeds d)" for i
  proof -
    have "feed_ok (filters d) i (feeds d ! i)" using assms(1) that by (simp add: dmx_inv_def feeds_ok_def)
    moreover have "feed_state (feeds d ! i) = DMX_STATE_FREE \<or> k \<notin> set (feed_filter (feeds d ! i))" using assms(2) that by (auto simp: unused_def)
    ultimately show ?thesis using True by (auto simp: feed_ok_def nth_list_update)
  qed
  with assms(1,3) show ?thesis by (auto simp: dmx_inv_def feeds_ok_def dest!: set_update_subset_insert [THEN subsetD])
next
  case False
  then have "(filters d)[k := g] = filters d" by (simp add: list_update_beyond)
  with assms(1) show ?thesis by (simp add: dmx_inv_def)
qed

text \<open>A change that keeps what the chains rely on.\<close>

lemma inv_put_filter_same:
  assumes "dmx_inv d" "k < length (filters d)" "flt_feed g = flt_feed (filters d ! k)" "flt_state g = flt_state (filters d ! k)" "flt_sized g"
  shows "dmx_inv (put_filter d k g)"
proof -
  have "feed_ok ((filters d)[k := g]) i (feeds d ! i)" if "i < length (feeds d)" for i
    using assms that unfolding dmx_inv_def feeds_ok_def feed_ok_def by (cases "feed_type (feeds d ! i)") (fastforce simp: nth_list_update)+
  with assms(1,5) show ?thesis by (auto simp: dmx_inv_def feeds_ok_def dest!: set_update_subset_insert [THEN subsetD])
qed

lemma free_index_Some: "free_index ss = Some k \<Longrightarrow> k < length ss \<and> ss ! k = DMX_STATE_FREE"
  by (induction ss arbitrary: k) (auto split: if_splits)

lemma free_unused:
  assumes "dmx_inv d" "flt_state (filters d ! k) = DMX_STATE_FREE"
  shows "unused d k"
  using assms unfolding dmx_inv_def feeds_ok_def feed_ok_def unused_def by force

lemma inv_feed:
  assumes "dmx_inv d" "owns d t i"
  shows "mem_get (feeds d) i = Some (feeds d ! i)" "feed_ok (filters d) i (feeds d ! i)" "buf_ok (feeds d ! i)"
    "feed_state (feeds d ! i) \<noteq> DMX_STATE_FREE" "feed_type (feeds d ! i) = t" "i < length (feeds d)"
  using assms by (auto simp: owns_def dmx_inv_def feeds_ok_def mem_get_def)

lemma inv_add: "dmx_inv d \<Longrightarrow> owns d t i \<Longrightarrow> dmx_inv (dvb_demux_feed_add d i)"
  by (auto simp: dmx_inv_def owns_def dvb_demux_feed_add_def dvb_demux_feed_find_def list_ok_def tables_ok_def)

lemma add_simps [simp]:
  "feeds (dvb_demux_feed_add d i) = feeds d" "filters (dvb_demux_feed_add d i) = filters d"
  "feeds (dvb_demux_feed_del d i) = feeds d" "filters (dvb_demux_feed_del d i) = filters d"
  "pesfilter (dvb_demux_feed_add d i) = pesfilter d" "pesfilter (dvb_demux_feed_del d i) = pesfilter d"
  "owns (dvb_demux_feed_add d j) t i = owns d t i"
  by (simp_all add: dvb_demux_feed_add_def dvb_demux_feed_del_def owns_def)

lemma inv_del: "dmx_inv d \<Longrightarrow> dmx_inv (dvb_demux_feed_del d i) \<and> i \<notin> set (feed_list (dvb_demux_feed_del d i))"
  by (auto simp: dmx_inv_def dvb_demux_feed_del_def dvb_demux_feed_find_def list_ok_def tables_ok_def set_remove1_eq)

lemma inv_pes:
  "dmx_inv d \<Longrightarrow> length pf = DMX_PES_OTHER \<Longrightarrow> length ps = DMX_PES_OTHER \<Longrightarrow> dmx_inv (d\<lparr>pesfilter := pf, pids := ps\<rparr>)"
  "dmx_inv d \<Longrightarrow> length pf = DMX_PES_OTHER \<Longrightarrow> dmx_inv (d\<lparr>pesfilter := pf\<rparr>)"
  by (simp_all add: dmx_inv_def tables_ok_def)

lemma feed_ok_cong:
  assumes "feed_ok flts i f" "feed_state f \<noteq> DMX_STATE_FREE" "feed_filter g = feed_filter f" "feed_type g = feed_type f"
    and "feed_type f = DMX_TYPE_SEC \<Longrightarrow> sec_inv g"
  shows "feed_ok flts i g"
  using assms by (cases "feed_type f") (auto simp: feed_ok_def)

lemma feed_ok_sec: "feed_ok flts i f \<Longrightarrow> feed_state f \<noteq> DMX_STATE_FREE \<Longrightarrow> feed_type f = DMX_TYPE_SEC \<Longrightarrow> sec_inv f"
  by (simp add: feed_ok_def)

lemma feed_ok_free: "feed_state f = DMX_STATE_FREE \<Longrightarrow> feed_ok flts i f"
  by (simp add: feed_ok_def)

lemma inv_sized: "dmx_inv d \<Longrightarrow> k < length (filters d) \<Longrightarrow> flt_sized (filters d ! k)"
  by (simp add: dmx_inv_def)

text \<open>The update of the setup of a feed in use.\<close>

lemma inv_setup:
  assumes "dmx_inv d" "owns d t i" "feed_filter g = feed_filter (feeds d ! i)" "feed_type g = t" "secbuf_base g = secbuf_base (feeds d ! i)"
    and "t = DMX_TYPE_SEC \<Longrightarrow> sec_inv (feeds d ! i) \<Longrightarrow> sec_inv g" "feed_state g \<noteq> DMX_STATE_FREE"
  shows "dmx_inv (put_feed d i g)"
proof (rule inv_put_feed [OF assms(1)])
  note f = inv_feed [OF assms(1,2)]
  have "sec_inv (feeds d ! i)" if "t = DMX_TYPE_SEC" using feed_ok_sec [OF f(2,4)] f(5) that by simp
  then show "feed_ok (filters d) i g" using assms f by (intro feed_ok_cong [OF f(2,4)]) simp_all
  show "buf_ok g" using f(3) assms(5) by (simp add: buf_ok_def)
qed (use assms(7) in simp)

lemma sec_inv_update [simp]:
  "sec_inv (f\<lparr>pusi_seen := a\<rparr>) = sec_inv f" "sec_inv (f\<lparr>is_filtering := b\<rparr>) = sec_inv f" "sec_inv (f\<lparr>feed_state := s\<rparr>) = sec_inv f"
  "sec_inv (f\<lparr>feed_pid := p\<rparr>) = sec_inv f" "sec_inv (f\<lparr>check_crc := b\<rparr>) = sec_inv f" "sec_inv (f\<lparr>feed_filter := fl\<rparr>) = sec_inv f"
  by (simp_all add: sec_inv_def)

lemma ts_set_inv:
  assumes "dmx_inv d" "owns d DMX_TYPE_TS i"
  shows "\<exists>d' r. dmx_ts_feed_set intr d i pid tt pt = Some (d', r) \<and> dmx_inv d'"
proof -
  note f = inv_feed [OF assms]
  have put: "dmx_inv (put_feed (dvb_demux_feed_add e i) i ((feeds d ! i)\<lparr>feed_pid := pid, ts_type := tt, pes_type := pt, feed_state := DMX_STATE_READY\<rparr>))"
    if "dmx_inv e" "feeds e = feeds d" for e
  proof (rule inv_setup)
    show "owns (dvb_demux_feed_add e i) DMX_TYPE_TS i" using assms(2) that(2) by (simp add: owns_def dvb_demux_feed_add_def)
    show "dmx_inv (dvb_demux_feed_add e i)" using assms(2) that by (intro inv_add) (simp_all add: owns_def)
  qed (use that f in simp_all)
  have len: "length (pesfilter d) = DMX_PES_OTHER" "length (pids d) = DMX_PES_OTHER" using assms(1) by (simp_all add: dmx_inv_def tables_ok_def)
  show ?thesis
    using put [OF assms(1)] put [OF inv_pes(1) [OF assms(1)], of "(pesfilter d)[pt := Some i]" "(pids d)[pt := pid]"] assms(1) f len
    by (auto simp: dmx_ts_feed_set_def Let_def mem_simps)
qed

lemma ts_start_inv:
  assumes "dmx_inv d" "owns d DMX_TYPE_TS i"
  shows "\<exists>d' c' r. dmx_ts_feed_start_filtering drv intr d c i = Some (d', c', r) \<and> dmx_inv d'"
proof -
  note f = inv_feed [OF assms]
  have put: "dmx_inv (put_feed d i ((feeds d ! i)\<lparr>pusi_seen := a\<rparr>))"
    "dmx_inv (put_feed d i ((feeds d ! i)\<lparr>pusi_seen := a, is_filtering := b, feed_state := DMX_STATE_GO\<rparr>))" for a b
    by (rule inv_setup [OF assms]; simp add: f)+
  show ?thesis
    using f(1) put assms(1) by (auto simp: dmx_ts_feed_start_filtering_def split: option.split prod.split sum.split)
qed

lemma ts_stop_inv:
  assumes "dmx_inv d" "owns d DMX_TYPE_TS i"
  shows "\<exists>d' c' r. dmx_ts_feed_stop_filtering drv d c i = Some (d', c', r) \<and> dmx_inv d'"
proof -
  note f = inv_feed [OF assms]
  have put: "dmx_inv (put_feed d i ((feeds d ! i)\<lparr>pusi_seen := a, is_filtering := b, feed_state := DMX_STATE_ALLOCATED\<rparr>))" for a b
    by (rule inv_setup [OF assms]; simp add: f)
  show ?thesis
    using f(1) put assms(1) by (auto simp: dmx_ts_feed_stop_filtering_def split: option.split prod.split)
qed

lemma sec_set_inv:
  assumes "dmx_inv d" "owns d DMX_TYPE_SEC i"
  shows "\<exists>d' r. dmx_section_feed_set intr d i pid crc = Some (d', r) \<and> dmx_inv d'"
proof -
  note f = inv_feed [OF assms]
  have "dmx_inv (put_feed (dvb_demux_feed_add d i) i ((feeds d ! i)\<lparr>feed_pid := pid, check_crc := crc, feed_state := DMX_STATE_READY\<rparr>))"
    by (rule inv_setup [OF inv_add [OF assms]]) (use assms(2) f in simp_all)
  with f(1) assms(1) show ?thesis by (auto simp: dmx_section_feed_set_def Let_def)
qed

lemma sec_stop_inv:
  assumes "dmx_inv d" "owns d DMX_TYPE_SEC i"
  shows "\<exists>d' c' r. dmx_section_feed_stop_filtering drv d c i = Some (d', c', r) \<and> dmx_inv d' \<and> owns d' DMX_TYPE_SEC i \<and>
    filters d' = filters d \<and> feed_filter (feeds d' ! i) = feed_filter (feeds d ! i)"
proof -
  note f = inv_feed [OF assms]
  have put: "dmx_inv (put_feed d i ((feeds d ! i)\<lparr>pusi_seen := a, feed_state := DMX_STATE_READY, is_filtering := b\<rparr>))" for a b
    by (rule inv_setup [OF assms]; simp add: f)
  show ?thesis
    using f(1,5,6) put assms by (auto simp: dmx_section_feed_stop_filtering_def owns_def split: option.split prod.split)
qed

text \<open>The release of a feed.\<close>

lemma inv_release:
  assumes "dmx_inv d" "feed_state g = DMX_STATE_FREE" "buf_ok g"
  shows "dmx_inv (put_feed (dvb_demux_feed_del d i) i g)"
  using inv_del [OF assms(1), of i] assms(2,3) by (intro inv_put_feed feed_ok_free) simp_all

lemma sec_release_inv:
  assumes "dmx_inv d" "owns d DMX_TYPE_SEC i"
  shows "\<exists>d' r. dvbdmx_release_section_feed d i = Some (d', r) \<and> dmx_inv d'"
proof -
  note f = inv_feed [OF assms]
  have "dmx_inv (put_feed (dvb_demux_feed_del d i) i ((feeds d ! i)\<lparr>feed_state := DMX_STATE_FREE, feed_pid := 0xffff\<rparr>))"
    using f(3) by (intro inv_release assms(1)) (simp_all add: buf_ok_def)
  with f(1) assms(1) show ?thesis by (auto simp: dvbdmx_release_section_feed_def Let_def)
qed

text \<open>A filter that is set free while its feed gives it up.\<close>

lemma inv_drop_filter:
  assumes "dmx_inv d" "unused (put_feed d i g) k" "dmx_inv (put_feed d i g)" "flt_sized (filters d ! k)"
  shows "dmx_inv (put_feed (put_filter d k ((filters d ! k)\<lparr>flt_state := DMX_STATE_FREE\<rparr>)) i g)"
  using inv_put_filter [OF assms(3,2), of "(filters d ! k)\<lparr>flt_state := DMX_STATE_FREE\<rparr>"] assms(4)
  by (simp add: put_filter_feed flt_sized_def filter_sized_def)

text \<open>A filter is in no chain but the one of its feed.\<close>

lemma unused_dropped:
  assumes "dmx_inv d" "flt_feed (filters d ! k) = i" "feed_state g = DMX_STATE_FREE \<or> k \<notin> set (feed_filter g)"
  shows "unused (put_feed d i g) k"
  unfolding unused_def
proof (intro allI impI)
  fix j assume j: "j < length (feeds (put_feed d i g))" "feed_state (feeds (put_feed d i g) ! j) \<noteq> DMX_STATE_FREE"
  show "k \<notin> set (feed_filter (feeds (put_feed d i g) ! j))"
  proof (cases "j = i")
    case True
    with j assms(3) show ?thesis by auto
  next
    case False
    with j have "feed_ok (filters d) j (feeds d ! j)" "feed_state (feeds d ! j) \<noteq> DMX_STATE_FREE"
      using assms(1) by (auto simp: dmx_inv_def feeds_ok_def)
    with False assms(2) j show ?thesis by (auto simp: feed_ok_def)
  qed
qed

lemma chain_filter:
  assumes "dmx_inv d" "owns d t i" "k \<in> set (feed_filter (feeds d ! i))"
  shows "k < length (filters d)" "flt_feed (filters d ! k) = i" "mem_get (filters d) k = Some (filters d ! k)" "distinct (feed_filter (feeds d ! i))"
  using inv_feed [OF assms(1,2)] assms(3) by (auto simp: feed_ok_def mem_get_def)

lemma ts_release_inv:
  assumes "dmx_inv d" "owns d DMX_TYPE_TS i"
  shows "\<exists>d' r. dvbdmx_release_ts_feed d i = Some (d', r) \<and> dmx_inv d'"
proof -
  note f = inv_feed [OF assms]
  from f obtain k where k: "feed_filter (feeds d ! i) = [k]" by (auto simp: feed_ok_def length_Suc_conv)
  note flt = chain_filter [OF assms, of k, unfolded k, simplified]
  define g where "g = (feeds d ! i)\<lparr>feed_state := DMX_STATE_FREE, feed_pid := 0xffff\<rparr>"
  define e where "e = put_feed (dvb_demux_feed_del (put_filter d k ((filters d ! k)\<lparr>flt_state := DMX_STATE_FREE\<rparr>)) i) i g"
  have "put_filter (dvb_demux_feed_del d i) k h = dvb_demux_feed_del (put_filter d k h) i" for h
    by (simp add: put_filter_def dvb_demux_feed_del_def dvb_demux_feed_find_def)
  moreover have "dmx_inv (put_feed (put_filter (dvb_demux_feed_del d i) k ((filters (dvb_demux_feed_del d i) ! k)\<lparr>flt_state := DMX_STATE_FREE\<rparr>)) i g)"
  proof (rule inv_drop_filter)
    show del: "dmx_inv (dvb_demux_feed_del d i)" using inv_del [OF assms(1)] by blast
    show "unused (put_feed (dvb_demux_feed_del d i) i g) k" using flt(2) by (intro unused_dropped [OF del]) (simp_all add: g_def)
    show "dmx_inv (put_feed (dvb_demux_feed_del d i) i g)" using f(3) by (intro inv_release assms(1)) (simp_all add: g_def buf_ok_def)
    show "flt_sized (filters (dvb_demux_feed_del d i) ! k)" using inv_sized [OF assms(1) flt(1)] by simp
  qed
  ultimately have e: "dmx_inv e" by (simp add: e_def)
  have len: "length (pesfilter e) = DMX_PES_OTHER" using e by (simp add: dmx_inv_def tables_ok_def)
  have "dvbdmx_release_ts_feed d i =
      (if ts_type (feeds d ! i) AND TS_DECODER \<noteq> 0 \<and> pes_type (feeds d ! i) < DMX_PES_OTHER
       then map_option (\<lambda>pf. (e\<lparr>pesfilter := pf\<rparr>, Inr ())) (mem_set (pesfilter e) (pes_type (feeds d ! i)) None) else Some (e, Inr ()))"
    using f(1,4) flt(3) by (auto simp: dvbdmx_release_ts_feed_def k mem_get_def e_def g_def Let_def map_option_case split: option.splits)
  with e len inv_pes(2) [OF e] show ?thesis by (auto simp: mem_simps)
qed

lemma release_filter_inv:
  assumes "dmx_inv d" "owns d DMX_TYPE_SEC i" "k \<in> set (feed_filter (feeds d ! i))"
  shows "\<exists>d' c' r. dmx_section_feed_release_filter drv d c i k = Some (d', c', r) \<and> dmx_inv d'"
proof -
  note flt = chain_filter [OF assms]
  have drop: "dmx_inv (put_filter (put_feed e i ((feeds e ! i)\<lparr>feed_filter := remove1 k (feed_filter (feeds e ! i))\<rparr>)) k
      ((filters d ! k)\<lparr>flt_state := DMX_STATE_FREE\<rparr>))" if e: "dmx_inv e" "owns e DMX_TYPE_SEC i" "filters e = filters d" for e
  proof -
    note fe = inv_feed [OF e(1,2)]
    let ?g = "(feeds e ! i)\<lparr>feed_filter := remove1 k (feed_filter (feeds e ! i))\<rparr>"
    have dist: "distinct (feed_filter (feeds e ! i))" using fe(2,4) by (simp add: feed_ok_def)
    have "dmx_inv (put_feed e i ?g)"
      using fe dist by (intro inv_put_feed e(1)) (auto simp: feed_ok_def buf_ok_def dest: notin_set_remove1)
    moreover have "unused (put_feed e i ?g) k"
      using flt(2) e(3) dist by (intro unused_dropped e(1)) (simp_all add: set_remove1_eq)
    ultimately show ?thesis
      using inv_drop_filter [OF e(1), of i ?g k] inv_sized [OF assms(1) flt(1)] e(3) by (simp add: put_filter_feed)
  qed
  have "\<exists>d1 c1. (if is_filtering (feeds d ! i) then map_option (\<lambda>(d, c, _). (d, c)) (dmx_section_feed_stop_filtering drv d c i) else Some (d, c)) =
      Some (d1, c1) \<and> dmx_inv d1 \<and> owns d1 DMX_TYPE_SEC i \<and> filters d1 = filters d \<and> feed_filter (feeds d1 ! i) = feed_filter (feeds d ! i)"
    using sec_stop_inv [OF assms(1,2), of drv c] assms by auto
  then obtain d1 c1 where d1: "(if is_filtering (feeds d ! i) then map_option (\<lambda>(d, c, _). (d, c)) (dmx_section_feed_stop_filtering drv d c i) else Some (d, c)) =
      Some (d1, c1)" "dmx_inv d1" "owns d1 DMX_TYPE_SEC i" "filters d1 = filters d" "feed_filter (feeds d1 ! i) = feed_filter (feeds d ! i)" by blast
  show ?thesis
    unfolding dmx_section_feed_release_filter_def flt(3) inv_feed(1) [OF assms(1,2)] bind.bind_lunit d1(1) prod.case inv_feed(1) [OF d1(2,3)]
    using drop [OF d1(2-4)] flt(2) assms(3) d1(5) by simp
qed

lemma filter_alloc_cases:
  assumes "dmx_inv d"
  obtains (none) "dvb_dmx_filter_alloc d = (d, None)"
  | (some) k where "dvb_dmx_filter_alloc d = (put_filter d k ((filters d ! k)\<lparr>flt_state := DMX_STATE_ALLOCATED\<rparr>), Some k)"
      "k < length (filters d)" "unused d k"
proof (cases "free_index (map flt_state (filters d))")
  case None
  then show thesis by (intro none) (simp add: dvb_dmx_filter_alloc_def)
next
  case (Some k)
  with free_index_Some [OF Some] show thesis
    by (intro some [of k] free_unused [OF assms]) (auto simp: dvb_dmx_filter_alloc_def put_filter_def)
qed

lemma feed_alloc_cases:
  obtains (none) "dvb_dmx_feed_alloc d = (d, None)"
  | (some) i where "dvb_dmx_feed_alloc d = (put_feed d i ((feeds d ! i)\<lparr>feed_state := DMX_STATE_ALLOCATED\<rparr>), Some i)"
      "i < length (feeds d)" "feed_state (feeds d ! i) = DMX_STATE_FREE"
proof (cases "free_index (map feed_state (feeds d))")
  case None
  then show thesis by (intro none) (simp add: dvb_dmx_feed_alloc_def)
next
  case (Some i)
  with free_index_Some [OF Some] show thesis by (intro some [of i]) (auto simp: dvb_dmx_feed_alloc_def put_feed_def)
qed

text \<open>A free feed is not in the list.\<close>

lemma free_not_listed:
  "dmx_inv d \<Longrightarrow> feed_state (feeds d ! i) = DMX_STATE_FREE \<Longrightarrow> i \<notin> set (feed_list d)"
  by (auto simp: dmx_inv_def list_ok_def)

lemma sec_alloc_inv:
  assumes "dmx_inv d"
  shows "\<exists>d' r. dvbdmx_allocate_section_feed intr d = Some (d', r) \<and> dmx_inv d'"
proof (cases rule: feed_alloc_cases [of d])
  case none
  with assms show ?thesis by (simp add: dvbdmx_allocate_section_feed_def)
next
  case (some i)
  have buf: "buf_ok (feeds d ! i)" using assms some(2) by (simp add: dmx_inv_def feeds_ok_def)
  define g where "g = (feeds d ! i)\<lparr>feed_state := DMX_STATE_ALLOCATED, feed_type := DMX_TYPE_SEC, feed_pid := 0xffff, buffer_flags := 0, secbuf := 0, secbufp := 0,
      seclen := 0, tsfeedp := 0, feed_filter := [], is_filtering := False\<rparr>"
  have "dmx_inv (put_feed d i g)"
    using buf free_not_listed [OF assms some(3)]
    by (intro inv_put_feed assms) (auto simp: g_def feed_ok_def sec_inv_def buf_ok_def)
  with some assms show ?thesis by (simp add: dvbdmx_allocate_section_feed_def mem_get_def Let_def g_def)
qed

lemma ts_alloc_inv:
  assumes "dmx_inv d"
  shows "\<exists>d' r. dvbdmx_allocate_ts_feed intr d = Some (d', r) \<and> dmx_inv d'"
proof (cases rule: feed_alloc_cases [of d])
  case none
  with assms show ?thesis by (simp add: dvbdmx_allocate_ts_feed_def)
next
  case (some i)
  note feed = some
  have buf: "buf_ok (feeds d ! i)" using assms some(2) by (simp add: dmx_inv_def feeds_ok_def)
  have put: "put_filter (put_feed e i f) k h = put_feed (put_filter e k h) i f" for e f k h by (rule put_filter_feed)
  have alloc: "dvb_dmx_filter_alloc (put_feed d i f) = (case dvb_dmx_filter_alloc d of (e, r) \<Rightarrow> (put_feed e i f, r))" for f
    by (simp add: dvb_dmx_filter_alloc_def put_feed_def split: option.split)
  show ?thesis
  proof (cases rule: filter_alloc_cases [OF assms])
    case 1
    define g where "g = (feeds d ! i)\<lparr>feed_type := DMX_TYPE_TS, feed_pid := 0xffff, peslen := 0xfffa, buffer_flags := 0, is_filtering := False,
        feed_filter := [], feed_state := DMX_STATE_FREE\<rparr>"
    have "dmx_inv (put_feed d i g)"
      using buf free_not_listed [OF assms some(3)] by (intro inv_put_feed assms feed_ok_free) (auto simp: g_def buf_ok_def)
    with feed 1 assms show ?thesis by (simp add: dvbdmx_allocate_ts_feed_def mem_get_def Let_def g_def alloc)
  next
    case (2 k)
    define g where "g = (feeds d ! i)\<lparr>feed_state := DMX_STATE_ALLOCATED, feed_type := DMX_TYPE_TS, feed_pid := 0xffff, peslen := 0xfffa, buffer_flags := 0,
        is_filtering := False, feed_filter := [k]\<rparr>"
    define h where "h = (filters d ! k)\<lparr>flt_type := DMX_TYPE_TS, flt_feed := i, flt_state := DMX_STATE_READY\<rparr>"
    have "dmx_inv (put_filter d k h)"
      using inv_sized [OF assms 2(2)] by (intro inv_put_filter assms 2(3)) (simp add: h_def flt_sized_def filter_sized_def)
    then have "dmx_inv (put_feed (put_filter d k h) i g)"
      using buf 2(2) free_not_listed [OF assms some(3)]
      by (intro inv_put_feed) (auto simp: g_def h_def feed_ok_def buf_ok_def)
    with feed 2(1,2) assms show ?thesis by (simp add: dvbdmx_allocate_ts_feed_def mem_get_def Let_def g_def h_def alloc put)
  qed
qed

lemma filter_alloc_inv:
  assumes "dmx_inv d" "owns d DMX_TYPE_SEC i"
  shows "\<exists>d' r. dmx_section_feed_allocate_filter intr d i = Some (d', r) \<and> dmx_inv d'"
proof (cases rule: filter_alloc_cases [OF assms(1)])
  case 1
  with assms show ?thesis by (simp add: dmx_section_feed_allocate_filter_def)
next
  case (2 k)
  note f = inv_feed [OF assms]
  define h where "h = (filters d ! k)\<lparr>flt_feed := i, flt_type := DMX_TYPE_SEC, flt_state := DMX_STATE_READY\<rparr>"
  define g where "g = (feeds d ! i)\<lparr>feed_filter := k # feed_filter (feeds d ! i)\<rparr>"
  have inv: "dmx_inv (put_filter d k h)"
    using inv_sized [OF assms(1) 2(2)] by (intro inv_put_filter assms(1) 2(3)) (simp add: h_def flt_sized_def filter_sized_def)
  have own: "owns (put_filter d k h) DMX_TYPE_SEC i" using assms(2) by (simp add: owns_def)
  have "k \<notin> set (feed_filter (feeds d ! i))" using 2(3) f(4,6) by (simp add: unused_def)
  then have "dmx_inv (put_feed (put_filter d k h) i g)"
    using inv_feed [OF inv own] 2(2) by (intro inv_put_feed inv) (auto simp: g_def h_def feed_ok_def buf_ok_def)
  with 2(1,2) f(6) assms(1) show ?thesis by (simp add: dmx_section_feed_allocate_filter_def mem_get_def Let_def g_def h_def)
qed

text \<open>\<open>prepare_secfilters\<close> fills in the arrays that the comparison uses.\<close>

lemma prepare_bytes_total:
  assumes "flt_sized f" "set is \<subseteq> {..<18}"
  shows "\<exists>f' dq'. prepare_bytes f is dq = Some (f', dq') \<and> flt_sized f' \<and> flt_feed f' = flt_feed f \<and> flt_state f' = flt_state f \<and>
    filter_value f' = filter_value f \<and> filter_mask f' = filter_mask f \<and> filter_mode f' = filter_mode f \<and>
    (\<forall>j<18. maskandmode f' ! j = (if j \<in> set is then filter_mask f ! j AND filter_mode f ! j else maskandmode f ! j) \<and>
      maskandnotmode f' ! j = (if j \<in> set is then filter_mask f ! j AND NOT (filter_mode f ! j) else maskandnotmode f ! j)) \<and>
    (dq' = 0 \<longleftrightarrow> dq = 0 \<and> (\<forall>j \<in> set is. filter_mask f ! j AND NOT (filter_mode f ! j) = 0))"
  using assms
proof (induction "is" arbitrary: f dq)
  case (Cons i "is")
  define g where "g = f\<lparr>maskandmode := (maskandmode f)[i := filter_mask f ! i AND filter_mode f ! i],
      maskandnotmode := (maskandnotmode f)[i := filter_mask f ! i AND NOT (filter_mode f ! i)]\<rparr>"
  have i: "i < 18" using Cons.prems(2) by simp
  have len: "length (filter_mode f) = 18" "length (filter_mask f) = 18" "length (maskandmode f) = 18" "length (maskandnotmode f) = 18"
    using Cons.prems(1) by (simp_all add: flt_sized_def filter_sized_def)
  have step: "prepare_bytes f (i # is) dq = prepare_bytes g is (dq OR (filter_mask f ! i AND NOT (filter_mode f ! i)))"
    using i len by (simp add: mem_simps g_def)
  have g: "flt_sized g" using Cons.prems(1) by (simp add: g_def flt_sized_def filter_sized_def)
  have "set is \<subseteq> {..<18}" using Cons.prems(2) by simp
  from Cons.IH [OF g this, of "dq OR (filter_mask f ! i AND NOT (filter_mode f ! i))"] show ?case
    unfolding step using i len by (force simp: g_def nth_list_update or_zero)
qed simp

definition same_filter :: "dvb_demux_filter \<Rightarrow> dvb_demux_filter \<Rightarrow> bool" where
  "same_filter f g \<longleftrightarrow> flt_feed g = flt_feed f \<and> flt_state g = flt_state f \<and> flt_sized g \<and>
     filter_value g = filter_value f \<and> filter_mask g = filter_mask f \<and> filter_mode g = filter_mode f"

lemma prepare_filter:
  assumes "flt_sized f"
  shows "\<exists>f' dq. prepare_bytes f [0..<DVB_DEMUX_MASK_MAX] 0 = Some (f', dq) \<and>
    same_filter f (f'\<lparr>doneq := dq \<noteq> 0\<rparr>) \<and> prepared (f'\<lparr>doneq := dq \<noteq> 0\<rparr>)"
proof -
  have sub: "set [0..<DVB_DEMUX_MASK_MAX] \<subseteq> {..<18}" by (auto simp: DVB_DEMUX_MASK_MAX_def)
  from prepare_bytes_total [OF assms sub, of 0] obtain f' dq where raw: "prepare_bytes f [0..<DVB_DEMUX_MASK_MAX] 0 = Some (f', dq)"
    "flt_sized f'" "flt_feed f' = flt_feed f" "flt_state f' = flt_state f"
    "filter_value f' = filter_value f" "filter_mask f' = filter_mask f" "filter_mode f' = filter_mode f"
    "\<forall>j<18. maskandmode f' ! j = (if j \<in> set [0..<DVB_DEMUX_MASK_MAX] then filter_mask f ! j AND filter_mode f ! j else maskandmode f ! j) \<and>
      maskandnotmode f' ! j = (if j \<in> set [0..<DVB_DEMUX_MASK_MAX] then filter_mask f ! j AND NOT (filter_mode f ! j) else maskandnotmode f ! j)"
    "dq = 0 \<longleftrightarrow> (0 :: u8) = 0 \<and> (\<forall>j \<in> set [0..<DVB_DEMUX_MASK_MAX]. filter_mask f ! j AND NOT (filter_mode f ! j) = 0)"
    by (elim exE conjE) (rule that)
  note f' = raw(1-7)
  have arrays: "\<forall>j<18. maskandmode f' ! j = filter_mask f ! j AND filter_mode f ! j \<and> maskandnotmode f' ! j = filter_mask f ! j AND NOT (filter_mode f ! j)"
    and dq: "dq = 0 \<longleftrightarrow> (\<forall>j<18. filter_mask f ! j AND NOT (filter_mode f ! j) = 0)"
    using raw(8) unfolding raw(9) by (auto simp: DVB_DEMUX_MASK_MAX_def)
  have len: "length (filter_value f) = 18" "length (filter_mask f) = 18" "length (filter_mode f) = 18"
    "length (maskandmode f') = 18" "length (maskandnotmode f') = 18"
    using assms f'(2) by (simp_all add: flt_sized_def filter_sized_def)
  have "maskandmode f' = map2 (AND) (filter_mask f) (filter_mode f)" "maskandnotmode f' = map2 (\<lambda>m d. m AND NOT d) (filter_mask f) (filter_mode f)"
    using arrays len by (auto intro!: nth_equalityI)
  then have "prepared (f'\<lparr>doneq := dq \<noteq> 0\<rparr>)" using f'(5-7) len by (simp add: prepared_def dq)
  with f' show ?thesis by (auto simp: same_filter_def flt_sized_def filter_sized_def)
qed

text \<open>The chain: the filters of it become prepared, the others stay.\<close>

lemma prepare_chain_total:
  assumes "\<forall>k \<in> set ks. k < length fs \<and> flt_sized (fs ! k)" "distinct ks"
  shows "\<exists>fs'. prepare_chain fs ks = Some fs' \<and> length fs' = length fs \<and> (\<forall>k<length fs. k \<notin> set ks \<longrightarrow> fs' ! k = fs ! k) \<and>
    (\<forall>k \<in> set ks. same_filter (fs ! k) (fs' ! k) \<and> prepared (fs' ! k))"
  using assms
proof (induction ks arbitrary: fs)
  case (Cons k ks)
  then have k: "k < length fs" "flt_sized (fs ! k)" "k \<notin> set ks" by simp_all
  from prepare_filter [OF k(2)] obtain f dq where f: "prepare_bytes (fs ! k) [0..<DVB_DEMUX_MASK_MAX] 0 = Some (f, dq)"
    "same_filter (fs ! k) (f\<lparr>doneq := dq \<noteq> 0\<rparr>)" "prepared (f\<lparr>doneq := dq \<noteq> 0\<rparr>)" by blast
  define g where "g = f\<lparr>doneq := dq \<noteq> 0\<rparr>"
  have "\<forall>j \<in> set ks. j < length (fs[k := g]) \<and> flt_sized (fs[k := g] ! j)" using Cons.prems k by (auto simp: nth_list_update)
  with Cons.IH [of "fs[k := g]"] Cons.prems(2) obtain fs' where fs': "prepare_chain (fs[k := g]) ks = Some fs'" "length fs' = length fs"
    "\<forall>j<length fs. j \<notin> set ks \<longrightarrow> fs' ! j = fs[k := g] ! j" "\<forall>j \<in> set ks. same_filter (fs[k := g] ! j) (fs' ! j) \<and> prepared (fs' ! j)" by auto
  have "prepare_chain fs (k # ks) = Some fs'" using k(1) f(1) fs'(1) by (simp add: mem_get_def g_def)
  moreover have "fs' ! k = g" using fs'(3) k by simp
  moreover have "fs' ! j = fs ! j" if "j < length fs" "j \<notin> set (k # ks)" for j using fs'(3) that by simp
  moreover have "same_filter (fs ! j) (fs' ! j) \<and> prepared (fs' ! j)" if "j \<in> set ks" for j
  proof -
    have "fs[k := g] ! j = fs ! j" using that k(3) by (intro nth_list_update_neq) blast
    with fs'(4) that show ?thesis by fastforce
  qed
  ultimately show ?case using fs'(2) f(2,3) by (auto simp: g_def)
qed simp

lemma sec_start_inv:
  assumes "dmx_inv d" "owns d DMX_TYPE_SEC i"
  shows "\<exists>d' c' r. dmx_section_feed_start_filtering drv intr d c i = Some (d', c', r) \<and> dmx_inv d'"
proof -
  note f = inv_feed [OF assms]
  define g where "g = (feeds d ! i)\<lparr>tsfeedp := 0, secbuf := 0, secbufp := 0, seclen := 0\<rparr>"
  have chain: "\<forall>k \<in> set (feed_filter (feeds d ! i)). k < length (filters d) \<and> flt_sized (filters d ! k)" "distinct (feed_filter (feeds d ! i))"
    using f(2,4) inv_sized [OF assms(1)] by (auto simp: feed_ok_def)
  obtain fs where fs: "prepare_chain (filters d) (feed_filter (feeds d ! i)) = Some fs" "length fs = length (filters d)"
    "\<forall>k<length fs. k \<notin> set (feed_filter (feeds d ! i)) \<longrightarrow> fs ! k = filters d ! k"
    "\<forall>k \<in> set (feed_filter (feeds d ! i)). same_filter (filters d ! k) (fs ! k)"
    using prepare_chain_total [OF chain] by auto
  have same: "k < length fs \<Longrightarrow> flt_feed (fs ! k) = flt_feed (filters d ! k) \<and> flt_state (fs ! k) = flt_state (filters d ! k) \<and> flt_sized (fs ! k)" for k
    using fs(2-4) inv_sized [OF assms(1), of k] by (cases "k \<in> set (feed_filter (feeds d ! i))") (auto simp: same_filter_def)
  have "feed_ok fs j (feeds d ! j)" if "j < length (feeds d)" for j
    using assms(1) that same fs(2) by (auto simp: dmx_inv_def feeds_ok_def feed_ok_def)
  then have inv: "dmx_inv (d\<lparr>filters := fs\<rparr>)"
    using assms(1) same by (auto simp: dmx_inv_def feeds_ok_def tables_ok_def in_set_conv_nth)
  have own: "owns (d\<lparr>filters := fs\<rparr>) DMX_TYPE_SEC i" using assms(2) by (simp add: owns_def)
  have put: "dmx_inv (put_feed e i (g\<lparr>pusi_seen := a\<rparr>))" "dmx_inv (put_feed e i (g\<lparr>pusi_seen := a, is_filtering := b, feed_state := DMX_STATE_GO\<rparr>))"
    "dmx_inv (put_feed e i g)" if "e = d \<or> e = d\<lparr>filters := fs\<rparr>" for e a b
    using that inv own assms f by (auto intro!: inv_setup simp: g_def sec_inv_def)
  have e: "put_feed ((put_feed d i g)\<lparr>filters := fs\<rparr>) i h = put_feed (d\<lparr>filters := fs\<rparr>) i h" for h by (simp add: put_feed_def)
  have prep: "prepare_secfilters (put_feed d i g) i = Some ((put_feed d i g)\<lparr>filters := fs\<rparr>)"
    using f(6) fs(1) by (simp add: prepare_secfilters_def mem_get_def g_def)
  show ?thesis
    using f(1) put assms(1) prep
    by (auto simp: dmx_section_feed_start_filtering_def Let_def g_def [symmetric] e split: option.split prod.split sum.split)
qed

lemma configure_inv:
  assumes "dmx_inv d" "k < length (filters d)" "length v = 18" "length m = 18" "length md = 18"
  shows "dmx_inv (put_filter d k ((filters d ! k)\<lparr>filter_value := v, filter_mask := m, filter_mode := md\<rparr>))"
  using inv_sized [OF assms(1,2)] assms(3-5)
  by (intro inv_put_filter_same assms(1,2)) (simp_all add: flt_sized_def filter_sized_def)

section \<open>Packets keep the invariant\<close>

lemma section_packet_code:
  assumes "payload p = Some n" "n \<noteq> 0"
  shows "keeps (\<lambda>(f, c, r). r = 0) (dvb_dmx_swfilter_section_packet env flts f c p)"
  unfolding dvb_dmx_swfilter_section_packet_def Let_def assms(1) bind.bind_lunit
  using assms(2) by (intro keeps_step keeps_if keeps_pair keeps_Some) simp_all

lemma ts_packet_buffer:
  assumes "length p = 188" "feed_type f = DMX_TYPE_TS" "dvb_dmx_swfilter_packet_type env flts f c p = Some (f', c')"
  shows "secbuf_base f' = secbuf_base f"
proof -
  have pay: "keeps (\<lambda>(g, c, r). secbuf_base g = secbuf_base f) (dvb_dmx_swfilter_payload env f c p)"
    unfolding dvb_dmx_swfilter_payload_def Let_def
    by (intro keeps_step keeps_if keeps_pair keeps_Some) (auto simp: set_buf_flags_def)
  obtain g c1 r where g: "dvb_dmx_swfilter_payload env f c p = Some (g, c1, r)"
    using swfilter_payload_total [OF assms(1), of env f c] by blast
  with pay have "secbuf_base g = secbuf_base f" by (simp add: keeps_def)
  with g assms show ?thesis
    by (auto simp: dvb_dmx_swfilter_packet_type_def Let_def mem_simps split: if_splits prod.splits option.splits)
qed

lemma packet_type_inv:
  assumes "length p = 188" "payload p \<noteq> Some 0" "feed_ok flts i f" "buf_ok f" "feed_state f \<noteq> DMX_STATE_FREE" "\<forall>g \<in> set flts. flt_sized g"
  shows "\<exists>f' c'. dvb_dmx_swfilter_packet_type env flts f c p = Some (f', c') \<and> feed_ok flts i f' \<and> buf_ok f' \<and> setup_of f' = setup_of f"
proof (cases "feed_type f")
  case DMX_TYPE_TS
  from packet_type_total [OF assms(1) DMX_TYPE_TS, of env flts c] obtain f' c' where
    f': "dvb_dmx_swfilter_packet_type env flts f c p = Some (f', c')" by blast
  have same: "setup_of f' = setup_of f" using packet_type_setup [OF refl, of f env flts c p] f' by (simp add: keeps_def)
  have "secbuf_base f' = secbuf_base f" by (rule ts_packet_buffer [OF assms(1) DMX_TYPE_TS f'])
  with assms(3-5) f' same DMX_TYPE_TS show ?thesis by (auto simp: feed_ok_def buf_ok_def setup_of_def)
next
  case DMX_TYPE_SEC
  have sec: "sec_inv f" using feed_ok_sec [OF assms(3,5) DMX_TYPE_SEC] .
  have rd: "readable flts f" using assms(3-6) by (auto simp: readable_def feed_ok_def buf_ok_def flt_sized_def)
  from section_packet_total [OF assms(1) sec rd, of env c] obtain f' c' r where
    f': "dvb_dmx_swfilter_section_packet env flts f c p = Some (f', c', r)" "sec_inv f'" "readable flts f'" by blast
  have same: "setup_of f' = setup_of f" using section_packet_setup [OF refl, of f env flts c p] f'(1) by (simp add: keeps_def)
  obtain n where "payload p = Some n" "n \<noteq> 0" using payload_Some [OF assms(1)] assms(2) by auto
  from section_packet_code [OF this, of env flts f c] f'(1) have r: "\<not> r < 0" by (simp add: keeps_def)
  show ?thesis
  proof (cases "is_filtering f")
    case True
    with f' r same DMX_TYPE_SEC assms(3,5) show ?thesis
      by (auto simp: dvb_dmx_swfilter_packet_type_def feed_ok_def buf_ok_def readable_def setup_of_def)
  next
    case False
    with assms(3,4) DMX_TYPE_SEC show ?thesis by (simp add: dvb_dmx_swfilter_packet_type_def)
  qed
qed

lemma inv_flags: "dmx_inv d \<Longrightarrow> dmx_inv (put_feed d i ((feeds d ! i)\<lparr>buffer_flags := fl\<rparr>))"
  by (cases "i < length (feeds d)")
     (auto simp: dmx_inv_def feeds_ok_def list_ok_def nth_list_update feed_ok_def buf_ok_def sec_inv_def split: dvb_dmx_filter_type.split)

interpretation demux: demux_invariant env dmx_inv "\<lambda>p. payload p \<noteq> Some 0"
proof unfold_locales
  fix d i p c
  assume d: "dmx_inv d" "i \<in> set (feed_list d)" "length (p :: u8 list) = 188" "payload p \<noteq> Some 0"
  then have i: "feed_ok (filters d) i (feeds d ! i)" "buf_ok (feeds d ! i)" "feed_state (feeds d ! i) \<noteq> DMX_STATE_FREE" "\<forall>g \<in> set (filters d). flt_sized g"
    by (auto simp: dmx_inv_def list_ok_def feeds_ok_def)
  from packet_type_inv [OF d(3,4) i, of env c] inv_put_feed [OF d(1), of i] i(3)
  show "\<exists>f c'. dvb_dmx_swfilter_packet_type env (filters d) (feeds d ! i) c p = Some (f, c') \<and> dmx_inv (d\<lparr>feeds := (feeds d)[i := f]\<rparr>)"
    unfolding put_feed_def by (auto simp: setup_of_def)
next
  fix d i fl
  assume "dmx_inv d"
  from inv_flags [OF this, of i fl] show "dmx_inv (d\<lparr>feeds := (feeds d)[i := (feeds d ! i)\<lparr>buffer_flags := fl\<rparr>]\<rparr>)" by (simp add: put_feed_def)
qed (auto simp: dmx_inv_def list_ok_def tables_ok_def)

lemma map_result:
  "\<exists>d' r. m = Some (d', r) \<and> P d' \<Longrightarrow> \<exists>d' c'. map_option (\<lambda>(d, r). (d, c)) m = Some (d', c') \<and> P d'"
  "\<exists>d' c' r. m' = Some (d', c', r) \<and> P d' \<Longrightarrow> \<exists>d' c'. map_option (\<lambda>(d, c, r). (d, c)) m' = Some (d', c') \<and> P d'"
  by auto

lemma step_inv:
  assumes "dmx_inv d" "client_ok d x" "packet_ok x"
  shows "\<exists>d' c'. dmx_step opts env drv x d c = Some (d', c') \<and> dmx_inv d'"
proof (cases x)
  case (Configure k v m md)
  with assms configure_inv [OF assms(1)] show ?thesis by (auto simp: mem_get_def)
next
  case (Packet p)
  with assms demux.packet_keeps [OF assms(1), of p opts env c] show ?thesis by simp
next
  case (StopSec i)
  with assms sec_stop_inv [OF assms(1), of i drv c] show ?thesis by auto
next
  case (ReleaseFilter i k)
  with assms release_filter_inv [OF assms(1), of i k drv c] show ?thesis by (simp add: map_result)
qed (use assms(1,2) in \<open>simp only: dmx_step.simps client_ok.simps; intro map_result ts_alloc_inv ts_set_inv ts_start_inv ts_stop_inv ts_release_inv
  sec_alloc_inv sec_set_inv filter_alloc_inv sec_start_inv sec_stop_inv sec_release_inv; assumption?\<close>)+

section \<open>Every sequence of calls\<close>

text \<open>
  The memory of an initialised demux, the calls of clients that keep to the rules, and the packets in between. (\<^verbatim>\<open>vmalloc\<close> gives memory of the
  sizes asked for, with any contents; the section buffer counts with the 15 bytes of the feed behind it that the filter may read.)
\<close>

definition memory_ok :: "dvb_demux \<Rightarrow> dvb_demux_filter list \<Rightarrow> dvb_demux_feed list \<Rightarrow> u8 list option \<Rightarrow> bool" where
  "memory_ok d fls fds cnt \<longleftrightarrow> length (tsbuf d) = 204 \<and> (\<forall>f \<in> set fls. flt_sized f) \<and> (\<forall>f \<in> set fds. buf_ok f) \<and>
     (\<forall>m. cnt = Some m \<longrightarrow> length m = MAX_PID + 1)"

inductive dmx_reachable :: "dmx_opts \<Rightarrow> 'c dmx_env \<Rightarrow> 'c dmx_driver \<Rightarrow> dvb_demux \<Rightarrow> 'c \<Rightarrow> bool" for opts env drv where
  reach_init: "memory_ok d fls fds cnt \<Longrightarrow> dvb_dmx_init d (Some fls) (Some fds) cnt = (d', Inr ()) \<Longrightarrow> dmx_reachable opts env drv d' c"
| reach_step: "dmx_reachable opts env drv d c \<Longrightarrow> client_ok d x \<Longrightarrow> packet_ok x \<Longrightarrow> dmx_step opts env drv x d c = Some (d', c') \<Longrightarrow>
    dmx_reachable opts env drv d' c'"

lemma index_feeds_nth: "j < length fs \<Longrightarrow> index_feeds i fs ! j = (fs ! j)\<lparr>feed_state := DMX_STATE_FREE, feed_index := i + j\<rparr>"
  by (induction fs arbitrary: i j) (auto simp: nth_Cons split: nat.split)

lemma length_index_feeds [simp]: "length (index_feeds i fs) = length fs"
  by (induction fs arbitrary: i) simp_all

lemma init_inv: "memory_ok d fls fds cnt \<Longrightarrow> dvb_dmx_init d (Some fls) (Some fds) cnt = (d', Inr ()) \<Longrightarrow> dmx_inv d'"
  by (auto simp: dvb_dmx_init_def Let_def memory_ok_def dmx_inv_def tables_ok_def list_ok_def feeds_ok_def index_feeds_nth feed_ok_free buf_ok_def
      flt_sized_def filter_sized_def)

lemma reachable_inv: "dmx_reachable opts env drv d c \<Longrightarrow> dmx_inv d"
proof (induction rule: dmx_reachable.induct)
  case (reach_step d c x d' c')
  with step_inv [of d x opts env drv c] show ?case by auto
qed (auto intro: init_inv)

text \<open>
  C2: Whatever the clients of a demux do, in any order and with failing drivers, signals and packets in between, as long as they use their own
  handles, every packet of the stream carries payload (packets without payload overrun the buffer of a section feed,
  \<open>empty_packet_overruns\<close>), and 15 bytes behind the section buffer of a feed may be read: no call goes wrong in memory (outside an array, through a null pointer), a filter never belongs to two feeds in use, no feed
  is in the list twice or after its release, and the feeds, filters and tables stay well formed.
\<close>

theorem demux_calls_safe:
  assumes "dmx_reachable opts env drv d c" "client_ok d x" "packet_ok x"
  shows "(\<exists>d' c'. dmx_step opts env drv x d c = Some (d', c') \<and> dmx_inv d') \<and> distinct (feed_list d) \<and>
    (\<forall>i \<in> set (feed_list d). i < length (feeds d) \<and> feed_state (feeds d ! i) \<noteq> DMX_STATE_FREE) \<and>
    (\<forall>i<length (feeds d). \<forall>j<length (feeds d). i \<noteq> j \<and> feed_state (feeds d ! i) \<noteq> DMX_STATE_FREE \<and> feed_state (feeds d ! j) \<noteq> DMX_STATE_FREE \<longrightarrow>
      set (feed_filter (feeds d ! i)) \<inter> set (feed_filter (feeds d ! j)) = {})"
proof -
  have inv: "dmx_inv d" by (rule reachable_inv [OF assms(1)])
  have "set (feed_filter (feeds d ! i)) \<inter> set (feed_filter (feeds d ! j)) = {}"
    if "i < length (feeds d)" "j < length (feeds d)" "i \<noteq> j" "feed_state (feeds d ! i) \<noteq> DMX_STATE_FREE" "feed_state (feeds d ! j) \<noteq> DMX_STATE_FREE" for i j
  proof -
    have "feed_ok (filters d) i (feeds d ! i)" "feed_ok (filters d) j (feeds d ! j)" using inv that by (simp_all add: dmx_inv_def feeds_ok_def)
    with that(3-5) show ?thesis by (auto simp: feed_ok_def)
  qed
  with inv step_inv [OF inv assms(2,3), of opts env drv c] show ?thesis by (auto simp: dmx_inv_def list_ok_def)
qed

section \<open>Errors\<close>

text \<open>
  A TS feed that cannot be had leaves nothing behind: without a free feed or a free filter the call returns EBUSY, no feed or filter is taken,
  and the feeds in use and the list are untouched.
\<close>

theorem allocate_ts_feed_busy:
  assumes "dmx_inv d" "free_index (map feed_state (feeds d)) = None \<or> free_index (map flt_state (filters d)) = None"
  shows "\<exists>d'. dvbdmx_allocate_ts_feed False d = Some (d', Inl EBUSY) \<and> filters d' = filters d \<and> feed_list d' = feed_list d \<and>
    map feed_state (feeds d') = map feed_state (feeds d) \<and>
    (\<forall>j<length (feeds d). feed_state (feeds d ! j) \<noteq> DMX_STATE_FREE \<longrightarrow> feeds d' ! j = feeds d ! j)"
proof (cases "free_index (map feed_state (feeds d))")
  case None
  then show ?thesis by (simp add: dvbdmx_allocate_ts_feed_def dvb_dmx_feed_alloc_def)
next
  case (Some i)
  with assms(2) have k: "free_index (map flt_state (filters d)) = None" by simp
  have i: "i < length (feeds d)" "feed_state (feeds d ! i) = DMX_STATE_FREE" using free_index_Some [OF Some] by auto
  have "map feed_state ((feeds d)[i := f]) = map feed_state (feeds d)" if "feed_state f = DMX_STATE_FREE" for f
    using i that by (simp add: map_update list_update_same_conv)
  with Some k i show ?thesis
    by (simp add: dvbdmx_allocate_ts_feed_def dvb_dmx_feed_alloc_def dvb_dmx_filter_alloc_def mem_get_def Let_def put_feed_def)
       (metis nth_list_update_neq)
qed

text \<open>
  Setting a feed a second time, with another type of elementary stream for the decoder, leaves the slot of the first type taken for good: the release
  of the feed clears only the last slot, and every other feed that asks for the first type then gets EINVAL.
\<close>

theorem ts_set_leaks_slot:
  assumes "dmx_inv d" "owns d DMX_TYPE_TS i" "a < DMX_PES_OTHER" "b < DMX_PES_OTHER" "a \<noteq> b"
    and "pesfilter d ! a = None" "pesfilter d ! b = None" "pid \<le> DMX_MAX_PID" "tt AND TS_DECODER \<noteq> 0"
  shows "\<exists>d1 d2 d3. dmx_ts_feed_set False d i pid tt a = Some (d1, Inr ()) \<and> dmx_ts_feed_set False d1 i pid tt b = Some (d2, Inr ()) \<and>
    dvbdmx_release_ts_feed d2 i = Some (d3, Inr ()) \<and> pesfilter d3 ! a = Some i \<and> i \<notin> set (feed_list d3) \<and>
    (\<forall>j pid'. j \<noteq> i \<and> pid' \<le> DMX_MAX_PID \<longrightarrow> dmx_ts_feed_set False d3 j pid' tt a = Some (d3, Inl EINVAL))"
proof -
  note f = inv_feed [OF assms(1,2)]
  from f obtain k where k: "feed_filter (feeds d ! i) = [k]" by (auto simp: feed_ok_def length_Suc_conv)
  note flt = chain_filter [OF assms(1,2), of k, unfolded k, simplified]
  have len: "length (pesfilter d) = DMX_PES_OTHER" "length (pids d) = DMX_PES_OTHER" "distinct (feed_list d)"
    using assms(1) by (simp_all add: dmx_inv_def tables_ok_def list_ok_def)
  have np: "\<not> DMX_MAX_PID < pid" using assms(8) by simp
  define g where "g p = (feeds d ! i)\<lparr>feed_pid := pid, ts_type := tt, pes_type := p, feed_state := DMX_STATE_READY\<rparr>" for p
  define e where "e = dvb_demux_feed_add d i"
  define d1 where "d1 = put_feed (e\<lparr>pesfilter := (pesfilter d)[a := Some i], pids := (pids d)[a := pid]\<rparr>) i (g a)"
  define d2 where "d2 = put_feed (e\<lparr>pesfilter := (pesfilter d)[a := Some i, b := Some i], pids := (pids d)[a := pid, b := pid]\<rparr>) i (g b)"
  have s1: "dmx_ts_feed_set False d i pid tt a = Some (d1, Inr ())"
    using f(1) assms(3,6,9) len np
    by (simp add: dmx_ts_feed_set_def mem_simps d1_def e_def g_def Let_def)
      (simp add: dvb_demux_feed_add_def dvb_demux_feed_find_def put_feed_def)
  have listed: "i \<in> set (feed_list e)" by (simp add: e_def dvb_demux_feed_add_def dvb_demux_feed_find_def)
  have s2: "dmx_ts_feed_set False d1 i pid tt b = Some (d2, Inr ())"
    using f(6) assms(4,5,7,9) len np listed
    by (simp add: dmx_ts_feed_set_def mem_simps d1_def d2_def g_def Let_def e_def)
      (simp add: dvb_demux_feed_add_def dvb_demux_feed_find_def put_feed_def)
  have "\<exists>d3. dvbdmx_release_ts_feed d2 i = Some (d3, Inr ()) \<and> pesfilter d3 = (pesfilter d)[a := Some i, b := None] \<and> i \<notin> set (feed_list d3)"
    using f(6) k flt(1) assms(4,9) len
    by (simp add: dvbdmx_release_ts_feed_def mem_simps d2_def g_def e_def Let_def)
      (simp add: dvb_demux_feed_add_def dvb_demux_feed_del_def dvb_demux_feed_find_def put_feed_def put_filter_def set_remove1_eq)
  then obtain d3 where d3: "dvbdmx_release_ts_feed d2 i = Some (d3, Inr ())" "pesfilter d3 = (pesfilter d)[a := Some i, b := None]" "i \<notin> set (feed_list d3)"
    by blast
  have slot: "pesfilter d3 ! a = Some i" "length (pesfilter d3) = DMX_PES_OTHER" using d3(2) assms(3,5) len(1) by simp_all
  then have "dmx_ts_feed_set False d3 j pid' tt a = Some (d3, Inl EINVAL)" if "j \<noteq> i" "pid' \<le> DMX_MAX_PID" for j pid'
    using that assms(3,9) by (auto simp: dmx_ts_feed_set_def mem_get_def)
  with s1 s2 d3 slot show ?thesis by blast
qed

section \<open>Witnesses\<close>

definition example_driver :: "'c dmx_driver" where
  "example_driver = \<lparr>start_feed = Some (\<lambda>i seen c. (Inr (), False, c)), stop_feed = Some (\<lambda>i seen c. (Inr (), seen, c))\<rparr>"

text \<open>An initialised demux with one feed and one filter.\<close>

definition fresh_demux :: dvb_demux where
  "fresh_demux = fst (dvb_dmx_init example_demux (Some [table_filter 0]) (Some [example_feed]) None)"

lemma fresh_reachable: "dmx_reachable opts env drv fresh_demux c"
proof (rule reach_init)
  show "memory_ok example_demux [table_filter 0] [example_feed] None"
    by (simp add: memory_ok_def example_demux_def flt_sized_def filter_sized_def table_filter_def buf_ok_def example_feed_def
        DMX_MAX_SECFEED_SIZE_def DMX_MAX_SECTION_SIZE_def)
  show "dvb_dmx_init example_demux (Some [table_filter 0]) (Some [example_feed]) None = (fresh_demux, Inr ())"
    by (simp add: fresh_demux_def dvb_dmx_init_def Let_def)
qed

lemma fresh_fields:
  "feeds fresh_demux = [example_feed\<lparr>feed_state := DMX_STATE_FREE, feed_index := 0\<rparr>]"
  "filters fresh_demux = [(table_filter 0)\<lparr>flt_state := DMX_STATE_FREE\<rparr>]" "feed_list fresh_demux = []" "tsbufp fresh_demux = 0"
  "pesfilter fresh_demux = replicate DMX_PES_OTHER None"
  by (simp_all add: fresh_demux_def dvb_dmx_init_def Let_def)

theorem demux_calls_safe_witness:
  "\<exists>d' c'. dmx_step example_opts recorder example_driver (AllocTs False) fresh_demux [] = Some (d', c') \<and> dmx_inv d'"
  using demux_calls_safe [OF fresh_reachable, of "AllocTs False" example_opts recorder example_driver "[]"] by simp

text \<open>A demux whose feed is taken.\<close>

definition ts_demux :: dvb_demux where
  "ts_demux = fst (the (dvbdmx_allocate_ts_feed False fresh_demux))"

lemma ts_demux_inv: "dmx_inv ts_demux"
  using ts_alloc_inv [OF reachable_inv [OF fresh_reachable], of False] by (auto simp: ts_demux_def)

lemma ts_demux_fields:
  "owns ts_demux DMX_TYPE_TS 0" "pesfilter ts_demux = replicate DMX_PES_OTHER None"
  "free_index (map feed_state (feeds ts_demux)) = None"
  by (simp_all add: ts_demux_def dvbdmx_allocate_ts_feed_def dvb_dmx_feed_alloc_def dvb_dmx_filter_alloc_def fresh_fields mem_get_def Let_def
      put_feed_def put_filter_def owns_def)

theorem allocate_ts_feed_busy_witness:
  "\<exists>d'. dvbdmx_allocate_ts_feed False ts_demux = Some (d', Inl EBUSY)"
  using allocate_ts_feed_busy [OF ts_demux_inv] ts_demux_fields(3) by auto

theorem ts_set_leaks_slot_witness:
  "\<exists>d1 d2 d3. dmx_ts_feed_set False ts_demux 0 0x100 TS_DECODER 0 = Some (d1, Inr ()) \<and>
    dmx_ts_feed_set False d1 0 0x100 TS_DECODER 1 = Some (d2, Inr ()) \<and> dvbdmx_release_ts_feed d2 0 = Some (d3, Inr ()) \<and>
    dmx_ts_feed_set False d3 1 0x100 TS_DECODER 0 = Some (d3, Inl EINVAL)"
proof -
  have "(0 :: nat) < DMX_PES_OTHER" "1 < DMX_PES_OTHER" "(0 :: nat) \<noteq> 1" "pesfilter ts_demux ! 0 = None" "pesfilter ts_demux ! 1 = None"
    "(0x100 :: u16) \<le> DMX_MAX_PID" "TS_DECODER AND TS_DECODER \<noteq> 0"
    by (simp_all add: DMX_PES_OTHER_def ts_demux_fields DMX_MAX_PID_def TS_DECODER_def)
  from ts_set_leaks_slot [OF ts_demux_inv ts_demux_fields(1) this] show ?thesis
    by (metis \<open>0x100 \<le> DMX_MAX_PID\<close> zero_neq_one)
qed

end
