(* ===== verification/Dvb_Dmx_Session.thy ===== *)
theory Dvb_Dmx_Session
  imports Dvb_Dmx_Calls
begin

text \<open>
  A client of a demux from its first call to the sections it gets: the calls of \<^verbatim>\<open>Dvb_Dmx_Api\<close> joined with the path of the bytes of \<^verbatim>\<open>Dvb_Multiplex\<close>.
\<close>

section \<open>A session\<close>

fun dmx_steps :: "dmx_opts \<Rightarrow> 'c dmx_env \<Rightarrow> 'c dmx_driver \<Rightarrow> dmx_call list \<Rightarrow> dvb_demux \<Rightarrow> 'c \<Rightarrow> (dvb_demux \<times> 'c) option" where
  "dmx_steps opts env drv [] d c = Some (d, c)"
| "dmx_steps opts env drv (x # xs) d c = do {
     (d, c) \<leftarrow> dmx_step opts env drv x d c;
     dmx_steps opts env drv xs d c
   }"

text \<open>The calls of a client that wants the sections of a PID that a filter takes.\<close>

definition section_calls :: "nat \<Rightarrow> nat \<Rightarrow> u16 \<Rightarrow> bool \<Rightarrow> u8 list \<Rightarrow> u8 list \<Rightarrow> u8 list \<Rightarrow> dmx_call list" where
  "section_calls i k pid crc v m md =
     [AllocSec False, SetSec False i pid crc, AllocFilter False i, Configure k v m md, StartSec False i]"

lemma section_calls_setup:
  assumes inv: "dmx_inv d" and i: "free_index (map feed_state (feeds d)) = Some i" and k: "free_index (map flt_state (filters d)) = Some k"
    and len: "length v = 18" "length m = 18" "length md = 18" and pid: "pid \<le> 0x1fff" and empty: "feed_list d = []"
    and start: "start_feed drv = Some st" "\<And>s. st i s c = (Inr (), False, c1)"
  shows "\<exists>d1. dmx_steps opts env drv (section_calls i k pid crc v m md) d c = Some (d1, c1) \<and> feed_list d1 = [i] \<and> i < length (feeds d1) \<and>
    tuning (feeds d1 ! i) \<and> feed_filter (feeds d1 ! i) = [k] \<and> feed_pid (feeds d1 ! i) = pid \<and> check_crc (feeds d1 ! i) = crc \<and>
    tsbuf d1 = tsbuf d \<and> tsbufp d1 = tsbufp d \<and> k < length (filters d1) \<and> prepared (filters d1 ! k) \<and>
    filter_value (filters d1 ! k) = v \<and> filter_mask (filters d1 ! k) = m \<and> filter_mode (filters d1 ! k) = md"
proof -
  have ii: "i < length (feeds d)" and kk: "k < length (filters d)" using free_index_Some [OF i] free_index_Some [OF k] by auto
  have buf: "DMX_MAX_SECFEED_SIZE \<le> length (secbuf_base (feeds d ! i))" using inv ii by (auto simp: dmx_inv_def feeds_ok_def buf_ok_def)
  define f where "f = (filters d ! k)\<lparr>flt_feed := i, flt_type := DMX_TYPE_SEC, flt_state := DMX_STATE_READY,
      filter_value := v, filter_mask := m, filter_mode := md\<rparr>"
  have sized: "flt_sized f" using inv_sized [OF inv kk] len by (simp add: f_def flt_sized_def filter_sized_def)
  from prepare_filter [OF sized] obtain g dq where g: "prepare_bytes f [0..<DVB_DEMUX_MASK_MAX] 0 = Some (g, dq)"
    "same_filter f (g\<lparr>doneq := dq \<noteq> 0\<rparr>)" "prepared (g\<lparr>doneq := dq \<noteq> 0\<rparr>)" by blast
  have np: "\<not> (0x1fff < pid)" using pid by simp
  show ?thesis
    using ii kk g np len start buf
    by (simp add: section_calls_def dvbdmx_allocate_section_feed_def dvb_dmx_feed_alloc_def i Let_def mem_get_def
        dmx_section_feed_set_def dvb_demux_feed_add_def dvb_demux_feed_find_def empty put_feed_def put_filter_def
        dmx_section_feed_allocate_filter_def dvb_dmx_filter_alloc_def k)
      (simp add: dmx_section_feed_start_filtering_def mem_get_def put_feed_def prepare_secfilters_def f_def [symmetric],
        simp add: tuning_def sec_inv_def same_filter_def f_def)
qed

text \<open>A filter with a value, mask and mode; which sections it takes depends on nothing else.\<close>

definition wanted :: "u8 list \<Rightarrow> u8 list \<Rightarrow> u8 list \<Rightarrow> dvb_demux_filter" where
  "wanted v m md = \<lparr>filter_value = v, filter_mask = m, filter_mode = md, maskandmode = [], maskandnotmode = [], doneq = False,
     flt_feed = 0, flt_state = DMX_STATE_READY, flt_type = DMX_TYPE_SEC\<rparr>"

definition hand_out :: "'c dmx_env \<Rightarrow> nat \<Rightarrow> bool \<Rightarrow> dvb_demux_filter \<Rightarrow> u8 list \<Rightarrow> u32 \<times> 'c \<Rightarrow> u32 \<times> 'c" where
  "hand_out env k crc f s st =
     (if crc \<and> s ! 1 AND 0x80 \<noteq> 0 \<and> crc32_be env (NOT 0) s \<noteq> 0 then (fst st OR DMX_BUFFER_FLAG_HAD_CRC32_DISCARD, snd st)
      else if matches f s then snd (cb_sec env k s (fst st) (snd st)) else st)"

lemma deliver_one:
  assumes "filter_value (flts ! k) = v" "filter_mask (flts ! k) = m" "filter_mode (flts ! k) = md"
  shows "deliver env flts [k] crc s = hand_out env k crc (wanted v m md) s"
proof -
  have "matches (flts ! k) s = matches (wanted v m md) s" using assms by (simp add: matches_def wanted_def)
  then show ?thesis by (auto simp: deliver_def hand_out_def split: prod.splits)
qed

text \<open>
  A session of a client, from the calls to the sections. On any well-formed demux with a free feed and a free filter that no one else is using,
  a client allocates a section feed, sets its PID, allocates and fills in a filter, and starts (the driver clears \<open>pusi_seen\<close>). From then on, on
  the bytes of a multiplex in any chunks, in which the packets of its PID carry payload without a gap (\<open>in_packets\<close>), its callback is called for exactly those sections of its PID that agree with the value under the mask
  and mode it asked for, once, complete and in order (or they are dropped because of their CRC if it asked for the check).
\<close>

theorem section_session:
  assumes calls: "dmx_inv d" "free_index (map feed_state (feeds d)) = Some i" "free_index (map flt_state (filters d)) = Some k"
      "length v = 18" "length m = 18" "length md = 18" "pid \<le> 0x1fff" "feed_list d = []"
      "start_feed drv = Some st" "\<And>s. st i s c = (Inr (), False, c1)"
    and bytes: "tsbufp d = 0" "\<not> dvb_demux_tscheck opts" "ts_packets ps" "ts_rest l" "concat cks = concat ps @ l" "\<forall>p \<in> set ps. p ! 1 AND 0x80 = 0"
    and sections: "filter (\<lambda>p. ts_pid p = Some pid) ps = junk @ pkts" "\<forall>p \<in> set junk. continuation_packet p"
      "linked pre gs" "gs \<noteq> []" "in_packets cc (payloads pre gs) pkts"
      "\<forall>g \<in> set gs. \<forall>s \<in> set (g_secs g). valid_section s \<and> (\<forall>j<18. length s \<le> j \<longrightarrow> m ! j = 0)"
  shows "\<exists>d1 d' c' fl. dmx_steps opts env drv (section_calls i k pid crc v m md) d c = Some (d1, c1) \<and>
    swfilter_chunks TS188 opts env d1 c1 cks = Some (d', c') \<and>
    (buffer_flags (feeds d' ! i), c') = foldl (\<lambda>st s. hand_out env k crc (wanted v m md) s st) (fl, c1) (concat (map g_secs gs))"
proof -
  obtain d1 where d1: "dmx_steps opts env drv (section_calls i k pid crc v m md) d c = Some (d1, c1)" "feed_list d1 = [i]" "i < length (feeds d1)"
    "tuning (feeds d1 ! i)" "feed_filter (feeds d1 ! i) = [k]" "feed_pid (feeds d1 ! i) = pid" "check_crc (feeds d1 ! i) = crc"
    "tsbuf d1 = tsbuf d" "tsbufp d1 = tsbufp d" "k < length (filters d1)" "prepared (filters d1 ! k)"
    and flt: "filter_value (filters d1 ! k) = v" "filter_mask (filters d1 ! k) = m" "filter_mode (filters d1 ! k) = md"
    using section_calls_setup [where opts = opts and env = env and crc = crc, OF calls] by blast
  have "length (tsbuf d1) = 204" "tsbufp d1 = 0" using calls(1) bytes(1) d1(8,9) by (simp_all add: dmx_inv_def tables_ok_def)
  moreover have "pid \<noteq> 0x2000" using calls(7) by auto
  moreover have "\<forall>g \<in> set gs. \<forall>s \<in> set (g_secs g). valid_section s \<and> filters_for (filters d1) (feed_filter (feeds d1 ! i)) s"
    using sections(6) d1(5,10,11) flt(2) by (simp add: filters_for_def covers_def)
  ultimately obtain d' c' fl where r: "swfilter_chunks TS188 opts env d1 c1 cks = Some (d', c')" "(buffer_flags (feeds d' ! i), c') =
      foldl (\<lambda>st s. deliver env (filters d1) (feed_filter (feeds d1 ! i)) (check_crc (feeds d1 ! i)) s st) (fl, c1) (concat (map g_secs gs))"
    using multiplex [of d1 i opts pid ps l cks junk pkts pre gs cc env c1] d1 bytes sections by auto
  from r(2) [unfolded d1(5,7) deliver_one [OF flt]] d1(1) r(1) show ?thesis by blast
qed

section \<open>Witness\<close>

theorem section_session_witness:
  "\<exists>d1 d'. dmx_steps example_opts recorder example_driver
      (section_calls 0 0 0x10 False (0x42 # replicate 17 0) (0xff # replicate 17 0) (replicate 18 0xff)) fresh_demux [] = Some (d1, []) \<and>
    swfilter_chunks TS188 example_opts recorder d1 [] [take 300 (concat example_multiplex), drop 300 (concat example_multiplex)] =
      Some (d', [(0, example_section)])"
proof -
  let ?v = "0x42 # replicate 17 0 :: u8 list" and ?m = "0xff # replicate 17 0 :: u8 list" and ?md = "replicate 18 0xff :: u8 list"
  let ?cks = "[take 300 (concat example_multiplex), drop 300 (concat example_multiplex)]"
  have inv: "dmx_inv fresh_demux" by (rule reachable_inv [OF fresh_reachable])
  have free: "free_index (map feed_state (feeds fresh_demux)) = Some 0" "free_index (map flt_state (filters fresh_demux)) = Some 0"
    by (simp_all add: fresh_fields)
  have len: "length ?v = 18" "length ?m = 18" "length ?md = 18" "(0x10 :: u16) \<le> 0x1fff" by simp_all
  have st: "start_feed example_driver = Some (\<lambda>i seen c. (Inr (), False, c))" by (simp add: example_driver_def)
  have bytes: "ts_rest []" "concat ?cks = concat example_multiplex @ []" "\<not> dvb_demux_tscheck example_opts"
    by (simp_all add: ts_rest_def example_opts_def)
  have secs: "\<forall>g \<in> set [example_group]. \<forall>s \<in> set (g_secs g). valid_section s \<and> (\<forall>j<18. length s \<le> j \<longrightarrow> ?m ! j = 0)"
    using example_valid by (auto simp: example_group_def example_section_def nth_Cons simp del: replicate.simps split: nat.split)
  obtain d1 d' c' fl where r: "dmx_steps example_opts recorder example_driver (section_calls 0 0 0x10 False ?v ?m ?md) fresh_demux [] = Some (d1, [])"
    "swfilter_chunks TS188 example_opts recorder d1 [] ?cks = Some (d', c')"
    "(buffer_flags (feeds d' ! 0), c') = foldl (\<lambda>st s. hand_out recorder 0 False (wanted ?v ?m ?md) s st) (fl, []) (concat (map g_secs [example_group]))"
    using section_session [where c = "[]" and env = recorder and crc = False, OF inv free len fresh_fields(3) st refl fresh_fields(4) bytes(3)
        example_packets(1) bytes(1,2) example_packets(2) example_mine example_junk example_linked _ example_in_packets secs] by blast
  have "matches (wanted ?v ?m ?md) example_section" using example_matches by (simp add: matches_def wanted_def table_filter_def)
  then have "c' = [(0, example_section)]" using r(3) by (simp add: example_group_def hand_out_def recorder_def)
  with r(1,2) show ?thesis by blast
qed

end
