(* ===== verification/Dvb_Dmxdev.thy ===== *)
theory Dvb_Dmxdev
  imports Dvb_Dmxdev_Read Dvb_Dmx_Session
begin

text \<open>
  The demux device and the DVR device, \<^verbatim>\<open>dvb-core/dmxdev.c\<close>: what a program does with the demux of \<^verbatim>\<open>dvb_demux.c\<close> by opening a file, setting a
  filter, starting, reading and closing.

  The client of the demux is the device: the state that the callbacks of \<^verbatim>\<open>Dvb_Demux\<close> get and return is the record \<open>dmxdev\<close>, with the state of the hardware
  inside. A result \<^const>\<open>None\<close> is an access through a null pointer, outside of an object, or to a member of a union that was not the one last
  written; a callback, which cannot give such a result, sets \<open>fault\<close>. The kernel is compiled without \<^verbatim>\<open>CONFIG_DVB_MMAP\<close>.
\<close>

section \<open>Data\<close>

definition DMX_FILTER_SIZE :: nat where "DMX_FILTER_SIZE = 16"

record dmx_filter =
  pf_filter :: "u8 list"
  pf_mask :: "u8 list"
  pf_mode :: "u8 list"

definition DMX_CHECK_CRC :: u32 where "DMX_CHECK_CRC = 1"
definition DMX_ONESHOT :: u32 where "DMX_ONESHOT = 2"
definition DMX_IMMEDIATE_START :: u32 where "DMX_IMMEDIATE_START = 4"

record dmx_sct_filter_params =
  sct_pid :: u16
  sct_filter :: dmx_filter
  sct_timeout :: u32
  sct_flags :: u32

text \<open>The output is what the user gave, also a number that is no member of the enumeration.\<close>

definition DMX_OUT_DECODER :: nat where "DMX_OUT_DECODER = 0"
definition DMX_OUT_TAP :: nat where "DMX_OUT_TAP = 1"
definition DMX_OUT_TS_TAP :: nat where "DMX_OUT_TS_TAP = 2"
definition DMX_OUT_TSDEMUX_TAP :: nat where "DMX_OUT_TSDEMUX_TAP = 3"

record dmx_pes_filter_params =
  pes_pid :: u16
  pes_input :: nat
  pes_output :: nat
  pes_pes_type :: nat
  pes_flags :: u32

datatype dmxdev_type = DMXDEV_TYPE_NONE | DMXDEV_TYPE_SEC | DMXDEV_TYPE_PES

datatype dmxdev_state = DMXDEV_STATE_FREE | DMXDEV_STATE_ALLOCATED | DMXDEV_STATE_SET | DMXDEV_STATE_GO | DMXDEV_STATE_DONE | DMXDEV_STATE_TIMEDOUT

text \<open>The code compares the states by their numbers.\<close>

fun state_num :: "dmxdev_state \<Rightarrow> nat" where
  "state_num DMXDEV_STATE_FREE = 0" | "state_num DMXDEV_STATE_ALLOCATED = 1" | "state_num DMXDEV_STATE_SET = 2"
| "state_num DMXDEV_STATE_GO = 3" | "state_num DMXDEV_STATE_DONE = 4" | "state_num DMXDEV_STATE_TIMEDOUT = 5"

lemma state_num_inj: "state_num a = state_num b \<longleftrightarrow> a = b"
  by (cases a; cases b) simp_all

instantiation dmxdev_state :: linorder
begin

definition less_eq_dmxdev_state :: "dmxdev_state \<Rightarrow> dmxdev_state \<Rightarrow> bool" where
  "a \<le> b \<longleftrightarrow> state_num a \<le> state_num b"

definition less_dmxdev_state :: "dmxdev_state \<Rightarrow> dmxdev_state \<Rightarrow> bool" where
  "a < b \<longleftrightarrow> state_num a < state_num b"

instance
  by standard (auto simp: less_eq_dmxdev_state_def less_dmxdev_state_def state_num_inj)

end

record dmxdev_feed =
  df_pid :: u16
  df_ts :: "nat option"

text \<open>The two unions of a filter: what was written last.\<close>

datatype feed_union = F_none | F_ts "dmxdev_feed list" | F_sec "nat option"
datatype params_union = P_none | P_sec dmx_sct_filter_params | P_pes dmx_pes_filter_params

record dmxdev_filter =
  df_sec :: "nat option"
  df_feed :: feed_union
  df_params :: params_union
  df_type :: dmxdev_type
  df_state :: dmxdev_state
  df_timer :: "nat option"
  df_reader :: sec_reader

definition DVR_BUFFER_SIZE :: nat where "DVR_BUFFER_SIZE = 10 * 188 * 1024"

text \<open>
  The device. \<open>flt_priv\<close> and \<open>ts_priv\<close> are the pointers that a section filter and a TS feed of the demux have to the filter of the device; \<open>hw\<close> is the
  hardware.
\<close>

record 's dmxdev =
  dev_filters :: "dmxdev_filter list"
  dev_duplex :: bool
  dev_exit :: bool
  dvr_orig_fe :: "nat option"
  dvr_buffer :: dvb_ringbuffer
  demux_users :: nat
  dvr_users :: nat
  dvr_readers :: nat
  flt_priv :: "nat \<Rightarrow> nat option"
  ts_priv :: "nat \<Rightarrow> nat option"
  hw :: 's
  fault :: bool

definition get_flt :: "'s dmxdev \<Rightarrow> nat \<Rightarrow> dmxdev_filter option" where
  "get_flt c i = mem_get (dev_filters c) i"

definition put_flt :: "'s dmxdev \<Rightarrow> nat \<Rightarrow> dmxdev_filter \<Rightarrow> 's dmxdev" where
  "put_flt c i f = c\<lparr>dev_filters := (dev_filters c)[i := f]\<rparr>"

definition df_buffer :: "dmxdev_filter \<Rightarrow> dvb_ringbuffer" where
  "df_buffer f = sr_buffer (df_reader f)"

definition set_buffer :: "dvb_ringbuffer \<Rightarrow> dmxdev_filter \<Rightarrow> dmxdev_filter" where
  "set_buffer rb f = f\<lparr>df_reader := (df_reader f)\<lparr>sr_buffer := rb\<rparr>\<rparr>"

text \<open>The driver acts on the hardware only.\<close>

definition on_hw :: "(nat \<Rightarrow> bool \<Rightarrow> 's \<Rightarrow> unit result \<times> bool \<times> 's) \<Rightarrow> nat \<Rightarrow> bool \<Rightarrow> 's dmxdev \<Rightarrow> unit result \<times> bool \<times> 's dmxdev" where
  "on_hw f i seen c = (let (r, seen, s) = f i seen (hw c) in (r, seen, c\<lparr>hw := s\<rparr>))"

definition lift_driver :: "'s dmx_driver \<Rightarrow> 's dmxdev dmx_driver" where
  "lift_driver drv = \<lparr>start_feed = map_option on_hw (start_feed drv), stop_feed = map_option on_hw (stop_feed drv)\<rparr>"

text \<open>
  The kernel during a call: for each lock whether a signal comes first, the memory, the time. The locks of the demux are numbered by the feed of the
  list that they are for.
\<close>

datatype dmx_lock = L_dev | L_file | L_alloc nat | L_set nat | L_filter | L_start nat | L_restart nat

record dev_env =
  signal :: "dmx_lock \<Rightarrow> bool"
  vmalloc :: "nat \<Rightarrow> u8 list option"
  kzalloc :: bool
  jiffies :: nat
  HZ :: nat

section \<open>Callbacks\<close>

text \<open>A filter gets the bytes of a callback; the second part of the data is always empty.\<close>

definition store :: "dvb_ringbuffer \<Rightarrow> u8 list \<Rightarrow> (dvb_ringbuffer \<times> int) option" where
  "store rb buffer1 = do {
     (rb, ret) \<leftarrow> dvb_dmxdev_buffer_write rb buffer1;
     (rb, ret) \<leftarrow> (if ret = int (length buffer1) then dvb_dmxdev_buffer_write rb [] else Some (rb, ret));
     Some (if ret < 0 then rb\<lparr>rb_error := ret\<rparr> else rb, ret)
   }"

definition section_callback :: "dmxdev_filter \<Rightarrow> u8 list \<Rightarrow> dmxdev_filter option" where
  "section_callback f buffer1 =
     (if rb_error (df_buffer f) \<noteq> 0 \<or> df_state f \<noteq> DMXDEV_STATE_GO then Some f
      else do {
        let f = f\<lparr>df_timer := None\<rparr>;
        (rb, ret) \<leftarrow> store (df_buffer f) buffer1;
        let f = set_buffer rb f;
        case df_params f of
          P_sec para \<Rightarrow> Some (if sct_flags para AND DMX_ONESHOT \<noteq> 0 then f\<lparr>df_state := DMXDEV_STATE_DONE\<rparr> else f)
        | _ \<Rightarrow> None
      })"

definition dvb_dmxdev_section_callback :: "nat \<Rightarrow> u8 list \<Rightarrow> u32 \<Rightarrow> 's dmxdev \<Rightarrow> int \<times> u32 \<times> 's dmxdev" where
  "dvb_dmxdev_section_callback k buffer1 flags c =
     (case do { i \<leftarrow> flt_priv c k; f \<leftarrow> get_flt c i; f \<leftarrow> section_callback f buffer1; Some (put_flt c i f) } of
        None \<Rightarrow> (0, flags, c\<lparr>fault := True\<rparr>)
      | Some c \<Rightarrow> (0, flags, c))"

definition ts_callback :: "'s dmxdev \<Rightarrow> nat \<Rightarrow> u8 list \<Rightarrow> 's dmxdev option" where
  "ts_callback c i buffer1 = do {
     f \<leftarrow> get_flt c i;
     case df_params f of
       P_pes para \<Rightarrow>
         if pes_output para = DMX_OUT_DECODER then Some c
         else if pes_output para = DMX_OUT_TAP \<or> pes_output para = DMX_OUT_TSDEMUX_TAP then
           if rb_error (df_buffer f) \<noteq> 0 then Some c
           else do { (rb, _) \<leftarrow> store (df_buffer f) buffer1; Some (put_flt c i (set_buffer rb f)) }
         else
           if rb_error (dvr_buffer c) \<noteq> 0 then Some c
           else do { (rb, _) \<leftarrow> store (dvr_buffer c) buffer1; Some (c\<lparr>dvr_buffer := rb\<rparr>) }
     | _ \<Rightarrow> None
   }"

definition dvb_dmxdev_ts_callback :: "nat \<Rightarrow> u8 list \<Rightarrow> u32 \<Rightarrow> 's dmxdev \<Rightarrow> int \<times> u32 \<times> 's dmxdev" where
  "dvb_dmxdev_ts_callback t buffer1 flags c =
     (case do { i \<leftarrow> ts_priv c t; ts_callback c i buffer1 } of
        None \<Rightarrow> (0, flags, c\<lparr>fault := True\<rparr>)
      | Some c \<Rightarrow> (0, flags, c))"

text \<open>The functions that the demux calls.\<close>

definition device_env :: "(nat \<Rightarrow> u8 list \<Rightarrow> 's dmxdev \<Rightarrow> 's dmxdev) option \<Rightarrow> (u32 \<Rightarrow> u8 list \<Rightarrow> u32) \<Rightarrow> 's dmxdev dmx_env" where
  "device_env decoder crc =
     \<lparr>cb_ts = dvb_dmxdev_ts_callback, cb_sec = dvb_dmxdev_section_callback, write_to_decoder = decoder, crc32_be = crc\<rparr>"

section \<open>Feeds\<close>

definition dvb_dmxdev_filter_state_set :: "'s dmxdev \<Rightarrow> nat \<Rightarrow> dmxdev_state \<Rightarrow> 's dmxdev option" where
  "dvb_dmxdev_filter_state_set c i s = do { f \<leftarrow> get_flt c i; Some (put_flt c i (f\<lparr>df_state := s\<rparr>)) }"

text \<open>The loop over the PIDs of a filter; a feed that has not been allocated is a null pointer.\<close>

fun stop_feeds :: "'s dmx_driver \<Rightarrow> dvb_demux \<Rightarrow> 's dmxdev \<Rightarrow> dmxdev_feed list \<Rightarrow> (dvb_demux \<times> 's dmxdev) option" where
  "stop_feeds drv d c [] = Some (d, c)"
| "stop_feeds drv d c (fd # fds) = do {
     t \<leftarrow> df_ts fd;
     (d, c, _) \<leftarrow> dmx_ts_feed_stop_filtering (lift_driver drv) d c t;
     stop_feeds drv d c fds
   }"

definition dvb_dmxdev_feed_stop :: "'s dmx_driver \<Rightarrow> dvb_demux \<Rightarrow> 's dmxdev \<Rightarrow> nat \<Rightarrow> (dvb_demux \<times> 's dmxdev \<times> unit result) option" where
  "dvb_dmxdev_feed_stop drv d c i = do {
     c \<leftarrow> dvb_dmxdev_filter_state_set c i DMXDEV_STATE_SET;
     f \<leftarrow> get_flt c i;
     case df_type f of
       DMXDEV_TYPE_SEC \<Rightarrow>
         (case df_feed f of
            F_sec (Some k) \<Rightarrow> do {
              let c = put_flt c i (f\<lparr>df_timer := None\<rparr>);
              (d, c, _) \<leftarrow> dmx_section_feed_stop_filtering (lift_driver drv) d c k;
              Some (d, c, Inr ())
            }
          | _ \<Rightarrow> None)
     | DMXDEV_TYPE_PES \<Rightarrow>
         (case df_feed f of
            F_ts fds \<Rightarrow> do { (d, c) \<leftarrow> stop_feeds drv d c fds; Some (d, c, Inr ()) }
          | _ \<Rightarrow> None)
     | DMXDEV_TYPE_NONE \<Rightarrow> Some (d, c, Inl EINVAL)
   }"

fun start_feeds :: "dev_env \<Rightarrow> 's dmx_driver \<Rightarrow> dvb_demux \<Rightarrow> 's dmxdev \<Rightarrow> nat \<Rightarrow> dmxdev_feed list \<Rightarrow> (dvb_demux \<times> 's dmxdev \<times> unit result) option" where
  "start_feeds env drv d c n [] = Some (d, c, Inr ())"
| "start_feeds env drv d c n (fd # fds) = do {
     t \<leftarrow> df_ts fd;
     (d, c, r) \<leftarrow> dmx_ts_feed_start_filtering (lift_driver drv) (signal env (L_restart n)) d c t;
     case r of Inl e \<Rightarrow> Some (d, c, Inl e) | Inr _ \<Rightarrow> start_feeds env drv d c (n + 1) fds
   }"

definition dvb_dmxdev_feed_start :: "dev_env \<Rightarrow> 's dmx_driver \<Rightarrow> dvb_demux \<Rightarrow> 's dmxdev \<Rightarrow> nat \<Rightarrow> (dvb_demux \<times> 's dmxdev \<times> unit result) option" where
  "dvb_dmxdev_feed_start env drv d c i = do {
     c \<leftarrow> dvb_dmxdev_filter_state_set c i DMXDEV_STATE_GO;
     f \<leftarrow> get_flt c i;
     case df_type f of
       DMXDEV_TYPE_SEC \<Rightarrow>
         (case df_feed f of
            F_sec (Some k) \<Rightarrow> dmx_section_feed_start_filtering (lift_driver drv) (signal env (L_restart 0)) d c k
          | _ \<Rightarrow> None)
     | DMXDEV_TYPE_PES \<Rightarrow>
         (case df_feed f of
            F_ts fds \<Rightarrow> do {
              (d, c, r) \<leftarrow> start_feeds env drv d c 0 fds;
              case r of
                Inl e \<Rightarrow> do { (d, c, _) \<leftarrow> dvb_dmxdev_feed_stop drv d c i; Some (d, c, Inl e) }
              | Inr _ \<Rightarrow> Some (d, c, Inr ())
            }
          | _ \<Rightarrow> None)
     | DMXDEV_TYPE_NONE \<Rightarrow> Some (d, c, Inl EINVAL)
   }"

text \<open>The first filter of the array that runs on a section feed with the PID.\<close>

definition live_section :: "u16 \<Rightarrow> dmxdev_filter \<Rightarrow> bool" where
  "live_section pid f \<longleftrightarrow> df_state f \<ge> DMXDEV_STATE_GO \<and> df_type f = DMXDEV_TYPE_SEC \<and> (case df_params f of P_sec p \<Rightarrow> sct_pid p = pid | _ \<Rightarrow> False)"

fun first_index :: "('a \<Rightarrow> bool) \<Rightarrow> 'a list \<Rightarrow> nat option" where
  "first_index P [] = None"
| "first_index P (x # xs) = (if P x then Some 0 else map_option Suc (first_index P xs))"

definition dvb_dmxdev_feed_restart :: "dev_env \<Rightarrow> 's dmx_driver \<Rightarrow> dvb_demux \<Rightarrow> 's dmxdev \<Rightarrow> nat \<Rightarrow> (dvb_demux \<times> 's dmxdev) option" where
  "dvb_dmxdev_feed_restart env drv d c i = do {
     f \<leftarrow> get_flt c i;
     pid \<leftarrow> (case df_params f of P_sec p \<Rightarrow> Some (sct_pid p) | _ \<Rightarrow> None);
     case first_index (live_section pid) (dev_filters c) of
       Some j \<Rightarrow> do { (d, c, _) \<leftarrow> dvb_dmxdev_feed_start env drv d c j; Some (d, c) }
     | None \<Rightarrow>
         (case df_feed f of
            F_sec (Some k) \<Rightarrow> do { (d, _) \<leftarrow> dvbdmx_release_section_feed d k; Some (d, c) }
          | _ \<Rightarrow> None)
   }"

section \<open>Stopping\<close>

fun release_feeds :: "dvb_demux \<Rightarrow> dmxdev_feed list \<Rightarrow> (dvb_demux \<times> dmxdev_feed list) option" where
  "release_feeds d [] = Some (d, [])"
| "release_feeds d (fd # fds) = do {
     t \<leftarrow> df_ts fd;
     (d, _) \<leftarrow> dvbdmx_release_ts_feed d t;
     (d, fds) \<leftarrow> release_feeds d fds;
     Some (d, fd\<lparr>df_ts := None\<rparr> # fds)
   }"

definition flush_filter :: "'s dmxdev \<Rightarrow> nat \<Rightarrow> 's dmxdev option" where
  "flush_filter c i = do { f \<leftarrow> get_flt c i; Some (put_flt c i (set_buffer (dvb_ringbuffer_flush (df_buffer f)) f)) }"

definition dvb_dmxdev_filter_stop :: "dev_env \<Rightarrow> 's dmx_driver \<Rightarrow> dvb_demux \<Rightarrow> 's dmxdev \<Rightarrow> nat \<Rightarrow> (dvb_demux \<times> 's dmxdev \<times> unit result) option" where
  "dvb_dmxdev_filter_stop env drv d c i = do {
     f \<leftarrow> get_flt c i;
     if df_state f < DMXDEV_STATE_GO then Some (d, c, Inr ())
     else case df_type f of
       DMXDEV_TYPE_SEC \<Rightarrow>
         (case df_feed f of
            F_sec None \<Rightarrow> do { c \<leftarrow> flush_filter c i; Some (d, c, Inr ()) }
          | F_sec (Some k) \<Rightarrow> do {
              (d, c, _) \<leftarrow> dvb_dmxdev_feed_stop drv d c i;
              (d, c) \<leftarrow> (case df_sec f of
                  None \<Rightarrow> Some (d, c)
                | Some fk \<Rightarrow> map_option (\<lambda>(d, c, _). (d, c)) (dmx_section_feed_release_filter (lift_driver drv) d c k fk));
              (d, c) \<leftarrow> dvb_dmxdev_feed_restart env drv d c i;
              f \<leftarrow> get_flt c i;
              c \<leftarrow> flush_filter (put_flt c i (f\<lparr>df_feed := F_sec None\<rparr>)) i;
              Some (d, c, Inr ())
            }
          | _ \<Rightarrow> None)
     | DMXDEV_TYPE_PES \<Rightarrow> do {
         (d, c, _) \<leftarrow> dvb_dmxdev_feed_stop drv d c i;
         f \<leftarrow> get_flt c i;
         case df_feed f of
           F_ts fds \<Rightarrow> do {
             (d, fds) \<leftarrow> release_feeds d fds;
             c \<leftarrow> flush_filter (put_flt c i (f\<lparr>df_feed := F_ts fds\<rparr>)) i;
             Some (d, c, Inr ())
           }
         | _ \<Rightarrow> None
       }
     | DMXDEV_TYPE_NONE \<Rightarrow> Some (d, c, Inl EINVAL)
   }"

definition dvb_dmxdev_delete_pids :: "dmxdev_filter \<Rightarrow> dmxdev_filter option" where
  "dvb_dmxdev_delete_pids f = (case df_feed f of F_ts _ \<Rightarrow> Some (f\<lparr>df_feed := F_ts []\<rparr>) | _ \<Rightarrow> None)"

definition dvb_dmxdev_filter_reset :: "'s dmxdev \<Rightarrow> nat \<Rightarrow> 's dmxdev option" where
  "dvb_dmxdev_filter_reset c i = do {
     f \<leftarrow> get_flt c i;
     if df_state f < DMXDEV_STATE_SET then Some c
     else do {
       f \<leftarrow> (if df_type f = DMXDEV_TYPE_PES then dvb_dmxdev_delete_pids f else Some f);
       dvb_dmxdev_filter_state_set (put_flt c i (f\<lparr>df_type := DMXDEV_TYPE_NONE\<rparr>)) i DMXDEV_STATE_ALLOCATED
     }
   }"

section \<open>Starting\<close>

text \<open>The kind of feed that an output and a type of PES ask for.\<close>

definition ts_feed_type :: "dmx_pes_filter_params \<Rightarrow> u32" where
  "ts_feed_type para =
     (let ts_type = (if pes_pes_type para < DMX_PES_OTHER then TS_DECODER else 0)
      in if pes_output para = DMX_OUT_TS_TAP then ts_type OR TS_PACKET
         else if pes_output para = DMX_OUT_TSDEMUX_TAP then ts_type OR (TS_PACKET OR TS_DEMUX)
         else if pes_output para = DMX_OUT_TAP then ts_type OR (TS_PACKET OR TS_DEMUX OR TS_PAYLOAD_ONLY)
         else ts_type)"

definition set_feed_ts :: "'s dmxdev \<Rightarrow> nat \<Rightarrow> nat \<Rightarrow> nat option \<Rightarrow> 's dmxdev option" where
  "set_feed_ts c i n t = do {
     f \<leftarrow> get_flt c i;
     case df_feed f of
       F_ts fds \<Rightarrow> do { fd \<leftarrow> mem_get fds n; Some (put_flt c i (f\<lparr>df_feed := F_ts (fds[n := fd\<lparr>df_ts := t\<rparr>])\<rparr>)) }
     | _ \<Rightarrow> None
   }"

text \<open>
  The pointer that \<^const>\<open>dvbdmx_allocate_ts_feed\<close> writes as soon as it has a feed, also when it then finds no filter; the feed points to no filter of the
  device yet.
\<close>

definition give_ts :: "bool \<Rightarrow> dvb_demux \<Rightarrow> 's dmxdev \<Rightarrow> nat \<Rightarrow> nat \<Rightarrow> 's dmxdev option" where
  "give_ts intr d c i n =
     (case if intr then None else snd (dvb_dmx_feed_alloc d) of
        None \<Rightarrow> Some c
      | Some t \<Rightarrow> do { c \<leftarrow> set_feed_ts c i n (Some t); Some (c\<lparr>ts_priv := (ts_priv c)(t := None)\<rparr>) })"

text \<open>The \<open>n\<close>-th feed of a filter. A feed that cannot be set or started is released, but the pointer to it stays.\<close>

definition dvb_dmxdev_start_feed ::
  "dev_env \<Rightarrow> 's dmx_driver \<Rightarrow> dvb_demux \<Rightarrow> 's dmxdev \<Rightarrow> nat \<Rightarrow> nat \<Rightarrow> u16 \<Rightarrow> (dvb_demux \<times> 's dmxdev \<times> unit result) option" where
  "dvb_dmxdev_start_feed env drv d c i n pid = do {
     c \<leftarrow> set_feed_ts c i n None;
     f \<leftarrow> get_flt c i;
     para \<leftarrow> (case df_params f of P_pes p \<Rightarrow> Some p | _ \<Rightarrow> None);
     c \<leftarrow> give_ts (signal env (L_alloc n)) d c i n;
     (d, r) \<leftarrow> dvbdmx_allocate_ts_feed (signal env (L_alloc n)) d;
     case r of
       Inl e \<Rightarrow> Some (d, c, Inl e)
     | Inr t \<Rightarrow> do {
         let c = c\<lparr>ts_priv := (ts_priv c)(t := Some i)\<rparr>;
         (d, r) \<leftarrow> dmx_ts_feed_set (signal env (L_set n)) d t pid (ts_feed_type para) (pes_pes_type para);
         case r of
           Inl e \<Rightarrow> do { (d, _) \<leftarrow> dvbdmx_release_ts_feed d t; Some (d, c, Inl e) }
         | Inr _ \<Rightarrow> do {
             (d, c, r) \<leftarrow> dmx_ts_feed_start_filtering (lift_driver drv) (signal env (L_start n)) d c t;
             case r of
               Inl e \<Rightarrow> do { (d, _) \<leftarrow> dvbdmx_release_ts_feed d t; Some (d, c, Inl e) }
             | Inr _ \<Rightarrow> Some (d, c, Inr ())
           }
       }
   }"

text \<open>The timer of a section filter. The product is computed in 32 bits.\<close>

definition timer_expires :: "nat \<Rightarrow> u32 \<Rightarrow> nat \<Rightarrow> nat" where
  "timer_expires hz timeout now = now + 1 + unat ((of_nat (hz div 2) + of_nat hz * timeout :: u32) div 1000)"

definition dvb_dmxdev_filter_timer :: "dev_env \<Rightarrow> dmx_sct_filter_params \<Rightarrow> dmxdev_filter \<Rightarrow> dmxdev_filter" where
  "dvb_dmxdev_filter_timer env para f =
     f\<lparr>df_timer := (if sct_timeout para \<noteq> 0 then Some (timer_expires (HZ env) (sct_timeout para) (jiffies env)) else None)\<rparr>"

definition dvb_dmxdev_filter_timeout :: "dmxdev_filter \<Rightarrow> dmxdev_filter" where
  "dvb_dmxdev_filter_timeout f =
     (set_buffer ((df_buffer f)\<lparr>rb_error := - errno_num ETIMEDOUT\<rparr>) f)\<lparr>df_timer := None, df_state := DMXDEV_STATE_TIMEDOUT\<rparr>"

text \<open>The 16 bytes of a filter of the user around the two bytes of the section length, which no filter looks at.\<close>

definition spread :: "u8 list \<Rightarrow> u8 list \<Rightarrow> u8 list option" where
  "spread old new = do {
     b0 \<leftarrow> mem_get new 0;
     bs \<leftarrow> mem_read new 1 (DMX_FILTER_SIZE - 1);
     xs \<leftarrow> mem_write old 3 bs;
     mem_set xs 0 b0
   }"

definition fill_filter :: "dmx_filter \<Rightarrow> dvb_demux_filter \<Rightarrow> dvb_demux_filter option" where
  "fill_filter p f = do {
     v \<leftarrow> spread (filter_value f) (pf_filter p);
     m \<leftarrow> spread (filter_mask f) (pf_mask p);
     md \<leftarrow> spread (filter_mode f) (pf_mode p);
     m \<leftarrow> mem_set m 1 0;
     m \<leftarrow> mem_set m 2 0;
     Some (f\<lparr>filter_value := v, filter_mask := m, filter_mode := md\<rparr>)
   }"

text \<open>The section feed of a filter: that of another filter with the same PID, which is stopped, or a new one.\<close>

definition find_section_feed ::
  "dev_env \<Rightarrow> 's dmx_driver \<Rightarrow> dvb_demux \<Rightarrow> 's dmxdev \<Rightarrow> nat \<Rightarrow> dmx_sct_filter_params \<Rightarrow> (dvb_demux \<times> 's dmxdev \<times> nat result) option" where
  "find_section_feed env drv d c i para = do {
     f \<leftarrow> get_flt c i;
     let c = put_flt c i (f\<lparr>df_sec := None, df_feed := F_sec None\<rparr>);
     found \<leftarrow>
       (case first_index (live_section (sct_pid para)) (dev_filters c) of
          None \<Rightarrow> Some None
        | Some j \<Rightarrow> do { g \<leftarrow> get_flt c j; case df_feed g of F_sec k \<Rightarrow> Some k | _ \<Rightarrow> None });
     case found of
       Some k \<Rightarrow> do {
         f \<leftarrow> get_flt c i;
         (d, c, _) \<leftarrow> dvb_dmxdev_feed_stop drv d (put_flt c i (f\<lparr>df_feed := F_sec (Some k)\<rparr>)) i;
         Some (d, c, Inr k)
       }
     | None \<Rightarrow> do {
         (d, r) \<leftarrow> dvbdmx_allocate_section_feed (signal env (L_alloc 0)) d;
         case r of
           Inl e \<Rightarrow> Some (d, c, Inl e)
         | Inr k \<Rightarrow> do {
             f \<leftarrow> get_flt c i;
             let c = put_flt c i (f\<lparr>df_feed := F_sec (Some k)\<rparr>);
             (d, r) \<leftarrow> dmx_section_feed_set (signal env (L_set 0)) d k (sct_pid para) (sct_flags para AND DMX_CHECK_CRC \<noteq> 0);
             case r of
               Inl e \<Rightarrow> do { (d, c) \<leftarrow> dvb_dmxdev_feed_restart env drv d c i; Some (d, c, Inl e) }
             | Inr _ \<Rightarrow> Some (d, c, Inr k)
           }
       }
   }"

definition start_section ::
  "dev_env \<Rightarrow> 's dmx_driver \<Rightarrow> dvb_demux \<Rightarrow> 's dmxdev \<Rightarrow> nat \<Rightarrow> dmx_sct_filter_params \<Rightarrow> (dvb_demux \<times> 's dmxdev \<times> unit result) option" where
  "start_section env drv d c i para = do {
     (d, c, r) \<leftarrow> find_section_feed env drv d c i para;
     case r of
       Inl e \<Rightarrow> Some (d, c, Inl e)
     | Inr k \<Rightarrow> do {
         (d, r) \<leftarrow> dmx_section_feed_allocate_filter (signal env L_filter) d k;
         case r of
           Inl e \<Rightarrow> do {
             (d, c) \<leftarrow> dvb_dmxdev_feed_restart env drv d c i;
             (d, c, _) \<leftarrow> dmx_section_feed_start_filtering (lift_driver drv) (signal env (L_start 0)) d c k;
             Some (d, c, Inl e)
           }
         | Inr fk \<Rightarrow> do {
             f \<leftarrow> get_flt c i;
             let c = (put_flt c i (f\<lparr>df_sec := Some fk, df_reader := (df_reader f)\<lparr>sr_todo := 0\<rparr>\<rparr>))\<lparr>flt_priv := (flt_priv c)(fk := Some i)\<rparr>;
             sf \<leftarrow> mem_get (filters d) fk;
             sf \<leftarrow> fill_filter (sct_filter para) sf;
             (d, c, r) \<leftarrow> dmx_section_feed_start_filtering (lift_driver drv) (signal env (L_start 0)) (put_filter d fk sf) c k;
             case r of
               Inl e \<Rightarrow> Some (d, c, Inl e)
             | Inr _ \<Rightarrow> do {
                 f \<leftarrow> get_flt c i;
                 Some (d, put_flt c i (dvb_dmxdev_filter_timer env para f), Inr ())
               }
           }
       }
   }"

text \<open>When a feed of a PES filter fails the filter is to be stopped; its state is not yet that of a running one.\<close>

fun start_pids ::
  "dev_env \<Rightarrow> 's dmx_driver \<Rightarrow> dvb_demux \<Rightarrow> 's dmxdev \<Rightarrow> nat \<Rightarrow> nat \<Rightarrow> u16 list \<Rightarrow> (dvb_demux \<times> 's dmxdev \<times> unit result) option" where
  "start_pids env drv d c i n [] = Some (d, c, Inr ())"
| "start_pids env drv d c i n (pid # ps) = do {
     (d, c, r) \<leftarrow> dvb_dmxdev_start_feed env drv d c i n pid;
     case r of
       Inl e \<Rightarrow> do { (d, c, _) \<leftarrow> dvb_dmxdev_filter_stop env drv d c i; Some (d, c, Inl e) }
     | Inr _ \<Rightarrow> start_pids env drv d c i (n + 1) ps
   }"

definition alloc_buffer :: "dev_env \<Rightarrow> 's dmxdev \<Rightarrow> nat \<Rightarrow> ('s dmxdev \<times> unit result) option" where
  "alloc_buffer env c i = do {
     f \<leftarrow> get_flt c i;
     if rb_data (df_buffer f) \<noteq> [] then Some (c, Inr ())
     else case vmalloc env (rb_size (df_buffer f)) of
       None \<Rightarrow> Some (c, Inl ENOMEM)
     | Some mem \<Rightarrow> Some (put_flt c i (set_buffer ((df_buffer f)\<lparr>rb_data := mem\<rparr>) f), Inr ())
   }"

definition dvb_dmxdev_filter_start :: "dev_env \<Rightarrow> 's dmx_driver \<Rightarrow> dvb_demux \<Rightarrow> 's dmxdev \<Rightarrow> nat \<Rightarrow> (dvb_demux \<times> 's dmxdev \<times> unit result) option" where
  "dvb_dmxdev_filter_start env drv d c i = do {
     f \<leftarrow> get_flt c i;
     if df_state f < DMXDEV_STATE_SET then Some (d, c, Inl EINVAL)
     else do {
       (d, c, _) \<leftarrow> (if df_state f \<ge> DMXDEV_STATE_GO then dvb_dmxdev_filter_stop env drv d c i else Some (d, c, Inr ()));
       (c, r) \<leftarrow> alloc_buffer env c i;
       case r of
         Inl e \<Rightarrow> Some (d, c, Inl e)
       | Inr _ \<Rightarrow> do {
           c \<leftarrow> flush_filter c i;
           f \<leftarrow> get_flt c i;
           (d, c, r) \<leftarrow>
             (case df_type f of
                DMXDEV_TYPE_SEC \<Rightarrow> (case df_params f of P_sec para \<Rightarrow> start_section env drv d c i para | _ \<Rightarrow> None)
              | DMXDEV_TYPE_PES \<Rightarrow> (case df_feed f of F_ts fds \<Rightarrow> start_pids env drv d c i 0 (map df_pid fds) | _ \<Rightarrow> None)
              | DMXDEV_TYPE_NONE \<Rightarrow> Some (d, c, Inl EINVAL));
           case r of
             Inl e \<Rightarrow> Some (d, c, Inl e)
           | Inr _ \<Rightarrow> do { c \<leftarrow> dvb_dmxdev_filter_state_set c i DMXDEV_STATE_GO; Some (d, c, Inr ()) }
         }
     }
   }"

section \<open>The filters of a file\<close>

definition invert_mode :: "dmx_filter \<Rightarrow> dmx_filter option" where
  "invert_mode p = do { bs \<leftarrow> mem_read (pf_mode p) 0 DMX_FILTER_SIZE; md \<leftarrow> mem_write (pf_mode p) 0 (map (\<lambda>b. b XOR 0xff) bs); Some (p\<lparr>pf_mode := md\<rparr>) }"

text \<open>A new PID is put in front of the list.\<close>

definition dvb_dmxdev_add_pid ::
  "dev_env \<Rightarrow> 's dmx_driver \<Rightarrow> dvb_demux \<Rightarrow> 's dmxdev \<Rightarrow> nat \<Rightarrow> u16 \<Rightarrow> (dvb_demux \<times> 's dmxdev \<times> unit result) option" where
  "dvb_dmxdev_add_pid env drv d c i pid = do {
     f \<leftarrow> get_flt c i;
     if df_type f \<noteq> DMXDEV_TYPE_PES \<or> df_state f < DMXDEV_STATE_SET then Some (d, c, Inl EINVAL)
     else do {
       para \<leftarrow> (case df_params f of P_pes p \<Rightarrow> Some p | _ \<Rightarrow> None);
       fds \<leftarrow> (case df_feed f of F_ts fds \<Rightarrow> Some fds | _ \<Rightarrow> None);
       if pes_output para \<noteq> DMX_OUT_TSDEMUX_TAP \<and> fds \<noteq> [] then Some (d, c, Inl EINVAL)
       else if \<not> kzalloc env then Some (d, c, Inl ENOMEM)
       else
         let c = put_flt c i (f\<lparr>df_feed := F_ts (\<lparr>df_pid = pid, df_ts = None\<rparr> # fds)\<rparr>) in
         if df_state f \<ge> DMXDEV_STATE_GO then dvb_dmxdev_start_feed env drv d c i 0 pid else Some (d, c, Inr ())
     }
   }"

fun remove_feeds :: "'s dmx_driver \<Rightarrow> dvb_demux \<Rightarrow> 's dmxdev \<Rightarrow> u16 \<Rightarrow> dmxdev_feed list \<Rightarrow> (dvb_demux \<times> 's dmxdev \<times> dmxdev_feed list) option" where
  "remove_feeds drv d c pid [] = Some (d, c, [])"
| "remove_feeds drv d c pid (fd # fds) =
     (case df_ts fd of
        Some t \<Rightarrow>
          if df_pid fd = pid then do {
            (d, c, _) \<leftarrow> dmx_ts_feed_stop_filtering (lift_driver drv) d c t;
            (d, _) \<leftarrow> dvbdmx_release_ts_feed d t;
            remove_feeds drv d c pid fds
          } else map_option (\<lambda>(d, c, fds). (d, c, fd # fds)) (remove_feeds drv d c pid fds)
      | None \<Rightarrow> map_option (\<lambda>(d, c, fds). (d, c, fd # fds)) (remove_feeds drv d c pid fds))"

definition dvb_dmxdev_remove_pid :: "'s dmx_driver \<Rightarrow> dvb_demux \<Rightarrow> 's dmxdev \<Rightarrow> nat \<Rightarrow> u16 \<Rightarrow> (dvb_demux \<times> 's dmxdev \<times> unit result) option" where
  "dvb_dmxdev_remove_pid drv d c i pid = do {
     f \<leftarrow> get_flt c i;
     if df_type f \<noteq> DMXDEV_TYPE_PES \<or> df_state f < DMXDEV_STATE_SET then Some (d, c, Inl EINVAL)
     else case df_feed f of
       F_ts fds \<Rightarrow> do {
         (d, c, fds) \<leftarrow> remove_feeds drv d c pid fds;
         f \<leftarrow> get_flt c i;
         Some (d, put_flt c i (f\<lparr>df_feed := F_ts fds\<rparr>), Inr ())
       }
     | _ \<Rightarrow> None
   }"

definition dvb_dmxdev_filter_set ::
  "dev_env \<Rightarrow> 's dmx_driver \<Rightarrow> dvb_demux \<Rightarrow> 's dmxdev \<Rightarrow> nat \<Rightarrow> dmx_sct_filter_params \<Rightarrow> (dvb_demux \<times> 's dmxdev \<times> unit result) option" where
  "dvb_dmxdev_filter_set env drv d c i params = do {
     (d, c, _) \<leftarrow> dvb_dmxdev_filter_stop env drv d c i;
     p \<leftarrow> invert_mode (sct_filter params);
     f \<leftarrow> get_flt c i;
     c \<leftarrow> dvb_dmxdev_filter_state_set (put_flt c i (f\<lparr>df_type := DMXDEV_TYPE_SEC, df_params := P_sec (params\<lparr>sct_filter := p\<rparr>)\<rparr>)) i DMXDEV_STATE_SET;
     if sct_flags params AND DMX_IMMEDIATE_START \<noteq> 0 then dvb_dmxdev_filter_start env drv d c i else Some (d, c, Inr ())
   }"

definition dvb_dmxdev_pes_filter_set ::
  "dev_env \<Rightarrow> 's dmx_driver \<Rightarrow> dvb_demux \<Rightarrow> 's dmxdev \<Rightarrow> nat \<Rightarrow> dmx_pes_filter_params \<Rightarrow> (dvb_demux \<times> 's dmxdev \<times> unit result) option" where
  "dvb_dmxdev_pes_filter_set env drv d c i params = do {
     (d, c, _) \<leftarrow> dvb_dmxdev_filter_stop env drv d c i;
     c \<leftarrow> dvb_dmxdev_filter_reset c i;
     if pes_pes_type params > DMX_PES_OTHER then Some (d, c, Inl EINVAL)
     else do {
       f \<leftarrow> get_flt c i;
       c \<leftarrow> dvb_dmxdev_filter_state_set (put_flt c i (f\<lparr>df_type := DMXDEV_TYPE_PES, df_params := P_pes params, df_feed := F_ts []\<rparr>)) i DMXDEV_STATE_SET;
       (d, c, r) \<leftarrow> dvb_dmxdev_add_pid env drv d c i (pes_pid params);
       case r of
         Inl e \<Rightarrow> Some (d, c, Inl e)
       | Inr _ \<Rightarrow> if pes_flags params AND DMX_IMMEDIATE_START \<noteq> 0 then dvb_dmxdev_filter_start env drv d c i else Some (d, c, Inr ())
     }
   }"

definition dvb_dmxdev_set_buffer_size :: "dev_env \<Rightarrow> 's dmxdev \<Rightarrow> nat \<Rightarrow> nat \<Rightarrow> ('s dmxdev \<times> unit result) option" where
  "dvb_dmxdev_set_buffer_size env c i n = do {
     f \<leftarrow> get_flt c i;
     if rb_size (df_buffer f) = n then Some (c, Inr ())
     else if n = 0 then Some (c, Inl EINVAL)
     else if df_state f \<ge> DMXDEV_STATE_GO then Some (c, Inl EBUSY)
     else case vmalloc env n of
       None \<Rightarrow> Some (c, Inl ENOMEM)
     | Some mem \<Rightarrow> Some (put_flt c i (set_buffer (dvb_ringbuffer_reset ((df_buffer f)\<lparr>rb_data := mem, rb_size := n\<rparr>)) f), Inr ())
   }"

section \<open>The demux device\<close>

text \<open>The file gets the filter with the index that is the result.\<close>

definition dvb_demux_open :: "dev_env \<Rightarrow> 's dmxdev \<Rightarrow> ('s dmxdev \<times> nat result) option" where
  "dvb_demux_open env c =
     (if dev_filters c = [] then Some (c, Inl EINVAL)
      else if signal env L_dev then Some (c, Inl ERESTARTSYS)
      else case first_index (\<lambda>f. df_state f = DMXDEV_STATE_FREE) (dev_filters c) of
        None \<Rightarrow> Some (c, Inl EMFILE)
      | Some i \<Rightarrow> do {
          f \<leftarrow> get_flt c i;
          c \<leftarrow> dvb_dmxdev_filter_state_set
            (put_flt c i (set_buffer \<lparr>rb_data = [], rb_size = 8192, pread = 0, pwrite = 0, rb_error = 0\<rparr> (f\<lparr>df_type := DMXDEV_TYPE_NONE\<rparr>)))
            i DMXDEV_STATE_ALLOCATED;
          f \<leftarrow> get_flt c i;
          Some ((put_flt c i (f\<lparr>df_timer := None\<rparr>))\<lparr>demux_users := demux_users c + 1\<rparr>, Inr i)
        })"

definition dvb_dmxdev_filter_free :: "dev_env \<Rightarrow> 's dmx_driver \<Rightarrow> dvb_demux \<Rightarrow> 's dmxdev \<Rightarrow> nat \<Rightarrow> (dvb_demux \<times> 's dmxdev) option" where
  "dvb_dmxdev_filter_free env drv d c i = do {
     (d, c, _) \<leftarrow> dvb_dmxdev_filter_stop env drv d c i;
     c \<leftarrow> dvb_dmxdev_filter_reset c i;
     f \<leftarrow> get_flt c i;
     c \<leftarrow> dvb_dmxdev_filter_state_set (put_flt c i (set_buffer ((df_buffer f)\<lparr>rb_data := []\<rparr>) f)) i DMXDEV_STATE_FREE;
     Some (d, c)
   }"

definition dvb_demux_release :: "dev_env \<Rightarrow> 's dmx_driver \<Rightarrow> dvb_demux \<Rightarrow> 's dmxdev \<Rightarrow> nat \<Rightarrow> (dvb_demux \<times> 's dmxdev) option" where
  "dvb_demux_release env drv d c i = do {
     (d, c) \<leftarrow> dvb_dmxdev_filter_free env drv d c i;
     Some (d, c\<lparr>demux_users := demux_users c - 1\<rparr>)
   }"

definition dvb_demux_read ::
  "dev_env \<Rightarrow> bool \<Rightarrow> (nat \<Rightarrow> nat \<Rightarrow> nat) \<Rightarrow> (u8 list \<Rightarrow> bool \<times> u8 list) \<Rightarrow> wake list \<Rightarrow> 's dmxdev \<Rightarrow> nat \<Rightarrow> nat \<Rightarrow> ('s dmxdev \<times> (u8 list \<times> int) option) option" where
  "dvb_demux_read env non_blocking ctu cfu waits c i count =
     (if signal env L_file then Some (c, Some ([], - errno_num ERESTARTSYS))
      else do {
        f \<leftarrow> get_flt c i;
        (f, r) \<leftarrow>
          (if df_type f = DMXDEV_TYPE_SEC then do {
             (rd, r) \<leftarrow> dvb_dmxdev_read_sec non_blocking ctu cfu waits (df_reader f) count;
             Some (f\<lparr>df_reader := rd\<rparr>, r)
           } else do {
             (rb, _, r) \<leftarrow> dvb_dmxdev_buffer_read non_blocking ctu waits (df_buffer f) count;
             Some (set_buffer rb f, r)
           });
        Some (put_flt c i f, r)
      })"

datatype dmx_ioctl =
    DMX_START | DMX_STOP | DMX_SET_FILTER dmx_sct_filter_params | DMX_SET_PES_FILTER dmx_pes_filter_params | DMX_SET_BUFFER_SIZE nat
  | DMX_GET_PES_PIDS | DMX_GET_STC nat | DMX_ADD_PID u16 | DMX_REMOVE_PID u16 | DMX_OTHER

text \<open>
  Getting the PIDs and the system time changes nothing; \<open>stc\<close> is the function of a full-featured card. The commands that lock the file can be interrupted a
  second time.
\<close>

fun locks_file :: "dmx_ioctl \<Rightarrow> bool" where
  "locks_file DMX_GET_PES_PIDS = False" | "locks_file (DMX_GET_STC _) = False" | "locks_file DMX_OTHER = False" | "locks_file _ = True"

fun demux_command ::
  "dev_env \<Rightarrow> 's dmx_driver \<Rightarrow> (nat \<Rightarrow> unit result) option \<Rightarrow> dvb_demux \<Rightarrow> 's dmxdev \<Rightarrow> nat \<Rightarrow> dmx_ioctl \<Rightarrow> (dvb_demux \<times> 's dmxdev \<times> unit result) option" where
  "demux_command env drv stc d c i DMX_START = do {
     f \<leftarrow> get_flt c i;
     if df_state f < DMXDEV_STATE_SET then Some (d, c, Inl EINVAL) else dvb_dmxdev_filter_start env drv d c i
   }"
| "demux_command env drv stc d c i DMX_STOP = dvb_dmxdev_filter_stop env drv d c i"
| "demux_command env drv stc d c i (DMX_SET_FILTER params) = dvb_dmxdev_filter_set env drv d c i params"
| "demux_command env drv stc d c i (DMX_SET_PES_FILTER params) = dvb_dmxdev_pes_filter_set env drv d c i params"
| "demux_command env drv stc d c i (DMX_SET_BUFFER_SIZE n) = map_option (\<lambda>(c, r). (d, c, r)) (dvb_dmxdev_set_buffer_size env c i n)"
| "demux_command env drv stc d c i DMX_GET_PES_PIDS = map_option (\<lambda>_. (d, c, Inr ())) (dvbdmx_get_pes_pids d)"
| "demux_command env drv stc d c i (DMX_GET_STC n) = Some (d, c, case stc of None \<Rightarrow> Inl EINVAL | Some get \<Rightarrow> get n)"
| "demux_command env drv stc d c i (DMX_ADD_PID pid) = dvb_dmxdev_add_pid env drv d c i pid"
| "demux_command env drv stc d c i (DMX_REMOVE_PID pid) = dvb_dmxdev_remove_pid drv d c i pid"
| "demux_command env drv stc d c i DMX_OTHER = Some (d, c, Inl ENOTTY)"

definition dvb_demux_do_ioctl ::
  "dev_env \<Rightarrow> 's dmx_driver \<Rightarrow> (nat \<Rightarrow> unit result) option \<Rightarrow> dvb_demux \<Rightarrow> 's dmxdev \<Rightarrow> nat \<Rightarrow> dmx_ioctl \<Rightarrow> (dvb_demux \<times> 's dmxdev \<times> unit result) option" where
  "dvb_demux_do_ioctl env drv stc d c i cmd =
     (if signal env L_dev \<or> locks_file cmd \<and> signal env L_file then Some (d, c, Inl ERESTARTSYS)
      else demux_command env drv stc d c i cmd)"

definition EPOLLIN :: u32 where "EPOLLIN = 1"
definition EPOLLPRI :: u32 where "EPOLLPRI = 2"
definition EPOLLOUT :: u32 where "EPOLLOUT = 4"
definition EPOLLERR :: u32 where "EPOLLERR = 8"
definition EPOLLRDNORM :: u32 where "EPOLLRDNORM = 0x40"
definition EPOLLWRNORM :: u32 where "EPOLLWRNORM = 0x100"

definition buffer_mask :: "dvb_ringbuffer \<Rightarrow> u32" where
  "buffer_mask rb =
     (if rb_error rb \<noteq> 0 then EPOLLIN OR EPOLLRDNORM OR EPOLLPRI OR EPOLLERR else 0) OR
     (if \<not> dvb_ringbuffer_empty rb then EPOLLIN OR EPOLLRDNORM OR EPOLLPRI else 0)"

definition dvb_demux_poll :: "'s dmxdev \<Rightarrow> nat \<Rightarrow> u32 option" where
  "dvb_demux_poll c i = do {
     f \<leftarrow> get_flt c i;
     Some (if dev_exit c then EPOLLERR
           else if df_state f \<noteq> DMXDEV_STATE_GO \<and> df_state f \<noteq> DMXDEV_STATE_DONE \<and> df_state f \<noteq> DMXDEV_STATE_TIMEDOUT then 0
           else buffer_mask (df_buffer f))
   }"

section \<open>The DVR device\<close>

datatype accmode = O_RDONLY | O_WRONLY | O_RDWR

definition get_fe :: "(nat \<Rightarrow> dmx_frontend_source) \<Rightarrow> dvb_demux \<Rightarrow> dmx_frontend_source \<Rightarrow> nat option" where
  "get_fe sources d type = (case dvbdmx_get_frontends d of None \<Rightarrow> None | Some fes \<Rightarrow> find (\<lambda>fe. sources fe = type) fes)"

definition open_reader :: "dev_env \<Rightarrow> 's dmxdev \<Rightarrow> 's dmxdev \<times> unit result" where
  "open_reader env c =
     (if dvr_readers c = 0 then (c, Inl EBUSY)
      else case vmalloc env DVR_BUFFER_SIZE of
        None \<Rightarrow> (c, Inl ENOMEM)
      | Some mem \<Rightarrow> (c\<lparr>dvr_buffer := dvb_ringbuffer_init mem, dvr_readers := dvr_readers c - 1\<rparr>, Inr ()))"

definition open_writer :: "(nat \<Rightarrow> dmx_frontend_source) \<Rightarrow> dvb_demux \<Rightarrow> 's dmxdev \<Rightarrow> dvb_demux \<times> 's dmxdev \<times> unit result" where
  "open_writer sources d c =
     (let c = c\<lparr>dvr_orig_fe := frontend d\<rparr> in
      case get_fe sources d DMX_MEMORY_FE of
        None \<Rightarrow> (d, c, Inl EINVAL)
      | Some fe \<Rightarrow> (fst (dvbdmx_connect_frontend (fst (dvbdmx_disconnect_frontend d)) fe), c, Inr ()))"

definition dvb_dvr_open ::
  "dev_env \<Rightarrow> (nat \<Rightarrow> dmx_frontend_source) \<Rightarrow> accmode \<Rightarrow> dvb_demux \<Rightarrow> 's dmxdev \<Rightarrow> dvb_demux \<times> 's dmxdev \<times> unit result" where
  "dvb_dvr_open env sources mode d c =
     (if signal env L_dev then (d, c, Inl ERESTARTSYS)
      else if dev_exit c then (d, c, Inl ENODEV)
      else
        let (d, c, r) =
          (case mode of
             O_RDONLY \<Rightarrow> let (c, r) = open_reader env c in (d, c, r)
           | O_RDWR \<Rightarrow> if dev_duplex c then (d, c, Inr ()) else (d, c, Inl EOPNOTSUPP)
           | O_WRONLY \<Rightarrow> open_writer sources d c)
        in case r of Inl e \<Rightarrow> (d, c, Inl e) | Inr _ \<Rightarrow> (d, c\<lparr>dvr_users := dvr_users c + 1\<rparr>, Inr ()))"

text \<open>The frontend that is connected again may be no frontend at all.\<close>

definition connect_original :: "dvb_demux \<Rightarrow> nat option \<Rightarrow> dvb_demux" where
  "connect_original d fe = (if frontend d \<noteq> None then d else d\<lparr>frontend := fe\<rparr>)"

definition dvb_dvr_release :: "accmode \<Rightarrow> dvb_demux \<Rightarrow> 's dmxdev \<Rightarrow> dvb_demux \<times> 's dmxdev" where
  "dvb_dvr_release mode d c =
     (let d = (if mode = O_WRONLY then connect_original (fst (dvbdmx_disconnect_frontend d)) (dvr_orig_fe c) else d);
          c = (if mode = O_RDONLY then c\<lparr>dvr_readers := dvr_readers c + 1, dvr_buffer := (dvr_buffer c)\<lparr>rb_data := []\<rparr>\<rparr> else c)
      in (d, c\<lparr>dvr_users := dvr_users c - 1\<rparr>))"

definition dvb_dvr_write ::
  "dmx_opts \<Rightarrow> 's dmxdev dmx_env \<Rightarrow> dev_env \<Rightarrow> (nat \<Rightarrow> dmx_frontend_source) \<Rightarrow> bool \<Rightarrow> accmode \<Rightarrow> dvb_demux \<Rightarrow> 's dmxdev \<Rightarrow> u8 list result \<Rightarrow>
   (dvb_demux \<times> 's dmxdev \<times> nat result) option" where
  "dvb_dvr_write opts cbs env sources pending mode d c ubuf =
     (if mode \<noteq> O_WRONLY then Some (d, c, Inl EINVAL)
      else if signal env L_dev then Some (d, c, Inl ERESTARTSYS)
      else if dev_exit c then Some (d, c, Inl ENODEV)
      else dvbdmx_write opts cbs sources (signal env L_file) pending d c ubuf)"

definition dvb_dvr_read ::
  "bool \<Rightarrow> (nat \<Rightarrow> nat \<Rightarrow> nat) \<Rightarrow> wake list \<Rightarrow> 's dmxdev \<Rightarrow> nat \<Rightarrow> ('s dmxdev \<times> (u8 list \<times> int) option) option" where
  "dvb_dvr_read non_blocking ctu waits c count =
     (if dev_exit c then Some (c, Some ([], - errno_num ENODEV))
      else map_option (\<lambda>(rb, _, r). (c\<lparr>dvr_buffer := rb\<rparr>, r)) (dvb_dmxdev_buffer_read non_blocking ctu waits (dvr_buffer c) count))"

definition dvb_dvr_set_buffer_size :: "dev_env \<Rightarrow> 's dmxdev \<Rightarrow> nat \<Rightarrow> 's dmxdev \<times> unit result" where
  "dvb_dvr_set_buffer_size env c n =
     (if rb_size (dvr_buffer c) = n then (c, Inr ())
      else if n = 0 then (c, Inl EINVAL)
      else case vmalloc env n of
        None \<Rightarrow> (c, Inl ENOMEM)
      | Some mem \<Rightarrow> (c\<lparr>dvr_buffer := dvb_ringbuffer_reset ((dvr_buffer c)\<lparr>rb_data := mem, rb_size := n\<rparr>)\<rparr>, Inr ()))"

definition dvb_dvr_do_ioctl :: "dev_env \<Rightarrow> 's dmxdev \<Rightarrow> dmx_ioctl \<Rightarrow> 's dmxdev \<times> unit result" where
  "dvb_dvr_do_ioctl env c cmd =
     (if signal env L_dev then (c, Inl ERESTARTSYS)
      else case cmd of DMX_SET_BUFFER_SIZE n \<Rightarrow> dvb_dvr_set_buffer_size env c n | _ \<Rightarrow> (c, Inl ENOTTY))"

definition dvb_dvr_poll :: "accmode \<Rightarrow> 's dmxdev \<Rightarrow> u32" where
  "dvb_dvr_poll mode c =
     (if dev_exit c then EPOLLERR
      else if mode = O_RDONLY then buffer_mask (dvr_buffer c)
      else EPOLLOUT OR EPOLLWRNORM OR EPOLLPRI)"

section \<open>The device comes and goes\<close>

text \<open>The memory of the filters is what \<^verbatim>\<open>vmalloc\<close> gives.\<close>

definition dvb_dmxdev_init :: "dvb_demux \<Rightarrow> 's dmxdev \<Rightarrow> dmxdev_filter list option \<Rightarrow> dvb_demux \<times> 's dmxdev \<times> unit result" where
  "dvb_dmxdev_init d c mem =
     (case dvbdmx_open d of
        (d, Inl _) \<Rightarrow> (d, c, Inl EUSERS)
      | (d, Inr _) \<Rightarrow>
          (case mem of
             None \<Rightarrow> (d, c\<lparr>dev_filters := []\<rparr>, Inl ENOMEM)
           | Some fs \<Rightarrow>
               (d, c\<lparr>dev_filters := map (\<lambda>f. (set_buffer ((df_buffer f)\<lparr>rb_data := []\<rparr>) f)\<lparr>df_state := DMXDEV_STATE_FREE\<rparr>) fs,
                     demux_users := 1, dvr_users := 1, dvr_readers := 1,
                     dvr_buffer := \<lparr>rb_data = [], rb_size = 8192, pread = 0, pwrite = 0, rb_error = 0\<rparr>\<rparr>, Inr ())))"

text \<open>The release first forbids new users and then waits until the present ones have gone; \<^const>\<open>None\<close> while it waits.\<close>

definition dvb_dmxdev_exit :: "'s dmxdev \<Rightarrow> 's dmxdev" where
  "dvb_dmxdev_exit c = c\<lparr>dev_exit := True\<rparr>"

definition dvb_dmxdev_release :: "dvb_demux \<Rightarrow> 's dmxdev \<Rightarrow> (dvb_demux \<times> 's dmxdev) option" where
  "dvb_dmxdev_release d c =
     (if demux_users c > 1 \<or> dvr_users c > 1 then None else Some (fst (dvbdmx_close d), c\<lparr>dev_filters := []\<rparr>))"

end
