(* ===== verification/Dvb_Dmxdev_Calls.thy ===== *)
theory Dvb_Dmxdev_Calls
  imports Dvb_Dmxdev
begin

text \<open>
  What the calls of the demux device and of the DVR device leave behind: the frontend after a program has written a stream, the feeds of a filter for PES
  packets that could not be started, and a section filter that was to run once.
\<close>

section \<open>The frontend\<close>

lemma check_counter_frontend: "check_counter buf pid d = Some d' \<Longrightarrow> frontend d' = frontend d"
  unfolding check_counter_def Let_def by (auto simp: bind_eq_Some_conv split: option.splits if_splits)

lemma swfilter_packet_frontend:
  assumes "dvb_dmx_swfilter_packet opts env d c p = Some (d', c')"
  shows "frontend d' = frontend d"
  using assms check_counter_frontend [of p _ d]
  unfolding dvb_dmx_swfilter_packet_def by (fastforce simp: bind_eq_Some_conv split: if_splits)

lemma swfilter_loop_frontend:
  "swfilter_loop fmt opts env d c buf p count = Some (d', c', q) \<Longrightarrow> frontend d' = frontend d"
proof (induction fmt opts env d c buf p count rule: swfilter_loop.induct)
  case (1 fmt opts env d c buf p count)
  obtain p' where p': "find_next_packet fmt buf p count = Some p'"
    using "1.prems" by (subst (asm) swfilter_loop.simps) (auto simp: bind_eq_Some_conv)
  show ?case
  proof (cases "p' \<ge> count \<or> count - p' < pktsize fmt")
    case True
    with "1.prems" p' show ?thesis by (subst (asm) swfilter_loop.simps) auto
  next
    case False
    obtain x where x: "mem_read buf p' 188 = Some x"
      using "1.prems" p' False by (subst (asm) swfilter_loop.simps) (auto simp: bind_eq_Some_conv)
    let ?pick = "if pktsize fmt = 204 \<and> x ! 0 = 0xb8 then do {
            ts \<leftarrow> mem_write (tsbuf d) 0 x;
            ts \<leftarrow> mem_set ts 0 0x47;
            Some (d\<lparr>tsbuf := ts\<rparr>, take 188 ts)
          } else Some (d, x)"
    obtain d1 q1 where pick: "?pick = Some (d1, q1)"
      using "1.prems" p' False x by (subst (asm) swfilter_loop.simps) (auto simp: bind_eq_Some_conv simp del: split_paired_Ex)
    have f1: "frontend d1 = frontend d" using pick by (auto simp: bind_eq_Some_conv split: if_splits)
    obtain d2 c2 where pk: "dvb_dmx_swfilter_packet opts env d1 c q1 = Some (d2, c2)"
      and rest: "swfilter_loop fmt opts env d2 c2 buf (p' + pktsize fmt) count = Some (d', c', q)"
      using "1.prems" p' False x pick by (subst (asm) swfilter_loop.simps) (auto simp: bind_eq_Some_conv)
    from "1.IH" [OF p' False x pick refl pk refl rest] f1 swfilter_packet_frontend [OF pk] show ?thesis by simp
  qed
qed

lemma swfilter_frontend:
  assumes "dvb_dmx_swfilter opts env d c buf count = Some (d', c')"
  shows "frontend d' = frontend d"
  using assms
  by (auto simp: dvb_dmx_swfilter_def dvb_dmx_swfilter_fmt_def Let_def bind_eq_Some_conv dest!: swfilter_loop_frontend swfilter_packet_frontend split: if_splits)

section \<open>Properties of the DVR device\<close>

text \<open>
  C5: Playing back a stream. When a program has opened the DVR device for writing, what it writes goes to the filter of the demux exactly as if it
  came from the hardware, the frontend that is connected does not change, and when the program closes the device the frontend that was connected before it came
  is connected again.
\<close>

theorem dvr_playback:
  assumes "dvb_dvr_open env sources O_WRONLY d c = (d1, c1, Inr ())" "\<forall>l. \<not> signal env l"
    and "frontend d2 = frontend d1" "dvr_orig_fe c2 = dvr_orig_fe c1" "\<not> dev_exit c2"
  shows "dvb_dvr_write opts cbs env sources False O_WRONLY d2 c2 (Inr p) =
      map_option (\<lambda>(d3, c3). (d3, c3, Inr (length p))) (dvb_dmx_swfilter opts cbs d2 c2 p (length p)) \<and>
    (\<forall>d3 c3 r. dvb_dvr_write opts cbs env sources False O_WRONLY d2 c2 (Inr p) = Some (d3, c3, r) \<longrightarrow> frontend d3 = frontend d1) \<and>
    frontend (fst (dvb_dvr_release O_WRONLY d2 c2)) = frontend d"
proof -
  obtain fe where fe: "get_fe sources d DMX_MEMORY_FE = Some fe" "frontend d1 = Some fe" "dvr_orig_fe c1 = frontend d"
    using assms(1,2) by (auto simp: dvb_dvr_open_def open_writer_def Let_def dvbdmx_connect_frontend_def dvbdmx_disconnect_frontend_def
        split: if_splits option.splits sum.splits)
  have mem: "sources fe = DMX_MEMORY_FE" using fe(1) by (auto simp: get_fe_def find_Some_iff split: option.splits)
  have w: "dvb_dvr_write opts cbs env sources False O_WRONLY d2 c2 (Inr p) =
      map_option (\<lambda>(d3, c3). (d3, c3, Inr (length p))) (dvb_dmx_swfilter opts cbs d2 c2 p (length p))"
    using assms(2,3,5) fe(2) mem by (cases "dvb_dmx_swfilter opts cbs d2 c2 p (length p)") (auto simp: dvb_dvr_write_def dvbdmx_write_def)
  then have "\<forall>d3 c3 r. dvb_dvr_write opts cbs env sources False O_WRONLY d2 c2 (Inr p) = Some (d3, c3, r) \<longrightarrow> frontend d3 = frontend d1"
    using assms(3) by (auto dest: swfilter_frontend)
  moreover have "frontend (fst (dvb_dvr_release O_WRONLY d2 c2)) = frontend d"
    using assms(4) fe(3) by (simp add: dvb_dvr_release_def connect_original_def dvbdmx_disconnect_frontend_def Let_def)
  ultimately show ?thesis using w by blast
qed

text \<open>
  Two programs that write to the DVR device lose the frontend: the second \<^verbatim>\<open>open\<close> remembers the frontend of the first one as the original one, so that
  after both have closed the device, the demux is connected to the memory and no longer to the frontend that it had.
\<close>

theorem dvr_two_writers:
  assumes "dvb_dvr_open env sources O_WRONLY d c = (d1, c1, Inr ())" "dvb_dvr_open env sources O_WRONLY d1 c1 = (d2, c2, Inr ())"
    and "dvb_dvr_release O_WRONLY d2 c2 = (d3, c3)" "dvb_dvr_release O_WRONLY d3 c3 = (d4, c4)"
  shows "\<exists>fe. frontend d4 = Some fe \<and> sources fe = DMX_MEMORY_FE \<and> dvr_users c4 = dvr_users c"
proof -
  obtain fe where fe: "get_fe sources d DMX_MEMORY_FE = Some fe" "frontend d1 = Some fe" "frontend_list d1 = frontend_list d" "dvr_users c1 = dvr_users c + 1"
    using assms(1) by (auto simp: dvb_dvr_open_def open_writer_def Let_def dvbdmx_connect_frontend_def dvbdmx_disconnect_frontend_def
        split: if_splits option.splits sum.splits)
  have c2: "dvr_orig_fe c2 = Some fe" "dvr_users c2 = dvr_users c + 2"
    using assms(2) fe by (auto simp: dvb_dvr_open_def open_writer_def Let_def split: if_splits option.splits sum.splits)
  have c3: "dvr_orig_fe c3 = Some fe" "dvr_users c3 = dvr_users c + 1"
    using assms(3) c2 by (auto simp: dvb_dvr_release_def Let_def)
  have "sources fe = DMX_MEMORY_FE" using fe(1) by (auto simp: get_fe_def find_Some_iff split: option.splits)
  moreover have "frontend d4 = Some fe" "dvr_users c4 = dvr_users c"
    using assms(4) c3 by (auto simp: dvb_dvr_release_def Let_def connect_original_def dvbdmx_disconnect_frontend_def)
  ultimately show ?thesis by blast
qed

section \<open>What the driver may change\<close>

lemma ts_start_hw: "dmx_ts_feed_start_filtering (lift_driver drv) intr d c t = Some (d', c', r) \<Longrightarrow> c' = c\<lparr>hw := hw c'\<rparr>"
  by (auto simp: dmx_ts_feed_start_filtering_def lift_driver_def on_hw_def bind_eq_Some_conv Let_def
      split: if_splits option.splits prod.splits sum.splits)

lemma section_start_hw: "dmx_section_feed_start_filtering (lift_driver drv) intr d c k = Some (d', c', r) \<Longrightarrow> c' = c\<lparr>hw := hw c'\<rparr>"
  by (auto simp: dmx_section_feed_start_filtering_def lift_driver_def on_hw_def Let_def
      split: if_splits option.splits prod.splits sum.splits bind_splits)

lemma section_stop_hw: "dmx_section_feed_stop_filtering (lift_driver drv) d c k = Some (d', c', r) \<Longrightarrow> c' = c\<lparr>hw := hw c'\<rparr>"
  by (auto simp: dmx_section_feed_stop_filtering_def lift_driver_def on_hw_def Let_def
      split: if_splits option.splits prod.splits sum.splits bind_splits)

lemma section_release_hw:
  assumes "dmx_section_feed_release_filter (lift_driver drv) d c k fk = Some (d', c', r)"
  shows "c' = c\<lparr>hw := hw c'\<rparr>"
  using assms by (auto simp: dmx_section_feed_release_filter_def Let_def dest!: section_stop_hw
      split: if_splits option.splits prod.splits sum.splits bind_splits)

section \<open>A filter for PES packets that is not started yet\<close>

definition pes_set :: "'s dmxdev \<Rightarrow> nat \<Rightarrow> bool" where
  "pes_set c i \<longleftrightarrow> i < length (dev_filters c) \<and> df_type (dev_filters c ! i) = DMXDEV_TYPE_PES \<and> df_state (dev_filters c ! i) = DMXDEV_STATE_SET \<and>
     (\<exists>fds. df_feed (dev_filters c ! i) = F_ts fds)"

lemma pes_set_priv: "pes_set (c\<lparr>ts_priv := p\<rparr>) i \<longleftrightarrow> pes_set c i"
  by (simp add: pes_set_def)

lemma set_feed_ts_set: "set_feed_ts c i n t = Some c' \<Longrightarrow> pes_set c i \<Longrightarrow> pes_set c' i"
  by (auto simp: set_feed_ts_def pes_set_def get_flt_def mem_get_def put_flt_def bind_eq_Some_conv)

lemma give_ts_set: "give_ts intr d c i n = Some c' \<Longrightarrow> pes_set c i \<Longrightarrow> pes_set c' i"
  by (auto simp: give_ts_def bind_eq_Some_conv split: option.splits) (auto dest: set_feed_ts_set simp: pes_set_def)

lemma ts_start_set: "dmx_ts_feed_start_filtering (lift_driver drv) intr d c t = Some (d', c', r) \<Longrightarrow> pes_set c i \<Longrightarrow> pes_set c' i"
  by (drule ts_start_hw) (metis pes_set_def dmxdev.ext_inject dmxdev.surjective dmxdev.update_convs(11))

lemma start_feed_set:
  assumes "dvb_dmxdev_start_feed env drv d c i n pid = Some (d', c', r)" "pes_set c i"
  shows "pes_set c' i"
proof -
  obtain c1 where c1: "set_feed_ts c i n None = Some c1" using assms(1) by (auto simp: dvb_dmxdev_start_feed_def bind_eq_Some_conv)
  obtain c2 where c2: "give_ts (signal env (L_alloc n)) d c1 i n = Some c2"
    using assms(1) c1 by (auto simp: dvb_dmxdev_start_feed_def bind_eq_Some_conv)
  have "pes_set c2 i" using set_feed_ts_set [OF c1 assms(2)] give_ts_set [OF c2] by blast
  with assms(1) c1 c2 show ?thesis
    by (auto simp: dvb_dmxdev_start_feed_def pes_set_priv Let_def split: sum.splits bind_splits dest!: ts_start_set)
qed

lemma set_stop: "pes_set c i \<Longrightarrow> dvb_dmxdev_filter_stop env drv d c i = Some (d, c, Inr ())"
  by (simp add: dvb_dmxdev_filter_stop_def pes_set_def get_flt_def mem_get_def less_dmxdev_state_def)

lemma buffer_set: "pes_set (put_flt c i (set_buffer rb (dev_filters c ! i))) i \<longleftrightarrow> pes_set c i"
  by (auto simp: pes_set_def put_flt_def set_buffer_def)

section \<open>Feeds that run\<close>

text \<open>A feed that runs for a filter of the device, and what the calls on other feeds leave alone.\<close>

definition feed_runs :: "dvb_demux \<Rightarrow> 's dmxdev \<Rightarrow> nat \<Rightarrow> u16 \<Rightarrow> nat \<Rightarrow> bool" where
  "feed_runs d c i pid t \<longleftrightarrow> t < length (feeds d) \<and> feed_state (feeds d ! t) = DMX_STATE_GO \<and> is_filtering (feeds d ! t) \<and>
     feed_pid (feeds d ! t) = pid \<and> t \<in> set (feed_list d) \<and> ts_priv c t = Some i"

definition kept :: "dvb_demux \<Rightarrow> dvb_demux \<Rightarrow> nat \<Rightarrow> bool" where
  "kept d d' t \<longleftrightarrow> length (feeds d') = length (feeds d) \<and> feeds d' ! t = feeds d ! t \<and> (t \<in> set (feed_list d) \<longrightarrow> t \<in> set (feed_list d'))"

lemma kept_trans: "kept d d1 t \<Longrightarrow> kept d1 d2 t \<Longrightarrow> kept d d2 t"
  by (simp add: kept_def)

lemma feed_runs_kept: "feed_runs d c i pid t \<Longrightarrow> kept d d' t \<Longrightarrow> ts_priv c' t = ts_priv c t \<Longrightarrow> feed_runs d' c' i pid t"
  by (simp add: feed_runs_def kept_def)

lemma alloc_ts_kept:
  assumes "dvbdmx_allocate_ts_feed intr d = Some (d', r)" "t < length (feeds d)" "feed_state (feeds d ! t) \<noteq> DMX_STATE_FREE"
  shows "kept d d' t"
proof -
  have "k \<noteq> t" if "free_index (map feed_state (feeds d)) = Some k" for k using free_index_Some [OF that] assms(2,3) by auto
  with assms(1) show ?thesis
    by (auto simp: dvbdmx_allocate_ts_feed_def dvb_dmx_feed_alloc_def dvb_dmx_filter_alloc_def kept_def put_feed_def put_filter_def Let_def
        split: if_splits option.splits bind_splits)
qed

lemma alloc_ts_new:
  assumes "dvbdmx_allocate_ts_feed intr d = Some (d', Inr k)"
  shows "\<not> intr" "snd (dvb_dmx_feed_alloc d) = Some k" "k < length (feeds d)" "feed_state (feeds d ! k) = DMX_STATE_FREE"
    "length (feeds d') = length (feeds d)"
  using assms free_index_Some [of "map feed_state (feeds d)" k]
  by (auto simp: dvbdmx_allocate_ts_feed_def dvb_dmx_feed_alloc_def dvb_dmx_filter_alloc_def put_feed_def put_filter_def Let_def
      split: if_splits option.splits bind_splits)

lemma ts_set_kept: "dmx_ts_feed_set intr d k pid ts pt = Some (d', r) \<Longrightarrow> k \<noteq> t \<Longrightarrow> kept d d' t"
  by (auto simp: dmx_ts_feed_set_def kept_def put_feed_def dvb_demux_feed_add_def Let_def split: if_splits bind_splits)

lemma ts_set_done:
  "dmx_ts_feed_set intr d k pid ts pt = Some (d', Inr u) \<Longrightarrow>
   k < length (feeds d') \<and> k \<in> set (feed_list d') \<and> feed_pid (feeds d' ! k) = pid"
  by (auto simp: dmx_ts_feed_set_def put_feed_def dvb_demux_feed_add_def dvb_demux_feed_find_def mem_get_def Let_def split: if_splits bind_splits)

lemma ts_start_kept: "dmx_ts_feed_start_filtering drv intr d c k = Some (d', c', r) \<Longrightarrow> k \<noteq> t \<Longrightarrow> kept d d' t"
  by (auto simp: dmx_ts_feed_start_filtering_def kept_def put_feed_def split: if_splits option.splits prod.splits sum.splits bind_splits)

lemma ts_start_done:
  "dmx_ts_feed_start_filtering drv intr d c k = Some (d', c', Inr u) \<Longrightarrow>
   length (feeds d') = length (feeds d) \<and> feed_list d' = feed_list d \<and> feed_state (feeds d' ! k) = DMX_STATE_GO \<and> is_filtering (feeds d' ! k) \<and>
   feed_pid (feeds d' ! k) = feed_pid (feeds d ! k)"
  by (auto simp: dmx_ts_feed_start_filtering_def put_feed_def mem_get_def split: if_splits option.splits prod.splits sum.splits bind_splits)

lemma ts_release_kept: "dvbdmx_release_ts_feed d k = Some (d', r) \<Longrightarrow> k \<noteq> t \<Longrightarrow> kept d d' t"
  by (auto simp: dvbdmx_release_ts_feed_def kept_def put_feed_def put_filter_def dvb_demux_feed_del_def Let_def split: if_splits bind_splits)

text \<open>The list of the feeds of a filter for packets.\<close>

definition ts_list :: "'s dmxdev \<Rightarrow> nat \<Rightarrow> dmxdev_feed list \<Rightarrow> bool" where
  "ts_list c i fds \<longleftrightarrow> i < length (dev_filters c) \<and> df_feed (dev_filters c ! i) = F_ts fds"

lemma set_feed_ts_list:
  "set_feed_ts c i n x = Some c' \<Longrightarrow> ts_list c i fds \<Longrightarrow>
   n < length fds \<and> ts_list c' i (fds[n := (fds ! n)\<lparr>df_ts := x\<rparr>]) \<and> ts_priv c' = ts_priv c"
  by (auto simp: set_feed_ts_def ts_list_def get_flt_def mem_get_def put_flt_def bind_eq_Some_conv split: if_splits)

text \<open>Starting one feed of a filter: its effect on the list, on the feeds that run, and on the new one.\<close>

lemma start_feed_effect:
  assumes "dvb_dmxdev_start_feed env drv d c i n pid = Some (d', c', r)" "ts_list c i fds"
  shows "\<exists>x. n < length fds \<and> ts_list c' i (fds[n := (fds ! n)\<lparr>df_ts := x\<rparr>]) \<and>
    (\<forall>j p t. feed_runs d c j p t \<longrightarrow> feed_runs d' c' j p t) \<and> (\<forall>u. r = Inr u \<longrightarrow> (\<exists>t. x = Some t \<and> feed_runs d' c' i pid t))"
proof -
  obtain c1 where c1: "set_feed_ts c i n None = Some c1" using assms(1) by (auto simp: dvb_dmxdev_start_feed_def bind_eq_Some_conv)
  obtain c2 where c2: "give_ts (signal env (L_alloc n)) d c1 i n = Some c2"
    using assms(1) c1 by (auto simp: dvb_dmxdev_start_feed_def bind_eq_Some_conv)
  obtain d1 r1 where d1: "dvbdmx_allocate_ts_feed (signal env (L_alloc n)) d = Some (d1, r1)"
    using assms(1) c1 c2 by (auto simp: dvb_dmxdev_start_feed_def bind_eq_Some_conv)
  note l1 = set_feed_ts_list [OF c1 assms(2)]
  obtain x where x: "ts_list c2 i (fds[n := (fds ! n)\<lparr>df_ts := x\<rparr>])"
    "\<And>k. r1 = Inr k \<Longrightarrow> x = Some k" "\<And>t. ts_priv c2 t = ts_priv c t \<or> snd (dvb_dmx_feed_alloc d) = Some t"
  proof (cases "if signal env (L_alloc n) then None else snd (dvb_dmx_feed_alloc d)")
    case None
    with c2 have "c2 = c1" by (simp add: give_ts_def)
    moreover have "r1 \<noteq> Inr k" for k
    proof
      assume "r1 = Inr k"
      with alloc_ts_new [of "signal env (L_alloc n)" d d1 k] d1 None show False by simp
    qed
    ultimately show thesis using l1 by (intro that [of None]) auto
  next
    case (Some t)
    then obtain c3 where c3: "set_feed_ts c1 i n (Some t) = Some c3" "c2 = c3\<lparr>ts_priv := (ts_priv c3)(t := None)\<rparr>"
      using c2 by (auto simp: give_ts_def bind_eq_Some_conv)
    have "t = k" if "r1 = Inr k" for k
      using alloc_ts_new [of "signal env (L_alloc n)" d d1 k] d1 Some that by (simp split: if_splits)
    moreover have "ts_list c2 i (fds[n := (fds ! n)\<lparr>df_ts := Some t\<rparr>])" "ts_priv c3 = ts_priv c"
      using set_feed_ts_list [OF c3(1) conjunct1 [OF conjunct2 [OF l1]]] l1 by (simp_all add: c3(2) ts_list_def)
    ultimately show thesis using Some by (intro that [of "Some t"]) (auto simp: c3(2) split: if_splits)
  qed
  have old: "kept d d1 t \<and> ts_priv c2 t = ts_priv c t \<and> (\<forall>k. r1 = Inr k \<longrightarrow> k \<noteq> t)" if "feed_runs d c j p t" for j p t
  proof -
    have t: "t < length (feeds d)" "feed_state (feeds d ! t) \<noteq> DMX_STATE_FREE" using that by (simp_all add: feed_runs_def)
    have "snd (dvb_dmx_feed_alloc d) \<noteq> Some t"
      using t free_index_Some [of "map feed_state (feeds d)" t] by (auto simp: dvb_dmx_feed_alloc_def split: option.splits)
    moreover have "k \<noteq> t" if "r1 = Inr k" for k using alloc_ts_new(4) [of "signal env (L_alloc n)" d d1 k] d1 that t by auto
    ultimately show ?thesis using x(3) [of t] alloc_ts_kept [OF d1 t] by blast
  qed
  show ?thesis
  proof (cases r1)
    case (Inl e)
    with assms(1) c1 c2 d1 have "d' = d1" "c' = c2" "r = Inl e" by (auto simp: dvb_dmxdev_start_feed_def split: bind_splits)
    with l1 x(1) old show ?thesis by (intro exI [of _ x]) (auto intro: feed_runs_kept)
  next
    case (Inr k)
    define c3 where "c3 = c2\<lparr>ts_priv := (ts_priv c2)(k := Some i)\<rparr>"
    obtain para d2 r2 where d2: "dmx_ts_feed_set (signal env (L_set n)) d1 k pid (ts_feed_type para) (pes_pes_type para) = Some (d2, r2)"
      "(case r2 of Inl e \<Rightarrow> do { (d, _) \<leftarrow> dvbdmx_release_ts_feed d2 k; Some (d, c3, Inl e) }
        | Inr _ \<Rightarrow> do {
            (d, c, r) \<leftarrow> dmx_ts_feed_start_filtering (lift_driver drv) (signal env (L_start n)) d2 c3 k;
            case r of Inl e \<Rightarrow> do { (d, _) \<leftarrow> dvbdmx_release_ts_feed d k; Some (d, c, Inl e) } | Inr _ \<Rightarrow> Some (d, c, Inr ())
          }) = Some (d', c', r)"
      using assms(1) c1 c2 d1 Inr
      by (auto simp: dvb_dmxdev_start_feed_def c3_def [symmetric] Let_def split: bind_splits)
    have l3: "ts_list c3 i (fds[n := (fds ! n)\<lparr>df_ts := Some k\<rparr>])" using x(1) x(2) [OF Inr] by (simp add: c3_def ts_list_def)
    have old3: "kept d d2 t \<and> ts_priv c3 t = ts_priv c t \<and> k \<noteq> t" if "feed_runs d c j p t" for j p t
      using old [OF that] Inr ts_set_kept [OF d2(1), of t] by (auto simp: c3_def intro: kept_trans)
    have on: "feed_runs e c5 j p t" if "feed_runs d c j p t" "k \<noteq> t \<Longrightarrow> kept d2 e t" "ts_priv c5 t = ts_priv c3 t" for e c5 j p t
      using old3 [OF that(1)] that by (intro feed_runs_kept [OF that(1)]) (auto intro: kept_trans)
    show ?thesis
    proof (cases r2)
      case (Inl e)
      with d2(2) obtain rr where "dvbdmx_release_ts_feed d2 k = Some (d', rr)" "c' = c3" "r = Inl e" by (auto split: bind_splits)
      with l1 l3 ts_release_kept [of d2 k d' rr] show ?thesis
        by (intro exI [of _ "Some k"]) (auto intro: on)
    next
      case set: (Inr u)
      with d2(2) obtain d3 c4 r3 where d3: "dmx_ts_feed_start_filtering (lift_driver drv) (signal env (L_start n)) d2 c3 k = Some (d3, c4, r3)"
        "(case r3 of Inl e \<Rightarrow> do { (d, _) \<leftarrow> dvbdmx_release_ts_feed d3 k; Some (d, c4, Inl e) } | Inr _ \<Rightarrow> Some (d3, c4, Inr ())) = Some (d', c', r)"
        by (auto split: bind_splits)
      obtain h where "c4 = c3\<lparr>hw := h\<rparr>" using ts_start_hw [OF d3(1)] by blast
      then have c4: "ts_priv c4 = ts_priv c3" "ts_list c4 i l = ts_list c3 i l" for l by (simp_all add: ts_list_def)
      show ?thesis
      proof (cases r3)
        case (Inl e)
        with d3(2) obtain rr where "dvbdmx_release_ts_feed d3 k = Some (d', rr)" "c' = c4" "r = Inl e" by (auto split: bind_splits)
        then have "kept d2 d' t" if "k \<noteq> t" for t
          using kept_trans [OF ts_start_kept [OF d3(1) that] ts_release_kept [OF _ that]] by blast
        with l1 l3 c4 \<open>c' = c4\<close> \<open>r = Inl e\<close> show ?thesis by (intro exI [of _ "Some k"]) (simp add: on)
      next
        case (Inr u')
        with d3(2) have e: "d' = d3" "c' = c4" by simp_all
        have "feed_runs d' c' i pid k"
          using ts_set_done [OF d2(1) [unfolded set]] ts_start_done [OF d3(1) [unfolded Inr]] unfolding feed_runs_def e c4(1) by (simp add: c3_def)
        with l1 l3 ts_start_kept [OF d3(1)] c4 e show ?thesis
          by (intro exI [of _ "Some k"]) (simp add: on)
      qed
    qed
  qed
qed

text \<open>The feeds of a filter one after the other, as long as all can be started.\<close>

fun start_each ::
  "dev_env \<Rightarrow> 's dmx_driver \<Rightarrow> dvb_demux \<Rightarrow> 's dmxdev \<Rightarrow> nat \<Rightarrow> nat \<Rightarrow> u16 list \<Rightarrow> (dvb_demux \<times> 's dmxdev) option" where
  "start_each env drv d c i n [] = Some (d, c)"
| "start_each env drv d c i n (pid # ps) = do {
     (d, c, r) \<leftarrow> dvb_dmxdev_start_feed env drv d c i n pid;
     case r of Inl e \<Rightarrow> None | Inr _ \<Rightarrow> start_each env drv d c i (n + 1) ps
   }"

text \<open>The first feeds of the filter run for the first PIDs.\<close>

definition first_run :: "dvb_demux \<Rightarrow> 's dmxdev \<Rightarrow> nat \<Rightarrow> u16 list \<Rightarrow> bool" where
  "first_run d c i ps \<longleftrightarrow> (\<exists>fds. ts_list c i fds \<and> length ps \<le> length fds \<and>
     (\<forall>j<length ps. \<exists>t. df_ts (fds ! j) = Some t \<and> feed_runs d c i (ps ! j) t))"

lemma first_run_step:
  assumes "first_run d c i ps" "dvb_dmxdev_start_feed env drv d c i (length ps) pid = Some (d', c', r)"
  shows "first_run d' c' i ps" "r = Inr u \<Longrightarrow> first_run d' c' i (ps @ [pid])"
proof -
  obtain fds where fds: "ts_list c i fds" "length ps \<le> length fds" "\<forall>j<length ps. \<exists>t. df_ts (fds ! j) = Some t \<and> feed_runs d c i (ps ! j) t"
    using assms(1) by (auto simp: first_run_def)
  from start_feed_effect [OF assms(2) fds(1)] obtain x where x: "length ps < length fds" "ts_list c' i (fds[length ps := (fds ! length ps)\<lparr>df_ts := x\<rparr>])"
    "\<forall>j p t. feed_runs d c j p t \<longrightarrow> feed_runs d' c' j p t" "\<forall>u. r = Inr u \<longrightarrow> (\<exists>t. x = Some t \<and> feed_runs d' c' i pid t)" by (elim exE conjE) (rule that)
  let ?fds = "fds[length ps := (fds ! length ps)\<lparr>df_ts := x\<rparr>]"
  have run: "\<exists>t. df_ts (?fds ! j) = Some t \<and> feed_runs d' c' i (ps ! j) t" if "j < length ps" for j
    using fds(3) x(3) that by auto
  then show "first_run d' c' i ps" unfolding first_run_def using x(1,2) by (intro exI [of _ ?fds]) auto
  assume "r = Inr u"
  with x(1,4) have "\<exists>t. df_ts (?fds ! length ps) = Some t \<and> feed_runs d' c' i pid t" by auto
  with run have "\<exists>t. df_ts (?fds ! j) = Some t \<and> feed_runs d' c' i ((ps @ [pid]) ! j) t" if "j < length (ps @ [pid])" for j
    using that by (cases "j = length ps") (auto simp: nth_append)
  then show "first_run d' c' i (ps @ [pid])" unfolding first_run_def using x(1,2) by (intro exI [of _ ?fds]) simp
qed

lemma start_each_run:
  "first_run d c i qs \<Longrightarrow> start_each env drv d c i (length qs) ps = Some (d', c') \<Longrightarrow> first_run d' c' i (qs @ ps)"
proof (induction ps arbitrary: d c qs)
  case (Cons pid ps)
  obtain d1 c1 u where s: "dvb_dmxdev_start_feed env drv d c i (length qs) pid = Some (d1, c1, Inr u)" "start_each env drv d1 c1 i (length qs + 1) ps = Some (d', c')"
    using Cons.prems(2) by (auto split: bind_splits sum.splits)
  have "first_run d1 c1 i (qs @ [pid])" by (rule first_run_step(2) [OF Cons.prems(1) s(1) refl])
  from Cons.IH [OF this] s(2) show ?case by simp
qed simp

lemma start_each_set: "start_each env drv d c i n ps = Some (d', c') \<Longrightarrow> pes_set c i \<Longrightarrow> pes_set c' i"
proof (induction ps arbitrary: d c n)
  case (Cons pid ps)
  then obtain d1 c1 u where "dvb_dmxdev_start_feed env drv d c i n pid = Some (d1, c1, Inr u)" "start_each env drv d1 c1 i (n + 1) ps = Some (d', c')"
    by (auto split: bind_splits sum.splits)
  with Cons show ?case using start_feed_set by blast
qed simp

lemma start_pids_fails:
  "start_each env drv d c i n ps = Some (d2, c2) \<Longrightarrow> dvb_dmxdev_start_feed env drv d2 c2 i (n + length ps) pid = Some (d1, c1, Inl e) \<Longrightarrow>
   dvb_dmxdev_filter_stop env drv d1 c1 i = Some (d1, c1, Inr ()) \<Longrightarrow>
   start_pids env drv d c i n (ps @ pid # qs) = Some (d1, c1, Inl e)"
proof (induction ps arbitrary: d c n)
  case (Cons p ps)
  then show ?case by (auto split: bind_splits sum.splits)
qed simp

text \<open>
  C7: A filter for PES packets whose start fails keeps the feeds that were started. When the feeds for the first PIDs could be started and the next one
  fails, starting the filter returns the error, but the feeds before it go on: their state is that of a running feed, they are in the list of the
  demux, filter their PIDs and call the filter back. They were to be stopped, but the filter is not yet in the state of a running one, so that stopping it
  does nothing. Neither the command to stop nor closing the file stops or releases them later: the demux is as the failed start left it, with feeds
  that point to a filter that is free for the next program.
\<close>

theorem pes_failed_start_keeps_feeds:
  assumes "pes_set c i" "df_feed (dev_filters c ! i) = F_ts fds" "map df_pid fds = ps @ pid # qs"
    "alloc_buffer env c i = Some (ca, Inr ())" "flush_filter ca i = Some c0"
    "start_each env drv d c0 i 0 ps = Some (d2, c2)" "dvb_dmxdev_start_feed env drv d2 c2 i (length ps) pid = Some (d1, c1, Inl e)"
  shows "dvb_dmxdev_filter_start env drv d c i = Some (d1, c1, Inl e) \<and>
    (\<exists>fds1. df_feed (dev_filters c1 ! i) = F_ts fds1 \<and>
       (\<forall>j<length ps. \<exists>t. df_ts (fds1 ! j) = Some t \<and> t < length (feeds d1) \<and> feed_state (feeds d1 ! t) = DMX_STATE_GO \<and> is_filtering (feeds d1 ! t) \<and>
          feed_pid (feeds d1 ! t) = ps ! j \<and> t \<in> set (feed_list d1) \<and> ts_priv c1 t = Some i)) \<and>
    dvb_dmxdev_filter_stop env drv d1 c1 i = Some (d1, c1, Inr ()) \<and>
    (\<exists>c3. dvb_demux_release env drv d1 c1 i = Some (d1, c3) \<and> df_state (dev_filters c3 ! i) = DMXDEV_STATE_FREE \<and> ts_priv c3 = ts_priv c1)"
proof (intro conjI)
  have i: "i < length (dev_filters c)" "df_type (dev_filters c ! i) = DMXDEV_TYPE_PES" "df_state (dev_filters c ! i) = DMXDEV_STATE_SET"
    using assms(1) by (auto simp: pes_set_def)
  have ca: "pes_set ca i \<and> ts_list ca i fds"
    using assms(4,1,2) i
    by (auto simp: alloc_buffer_def get_flt_def mem_get_def pes_set_def ts_list_def put_flt_def set_buffer_def split: if_splits option.splits)
  have "c0 = put_flt ca i (set_buffer (dvb_ringbuffer_flush (df_buffer (dev_filters ca ! i))) (dev_filters ca ! i))"
    using assms(5) ca by (simp add: flush_filter_def get_flt_def mem_get_def pes_set_def)
  then have c0: "pes_set c0 i" "ts_list c0 i fds" "get_flt c0 i = Some (dev_filters c0 ! i)" "df_type (dev_filters c0 ! i) = DMXDEV_TYPE_PES"
    using ca by (simp_all only: buffer_set) (auto simp: ts_list_def put_flt_def set_buffer_def get_flt_def mem_get_def pes_set_def)
  have "pes_set c2 i" by (rule start_each_set [OF assms(6) c0(1)])
  then have set1: "pes_set c1 i" using start_feed_set [OF assms(7)] by blast
  note stop = set_stop [OF set1]
  show "dvb_dmxdev_filter_stop env drv d1 c1 i = Some (d1, c1, Inr ())" by (rule stop)
  have "start_pids env drv d c0 i 0 (map df_pid fds) = Some (d1, c1, Inl e)"
    unfolding assms(3) using start_pids_fails [OF assms(6) _ stop] assms(7) by simp
  then show "dvb_dmxdev_filter_start env drv d c i = Some (d1, c1, Inl e)"
    using i assms(4,5) c0 by (simp add: dvb_dmxdev_filter_start_def get_flt_def [of c] mem_get_def [of "dev_filters c"] less_eq_dmxdev_state_def
        less_dmxdev_state_def ts_list_def)
  have "first_run d c0 i []" using c0(2) by (auto simp: first_run_def)
  from start_each_run [OF this, of env drv ps] assms(6) have "first_run d2 c2 i ps" by simp
  from first_run_step(1) [OF this assms(7)]
  show "\<exists>fds1. df_feed (dev_filters c1 ! i) = F_ts fds1 \<and>
       (\<forall>j<length ps. \<exists>t. df_ts (fds1 ! j) = Some t \<and> t < length (feeds d1) \<and> feed_state (feeds d1 ! t) = DMX_STATE_GO \<and> is_filtering (feeds d1 ! t) \<and>
          feed_pid (feeds d1 ! t) = ps ! j \<and> t \<in> set (feed_list d1) \<and> ts_priv c1 t = Some i)"
    unfolding first_run_def ts_list_def feed_runs_def by blast
  have i1: "i < length (dev_filters c1)" "df_type (dev_filters c1 ! i) = DMXDEV_TYPE_PES" "df_state (dev_filters c1 ! i) = DMXDEV_STATE_SET"
    "\<exists>fds. df_feed (dev_filters c1 ! i) = F_ts fds" using set1 by (auto simp: pes_set_def)
  then show "\<exists>c3. dvb_demux_release env drv d1 c1 i = Some (d1, c3) \<and> df_state (dev_filters c3 ! i) = DMXDEV_STATE_FREE \<and> ts_priv c3 = ts_priv c1"
    using stop
    by (auto simp: dvb_demux_release_def dvb_dmxdev_filter_free_def dvb_dmxdev_filter_reset_def dvb_dmxdev_delete_pids_def dvb_dmxdev_filter_state_set_def
        get_flt_def mem_get_def put_flt_def less_dmxdev_state_def)
qed

text \<open>
  C6: Adding a PID to a running filter when the demux has no feed left fails, as it should; but the PID stays in the list of the filter with a null
  pointer as its feed, and stopping the filter or closing the file then uses this pointer.
\<close>

theorem failed_add_pid_null:
  assumes "get_flt c i = Some f" "df_type f = DMXDEV_TYPE_PES" "df_state f = DMXDEV_STATE_GO" "df_feed f = F_ts fds"
    and "df_params f = P_pes para" "pes_output para = DMX_OUT_TSDEMUX_TAP" "kzalloc env" "\<forall>l. \<not> signal env l"
    and "free_index (map feed_state (feeds d)) = None"
  shows "\<exists>c1. dvb_demux_do_ioctl env drv stc d c i (DMX_ADD_PID pid) = Some (d, c1, Inl EBUSY) \<and>
    dvb_demux_do_ioctl env drv stc d c1 i DMX_STOP = None \<and> dvb_demux_release env drv d c1 i = None"
proof -
  let ?f = "f\<lparr>df_feed := F_ts (\<lparr>df_pid = pid, df_ts = None\<rparr> # fds)\<rparr>"
  let ?c1 = "put_flt c i ?f"
  have i: "i < length (dev_filters c)" using assms(1) by (simp add: get_flt_def mem_get_def split: if_splits)
  have again: "set_feed_ts ?c1 i 0 None = Some ?c1"
    using i by (simp add: set_feed_ts_def get_flt_def mem_get_def put_flt_def)
  have g: "get_flt ?c1 i = Some ?f" using i by (simp add: get_flt_def mem_get_def put_flt_def)
  have busy: "dvbdmx_allocate_ts_feed False d = Some (d, Inl EBUSY)" "snd (dvb_dmx_feed_alloc d) = None"
    using assms(9) by (simp_all add: dvbdmx_allocate_ts_feed_def dvb_dmx_feed_alloc_def)
  have "dvb_dmxdev_start_feed env drv d ?c1 i 0 pid = Some (d, ?c1, Inl EBUSY)"
    using assms(5,8) busy by (simp add: dvb_dmxdev_start_feed_def again g give_ts_def)
  then have add: "dvb_demux_do_ioctl env drv stc d c i (DMX_ADD_PID pid) = Some (d, ?c1, Inl EBUSY)"
    using assms by (simp add: dvb_demux_do_ioctl_def dvb_dmxdev_add_pid_def less_dmxdev_state_def less_eq_dmxdev_state_def)
  have "dvb_dmxdev_filter_stop env drv d ?c1 i = None"
    using assms(2,3) g i
    by (simp add: dvb_dmxdev_filter_stop_def less_dmxdev_state_def dvb_dmxdev_feed_stop_def dvb_dmxdev_filter_state_set_def)
       (simp add: get_flt_def mem_get_def put_flt_def)
  then show ?thesis using add assms(8)
    by (intro exI [of _ ?c1]) (simp add: dvb_demux_do_ioctl_def dvb_demux_release_def dvb_dmxdev_filter_free_def)
qed

section \<open>A filter that was to run once\<close>

lemma first_indexI: "j < length xs \<Longrightarrow> P (xs ! j) \<Longrightarrow> (\<forall>m<j. \<not> P (xs ! m)) \<Longrightarrow> first_index P xs = Some j"
proof (induction xs arbitrary: j)
  case (Cons x xs)
  show ?case
  proof (cases j)
    case 0
    with Cons.prems show ?thesis by simp
  next
    case (Suc m)
    then have "\<forall>l<m. \<not> P (xs ! l)" "\<not> P x" using Cons.prems(3) by auto
    with Cons.IH [of m] Cons.prems Suc show ?thesis by simp
  qed
qed simp

lemma feed_stop_section:
  assumes "get_flt c i = Some f" "df_type f = DMXDEV_TYPE_SEC" "df_feed f = F_sec (Some k)" "dvb_dmxdev_feed_stop drv d c i = Some (d', c', r)"
  shows "\<exists>h. c' = (put_flt c i (f\<lparr>df_state := DMXDEV_STATE_SET, df_timer := None\<rparr>))\<lparr>hw := h\<rparr>"
proof -
  let ?f = "f\<lparr>df_state := DMXDEV_STATE_SET, df_timer := None\<rparr>"
  have "i < length (dev_filters c)" using assms(1) by (simp add: get_flt_def mem_get_def split: if_splits)
  then have "dvb_dmxdev_filter_state_set c i DMXDEV_STATE_SET = Some (put_flt c i (f\<lparr>df_state := DMXDEV_STATE_SET\<rparr>))"
    "get_flt (put_flt c i (f\<lparr>df_state := DMXDEV_STATE_SET\<rparr>)) i = Some (f\<lparr>df_state := DMXDEV_STATE_SET\<rparr>)"
    "put_flt (put_flt c i (f\<lparr>df_state := DMXDEV_STATE_SET\<rparr>)) i ?f = put_flt c i ?f"
    using assms(1) by (simp_all add: dvb_dmxdev_filter_state_set_def get_flt_def mem_get_def put_flt_def)
  then have "\<exists>r. dmx_section_feed_stop_filtering (lift_driver drv) d (put_flt c i ?f) k = Some (d', c', r)"
    using assms(2-4) by (auto simp: dvb_dmxdev_feed_stop_def bind_eq_Some_conv)
  then show ?thesis by (blast dest: section_stop_hw)
qed

lemma feed_start_section:
  assumes "get_flt c j = Some g" "df_type g = DMXDEV_TYPE_SEC" "dvb_dmxdev_feed_start env drv d c j = Some (d', c', r)"
  shows "\<exists>h. c' = (put_flt c j (g\<lparr>df_state := DMXDEV_STATE_GO\<rparr>))\<lparr>hw := h\<rparr>"
proof -
  let ?g = "g\<lparr>df_state := DMXDEV_STATE_GO\<rparr>"
  have "j < length (dev_filters c)" using assms(1) by (simp add: get_flt_def mem_get_def split: if_splits)
  then have "dvb_dmxdev_filter_state_set c j DMXDEV_STATE_GO = Some (put_flt c j ?g)" "get_flt (put_flt c j ?g) j = Some ?g"
    using assms(1) by (simp_all add: dvb_dmxdev_filter_state_set_def get_flt_def mem_get_def put_flt_def)
  then obtain k where "dmx_section_feed_start_filtering (lift_driver drv) (signal env (L_restart 0)) d (put_flt c j ?g) k = Some (d', c', r)"
    using assms(2,3) by (auto simp: dvb_dmxdev_feed_start_def split: feed_union.splits option.splits)
  then show ?thesis by (blast dest: section_start_hw)
qed

lemma release_filter_of:
  assumes "(case x of None \<Rightarrow> Some (d, c) | Some fk \<Rightarrow> map_option (\<lambda>(d, c, _). (d, c)) (dmx_section_feed_release_filter (lift_driver drv) d c k fk)) = Some (d', c')"
  shows "\<exists>h. c' = c\<lparr>hw := h\<rparr>"
proof (cases x)
  case None
  with assms show ?thesis by (auto intro: exI [of _ "hw c"])
next
  case (Some fk)
  with assms obtain r where "dmx_section_feed_release_filter (lift_driver drv) d c k fk = Some (d', c', r)" by auto
  then show ?thesis by (blast dest: section_release_hw)
qed

text \<open>
  C8: A section filter that has delivered its one section, or whose time has passed, is started again by the end of another filter: when a program
  stops its filter, the feed of the PID is restarted through the first filter that uses it, and this filter is then a running one, whatever it was before.
\<close>

theorem finished_filter_revived:
  assumes i: "get_flt c i = Some f" "df_type f = DMXDEV_TYPE_SEC" "df_state f = DMXDEV_STATE_GO" "df_params f = P_sec p" "df_feed f = F_sec (Some k)"
    and j: "get_flt c j = Some g" "j \<noteq> i" "df_type g = DMXDEV_TYPE_SEC" "df_state g = DMXDEV_STATE_DONE \<or> df_state g = DMXDEV_STATE_TIMEDOUT"
      "df_params g = P_sec q" "sct_pid q = sct_pid p" "\<forall>m<j. m \<noteq> i \<longrightarrow> \<not> live_section (sct_pid p) (dev_filters c ! m)"
    and stop: "dvb_dmxdev_filter_stop env drv d c i = Some (d', c', r)"
  shows "get_flt c' j = Some (g\<lparr>df_state := DMXDEV_STATE_GO\<rparr>)"
proof -
  let ?f = "f\<lparr>df_state := DMXDEV_STATE_SET, df_timer := None\<rparr>" and ?g = "g\<lparr>df_state := DMXDEV_STATE_GO\<rparr>"
  have l: "i < length (dev_filters c)" "j < length (dev_filters c)" "dev_filters c ! i = f" "dev_filters c ! j = g"
    using i(1) j(1) by (simp_all add: get_flt_def mem_get_def split: if_splits)
  obtain d1 c1 r1 where s: "dvb_dmxdev_feed_stop drv d c i = Some (d1, c1, r1)"
    using stop i by (auto simp: dvb_dmxdev_filter_stop_def less_dmxdev_state_def bind_eq_Some_conv)
  obtain h1 where c1: "c1 = (put_flt c i ?f)\<lparr>hw := h1\<rparr>" using feed_stop_section [OF i(1,2,5) s] by blast
  let ?rel = "case df_sec f of None \<Rightarrow> Some (d1, c1)
      | Some fk \<Rightarrow> map_option (\<lambda>(d, c, _). (d, c)) (dmx_section_feed_release_filter (lift_driver drv) d1 c1 k fk)"
  obtain d2 c2 where rel: "?rel = Some (d2, c2)"
    using stop i s by (cases ?rel) (auto simp: dvb_dmxdev_filter_stop_def less_dmxdev_state_def)
  obtain h2 where c2: "c2 = (put_flt c i ?f)\<lparr>hw := h2\<rparr>" using release_filter_of [OF rel] c1 by auto
  have fi: "get_flt c2 i = Some ?f" "get_flt c2 j = Some g" using l j(2) by (simp_all add: c2 get_flt_def mem_get_def put_flt_def)
  have "first_index (live_section (sct_pid p)) (dev_filters c2) = Some j"
  proof (rule first_indexI)
    show "j < length (dev_filters c2)" using l by (simp add: c2 put_flt_def)
    show "live_section (sct_pid p) (dev_filters c2 ! j)"
      using l j by (auto simp: c2 put_flt_def live_section_def less_eq_dmxdev_state_def)
    show "\<forall>m<j. \<not> live_section (sct_pid p) (dev_filters c2 ! m)"
      using l j(7) by (auto simp: c2 put_flt_def nth_list_update live_section_def less_eq_dmxdev_state_def)
  qed
  then obtain d3 c3 r3 where st: "dvb_dmxdev_feed_start env drv d2 c2 j = Some (d3, c3, r3)" "dvb_dmxdev_feed_restart env drv d2 c2 i = Some (d3, c3)"
    using stop i s rel fi
    by (cases "dvb_dmxdev_feed_start env drv d2 c2 j")
       (auto simp: dvb_dmxdev_filter_stop_def less_dmxdev_state_def dvb_dmxdev_feed_restart_def)
  obtain h3 where c3: "c3 = (put_flt c2 j ?g)\<lparr>hw := h3\<rparr>" using feed_start_section [OF fi(2) j(3) st(1)] by blast
  have f3: "get_flt c3 i = Some ?f" "get_flt c3 j = Some ?g" using l j(2) by (simp_all add: c3 c2 get_flt_def mem_get_def put_flt_def)
  have "flush_filter (put_flt c3 i (?f\<lparr>df_feed := F_sec None\<rparr>)) i = Some c'"
    using stop i s rel st(2) f3(1)
    by (auto simp: dvb_dmxdev_filter_stop_def less_dmxdev_state_def bind_eq_Some_conv split: bind_splits)
  then show ?thesis using f3 j(2) by (auto simp: flush_filter_def get_flt_def mem_get_def put_flt_def split: if_splits)
qed

section \<open>The timer of a filter\<close>

text \<open>
  A section filter does not time out early: as long as the product of the timeout, in milliseconds, and the frequency of the timer fits into 32
  bits, the timer expires after the timeout and at most half a millisecond and a tick later.
\<close>

theorem filter_timeout_respected:
  assumes "hz div 2 + hz * unat timeout < 2 ^ 32"
  shows "hz * unat timeout < 1000 * (timer_expires hz timeout now - now) \<and>
    1000 * (timer_expires hz timeout now - now) \<le> hz * unat timeout + hz div 2 + 1000"
proof -
  have "unat (of_nat (hz div 2) + of_nat hz * timeout :: u32) = unat (of_nat (hz div 2 + hz * unat timeout) :: u32)" by simp
  also have "\<dots> = hz div 2 + hz * unat timeout" using assms by (subst unat_of_nat) (simp add: take_bit_nat_eq_self)
  finally have "timer_expires hz timeout now = now + 1 + (hz div 2 + hz * unat timeout) div 1000"
    by (simp add: timer_expires_def unat_div)
  moreover have "n < 1000 * (1 + n div 1000)" "1000 * (1 + n div 1000) \<le> n + 1000" for n :: nat
    using mult_div_mod_eq [of 1000 n] mod_less_divisor [of 1000 n] by (simp_all del: mult_div_mod_eq mod_less_divisor)
  ultimately show ?thesis by (simp add: algebra_simps)
qed

text \<open>A longer timeout is shortened: with 250 ticks in a second, one of 4.8 hours passes at the next tick.\<close>

lemma long_timeout_wraps: "timer_expires 250 17179870 now = now + 1"
  by (simp add: timer_expires_def)

section \<open>Witnesses\<close>

theorem filter_timeout_respected_witness:
  "250 * 5000 < 1000 * (timer_expires 250 5000 7 - 7) \<and> 1000 * (timer_expires 250 5000 7 - 7) \<le> 250 * 5000 + 125 + 1000"
  using filter_timeout_respected [of 250 5000 7] by simp

text \<open>A kernel that grants everything, a device with some filters, and a demux with a frontend and the memory.\<close>

definition calm_env :: dev_env where
  "calm_env = \<lparr>signal = (\<lambda>_. False), vmalloc = (\<lambda>n. Some (replicate n 0)), kzalloc = True, jiffies = 0, HZ = 250\<rparr>"

definition free_filter :: dmxdev_filter where
  "free_filter = \<lparr>df_sec = None, df_feed = F_none, df_params = P_none, df_type = DMXDEV_TYPE_NONE, df_state = DMXDEV_STATE_FREE, df_timer = None,
     df_reader = \<lparr>sr_buffer = \<lparr>rb_data = [], rb_size = 8192, pread = 0, pwrite = 0, rb_error = 0\<rparr>, sr_todo = 0, secheader = [0, 0, 0]\<rparr>\<rparr>"

definition example_device :: "dmxdev_filter list \<Rightarrow> unit dmxdev" where
  "example_device fs = \<lparr>dev_filters = fs, dev_duplex = False, dev_exit = False, dvr_orig_fe = None,
     dvr_buffer = \<lparr>rb_data = [], rb_size = 8192, pread = 0, pwrite = 0, rb_error = 0\<rparr>, demux_users = 1, dvr_users = 1, dvr_readers = 1,
     flt_priv = (\<lambda>_. None), ts_priv = (\<lambda>_. None), hw = (), fault = False\<rparr>"

definition frontend_demux :: dvb_demux where
  "frontend_demux = example_demux\<lparr>frontend_list := [0, 1], frontend := Some 0\<rparr>"

definition example_sources :: "nat \<Rightarrow> dmx_frontend_source" where
  "example_sources fe = (if fe = 1 then DMX_MEMORY_FE else DMX_FRONTEND_0)"

lemma example_open:
  "dvb_dvr_open calm_env example_sources O_WRONLY frontend_demux (example_device []) =
     (frontend_demux\<lparr>frontend := Some 1\<rparr>, (example_device [])\<lparr>dvr_orig_fe := Some 0, dvr_users := 2\<rparr>, Inr ())"
  by (simp add: dvb_dvr_open_def open_writer_def get_fe_def dvbdmx_get_frontends_def dvbdmx_connect_frontend_def dvbdmx_disconnect_frontend_def
      calm_env_def frontend_demux_def example_device_def example_sources_def)

theorem dvr_playback_witness:
  "dvb_dvr_write example_opts (device_env None (\<lambda>_ _. 0)) calm_env example_sources False O_WRONLY (frontend_demux\<lparr>frontend := Some 1\<rparr>)
      ((example_device [])\<lparr>dvr_orig_fe := Some 0, dvr_users := 2\<rparr>) (Inr (replicate 188 0x47)) =
    map_option (\<lambda>(d3, c3). (d3, c3, Inr 188)) (dvb_dmx_swfilter example_opts (device_env None (\<lambda>_ _. 0)) (frontend_demux\<lparr>frontend := Some 1\<rparr>)
      ((example_device [])\<lparr>dvr_orig_fe := Some 0, dvr_users := 2\<rparr>) (replicate 188 0x47) 188) \<and>
   frontend (fst (dvb_dvr_release O_WRONLY (frontend_demux\<lparr>frontend := Some 1\<rparr>) ((example_device [])\<lparr>dvr_orig_fe := Some 0, dvr_users := 2\<rparr>))) = Some 0"
proof -
  have calm: "\<forall>l. \<not> signal calm_env l" "\<not> dev_exit ((example_device [])\<lparr>dvr_orig_fe := Some 0, dvr_users := 2\<rparr>)"
    by (simp_all add: calm_env_def example_device_def)
  have l: "length (replicate 188 (0x47 :: u8)) = 188" "frontend frontend_demux = Some 0" by (simp only: length_replicate) (simp add: frontend_demux_def)
  from dvr_playback [OF example_open calm(1) refl refl calm(2), where p = "replicate 188 0x47"] show ?thesis unfolding l by blast
qed

theorem dvr_two_writers_witness:
  "frontend frontend_demux = Some 0 \<and>
   (\<exists>d2 c2. dvb_dvr_open calm_env example_sources O_WRONLY (frontend_demux\<lparr>frontend := Some 1\<rparr>)
      ((example_device [])\<lparr>dvr_orig_fe := Some 0, dvr_users := 2\<rparr>) = (d2, c2, Inr ()) \<and>
    (\<exists>d3 c3. dvb_dvr_release O_WRONLY d2 c2 = (d3, c3) \<and> frontend (fst (dvb_dvr_release O_WRONLY d3 c3)) = Some 1))"
proof -
  let ?d1 = "frontend_demux\<lparr>frontend := Some 1\<rparr>" and ?c1 = "(example_device [])\<lparr>dvr_orig_fe := Some 0, dvr_users := 2\<rparr>"
  let ?c2 = "?c1\<lparr>dvr_orig_fe := Some 1, dvr_users := 3\<rparr>"
  have o: "dvb_dvr_open calm_env example_sources O_WRONLY ?d1 ?c1 = (?d1, ?c2, Inr ())"
    by (simp add: dvb_dvr_open_def open_writer_def get_fe_def dvbdmx_get_frontends_def dvbdmx_connect_frontend_def dvbdmx_disconnect_frontend_def
        calm_env_def frontend_demux_def example_device_def example_sources_def)
  obtain d3 c3 where r: "dvb_dvr_release O_WRONLY ?d1 ?c2 = (d3, c3)" by force
  obtain d4 c4 where r': "dvb_dvr_release O_WRONLY d3 c3 = (d4, c4)" by force
  obtain fe where fe: "frontend d4 = Some fe" "example_sources fe = DMX_MEMORY_FE" using dvr_two_writers [OF example_open o r r'] by blast
  then have "frontend d4 = Some 1" by (auto simp: example_sources_def split: if_splits)
  moreover have "frontend frontend_demux = Some 0" by (simp add: frontend_demux_def)
  ultimately show ?thesis using o r r' by (metis fst_conv)
qed

text \<open>A filter for the packets of two PIDs.\<close>

definition tap_filter :: "dmxdev_feed list \<Rightarrow> dmxdev_state \<Rightarrow> dmxdev_filter" where
  "tap_filter fds s = free_filter\<lparr>df_feed := F_ts fds, df_type := DMXDEV_TYPE_PES, df_state := s,
     df_params := P_pes \<lparr>pes_pid = 0x100, pes_input = 0, pes_output = DMX_OUT_TSDEMUX_TAP, pes_pes_type = DMX_PES_OTHER, pes_flags = 0\<rparr>\<rparr>"

definition two_pids :: "dmxdev_feed list" where
  "two_pids = [\<lparr>df_pid = 0x100, df_ts = None\<rparr>, \<lparr>df_pid = 0x101, df_ts = None\<rparr>]"

theorem failed_add_pid_null_witness:
  "\<exists>c1. dvb_demux_do_ioctl calm_env example_driver None ts_demux (example_device [tap_filter [\<lparr>df_pid = 0x100, df_ts = Some 0\<rparr>] DMXDEV_STATE_GO]) 0
      (DMX_ADD_PID 0x101) = Some (ts_demux, c1, Inl EBUSY) \<and> dvb_demux_release calm_env example_driver ts_demux c1 0 = None"
proof -
  let ?f = "tap_filter [\<lparr>df_pid = 0x100, df_ts = Some 0\<rparr>] DMXDEV_STATE_GO"
  have f: "get_flt (example_device [?f]) 0 = Some ?f" by (simp add: get_flt_def mem_get_def example_device_def)
  have g: "df_type ?f = DMXDEV_TYPE_PES" "df_state ?f = DMXDEV_STATE_GO" "df_feed ?f = F_ts [\<lparr>df_pid = 0x100, df_ts = Some 0\<rparr>]"
    "df_params ?f = P_pes \<lparr>pes_pid = 0x100, pes_input = 0, pes_output = DMX_OUT_TSDEMUX_TAP, pes_pes_type = DMX_PES_OTHER, pes_flags = 0\<rparr>"
    by (simp_all add: tap_filter_def)
  have env: "kzalloc calm_env" "\<forall>l. \<not> signal calm_env l" by (simp_all add: calm_env_def)
  from failed_add_pid_null [OF f g _ env ts_demux_fields(3), of example_driver None "0x101"] show ?thesis by auto
qed

text \<open>The first of the two feeds can be started, and there is no other.\<close>

lemma two_pids_start:
  "\<exists>c2 d1 c1 ca c0. alloc_buffer calm_env (example_device [tap_filter two_pids DMXDEV_STATE_SET]) 0 = Some (ca, Inr ()) \<and> flush_filter ca 0 = Some c0 \<and>
     start_each calm_env example_driver fresh_demux c0 0 0 [0x100] = Some (d1, c2) \<and>
     dvb_dmxdev_start_feed calm_env example_driver d1 c2 0 1 0x101 = Some (d1, c1, Inl EBUSY)"
  by (simp add: example_device_def get_flt_def put_flt_def mem_get_def mem_set_def
      tap_filter_def free_filter_def alloc_buffer_def flush_filter_def calm_env_def df_buffer_def set_buffer_def dvb_ringbuffer_flush_def two_pids_def
      dvb_dmxdev_start_feed_def set_feed_ts_def give_ts_def dvb_dmx_feed_alloc_def dvbdmx_allocate_ts_feed_def fresh_fields dvb_dmx_filter_alloc_def
      put_feed_def put_filter_def dmx_ts_feed_set_def dmx_ts_feed_start_filtering_def Let_def ts_feed_type_def dvb_demux_feed_add_def
      dvb_demux_feed_find_def lift_driver_def on_hw_def example_driver_def DMX_OUT_TSDEMUX_TAP_def DMX_OUT_TS_TAP_def
      TS_PACKET_def TS_DEMUX_def TS_DECODER_def DMX_MAX_PID_def
      del: replicate.simps)

theorem pes_failed_start_keeps_feeds_witness:
  "\<exists>d1 c1 c3 t. dvb_dmxdev_filter_start calm_env example_driver fresh_demux (example_device [tap_filter two_pids DMXDEV_STATE_SET]) 0 =
     Some (d1, c1, Inl EBUSY) \<and> dvb_demux_release calm_env example_driver d1 c1 0 = Some (d1, c3) \<and>
     feed_state (feeds d1 ! t) = DMX_STATE_GO \<and> feed_pid (feeds d1 ! t) = 0x100 \<and> t \<in> set (feed_list d1) \<and> ts_priv c3 t = Some 0 \<and>
     df_state (dev_filters c3 ! 0) = DMXDEV_STATE_FREE"
proof -
  let ?c = "example_device [tap_filter two_pids DMXDEV_STATE_SET]"
  obtain c2 d1 c1 ca c0 where s: "alloc_buffer calm_env ?c 0 = Some (ca, Inr ())" "flush_filter ca 0 = Some c0"
     "start_each calm_env example_driver fresh_demux c0 0 0 [0x100] = Some (d1, c2)"
     "dvb_dmxdev_start_feed calm_env example_driver d1 c2 0 1 0x101 = Some (d1, c1, Inl EBUSY)"
    using two_pids_start by (elim exE conjE) (rule that)
  have c: "pes_set ?c 0" "df_feed (dev_filters ?c ! 0) = F_ts two_pids" "map df_pid two_pids = [0x100] @ 0x101 # []"
    by (simp_all add: pes_set_def example_device_def tap_filter_def two_pids_def)
  have "dvb_dmxdev_start_feed calm_env example_driver d1 c2 0 (length [0x100 :: u16]) 0x101 = Some (d1, c1, Inl EBUSY)" using s(4) by simp
  from pes_failed_start_keeps_feeds [OF c s(1-3) this] show ?thesis by (auto simp: less_Suc_eq)
qed

text \<open>Two filters for one PID, of which the first has delivered its section.\<close>

definition once_filter :: "dmxdev_state \<Rightarrow> nat \<Rightarrow> dmxdev_filter" where
  "once_filter s k = free_filter\<lparr>df_sec := Some k, df_feed := F_sec (Some 0), df_type := DMXDEV_TYPE_SEC, df_state := s,
     df_params := P_sec \<lparr>sct_pid = 0x10, sct_filter = \<lparr>pf_filter = [], pf_mask = [], pf_mode = []\<rparr>, sct_timeout = 0, sct_flags = DMX_ONESHOT\<rparr>\<rparr>"

definition shared_demux :: dvb_demux where
  "shared_demux = fresh_demux\<lparr>filters := [table_filter 0x42, table_filter 0x43], feeds := [example_feed\<lparr>feed_filter := [0, 1]\<rparr>], feed_list := [0]\<rparr>"

lemma once_stop:
  "\<exists>d' c' r. dvb_dmxdev_filter_stop calm_env example_driver shared_demux
     (example_device [once_filter DMXDEV_STATE_DONE 0, once_filter DMXDEV_STATE_GO 1]) 1 = Some (d', c', r)"
proof -
  have "flt_sized (table_filter 0x42)" by (simp add: flt_sized_def filter_sized_def table_filter_def)
  from prepare_filter [OF this] obtain f dq where f: "prepare_bytes (table_filter 0x42) [0..<DVB_DEMUX_MASK_MAX] 0 = Some (f, dq)" by blast
  have t: "flt_feed (table_filter 0x43) = 0" "\<not> signal calm_env l" for l by (simp_all add: table_filter_def calm_env_def)
  show ?thesis
    by (simp add: f t prepare_secfilters_def dvb_dmxdev_filter_stop_def example_device_def get_flt_def put_flt_def mem_get_def mem_set_def less_dmxdev_state_def less_eq_dmxdev_state_def
      once_filter_def free_filter_def flush_filter_def df_buffer_def set_buffer_def dvb_ringbuffer_flush_def dvb_dmxdev_feed_stop_def
      dvb_dmxdev_filter_state_set_def dmx_section_feed_stop_filtering_def shared_demux_def
      put_feed_def put_filter_def Let_def  lift_driver_def on_hw_def example_driver_def dmx_section_feed_release_filter_def
      dvb_dmxdev_feed_restart_def dvb_dmxdev_feed_start_def live_section_def dmx_section_feed_start_filtering_def
      del: replicate.simps)
qed

theorem finished_filter_revived_witness:
  "\<exists>d' c' r. dvb_dmxdev_filter_stop calm_env example_driver shared_demux
     (example_device [once_filter DMXDEV_STATE_DONE 0, once_filter DMXDEV_STATE_GO 1]) 1 = Some (d', c', r) \<and>
     get_flt c' 0 = Some (once_filter DMXDEV_STATE_GO 0)"
proof -
  let ?c = "example_device [once_filter DMXDEV_STATE_DONE 0, once_filter DMXDEV_STATE_GO 1]"
  obtain d' c' r where s: "dvb_dmxdev_filter_stop calm_env example_driver shared_demux ?c 1 = Some (d', c', r)" using once_stop by blast
  have f: "get_flt ?c 1 = Some (once_filter DMXDEV_STATE_GO 1)" "get_flt ?c 0 = Some (once_filter DMXDEV_STATE_DONE 0)"
    by (simp_all add: get_flt_def mem_get_def example_device_def)
  from finished_filter_revived [OF f(1) _ _ _ _ f(2), of _ 0 _ calm_env example_driver shared_demux d' c' r] s
  have "get_flt c' 0 = Some ((once_filter DMXDEV_STATE_DONE 0)\<lparr>df_state := DMXDEV_STATE_GO\<rparr>)" by (simp add: once_filter_def)
  with s show ?thesis by (auto simp: once_filter_def)
qed

end
