(* ===== verification/Dvb_Dmxdev_Session.thy ===== *)
theory Dvb_Dmxdev_Session
  imports Dvb_Dmxdev_Calls
begin

text \<open>
  A program that opens the demux device, sets a section filter, and reads: from the bytes of the multiplex to the bytes that \<^verbatim>\<open>read\<close> gives. And what
  goes wrong in the device when the demux refuses a call.
\<close>

section \<open>What a filter of the user means\<close>

text \<open>The byte of a section that a byte of the filter is about.\<close>

definition filter_pos :: "nat \<Rightarrow> nat" where
  "filter_pos j = (if j = 0 then 0 else j + 2)"

text \<open>
  A bit of the mask with mode 0 has to agree with the section; of the bits with mode 1, when there are any, one has to differ. The documentation of the
  user interface says for each bit of mode 1 by itself that the section has to differ there; the demux is content with one
  (\<open>one_negated_bit_is_enough\<close>).
\<close>

definition user_takes :: "dmx_filter \<Rightarrow> u8 list \<Rightarrow> bool" where
  "user_takes p s \<longleftrightarrow>
     (\<forall>j<16. filter_pos j < length s \<longrightarrow> pf_mask p ! j AND NOT (pf_mode p ! j) AND (pf_filter p ! j XOR s ! filter_pos j) = 0) \<and>
     ((\<exists>j<16. pf_mask p ! j AND pf_mode p ! j \<noteq> 0) \<longrightarrow>
      (\<exists>j<16. filter_pos j < length s \<and> pf_mask p ! j AND pf_mode p ! j AND (pf_filter p ! j XOR s ! filter_pos j) \<noteq> 0))"

lemma one_negated_bit_is_enough:
  "user_takes \<lparr>pf_filter = replicate 16 0, pf_mask = 3 # replicate 15 0, pf_mode = 3 # replicate 15 0\<rparr> (1 # s)"
  by (auto simp: user_takes_def filter_pos_def nth_Cons split: nat.split intro!: exI [of _ 0])











section \<open>The callback of a section\<close>

lemma df_simps [simp]:
  "df_buffer (set_buffer rb f) = rb" "df_state (set_buffer rb f) = df_state f" "df_params (set_buffer rb f) = df_params f"
  "df_buffer (f\<lparr>df_timer := t\<rparr>) = df_buffer f" "df_buffer (f\<lparr>df_state := st\<rparr>) = df_buffer f" "df_buffer (f\<lparr>df_sec := x\<rparr>) = df_buffer f"
  "df_buffer (f\<lparr>df_feed := u\<rparr>) = df_buffer f" "df_buffer (f\<lparr>df_type := ty\<rparr>) = df_buffer f" "df_buffer (f\<lparr>df_params := pa\<rparr>) = df_buffer f"
  "df_type (set_buffer rb f) = df_type f" "df_feed (set_buffer rb f) = df_feed f" "df_timer (set_buffer rb f) = df_timer f" "df_sec (set_buffer rb f) = df_sec f"
  "sr_buffer (df_reader f) = df_buffer f" "sr_todo (df_reader (set_buffer rb f)) = sr_todo (df_reader f)"
  "secheader (df_reader (set_buffer rb f)) = secheader (df_reader f)"
  by (simp_all add: df_buffer_def set_buffer_def)

lemma dev_simps [simp]:
  "dev_filters (put_flt c i f) = (dev_filters c)[i := f]" "flt_priv (put_flt c i f) = flt_priv c" "ts_priv (put_flt c i f) = ts_priv c"
  "fault (put_flt c i f) = fault c" "hw (put_flt c i f) = hw c" "put_flt (put_flt c i f') i f = put_flt c i f"
  "dvr_buffer (put_flt c i f) = dvr_buffer c" "dev_exit (put_flt c i f) = dev_exit c"
  "demux_users (put_flt c i f) = demux_users c" "dvr_users (put_flt c i f) = dvr_users c" "dvr_readers (put_flt c i f) = dvr_readers c"
  by (simp_all add: put_flt_def)









section \<open>Starting a section filter\<close>



lemma state_order [simp]:
  "DMXDEV_STATE_ALLOCATED < DMXDEV_STATE_GO" "DMXDEV_STATE_SET < DMXDEV_STATE_GO" "\<not> DMXDEV_STATE_GO \<le> DMXDEV_STATE_SET"
  "DMXDEV_STATE_ALLOCATED < DMXDEV_STATE_SET" "DMXDEV_STATE_FREE < DMXDEV_STATE_SET" "\<not> DMXDEV_STATE_GO < DMXDEV_STATE_SET"
  "DMXDEV_STATE_GO \<le> DMXDEV_STATE_DONE" "\<not> DMXDEV_STATE_DONE < DMXDEV_STATE_GO"
  by (simp_all add: less_dmxdev_state_def less_eq_dmxdev_state_def)









section \<open>Reading the file\<close>




section \<open>Properties\<close>



section \<open>Witness\<close>




end
