(* ===== verification/Spec2Isabelle.thy ===== *)
theory Spec2Isabelle
  imports Dvb_Ringbuffer Ir_Nec Ir_Jvc Ir_Sanyo Ir_Sharp Ir_Sony Ir_Rc5 Ir_Rc6 Ir_Rcmm Ir_Xmp Ir_Imon Ir_Mce_Kbd Rc_Receive Rc_Device Dvb_Dmxdev_Session
begin

text \<open>
  Verification of two cores of the TBS media tree: the digital TV core (\<^verbatim>\<open>linux/drivers/media/dvb-core\<close>), which takes transport
  streams from the drivers apart and hands them to clients, and the remote control core (\<^verbatim>\<open>linux/drivers/media/rc\<close>), which turns the pulses and spaces
  of an infrared receiver into key events. Both are platform independent C with their own state machines; the rest of the tree
  is mostly hardware drivers that feed them.

  \<^bold>\<open>How the parts interact.\<close> A driver hands bytes or packets to \<^verbatim>\<open>dvb_dmx_swfilter*\<close>; the byte filter cuts them into packets, the packets are distributed
  to the feeds by their PID, a TS feed passes packets on, a section feed assembles sections and compares them with its filters, and both
  call back their client. The client of most demuxes is the demux device: a program opens it, sets a filter, which allocates and starts a feed, and reads
  what the callbacks have stored in a \<^verbatim>\<open>dvb_ringbuffer\<close>; through the DVR device a program reads a whole stream or plays one back into the demux. An infrared driver stores raw events into the queue of its device; a
  thread gives them to the protocol handlers that are enabled, which decode them into scancodes and call \<^verbatim>\<open>rc_keydown\<close> or \<^verbatim>\<open>rc_repeat\<close>; these look the scancode up in the table of the device and press
  a key, which timers release. The encoders of the handlers do the reverse, for wake-up and transmission. Which
  handlers run is decided by the registry, from the protocols that the user stores in sysfs or the driver wants; a device is registered with its keymap, and
  its driver is switched on by the first user and off by the last.

  \<^bold>\<open>Digital TV.\<close>
    \<^item> \<^verbatim>\<open>Dvb_Ringbuffer\<close> models \<^verbatim>\<open>dvb_ringbuffer.c\<close>, the byte ring and its packet layer, with user space copies that may fault. The ring refines a
      bounded list of bytes; packets are read back as written; the walk over packets is correct for sizes that divide \<open>2 ^ 64\<close> and
      loses a packet for others.
    \<^item> \<^verbatim>\<open>Dvb_Section\<close> models a feed of \<^verbatim>\<open>dvb_demux.c\<close>: payload, section assembly, filters and CRC. The declarative counterpart is there too:
      which sections a filter takes (\<open>matches\<close>), what a client gets of a list of sections (\<open>deliver\<close>), which sections of a buffer are complete.
    \<^item> \<^verbatim>\<open>Dvb_Stream\<close> proves the section filter lossless on streams whose packets all carry payload, one call of it memory safe on any packet
      while the positions in the buffer are in order, and shows that a packet without payload breaks both.
    \<^item> \<^verbatim>\<open>Dvb_Demux\<close> models the rest of the data path of \<^verbatim>\<open>dvb_demux.c\<close>: the distribution of a packet (error flags, continuity counters, the feed of the DVR
      device) and the byte filter for both packet sizes. The filter on any chunks refines the packets one by one, and on a demux that only has TS feeds it returns on any bytes.
    \<^item> \<^verbatim>\<open>Dvb_Multiplex\<close> joins the two: bytes in, sections of one PID out.
    \<^item> \<^verbatim>\<open>Dvb_Dmx_Api\<close> models the calls of the clients (allocation, setup, start, stop, release, frontends, write, initialisation), \<^verbatim>\<open>Dvb_Dmx_Calls\<close> their
      sequences as an inductive relation with its invariant (clients that keep to the rules, packets with payload), \<^verbatim>\<open>Dvb_Dmx_Session\<close> a client from its first call to its sections.
    \<^item> \<^verbatim>\<open>Dvb_Dmxdev_Read\<close> models the buffers of \<^verbatim>\<open>dmxdev.c\<close> and what a user reads from them, sleeping readers included: reads of any sizes give section after
      section, unless an error comes in the middle of one.
    \<^item> \<^verbatim>\<open>Dvb_Dmxdev\<close> models the rest of \<^verbatim>\<open>dmxdev.c\<close>, the demux device and the DVR device: the record \<open>dmxdev\<close> with its filters (\<open>dmxdev_filter\<close>, two unions as
      datatypes) is the state that the callbacks of the demux get. The operations are \<open>dvb_demux_open\<close>, \<open>dvb_demux_do_ioctl\<close>, \<open>dvb_demux_read\<close>, \<open>dvb_demux_poll\<close>,
      \<open>dvb_demux_release\<close>, the same of the DVR device (\<open>dvb_dvr_*\<close>), the callbacks, the timer, and \<open>dvb_dmxdev_init\<close> and \<open>dvb_dmxdev_release\<close>.
    \<^item> \<^verbatim>\<open>Dvb_Dmxdev_Calls\<close> shows what the calls leave behind: the frontend after a stream was played back, and what is wrong after a start that failed, a PID that
      could not be added, and a filter that has delivered its one section. \<^verbatim>\<open>Dvb_Dmxdev_Session\<close> is a program from \<^verbatim>\<open>open\<close> to \<^verbatim>\<open>read\<close>: it reads exactly the
      sections that its filter asks for, when the packets of their PID carry payload without a gap and the sections fit into its buffer.

  \<^bold>\<open>Remote control.\<close>
    \<^item> \<^verbatim>\<open>Ir_Raw\<close> models raw events, their margins and the three modulators of \<^verbatim>\<open>rc-ir-raw.c\<close>, and states the contract of a protocol handler as locales
      (what a decoder does on an event, what an encoder makes); every handler with an encoder interprets them, and the round trip of streams of messages
      is proved once inside.
    \<^item> \<^verbatim>\<open>Ir_Nec\<close>, \<^verbatim>\<open>Ir_Jvc\<close>, \<^verbatim>\<open>Ir_Sanyo\<close>, \<^verbatim>\<open>Ir_Sharp\<close>, \<^verbatim>\<open>Ir_Sony\<close>, \<^verbatim>\<open>Ir_Rc5\<close>, \<^verbatim>\<open>Ir_Rc6\<close>, \<^verbatim>\<open>Ir_Rcmm\<close>, \<^verbatim>\<open>Ir_Xmp\<close>, \<^verbatim>\<open>Ir_Imon\<close> and \<^verbatim>\<open>Ir_Mce_Kbd\<close> model the handlers
      \<^verbatim>\<open>ir-*-decoder.c\<close>: the record of the decoder, its state machine, its encoder. A stream of encoded messages, each duration off by less than
      half a unit, decodes to the key presses that were sent; excluded are the valid scancodes of RC-6 (two customer codes) and RC-MM (a toggle bit) that the decoders report
      differently.
    \<^item> \<^verbatim>\<open>Rc_Proto\<close> models \<^verbatim>\<open>protocols[]\<close> and \<^verbatim>\<open>rc_validate_scancode\<close> of \<^verbatim>\<open>rc-main.c\<close>.
    \<^item> \<^verbatim>\<open>Rc_Table\<close> models the scancode table of \<^verbatim>\<open>rc-main.c\<close> with failing allocations: it refines a finite map, stays sorted, and is shrunk in the
      middle of a load by a duplicate.
    \<^item> \<^verbatim>\<open>Rc_Main\<close> models key presses, repeats, releases and the two timers, as steps interleaved with the timer core: at most one key is
      down, it is the one of the last scancode, and the timers alone release it.
    \<^item> \<^verbatim>\<open>Rc_Raw\<close> models the queue of a device and the functions of \<^verbatim>\<open>rc-ir-raw.c\<close> that store into it (plain, by edges, with timeout, with filter): the
      filter joins the samples of the hardware into one event per pulse and space.
    \<^item> \<^verbatim>\<open>Rc_Registry\<close> models the lists of handlers and devices, the thread of a device, \<^verbatim>\<open>change_protocol\<close>, the encoding through the registry and the
      loading of modules (what can be decoded stays wanted, and only needed modules are loaded), and a step relation in which handlers and devices come and go and changes
      of protocols are interleaved at the points where the lock is released: a handler is used exactly where a protocol of it is enabled, as long as no handler goes
      in the middle of a change or before a new device is listed.
    \<^item> \<^verbatim>\<open>Rc_Receive\<close> joins these: from the samples of a NEC message to the key that goes down.
    \<^item> \<^verbatim>\<open>Rc_Sysfs\<close> models the attributes of a device in \<^verbatim>\<open>rc-main.c\<close>, as texts: protocols, filters and the protocol for wake-up. What is shown can be stored
      back if whole groups were enabled, lists of changes mean what they say, the filter for wake-up stays valid.
    \<^item> \<^verbatim>\<open>Rc_Device\<close> models the list of keymaps and the life of a device: allocation, registration with its error labels, users, unregistration, with the
      sequences of these as an inductive relation. A failure is undone, and the driver is on exactly while a registered device is used.

  \<^bold>\<open>How C is modelled.\<close> (\<^verbatim>\<open>Kernel_Prelude\<close>) Integers that wrap or are masked are words of their width; sizes, indices and counts that cannot leave
  their range are \<^typ>\<open>nat\<close>. An access to an array goes through \<open>mem_get\<close>, \<open>mem_set\<close>, \<open>mem_read\<close> or \<open>mem_write\<close>, and its result \<^const>\<open>None\<close> is an access
  outside the object; a theorem that a call returns \<^const>\<open>Some\<close> is therefore memory safety. Pointers into arrays are indices. Errors of the kernel
  are \<open>Inl\<close> of an \<open>errno\<close>. Callbacks get and return a state of the client of any type. No definition uses fuel: the loops that are not
  structural have a measure (the bytes left of the chunk, of the section buffer, of the events).

  \<^bold>\<open>Parameters.\<close> Kernel code outside the repository is a parameter: the CRC of the kernel, \<^verbatim>\<open>bitrev8\<close>, \<^verbatim>\<open>bsearch\<close> (by its documented result on sorted
  arrays), the allocator (which may fail), the jiffies, the signals, the copies from and to the user; so are the callbacks of clients, the
  drivers behind a demux and a receiver, the module loader with what the modules register, \<^verbatim>\<open>kstrtoul\<close> and \<^verbatim>\<open>sysfs_streq\<close>. The clock is bounded by \<open>2 ^ 61\<close>, which keeps sums of times from wrapping.

  \<^bold>\<open>Not modelled.\<close> Locking: a call runs under the lock it takes, and the steps are the calls, except for
  the registry, whose steps are the parts of the calls between which its lock is free. Logging and statistics. Module registration and
  device files, reference counts of devices. The memory mapped buffers of the demux device (\<^verbatim>\<open>CONFIG_DVB_MMAP\<close>, over videobuf2). The other parts of the
  digital TV core: the tuning thread with its search and the properties of a frontend (\<^verbatim>\<open>dvb_frontend.c\<close>), the link layer of the common interface
  (\<^verbatim>\<open>dvb_ca_en50221.c\<close>) and the network over a transport stream (\<^verbatim>\<open>dvb_net.c\<close>), which drive hardware or the network stack; the device of \<^verbatim>\<open>lirc_dev.c\<close>. The hardware drivers, the V4L2 and CEC cores, and the keymaps (tables of data).
\<close>

end
